(* ===== verification/Prelude.thy ===== *)
theory Prelude
  imports Main "HOL-Library.Word"
begin

text \<open>
  Shared notation, automation and lemmas of the development.

  \<^item> Rust's machine integers are words of their width. Arithmetic is that of the release
    profile (\<open>Cargo.toml\<close> leaves \<open>overflow-checks\<close> off there), so \<open>+\<close>, \<open>-\<close> and \<open>*\<close> wrap;
    a shift count is taken modulo the width (\<open>shl\<close>, \<open>shr\<close>).
  \<^item> \<open>Result<T, E>\<close> is the sum \<open>'e + 'a\<close> with \<open>Inl\<close> for \<open>Err\<close>, \<open>Option\<close> is \<open>option\<close>.
  \<^item> A Rust \<open>String\<close> is a list of bytes, read as characters; \<open>len()\<close> is \<open>length\<close>.
  \<^item> Decimal printing and \<open>str::parse\<close> of unsigned integers, as the standard library has them.
  \<^item> Facts about the bits of packed words, used wherever fields are packed into an identifier.
\<close>

unbundle bit_operations_syntax

type_synonym u8 = "8 word"
type_synonym u16 = "16 word"
type_synonym u32 = "32 word"
type_synonym u64 = "64 word"
type_synonym u128 = "128 word"

named_theorems prelude_simps \<open>rewrite rules of the helper operations\<close>

section \<open>Machine arithmetic\<close>

definition shl :: "'a::len word \<Rightarrow> nat \<Rightarrow> 'a word" where
  "shl x n = push_bit (n mod LENGTH('a)) x"

definition shr :: "'a::len word \<Rightarrow> nat \<Rightarrow> 'a word" where
  "shr x n = drop_bit (n mod LENGTH('a)) x"

definition sat_sub :: "'a::len word \<Rightarrow> 'a word \<Rightarrow> 'a word" where
  "sat_sub x y = (if x < y then 0 else x - y)"

definition sat_add :: "'a::len word \<Rightarrow> 'a word \<Rightarrow> 'a word" where
  "sat_add x y = (if unat x + unat y < 2 ^ LENGTH('a) then x + y else - 1)"

definition checked_add :: "'a::len word \<Rightarrow> 'a word \<Rightarrow> 'a word option" where
  "checked_add x y = (if unat x + unat y < 2 ^ LENGTH('a) then Some (x + y) else None)"

lemma unat_sat_sub [prelude_simps]: "unat (sat_sub x y) = unat x - unat y"
  by (simp add: sat_sub_def word_less_nat_alt unat_sub word_le_nat_alt)

lemma unat_checked_add:
  "checked_add x y = Some z \<Longrightarrow> unat z = unat x + unat y"
  by (auto simp: checked_add_def unat_word_ariths split: if_splits)

lemma unat_add_bounded:
  fixes x y :: "'a::len word"
  assumes "unat x + unat y < 2 ^ LENGTH('a)"
  shows "unat (x + y) = unat x + unat y"
  using assms by (simp add: unat_word_ariths)

lemma unat_shr [prelude_simps]:
  fixes x :: "'a::len word"
  shows "unat (shr x n) = unat x div 2 ^ (n mod LENGTH('a))"
proof -
  have "unat (drop_bit m x) = unat x div 2 ^ m" for m
    by (metis drop_bit_eq_div unat_drop_bit_eq)
  then show ?thesis by (simp only: shr_def)
qed

lemma unat_and_mask [prelude_simps]:
  fixes x :: "'a::len word"
  shows "unat (x AND mask n) = unat x mod 2 ^ n"
proof -
  have "unat (take_bit n x) = take_bit n (unat x)"
    by (rule unsigned_take_bit_eq)
  then show ?thesis
    by (simp only: take_bit_eq_mod flip: take_bit_eq_mask)
qed

lemma unat_ucast_up [prelude_simps]:
  fixes x :: "'a::len word"
  assumes "LENGTH('a) \<le> LENGTH('b)"
  shows "unat (ucast x :: 'b::len word) = unat x"
proof -
  have "unat (ucast x :: 'b word) = take_bit LENGTH('b) (unat x)"
    by (rule unsigned_ucast_eq)
  moreover have "unat x < 2 ^ LENGTH('a)"
    by (rule unsigned_less)
  moreover have "2 ^ LENGTH('a) \<le> (2::nat) ^ LENGTH('b)"
    using assms by (intro power_increasing) simp_all
  ultimately show ?thesis by (simp add: take_bit_nat_eq_self)
qed

section \<open>Packed fields\<close>

text \<open>
  Two words that share no bit are added by \<open>OR\<close>. A packed identifier is an \<open>OR\<close> of shifted
  fields; \<open>unat_or_push_bit\<close> turns one such \<open>OR\<close> into arithmetic, and the decoding lemmas
  read a field back.
\<close>

lemma push_bit_or_eq_add:
  fixes h l :: "'a::len word"
  assumes "unat l < 2 ^ n"
  shows "push_bit n h OR l = push_bit n h + l"
proof -
  have "take_bit n l = l"
  proof (cases "n < LENGTH('a)")
    case True
    have "unat (take_bit n l) = unat l"
      using assms by (metis unsigned_take_bit_eq take_bit_nat_eq_self)
    then show ?thesis by (simp only: word_unat_eq_iff)
  next
    case False
    then show ?thesis by (simp add: take_bit_word_eq_self)
  qed
  then have "\<not> bit l i" if "n \<le> i" for i
    using that by (metis bit_take_bit_iff linorder_not_less)
  then have "push_bit n h AND l = 0"
    by (intro bit_eqI) (auto simp: bit_and_iff bit_push_bit_iff)
  then show ?thesis
    by (simp add: disjunctive_add_eq_or)
qed

lemma unat_push_bit:
  fixes h :: "'a::len word"
  assumes "unat h * 2 ^ n < 2 ^ LENGTH('a)"
  shows "unat (push_bit n h) = unat h * 2 ^ n"
proof -
  have "unat (push_bit n h) = take_bit LENGTH('a) (push_bit n (unat h))"
    by (rule unsigned_push_bit_eq)
  also have "\<dots> = take_bit LENGTH('a) (unat h * 2 ^ n)"
    by (simp only: push_bit_eq_mult)
  also have "\<dots> = unat h * 2 ^ n"
    by (rule take_bit_nat_eq_self) (rule assms)
  finally show ?thesis .
qed

lemma unat_or_push_bit:
  fixes h l :: "'a::len word"
  assumes "unat l < 2 ^ n" and "unat h * 2 ^ n + unat l < 2 ^ LENGTH('a)"
  shows "unat (push_bit n h OR l) = unat h * 2 ^ n + unat l"
proof -
  have "unat (push_bit n h) = unat h * 2 ^ n"
    using assms(2) by (intro unat_push_bit) linarith
  with assms show ?thesis
    by (simp add: push_bit_or_eq_add unat_add_bounded)
qed

lemma packed_lt:
  fixes h l :: nat
  assumes "h < 2 ^ m" "l < 2 ^ n"
  shows "h * 2 ^ n + l < 2 ^ (m + n)"
proof -
  have "h * 2 ^ n + l < (h + 1) * 2 ^ n" using assms(2) by simp
  also have "\<dots> \<le> 2 ^ m * 2 ^ n" using assms(1) by (intro mult_right_mono) auto
  finally show ?thesis by (simp add: power_add)
qed

lemma div_field:
  "(l::nat) < 2 ^ n \<Longrightarrow> (h * 2 ^ n + l) div 2 ^ n = h"
  by simp

lemma mod_field:
  "(l::nat) < 2 ^ n \<Longrightarrow> (h * 2 ^ n + l) mod 2 ^ n = l"
  by simp

section \<open>Strings, positional numerals and \<open>str::parse\<close>\<close>

definition code_of :: "char \<Rightarrow> nat" where
  "code_of c = of_char c"

definition is_digit :: "char \<Rightarrow> bool" where
  "is_digit c \<longleftrightarrow> 48 \<le> code_of c \<and> code_of c \<le> 57"

definition is_space :: "char \<Rightarrow> bool" where
  "is_space c \<longleftrightarrow> code_of c = 32 \<or> 9 \<le> code_of c \<and> code_of c \<le> 13"

definition lower_char :: "char \<Rightarrow> char" where
  "lower_char c = (if 65 \<le> code_of c \<and> code_of c \<le> 90 then char_of (code_of c + 32) else c)"

definition to_lowercase :: "string \<Rightarrow> string" where
  "to_lowercase s = map lower_char s"

definition trim :: "string \<Rightarrow> string" where
  "trim s = rev (dropWhile is_space (rev (dropWhile is_space s)))"

text \<open>The digits of \<open>n\<close> to base \<open>b\<close>, least significant first, and the value of a digit list.\<close>

function digits_lsf :: "nat \<Rightarrow> nat \<Rightarrow> nat list" where
  "digits_lsf b n = (if n = 0 \<or> b < 2 then [] else n mod b # digits_lsf b (n div b))"
  by auto
termination
  by (relation "measure snd") auto

declare digits_lsf.simps [simp del]

fun value_lsf :: "nat \<Rightarrow> nat list \<Rightarrow> nat" where
  "value_lsf b [] = 0"
| "value_lsf b (d # ds) = d + b * value_lsf b ds"

definition value_msf :: "nat \<Rightarrow> nat list \<Rightarrow> nat" where
  "value_msf b ds = foldl (\<lambda>acc d. acc * b + d) 0 ds"

definition digit_upper :: "nat \<Rightarrow> char" where
  "digit_upper d = char_of (if d < 10 then 48 + d else 55 + d)"

definition digit_value :: "char \<Rightarrow> nat" where
  "digit_value c = (if is_digit c then code_of c - 48 else code_of c - 55)"

definition print_base :: "nat \<Rightarrow> nat \<Rightarrow> string" where
  "print_base b n = (if n = 0 then ''0'' else rev (map digit_upper (digits_lsf b n)))"

abbreviation print_dec :: "nat \<Rightarrow> string" where
  "print_dec n \<equiv> print_base 10 n"

definition read_base :: "nat \<Rightarrow> string \<Rightarrow> nat" where
  "read_base b s = value_msf b (map digit_value s)"

text \<open>
  \<open>s.parse::<uN>()\<close> with \<open>lim = 2 ^ N\<close>: an optional leading plus sign, then at least one ASCII
  digit, and a value that fits.
\<close>

definition parse_unsigned :: "nat \<Rightarrow> string \<Rightarrow> nat option" where
  "parse_unsigned lim s =
     (let ds = (case s of [] \<Rightarrow> [] | c # r \<Rightarrow> if c = CHR ''+'' then r else s) in
      if ds = [] \<or> \<not> list_all is_digit ds then None
      else if read_base 10 ds < lim then Some (read_base 10 ds) else None)"

text \<open>\<open>s.parse::<i64>()\<close>: a sign and digits, in range.\<close>

definition parse_i64 :: "string \<Rightarrow> int option" where
  "parse_i64 s =
     (let neg = (s \<noteq> [] \<and> hd s = CHR ''-'');
          ds = (if s \<noteq> [] \<and> (hd s = CHR ''-'' \<or> hd s = CHR ''+'') then tl s else s);
          v = (if neg then - int (read_base 10 ds) else int (read_base 10 ds))
      in if ds = [] \<or> \<not> list_all is_digit ds then None
         else if - (2 ^ 63) \<le> v \<and> v < 2 ^ 63 then Some v else None)"

lemma value_digits_lsf: "2 \<le> b \<Longrightarrow> value_lsf b (digits_lsf b n) = n"
  by (induction b n rule: digits_lsf.induct) (subst digits_lsf.simps, auto)

lemma digits_lsf_bound: "\<lbrakk>2 \<le> b; d \<in> set (digits_lsf b n)\<rbrakk> \<Longrightarrow> d < b"
proof (induction b n rule: digits_lsf.induct)
  case (1 b n)
  show ?case
  proof (cases "n = 0 \<or> b < 2")
    case True
    with 1 show ?thesis by (simp add: digits_lsf.simps [of b n])
  next
    case False
    with 1 show ?thesis by (auto simp: digits_lsf.simps [of b n])
  qed
qed

lemma digits_lsf_Nil: "2 \<le> b \<Longrightarrow> digits_lsf b n = [] \<longleftrightarrow> n = 0"
  by (simp add: digits_lsf.simps [of b n])

lemma value_msf_append [prelude_simps]: "value_msf b (ds @ [d]) = value_msf b ds * b + d"
  by (simp add: value_msf_def)

lemma value_msf_rev: "value_msf b (rev ds) = value_lsf b ds"
  by (induction ds) (simp_all add: value_msf_append, simp add: value_msf_def)

lemma code_of_char_of: "n < 256 \<Longrightarrow> code_of (char_of n) = n"
  by (simp add: code_of_def)

lemma digit_value_upper: "d < 36 \<Longrightarrow> digit_value (digit_upper d) = d"
  by (simp add: digit_value_def digit_upper_def is_digit_def code_of_char_of)

lemma is_digit_upper: "d < 10 \<Longrightarrow> is_digit (digit_upper d)"
  by (simp add: digit_upper_def is_digit_def code_of_char_of)

lemma read_print_base:
  assumes "2 \<le> b" "b \<le> 36"
  shows "read_base b (print_base b n) = n"
proof (cases "n = 0")
  case True
  then show ?thesis
    by (simp add: print_base_def read_base_def value_msf_def digit_value_def is_digit_def code_of_def)
next
  case False
  have "map digit_value (map digit_upper (digits_lsf b n)) = digits_lsf b n"
  proof -
    have "digit_value (digit_upper d) = d" if "d \<in> set (digits_lsf b n)" for d
      using digits_lsf_bound [OF assms(1) that] assms(2) by (simp add: digit_value_upper)
    then show ?thesis by (simp add: map_idI)
  qed
  with False assms show ?thesis
    by (simp add: print_base_def read_base_def value_msf_rev value_digits_lsf
        flip: rev_map del: map_map)
qed

lemma print_base_nonempty [simp]: "2 \<le> b \<Longrightarrow> print_base b n \<noteq> []"
  by (simp add: print_base_def digits_lsf_Nil)

lemma digit_upper_0: "digit_upper 0 = CHR ''0''"
  by (simp add: digit_upper_def char_of_eq_iff)

lemma print_base_chars:
  assumes "2 \<le> b" "c \<in> set (print_base b n)"
  shows "\<exists>d < b. c = digit_upper d"
proof (cases "n = 0")
  case True
  then have "c = digit_upper 0"
    using assms(2) by (simp add: print_base_def digit_upper_0)
  then show ?thesis using assms(1) by (intro exI [of _ 0]) simp
next
  case False
  then show ?thesis
    using assms digits_lsf_bound [OF assms(1)] by (auto simp: print_base_def)
qed

lemma read_base_zeros: "read_base b (replicate k CHR ''0'' @ s) = read_base b s"
proof -
  have "foldl (\<lambda>acc d. acc * b + d) 0 (replicate k 0) = 0" by (induction k) simp_all
  then show ?thesis
    by (simp add: read_base_def value_msf_def digit_value_def is_digit_def code_of_def)
qed

lemma print_dec_digits: "c \<in> set (print_dec n) \<Longrightarrow> is_digit c"
  using print_base_chars [of 10 c n] is_digit_upper by auto

lemma digit_not_special:
  assumes "is_digit c"
  shows "c \<noteq> CHR ''+''" "c \<noteq> CHR ''-''" "\<not> is_space c"
  using assms by (auto simp: is_digit_def is_space_def code_of_def)

lemma parse_print_dec: "n < lim \<Longrightarrow> parse_unsigned lim (print_dec n) = Some n"
proof -
  assume "n < lim"
  obtain c r where cr: "print_dec n = c # r"
    by (cases "print_dec n") (use print_base_nonempty [of 10 n] in auto)
  have "c \<noteq> CHR ''+''"
    using print_dec_digits [of c n] cr digit_not_special by auto
  moreover have "list_all is_digit (print_dec n)"
    by (simp add: list_all_iff print_dec_digits)
  ultimately show ?thesis
    using \<open>n < lim\<close> cr read_print_base [of 10 n]
    by (simp add: parse_unsigned_def)
qed

lemma trim_id:
  assumes "\<And>c. c \<in> set s \<Longrightarrow> \<not> is_space c"
  shows "trim s = s"
proof -
  have drop: "dropWhile is_space xs = xs" if "\<And>c. c \<in> set xs \<Longrightarrow> \<not> is_space c" for xs
    using that by (cases xs) auto
  have "dropWhile is_space s = s" "dropWhile is_space (rev s) = rev s"
    by (rule drop; simp add: assms)+
  then show ?thesis by (simp add: trim_def)
qed

lemma trim_print_dec: "trim (print_dec n) = print_dec n"
  by (intro trim_id digit_not_special(3) print_dec_digits)

lemma print_dec_no_dash: "CHR ''-'' \<notin> set (print_dec n)"
  using print_dec_digits digit_not_special(2) by blast

lemma map_sum_Inr:
  "map_sum h f x = Inr v \<longleftrightarrow> (\<exists>y. x = Inr y \<and> v = f y)" "Inr v = map_sum h f x \<longleftrightarrow> (\<exists>y. x = Inr y \<and> v = f y)"
  by (cases x; auto)+

end
