(* ===== verification/F64.thy ===== *)
theory F64
  imports Complex_Main Prelude "HOL-Library.Log_Nat"
begin

text \<open>
  Rust's \<open>f64\<close> on the values the code computes with: a finite double is the rational it denotes, and
  an operation is the exact one followed by \<open>f64_round\<close>, rounding to the nearest multiple of the
  unit of the 53-bit significand, ties to even. Overflow to infinity and subnormal numbers cannot
  occur: every value the code reaches is 0 or lies between \<open>2 ^ - 200\<close> and \<open>2 ^ 200\<close>.
\<close>

definition ilog2 :: "rat \<Rightarrow> int" where
  "ilog2 a = (if a \<ge> 1 then int (floorlog 2 (nat \<lfloor>a\<rfloor>)) - 1
              else - int (floorlog 2 (nat \<lceil>1 / a\<rceil> - 1)))"

definition round_half_even :: "rat \<Rightarrow> int" where
  "round_half_even x =
     (let f = \<lfloor>x\<rfloor>; d = x - of_int f in
      if d < 1 / 2 then f else if d > 1 / 2 then f + 1 else if even f then f else f + 1)"

definition f64_round :: "rat \<Rightarrow> rat" where
  "f64_round q =
     (if q = 0 then 0
      else let e = ilog2 \<bar>q\<bar> - 52 in
           sgn q * (of_int (round_half_even (\<bar>q\<bar> / 2 powi e)) * 2 powi e))"

definition f64_of_u64 :: "u64 \<Rightarrow> rat" where
  "f64_of_u64 x = f64_round (of_nat (unat x))"

definition f64_add :: "rat \<Rightarrow> rat \<Rightarrow> rat" where
  "f64_add x y = f64_round (x + y)"

definition f64_sub :: "rat \<Rightarrow> rat \<Rightarrow> rat" where
  "f64_sub x y = f64_round (x - y)"

definition f64_mul :: "rat \<Rightarrow> rat \<Rightarrow> rat" where
  "f64_mul x y = f64_round (x * y)"

definition f64_div :: "rat \<Rightarrow> rat \<Rightarrow> rat" where
  "f64_div x y = f64_round (x / y)"

text \<open>\<open>f64::round\<close> (half away from zero) and the saturating cast \<open>as u64\<close>, on non-negative values.\<close>

definition f64_round_int :: "rat \<Rightarrow> rat" where
  "f64_round_int x = of_int (if x \<ge> 0 then \<lfloor>x + 1 / 2\<rfloor> else - \<lfloor>- x + 1 / 2\<rfloor>)"

definition f64_to_u64 :: "rat \<Rightarrow> u64" where
  "f64_to_u64 x = (if x < 0 then 0 else if \<lfloor>x\<rfloor> \<ge> 2 ^ 64 then - 1 else of_int \<lfloor>x\<rfloor>)"

section \<open>Correctness of the rounding\<close>

lemma ilog2_bounds:
  assumes "0 < a"
  shows "2 powi ilog2 a \<le> a" "a < 2 powi (ilog2 a + 1)"
proof -
  have "2 powi ilog2 a \<le> a \<and> a < 2 powi (ilog2 a + 1)"
  proof (cases "a \<ge> 1")
    case True
    let ?n = "nat \<lfloor>a\<rfloor>" and ?k = "floorlog 2 (nat \<lfloor>a\<rfloor>)"
    have n: "0 < ?n" using True by simp
    then have k: "0 < ?k" by (simp add: floorlog_def)
    have b: "2 ^ (?k - 1) \<le> ?n" "?n < 2 ^ ?k" using floorlog_bounds [OF n, of 2] by simp_all
    have "(2::rat) ^ (?k - 1) \<le> of_nat ?n" using b(1) by (metis of_nat_le_iff of_nat_numeral of_nat_power)
    also have "of_nat ?n \<le> a" using True by simp
    finally have lo: "2 ^ (?k - 1) \<le> a" .
    have "a < of_nat ?n + 1" using True by linarith
    also have "\<dots> \<le> 2 ^ ?k" using b(2)
      by (metis Suc_leI of_nat_Suc of_nat_le_iff of_nat_numeral of_nat_power add.commute)
    finally have hi: "a < 2 ^ ?k" .
    have "ilog2 a = int (?k - 1)" "ilog2 a + 1 = int ?k" using True k by (simp_all add: ilog2_def)
    with lo hi show ?thesis by (simp only: power_int_of_nat)
  next
    case False
    let ?b = "1 / a"
    let ?n = "nat \<lceil>?b\<rceil> - 1" and ?k = "floorlog 2 (nat \<lceil>1 / a\<rceil> - 1)"
    have b1: "1 < ?b" using False assms by simp
    then have n: "0 < ?n" by linarith
    then have k: "0 < ?k" by (simp add: floorlog_def)
    have b: "2 ^ (?k - 1) \<le> ?n" "?n < 2 ^ ?k" using floorlog_bounds [OF n, of 2] by simp_all
    have up: "of_nat ?n < ?b" using b1 by linarith
    have "(2::rat) ^ (?k - 1) \<le> of_nat ?n" using b(1) by (metis of_nat_le_iff of_nat_numeral of_nat_power)
    from this up have lo: "2 ^ (?k - 1) < ?b" by (rule le_less_trans)
    have "?b \<le> of_nat ?n + 1" using b1 by linarith
    also have "\<dots> \<le> 2 ^ ?k" using b(2)
      by (metis Suc_leI of_nat_Suc of_nat_le_iff of_nat_numeral of_nat_power add.commute)
    finally have hi: "?b \<le> 2 ^ ?k" .
    have e: "ilog2 a = - int ?k" "ilog2 a + 1 = - int (?k - 1)"
      using False k by (simp_all add: ilog2_def)
    have "2 powi (- int ?k) \<le> a" using hi assms by (simp add: power_int_minus field_simps)
    moreover have "a < 2 powi (- int (?k - 1))" using lo assms by (simp add: power_int_minus field_simps)
    ultimately show ?thesis unfolding e(2) unfolding e(1) by blast
  qed
  then show "2 powi ilog2 a \<le> a" "a < 2 powi (ilog2 a + 1)" by blast+
qed

lemma round_half_even_int [simp]: "round_half_even (of_int n) = n"
  by (simp add: round_half_even_def)

lemma round_half_even_ge: "of_int n \<le> x \<Longrightarrow> n \<le> round_half_even x"
  by (simp add: round_half_even_def Let_def le_floor_iff) linarith

lemma f64_round_0 [simp]: "f64_round 0 = 0"
  by (simp add: f64_round_def)

lemma f64_round_pos:
  assumes "0 < q"
  shows "0 < f64_round q"
proof -
  let ?e = "ilog2 q - 52"
  have "2 powi 52 * 2 powi ?e = (2::rat) powi (52 + ?e)" by (subst power_int_add) simp_all
  also have "\<dots> \<le> q" using ilog2_bounds(1) [OF assms] by simp
  finally have "2 powi 52 \<le> q / 2 powi ?e" by (simp add: field_simps)
  then have "of_int 1 \<le> q / 2 powi ?e" by (rule order_trans [rotated]) simp
  from round_half_even_ge [OF this] show ?thesis
    using assms by (simp add: f64_round_def Let_def)
qed

lemma f64_round_exact:
  assumes "n < 2 ^ 53"
  shows "f64_round (of_nat n * 2 powi k) = of_nat n * 2 powi k"
proof (cases "n = 0")
  case False
  let ?q = "of_nat n * 2 powi k :: rat"
  let ?e = "ilog2 ?q - 52"
  have q: "0 < ?q" using False by simp
  have "(2::rat) powi ilog2 ?q \<le> ?q" by (rule ilog2_bounds(1) [OF q])
  also have "\<dots> < 2 powi 53 * 2 powi k"
    using assms by (metis mult_strict_right_mono of_nat_less_iff of_nat_numeral of_nat_power
        power_int_numeral zero_less_numeral zero_less_power_int)
  also have "\<dots> = 2 powi (53 + k)" by (simp add: power_int_add)
  finally have "\<not> (2::rat) powi (53 + k) \<le> 2 powi ilog2 ?q" by simp
  then have "ilog2 ?q < 53 + k"
    using power_int_increasing [of "53 + k" "ilog2 ?q" "2::rat"] by linarith
  then have "0 \<le> k - ?e" by simp
  then obtain m where m: "k - ?e = int m" by (metis nonneg_int_cases)
  have "?q / 2 powi ?e = of_nat n * 2 powi (k - ?e)" by (simp add: power_int_diff)
  also have "\<dots> = of_int (int n * 2 ^ m)" by (simp only: m power_int_of_nat) simp
  finally have "round_half_even (?q / 2 powi ?e) = int n * 2 ^ m"
    by (simp only: round_half_even_int)
  moreover have "(of_int (int n * 2 ^ m) :: rat) * 2 powi ?e = ?q"
  proof -
    have "(of_int (int n * 2 ^ m) :: rat) * 2 powi ?e = of_nat n * (2 powi (k - ?e) * 2 powi ?e)"
      by (simp only: m power_int_of_nat) simp
    also have "(2::rat) powi (k - ?e) * 2 powi ?e = 2 powi (k - ?e + ?e)"
      by (subst power_int_add) simp_all
    finally show ?thesis by simp
  qed
  ultimately show ?thesis using q False by (simp add: f64_round_def Let_def)
qed simp

lemma f64_round_nat: "n < 2 ^ 53 \<Longrightarrow> f64_round (of_nat n) = of_nat n"
  using f64_round_exact [of n 0] by simp

lemma f64_round_1 [simp]: "f64_round 1 = 1"
  using f64_round_nat [of 1] by simp

lemma f64_of_u64_pos: "x \<noteq> 0 \<Longrightarrow> 0 < f64_of_u64 x"
  unfolding f64_of_u64_def by (intro f64_round_pos) (metis of_nat_0_less_iff unat_gt_0)

lemma f64_div_self: "x \<noteq> 0 \<Longrightarrow> f64_div (f64_of_u64 x) (f64_of_u64 x) = 1"
  using f64_of_u64_pos [of x] by (simp add: f64_div_def)

lemma f64_of_u64_exact: "unat x < 2 ^ 53 \<Longrightarrow> f64_of_u64 x = of_nat (unat x)"
  unfolding f64_of_u64_def by (rule f64_round_nat) simp

end
