(* ===== verification/Types_Id.thy ===== *)
theory Types_Id
  imports Prelude
begin

text \<open>
  The identifier type and the error type of \<open>src/src/core/types\<close> (\<open>id.rs\<close>, \<open>error.rs\<close>).

  \<^item> \<open>Id\<close> wraps a \<open>u128\<close>; its \<open>Display\<close> prints a UUID when the version nibble (bits 76 to 79)
    is 4 or 7 and a decimal number otherwise, and \<open>from_string\<close> reads both.
  \<^item> The \<open>uuid\<close> crate is not part of the repository: \<open>Uuid::from_u128(u).to_string()\<close> is the
    parameter \<open>disp\<close> and \<open>Uuid::parse_str\<close> the parameter \<open>parse\<close> of the definitions that call
    them. \<open>uuid_hyphenated\<close> and \<open>uuid_unhyphenate\<close> are a concrete pair that meets what the
    crate documents, used to show that the assumptions can hold.
  \<^item> Strings are read as ASCII: the Unicode part of \<open>trim\<close> and \<open>to_lowercase\<close> is outside the
    model. \<open>IdBatch::generated_at\<close>, a clock reading no operation looks at, is left out.
\<close>

section \<open>Errors\<close>

datatype core_error =
    InvalidIdFormat string
  | InvalidIdString string
  | InvalidAlgorithmType string
  | ClockMovedBackward (last_timestamp_of: u64)
  | SequenceOverflow u64
  | SegmentExhausted (max_id_of: u64)
  | DatabaseError string
  | CacheError string
  | ConfigurationError string
  | AuthenticationError string
  | RateLimitExceeded
  | NotFound string
  | WorkspaceDisabled string
  | BizTagNotFound string
  | ApiKeyDisabled
  | ApiKeyExpired
  | InvalidApiKeySignature
  | EtcdError string
  | ParseError string
  | IoError string
  | TimeoutError
  | InternalError string
  | InvalidInput string
  | Unknown

type_synonym 'a res = "core_error + 'a"

fun i18n_key :: "core_error \<Rightarrow> string" where
  "i18n_key (InvalidIdFormat _) = ''error.invalid_id_format''"
| "i18n_key (InvalidIdString _) = ''error.invalid_id_string''"
| "i18n_key (InvalidAlgorithmType _) = ''error.invalid_algorithm_type''"
| "i18n_key (ClockMovedBackward _) = ''error.clock_moved_backward''"
| "i18n_key (SequenceOverflow _) = ''error.sequence_overflow''"
| "i18n_key (SegmentExhausted _) = ''error.segment_exhausted''"
| "i18n_key (DatabaseError _) = ''error.database_error''"
| "i18n_key (CacheError _) = ''error.cache_error''"
| "i18n_key (ConfigurationError _) = ''error.configuration_error''"
| "i18n_key (AuthenticationError _) = ''error.authentication_error''"
| "i18n_key RateLimitExceeded = ''error.rate_limit_exceeded''"
| "i18n_key (NotFound _) = ''error.not_found''"
| "i18n_key (WorkspaceDisabled _) = ''error.workspace_disabled''"
| "i18n_key (BizTagNotFound _) = ''error.biz_tag_not_found''"
| "i18n_key ApiKeyDisabled = ''error.api_key_disabled''"
| "i18n_key ApiKeyExpired = ''error.api_key_expired''"
| "i18n_key InvalidApiKeySignature = ''error.invalid_api_key_signature''"
| "i18n_key (EtcdError _) = ''error.etcd_error''"
| "i18n_key (ParseError _) = ''error.parse_error''"
| "i18n_key (IoError _) = ''error.io_error''"
| "i18n_key TimeoutError = ''error.timeout_error''"
| "i18n_key (InternalError _) = ''error.internal_error''"
| "i18n_key (InvalidInput _) = ''error.invalid_input''"
| "i18n_key Unknown = ''error.unknown''"

fun i18n_args :: "core_error \<Rightarrow> (string \<times> string) list" where
  "i18n_args (InvalidIdFormat s) = [(''value'', s)]"
| "i18n_args (InvalidIdString s) = [(''value'', s)]"
| "i18n_args (InvalidAlgorithmType s) = [(''value'', s)]"
| "i18n_args (ClockMovedBackward t) = [(''last_timestamp'', print_dec (unat t))]"
| "i18n_args (SequenceOverflow t) = [(''timestamp'', print_dec (unat t))]"
| "i18n_args (SegmentExhausted m) = [(''max_id'', print_dec (unat m))]"
| "i18n_args (DatabaseError s) = [(''value'', s)]"
| "i18n_args (CacheError s) = [(''value'', s)]"
| "i18n_args (ConfigurationError s) = [(''value'', s)]"
| "i18n_args (AuthenticationError s) = [(''value'', s)]"
| "i18n_args (NotFound s) = [(''value'', s)]"
| "i18n_args (WorkspaceDisabled s) = [(''value'', s)]"
| "i18n_args (BizTagNotFound s) = [(''value'', s)]"
| "i18n_args (EtcdError s) = [(''value'', s)]"
| "i18n_args (ParseError s) = [(''value'', s)]"
| "i18n_args (IoError s) = [(''value'', s)]"
| "i18n_args (InternalError s) = [(''value'', s)]"
| "i18n_args (InvalidInput s) = [(''value'', s)]"
| "i18n_args _ = []"

section \<open>Algorithm types and formats\<close>

datatype algorithm_type = Segment | Snowflake | UuidV7 | UuidV4

datatype id_format = Numeric | Prefixed | UuidFormat

fun algorithm_name :: "algorithm_type \<Rightarrow> string" where
  "algorithm_name Segment = ''segment''"
| "algorithm_name Snowflake = ''snowflake''"
| "algorithm_name UuidV7 = ''uuid_v7''"
| "algorithm_name UuidV4 = ''uuid_v4''"

definition parse_algorithm :: "string \<Rightarrow> algorithm_type res" where
  "parse_algorithm s =
     (let l = to_lowercase s in
      if l = ''segment'' then Inr Segment
      else if l = ''snowflake'' then Inr Snowflake
      else if l = ''uuid_v7'' \<or> l = ''uuidv7'' \<or> l = ''uuid7'' then Inr UuidV7
      else if l = ''uuid_v4'' \<or> l = ''uuidv4'' \<or> l = ''uuid4'' then Inr UuidV4
      else Inl (InvalidAlgorithmType s))"

fun format_name :: "id_format \<Rightarrow> string" where
  "format_name Numeric = ''numeric''"
| "format_name Prefixed = ''prefixed''"
| "format_name UuidFormat = ''uuid''"

definition parse_format :: "string \<Rightarrow> id_format res" where
  "parse_format s =
     (let l = to_lowercase s in
      if l = ''numeric'' then Inr Numeric
      else if l = ''prefixed'' then Inr Prefixed
      else if l = ''uuid'' then Inr UuidFormat
      else Inl (InvalidIdFormat s))"

section \<open>Identifiers\<close>

datatype id_t = Id (as_u128: u128)

text \<open>Identifiers are ordered by their value, so that the order of the library applies to them.\<close>

instantiation id_t :: linorder
begin

definition less_eq_id_t :: "id_t \<Rightarrow> id_t \<Rightarrow> bool" where
  "less_eq_id_t i j \<longleftrightarrow> as_u128 i \<le> as_u128 j"

definition less_id_t :: "id_t \<Rightarrow> id_t \<Rightarrow> bool" where
  "less_id_t i j \<longleftrightarrow> as_u128 i < as_u128 j"

instance
  by standard (auto simp: less_eq_id_t_def less_id_t_def id_t.expand)

end

lemma less_id_iff: "i < j \<longleftrightarrow> unat (as_u128 i) < unat (as_u128 j)"
  by (simp add: less_id_t_def word_less_nat_alt)

definition from_i64 :: "u64 \<Rightarrow> id_t" where
  "from_i64 v = Id (scast v)"

definition as_i64 :: "id_t \<Rightarrow> u64" where
  "as_i64 i = ucast (as_u128 i)"

definition version_bits :: "id_t \<Rightarrow> u128" where
  "version_bits i = shr (as_u128 i) 76 AND 0xF"

definition to_string :: "(u128 \<Rightarrow> string) \<Rightarrow> id_t \<Rightarrow> string" where
  "to_string disp i =
     (if version_bits i = 7 \<or> version_bits i = 4 then disp (as_u128 i)
      else print_dec (unat (as_u128 i)))"

definition from_string :: "(string \<Rightarrow> u128 option) \<Rightarrow> string \<Rightarrow> id_t res" where
  "from_string parse s =
     (let cleaned = trim s;
          numeric = (case parse_unsigned (2 ^ 128) cleaned of
                       Some v \<Rightarrow> Inr (Id (of_nat v)) | None \<Rightarrow> Inl (InvalidIdString s))
      in if CHR ''-'' \<in> set cleaned \<and> length cleaned = 36
         then (case parse cleaned of Some u \<Rightarrow> Inr (Id u) | None \<Rightarrow> numeric)
         else numeric)"

definition to_prefixed :: "string \<Rightarrow> id_t \<Rightarrow> string" where
  "to_prefixed prefix i = prefix @ print_dec (unat (as_u128 i))"

text \<open>\<open>{:032x}\<close> pads the lower-case hexadecimal digits to 32.\<close>

definition to_hex :: "id_t \<Rightarrow> string" where
  "to_hex i =
     (let h = map lower_char (print_base 16 (unat (as_u128 i)))
      in replicate (32 - length h) CHR ''0'' @ h)"

text \<open>\<open>base36_loop\<close> is the \<open>while num > 0\<close> of \<open>to_base36\<close> with the characters it pushes.\<close>

definition charset36 :: string where
  "charset36 = ''0123456789ABCDEFGHIJKLMNOPQRSTUVWXYZ''"

function base36_loop :: "nat \<Rightarrow> string \<Rightarrow> string" where
  "base36_loop num result =
     (if num = 0 then result else base36_loop (num div 36) (result @ [charset36 ! (num mod 36)]))"
  by auto
termination by (relation "measure fst") auto

declare base36_loop.simps [simp del]

definition to_base36 :: "id_t \<Rightarrow> string" where
  "to_base36 i =
     (if as_u128 i = 0 then ''0'' else rev (base36_loop (unat (as_u128 i)) []))"

section \<open>Batches and metadata\<close>

record id_batch =
  batch_ids :: "id_t list"
  batch_algorithm :: algorithm_type
  batch_biz_tag :: string

definition batch_new :: "id_t list \<Rightarrow> algorithm_type \<Rightarrow> string \<Rightarrow> id_batch" where
  "batch_new is alg tag = \<lparr>batch_ids = is, batch_algorithm = alg, batch_biz_tag = tag\<rparr>"

definition batch_from_u64s :: "u64 list \<Rightarrow> id_batch" where
  "batch_from_u64s vs =
     \<lparr>batch_ids = map (\<lambda>v. Id (ucast v)) vs, batch_algorithm = Segment, batch_biz_tag = []\<rparr>"

definition batch_len :: "id_batch \<Rightarrow> nat" where
  "batch_len b = length (batch_ids b)"

definition batch_is_empty :: "id_batch \<Rightarrow> bool" where
  "batch_is_empty b \<longleftrightarrow> batch_ids b = []"

record id_metadata =
  md_timestamp :: u64
  md_datacenter_id :: u8
  md_worker_id :: u16
  md_sequence :: u16
  md_algorithm :: algorithm_type
  md_biz_tag :: string

definition metadata_for_segment :: "string \<Rightarrow> id_metadata" where
  "metadata_for_segment tag =
     \<lparr>md_timestamp = 0, md_datacenter_id = 0, md_worker_id = 0, md_sequence = 0,
      md_algorithm = Segment, md_biz_tag = tag\<rparr>"

definition metadata_for_snowflake :: "u64 \<Rightarrow> u8 \<Rightarrow> u16 \<Rightarrow> u16 \<Rightarrow> id_metadata" where
  "metadata_for_snowflake ts dc w sq =
     \<lparr>md_timestamp = ts, md_datacenter_id = dc, md_worker_id = w, md_sequence = sq,
      md_algorithm = Snowflake, md_biz_tag = []\<rparr>"

definition metadata_for_uuid_v7 :: "u64 \<Rightarrow> id_metadata" where
  "metadata_for_uuid_v7 ts =
     \<lparr>md_timestamp = ts, md_datacenter_id = 0, md_worker_id = 0, md_sequence = 0,
      md_algorithm = UuidV7, md_biz_tag = []\<rparr>"

section \<open>Names and codecs\<close>

lemma parse_algorithm_name: "parse_algorithm (algorithm_name a) = Inr a"
  by (cases a) (simp_all add: parse_algorithm_def to_lowercase_def lower_char_def code_of_def)

lemma parse_format_name: "parse_format (format_name f) = Inr f"
  by (cases f) (simp_all add: parse_format_def to_lowercase_def lower_char_def code_of_def)

lemma parse_algorithm_lower:
  "to_lowercase s = to_lowercase t \<Longrightarrow> parse_algorithm s = Inr a \<longleftrightarrow> parse_algorithm t = Inr a"
  by (simp add: parse_algorithm_def Let_def)

lemma i18n_key_prefix: "take 6 (i18n_key e) = ''error.''"
  by (cases e) simp_all

lemma as_i64_from_i64: "as_i64 (from_i64 v) = v"
  by (rule bit_word_eqI) (simp add: as_i64_def from_i64_def bit_ucast_iff bit_signed_iff)

lemma numeric_version_bits:
  assumes "unat (as_u128 i) < 2 ^ 76"
  shows "version_bits i = 0"
proof -
  have "unat (shr (as_u128 i) 76) = 0"
    using assms by (simp add: unat_shr)
  then have "shr (as_u128 i) 76 = 0" by (simp only: unat_eq_zero)
  then show ?thesis by (simp add: version_bits_def)
qed

lemma to_string_numeric:
  "unat (as_u128 i) < 2 ^ 76 \<Longrightarrow> to_string disp i = print_dec (unat (as_u128 i))"
  by (simp add: to_string_def numeric_version_bits)

lemma from_string_print_dec:
  "from_string parse (print_dec (unat (v::u128))) = Inr (Id v)"
proof -
  have "parse_unsigned (2 ^ 128) (print_dec (unat v)) = Some (unat v)"
    by (rule parse_print_dec) (use unsigned_less [of v] in simp)
  then show ?thesis
    by (simp add: from_string_def trim_print_dec print_dec_no_dash)
qed

lemma charset36_nth:
  assumes "d < 36"
  shows "charset36 ! d = digit_upper d"
proof -
  have "map digit_upper [0..<36] = charset36"
    by (simp add: digit_upper_def charset36_def upt_rec char_of_eq_iff)
  then have "charset36 ! d = map digit_upper [0..<36] ! d" by simp
  with assms show ?thesis by simp
qed

lemma base36_loop_digits:
  "base36_loop n acc = acc @ map digit_upper (digits_lsf 36 n)"
  by (induction n acc rule: base36_loop.induct)
    (subst base36_loop.simps, subst digits_lsf.simps, simp add: charset36_nth)

lemma to_base36_print: "to_base36 i = print_base 36 (unat (as_u128 i))"
  by (auto simp: to_base36_def print_base_def base36_loop_digits unat_eq_zero)

text \<open>Hexadecimal output is 32 characters and holds the value.\<close>

lemma digits_lsf_length:
  assumes "2 \<le> b"
  shows "n < b ^ k \<Longrightarrow> length (digits_lsf b n) \<le> k"
proof (induction k arbitrary: n)
  case 0
  then show ?case by (simp add: digits_lsf.simps)
next
  case (Suc k)
  then have "n div b < b ^ k" by (simp add: less_mult_imp_div_less mult.commute)
  with Suc.IH [of "n div b"] show ?case by (subst digits_lsf.simps) simp
qed

lemma length_print_hex: "length (print_base 16 (unat (v::u128))) \<le> 32"
proof -
  have "unat v < 16 ^ 32" using unsigned_less [of v] by simp
  then show ?thesis using digits_lsf_length [of 16 "unat v" 32]
    by (simp add: print_base_def)
qed

lemma length_to_hex: "length (to_hex i) = 32"
  using length_print_hex by (simp add: to_hex_def)

section \<open>A concrete pair for the UUID crate\<close>

text \<open>
  \<open>uuid_hyphenated\<close> prints the 32 hexadecimal digits with dashes after 8, 12, 16 and 20 of them;
  \<open>uuid_unhyphenate\<close> reads such a string back. They stand for the crate only in witnesses.
\<close>

definition upper_hex :: "char \<Rightarrow> char" where
  "upper_hex c = (if is_digit c then c else char_of (code_of c - 32))"

definition uuid_hyphenated :: "u128 \<Rightarrow> string" where
  "uuid_hyphenated u =
     (let h = to_hex (Id u) in
      take 8 h @ ''-'' @ take 4 (drop 8 h) @ ''-'' @ take 4 (drop 12 h) @ ''-'' @
      take 4 (drop 16 h) @ ''-'' @ drop 20 h)"

definition uuid_unhyphenate :: "string \<Rightarrow> u128 option" where
  "uuid_unhyphenate s =
     (if length s = 36 then
        Some (of_nat (read_base 16 (map upper_hex (filter (\<lambda>c. c \<noteq> CHR ''-'') s))))
      else None)"

lemma upper_hex_lower_digit: "d < 36 \<Longrightarrow> upper_hex (lower_char (digit_upper d)) = digit_upper d"
  by (simp add: upper_hex_def lower_char_def digit_upper_def is_digit_def code_of_char_of)

lemma lower_digit_no_dash: "d < 36 \<Longrightarrow> lower_char (digit_upper d) \<noteq> CHR ''-''"
  by (simp add: lower_char_def digit_upper_def code_of_char_of char_of_eq_iff take_bit_nat_eq_self)

lemma length_uuid_hyphenated: "length (uuid_hyphenated u) = 36"
  by (simp add: uuid_hyphenated_def Let_def length_to_hex)

lemma dash_uuid_hyphenated: "CHR ''-'' \<in> set (uuid_hyphenated u)"
  by (simp add: uuid_hyphenated_def Let_def)

lemma to_hex_chars:
  assumes "c \<in> set (to_hex i)"
  shows "\<exists>d < 16. c = lower_char (digit_upper d)"
proof -
  have "CHR ''0'' = lower_char (digit_upper 0)"
    by (simp add: digit_upper_0 lower_char_def code_of_def)
  moreover have "c = CHR ''0'' \<or> c \<in> lower_char ` set (print_base 16 (unat (as_u128 i)))"
    using assms by (auto simp: to_hex_def Let_def)
  ultimately show ?thesis
    using print_base_chars [of 16] by fastforce
qed

lemma read_to_hex: "read_base 16 (map upper_hex (to_hex i)) = unat (as_u128 i)"
proof -
  have "upper_hex (lower_char c) = c" if "c \<in> set (print_base 16 n)" for c n
    using print_base_chars [OF _ that] by (auto simp: upper_hex_lower_digit)
  then have "map upper_hex (map lower_char (print_base 16 n)) = print_base 16 n" for n
    by (simp add: map_idI)
  moreover have "upper_hex CHR ''0'' = CHR ''0''"
    by (simp add: upper_hex_def is_digit_def code_of_def)
  ultimately show ?thesis
    by (simp add: to_hex_def Let_def read_base_zeros read_print_base del: map_map)
qed

lemma filter_uuid_hyphenated:
  "filter (\<lambda>c. c \<noteq> CHR ''-'') (uuid_hyphenated u) = to_hex (Id u)"
proof -
  let ?h = "to_hex (Id u)"
  have no_dash: "c \<noteq> CHR ''-''" if "c \<in> set ?h" for c
    using to_hex_chars [OF that] lower_digit_no_dash by auto
  have keep: "filter (\<lambda>c. c \<noteq> CHR ''-'') xs = xs" if "set xs \<subseteq> set ?h" for xs
    using no_dash that by (intro filter_True) auto
  have "filter (\<lambda>c. c \<noteq> CHR ''-'') (uuid_hyphenated u) =
      take 8 ?h @ take 4 (drop 8 ?h) @ take 4 (drop 12 ?h) @ take 4 (drop 16 ?h) @ drop 20 ?h"
    by (simp add: uuid_hyphenated_def Let_def keep set_drop_subset
        subset_trans [OF set_take_subset set_drop_subset] set_take_subset)
  also have "\<dots> = ?h"
    using append_take_drop_id [of 8 ?h] append_take_drop_id [of 4 "drop 8 ?h"]
      append_take_drop_id [of 4 "drop 12 ?h"] append_take_drop_id [of 4 "drop 16 ?h"]
    by simp
  finally show ?thesis .
qed

lemma uuid_unhyphenate_hyphenated: "uuid_unhyphenate (uuid_hyphenated u) = Some u"
  by (simp add: uuid_unhyphenate_def length_uuid_hyphenated filter_uuid_hyphenated read_to_hex)

lemma trim_uuid_hyphenated: "trim (uuid_hyphenated u) = uuid_hyphenated u"
proof (rule trim_id)
  fix c
  assume "c \<in> set (uuid_hyphenated u)"
  then have "c = CHR ''-'' \<or> c \<in> set (to_hex (Id u))"
    by (auto simp: uuid_hyphenated_def Let_def dest: in_set_takeD in_set_dropD)
  moreover have "\<not> is_space (lower_char (digit_upper d))" if "d < 16" for d
    using that
    by (simp add: is_space_def lower_char_def digit_upper_def code_of_char_of)
  moreover have "\<not> is_space CHR ''-''"
    by (simp add: is_space_def code_of_def)
  ultimately show "\<not> is_space c"
    using to_hex_chars [of c "Id u"] by auto
qed

section \<open>Round trips\<close>

text \<open>
  C27. Reading back the text of an identifier gives the identifier, whichever of its two forms it printed, if
  the UUID crate reads back its own 36-character hyphenated text.
\<close>

theorem id_text_roundtrip:
  assumes "parse (disp (as_u128 i)) = Some (as_u128 i)" "length (disp (as_u128 i)) = 36"
    "CHR ''-'' \<in> set (disp (as_u128 i))" "trim (disp (as_u128 i)) = disp (as_u128 i)"
  shows "from_string parse (to_string disp i) = Inr i"
proof (cases "version_bits i = 7 \<or> version_bits i = 4")
  case True
  with assms show ?thesis by (cases i) (simp add: to_string_def from_string_def Let_def)
next
  case False
  then show ?thesis
    using from_string_print_dec [of parse "as_u128 i"] by (cases i) (simp add: to_string_def)
qed

theorem id_text_roundtrip_witness:
  "from_string uuid_unhyphenate (to_string uuid_hyphenated (Id (7 * 2 ^ 76 + 5))) =
     Inr (Id (7 * 2 ^ 76 + 5))"
  by (rule id_text_roundtrip)
    (rule uuid_unhyphenate_hyphenated length_uuid_hyphenated dash_uuid_hyphenated
       trim_uuid_hyphenated)+

text \<open>
  Every other encoding of an identifier holds its value: the signed 64-bit one, the hexadecimal one, of
  exactly 32 digits, the base-36 one and the decimal one behind a prefix.
\<close>

theorem id_encodings_roundtrip:
  "as_i64 (from_i64 v) = v \<and>
   length (to_hex i) = 32 \<and> read_base 16 (map upper_hex (to_hex i)) = unat (as_u128 i) \<and>
   read_base 36 (to_base36 i) = unat (as_u128 i) \<and>
   parse_unsigned (2 ^ 128) (drop (length prefix) (to_prefixed prefix i)) = Some (unat (as_u128 i))"
proof -
  have "parse_unsigned (2 ^ 128) (print_dec (unat (as_u128 i))) = Some (unat (as_u128 i))"
    by (rule parse_print_dec) (use unsigned_less [of "as_u128 i"] in simp)
  then show ?thesis
    by (simp add: as_i64_from_i64 length_to_hex read_to_hex to_base36_print read_print_base
        to_prefixed_def)
qed

end
