(* ===== verification/Config_Alg.thy ===== *)
theory Config_Alg
  imports F64 Types_Id
begin

text \<open>
  The algorithm configuration of \<open>src/src/core/config/algorithm.rs\<close>. A finite \<open>f64\<close> is the rational
  number it denotes (\<open>NaN\<close> and the infinities are outside the model); the defaults are the
  constants of the source.
\<close>

record segment_config =
  base_step :: u64
  min_step :: u64
  max_step :: u64
  switch_threshold :: rat

definition segment_config_default :: segment_config where
  "segment_config_default =
     \<lparr>base_step = 1000, min_step = 500, max_step = 100000, switch_threshold = f64_round (1 / 10)\<rparr>"

record snowflake_config =
  datacenter_id_bits :: u8
  worker_id_bits :: u8
  sequence_bits :: u8
  clock_drift_threshold_ms :: u64

definition snowflake_config_default :: snowflake_config where
  "snowflake_config_default =
     \<lparr>datacenter_id_bits = 3, worker_id_bits = 8, sequence_bits = 10,
      clock_drift_threshold_ms = 1000\<rparr>"

definition datacenter_id_mask :: "snowflake_config \<Rightarrow> u64" where
  "datacenter_id_mask c = shl 1 (unat (datacenter_id_bits c)) - 1"

definition worker_id_mask :: "snowflake_config \<Rightarrow> u64" where
  "worker_id_mask c = shl 1 (unat (worker_id_bits c)) - 1"

definition sequence_mask :: "snowflake_config \<Rightarrow> u64" where
  "sequence_mask c = shl 1 (unat (sequence_bits c)) - 1"

definition timestamp_bits :: "snowflake_config \<Rightarrow> u8" where
  "timestamp_bits c = 64 - datacenter_id_bits c - worker_id_bits c - sequence_bits c"

record uuid_v7_config =
  uuid_v7_enabled :: bool

definition uuid_v7_config_default :: uuid_v7_config where
  "uuid_v7_config_default = \<lparr>uuid_v7_enabled = True\<rparr>"

record algorithm_config =
  default_algorithm :: string
  segment_cfg :: segment_config
  snowflake_cfg :: snowflake_config
  uuid_v7_cfg :: uuid_v7_config

definition algorithm_config_default :: algorithm_config where
  "algorithm_config_default =
     \<lparr>default_algorithm = ''segment'', segment_cfg = segment_config_default,
      snowflake_cfg = snowflake_config_default, uuid_v7_cfg = uuid_v7_config_default\<rparr>"

definition get_default_algorithm :: "algorithm_config \<Rightarrow> algorithm_type" where
  "get_default_algorithm c =
     (case parse_algorithm (default_algorithm c) of Inr a \<Rightarrow> a | Inl _ \<Rightarrow> Segment)"

section \<open>Masks\<close>

lemma sequence_mask_eq:
  assumes "unat (sequence_bits c) < 64"
  shows "sequence_mask c = mask (unat (sequence_bits c))"
  using assms by (simp add: sequence_mask_def shl_def mask_eq_exp_minus_1)

lemma get_default_algorithm_default: "get_default_algorithm algorithm_config_default = Segment"
  using parse_algorithm_name [of Segment]
  by (simp add: get_default_algorithm_def algorithm_config_default_def)

end
