(* ===== verification/Alg_Traits.thy ===== *)
theory Alg_Traits
  imports Config_Alg
begin

text \<open>
  The data every algorithm shares, \<open>src/src/core/algorithm/traits.rs\<close>: the request context, the health
  report and the metrics snapshot, and the contract of an id source: repeated calls of one generator
  return identifiers above all earlier ones (\<open>id_source\<close>), each of a given shape (\<open>owned_source\<close>).
\<close>

record generate_context =
  ctx_workspace_id :: string
  ctx_group_id :: string
  ctx_biz_tag :: string
  ctx_format :: id_format
  ctx_prefix :: "string option"

definition generate_context_default :: generate_context where
  "generate_context_default =
     \<lparr>ctx_workspace_id = [], ctx_group_id = [], ctx_biz_tag = [], ctx_format = Numeric,
      ctx_prefix = None\<rparr>"

datatype health_status = Healthy | HealthDegraded string | Unhealthy string

definition is_healthy :: "health_status \<Rightarrow> bool" where
  "is_healthy h \<longleftrightarrow> h = Healthy"

record algorithm_metrics =
  am_total_generated :: u64
  am_total_failed :: u64
  am_current_qps :: u64
  am_p50_latency_us :: u64
  am_p99_latency_us :: u64
  am_cache_hit_rate :: "rat option"

definition algorithm_metrics_new :: algorithm_metrics where
  "algorithm_metrics_new =
     \<lparr>am_total_generated = 0, am_total_failed = 0, am_current_qps = 0, am_p50_latency_us = 0,
      am_p99_latency_us = 0, am_cache_hit_rate = None\<rparr>"

section \<open>The contract of an id source\<close>

text \<open>
  A generator is a function from its state and its environment (the readings of the clock and the
  answers of services still to come) to a result, the new state and the rest of the environment;
  \<open>None\<close> means that it still waits when the environment ends. \<open>run_calls\<close> calls it repeatedly.
\<close>

abbreviation id_nat :: "id_t \<Rightarrow> nat" where
  "id_nat i \<equiv> unat (as_u128 i)"

definition increasing :: "id_t list \<Rightarrow> bool" where
  "increasing is \<longleftrightarrow> sorted_wrt (<) is"

fun run_calls ::
  "('s \<Rightarrow> 'e \<Rightarrow> (id_t res \<times> 's \<times> 'e) option) \<Rightarrow> nat \<Rightarrow> 's \<Rightarrow> 'e \<Rightarrow> id_t res list \<times> 's \<times> 'e"
where
  "run_calls gen 0 s e = ([], s, e)"
| "run_calls gen (Suc n) s e =
     (case gen s e of
        None \<Rightarrow> ([], s, e)
      | Some (r, s', e') \<Rightarrow>
          (case run_calls gen n s' e' of (rs, s'', e'') \<Rightarrow> (r # rs, s'', e'')))"

fun ok_ids :: "id_t res list \<Rightarrow> id_t list" where
  "ok_ids [] = []"
| "ok_ids (Inr i # rs) = i # ok_ids rs"
| "ok_ids (Inl e # rs) = ok_ids rs"

lemma increasing_distinct: "increasing is \<Longrightarrow> distinct is"
  unfolding increasing_def by (simp add: strict_sorted_iff)

lemma increasing_id_nat: "increasing is \<longleftrightarrow> sorted_wrt (<) (map id_nat is)"
  unfolding increasing_def by (induction "is") (simp_all add: less_id_iff)

lemma increasing_Nil [simp]: "increasing []"
  by (simp add: increasing_def)

lemma increasing_Cons [simp]:
  "increasing (i # is) \<longleftrightarrow> (\<forall>j \<in> set is. id_nat i < id_nat j) \<and> increasing is"
  by (simp add: increasing_id_nat)

lemma increasing_snoc:
  "increasing is \<Longrightarrow> \<forall>j \<in> set is. id_nat j < id_nat i \<Longrightarrow> increasing (is @ [i])"
  by (simp add: increasing_id_nat sorted_wrt_append)

locale id_source =
  fixes gen :: "'s \<Rightarrow> 'e \<Rightarrow> (id_t res \<times> 's \<times> 'e) option"
    and inv :: "'s \<Rightarrow> 'e \<Rightarrow> bool"
    and next_id :: "'s \<Rightarrow> nat"
  assumes gen_inv: "inv s e \<Longrightarrow> gen s e = Some (r, s', e') \<Longrightarrow> inv s' e'"
    and gen_ok: "inv s e \<Longrightarrow> gen s e = Some (Inr i, s', e') \<Longrightarrow>
      next_id s \<le> id_nat i \<and> id_nat i < next_id s'"
    and gen_err: "inv s e \<Longrightarrow> gen s e = Some (Inl err, s', e') \<Longrightarrow> next_id s \<le> next_id s'"
begin

lemma run_inv: "inv s e \<Longrightarrow> run_calls gen n s e = (rs, s', e') \<Longrightarrow> inv s' e'"
  by (induction n arbitrary: s e rs) (auto split: option.splits prod.splits dest: gen_inv)

lemma run_fresh:
  "inv s e \<Longrightarrow> run_calls gen n s e = (rs, s', e') \<Longrightarrow>
     next_id s \<le> next_id s' \<and>
     (\<forall>i \<in> set (ok_ids rs). next_id s \<le> id_nat i \<and> id_nat i < next_id s') \<and>
     increasing (ok_ids rs)"
proof (induction n arbitrary: s e rs)
  case (Suc n)
  show ?case
  proof (cases "gen s e")
    case None
    with Suc.prems show ?thesis by simp
  next
    case (Some x)
    then obtain r s1 e1 rs1 where g: "gen s e = Some (r, s1, e1)"
      and m: "run_calls gen n s1 e1 = (rs1, s', e')" and rs: "rs = r # rs1"
      using Suc.prems(2) by (cases x) (auto split: prod.splits)
    note IH = Suc.IH [OF gen_inv [OF Suc.prems(1) g] m]
    show ?thesis
    proof (cases r)
      case (Inl err)
      with IH gen_err [OF Suc.prems(1)] g show ?thesis by (fastforce simp: rs)
    next
      case (Inr i)
      with IH gen_ok [OF Suc.prems(1)] g show ?thesis by (fastforce simp: rs)
    qed
  qed
qed simp

end

locale owned_source = id_source +
  fixes own :: "id_t \<Rightarrow> bool"
  assumes gen_own: "inv s e \<Longrightarrow> gen s e = Some (Inr i, s', e') \<Longrightarrow> own i"
begin

lemma run_own:
  "inv s e \<Longrightarrow> run_calls gen n s e = (rs, s', e') \<Longrightarrow> i \<in> set (ok_ids rs) \<Longrightarrow> own i"
proof (induction n arbitrary: s e rs)
  case (Suc n)
  show ?case
  proof (cases "gen s e")
    case None
    with Suc.prems show ?thesis by simp
  next
    case (Some x)
    then obtain r s1 e1 rs1 where g: "gen s e = Some (r, s1, e1)"
      and m: "run_calls gen n s1 e1 = (rs1, s', e')" and rs: "rs = r # rs1"
      using Suc.prems(2) by (cases x) (auto split: prod.splits)
    show ?thesis
      using Suc.IH [OF gen_inv [OF Suc.prems(1) g] m] gen_own [OF Suc.prems(1)] g Suc.prems(3)
      by (cases r) (auto simp: rs)
  qed
qed simp

end

end
