(* ===== verification/Snowflake_Gen.thy ===== *)
theory Snowflake_Gen
  imports Alg_Traits
begin

text \<open>
  The Snowflake generator, \<open>src/src/core/algorithm/snowflake.rs\<close>, as one task runs it: each atomic
  operation takes effect before the next. (\<open>Snowflake_Race\<close> interleaves two tasks.)

  \<^item> The clock is the list of the readings of \<open>SystemTime::now()\<close> still to come, in nanoseconds
    since the Unix epoch, in any order: nothing says they increase. An operation takes its readings
    off the front and returns the rest; \<open>None\<close> means that it still waits when the list ends.
  \<^item> Tracing output is left out. \<open>initialize\<close> takes the fields of \<open>Config\<close> it reads.
\<close>

section \<open>State\<close>

record snowflake_metrics =
  total_generated :: u64
  total_failed :: u64
  clock_backwards :: u64
  sequence_overflows :: u64

definition snowflake_metrics_new :: snowflake_metrics where
  "snowflake_metrics_new =
     \<lparr>total_generated = 0, total_failed = 0, clock_backwards = 0, sequence_overflows = 0\<rparr>"

record snowflake =
  sf_config :: snowflake_config
  sf_datacenter_id :: u8
  sf_worker_id :: u8
  sf_sequence :: u64
  sf_last_timestamp :: u64
  sf_rotation_count :: u8
  sf_metrics :: snowflake_metrics
  sf_clock_drift_ms :: u64

definition snowflake_new :: "u8 \<Rightarrow> u8 \<Rightarrow> snowflake" where
  "snowflake_new dc w =
     \<lparr>sf_config = snowflake_config_default, sf_datacenter_id = dc, sf_worker_id = w,
      sf_sequence = 0, sf_last_timestamp = 0, sf_rotation_count = 0,
      sf_metrics = snowflake_metrics_new, sf_clock_drift_ms = 0\<rparr>"

definition snowflake_initialize ::
  "snowflake_config \<Rightarrow> u8 \<Rightarrow> u8 \<Rightarrow> snowflake \<Rightarrow> snowflake" where
  "snowflake_initialize cfg dc_id worker_id s =
     s\<lparr>sf_config := cfg, sf_datacenter_id := dc_id, sf_worker_id := worker_id\<rparr>"

section \<open>The clock\<close>

definition DEFAULT_START_TIME :: int where
  "DEFAULT_START_TIME = 1704067200000"

definition get_timestamp :: "int \<Rightarrow> u64" where
  "get_timestamp now =
     (if now < DEFAULT_START_TIME * 1000000 then 0
      else of_int ((now - DEFAULT_START_TIME * 1000000) div 1000000))"

fun wait_for_next_ms :: "u64 \<Rightarrow> int list \<Rightarrow> (u64 \<times> int list) option" where
  "wait_for_next_ms last_ts [] = None"
| "wait_for_next_ms last_ts (now # clk) =
     (let current = get_timestamp now in
      if current > last_ts then Some (current, clk) else wait_for_next_ms last_ts clk)"

section \<open>Generation\<close>

definition construct_id :: "snowflake \<Rightarrow> u64 \<Rightarrow> u64 \<Rightarrow> id_t" where
  "construct_id s timestamp sequence =
     (let c = sf_config s;
          dc_id = ucast (sf_datacenter_id s);
          worker = ucast (sf_worker_id s);
          i = (shl timestamp (unat (datacenter_id_bits c + worker_id_bits c + sequence_bits c))
               OR shl dc_id (unat (worker_id_bits c + sequence_bits c))
               OR shl worker (unat (sequence_bits c))
               OR sequence :: u64)
      in Id (ucast i))"

definition count_generated :: "snowflake \<Rightarrow> snowflake" where
  "count_generated s =
     s\<lparr>sf_metrics := (sf_metrics s)\<lparr>total_generated := total_generated (sf_metrics s) + 1\<rparr>\<rparr>"

definition generate_id_with_timestamp ::
  "u64 \<Rightarrow> u64 \<Rightarrow> snowflake \<Rightarrow> id_t res \<times> snowflake" where
  "generate_id_with_timestamp timestamp msk s =
     (let s1 = s\<lparr>sf_last_timestamp := timestamp, sf_sequence := 0\<rparr>;
          seq = sf_sequence s1;
          s2 = s1\<lparr>sf_sequence := seq + 1\<rparr>
      in if seq > 0 \<and> seq AND msk = 0
         then (Inl (SequenceOverflow timestamp),
               s2\<lparr>sf_metrics := (sf_metrics s2)
                    \<lparr>sequence_overflows := sequence_overflows (sf_metrics s2) + 1\<rparr>\<rparr>)
         else (Inr (construct_id s2 timestamp (seq AND msk)), count_generated s2))"

definition wait_and_generate ::
  "u64 \<Rightarrow> u64 \<Rightarrow> snowflake \<Rightarrow> int list \<Rightarrow> (id_t res \<times> snowflake \<times> int list) option" where
  "wait_and_generate last_ts msk s clk =
     (case wait_for_next_ms last_ts clk of
        None \<Rightarrow> None
      | Some (ts, clk') \<Rightarrow>
          (case generate_id_with_timestamp ts msk s of (r, s') \<Rightarrow> Some (r, s', clk')))"

fun generate_id ::
  "snowflake \<Rightarrow> int list \<Rightarrow> (id_t res \<times> snowflake \<times> int list) option" where
  "generate_id s [] = None"
| "generate_id s (now # clk) =
     (let timestamp = get_timestamp now;
          last_ts = sf_last_timestamp s;
          msk = sequence_mask (sf_config s)
      in if timestamp < last_ts then
           (let drift = last_ts - timestamp;
                s1 = s\<lparr>sf_clock_drift_ms := drift,
                       sf_metrics := (sf_metrics s)
                         \<lparr>clock_backwards := clock_backwards (sf_metrics s) + 1\<rparr>\<rparr>
            in if drift > clock_drift_threshold_ms (sf_config s)
               then Some (Inl (ClockMovedBackward last_ts), s1, clk)
               else wait_and_generate last_ts msk s1 clk)
         else if timestamp = last_ts then
           (let seq = sf_sequence s;
                s1 = s\<lparr>sf_sequence := seq + 1\<rparr>
            in if seq > 0 \<and> seq AND msk = 0
               then wait_and_generate timestamp msk
                      (s1\<lparr>sf_rotation_count := sf_rotation_count s1 + 1\<rparr>) clk
               else Some (Inr (construct_id s1 timestamp (seq AND msk)), count_generated s1, clk))
         else
           (let s1 = s\<lparr>sf_sequence := 0, sf_last_timestamp := timestamp\<rparr>;
                seq = sf_sequence s1;
                s2 = s1\<lparr>sf_sequence := seq + 1\<rparr>
            in Some (Inr (construct_id s2 timestamp (seq AND msk)), count_generated s2, clk)))"

definition MAX_RETRIES :: nat where
  "MAX_RETRIES = 100"

text \<open>The \<open>while\<close> of \<open>batch_generate\<close>: every turn pushes an id or counts a retry.\<close>

function batch_loop ::
  "nat \<Rightarrow> id_t list \<Rightarrow> nat \<Rightarrow> snowflake \<Rightarrow> int list \<Rightarrow>
   (id_t list \<times> nat \<times> snowflake \<times> int list) option" where
  "batch_loop sz ids retries s clk =
     (if length ids < sz \<and> retries < MAX_RETRIES then
        (case generate_id s clk of
           None \<Rightarrow> None
         | Some (r, s', clk') \<Rightarrow>
             (case r of
                Inr i \<Rightarrow> batch_loop sz (ids @ [i]) retries s' clk'
              | Inl _ \<Rightarrow> batch_loop sz ids (retries + 1) s' clk'))
      else Some (ids, retries, s, clk))"
  by pat_completeness auto
termination
  by (relation "measure (\<lambda>(sz, ids, retries, _). (sz - length ids) + (MAX_RETRIES - retries))")
    auto

declare batch_loop.simps [simp del]

definition snowflake_batch_generate ::
  "nat \<Rightarrow> snowflake \<Rightarrow> int list \<Rightarrow> (id_batch res \<times> snowflake \<times> int list) option" where
  "snowflake_batch_generate sz s clk =
     (if sz = 0 then Some (Inr (batch_new [] Snowflake []), s, clk)
      else case batch_loop sz [] 0 s clk of
        None \<Rightarrow> None
      | Some (ids, _, s', clk') \<Rightarrow>
          Some (if ids = [] then Inl (InternalError ''Failed to generate IDs after max retries'')
                else Inr (batch_new ids Snowflake []), s', clk'))"

section \<open>Health and metrics\<close>

definition snowflake_health_check :: "snowflake \<Rightarrow> health_status" where
  "snowflake_health_check s =
     (if sf_clock_drift_ms s > clock_drift_threshold_ms (sf_config s)
      then Unhealthy (''Clock drift '' @ print_dec (unat (sf_clock_drift_ms s)) @
             ''ms exceeds threshold '' @
             print_dec (unat (clock_drift_threshold_ms (sf_config s))) @ ''ms'')
      else Healthy)"

definition snowflake_metrics_snapshot :: "snowflake \<Rightarrow> algorithm_metrics" where
  "snowflake_metrics_snapshot s =
     \<lparr>am_total_generated = total_generated (sf_metrics s),
      am_total_failed = total_failed (sf_metrics s), am_current_qps = 0,
      am_p50_latency_us = 0, am_p99_latency_us = 0, am_cache_hit_rate = None\<rparr>"

section \<open>The value of an identifier\<close>

text \<open>
  \<open>sf_wf\<close> says that the fields fit their widths. Then an identifier is the mixed-radix number
  \<open>packed\<close> of its timestamp, its node and its sequence number, below \<open>2 ^ 64\<close>.
\<close>

abbreviation dcb :: "snowflake \<Rightarrow> nat" where "dcb s \<equiv> unat (datacenter_id_bits (sf_config s))"
abbreviation wkb :: "snowflake \<Rightarrow> nat" where "wkb s \<equiv> unat (worker_id_bits (sf_config s))"
abbreviation sqb :: "snowflake \<Rightarrow> nat" where "sqb s \<equiv> unat (sequence_bits (sf_config s))"

definition low_bits :: "snowflake \<Rightarrow> nat" where
  "low_bits s = dcb s + wkb s + sqb s"

definition node_field :: "snowflake \<Rightarrow> nat" where
  "node_field s = unat (sf_datacenter_id s) * 2 ^ wkb s + unat (sf_worker_id s)"

definition sf_wf :: "snowflake \<Rightarrow> bool" where
  "sf_wf s \<longleftrightarrow> low_bits s < 64 \<and> unat (sf_datacenter_id s) < 2 ^ dcb s \<and>
     unat (sf_worker_id s) < 2 ^ wkb s"

definition packed :: "snowflake \<Rightarrow> nat \<Rightarrow> nat \<Rightarrow> nat" where
  "packed s ts seq = ts * 2 ^ low_bits s + (node_field s * 2 ^ sqb s + seq)"

lemma node_field_lt: "sf_wf s \<Longrightarrow> node_field s < 2 ^ (dcb s + wkb s)"
  unfolding node_field_def sf_wf_def by (rule packed_lt) simp_all

lemma unat_construct_id:
  assumes "sf_wf s" "unat ts < 2 ^ (64 - low_bits s)" "unat seq < 2 ^ sqb s"
  shows "unat (as_u128 (construct_id s ts seq)) = packed s (unat ts) (unat seq)"
proof -
  let ?dc = "ucast (sf_datacenter_id s) :: u64"
  let ?w = "ucast (sf_worker_id s) :: u64"
  have b: "dcb s + wkb s + sqb s < 64" using assms(1) by (simp add: sf_wf_def low_bits_def)
  have ws: "unat (worker_id_bits (sf_config s) + sequence_bits (sf_config s)) = wkb s + sqb s"
    using b by (intro unat_add_bounded) simp
  have dws: "unat (datacenter_id_bits (sf_config s) + worker_id_bits (sf_config s) +
      sequence_bits (sf_config s)) = low_bits s"
    using b by (simp add: unat_add_bounded low_bits_def)
  have dc: "unat ?dc = unat (sf_datacenter_id s)" and w: "unat ?w = unat (sf_worker_id s)"
    by (simp_all add: unat_ucast_up)
  have le64: "2 ^ n \<le> (2::nat) ^ 64" if "n \<le> 64" for n
    using that by (intro power_increasing) simp_all
  define x1 where "x1 = push_bit (sqb s) ?w OR seq"
  have lt1: "unat ?w * 2 ^ sqb s + unat seq < 2 ^ (wkb s + sqb s)"
    using assms(1,3) w by (intro packed_lt) (simp_all add: sf_wf_def)
  have x1: "unat x1 = unat ?w * 2 ^ sqb s + unat seq"
    unfolding x1_def
    using lt1 le64 [of "wkb s + sqb s"] b assms(3) by (intro unat_or_push_bit) simp_all
  define x2 where "x2 = push_bit (wkb s + sqb s) ?dc OR x1"
  have lt2: "unat ?dc * 2 ^ (wkb s + sqb s) + unat x1 < 2 ^ (dcb s + (wkb s + sqb s))"
    using assms(1) dc x1 lt1 by (intro packed_lt) (simp_all add: sf_wf_def)
  have x2: "unat x2 = unat ?dc * 2 ^ (wkb s + sqb s) + unat x1"
    unfolding x2_def
    using lt2 le64 [of "low_bits s"] b x1 lt1
    by (intro unat_or_push_bit) (simp_all add: low_bits_def add.assoc)
  have lt3: "unat ts * 2 ^ low_bits s + unat x2 < 2 ^ (64 - low_bits s + low_bits s)"
    using assms(2) x2 lt2 by (intro packed_lt) (simp_all add: low_bits_def add.assoc)
  have x3: "unat (push_bit (low_bits s) ts OR x2) = unat ts * 2 ^ low_bits s + unat x2"
    using lt3 b x2 lt2 by (intro unat_or_push_bit) (simp_all add: low_bits_def add.assoc)
  have "as_u128 (construct_id s ts seq) = ucast (push_bit (low_bits s) ts OR x2)"
    using b by (simp add: construct_id_def Let_def shl_def ws dws x1_def x2_def low_bits_def)
  then have "unat (as_u128 (construct_id s ts seq)) = unat (push_bit (low_bits s) ts OR x2)"
    by (simp add: unat_ucast_up)
  also have "\<dots> = packed s (unat ts) (unat seq)"
    unfolding x3 by (simp add: x1 x2 packed_def node_field_def dc w algebra_simps power_add)
  finally show ?thesis .
qed
section \<open>One call of \<open>generate_id\<close>\<close>

definition same_node :: "snowflake \<Rightarrow> snowflake \<Rightarrow> bool" where
  "same_node s s' \<longleftrightarrow> sf_config s' = sf_config s \<and> sf_datacenter_id s' = sf_datacenter_id s \<and>
     sf_worker_id s' = sf_worker_id s"

lemma same_nodeD:
  assumes "same_node s s'"
  shows "sf_wf s' = sf_wf s" "packed s' = packed s" "low_bits s' = low_bits s"
    "sqb s' = sqb s" "construct_id s' = construct_id s" "node_field s' = node_field s"
  using assms
  by (auto simp: same_node_def sf_wf_def packed_def low_bits_def node_field_def construct_id_def
      fun_eq_iff)

lemma same_node_trans: "same_node s s' \<Longrightarrow> same_node s' s'' \<Longrightarrow> same_node s s''"
  by (simp add: same_node_def)

lemma same_node_refl [simp]: "same_node s s"
  by (simp add: same_node_def)

lemma construct_id_update [simp]:
  "construct_id (s\<lparr>sf_sequence := a\<rparr>) = construct_id s"
  "construct_id (s\<lparr>sf_last_timestamp := b\<rparr>) = construct_id s"
  "construct_id (s\<lparr>sf_metrics := m\<rparr>) = construct_id s"
  "construct_id (s\<lparr>sf_clock_drift_ms := b\<rparr>) = construct_id s"
  "construct_id (s\<lparr>sf_rotation_count := r\<rparr>) = construct_id s"
  by (simp_all add: fun_eq_iff construct_id_def)

lemma generate_id_with_timestamp_eq:
  "generate_id_with_timestamp ts msk s =
     (Inr (construct_id s ts 0), count_generated (s\<lparr>sf_last_timestamp := ts, sf_sequence := 1\<rparr>))"
  by (simp add: generate_id_with_timestamp_def)

lemma wait_for_next_ms_Some:
  "wait_for_next_ms l clk = Some (ts, clk') \<Longrightarrow>
     l < ts \<and> (\<exists>pre now. clk = pre @ now # clk' \<and> ts = get_timestamp now)"
proof (induction clk)
  case (Cons now clk)
  show ?case
  proof (cases "get_timestamp now > l")
    case True
    with Cons.prems show ?thesis by (auto intro: exI [of _ "[]"])
  next
    case False
    with Cons show ?thesis by (auto simp: Let_def intro: exI [of _ "now # _"])
  qed
qed simp

lemma wait_for_next_ms_None:
  "wait_for_next_ms l clk = None \<longleftrightarrow> (\<forall>now \<in> set clk. get_timestamp now \<le> l)"
  by (induction clk) (auto simp: Let_def)

text \<open>The three outcomes of a call: refused, the first id of a new millisecond, one more id.\<close>

definition refused :: "snowflake \<Rightarrow> id_t res \<Rightarrow> snowflake \<Rightarrow> bool" where
  "refused s r s' \<longleftrightarrow> r = Inl (ClockMovedBackward (sf_last_timestamp s)) \<and>
     sf_last_timestamp s' = sf_last_timestamp s \<and> sf_sequence s' = sf_sequence s"

definition first_of_ms :: "snowflake \<Rightarrow> int list \<Rightarrow> id_t res \<Rightarrow> snowflake \<Rightarrow> bool" where
  "first_of_ms s clk r s' \<longleftrightarrow> (\<exists>now \<in> set clk. sf_last_timestamp s < get_timestamp now \<and>
     r = Inr (construct_id s (get_timestamp now) 0) \<and>
     sf_last_timestamp s' = get_timestamp now \<and> sf_sequence s' = 1)"

definition one_more :: "snowflake \<Rightarrow> id_t res \<Rightarrow> snowflake \<Rightarrow> bool" where
  "one_more s r s' \<longleftrightarrow>
     (let seq = sf_sequence s AND sequence_mask (sf_config s) in
      \<not> (sf_sequence s > 0 \<and> seq = 0) \<and> r = Inr (construct_id s (sf_last_timestamp s) seq) \<and>
      sf_last_timestamp s' = sf_last_timestamp s \<and> sf_sequence s' = sf_sequence s + 1)"

lemma wait_and_generate_first:
  assumes w: "wait_and_generate (sf_last_timestamp s) msk s1 clk = Some (r, s', clk')"
    and s1: "same_node s s1"
  shows "first_of_ms s (now # clk) r s' \<and> same_node s s' \<and> set clk' \<subseteq> set (now # clk)"
proof -
  obtain ts where w': "wait_for_next_ms (sf_last_timestamp s) clk = Some (ts, clk')"
    and g: "generate_id_with_timestamp ts msk s1 = (r, s')"
    using w by (auto simp: wait_and_generate_def split: option.splits prod.splits)
  from wait_for_next_ms_Some [OF w'] obtain pre t
    where t: "sf_last_timestamp s < ts" "clk = pre @ t # clk'" "ts = get_timestamp t" by blast
  have "r = Inr (construct_id s ts 0)" "sf_last_timestamp s' = ts" "sf_sequence s' = 1"
    "same_node s s'"
    using g s1 same_nodeD(5) [OF s1]
    by (auto simp: generate_id_with_timestamp_eq count_generated_def same_node_def)
  with t show ?thesis by (auto simp: first_of_ms_def)
qed

lemma generate_id_outcomes:
  assumes "generate_id s clk = Some (r, s', clk')"
  shows "(refused s r s' \<or> first_of_ms s clk r s' \<or> one_more s r s') \<and> same_node s s' \<and>
    set clk' \<subseteq> set clk"
proof -
  obtain now clk0 where clk: "clk = now # clk0"
    using assms by (cases clk) simp_all
  let ?t = "get_timestamp now" and ?l = "sf_last_timestamp s"
  consider "?t < ?l" | "?t = ?l" | "?l < ?t" by (meson linorder_neqE)
  then show ?thesis
  proof cases
    case 1
    show ?thesis
    proof (cases "?l - ?t > clock_drift_threshold_ms (sf_config s)")
      case True
      with 1 assms show ?thesis by (auto simp: clk Let_def refused_def same_node_def)
    next
      case False
      let ?s1 = "s\<lparr>sf_clock_drift_ms := ?l - ?t, sf_metrics := (sf_metrics s)
        \<lparr>clock_backwards := clock_backwards (sf_metrics s) + 1\<rparr>\<rparr>"
      have "wait_and_generate ?l (sequence_mask (sf_config s)) ?s1 clk0 = Some (r, s', clk')"
        using False 1 assms by (simp add: clk Let_def)
      from wait_and_generate_first [OF this, of now] show ?thesis
        by (simp add: clk same_node_def)
    qed
  next
    case 2
    show ?thesis
    proof (cases "sf_sequence s > 0 \<and> sf_sequence s AND sequence_mask (sf_config s) = 0")
      case True
      let ?s1 = "s\<lparr>sf_sequence := sf_sequence s + 1,
        sf_rotation_count := sf_rotation_count s + 1\<rparr>"
      have "wait_and_generate ?l (sequence_mask (sf_config s)) ?s1 clk0 = Some (r, s', clk')"
        using True 2 assms by (simp add: clk Let_def)
      from wait_and_generate_first [OF this, of now] show ?thesis
        by (simp add: clk same_node_def)
    next
      case False
      with 2 assms show ?thesis
        by (auto simp: clk Let_def one_more_def same_node_def count_generated_def)
    qed
  next
    case 3
    then have "\<not> ?t < ?l" "?t \<noteq> ?l" by auto
    with 3 assms show ?thesis
      by (auto simp: clk Let_def first_of_ms_def same_node_def count_generated_def)
  qed
qed

section \<open>Strict increase\<close>

text \<open>
  \<open>next_free\<close> is the least identifier the generator has not used: a successful call returns an
  identifier at or above it and moves it just past that identifier, a refused call leaves it.
\<close>

definition gen_inv :: "snowflake \<Rightarrow> bool" where
  "gen_inv s \<longleftrightarrow> sf_wf s \<and> unat (sf_sequence s) \<le> 2 ^ sqb s \<and>
     unat (sf_last_timestamp s) < 2 ^ (64 - low_bits s)"

definition clock_fits :: "snowflake \<Rightarrow> int list \<Rightarrow> bool" where
  "clock_fits s clk \<longleftrightarrow> (\<forall>now \<in> set clk. unat (get_timestamp now) < 2 ^ (64 - low_bits s))"

definition next_free :: "snowflake \<Rightarrow> nat" where
  "next_free s = packed s (unat (sf_last_timestamp s)) (unat (sf_sequence s))"

definition own_id :: "snowflake \<Rightarrow> id_t \<Rightarrow> bool" where
  "own_id s i \<longleftrightarrow> (\<exists>ts seq. seq < 2 ^ sqb s \<and> id_nat i = packed s ts seq)"

lemma same_node_own_id: "same_node s s' \<Longrightarrow> own_id s' = own_id s"
  by (rule ext) (simp only: own_id_def same_nodeD)

lemma packed_mono_ts:
  assumes "sf_wf s" "t < t'" "q \<le> 2 ^ sqb s"
  shows "packed s t q \<le> packed s t' 0"
proof -
  have "q \<le> 2 ^ low_bits s"
    using assms(3) power_increasing [of "sqb s" "low_bits s" "2::nat"]
    by (simp add: low_bits_def del: power_increasing_iff)
  moreover have "t * 2 ^ low_bits s + 2 ^ low_bits s \<le> t' * 2 ^ low_bits s"
    using mult_right_mono [of "t + 1" t' "2 ^ low_bits s"] assms(2) by simp
  ultimately show ?thesis by (simp add: packed_def)
qed

lemma one_more_seq:
  assumes "gen_inv s" "one_more s r s'"
  shows "unat (sf_sequence s) < 2 ^ sqb s" "sf_sequence s AND sequence_mask (sf_config s) = sf_sequence s"
    "unat (sf_sequence s + 1) = unat (sf_sequence s) + 1"
proof -
  have S: "sqb s < 64" and le: "unat (sf_sequence s) \<le> 2 ^ sqb s"
    using assms(1) by (simp_all add: gen_inv_def sf_wf_def low_bits_def)
  have and_mask: "unat (sf_sequence s AND sequence_mask (sf_config s)) =
      unat (sf_sequence s) mod 2 ^ sqb s"
    by (simp only: sequence_mask_eq [OF S] unat_and_mask)
  have "unat (sf_sequence s) \<noteq> 2 ^ sqb s"
  proof
    assume eq: "unat (sf_sequence s) = 2 ^ sqb s"
    then have "unat (sf_sequence s AND sequence_mask (sf_config s)) = 0"
      by (simp only: and_mask) simp
    then have "sf_sequence s AND sequence_mask (sf_config s) = 0"
      by (simp only: unat_eq_zero)
    moreover have "sf_sequence s > 0"
      using eq by (metis power_not_zero unat_0 word_gt_0 zero_neq_numeral)
    ultimately show False
      using assms(2) by (simp add: one_more_def)
  qed
  with le show lt: "unat (sf_sequence s) < 2 ^ sqb s" by simp
  then show "sf_sequence s AND sequence_mask (sf_config s) = sf_sequence s"
    using and_mask by (simp only: word_unat_eq_iff) simp
  have "2 ^ sqb s \<le> (2::nat) ^ 63"
    using S by (intro power_increasing) simp_all
  with lt show "unat (sf_sequence s + 1) = unat (sf_sequence s) + 1"
    by (simp add: unat_add_bounded)
qed

lemma generate_id_step:
  assumes inv: "gen_inv s" and clk: "clock_fits s clk"
    and g: "generate_id s clk = Some (r, s', clk')"
  shows "gen_inv s' \<and> same_node s s' \<and> clock_fits s' clk' \<and>
    (case r of
       Inr i \<Rightarrow> own_id s i \<and> next_free s \<le> id_nat i \<and> next_free s' = Suc (id_nat i)
     | Inl e \<Rightarrow> e = ClockMovedBackward (sf_last_timestamp s) \<and> next_free s' = next_free s)"
proof -
  note out = generate_id_outcomes [OF g]
  then have node: "same_node s s'" by simp
  note eqs = same_nodeD [OF node]
  have fits: "clock_fits s' clk'"
    using out clk by (auto simp: clock_fits_def eqs)
  have wf: "sf_wf s" using inv by (simp add: gen_inv_def)
  from out consider "refused s r s'" | "first_of_ms s clk r s'" | "one_more s r s'" by blast
  then show ?thesis
  proof cases
    case 1
    then show ?thesis using inv node fits
      by (simp add: refused_def gen_inv_def next_free_def eqs)
  next
    case 2
    then obtain now where now: "now \<in> set clk" "sf_last_timestamp s < get_timestamp now"
      and r: "r = Inr (construct_id s (get_timestamp now) 0)"
      and s': "sf_last_timestamp s' = get_timestamp now" "sf_sequence s' = 1"
      by (auto simp: first_of_ms_def)
    let ?ts = "get_timestamp now"
    have ts: "unat ?ts < 2 ^ (64 - low_bits s)"
      using now(1) clk by (simp add: clock_fits_def)
    have val: "id_nat (construct_id s ?ts 0) = packed s (unat ?ts) 0"
      using unat_construct_id [OF wf ts, of 0] by simp
    have "next_free s \<le> packed s (unat ?ts) 0"
      using inv now(2) unfolding next_free_def
      by (intro packed_mono_ts [OF wf]) (simp_all add: gen_inv_def word_less_nat_alt)
    moreover have "next_free s' = Suc (packed s (unat ?ts) 0)"
      by (simp add: next_free_def eqs s' packed_def)
    moreover have "own_id s (construct_id s ?ts 0)"
      using val unfolding own_id_def by (metis zero_less_numeral zero_less_power)
    ultimately show ?thesis
      using wf ts node fits by (simp add: r val gen_inv_def eqs s')
  next
    case 3
    note seq = one_more_seq [OF inv 3]
    have r: "r = Inr (construct_id s (sf_last_timestamp s) (sf_sequence s))"
      and s': "sf_last_timestamp s' = sf_last_timestamp s" "sf_sequence s' = sf_sequence s + 1"
      using 3 by (simp_all add: one_more_def Let_def seq(2))
    have val: "id_nat (construct_id s (sf_last_timestamp s) (sf_sequence s)) = next_free s"
      unfolding next_free_def
      using unat_construct_id [OF wf _ seq(1)] inv by (simp add: gen_inv_def)
    have "next_free s' = Suc (next_free s)"
      using seq(3) by (simp add: next_free_def eqs s' packed_def)
    moreover have "own_id s (construct_id s (sf_last_timestamp s) (sf_sequence s))"
      using seq(1) val by (auto simp: own_id_def next_free_def)
    ultimately show ?thesis
      using inv node fits seq by (simp add: r val gen_inv_def eqs s')
  qed
qed

interpretation snow: owned_source generate_id
  "\<lambda>s clk. gen_inv s \<and> clock_fits s clk \<and> same_node s0 s" next_free "own_id s0" for s0
proof
  fix s s' r and clk clk' :: "int list"
  assume inv: "gen_inv s \<and> clock_fits s clk \<and> same_node s0 s"
    and g: "generate_id s clk = Some (r, s', clk')"
  with generate_id_step [OF _ _ g] show "gen_inv s' \<and> clock_fits s' clk' \<and> same_node s0 s'"
    using same_node_trans by blast
next
  fix s s' i and clk clk' :: "int list"
  assume inv: "gen_inv s \<and> clock_fits s clk \<and> same_node s0 s"
    and g: "generate_id s clk = Some (Inr i, s', clk')"
  with generate_id_step [OF _ _ g]
  show "next_free s \<le> id_nat i \<and> id_nat i < next_free s'" by simp
  show "own_id s0 i"
    using inv generate_id_step [OF _ _ g] same_node_own_id [of s0 s] by simp
next
  fix s s' e and clk clk' :: "int list"
  assume inv: "gen_inv s \<and> clock_fits s clk \<and> same_node s0 s"
    and g: "generate_id s clk = Some (Inl e, s', clk')"
  with generate_id_step [OF _ _ g] show "next_free s \<le> next_free s'" by simp
qed

definition batch_sofar :: "snowflake \<Rightarrow> id_t list \<Rightarrow> bool" where
  "batch_sofar s is \<longleftrightarrow> increasing is \<and> (\<forall>i \<in> set is. own_id s i \<and> id_nat i < next_free s)"

lemma batch_loop_inv:
  assumes "gen_inv s" "clock_fits s clk" "batch_sofar s ids" "length ids \<le> sz"
    "retries \<le> MAX_RETRIES" "batch_loop sz ids retries s clk = Some (ids', retries', s', clk')"
  shows "gen_inv s' \<and> same_node s s' \<and> clock_fits s' clk' \<and> batch_sofar s' ids' \<and>
    length ids' \<le> sz \<and> (length ids' = sz \<or> retries' = MAX_RETRIES)"
  using assms
proof (induction sz ids retries s clk rule: batch_loop.induct)
  case (1 sz ids retries s clk)
  show ?case
  proof (cases "length ids < sz \<and> retries < MAX_RETRIES")
    case False
    with 1 show ?thesis by (auto simp: batch_loop.simps [of sz ids retries s clk])
  next
    case True
    with 1(8) obtain r s1 clk1 where g: "generate_id s clk = Some (r, s1, clk1)"
      by (auto simp: batch_loop.simps [of sz ids retries s clk] split: option.splits)
    note step = generate_id_step [OF 1(3,4) g]
    then have node: "same_node s s1" and s1: "gen_inv s1" "clock_fits s1 clk1" by simp_all
    note own = same_node_own_id [OF node]
    show ?thesis
    proof (cases r)
      case (Inl e)
      have "batch_sofar s1 ids"
        using 1(5) step by (simp add: Inl batch_sofar_def own)
      then show ?thesis
        using 1(1) [OF True g refl refl Inl s1] 1(6,8) True g node same_node_trans
        by (auto simp: Inl batch_loop.simps [of sz ids retries s clk])
    next
      case (Inr i)
      have "batch_sofar s1 (ids @ [i])"
        using 1(5) step increasing_snoc [of ids i]
        by (fastforce simp: Inr batch_sofar_def own less_Suc_eq_le)
      then show ?thesis
        using 1(2) [OF True g refl refl Inr s1] 1(7,8) True g node same_node_trans
        by (auto simp: Inr batch_loop.simps [of sz ids retries s clk])
    qed
  qed
qed

section \<open>Reading the node back, refusals and steady clocks\<close>

lemma own_id_node:
  assumes "sf_wf s" "own_id s i"
  shows "id_nat i div 2 ^ sqb s mod 2 ^ (dcb s + wkb s) = node_field s"
proof -
  obtain ts seq where seq: "seq < 2 ^ sqb s" and i: "id_nat i = packed s ts seq"
    using assms(2) by (auto simp: own_id_def)
  have "packed s ts seq = (ts * 2 ^ (dcb s + wkb s) + node_field s) * 2 ^ sqb s + seq"
    by (simp add: packed_def low_bits_def power_add algebra_simps)
  then have "packed s ts seq div 2 ^ sqb s = ts * 2 ^ (dcb s + wkb s) + node_field s"
    using seq by simp
  then show ?thesis
    using node_field_lt [OF assms(1)] by (simp only: i mod_field)
qed

lemma node_field_inject:
  assumes "sf_wf s1" "sf_wf s2" "worker_id_bits (sf_config s1) = worker_id_bits (sf_config s2)"
    "node_field s1 = node_field s2"
  shows "sf_datacenter_id s1 = sf_datacenter_id s2 \<and> sf_worker_id s1 = sf_worker_id s2"
proof -
  have "node_field s div 2 ^ wkb s = unat (sf_datacenter_id s)"
    "node_field s mod 2 ^ wkb s = unat (sf_worker_id s)" if "sf_wf s" for s
    using that by (simp_all add: node_field_def sf_wf_def)
  from this [OF assms(1)] this [OF assms(2)] show ?thesis
    using assms(3,4) by (simp add: word_unat_eq_iff)
qed

lemma wait_and_generate_ok: "wait_and_generate l msk s clk = Some (r, s', clk') \<Longrightarrow> \<exists>i. r = Inr i"
  by (auto simp: wait_and_generate_def generate_id_with_timestamp_eq split: option.splits)

lemma wait_and_generate_None:
  "wait_and_generate l msk s clk = None \<longleftrightarrow> (\<forall>now \<in> set clk. get_timestamp now \<le> l)"
  using wait_for_next_ms_None [of l clk]
  by (auto simp: wait_and_generate_def split: option.splits prod.splits)

lemma generate_id_refuses:
  assumes "generate_id s (now # clk) = Some (r, s', clk')"
  shows "(\<exists>e. r = Inl e) \<longleftrightarrow> get_timestamp now < sf_last_timestamp s \<and>
    clock_drift_threshold_ms (sf_config s) < sf_last_timestamp s - get_timestamp now"
  using assms by (auto simp: Let_def dest: wait_and_generate_ok split: if_splits)

definition steady :: "snowflake \<Rightarrow> int list \<Rightarrow> bool" where
  "steady s clk \<longleftrightarrow>
     (let thr = unat (clock_drift_threshold_ms (sf_config s)) in
      \<forall>b \<in> set clk. unat (sf_last_timestamp s) \<le> unat (get_timestamp b) + thr \<and>
        (\<forall>a \<in> set clk. unat (get_timestamp a) \<le> unat (get_timestamp b) + thr))"

lemma steady_ok:
  assumes "steady s clk" "generate_id s clk = Some (r, s', clk')"
  shows "\<exists>i. r = Inr i"
proof -
  obtain now clk0 where clk: "clk = now # clk0" using assms(2) by (cases clk) simp_all
  let ?thr = "clock_drift_threshold_ms (sf_config s)"
  have "unat (sf_last_timestamp s) \<le> unat (get_timestamp now) + unat ?thr"
    using assms(1) by (simp add: steady_def clk Let_def)
  then have "\<not> (get_timestamp now < sf_last_timestamp s \<and>
      ?thr < sf_last_timestamp s - get_timestamp now)"
    by (auto simp: word_less_nat_alt unat_sub word_le_nat_alt)
  with generate_id_refuses [OF assms(2) [unfolded clk]] show ?thesis
    by (cases r) auto
qed

lemma steady_step:
  assumes "steady s clk" "generate_id s clk = Some (r, s', clk')"
  shows "steady s' clk'"
  using generate_id_outcomes [OF assms(2)] assms(1)
  by (auto simp: steady_def Let_def same_node_def refused_def first_of_ms_def one_more_def
      subset_iff)

lemma batch_loop_steady:
  assumes "steady s clk" "retries < MAX_RETRIES" "length ids \<le> sz"
    "batch_loop sz ids retries s clk = Some (ids', retries', s', clk')"
  shows "length ids' = sz"
  using assms
proof (induction sz ids retries s clk rule: batch_loop.induct)
  case (1 sz ids retries s clk)
  show ?case
  proof (cases "length ids < sz")
    case False
    with 1 show ?thesis by (simp add: batch_loop.simps [of sz ids retries s clk])
  next
    case True
    then have go: "length ids < sz \<and> retries < MAX_RETRIES" using 1(4) by simp
    with 1(6) obtain r s1 clk1 where g: "generate_id s clk = Some (r, s1, clk1)"
      by (auto simp: batch_loop.simps [of sz ids retries s clk] split: option.splits)
    from steady_ok [OF 1(3) g] obtain i where r: "r = Inr i" ..
    show ?thesis
      using 1(2) [OF go g refl refl r steady_step [OF 1(3) g] 1(4)] 1(6) go g
      by (simp add: r batch_loop.simps [of sz ids retries s clk])
  qed
qed

section \<open>Properties\<close>

lemma gen_inv_started:
  assumes "unat (datacenter_id_bits cfg) + unat (worker_id_bits cfg) + unat (sequence_bits cfg) < 64"
    "unat dc < 2 ^ unat (datacenter_id_bits cfg)" "unat w < 2 ^ unat (worker_id_bits cfg)"
  shows "gen_inv (snowflake_initialize cfg dc w (snowflake_new dc0 w0))"
  using assms
  by (simp add: gen_inv_def sf_wf_def low_bits_def snowflake_initialize_def snowflake_new_def)

definition clock_of_ms :: "int list \<Rightarrow> int list" where
  "clock_of_ms ms = map (\<lambda>m. (DEFAULT_START_TIME + m) * 1000000) ms"

text \<open>
  C2. One generator never repeats itself: over any sequence of clock readings, increasing or not,
  the identifiers it returns increase strictly, start at or above the least unused one and stay below
  the new least unused one, and the state stays well formed.
\<close>

theorem snowflake_strictly_increasing:
  assumes "gen_inv s" "clock_fits s clk" "run_calls generate_id n s clk = (rs, s', clk')"
  shows "increasing (ok_ids rs) \<and> distinct (ok_ids rs) \<and> gen_inv s' \<and>
    (\<forall>i \<in> set (ok_ids rs). next_free s \<le> id_nat i \<and> id_nat i < next_free s')"
  using snow.run_fresh [OF _ assms(3), of s] snow.run_inv [OF _ assms(3), of s] assms(1,2)
  by (auto intro: increasing_distinct)

theorem snowflake_strictly_increasing_witness:
  "increasing (ok_ids (fst (run_calls generate_id 4 (snowflake_new 1 7) (clock_of_ms [5, 5, 4, 6, 6]))))
   \<and> length (ok_ids (fst (run_calls generate_id 4 (snowflake_new 1 7) (clock_of_ms [5, 5, 4, 6, 6])))) = 4"
proof -
  have c: "clock_fits (snowflake_new 1 7) (clock_of_ms [5, 5, 4, 6, 6])"
    by (simp add: clock_fits_def clock_of_ms_def get_timestamp_def low_bits_def snowflake_new_def
        snowflake_config_default_def DEFAULT_START_TIME_def)
  have i: "gen_inv (snowflake_new 1 7)"
    by (simp add: gen_inv_def sf_wf_def low_bits_def snowflake_new_def snowflake_config_default_def)
  obtain rs s' clk' where
    r: "run_calls generate_id 4 (snowflake_new 1 7) (clock_of_ms [5, 5, 4, 6, 6]) = (rs, s', clk')"
    by (rule prod_cases3)
  have "length (ok_ids (fst (run_calls generate_id 4 (snowflake_new 1 7) (clock_of_ms [5, 5, 4, 6, 6])))) = 4"
    by code_simp
  with snowflake_strictly_increasing [OF i c r] show ?thesis by (simp add: r)
qed

text \<open>
  C7. Two generators of the same bit widths that differ in data centre or worker, with both numbers inside
  their widths, never return the same identifier, however their clocks run, as long as the readings fit
  the bits left for the timestamp.
\<close>

theorem snowflake_nodes_disjoint:
  assumes "gen_inv s1" "clock_fits s1 clk1" "run_calls generate_id n1 s1 clk1 = (rs1, s1', clk1')"
    and "gen_inv s2" "clock_fits s2 clk2" "run_calls generate_id n2 s2 clk2 = (rs2, s2', clk2')"
    and "dcb s1 = dcb s2" "wkb s1 = wkb s2" "sqb s1 = sqb s2"
    and "(sf_datacenter_id s1, sf_worker_id s1) \<noteq> (sf_datacenter_id s2, sf_worker_id s2)"
  shows "set (ok_ids rs1) \<inter> set (ok_ids rs2) = {}"
proof -
  have wf: "sf_wf s1" "sf_wf s2" using assms(1,4) by (simp_all add: gen_inv_def)
  have own1: "own_id s1 i" if "i \<in> set (ok_ids rs1)" for i
    using snow.run_own [OF _ assms(3) that, of s1] assms(1,2) by simp
  have own2: "own_id s2 i" if "i \<in> set (ok_ids rs2)" for i
    using snow.run_own [OF _ assms(6) that, of s2] assms(4,5) by simp
  have "node_field s1 \<noteq> node_field s2"
    using node_field_inject [OF wf] assms(8,10) by (auto simp: word_unat_eq_iff)
  then show ?thesis
    using own_id_node [OF wf(1) own1] own_id_node [OF wf(2) own2] assms(7-9) by fastforce
qed

theorem snowflake_nodes_disjoint_witness:
  "set (ok_ids (fst (run_calls generate_id 2 (snowflake_new 1 7) (clock_of_ms [5, 5])))) \<inter>
   set (ok_ids (fst (run_calls generate_id 2 (snowflake_new 1 8) (clock_of_ms [5, 5])))) = {}"
proof -
  have c: "clock_fits (snowflake_new 1 w) (clock_of_ms [5, 5])" for w
    by (simp add: clock_fits_def clock_of_ms_def get_timestamp_def low_bits_def snowflake_new_def
        snowflake_config_default_def DEFAULT_START_TIME_def)
  have i: "gen_inv (snowflake_new 1 7)" "gen_inv (snowflake_new 1 8)"
    by (simp_all add: gen_inv_def sf_wf_def low_bits_def snowflake_new_def
        snowflake_config_default_def)
  obtain rs s' clk' where
    r: "run_calls generate_id 2 (snowflake_new 1 7) (clock_of_ms [5, 5]) = (rs, s', clk')"
    by (rule prod_cases3)
  obtain rs2 s2' clk2' where
    r2: "run_calls generate_id 2 (snowflake_new 1 8) (clock_of_ms [5, 5]) = (rs2, s2', clk2')"
    by (rule prod_cases3)
  have "set (ok_ids rs) \<inter> set (ok_ids rs2) = {}"
    by (rule snowflake_nodes_disjoint [OF i(1) c r i(2) c r2]) (simp_all add: snowflake_new_def)
  then show ?thesis by (simp add: r r2)
qed

text \<open>
  C16. A call returns as soon as the clock ever shows a later millisecond than the last one used, and
  it refuses exactly when its first reading lies further behind than the drift threshold, naming
  the last timestamp; an exhausted or slightly stepped-back millisecond is waited out.
\<close>

theorem generate_id_returns:
  assumes "sf_last_timestamp s < get_timestamp t" "t \<in> set (now # clk)"
  shows "\<exists>r s' clk'. generate_id s (now # clk) = Some (r, s', clk') \<and>
    (r = Inl (ClockMovedBackward (sf_last_timestamp s)) \<longleftrightarrow>
       get_timestamp now < sf_last_timestamp s \<and>
       clock_drift_threshold_ms (sf_config s) < sf_last_timestamp s - get_timestamp now) \<and>
    (r \<noteq> Inl (ClockMovedBackward (sf_last_timestamp s)) \<longrightarrow> (\<exists>i. r = Inr i))"
proof -
  have "generate_id s (now # clk) \<noteq> None"
  proof (cases "t = now")
    case True
    with assms(1) have "\<not> get_timestamp now < sf_last_timestamp s"
      "get_timestamp now \<noteq> sf_last_timestamp s" by auto
    then show ?thesis by (simp add: Let_def)
  next
    case False
    with assms have "wait_and_generate (sf_last_timestamp s) msk s1 clk \<noteq> None" for msk s1
      by (auto simp only: wait_and_generate_None set_simps not_le)
    then show ?thesis by (simp add: Let_def del: not_None_eq)
  qed
  then obtain r s' clk' where g: "generate_id s (now # clk) = Some (r, s', clk')" by auto
  from generate_id_outcomes [OF g] have "r = Inl (ClockMovedBackward (sf_last_timestamp s)) \<or> (\<exists>i. r = Inr i)"
    by (auto simp: refused_def first_of_ms_def one_more_def Let_def)
  with g generate_id_refuses [OF g] show ?thesis by auto
qed

theorem generate_id_returns_witness:
  "\<exists>r s' clk'. generate_id (snowflake_new 1 7) (clock_of_ms [0, 3]) = Some (r, s', clk')"
  using generate_id_returns [of "snowflake_new 1 7" "(DEFAULT_START_TIME + 3) * 1000000"
      "(DEFAULT_START_TIME + 0) * 1000000" "[(DEFAULT_START_TIME + 3) * 1000000]"]
  by (auto simp: clock_of_ms_def snowflake_new_def get_timestamp_def)

text \<open>
  A batch holds strictly increasing identifiers, at most as many as asked for; it is full when no
  reading lags the others by more than the drift threshold, and only then can it not fail.
\<close>

theorem snowflake_batch_spec:
  assumes "gen_inv s" "clock_fits s clk" "snowflake_batch_generate sz s clk = Some (r, s', clk')"
  shows "gen_inv s' \<and> (case r of
      Inr b \<Rightarrow> increasing (batch_ids b) \<and> length (batch_ids b) \<le> sz \<and>
        (steady s clk \<longrightarrow> length (batch_ids b) = sz) \<and> (\<forall>i \<in> set (batch_ids b). own_id s i)
    | Inl e \<Rightarrow> e = InternalError ''Failed to generate IDs after max retries'' \<and> sz > 0 \<and>
        \<not> steady s clk)"
proof (cases "sz = 0")
  case True
  with assms show ?thesis by (auto simp: snowflake_batch_generate_def batch_new_def)
next
  case False
  with assms(3) obtain ids retries where
    l: "batch_loop sz [] 0 s clk = Some (ids, retries, s', clk')" and
    r: "r = (if ids = [] then Inl (InternalError ''Failed to generate IDs after max retries'')
      else Inr (batch_new ids Snowflake []))"
    by (auto simp: snowflake_batch_generate_def split: option.splits prod.splits)
  have inv: "gen_inv s'" "same_node s s'" "batch_sofar s' ids" "length ids \<le> sz"
    using batch_loop_inv [OF assms(1,2) _ _ _ l] by (auto simp: batch_sofar_def)
  have "steady s clk \<Longrightarrow> length ids = sz"
    using batch_loop_steady [OF _ _ _ l] by (simp add: MAX_RETRIES_def)
  with inv False show ?thesis
    by (auto simp: r batch_sofar_def batch_new_def same_node_own_id)
qed

theorem snowflake_batch_spec_witness:
  "\<exists>b s' clk'. snowflake_batch_generate 2 (snowflake_new 1 7) (clock_of_ms [5, 5]) =
     Some (Inr b, s', clk') \<and> increasing (batch_ids b)"
proof -
  have c: "clock_fits (snowflake_new 1 7) (clock_of_ms [5, 5])"
    by (simp add: clock_fits_def clock_of_ms_def get_timestamp_def low_bits_def snowflake_new_def
        snowflake_config_default_def DEFAULT_START_TIME_def)
  have i: "gen_inv (snowflake_new 1 7)"
    by (simp add: gen_inv_def sf_wf_def low_bits_def snowflake_new_def snowflake_config_default_def)
  have "map_option (isl \<circ> fst) (snowflake_batch_generate 2 (snowflake_new 1 7) (clock_of_ms [5, 5]))
      = Some False" by code_simp
  then obtain b s' clk' where
    b: "snowflake_batch_generate 2 (snowflake_new 1 7) (clock_of_ms [5, 5]) = Some (Inr b, s', clk')"
    by (auto simp: isl_def) (metis sumE)
  with snowflake_batch_spec [OF i c b] show ?thesis by auto
qed

end
