(* ===== verification/Snowflake_Race.thy ===== *)
theory Snowflake_Race
  imports Snowflake_Gen
begin

text \<open>
  \<open>generate_id\<close> of \<open>src/src/core/algorithm/snowflake.rs\<close> under concurrency: tasks share one generator
  (\<open>Arc<dyn IdAlgorithm>\<close>) and each atomic access to \<open>sequence\<close> and \<open>last_timestamp\<close> is one step.
  A program point carries the task's local variables; an operation on the metrics, which no
  decision reads, is merged with the access before it.
\<close>

section \<open>Steps of one task\<close>

datatype point =
    ReadClock
  | LoadLast u64
  | Waiting u64
  | FetchSame u64
  | StoreSequence u64
  | StoreLast u64
  | FetchNew u64
  | WithTsStoreLast u64
  | WithTsStoreSequence u64
  | WithTsFetch u64
  | Done "id_t res"

definition fetch_add_sequence :: "snowflake \<Rightarrow> snowflake" where
  "fetch_add_sequence s = s\<lparr>sf_sequence := sf_sequence s + 1\<rparr>"

fun point_step :: "int \<Rightarrow> snowflake \<Rightarrow> point \<Rightarrow> snowflake \<times> point" where
  "point_step now s ReadClock = (s, LoadLast (get_timestamp now))"
| "point_step now s (LoadLast timestamp) =
     (let last_ts = sf_last_timestamp s in
      if timestamp < last_ts then
        (let drift = last_ts - timestamp;
             s1 = s\<lparr>sf_clock_drift_ms := drift,
                    sf_metrics := (sf_metrics s)
                      \<lparr>clock_backwards := clock_backwards (sf_metrics s) + 1\<rparr>\<rparr>
         in if drift > clock_drift_threshold_ms (sf_config s)
            then (s1, Done (Inl (ClockMovedBackward last_ts)))
            else (s1, Waiting last_ts))
      else if timestamp = last_ts then (s, FetchSame timestamp)
      else (s, StoreSequence timestamp))"
| "point_step now s (Waiting last_ts) =
     (if get_timestamp now > last_ts then (s, WithTsStoreLast (get_timestamp now))
      else (s, Waiting last_ts))"
| "point_step now s (FetchSame timestamp) =
     (let seq = sf_sequence s;
          s1 = fetch_add_sequence s;
          msk = sequence_mask (sf_config s)
      in if seq > 0 \<and> seq AND msk = 0
         then (s1\<lparr>sf_rotation_count := sf_rotation_count s1 + 1\<rparr>, Waiting timestamp)
         else (count_generated s1, Done (Inr (construct_id s timestamp (seq AND msk)))))"
| "point_step now s (StoreSequence timestamp) = (s\<lparr>sf_sequence := 0\<rparr>, StoreLast timestamp)"
| "point_step now s (StoreLast timestamp) =
     (s\<lparr>sf_last_timestamp := timestamp\<rparr>, FetchNew timestamp)"
| "point_step now s (FetchNew timestamp) =
     (let seq = sf_sequence s in
      (count_generated (fetch_add_sequence s),
       Done (Inr (construct_id s timestamp (seq AND sequence_mask (sf_config s))))))"
| "point_step now s (WithTsStoreLast timestamp) =
     (s\<lparr>sf_last_timestamp := timestamp\<rparr>, WithTsStoreSequence timestamp)"
| "point_step now s (WithTsStoreSequence timestamp) =
     (s\<lparr>sf_sequence := 0\<rparr>, WithTsFetch timestamp)"
| "point_step now s (WithTsFetch timestamp) =
     (let seq = sf_sequence s;
          s1 = fetch_add_sequence s;
          msk = sequence_mask (sf_config s)
      in if seq > 0 \<and> seq AND msk = 0
         then (s1\<lparr>sf_metrics := (sf_metrics s1)
                    \<lparr>sequence_overflows := sequence_overflows (sf_metrics s1) + 1\<rparr>\<rparr>,
               Done (Inl (SequenceOverflow timestamp)))
         else (count_generated s1, Done (Inr (construct_id s timestamp (seq AND msk)))))"
| "point_step now s (Done r) = (s, Done r)"

section \<open>A task that runs alone\<close>

text \<open>
  \<open>solo\<close> runs one task to its end, reading the clock where the code does. It is the sequential
  model \<open>generate_id\<close>.
\<close>

fun reads_clock :: "point \<Rightarrow> bool" where
  "reads_clock ReadClock = True"
| "reads_clock (Waiting l) = True"
| "reads_clock _ = False"

fun rank :: "point \<Rightarrow> nat" where
  "rank ReadClock = 5"
| "rank (LoadLast _) = 4"
| "rank (StoreSequence _) = 3"
| "rank (FetchSame _) = 3"
| "rank (StoreLast _) = 2"
| "rank (FetchNew _) = 1"
| "rank (Waiting _) = 0"
| "rank (WithTsStoreLast _) = 3"
| "rank (WithTsStoreSequence _) = 2"
| "rank (WithTsFetch _) = 1"
| "rank (Done _) = 0"

function solo :: "snowflake \<Rightarrow> point \<Rightarrow> int list \<Rightarrow> (id_t res \<times> snowflake \<times> int list) option" where
  "solo s p clk =
     (case p of
        Done r \<Rightarrow> Some (r, s, clk)
      | _ \<Rightarrow> if reads_clock p then
               (case clk of
                  [] \<Rightarrow> None
                | now # clk' \<Rightarrow> (case point_step now s p of (s', p') \<Rightarrow> solo s' p' clk'))
             else (case point_step 0 s p of (s', p') \<Rightarrow> solo s' p' clk))"
  by pat_completeness auto
termination
  by (relation "measures [\<lambda>(s, p, clk). length clk, \<lambda>(s, p, clk). rank p]")
    (auto simp: Let_def split: if_splits)

declare solo.simps [simp del]

lemma solo_Done [simp]: "solo s (Done r) clk = Some (r, s, clk)"
  by (simp add: solo.simps)

lemma solo_step [simp]:
  "\<not> reads_clock p \<Longrightarrow> (\<And>r. p \<noteq> Done r) \<Longrightarrow>
     solo s p clk = (case point_step 0 s p of (s', p') \<Rightarrow> solo s' p' clk)"
  by (subst solo.simps) (cases p; simp)

lemma solo_read [simp]:
  "reads_clock p \<Longrightarrow> solo s p (now # clk) = (case point_step now s p of (s', p') \<Rightarrow> solo s' p' clk)"
  "reads_clock p \<Longrightarrow> solo s p [] = None"
  by (subst solo.simps; cases p; simp)+

lemma solo_with_timestamp:
  "solo s (WithTsStoreLast ts) clk =
     (case generate_id_with_timestamp ts (sequence_mask (sf_config s)) s of
        (r, s') \<Rightarrow> Some (r, s', clk))"
  by (cases s)
    (simp add: generate_id_with_timestamp_def fetch_add_sequence_def count_generated_def
      construct_id_def)

lemma solo_Waiting:
  "solo s (Waiting l) clk = wait_and_generate l (sequence_mask (sf_config s)) s clk"
proof (induction clk)
  case Nil
  then show ?case by (simp add: wait_and_generate_def)
next
  case (Cons now clk)
  then show ?case
    by (simp add: wait_and_generate_def Let_def solo_with_timestamp del: solo_step)
qed

lemma solo_generate_id: "solo s ReadClock clk = generate_id s clk"
proof (cases clk)
  case (Cons now clk')
  consider "get_timestamp now < sf_last_timestamp s" | "get_timestamp now = sf_last_timestamp s"
    | "\<not> get_timestamp now < sf_last_timestamp s" "get_timestamp now \<noteq> sf_last_timestamp s"
    by blast
  then show ?thesis
  proof cases
    case 1
    then show ?thesis
      by (simp add: Cons Let_def solo_Waiting)
  next
    case 2
    then show ?thesis
      by (simp add: Cons Let_def solo_Waiting fetch_add_sequence_def construct_id_def)
  next
    case 3
    then show ?thesis
      by (cases s)
        (simp add: Cons Let_def fetch_add_sequence_def construct_id_def count_generated_def)
  qed
qed simp

section \<open>Interleaved tasks\<close>

text \<open>
  Any number of tasks, each at a point of a call; a step moves one of them, reading the clock as some
  instant of \<open>C\<close>, and a task that has its result may call again.
\<close>

inductive race_reachable ::
  "int set \<Rightarrow> snowflake \<Rightarrow> snowflake \<Rightarrow> (nat \<Rightarrow> point) \<Rightarrow> bool" for C s0 where
  start: "race_reachable C s0 s0 (\<lambda>_. ReadClock)"
| move: "race_reachable C s0 s ps \<Longrightarrow> now \<in> C \<Longrightarrow> point_step now s (ps t) = (s', p') \<Longrightarrow>
    race_reachable C s0 s' (ps(t := p'))"
| again: "race_reachable C s0 s ps \<Longrightarrow> ps t = Done r \<Longrightarrow>
    race_reachable C s0 s (ps(t := ReadClock))"

fun run_schedule :: "(nat \<times> int) list \<Rightarrow> snowflake \<Rightarrow> (nat \<Rightarrow> point) \<Rightarrow> snowflake \<times> (nat \<Rightarrow> point)" where
  "run_schedule [] s ps = (s, ps)"
| "run_schedule ((t, now) # sched) s ps =
     (case point_step now s (ps t) of (s', p') \<Rightarrow> run_schedule sched s' (ps(t := p')))"

lemma run_schedule_reachable:
  "race_reachable C s0 s ps \<Longrightarrow> snd ` set sched \<subseteq> C \<Longrightarrow>
     race_reachable C s0 (fst (run_schedule sched s ps)) (snd (run_schedule sched s ps))"
proof (induction sched arbitrary: s ps)
  case (Cons x sched)
  obtain t now where x: "x = (t, now)" by (cases x)
  obtain s' p' where st: "point_step now s (ps t) = (s', p')" by (cases "point_step now s (ps t)")
  have "race_reachable C s0 s' (ps(t := p'))"
    using Cons.prems st race_reachable.move [of C s0 s ps now t s' p'] by (simp add: x)
  with Cons show ?case by (simp add: x st)
qed simp

fun point_ok :: "int set \<Rightarrow> snowflake \<Rightarrow> point \<Rightarrow> bool" where
  "point_ok C s0 (LoadLast ts) \<longleftrightarrow> ts \<in> get_timestamp ` C"
| "point_ok C s0 (FetchSame ts) \<longleftrightarrow> ts \<in> get_timestamp ` C"
| "point_ok C s0 (StoreSequence ts) \<longleftrightarrow> ts \<in> get_timestamp ` C"
| "point_ok C s0 (StoreLast ts) \<longleftrightarrow> ts \<in> get_timestamp ` C"
| "point_ok C s0 (FetchNew ts) \<longleftrightarrow> ts \<in> get_timestamp ` C"
| "point_ok C s0 (WithTsStoreLast ts) \<longleftrightarrow> ts \<in> get_timestamp ` C"
| "point_ok C s0 (WithTsStoreSequence ts) \<longleftrightarrow> ts \<in> get_timestamp ` C"
| "point_ok C s0 (WithTsFetch ts) \<longleftrightarrow> ts \<in> get_timestamp ` C"
| "point_ok C s0 (Done (Inr i)) \<longleftrightarrow>
     (\<exists>ts \<in> get_timestamp ` C. \<exists>seq < 2 ^ sqb s0. id_nat i = packed s0 (unat ts) seq)"
| "point_ok C s0 _ \<longleftrightarrow> True"

lemma constructed_ok:
  assumes "sf_wf s0" "same_node s0 s" "ts \<in> get_timestamp ` C"
    "\<forall>now \<in> C. unat (get_timestamp now) < 2 ^ (64 - low_bits s0)"
  shows "point_ok C s0 (Done (Inr (construct_id s ts (seq AND sequence_mask (sf_config s)))))"
proof -
  have S: "sqb s0 < 64" using assms(1) by (simp add: sf_wf_def low_bits_def)
  have cfg: "sf_config s = sf_config s0" using assms(2) by (simp add: same_node_def)
  have "unat (seq AND sequence_mask (sf_config s0)) = unat seq mod 2 ^ sqb s0"
    by (simp only: sequence_mask_eq [OF S] unat_and_mask)
  then have lt: "unat (seq AND sequence_mask (sf_config s0)) < 2 ^ sqb s0" by simp
  have "unat ts < 2 ^ (64 - low_bits s0)" using assms(3,4) by auto
  from unat_construct_id [OF assms(1) this lt] lt assms(3) show ?thesis
    by (auto simp: cfg same_nodeD [OF assms(2)])
qed

lemma point_step_ok:
  assumes "sf_wf s0" "same_node s0 s" "point_ok C s0 p" "now \<in> C"
    "\<forall>now \<in> C. unat (get_timestamp now) < 2 ^ (64 - low_bits s0)"
    "point_step now s p = (s', p')"
  shows "same_node s0 s' \<and> point_ok C s0 p'"
proof -
  note c = constructed_ok [OF assms(1,2) _ assms(5)]
  note upd = fetch_add_sequence_def count_generated_def
  show ?thesis
  proof (cases p)
    case (FetchSame ts)
    then show ?thesis using assms c
      by (auto simp: Let_def same_node_def upd simp del: point_ok.simps(9) split: if_splits)
  next
    case (FetchNew ts)
    then show ?thesis using assms c
      by (auto simp: Let_def same_node_def upd simp del: point_ok.simps(9) split: if_splits)
  next
    case (WithTsFetch ts)
    then show ?thesis using assms c
      by (auto simp: Let_def same_node_def upd simp del: point_ok.simps(9) split: if_splits)
  qed (use assms in \<open>auto simp: Let_def same_node_def upd split: if_splits\<close>)
qed

lemma race_invariant:
  assumes "race_reachable C s0 s ps" "sf_wf s0"
    "\<forall>now \<in> C. unat (get_timestamp now) < 2 ^ (64 - low_bits s0)"
  shows "same_node s0 s \<and> (\<forall>t. point_ok C s0 (ps t))"
  using assms
proof (induction rule: race_reachable.induct)
  case (move s ps now t s' p')
  then show ?case using point_step_ok [of s0 s C "ps t" now s' p'] by simp
qed simp_all

text \<open>
  C12. Concurrent calls can return the same identifier twice: two tasks that both see a new
  millisecond both reset the sequence and both take number 0.
\<close>

theorem race_duplicate:
  "\<exists>s ps i. race_reachable (set (clock_of_ms [5])) (snowflake_new 1 7) s ps \<and>
     ps 0 = Done (Inr i) \<and> ps 1 = Done (Inr i)"
proof -
  let ?now = "hd (clock_of_ms [5])"
  let ?sched = "map (\<lambda>t. (t, ?now)) [0, 1, 0, 1, 0, 0, 0, 1, 1, 1]"
  let ?fin = "run_schedule ?sched (snowflake_new 1 7) (\<lambda>_. ReadClock)"
  have "race_reachable (set (clock_of_ms [5])) (snowflake_new 1 7) (fst ?fin) (snd ?fin)"
    by (rule run_schedule_reachable [OF race_reachable.start]) (simp only: clock_of_ms_def, simp)
  moreover have "snd ?fin 0 = Done (Inr (Id 10755072))" by code_simp
  moreover have "snd ?fin 1 = Done (Inr (Id 10755072))" by code_simp
  ultimately show ?thesis by blast
qed

text \<open>
  What interleaving cannot break: in every reachable state every returned identifier is the
  packing of some clock reading, the node's own numbers and a sequence number inside its width, so
  nodes with different numbers stay disjoint however many tasks share a generator.
\<close>

theorem race_ids_well_formed:
  assumes "race_reachable C s0 s ps" "sf_wf s0"
    and "\<forall>now \<in> C. unat (get_timestamp now) < 2 ^ (64 - low_bits s0)"
    and "ps t = Done (Inr i)"
  shows "own_id s0 i \<and> (\<exists>now \<in> C. \<exists>seq < 2 ^ sqb s0. id_nat i = packed s0 (unat (get_timestamp now)) seq)"
proof -
  have "point_ok C s0 (ps t)" using race_invariant [OF assms(1-3)] by simp
  then show ?thesis by (auto simp: assms(4) own_id_def)
qed

theorem race_ids_well_formed_witness: "own_id (snowflake_new 1 7) (Id 10755072)"
proof -
  let ?now = "hd (clock_of_ms [5])"
  let ?fin = "run_schedule (map (\<lambda>t. (t, ?now)) [3, 3, 3, 3, 3]) (snowflake_new 1 7) (\<lambda>_. ReadClock)"
  have r: "race_reachable (set (clock_of_ms [5])) (snowflake_new 1 7) (fst ?fin) (snd ?fin)"
    by (rule run_schedule_reachable [OF race_reachable.start]) (simp only: clock_of_ms_def, simp)
  have wf: "sf_wf (snowflake_new 1 7)"
    by (simp add: sf_wf_def low_bits_def snowflake_new_def snowflake_config_default_def)
  have c: "\<forall>now \<in> set (clock_of_ms [5]).
      unat (get_timestamp now) < 2 ^ (64 - low_bits (snowflake_new 1 7))"
    by (simp add: clock_of_ms_def get_timestamp_def low_bits_def snowflake_new_def
        snowflake_config_default_def DEFAULT_START_TIME_def)
  have "snd ?fin 3 = Done (Inr (Id 10755072))" by code_simp
  from race_ids_well_formed [OF r wf c this] show ?thesis by blast
qed

end
