(* ===== verification/Dc_Health.thy ===== *)
theory Dc_Health
  imports Config_Alg "HOL-Library.AList"
begin

text \<open>
  Data-centre health and failover, \<open>DcHealthState\<close> and \<open>DcFailureDetector\<close> of
  \<open>src/src/core/algorithm/segment.rs\<close>. Instants are nanoseconds on a monotone clock. The
  \<open>HashMap\<close> of shared states is an association list: its order stands for the unspecified iteration
  order of the map, and every lemma holds for all orders. The health-check task is the repeated
  call of \<open>check_recovery\<close>.
\<close>

section \<open>One data centre\<close>

datatype dc_status = DcHealthy | DcDegraded | DcFailed

record dc_state =
  dc_id :: u8
  dc_status_code :: u8
  dc_last_success :: nat
  dc_failure_count :: u64
  dc_consecutive_failures :: u64

fun status_code :: "dc_status \<Rightarrow> u8" where
  "status_code DcHealthy = 0"
| "status_code DcDegraded = 1"
| "status_code DcFailed = 2"

definition dc_state_new :: "u8 \<Rightarrow> nat \<Rightarrow> dc_state" where
  "dc_state_new i now =
     \<lparr>dc_id = i, dc_status_code = status_code DcHealthy, dc_last_success = now,
      dc_failure_count = 0, dc_consecutive_failures = 0\<rparr>"

definition dc_get_status :: "dc_state \<Rightarrow> dc_status" where
  "dc_get_status d =
     (if dc_status_code d = 0 then DcHealthy else if dc_status_code d = 1 then DcDegraded
      else DcFailed)"

definition dc_set_status :: "dc_status \<Rightarrow> dc_state \<Rightarrow> dc_state" where
  "dc_set_status st d = d\<lparr>dc_status_code := status_code st\<rparr>"

definition dc_record_success :: "nat \<Rightarrow> dc_state \<Rightarrow> dc_state" where
  "dc_record_success now d =
     (let d1 = d\<lparr>dc_last_success := now, dc_consecutive_failures := 0\<rparr> in
      if dc_get_status d1 \<noteq> DcHealthy then dc_set_status DcHealthy d1 else d1)"

definition dc_record_failure :: "dc_state \<Rightarrow> dc_state" where
  "dc_record_failure d =
     (let consecutive = dc_consecutive_failures d + 1;
          d1 = d\<lparr>dc_failure_count := dc_failure_count d + 1,
                 dc_consecutive_failures := consecutive\<rparr>
      in if consecutive \<ge> 5 then dc_set_status DcFailed d1
         else if consecutive \<ge> 3 then dc_set_status DcDegraded d1
         else d1)"

definition should_use_dc :: "dc_state \<Rightarrow> bool" where
  "should_use_dc d \<longleftrightarrow> dc_get_status d = DcHealthy \<or> dc_get_status d = DcDegraded"

section \<open>The detector\<close>

record dc_detector =
  dt_states :: "(u8 \<times> dc_state) list"
  dt_failure_threshold :: u64
  dt_recovery_timeout :: nat

definition detector_new :: "u64 \<Rightarrow> nat \<Rightarrow> dc_detector" where
  "detector_new threshold timeout =
     \<lparr>dt_states = [], dt_failure_threshold = threshold, dt_recovery_timeout = timeout\<rparr>"

definition get_dc_state :: "u8 \<Rightarrow> dc_detector \<Rightarrow> dc_state option" where
  "get_dc_state i dt = map_of (dt_states dt) i"

definition add_dc :: "u8 \<Rightarrow> nat \<Rightarrow> dc_detector \<Rightarrow> dc_detector" where
  "add_dc i now dt =
     (case get_dc_state i dt of
        Some _ \<Rightarrow> dt
      | None \<Rightarrow> dt\<lparr>dt_states := AList.update i (dc_state_new i now) (dt_states dt)\<rparr>)"

text \<open>A state is shared, so recording on it is an update of the detector's map.\<close>

definition on_dc :: "u8 \<Rightarrow> (dc_state \<Rightarrow> dc_state) \<Rightarrow> dc_detector \<Rightarrow> dc_detector" where
  "on_dc i f dt = dt\<lparr>dt_states := AList.map_entry i f (dt_states dt)\<rparr>"

definition get_healthy_dcs :: "dc_detector \<Rightarrow> u8 list" where
  "get_healthy_dcs dt = map fst (filter (\<lambda>(_, d). should_use_dc d) (dt_states dt))"

definition select_best_dc :: "u8 \<Rightarrow> dc_detector \<Rightarrow> u8" where
  "select_best_dc preferred dt =
     (let healthy = get_healthy_dcs dt;
          fallback = (case healthy of [] \<Rightarrow> preferred | i # _ \<Rightarrow> i)
      in case get_dc_state preferred dt of
           Some d \<Rightarrow> if should_use_dc d then preferred else fallback
         | None \<Rightarrow> fallback)"

definition recover_dc :: "nat \<Rightarrow> nat \<Rightarrow> dc_state \<Rightarrow> dc_state" where
  "recover_dc now timeout d =
     (if dc_get_status d = DcFailed \<and> now - dc_last_success d > timeout
      then dc_set_status DcDegraded d else d)"

definition check_recovery :: "nat \<Rightarrow> dc_detector \<Rightarrow> dc_detector" where
  "check_recovery now dt =
     dt\<lparr>dt_states := map (\<lambda>(i, d). (i, recover_dc now (dt_recovery_timeout dt) d)) (dt_states dt)\<rparr>"

section \<open>Facts\<close>

lemma get_set_status [simp]: "dc_get_status (dc_set_status st d) = st"
  by (cases st) (simp_all add: dc_get_status_def dc_set_status_def)

lemma consecutive_set_status [simp]:
  "dc_consecutive_failures (dc_set_status st d) = dc_consecutive_failures d"
  by (simp add: dc_set_status_def)

lemma get_status_update [simp]:
  "dc_get_status (d\<lparr>dc_consecutive_failures := c\<rparr>) = dc_get_status d"
  "dc_get_status (d\<lparr>dc_failure_count := c\<rparr>) = dc_get_status d"
  "dc_get_status (d\<lparr>dc_last_success := t\<rparr>) = dc_get_status d"
  by (simp_all add: dc_get_status_def)

text \<open>The level that a number of failures since the last success stands for.\<close>

definition level :: "nat \<Rightarrow> dc_status" where
  "level n = (if n \<ge> 5 then DcFailed else if n \<ge> 3 then DcDegraded else DcHealthy)"

datatype dc_event = DcSuccess nat | DcFailure

fun dc_apply :: "dc_event \<Rightarrow> dc_state \<Rightarrow> dc_state" where
  "dc_apply (DcSuccess now) d = dc_record_success now d"
| "dc_apply DcFailure d = dc_record_failure d"

fun failures_after :: "nat \<Rightarrow> dc_event list \<Rightarrow> nat" where
  "failures_after n [] = n"
| "failures_after n (DcSuccess t # es) = failures_after 0 es"
| "failures_after n (DcFailure # es) = failures_after (Suc n) es"

lemma dc_trace_inv:
  "\<lbrakk>unat (dc_consecutive_failures d) = n; dc_get_status d = level n; n + length es < 2 ^ 64\<rbrakk> \<Longrightarrow>
     unat (dc_consecutive_failures (fold dc_apply es d)) = failures_after n es \<and>
     dc_get_status (fold dc_apply es d) = level (failures_after n es)"
proof (induction es arbitrary: d n)
  case (Cons e es)
  show ?case
  proof (cases e)
    case (DcSuccess t)
    have "unat (dc_consecutive_failures (dc_record_success t d)) = 0"
      "dc_get_status (dc_record_success t d) = level 0"
      by (simp_all add: dc_record_success_def Let_def level_def)
    from Cons.IH [OF this] Cons.prems(3) show ?thesis by (simp add: DcSuccess)
  next
    case DcFailure
    have suc: "unat (dc_consecutive_failures d + 1) = Suc n"
      using Cons.prems(1,3) by (subst unat_add_bounded) simp_all
    have "unat (dc_consecutive_failures (dc_record_failure d)) = Suc n"
      by (simp add: dc_record_failure_def Let_def suc)
    moreover have "dc_get_status (dc_record_failure d) = level (Suc n)"
      using Cons.prems(2) suc
      by (simp add: dc_record_failure_def Let_def level_def word_le_nat_alt split: if_splits)
    ultimately show ?thesis
      using Cons.IH [of "dc_record_failure d" "Suc n"] Cons.prems(3) by (simp add: DcFailure)
  qed
qed simp

lemma map_of_filter_head:
  assumes "distinct (map fst xs)" "filter (\<lambda>(_, d). P d) xs = (i, d) # ys"
  shows "map_of xs i = Some d \<and> P d"
proof -
  have "(i, d) \<in> set (filter (\<lambda>(_, d). P d) xs)" by (simp add: assms(2))
  then show ?thesis using assms(1) by auto
qed

section \<open>Properties\<close>

text \<open>
  The status of a data centre counts failures since the last success: healthy below 3, degraded from
  3, failed from 5, after any sequence of outcomes, and one success makes it healthy again.
\<close>

theorem dc_status_counts_failures:
  assumes "length es < 2 ^ 64"
  shows "dc_get_status (fold dc_apply es (dc_state_new i t)) = level (failures_after 0 es) \<and>
    should_use_dc (fold dc_apply es (dc_state_new i t)) = (failures_after 0 es < 5)"
proof -
  have "dc_get_status (fold dc_apply es (dc_state_new i t)) = level (failures_after 0 es)"
    using dc_trace_inv [of "dc_state_new i t" 0 es] assms
    by (simp add: dc_state_new_def dc_get_status_def level_def)
  then show ?thesis by (simp add: should_use_dc_def level_def)
qed

theorem dc_status_counts_failures_witness:
  "dc_get_status (fold dc_apply [DcFailure, DcSuccess 4, DcFailure, DcFailure, DcFailure]
     (dc_state_new 2 0)) = DcDegraded"
  using dc_status_counts_failures
    [of "[DcFailure, DcSuccess 4, DcFailure, DcFailure, DcFailure]" 2 0]
  by (simp add: level_def)

text \<open>
  Failover picks a usable data centre whenever there is one, keeps the preferred one if it is usable,
  and falls back to the preferred one only when none is.
\<close>

theorem select_best_dc_spec:
  assumes "distinct (map fst (dt_states dt))"
  shows "(case get_dc_state (select_best_dc p dt) dt of
        Some d \<Rightarrow> should_use_dc d \<or> select_best_dc p dt = p | None \<Rightarrow> select_best_dc p dt = p) \<and>
    ((\<exists>i d. get_dc_state i dt = Some d \<and> should_use_dc d) \<longrightarrow>
      (\<exists>d. get_dc_state (select_best_dc p dt) dt = Some d \<and> should_use_dc d)) \<and>
    ((\<exists>d. get_dc_state p dt = Some d \<and> should_use_dc d) \<longrightarrow> select_best_dc p dt = p)"
proof (cases "\<exists>d. get_dc_state p dt = Some d \<and> should_use_dc d")
  case True
  then show ?thesis by (auto simp: select_best_dc_def)
next
  case False
  show ?thesis
  proof (cases "filter (\<lambda>(_, d). should_use_dc d) (dt_states dt)")
    case Nil
    then have "\<not> (\<exists>i d. get_dc_state i dt = Some d \<and> should_use_dc d)"
      by (auto simp: get_dc_state_def filter_empty_conv dest!: map_of_SomeD)
    moreover have "select_best_dc p dt = p"
      using Nil by (simp add: select_best_dc_def get_healthy_dcs_def split: option.split)
    ultimately show ?thesis by (auto split: option.split)
  next
    case (Cons x ys)
    obtain i d where x: "x = (i, d)" by (cases x)
    note head = map_of_filter_head [OF assms Cons [unfolded x]]
    have "select_best_dc p dt = i"
      using False Cons by (auto simp: select_best_dc_def get_healthy_dcs_def x split: option.split)
    with head False show ?thesis by (auto simp: get_dc_state_def)
  qed
qed

theorem select_best_dc_spec_witness:
  "select_best_dc 1 \<lparr>dt_states = [(1, dc_set_status DcFailed (dc_state_new 1 0)), (2, dc_state_new 2 0)],
     dt_failure_threshold = 5, dt_recovery_timeout = 300\<rparr> = 2"
  (is "select_best_dc 1 ?dt = 2")
proof -
  have "get_dc_state 2 ?dt = Some (dc_state_new 2 0) \<and> should_use_dc (dc_state_new 2 0)"
    by (simp add: get_dc_state_def should_use_dc_def dc_state_new_def dc_get_status_def)
  then obtain d where d: "get_dc_state (select_best_dc 1 ?dt) ?dt = Some d" "should_use_dc d"
    using select_best_dc_spec [of ?dt 1] by auto
  then show ?thesis
    by (auto simp: get_dc_state_def should_use_dc_def split: if_splits)
qed

end
