(* ===== verification/Step_Calc.thy ===== *)
theory Step_Calc
  imports Config_Alg
begin

text \<open>
  The dynamic step of a segment, \<open>CpuMonitor\<close>, \<open>StepCalculator\<close> and \<open>QpsWindow\<close> of
  \<open>src/src/core/algorithm/segment.rs\<close>. \<open>f64::clamp\<close> panics when its bounds are crossed; that is
  \<open>None\<close>. Reading \<open>/proc/stat\<close> is I/O: the monitor is the last usage it stored. A base step of 0
  would divide by zero (an infinite or \<open>NaN\<close> velocity) and is outside the model.
\<close>

section \<open>CPU usage\<close>

definition DEFAULT_CPU_USAGE :: rat where
  "DEFAULT_CPU_USAGE = f64_round (1 / 10)"

record cpu_monitor =
  current_usage :: rat

definition cpu_monitor_new :: cpu_monitor where
  "cpu_monitor_new = \<lparr>current_usage = DEFAULT_CPU_USAGE\<rparr>"

definition f64_clamp :: "rat \<Rightarrow> rat \<Rightarrow> rat \<Rightarrow> rat option" where
  "f64_clamp lo hi x = (if lo \<le> hi then Some (if x < lo then lo else if x > hi then hi else x) else None)"

definition update_usage :: "rat \<Rightarrow> cpu_monitor \<Rightarrow> cpu_monitor" where
  "update_usage usage m =
     (case f64_clamp 0 1 usage of Some u \<Rightarrow> m\<lparr>current_usage := u\<rparr> | None \<Rightarrow> m)"

section \<open>The step calculator\<close>

record step_calculator =
  velocity_factor :: rat
  pressure_factor :: rat
  calc_cpu_monitor :: "cpu_monitor option"

definition step_calculator_default :: step_calculator where
  "step_calculator_default =
     \<lparr>velocity_factor = f64_round (5 / 10), pressure_factor = f64_round (3 / 10),
      calc_cpu_monitor = None\<rparr>"

definition get_cpu_usage :: "step_calculator \<Rightarrow> rat" where
  "get_cpu_usage c =
     (case calc_cpu_monitor c of Some m \<Rightarrow> current_usage m | None \<Rightarrow> DEFAULT_CPU_USAGE)"

definition calculate_step_f64 :: "u64 \<Rightarrow> u64 \<Rightarrow> segment_config \<Rightarrow> step_calculator \<Rightarrow> rat" where
  "calculate_step_f64 qps current_step cfg c =
     (let step = (if current_step = 0 then base_step cfg else current_step);
          velocity = f64_div (f64_of_u64 qps) (f64_of_u64 step);
          pressure = get_cpu_usage c
      in f64_mul (f64_mul (f64_of_u64 (base_step cfg))
                          (f64_add 1 (f64_mul (velocity_factor c) velocity)))
                 (f64_add 1 (f64_mul (pressure_factor c) pressure)))"

definition calculate_step :: "u64 \<Rightarrow> u64 \<Rightarrow> segment_config \<Rightarrow> step_calculator \<Rightarrow> u64 option" where
  "calculate_step qps current_step cfg c =
     (let next_step = calculate_step_f64 qps current_step cfg c;
          lo = max (f64_mul (f64_of_u64 (base_step cfg)) (f64_round (5 / 10)))
                   (f64_of_u64 (min_step cfg));
          hi = min (f64_mul (f64_of_u64 (base_step cfg)) 100) (f64_of_u64 (max_step cfg))
      in case f64_clamp lo hi next_step of
           None \<Rightarrow> None
         | Some x \<Rightarrow> Some (f64_to_u64 (f64_round_int x)))"

definition get_adjustment_direction ::
  "u64 \<Rightarrow> u64 \<Rightarrow> segment_config \<Rightarrow> step_calculator \<Rightarrow> string option" where
  "get_adjustment_direction qps current_step cfg c =
     (case calculate_step qps current_step cfg c of
        None \<Rightarrow> None
      | Some target \<Rightarrow>
          (let ratio = f64_div (f64_of_u64 target) (f64_of_u64 current_step) in
           Some (if ratio > f64_round (12 / 10) then ''up''
                 else if ratio < f64_round (8 / 10) then ''down'' else ''stable'')))"

section \<open>The request window\<close>

definition WINDOW_SIZE :: nat where
  "WINDOW_SIZE = 60"

definition DEFAULT_QPS_BASELINE :: u64 where
  "DEFAULT_QPS_BASELINE = 1000"

record qps_window =
  qw_counters :: "u64 list"
  qw_start_second :: u64

definition qps_window_new :: "u64 \<Rightarrow> qps_window" where
  "qps_window_new now = \<lparr>qw_counters = replicate WINDOW_SIZE 0, qw_start_second = now\<rparr>"

definition last_active :: "u64 list \<Rightarrow> nat option" where
  "last_active cs =
     (case filter (\<lambda>i. cs ! i > 0) (rev [0..<length cs]) of [] \<Rightarrow> None | i # _ \<Rightarrow> Some i)"

definition record_and_get_qps :: "u64 \<Rightarrow> qps_window \<Rightarrow> u64 \<times> qps_window" where
  "record_and_get_qps now w =
     (let elapsed = unat (sat_sub now (qw_start_second w)) in
      if elapsed \<ge> WINDOW_SIZE then
        (DEFAULT_QPS_BASELINE,
         \<lparr>qw_counters = (map (\<lambda>_. 0) (qw_counters w))[0 := 1], qw_start_second = now\<rparr>)
      else
        (let slot = elapsed mod WINDOW_SIZE;
             cs = (qw_counters w)[slot := qw_counters w ! slot + 1];
             total_count = sum_list cs;
             active_slots = (case last_active cs of Some i \<Rightarrow> i + 1 | None \<Rightarrow> 1);
             avg_secs = of_nat (max active_slots 1) :: u64;
             qps = total_count div avg_secs
         in (max qps DEFAULT_QPS_BASELINE, w\<lparr>qw_counters := cs\<rparr>)))"

section \<open>Facts\<close>

lemma f64_clamp_bounds: "f64_clamp lo hi x = Some y \<Longrightarrow> lo \<le> y \<and> y \<le> hi"
  by (auto simp: f64_clamp_def split: if_splits)

lemma f64_half: "f64_round (5 / 10) = 1 / 2"
  by code_simp

lemma f64_mul_half:
  "n < 2 ^ 53 \<Longrightarrow> f64_mul (of_nat n) (1 / 2) = of_nat n / 2"
proof -
  assume n: "n < 2 ^ 53"
  have "(2::rat) powi (- 1) = 1 / 2" by simp
  with f64_round_exact [OF n, of "- 1"] show ?thesis
    by (simp only: f64_mul_def)
qed

lemma f64_mul_hundred:
  "n * 100 < 2 ^ 53 \<Longrightarrow> f64_mul (of_nat n) 100 = of_nat (n * 100)"
  using f64_round_nat [of "n * 100"] by (simp add: f64_mul_def)

lemma f64_round_int_bounds:
  assumes "of_nat lo \<le> x" "x \<le> of_nat hi"
  shows "\<exists>k. f64_round_int x = of_nat k \<and> lo \<le> k \<and> k \<le> hi"
proof -
  have "0 \<le> x" using assms(1) of_nat_0_le_iff order_trans by blast
  let ?k = "\<lfloor>x + 1 / 2\<rfloor>"
  have "int lo \<le> ?k" using assms(1) by (simp add: le_floor_iff)
  moreover have "?k \<le> int hi" using assms(2) by linarith
  ultimately show ?thesis
    using \<open>0 \<le> x\<close> by (intro exI [of _ "nat ?k"]) (simp add: f64_round_int_def, linarith)
qed

lemma unat_f64_to_u64: "k < 2 ^ 64 \<Longrightarrow> unat (f64_to_u64 (of_nat k)) = k"
  by (simp add: f64_to_u64_def unsigned_of_nat take_bit_nat_eq_self)

section \<open>Properties\<close>

lemma calculate_step_clamped:
  assumes "0 < unat (base_step cfg)" "unat (min_step cfg) \<le> unat (base_step cfg)"
    "unat (base_step cfg) \<le> unat (max_step cfg)" "unat (max_step cfg) < 2 ^ 46"
  shows "\<exists>x. calculate_step qps cur cfg c = Some (f64_to_u64 (f64_round_int x)) \<and>
    of_nat (unat (min_step cfg)) \<le> x \<and> of_nat (unat (base_step cfg)) / 2 \<le> x \<and>
    x \<le> of_nat (min (unat (base_step cfg) * 100) (unat (max_step cfg)))"
proof -
  define b mn mx where defs: "b = unat (base_step cfg)" "mn = unat (min_step cfg)"
    "mx = unat (max_step cfg)"
  have b: "0 < b" "mn \<le> b" "b \<le> mx" "mx < 2 ^ 46" using assms by (simp_all add: defs)
  have ex: "f64_of_u64 (base_step cfg) = of_nat b" "f64_of_u64 (min_step cfg) = of_nat mn"
    "f64_of_u64 (max_step cfg) = of_nat mx"
    using b unfolding defs by (intro f64_of_u64_exact; simp)+
  have lo: "f64_mul (of_nat b) (f64_round (5 / 10)) = of_nat b / 2"
    using b unfolding f64_half by (intro f64_mul_half) simp
  have hi: "f64_mul (of_nat b) 100 = of_nat (b * 100)"
    using b by (intro f64_mul_hundred) simp
  let ?lo = "max (of_nat b / 2) (of_nat mn) :: rat"
  let ?hi = "min (of_nat (b * 100)) (of_nat mx) :: rat"
  have mono: "of_nat i \<le> (of_nat j :: rat)" if "i \<le> j" for i j
    using that by (simp only: of_nat_le_iff)
  have "mn \<le> b * 100" "b \<le> b * 100" using b by simp_all
  from mono [OF this(1)] mono [OF this(2)] mono [OF b(2)] mono [OF b(3)] b(1)
  have "?lo \<le> ?hi" by simp
  then obtain x where x: "f64_clamp ?lo ?hi (calculate_step_f64 qps cur cfg c) = Some x"
    by (simp add: f64_clamp_def)
  have "calculate_step qps cur cfg c = Some (f64_to_u64 (f64_round_int x))"
    unfolding calculate_step_def Let_def ex lo hi using x by simp
  then show ?thesis
    using f64_clamp_bounds [OF x] unfolding defs [symmetric] by (auto simp: min_def)
qed

text \<open>
  For a configuration that passes the check, with steps below \<open>2 ^ 46\<close>, the calculator never
  panics and its step lies between the configured minimum and maximum, at least half and at most a
  hundred times the base, whatever the load and the CPU usage.
\<close>

theorem calculate_step_bounds:
  assumes "0 < base_step cfg" "min_step cfg \<le> base_step cfg" "base_step cfg \<le> max_step cfg"
    and "unat (max_step cfg) < 2 ^ 46"
  shows "\<exists>r. calculate_step qps cur cfg c = Some r \<and> min_step cfg \<le> r \<and> r \<le> max_step cfg \<and>
    unat (base_step cfg) \<le> 2 * unat r \<and> unat r \<le> 100 * unat (base_step cfg)"
proof -
  define b mn mx where defs: "b = unat (base_step cfg)" "mn = unat (min_step cfg)"
    "mx = unat (max_step cfg)"
  have b: "0 < b" "mn \<le> b" "b \<le> mx" "mx < 2 ^ 46"
    using assms by (simp_all add: defs word_le_nat_alt unat_gt_0)
  from calculate_step_clamped [of cfg qps cur c] b obtain x where
    x: "calculate_step qps cur cfg c = Some (f64_to_u64 (f64_round_int x))"
    and bounds: "of_nat mn \<le> x" "x \<le> of_nat (min (b * 100) mx)" "of_nat b / 2 \<le> x"
    unfolding defs by auto
  from f64_round_int_bounds [OF bounds(1,2)] obtain k where
    k: "f64_round_int x = of_nat k" "mn \<le> k" "k \<le> min (b * 100) mx" by blast
  have half: "b \<le> 2 * k"
  proof -
    have "0 \<le> x" using bounds(1) of_nat_0_le_iff order_trans by blast
    then have "of_nat k = (of_int \<lfloor>x + 1 / 2\<rfloor> :: rat)" using k(1) by (simp add: f64_round_int_def)
    then have "of_nat b \<le> (2 * of_nat k + 1 :: rat) \<and> 2 * x < 2 * of_nat k + 1" using bounds(3) by linarith
    then have "(of_nat b :: rat) < of_nat (2 * k + 1)" using bounds(3) by simp
    then show ?thesis unfolding of_nat_less_iff by simp
  qed
  have "k < 2 ^ 64" using k(3) b(4) by simp
  then have r: "unat (f64_to_u64 (of_nat k)) = k" by (rule unat_f64_to_u64)
  have "calculate_step qps cur cfg c = Some (f64_to_u64 (of_nat k))"
    by (simp add: x k(1))
  then show ?thesis
    using r k half by (auto simp: word_le_nat_alt defs)
qed

theorem calculate_step_bounds_witness:
  "\<exists>r. calculate_step 50000 1000 segment_config_default step_calculator_default = Some r \<and>
     500 \<le> r \<and> r \<le> 100000"
  using calculate_step_bounds [of segment_config_default 50000 1000 step_calculator_default]
  by (auto simp: segment_config_default_def)

text \<open>
  The request window keeps its 60 counters, never reports less than the baseline of 1000, and
  inside a window counts every request exactly once: the total grows by one.
\<close>

theorem qps_window_counts:
  assumes "length (qw_counters w) = WINDOW_SIZE" "record_and_get_qps now w = (qps, w')"
  shows "length (qw_counters w') = WINDOW_SIZE \<and> DEFAULT_QPS_BASELINE \<le> qps \<and>
    (if unat (sat_sub now (qw_start_second w)) < WINDOW_SIZE
     then sum_list (qw_counters w') = sum_list (qw_counters w) + 1 \<and>
       qw_start_second w' = qw_start_second w
     else sum_list (qw_counters w') = 1 \<and> qw_start_second w' = now)"
proof -
  have upd: "sum_list (cs[i := cs ! i + 1]) = sum_list cs + 1" if "i < length cs" for i and cs :: "u64 list"
    using that by (induction cs arbitrary: i) (auto split: nat.splits simp: algebra_simps)
  have one: "sum_list ((map (\<lambda>_. 0) cs)[0 := 1]) = (1 :: u64)" if "cs \<noteq> []" for cs :: "u64 list"
  proof -
    have "sum_list (map (\<lambda>_. 0 :: u64) ys) = 0" for ys :: "u64 list" by (induction ys) simp_all
    with that show ?thesis by (cases cs) simp_all
  qed
  show ?thesis
  proof (cases "unat (sat_sub now (qw_start_second w)) < WINDOW_SIZE")
    case True
    then show ?thesis
      using assms upd [of "unat (sat_sub now (qw_start_second w))" "qw_counters w"]
      by (auto simp: record_and_get_qps_def Let_def)
  next
    case False
    have "qw_counters w \<noteq> []" using assms(1) by (auto simp: WINDOW_SIZE_def)
    from one [OF this] False assms show ?thesis
      by (auto simp: record_and_get_qps_def Let_def)
  qed
qed

theorem qps_window_counts_witness:
  "sum_list (qw_counters (snd (record_and_get_qps 103 (qps_window_new 100)))) = 1"
proof -
  obtain q w' where r: "record_and_get_qps 103 (qps_window_new 100) = (q, w')"
    by (cases "record_and_get_qps 103 (qps_window_new 100)")
  have w: "sum_list (qw_counters (qps_window_new 100)) = 0"
    "length (qw_counters (qps_window_new 100)) = WINDOW_SIZE"
    "qw_start_second (qps_window_new 100) = 100"
    by (simp_all add: qps_window_new_def WINDOW_SIZE_def sum_list_replicate)
  from qps_window_counts [OF w(2) r] show ?thesis
    by (simp add: w(1,3) r sat_sub_def WINDOW_SIZE_def)
qed

end
