(* ===== verification/Circuit_Breaker.thy ===== *)
theory Circuit_Breaker
  imports F64 Types_Id
begin

text \<open>
  The circuit breaker, \<open>src/src/core/algorithm/circuit_breaker.rs\<close>, as one task drives it. An
  \<open>Instant\<close> is the number of nanoseconds since the global start instant; an operation takes the
  instants its calls of \<open>Instant::now()\<close> return. \<open>execute\<close> takes the result the wrapped operation
  would give and the error value of an open breaker.
\<close>

section \<open>State\<close>

datatype breaker_state = CbClosed | CbHalfOpen | CbOpen

definition STATE_CLOSED :: u8 where "STATE_CLOSED = 0"
definition STATE_OPEN :: u8 where "STATE_OPEN = 1"
definition STATE_HALF_OPEN :: u8 where "STATE_HALF_OPEN = 2"

fun state_to_u8 :: "breaker_state \<Rightarrow> u8" where
  "state_to_u8 CbClosed = STATE_CLOSED"
| "state_to_u8 CbOpen = STATE_OPEN"
| "state_to_u8 CbHalfOpen = STATE_HALF_OPEN"

definition u8_to_state :: "u8 \<Rightarrow> breaker_state" where
  "u8_to_state v =
     (if v = STATE_OPEN then CbOpen else if v = STATE_HALF_OPEN then CbHalfOpen else CbClosed)"

definition instant_to_nanos :: "nat \<Rightarrow> u64" where
  "instant_to_nanos i = max (of_nat i) 1"

definition nanos_to_instant :: "u64 \<Rightarrow> nat option" where
  "nanos_to_instant n = (if n = 0 then None else Some (unat n))"

record breaker_config =
  failure_threshold :: u64
  success_threshold :: u64
  timeout_ms :: u64
  window_size_seconds :: u64
  min_requests :: u64

definition cb_config_default :: breaker_config where
  "cb_config_default =
     \<lparr>failure_threshold = 5, success_threshold = 3, timeout_ms = 30000, window_size_seconds = 60,
      min_requests = 10\<rparr>"

record circuit_breaker =
  cb_config :: breaker_config
  cb_state :: u8
  cb_consecutive_failures :: u64
  cb_consecutive_successes :: u64
  cb_total_requests :: u64
  cb_successful_requests :: u64
  cb_failed_requests :: u64
  cb_window_requests :: u64
  cb_window_failures :: u64
  cb_window_start :: u64
  cb_last_failure_at :: u64
  cb_last_success_at :: u64
  cb_next_attempt_at :: u64

definition cb_new :: "breaker_config \<Rightarrow> nat \<Rightarrow> circuit_breaker" where
  "cb_new cfg now =
     \<lparr>cb_config = cfg, cb_state = STATE_CLOSED, cb_consecutive_failures = 0,
      cb_consecutive_successes = 0, cb_total_requests = 0, cb_successful_requests = 0,
      cb_failed_requests = 0, cb_window_requests = 0, cb_window_failures = 0,
      cb_window_start = instant_to_nanos now, cb_last_failure_at = 0, cb_last_success_at = 0,
      cb_next_attempt_at = 0\<rparr>"

section \<open>Operations\<close>

definition should_allow_request :: "nat \<Rightarrow> circuit_breaker \<Rightarrow> bool \<times> circuit_breaker" where
  "should_allow_request now c =
     (if cb_state c = STATE_CLOSED then (True, c)
      else if cb_state c = STATE_OPEN then
        (if cb_next_attempt_at c = 0 then (False, c)
         else case nanos_to_instant (cb_next_attempt_at c) of
           None \<Rightarrow> (False, c)
         | Some next_attempt \<Rightarrow>
             if now \<ge> next_attempt then (True, c\<lparr>cb_state := STATE_HALF_OPEN\<rparr>) else (False, c))
      else (True, c))"

definition on_success :: "nat \<Rightarrow> circuit_breaker \<Rightarrow> circuit_breaker" where
  "on_success now c =
     (let c1 = c\<lparr>cb_total_requests := cb_total_requests c + 1,
                 cb_successful_requests := cb_successful_requests c + 1,
                 cb_window_requests := cb_window_requests c + 1,
                 cb_last_success_at := instant_to_nanos now,
                 cb_consecutive_successes := cb_consecutive_successes c + 1,
                 cb_consecutive_failures := 0\<rparr>
      in if cb_state c1 = STATE_HALF_OPEN \<and>
            cb_consecutive_successes c + 1 \<ge> success_threshold (cb_config c)
         then c1\<lparr>cb_state := STATE_CLOSED, cb_consecutive_failures := 0,
                 cb_consecutive_successes := 0, cb_next_attempt_at := 0\<rparr>
         else c1)"

definition transition_to_open :: "nat \<Rightarrow> circuit_breaker \<Rightarrow> circuit_breaker" where
  "transition_to_open now c =
     c\<lparr>cb_state := STATE_OPEN,
       cb_next_attempt_at := instant_to_nanos (now + unat (timeout_ms (cb_config c)) * 1000000)\<rparr>"

definition expire_window :: "nat \<Rightarrow> circuit_breaker \<Rightarrow> circuit_breaker" where
  "expire_window now c =
     (case nanos_to_instant (cb_window_start c) of
        None \<Rightarrow> c
      | Some window_start \<Rightarrow>
          if now - window_start > unat (window_size_seconds (cb_config c)) * 1000000000
          then c\<lparr>cb_window_requests := 0, cb_window_failures := 0,
                 cb_window_start := instant_to_nanos now\<rparr>
          else c)"

definition should_open :: "circuit_breaker \<Rightarrow> bool" where
  "should_open c \<longleftrightarrow>
     cb_consecutive_failures c \<ge> failure_threshold (cb_config c) \<or>
     cb_window_requests c \<ge> min_requests (cb_config c) \<and>
     f64_div (f64_of_u64 (cb_window_failures c)) (f64_of_u64 (cb_window_requests c)) > 1 / 2"

definition record_failure :: "nat \<Rightarrow> circuit_breaker \<Rightarrow> circuit_breaker" where
  "record_failure now c =
     expire_window now
       (c\<lparr>cb_total_requests := cb_total_requests c + 1,
          cb_failed_requests := cb_failed_requests c + 1,
          cb_window_requests := cb_window_requests c + 1,
          cb_window_failures := cb_window_failures c + 1,
          cb_last_failure_at := instant_to_nanos now,
          cb_consecutive_failures := cb_consecutive_failures c + 1,
          cb_consecutive_successes := 0\<rparr>)"

definition on_failure :: "nat \<Rightarrow> nat \<Rightarrow> circuit_breaker \<Rightarrow> circuit_breaker" where
  "on_failure now now_open c =
     (let c1 = record_failure now c in
      if should_open c1 \<or> cb_state c1 \<noteq> STATE_HALF_OPEN then transition_to_open now_open c1 else c1)"

text \<open>\<open>t0\<close>, \<open>t1\<close> and \<open>t2\<close> are the instants of the check, the callback and the opening.\<close>

definition execute ::
  "'e \<Rightarrow> nat \<times> nat \<times> nat \<Rightarrow> ('e + 'a) \<Rightarrow> circuit_breaker \<Rightarrow> ('e + 'a) \<times> circuit_breaker" where
  "execute open_error ts operation c =
     (case ts of (t0, t1, t2) \<Rightarrow>
      case should_allow_request t0 c of
        (False, c1) \<Rightarrow> (Inl open_error, c1)
      | (True, c1) \<Rightarrow>
          (case operation of
             Inr result \<Rightarrow> (Inr result, on_success t1 c1)
           | Inl e \<Rightarrow> (Inl e, on_failure t1 t2 c1)))"

definition transition_to_half_open :: "circuit_breaker \<Rightarrow> circuit_breaker" where
  "transition_to_half_open c =
     (let c1 = c\<lparr>cb_state := STATE_HALF_OPEN\<rparr> in
      if cb_state c \<noteq> STATE_HALF_OPEN
      then c1\<lparr>cb_consecutive_successes := 0, cb_consecutive_failures := 0\<rparr> else c1)"

definition transition_to_closed :: "circuit_breaker \<Rightarrow> circuit_breaker" where
  "transition_to_closed c =
     (let c1 = c\<lparr>cb_state := STATE_CLOSED\<rparr> in
      if cb_state c \<noteq> STATE_CLOSED
      then c1\<lparr>cb_consecutive_failures := 0, cb_consecutive_successes := 0, cb_next_attempt_at := 0\<rparr>
      else c1)"

definition cb_reset :: "circuit_breaker \<Rightarrow> circuit_breaker" where
  "cb_reset c =
     c\<lparr>cb_state := STATE_CLOSED, cb_consecutive_failures := 0, cb_consecutive_successes := 0,
       cb_window_requests := 0, cb_window_failures := 0, cb_last_failure_at := 0,
       cb_last_success_at := 0, cb_next_attempt_at := 0\<rparr>"

definition cb_get_state :: "circuit_breaker \<Rightarrow> breaker_state" where
  "cb_get_state c = u8_to_state (cb_state c)"

record cb_snapshot =
  cs_state :: breaker_state
  cs_total_requests :: u64
  cs_successful_requests :: u64
  cs_failed_requests :: u64
  cs_consecutive_failures :: u64
  cs_consecutive_successes :: u64
  cs_last_failure_at :: "nat option"
  cs_last_success_at :: "nat option"
  cs_next_attempt_at :: "nat option"

definition elapsed_secs :: "nat \<Rightarrow> u64 \<Rightarrow> nat option" where
  "elapsed_secs now n = map_option (\<lambda>i. (now - i) div 1000000000) (nanos_to_instant n)"

definition cb_metrics :: "nat \<Rightarrow> circuit_breaker \<Rightarrow> cb_snapshot" where
  "cb_metrics now c =
     \<lparr>cs_state = u8_to_state (cb_state c), cs_total_requests = cb_total_requests c,
      cs_successful_requests = cb_successful_requests c, cs_failed_requests = cb_failed_requests c,
      cs_consecutive_failures = cb_consecutive_failures c,
      cs_consecutive_successes = cb_consecutive_successes c,
      cs_last_failure_at = elapsed_secs now (cb_last_failure_at c),
      cs_last_success_at = elapsed_secs now (cb_last_success_at c),
      cs_next_attempt_at = elapsed_secs now (cb_next_attempt_at c)\<rparr>"

definition failure_rate :: "circuit_breaker \<Rightarrow> rat" where
  "failure_rate c =
     (if cb_window_requests c = 0 then 0
      else f64_div (f64_of_u64 (cb_window_failures c)) (f64_of_u64 (cb_window_requests c)))"

section \<open>Facts\<close>

lemmas state_codes = STATE_CLOSED_def STATE_OPEN_def STATE_HALF_OPEN_def

lemma u8_state_roundtrip: "u8_to_state (state_to_u8 s) = s"
  by (cases s) (simp_all add: u8_to_state_def state_codes)

lemma instant_to_nanos_nonzero [simp]: "instant_to_nanos i \<noteq> 0"
  by (auto simp: instant_to_nanos_def max_def)

lemma expire_window_simps [simp]:
  "cb_state (expire_window now c) = cb_state c"
  "cb_config (expire_window now c) = cb_config c"
  "cb_next_attempt_at (expire_window now c) = cb_next_attempt_at c"
  "cb_consecutive_failures (expire_window now c) = cb_consecutive_failures c"
  "cb_consecutive_successes (expire_window now c) = cb_consecutive_successes c"
  "cb_total_requests (expire_window now c) = cb_total_requests c"
  "cb_failed_requests (expire_window now c) = cb_failed_requests c"
  "cb_successful_requests (expire_window now c) = cb_successful_requests c"
  by (simp_all add: expire_window_def split: option.split)

lemma record_failure_simps [simp]:
  "cb_state (record_failure now c) = cb_state c"
  "cb_config (record_failure now c) = cb_config c"
  "cb_next_attempt_at (record_failure now c) = cb_next_attempt_at c"
  "cb_consecutive_failures (record_failure now c) = cb_consecutive_failures c + 1"
  "cb_consecutive_successes (record_failure now c) = 0"
  "cb_total_requests (record_failure now c) = cb_total_requests c + 1"
  "cb_failed_requests (record_failure now c) = cb_failed_requests c + 1"
  "cb_successful_requests (record_failure now c) = cb_successful_requests c"
  by (simp_all add: record_failure_def)

lemma on_success_half_open:
  assumes "cb_state c = STATE_HALF_OPEN"
  shows "cb_state (on_success t c) =
      (if cb_consecutive_successes c + 1 \<ge> success_threshold (cb_config c) then STATE_CLOSED
       else STATE_HALF_OPEN)"
    "cb_consecutive_successes (on_success t c) =
      (if cb_consecutive_successes c + 1 \<ge> success_threshold (cb_config c) then 0
       else cb_consecutive_successes c + 1)"
  using assms by (simp_all add: on_success_def Let_def)

lemma on_success_config [simp]: "cb_config (on_success t c) = cb_config c"
  by (simp add: on_success_def Let_def)

section \<open>The invariant\<close>

text \<open>
  Every state reached by executing operations and by the manual transitions has a valid code, has a
  next attempt set whenever it is open, and has counted each request as a success or a failure.
\<close>

definition cb_inv :: "circuit_breaker \<Rightarrow> bool" where
  "cb_inv c \<longleftrightarrow> cb_state c \<in> {STATE_CLOSED, STATE_OPEN, STATE_HALF_OPEN} \<and>
     (cb_state c = STATE_OPEN \<longrightarrow> cb_next_attempt_at c \<noteq> 0) \<and>
     cb_total_requests c = cb_successful_requests c + cb_failed_requests c"

datatype cb_event =
    Execute "nat \<times> nat \<times> nat" "unit + unit"
  | ForceHalfOpen
  | ForceClosed
  | ForceOpen nat
  | Reset

fun cb_apply :: "cb_event \<Rightarrow> circuit_breaker \<Rightarrow> circuit_breaker" where
  "cb_apply (Execute ts r) c = snd (execute () ts r c)"
| "cb_apply ForceHalfOpen c = transition_to_half_open c"
| "cb_apply ForceClosed c = transition_to_closed c"
| "cb_apply (ForceOpen now) c = transition_to_open now c"
| "cb_apply Reset c = cb_reset c"

lemma cb_inv_allow: "cb_inv c \<Longrightarrow> should_allow_request now c = (b, c') \<Longrightarrow> cb_inv c'"
  by (auto simp: cb_inv_def should_allow_request_def state_codes split: if_splits option.splits)

lemma cb_inv_success: "cb_inv c \<Longrightarrow> cb_inv (on_success now c)"
  by (auto simp: cb_inv_def on_success_def Let_def state_codes)

lemma cb_inv_failure: "cb_inv c \<Longrightarrow> cb_inv (on_failure now now2 c)"
  by (auto simp: cb_inv_def on_failure_def Let_def transition_to_open_def state_codes)

lemma cb_inv_apply: "cb_inv c \<Longrightarrow> cb_inv (cb_apply e c)"
proof (cases e)
  case (Execute ts r)
  then show "cb_inv c \<Longrightarrow> ?thesis"
    by (cases ts)
      (auto simp: execute_def cb_inv_success cb_inv_failure
        split: prod.split sum.split bool.split dest: cb_inv_allow)
qed (auto simp: cb_inv_def transition_to_half_open_def transition_to_closed_def
    transition_to_open_def cb_reset_def state_codes)

section \<open>Properties\<close>

text \<open>
  Whatever operations run one after another and whatever the manual transitions do, an open breaker
  always has a next attempt and every request is counted once; from its next attempt on, however much
  later, a request is let through and the breaker is half open. Operations that overlap can leave the
  breaker without a next attempt: \<open>Breaker_Race\<close>.
\<close>

theorem cb_never_stuck:
  "let c = fold cb_apply es (cb_new cfg start);
       (allowed, c') = should_allow_request (unat (cb_next_attempt_at c) + later) c
   in cb_inv c \<and> allowed \<and> cb_state c' \<noteq> STATE_OPEN"
proof -
  have inv: "cb_inv (fold cb_apply es d)" if "cb_inv d" for es d
    using that by (induction es arbitrary: d) (simp_all add: cb_inv_apply)
  have "cb_inv (cb_new cfg start)" by (simp add: cb_inv_def cb_new_def state_codes)
  with inv have i: "cb_inv (fold cb_apply es (cb_new cfg start))" by blast
  then show ?thesis
    by (auto simp: should_allow_request_def cb_inv_def nanos_to_instant_def state_codes Let_def)
qed

text \<open>
  One failure outside the half-open state opens the breaker: the configured number of consecutive
  failures and the failure rate play no part there.
\<close>

theorem cb_single_failure_opens:
  assumes "cb_state c \<noteq> STATE_HALF_OPEN"
  shows "cb_get_state (on_failure now now_open c) = CbOpen \<and>
    cb_next_attempt_at (on_failure now now_open c) =
      instant_to_nanos (now_open + unat (timeout_ms (cb_config c)) * 1000000)"
  using assms
  by (simp add: on_failure_def Let_def transition_to_open_def cb_get_state_def u8_to_state_def)

theorem cb_single_failure_opens_witness:
  "cb_get_state (on_failure 7 8 (cb_new cb_config_default 0)) = CbOpen \<and>
   failure_threshold cb_config_default = 5"
  using cb_single_failure_opens [of "cb_new cb_config_default 0" 7 8]
  by (simp add: cb_new_def state_codes cb_config_default_def)

text \<open>
  While open, before the next attempt, an execution is refused: the operation is not run, the error
  is the breaker's own and nothing changes.
\<close>

theorem cb_open_refuses:
  assumes "cb_state c = STATE_OPEN" "now < unat (cb_next_attempt_at c)"
  shows "execute err (now, t1, t2) operation c = (Inl err, c)"
proof -
  have "cb_next_attempt_at c \<noteq> 0" using assms(2) by auto
  with assms show ?thesis
    by (simp add: execute_def should_allow_request_def nanos_to_instant_def state_codes)
qed

theorem cb_open_refuses_witness:
  "fst (execute () (9, 10, 11) (Inr (5 :: nat)) (on_failure 7 8 (cb_new cb_config_default 0))) =
     Inl ()"
proof -
  let ?c = "on_failure 7 8 (cb_new cb_config_default 0)"
  have c: "cb_state ?c = STATE_OPEN" "cb_next_attempt_at ?c = 30000000008"
    by (simp_all add: on_failure_def Let_def transition_to_open_def cb_new_def state_codes
        cb_config_default_def instant_to_nanos_def max_def word_le_nat_alt)
  then show ?thesis using cb_open_refuses [of ?c 9 "()" 10 11 "Inr (5 :: nat)"] by simp
qed

text \<open>
  A half-open breaker closes exactly with the configured number of successes in a row: after fewer it
  is still half open, and after that many it is closed with its counters and next attempt cleared.
\<close>

theorem cb_half_open_closes:
  assumes "cb_state c = STATE_HALF_OPEN" "cb_consecutive_successes c = 0"
    and "0 < success_threshold (cb_config c)" "length ts \<le> unat (success_threshold (cb_config c))"
  shows "cb_state (fold on_success ts c) =
      (if length ts = unat (success_threshold (cb_config c)) then STATE_CLOSED else STATE_HALF_OPEN) \<and>
    unat (cb_consecutive_successes (fold on_success ts c)) =
      (if length ts = unat (success_threshold (cb_config c)) then 0 else length ts)"
  using assms(4)
proof (induction ts rule: rev_induct)
  case Nil
  with assms(1-3) show ?case by (auto simp: state_codes word_less_nat_alt)
next
  case (snoc t ts)
  let ?c = "fold on_success ts c" and ?n = "unat (success_threshold (cb_config c))"
  have cfg: "cb_config (fold on_success us d) = cb_config d" for us d
    by (induction us arbitrary: d) simp_all
  have IH: "cb_state ?c = STATE_HALF_OPEN" "unat (cb_consecutive_successes ?c) = length ts"
    using snoc by simp_all
  have "length ts < ?n" using snoc.prems by simp
  moreover have "?n < 2 ^ LENGTH(64)" by (rule unsigned_less)
  ultimately have "unat (cb_consecutive_successes ?c + 1) = Suc (length ts)"
    using IH(2) by (subst unat_add_bounded) simp_all
  then show ?case
    using IH(2) snoc.prems on_success_half_open [OF IH(1), of t]
    by (auto simp: cfg word_le_nat_alt state_codes)
qed

theorem cb_half_open_closes_witness:
  "cb_state (fold on_success [1, 2, 3] (transition_to_half_open (cb_new cb_config_default 0))) =
     STATE_CLOSED"
  using cb_half_open_closes [of "transition_to_half_open (cb_new cb_config_default 0)" "[1, 2, 3]"]
  by (simp add: transition_to_half_open_def Let_def cb_new_def cb_config_default_def state_codes)

end
