(* ===== verification/Breaker_Race.thy ===== *)
theory Breaker_Race
  imports Circuit_Breaker
begin

text \<open>
  The circuit breaker of \<open>src/src/core/algorithm/circuit_breaker.rs\<close> as several tasks drive it: every
  load, store, swap, increment, compare-exchange and reading of the clock in \<open>execute\<close> is one step, with
  the values the task has read kept at its program point. \<open>Circuit_Breaker\<close> has the operations as single
  steps, which is what they are for a task that runs alone (\<open>alone_executes\<close>).
\<close>

section \<open>Program points\<close>

datatype cb_point =
    CbIdle | CbOpenSeen | CbTimed u64 | CbExpired | CbRunning
  | SuccTotal | SuccCount | SuccWindow | SuccStamp | SuccStore nat | SuccRun | SuccClear u64 | SuccState u64
  | SuccClose | SuccFailures | SuccSuccesses | SuccNext
  | FailTotal | FailCount | FailWindow | FailWindowFailures | FailStamp | FailStore nat | FailRun nat
  | FailClear nat u64 | FailStart nat u64 | FailExpire nat u64 | FailExpireFailures nat u64
  | FailExpireStart nat u64 | FailRequests u64 | FailFailures u64 u64 | FailState bool
  | FailDeadline | FailSwap u64 | FailNext u64

text \<open>
  One step of a task at a point: \<open>now\<close> is what its clock shows, \<open>ok\<close> whether the operation it runs
  succeeds. An idle task starts an execution; a refused one is idle again.
\<close>

fun cb_move :: "nat \<Rightarrow> bool \<Rightarrow> cb_point \<Rightarrow> circuit_breaker \<Rightarrow> cb_point \<times> circuit_breaker" where
  "cb_move now ok CbIdle c = (if cb_state c = STATE_OPEN then CbOpenSeen else CbRunning, c)"
| "cb_move now ok CbOpenSeen c =
     (if cb_next_attempt_at c = 0 then CbIdle else CbTimed (cb_next_attempt_at c), c)"
| "cb_move now ok (CbTimed next) c =
     (if now \<ge> unat next then CbExpired else CbIdle, c)"
| "cb_move now ok CbExpired c =
     (CbRunning, if cb_state c = STATE_OPEN then c\<lparr>cb_state := STATE_HALF_OPEN\<rparr> else c)"
| "cb_move now ok CbRunning c = (if ok then SuccTotal else FailTotal, c)"
| "cb_move now ok SuccTotal c = (SuccCount, c\<lparr>cb_total_requests := cb_total_requests c + 1\<rparr>)"
| "cb_move now ok SuccCount c =
     (SuccWindow, c\<lparr>cb_successful_requests := cb_successful_requests c + 1\<rparr>)"
| "cb_move now ok SuccWindow c = (SuccStamp, c\<lparr>cb_window_requests := cb_window_requests c + 1\<rparr>)"
| "cb_move now ok SuccStamp c = (SuccStore now, c)"
| "cb_move now ok (SuccStore i) c = (SuccRun, c\<lparr>cb_last_success_at := instant_to_nanos i\<rparr>)"
| "cb_move now ok SuccRun c =
     (SuccClear (cb_consecutive_successes c + 1),
      c\<lparr>cb_consecutive_successes := cb_consecutive_successes c + 1\<rparr>)"
| "cb_move now ok (SuccClear n) c = (SuccState n, c\<lparr>cb_consecutive_failures := 0\<rparr>)"
| "cb_move now ok (SuccState n) c =
     (if cb_state c = STATE_HALF_OPEN \<and> n \<ge> success_threshold (cb_config c) then SuccClose else CbIdle, c)"
| "cb_move now ok SuccClose c =
     (if cb_state c = STATE_HALF_OPEN then (SuccFailures, c\<lparr>cb_state := STATE_CLOSED\<rparr>) else (CbIdle, c))"
| "cb_move now ok SuccFailures c = (SuccSuccesses, c\<lparr>cb_consecutive_failures := 0\<rparr>)"
| "cb_move now ok SuccSuccesses c = (SuccNext, c\<lparr>cb_consecutive_successes := 0\<rparr>)"
| "cb_move now ok SuccNext c = (CbIdle, c\<lparr>cb_next_attempt_at := 0\<rparr>)"
| "cb_move now ok FailTotal c = (FailCount, c\<lparr>cb_total_requests := cb_total_requests c + 1\<rparr>)"
| "cb_move now ok FailCount c = (FailWindow, c\<lparr>cb_failed_requests := cb_failed_requests c + 1\<rparr>)"
| "cb_move now ok FailWindow c =
     (FailWindowFailures, c\<lparr>cb_window_requests := cb_window_requests c + 1\<rparr>)"
| "cb_move now ok FailWindowFailures c = (FailStamp, c\<lparr>cb_window_failures := cb_window_failures c + 1\<rparr>)"
| "cb_move now ok FailStamp c = (FailStore now, c)"
| "cb_move now ok (FailStore i) c = (FailRun i, c\<lparr>cb_last_failure_at := instant_to_nanos i\<rparr>)"
| "cb_move now ok (FailRun i) c =
     (FailClear i (cb_consecutive_failures c + 1),
      c\<lparr>cb_consecutive_failures := cb_consecutive_failures c + 1\<rparr>)"
| "cb_move now ok (FailClear i n) c = (FailStart i n, c\<lparr>cb_consecutive_successes := 0\<rparr>)"
| "cb_move now ok (FailStart i n) c =
     ((case nanos_to_instant (cb_window_start c) of
         None \<Rightarrow> FailRequests n
       | Some window_start \<Rightarrow>
           if i - window_start > unat (window_size_seconds (cb_config c)) * 1000000000
           then FailExpire i n else FailRequests n), c)"
| "cb_move now ok (FailExpire i n) c = (FailExpireFailures i n, c\<lparr>cb_window_requests := 0\<rparr>)"
| "cb_move now ok (FailExpireFailures i n) c = (FailExpireStart i n, c\<lparr>cb_window_failures := 0\<rparr>)"
| "cb_move now ok (FailExpireStart i n) c = (FailRequests n, c\<lparr>cb_window_start := instant_to_nanos i\<rparr>)"
| "cb_move now ok (FailRequests n) c = (FailFailures n (cb_window_requests c), c)"
| "cb_move now ok (FailFailures n w) c =
     (FailState (n \<ge> failure_threshold (cb_config c) \<or>
        w \<ge> min_requests (cb_config c) \<and>
        f64_div (f64_of_u64 (cb_window_failures c)) (f64_of_u64 w) > 1 / 2), c)"
| "cb_move now ok (FailState opening) c =
     (if opening \<or> cb_state c \<noteq> STATE_HALF_OPEN then FailDeadline else CbIdle, c)"
| "cb_move now ok FailDeadline c =
     (FailSwap (instant_to_nanos (now + unat (timeout_ms (cb_config c)) * 1000000)), c)"
| "cb_move now ok (FailSwap next) c = (FailNext next, c\<lparr>cb_state := STATE_OPEN\<rparr>)"
| "cb_move now ok (FailNext next) c = (CbIdle, c\<lparr>cb_next_attempt_at := next\<rparr>)"

text \<open>A schedule names the task that moves, what its clock shows, and the outcome of its operation.\<close>

type_synonym cb_system = "(nat \<Rightarrow> cb_point) \<times> circuit_breaker"

definition cb_turn :: "nat \<times> nat \<times> bool \<Rightarrow> cb_system \<Rightarrow> cb_system" where
  "cb_turn x s =
     (case x of (t, now, ok) \<Rightarrow>
        (case cb_move now ok (fst s t) (snd s) of (p, c) \<Rightarrow> ((fst s)(t := p), c)))"

definition cb_run :: "(nat \<times> nat \<times> bool) list \<Rightarrow> cb_system \<Rightarrow> cb_system" where
  "cb_run = fold cb_turn"

definition cb_at_rest :: "circuit_breaker \<Rightarrow> cb_system" where
  "cb_at_rest c = ((\<lambda>_. CbIdle), c)"

definition turns :: "nat \<Rightarrow> nat \<Rightarrow> nat \<Rightarrow> bool \<Rightarrow> (nat \<times> nat \<times> bool) list" where
  "turns n t now ok = replicate n (t, now, ok)"

lemma cb_run_simps:
  "cb_run [] s = s" "cb_run (x # xs) s = cb_run xs (cb_turn x s)" "cb_run (xs @ ys) s = cb_run ys (cb_run xs s)"
  by (simp_all add: cb_run_def)

lemma turns_simps:
  "turns 0 t now ok = []" "turns (Suc n) t now ok = (t, now, ok) # turns n t now ok"
  "turns (numeral k) t now ok = (t, now, ok) # turns (pred_numeral k) t now ok"
  by (simp_all add: turns_def numeral_eq_Suc)

lemmas cb_eval = turns_simps cb_run_simps cb_turn_def state_codes instant_to_nanos_def nanos_to_instant_def

section \<open>A task alone\<close>

lemma check_alone:
  "\<exists>n. cb_run (turns n t now ok) ((\<lambda>_. CbIdle), c) =
     (case should_allow_request now c of (pass, c') \<Rightarrow> ((\<lambda>_. CbIdle)(t := if pass then CbRunning else CbIdle), c'))"
proof -
  consider "cb_state c \<noteq> STATE_OPEN" | "cb_state c = STATE_OPEN" "cb_next_attempt_at c = 0"
    | "cb_state c = STATE_OPEN" "cb_next_attempt_at c \<noteq> 0" "now < unat (cb_next_attempt_at c)"
    | "cb_state c = STATE_OPEN" "cb_next_attempt_at c \<noteq> 0" "unat (cb_next_attempt_at c) \<le> now" by fastforce
  then show ?thesis
  proof cases
    case 1
    then show ?thesis by (intro exI [of _ 1]) (simp add: cb_eval should_allow_request_def)
  next
    case 2
    then show ?thesis
      by (intro exI [of _ 2]) (auto simp: cb_eval should_allow_request_def fun_eq_iff)
  next
    case 3
    then show ?thesis
      by (intro exI [of _ 3]) (auto simp: cb_eval should_allow_request_def fun_eq_iff)
  next
    case 4
    then show ?thesis
      by (intro exI [of _ 4]) (auto simp: cb_eval should_allow_request_def fun_eq_iff)
  qed
qed

lemma success_alone:
  "\<exists>n. cb_run (turns n t now True) ((\<lambda>_. CbIdle)(t := CbRunning), c) = ((\<lambda>_. CbIdle), on_success now c)"
proof (cases "cb_state c = STATE_HALF_OPEN \<and> cb_consecutive_successes c + 1 \<ge> success_threshold (cb_config c)")
  case True
  then show ?thesis
    by (intro exI [of _ 13]) (simp add: cb_eval on_success_def fun_eq_iff)
next
  case False
  then show ?thesis
    by (intro exI [of _ 9]) (auto simp: cb_eval on_success_def fun_eq_iff)
qed

lemma failure_alone:
  "\<exists>n m. cb_run (turns n t now False @ turns m t now_open False) ((\<lambda>_. CbIdle)(t := CbRunning), c) =
     ((\<lambda>_. CbIdle), on_failure now now_open c)"
proof -
  let ?c = "record_failure now c"
  obtain n where n: "cb_run (turns n t now False) ((\<lambda>_. CbIdle)(t := CbRunning), c) =
      ((\<lambda>_. CbIdle)(t := FailState (should_open ?c)), ?c)"
  proof (cases "case nanos_to_instant (cb_window_start c) of None \<Rightarrow> False
      | Some w \<Rightarrow> now - w > unat (window_size_seconds (cb_config c)) * 1000000000")
    case True
    then show thesis
      by (intro that [of 15])
        (auto simp: cb_eval record_failure_def expire_window_def should_open_def fun_eq_iff split: if_splits)
  next
    case False
    then show thesis
      by (intro that [of 12])
        (auto simp: cb_eval record_failure_def expire_window_def should_open_def fun_eq_iff split: if_splits)
  qed
  obtain m where "cb_run (turns m t now_open False) ((\<lambda>_. CbIdle)(t := FailState (should_open ?c)), ?c) =
      ((\<lambda>_. CbIdle), on_failure now now_open c)"
  proof (cases "should_open ?c \<or> cb_state ?c \<noteq> STATE_HALF_OPEN")
    case True
    then show thesis
      by (intro that [of 4]) (auto simp: cb_eval on_failure_def transition_to_open_def Let_def fun_eq_iff)
  next
    case False
    then show thesis by (intro that [of 1]) (auto simp: cb_eval on_failure_def Let_def fun_eq_iff)
  qed
  with n show ?thesis by (intro exI [of _ n] exI [of _ m]) (simp add: cb_run_simps)
qed

text \<open>
  The steps of a task that runs alone, at the instants of its check, its callback and the opening, do to
  the breaker what \<open>execute\<close> does, and leave nothing under way.
\<close>

theorem alone_executes:
  "\<exists>n m k. cb_run (turns n t t0 ok @ turns m t t1 ok @ turns k t t2 ok) (cb_at_rest c) =
     cb_at_rest (snd (execute e (t0, t1, t2) (if ok then Inr x else Inl y) c))"
proof -
  obtain pass c' where a: "should_allow_request t0 c = (pass, c')" by (cases "should_allow_request t0 c")
  obtain n where n: "cb_run (turns n t t0 ok) (cb_at_rest c) =
      ((\<lambda>_. CbIdle)(t := if pass then CbRunning else CbIdle), c')"
    using check_alone [of t t0 ok c] by (auto simp: a cb_at_rest_def)
  show ?thesis
  proof (cases pass)
    case False
    then have "cb_run (turns n t t0 ok @ turns 0 t t1 ok @ turns 0 t t2 ok) (cb_at_rest c) =
        cb_at_rest (snd (execute e (t0, t1, t2) (if ok then Inr x else Inl y) c))"
      using n by (simp add: cb_run_simps turns_simps a execute_def cb_at_rest_def fun_eq_iff)
    then show ?thesis by blast
  next
    case True
    show ?thesis
    proof (cases ok)
      case True
      obtain m where "cb_run (turns m t t1 True) ((\<lambda>_. CbIdle)(t := CbRunning), c') = ((\<lambda>_. CbIdle), on_success t1 c')"
        using success_alone by blast
      then have "cb_run (turns n t t0 ok @ turns m t t1 ok @ turns 0 t t2 ok) (cb_at_rest c) =
          cb_at_rest (snd (execute e (t0, t1, t2) (if ok then Inr x else Inl y) c))"
        using n \<open>pass\<close> True by (simp add: cb_run_simps turns_simps a execute_def cb_at_rest_def)
      then show ?thesis by blast
    next
      case False
      obtain m k where "cb_run (turns m t t1 False @ turns k t t2 False) ((\<lambda>_. CbIdle)(t := CbRunning), c') =
          ((\<lambda>_. CbIdle), on_failure t1 t2 c')"
        using failure_alone by blast
      then have "cb_run (turns n t t0 ok @ turns m t t1 ok @ turns k t t2 ok) (cb_at_rest c) =
          cb_at_rest (snd (execute e (t0, t1, t2) (if ok then Inr x else Inl y) c))"
        using n \<open>pass\<close> False by (simp add: cb_run_simps a execute_def cb_at_rest_def)
      then show ?thesis by blast
    qed
  qed
qed

section \<open>Counting\<close>

text \<open>
  Under every schedule a request is counted once: while \<open>n\<close> tasks stand between the two counters, and
  so as soon as none does, the total is the successes and the failures.
\<close>

fun half_counted :: "cb_point \<Rightarrow> bool" where
  "half_counted SuccCount = True"
| "half_counted FailCount = True"
| "half_counted _ = False"

definition counted :: "nat set \<Rightarrow> cb_system \<Rightarrow> bool" where
  "counted T s \<longleftrightarrow>
     cb_total_requests (snd s) - cb_successful_requests (snd s) - cb_failed_requests (snd s) =
       of_nat (card {t \<in> T. half_counted (fst s t)})"

lemma card_update:
  assumes "finite T" "t \<in> T"
  shows "int (card {u \<in> T. P ((f(t := y)) u)}) =
    int (card {u \<in> T. P (f u)}) + (if P y then 1 else 0) - (if P (f t) then 1 else 0)"
proof -
  have split: "{u \<in> T. P (g u)} = {u \<in> T - {t}. P (g u)} \<union> (if P (g t) then {t} else {})" for g
    using assms(2) by auto
  have "card {u \<in> T. P (g u)} = card {u \<in> T - {t}. P (g u)} + (if P (g t) then 1 else 0)" for g
    unfolding split [of g] using assms(1) by (subst card_Un_disjoint) auto
  from this [of "f(t := y)"] this [of f] have
    "card {u \<in> T. P ((f(t := y)) u)} = card {u \<in> T - {t}. P ((f(t := y)) u)} + (if P y then 1 else 0)"
    "card {u \<in> T. P (f u)} = card {u \<in> T - {t}. P (f u)} + (if P (f t) then 1 else 0)"
    by simp_all
  moreover have "{u \<in> T - {t}. P ((f(t := y)) u)} = {u \<in> T - {t}. P (f u)}" by auto
  ultimately show ?thesis by simp
qed

lemma cb_move_counted:
  assumes "cb_move now ok p c = (p', c')"
  shows "cb_total_requests c' - cb_successful_requests c' - cb_failed_requests c' =
    cb_total_requests c - cb_successful_requests c - cb_failed_requests c +
    of_int ((if half_counted p' then 1 else 0) - (if half_counted p then 1 else 0))"
  using assms by (cases p) (auto split: if_splits option.splits)

lemma counted_turn:
  assumes "finite T" "fst x \<in> T" "counted T s"
  shows "counted T (cb_turn x s)"
proof -
  obtain t now ok where x: "x = (t, now, ok)" by (cases x)
  obtain f c where s: "s = (f, c)" by (cases s)
  obtain p' c' where m: "cb_move now ok (f t) c = (p', c')" by (cases "cb_move now ok (f t) c")
  have t: "t \<in> T" using assms(2) by (simp add: x)
  have "(of_nat (card {u \<in> T. half_counted ((f(t := p')) u)}) :: u64) =
      of_int (int (card {u \<in> T. half_counted (f u)}) +
        (if half_counted p' then 1 else 0) - (if half_counted (f t) then 1 else 0))"
    using arg_cong [OF card_update [OF assms(1) t, of half_counted f p'], of "of_int :: int \<Rightarrow> u64"]
    by (simp del: fun_upd_apply)
  moreover have "cb_total_requests c - cb_successful_requests c - cb_failed_requests c =
      of_nat (card {u \<in> T. half_counted (f u)})"
    using assms(3) by (simp add: counted_def s)
  ultimately show ?thesis
    using cb_move_counted [OF m]
    by (simp add: counted_def cb_turn_def x s m del: fun_upd_apply)
qed

text \<open>Under every schedule, whenever no execution is under way, the total is the successes and the failures.\<close>

theorem requests_counted_once:
  assumes "\<And>t. fst (cb_run xs (cb_at_rest (cb_new cfg start))) t = CbIdle"
  defines "c \<equiv> snd (cb_run xs (cb_at_rest (cb_new cfg start)))"
  shows "cb_total_requests c = cb_successful_requests c + cb_failed_requests c"
proof -
  let ?T = "fst ` set xs"
  have "counted ?T (cb_run ys s)" if "set ys \<subseteq> set xs" "counted ?T s" for ys s
    using that
  proof (induction ys arbitrary: s)
    case (Cons y ys)
    then have "fst y \<in> ?T" by auto
    from counted_turn [OF _ this Cons.prems(2)] Cons.IH Cons.prems(1)
    show ?case by (simp add: cb_run_def)
  qed (simp add: cb_run_def)
  from this [of xs "cb_at_rest (cb_new cfg start)"] show ?thesis
    using assms(1) by (simp add: counted_def cb_at_rest_def cb_new_def c_def algebra_simps)
qed

section \<open>A breaker that is stuck\<close>

definition stuck :: "cb_system \<Rightarrow> bool" where
  "stuck s \<longleftrightarrow> cb_state (snd s) = STATE_OPEN \<and> cb_next_attempt_at (snd s) = 0 \<and>
     (\<forall>t. fst s t \<in> {CbIdle, CbOpenSeen})"

lemma stuck_turn: "stuck s \<Longrightarrow> stuck (cb_turn x s) \<and> snd (cb_turn x s) = snd s"
proof -
  assume s: "stuck s"
  obtain t now ok where x: "x = (t, now, ok)" by (cases x)
  have "fst s t = CbIdle \<or> fst s t = CbOpenSeen" using s by (auto simp: stuck_def)
  then show ?thesis using s by (elim disjE) (auto simp: stuck_def cb_turn_def x)
qed

lemma stuck_run: "stuck s \<Longrightarrow> stuck (cb_run xs s) \<and> snd (cb_run xs s) = snd s"
  by (induction xs arbitrary: s) (use stuck_turn in \<open>auto simp: cb_run_def\<close>)

text \<open>
  One task fails at 1 ns and opens the breaker. After the time-out four tasks are let through at once;
  three succeed, and the third has just closed the breaker when the fourth fails: it opens the breaker
  again and stores the next attempt, and the third then clears it.
\<close>

definition stuck_schedule :: "(nat \<times> nat \<times> bool) list" where
  "stuck_schedule =
     turns 17 0 1 False @
     turns 4 1 30000000001 True @ turns 1 2 30000000001 True @ turns 1 3 30000000001 True @
     turns 1 4 30000000001 True @
     turns 9 1 30000000002 True @ turns 9 2 30000000002 True @ turns 10 3 30000000002 True @
     turns 16 4 30000000003 False @ turns 3 3 30000000004 True"

definition opened :: circuit_breaker where
  "opened = (cb_new cb_config_default 0)\<lparr>cb_state := STATE_OPEN, cb_consecutive_failures := 1,
     cb_total_requests := 1, cb_failed_requests := 1, cb_window_requests := 1, cb_window_failures := 1,
     cb_last_failure_at := 1, cb_next_attempt_at := 30000000001\<rparr>"

lemma stuck_phase1:
  "cb_run (turns 17 0 1 False) (cb_at_rest (cb_new cb_config_default 0)) = cb_at_rest opened"
  by (simp add: cb_eval cb_at_rest_def cb_new_def cb_config_default_def opened_def fun_eq_iff)

lemma stuck_phase2:
  "cb_run (turns 4 1 30000000001 True @ turns 1 2 30000000001 True @ turns 1 3 30000000001 True @
     turns 1 4 30000000001 True) (cb_at_rest opened) =
   ((\<lambda>_. CbIdle)(1 := CbRunning, 2 := CbRunning, 3 := CbRunning, 4 := CbRunning),
    opened\<lparr>cb_state := STATE_HALF_OPEN\<rparr>)"
  by (simp add: cb_eval cb_at_rest_def cb_new_def opened_def)

definition two_successes :: circuit_breaker where
  "two_successes = opened\<lparr>cb_state := STATE_HALF_OPEN, cb_consecutive_failures := 0,
     cb_consecutive_successes := 2, cb_total_requests := 3, cb_successful_requests := 2,
     cb_window_requests := 3, cb_last_success_at := 30000000002\<rparr>"

lemma stuck_phase3:
  "cb_run (turns 9 1 30000000002 True @ turns 9 2 30000000002 True)
     ((\<lambda>_. CbIdle)(1 := CbRunning, 2 := CbRunning, 3 := CbRunning, 4 := CbRunning),
      opened\<lparr>cb_state := STATE_HALF_OPEN\<rparr>) =
   ((\<lambda>_. CbIdle)(3 := CbRunning, 4 := CbRunning), two_successes)"
  by (simp add: cb_eval opened_def two_successes_def cb_new_def cb_config_default_def fun_eq_iff
      word_le_nat_alt)

definition stuck_breaker :: circuit_breaker where
  "stuck_breaker = opened\<lparr>cb_consecutive_failures := 0, cb_total_requests := 5,
     cb_successful_requests := 3, cb_failed_requests := 2, cb_window_requests := 5,
     cb_window_failures := 2, cb_last_success_at := 30000000002, cb_last_failure_at := 30000000003,
     cb_next_attempt_at := 0\<rparr>"

lemma stuck_phase4:
  "cb_run (turns 10 3 30000000002 True @ turns 16 4 30000000003 False @ turns 3 3 30000000004 True)
     ((\<lambda>_. CbIdle)(3 := CbRunning, 4 := CbRunning), two_successes) = cb_at_rest stuck_breaker"
  by (simp add: cb_eval opened_def two_successes_def stuck_breaker_def cb_new_def cb_config_default_def
      cb_at_rest_def fun_eq_iff)

lemma stuck_schedule_run:
  "cb_run stuck_schedule (cb_at_rest (cb_new cb_config_default 0)) = cb_at_rest stuck_breaker"
  using stuck_phase1 stuck_phase2 stuck_phase3 stuck_phase4
  by (simp only: stuck_schedule_def cb_run_simps)

text \<open>
  C26. The operations of one breaker are not single steps: when a success has just closed a half-open
  breaker and another task fails before the success has cleared the next attempt, the breaker ends
  open without a next attempt. Nothing is under way then, and whatever executions follow, however
  late, the breaker never changes again and lets no request through.
\<close>

theorem breaker_stuck_for_ever:
  "\<exists>xs. sorted (map (fst \<circ> snd) xs) \<and>
     (let s = cb_run xs (cb_at_rest (cb_new cb_config_default 0)) in
      (\<forall>t. fst s t = CbIdle) \<and> cb_get_state (snd s) = CbOpen \<and>
      (\<forall>ys t. snd (cb_run ys s) = snd s \<and> fst (cb_run ys s) t \<noteq> CbRunning))"
proof (intro exI [of _ stuck_schedule] conjI)
  show "sorted (map (fst \<circ> snd) stuck_schedule)"
    by (simp add: stuck_schedule_def turns_def sorted_append sorted_replicate)
  let ?s = "cb_run stuck_schedule (cb_at_rest (cb_new cb_config_default 0))"
  note s = stuck_schedule_run
  have "stuck ?s" unfolding s by (simp add: stuck_def cb_at_rest_def stuck_breaker_def opened_def)
  then have "snd (cb_run ys ?s) = snd ?s \<and> fst (cb_run ys ?s) t \<noteq> CbRunning" for ys t
    using stuck_run [of ?s ys] by (auto simp: stuck_def dest!: spec [of _ t])
  then show "let s = ?s in (\<forall>t. fst s t = CbIdle) \<and> cb_get_state (snd s) = CbOpen \<and>
      (\<forall>ys t. snd (cb_run ys s) = snd s \<and> fst (cb_run ys s) t \<noteq> CbRunning)"
    unfolding s by (simp add: cb_at_rest_def stuck_breaker_def opened_def cb_get_state_def u8_to_state_def)
qed

theorem requests_counted_once_witness:
  "cb_total_requests (snd (cb_run stuck_schedule (cb_at_rest (cb_new cb_config_default 0)))) = 5 \<and>
   cb_successful_requests (snd (cb_run stuck_schedule (cb_at_rest (cb_new cb_config_default 0)))) +
   cb_failed_requests (snd (cb_run stuck_schedule (cb_at_rest (cb_new cb_config_default 0)))) = 5"
proof -
  let ?s = "cb_run stuck_schedule (cb_at_rest (cb_new cb_config_default 0))"
  note s = stuck_schedule_run
  have total: "cb_total_requests (snd ?s) = 5" and idle: "fst ?s t = CbIdle" for t
    unfolding s by (simp_all add: cb_at_rest_def stuck_breaker_def)
  from requests_counted_once [OF idle] total show ?thesis by simp
qed

end
