(* ===== verification/App_Config.thy ===== *)
theory App_Config
  imports Config_Alg Snowflake_Gen
begin

text \<open>
  The configuration of the application, \<open>src/src/core/config\<close>: the structs of \<open>app.rs\<close>,
  \<open>auth.rs\<close>, \<open>redis.rs\<close>, \<open>tls.rs\<close>, \<open>logging.rs\<close>, \<open>monitoring.rs\<close>, \<open>rate_limit.rs\<close>,
  \<open>batch.rs\<close> and \<open>environment.rs\<close> with their defaults, and validation, environment expansion,
  environment overrides and merging of \<open>app_config.rs\<close>; \<open>startup_config\<close> is how \<open>main.rs\<close> puts
  them together. \<open>env name\<close> is the environment variable. Reading and parsing the TOML file belongs to
  the \<open>confers\<close> and \<open>serde\<close> crates: the parsed file is an input. Arithmetic is that of a release
  build, which wraps around.
\<close>

type_synonym env_vars = "string \<Rightarrow> string option"

datatype config_error = MissingRequired string | InvalidValue string | FileError string

type_synonym 'a config_result = "config_error + 'a"

section \<open>The structs and their defaults\<close>

datatype database_engine = Postgresql | Postgres | Mysql | Sqlite

fun engine_name :: "database_engine \<Rightarrow> string" where
  "engine_name Mysql = ''mysql''"
| "engine_name Sqlite = ''sqlite''"
| "engine_name _ = ''postgresql''"

definition engine_from :: "string \<Rightarrow> database_engine" where
  "engine_from s =
     (let l = to_lowercase s in
      if l = ''mysql'' then Mysql else if l = ''sqlite'' then Sqlite else Postgresql)"

record app_config =
  app_name :: string
  app_host :: string
  http_port :: u16
  grpc_port :: u16
  dc_id :: u8
  worker_id :: u8

definition app_config_default :: app_config where
  "app_config_default =
     \<lparr>app_name = ''nebula-id'', app_host = ''0.0.0.0'', http_port = 8080, grpc_port = 9091,
      dc_id = 0, worker_id = 0\<rparr>"

record database_config =
  db_engine :: database_engine
  db_host :: string
  db_port :: u16
  db_username :: string
  db_password :: string
  db_database :: string
  db_url :: string
  max_connections :: u32
  min_connections :: u32
  acquire_timeout_seconds :: u64
  idle_timeout_seconds :: u64

text \<open>\<open>None\<close> is the panic of a production start without the password variable.\<close>

definition database_config_default :: "env_vars \<Rightarrow> database_config option" where
  "database_config_default env =
     (case env ''DATABASE_URL'' of
        Some url \<Rightarrow> Some
          \<lparr>db_engine = Postgresql, db_host = ''localhost'', db_port = 5432, db_username = ''idgen'',
           db_password = [], db_database = ''idgen'', db_url = url, max_connections = 100,
           min_connections = 10, acquire_timeout_seconds = 30, idle_timeout_seconds = 300\<rparr>
      | None \<Rightarrow>
          if env ''NEBULA_TEST_MODE'' \<noteq> None then Some
            \<lparr>db_engine = Sqlite, db_host = [], db_port = 0, db_username = [], db_password = [],
             db_database = [], db_url = ''sqlite::memory:'', max_connections = 10,
             min_connections = 1, acquire_timeout_seconds = 30, idle_timeout_seconds = 300\<rparr>
          else map_option (\<lambda>password.
            \<lparr>db_engine = Postgresql, db_host = ''localhost'', db_port = 5432, db_username = ''idgen'',
             db_password = password, db_database = ''idgen'',
             db_url = ''postgresql://idgen:'' @ password @ ''@localhost:5432/idgen'',
             max_connections = 100, min_connections = 10, acquire_timeout_seconds = 30,
             idle_timeout_seconds = 300\<rparr>) (env ''NEBULA_DATABASE_PASSWORD''))"

record etcd_config =
  etcd_endpoints :: "string list"
  connect_timeout_ms :: u64
  watch_timeout_ms :: u64

definition etcd_config_default :: etcd_config where
  "etcd_config_default =
     \<lparr>etcd_endpoints = [''etcd:2379''], connect_timeout_ms = 5000, watch_timeout_ms = 5000\<rparr>"

record api_key_entry =
  ake_key_id :: string
  ake_key_secret :: string
  ake_workspace :: string
  ake_role :: string
  ake_rate_limit :: u32
  ake_name :: string

record auth_config =
  auth_enabled :: bool
  cache_ttl_seconds :: u64
  api_keys :: "api_key_entry list"
  api_key_salt :: string
  key_rotation_grace_period_seconds :: u64

definition default_api_key_salt :: "env_vars \<Rightarrow> string" where
  "default_api_key_salt env = (case env ''NEBULA_API_KEY_SALT'' of Some s \<Rightarrow> s | None \<Rightarrow> [])"

definition DEFAULT_KEY_ROTATION_GRACE_PERIOD_SECONDS :: u64 where
  "DEFAULT_KEY_ROTATION_GRACE_PERIOD_SECONDS = 7 * 24 * 60 * 60"

definition auth_config_default :: "env_vars \<Rightarrow> auth_config" where
  "auth_config_default env =
     \<lparr>auth_enabled = True, cache_ttl_seconds = 300, api_keys = [],
      api_key_salt = default_api_key_salt env,
      key_rotation_grace_period_seconds = DEFAULT_KEY_ROTATION_GRACE_PERIOD_SECONDS\<rparr>"

record redis_config =
  redis_url :: string
  redis_pool_size :: u32
  redis_key_prefix :: string
  redis_ttl_seconds :: u64

definition redis_config_default :: "env_vars \<Rightarrow> redis_config" where
  "redis_config_default env =
     \<lparr>redis_url = (case env ''REDIS_URL'' of Some u \<Rightarrow> u | None \<Rightarrow> ''redis://localhost:6379''),
      redis_pool_size = 16, redis_key_prefix = ''nebula:id:'', redis_ttl_seconds = 600\<rparr>"

datatype tls_version = Tls12 | Tls13

fun tls_version_name :: "tls_version \<Rightarrow> string" where
  "tls_version_name Tls12 = ''TLSv1.2''"
| "tls_version_name Tls13 = ''TLSv1.3''"

record tls_config =
  tls_enabled :: bool
  tls_cert_path :: string
  tls_key_path :: string
  tls_ca_path :: "string option"
  tls_http_enabled :: bool
  tls_grpc_enabled :: bool
  min_tls_version :: tls_version
  alpn_protocols :: "string list"

definition tls_config_default :: tls_config where
  "tls_config_default =
     \<lparr>tls_enabled = False, tls_cert_path = [], tls_key_path = [], tls_ca_path = None,
      tls_http_enabled = False, tls_grpc_enabled = False, min_tls_version = Tls13,
      alpn_protocols = [''h2'', ''http/1.1'']\<rparr>"

datatype log_level = LTrace | LDebug | LInfo | LWarn | LError

fun log_level_name :: "log_level \<Rightarrow> string" where
  "log_level_name LTrace = ''trace''"
| "log_level_name LDebug = ''debug''"
| "log_level_name LInfo = ''info''"
| "log_level_name LWarn = ''warn''"
| "log_level_name LError = ''error''"

definition log_level_from :: "string \<Rightarrow> log_level" where
  "log_level_from s =
     (let l = to_lowercase s in
      if l = ''trace'' then LTrace else if l = ''debug'' then LDebug
      else if l = ''info'' then LInfo else if l = ''warn'' then LWarn
      else if l = ''error'' then LError else LInfo)"

datatype log_format = FJson | FPretty

fun log_format_name :: "log_format \<Rightarrow> string" where
  "log_format_name FJson = ''json''"
| "log_format_name FPretty = ''pretty''"

definition log_format_from :: "string \<Rightarrow> log_format" where
  "log_format_from s =
     (let l = to_lowercase s in
      if l = ''json'' then FJson else if l = ''pretty'' then FPretty else FJson)"

record logging_config =
  log_level :: log_level
  log_format :: log_format
  include_location :: bool

definition logging_config_default :: logging_config where
  "logging_config_default = \<lparr>log_level = LInfo, log_format = FJson, include_location = True\<rparr>"

record monitoring_config =
  metrics_enabled :: bool
  metrics_path :: string
  tracing_enabled :: bool
  otlp_endpoint :: string

definition monitoring_config_default :: monitoring_config where
  "monitoring_config_default =
     \<lparr>metrics_enabled = True, metrics_path = ''/metrics'', tracing_enabled = False,
      otlp_endpoint = []\<rparr>"

record rate_limit_config =
  rl_enabled :: bool
  default_rps :: u32
  burst_size :: u32

definition rate_limit_config_default :: rate_limit_config where
  "rate_limit_config_default = \<lparr>rl_enabled = True, default_rps = 10000, burst_size = 100\<rparr>"

record batch_generate_config =
  max_batch_size :: u32

definition batch_generate_config_default :: batch_generate_config where
  "batch_generate_config_default = \<lparr>max_batch_size = 100\<rparr>"

record config =
  cfg_app :: app_config
  cfg_database :: database_config
  cfg_redis :: redis_config
  cfg_etcd :: etcd_config
  cfg_auth :: auth_config
  cfg_algorithm :: algorithm_config
  cfg_monitoring :: monitoring_config
  cfg_logging :: logging_config
  cfg_rate_limit :: rate_limit_config
  cfg_tls :: tls_config
  cfg_batch_generate :: batch_generate_config

definition config_default :: "env_vars \<Rightarrow> config option" where
  "config_default env =
     map_option (\<lambda>db.
       \<lparr>cfg_app = app_config_default, cfg_database = db, cfg_redis = redis_config_default env,
        cfg_etcd = etcd_config_default, cfg_auth = auth_config_default env,
        cfg_algorithm = algorithm_config_default, cfg_monitoring = monitoring_config_default,
        cfg_logging = logging_config_default, cfg_rate_limit = rate_limit_config_default,
        cfg_tls = tls_config_default, cfg_batch_generate = batch_generate_config_default\<rparr>)
     (database_config_default env)"

section \<open>The runtime environment\<close>

datatype environment = Development | Production

fun environment_name :: "environment \<Rightarrow> string" where
  "environment_name Development = ''development''"
| "environment_name Production = ''production''"

definition environment_parse :: "string \<Rightarrow> environment config_result" where
  "environment_parse s =
     (let l = to_lowercase s in
      if l = ''development'' \<or> l = ''dev'' then Inr Development
      else if l = ''production'' \<or> l = ''prod'' then Inr Production
      else Inl (InvalidValue (''Invalid environment '' @ [CHR 0x27] @ s @ [CHR 0x27] @
        ''. Expected '' @ [CHR 0x27] @ ''development'' @ [CHR 0x27] @ '' or '' @ [CHR 0x27] @
        ''production'' @ [CHR 0x27])))"

definition environment_from :: "string \<Rightarrow> environment" where
  "environment_from s =
     (let l = to_lowercase s in
      if l = ''production'' \<or> l = ''prod'' then Production else Development)"

definition environment_from_env :: "env_vars \<Rightarrow> environment" where
  "environment_from_env env =
     (case env ''NEBULA_ENV'' of Some s \<Rightarrow> environment_from s | None \<Rightarrow> Development)"

definition is_production :: "env_vars \<Rightarrow> bool" where
  "is_production env \<longleftrightarrow> environment_from_env env = Production"

section \<open>Validation\<close>

definition validate :: "config \<Rightarrow> unit config_result" where
  "validate c =
     (let app = cfg_app c; db = cfg_database c; rl = cfg_rate_limit c; alg = cfg_algorithm c;
          sg = segment_cfg alg; sf = snowflake_cfg alg;
          total_bits = datacenter_id_bits sf + worker_id_bits sf + sequence_bits sf;
          mx = max_batch_size (cfg_batch_generate c)
      in
      if http_port app = 0 then Inl (InvalidValue ''HTTP port must be between 1 and 65535'')
      else if grpc_port app = 0 then Inl (InvalidValue ''gRPC port must be between 1 and 65535'')
      else if dc_id app > 31 then Inl (InvalidValue ''Datacenter ID must be between 0 and 31'')
      else if max_connections db = 0
        then Inl (InvalidValue ''Database max_connections must be greater than 0'')
      else if min_connections db > max_connections db
        then Inl (InvalidValue ''Database min_connections cannot be greater than max_connections'')
      else if acquire_timeout_seconds db = 0
        then Inl (InvalidValue ''Database acquire_timeout_seconds must be greater than 0'')
      else if rl_enabled rl \<and> default_rps rl = 0
        then Inl (InvalidValue ''Rate limit default_rps must be greater than 0 when enabled'')
      else if rl_enabled rl \<and> burst_size rl = 0
        then Inl (InvalidValue ''Rate limit burst_size must be greater than 0 when enabled'')
      else if rl_enabled rl \<and> burst_size rl > default_rps rl * 10
        then Inl (InvalidValue ''Rate limit burst_size should not exceed 10x default_rps'')
      else if default_algorithm alg \<notin> set [''segment'', ''snowflake'', ''uuid_v7'', ''uuid_v4'']
        then Inl (InvalidValue
          ''Default algorithm must be one of: segment, snowflake, uuid_v7, uuid_v4'')
      else if min_step sg > max_step sg
        then Inl (InvalidValue ''Segment min_step cannot be greater than max_step'')
      else if base_step sg < min_step sg \<or> base_step sg > max_step sg
        then Inl (InvalidValue ''Segment base_step must be between min_step and max_step'')
      else if switch_threshold sg < 0 \<or> switch_threshold sg > 1
        then Inl (InvalidValue ''Segment switch_threshold must be between 0.0 and 1.0'')
      else if total_bits \<ge> 64
        then Inl (InvalidValue ''Snowflake total bits (datacenter_id_bits + worker_id_bits + sequence_bits) must be less than 64'')
      else if clock_drift_threshold_ms sf = 0
        then Inl (InvalidValue ''Snowflake clock_drift_threshold_ms must be greater than 0'')
      else if mx = 0 then Inl (InvalidValue ''Batch generate max_batch_size must be greater than 0'')
      else if mx > 10000
        then Inl (InvalidValue ''Batch generate max_batch_size should not exceed 10000'')
      else Inr ())"

section \<open>Environment expansion\<close>

text \<open>
  \<open>replace_all\<close> of the pattern \<open>${NAME}\<close>, where the name is one or more characters other than the
  closing brace: leftmost matches, none inside a replacement; an unset variable leaves its match.
\<close>

function expand_env_vars :: "env_vars \<Rightarrow> string \<Rightarrow> string" where
  "expand_env_vars env s =
     (case s of
        [] \<Rightarrow> []
      | c # rest \<Rightarrow>
          (let name = takeWhile (\<lambda>d. d \<noteq> CHR ''}'') (tl rest);
               after = dropWhile (\<lambda>d. d \<noteq> CHR ''}'') (tl rest)
           in if c = CHR ''$'' \<and> rest \<noteq> [] \<and> hd rest = CHR ''{'' \<and> name \<noteq> [] \<and> after \<noteq> []
              then (case env name of Some v \<Rightarrow> v | None \<Rightarrow> ''${'' @ name @ ''}'') @
                expand_env_vars env (tl after)
              else c # expand_env_vars env rest))"
  by auto
termination
proof (relation "measure (length \<circ> snd)", goal_cases)
  case (2 env s c rest name after)
  have "length (tl (dropWhile P xs)) \<le> length xs" for P and xs :: string
    using length_dropWhile_le [of P xs] by simp
  from this [of "\<lambda>d. d \<noteq> CHR ''}''" "tl rest"] 2 show ?case
    by (simp add: le_imp_less_Suc le_trans)
qed simp_all

declare expand_env_vars.simps [simp del]

section \<open>Overrides and merging\<close>

fun split_on :: "char \<Rightarrow> string \<Rightarrow> string list" where
  "split_on sep [] = [[]]"
| "split_on sep (c # s) =
     (case split_on sep s of
        [] \<Rightarrow> [[c]]
      | p # ps \<Rightarrow> if c = sep then [] # p # ps else (c # p) # ps)"

definition env_number ::
  "env_vars \<Rightarrow> string \<Rightarrow> 'a::len word \<Rightarrow> 'a word config_result" where
  "env_number env name old =
     (case env name of
        None \<Rightarrow> Inr old
      | Some s \<Rightarrow>
          (case parse_unsigned (2 ^ LENGTH('a)) s of
             Some v \<Rightarrow> Inr (of_nat v)
           | None \<Rightarrow> Inl (InvalidValue name)))"

definition load_from_env :: "env_vars \<Rightarrow> config config_result option" where
  "load_from_env env =
     (case config_default env of
        None \<Rightarrow> None
      | Some c \<Rightarrow> Some
          (let app = cfg_app c;
               host = (case env ''APP_HOST'' of Some h \<Rightarrow> h | None \<Rightarrow> app_host app) in
           case env_number env ''APP_HTTP_PORT'' (http_port app) of
             Inl e \<Rightarrow> Inl e
           | Inr hp \<Rightarrow>
          (case env_number env ''APP_GRPC_PORT'' (grpc_port app) of
             Inl e \<Rightarrow> Inl e
           | Inr gp \<Rightarrow>
          (case env_number env ''DC_ID'' (dc_id app) of
             Inl e \<Rightarrow> Inl e
           | Inr dc \<Rightarrow>
          (case env_number env ''WORKER_ID'' (worker_id app) of
             Inl e \<Rightarrow> Inl e
           | Inr wk \<Rightarrow> Inr (c
               \<lparr>cfg_app := app\<lparr>app_host := host, http_port := hp, grpc_port := gp, dc_id := dc,
                  worker_id := wk\<rparr>,
                cfg_database := (case env ''DATABASE_URL'' of
                    Some url \<Rightarrow> (cfg_database c)\<lparr>db_url := url\<rparr> | None \<Rightarrow> cfg_database c),
                cfg_etcd := (case env ''ETCD_ENDPOINTS'' of
                    Some es \<Rightarrow> (cfg_etcd c)\<lparr>etcd_endpoints := split_on CHR '','' es\<rparr>
                  | None \<Rightarrow> cfg_etcd c),
                cfg_logging := (case env ''RUST_LOG'' of
                    Some l \<Rightarrow> (cfg_logging c)\<lparr>log_level := log_level_from l\<rparr>
                  | None \<Rightarrow> cfg_logging c)\<rparr>))))))"

definition merge_app :: "app_config \<Rightarrow> app_config \<Rightarrow> app_config" where
  "merge_app self other = self
     \<lparr>app_host := (if app_host other \<noteq> ''0.0.0.0'' then app_host other else app_host self),
      http_port := (if http_port other \<noteq> 8080 then http_port other else http_port self),
      grpc_port := (if grpc_port other \<noteq> 9091 then grpc_port other else grpc_port self),
      dc_id := (if dc_id other \<noteq> 0 then dc_id other else dc_id self),
      worker_id := (if worker_id other \<noteq> 0 then worker_id other else worker_id self)\<rparr>"

definition merge :: "config \<Rightarrow> config \<Rightarrow> config" where
  "merge self other = self
     \<lparr>cfg_app := merge_app (cfg_app self) (cfg_app other),
      cfg_database := (cfg_database self)
        \<lparr>db_url := (if db_url (cfg_database other) \<noteq> [] \<and>
             db_url (cfg_database other) \<noteq> db_url (cfg_database self)
           then db_url (cfg_database other) else db_url (cfg_database self)),
         max_connections := (if max_connections (cfg_database other) \<noteq> 100
           then max_connections (cfg_database other) else max_connections (cfg_database self))\<rparr>,
      cfg_etcd := (cfg_etcd self)\<lparr>etcd_endpoints :=
        (if etcd_endpoints (cfg_etcd other) \<noteq> [] then etcd_endpoints (cfg_etcd other)
         else etcd_endpoints (cfg_etcd self))\<rparr>,
      cfg_auth := (cfg_auth self)\<lparr>api_keys :=
        (if api_keys (cfg_auth other) \<noteq> [] then api_keys (cfg_auth other)
         else api_keys (cfg_auth self))\<rparr>,
      cfg_algorithm := (cfg_algorithm self)
        \<lparr>default_algorithm := (if default_algorithm (cfg_algorithm other) \<noteq> ''segment''
           then default_algorithm (cfg_algorithm other)
           else default_algorithm (cfg_algorithm self)),
         segment_cfg := segment_cfg (cfg_algorithm other),
         snowflake_cfg := snowflake_cfg (cfg_algorithm other),
         uuid_v7_cfg := uuid_v7_cfg (cfg_algorithm other)\<rparr>,
      cfg_monitoring := (cfg_monitoring self)
        \<lparr>metrics_path := (if metrics_path (cfg_monitoring other) \<noteq> ''/metrics''
           then metrics_path (cfg_monitoring other) else metrics_path (cfg_monitoring self)),
         tracing_enabled := (tracing_enabled (cfg_monitoring other) \<or>
           tracing_enabled (cfg_monitoring self)),
         otlp_endpoint := (if otlp_endpoint (cfg_monitoring other) \<noteq> []
           then otlp_endpoint (cfg_monitoring other) else otlp_endpoint (cfg_monitoring self))\<rparr>,
      cfg_logging := (cfg_logging self)
        \<lparr>log_level := (if log_level (cfg_logging other) \<noteq> LInfo
           then log_level (cfg_logging other) else log_level (cfg_logging self))\<rparr>\<rparr>"

text \<open>
  \<open>load_from_file\<close> after the text: expansion, the crates' parser \<open>parse_toml\<close>, validation. The
  start of \<open>main\<close>: the file's configuration, or the default one if it cannot be loaded, merged with
  the environment's, or the default one if a variable is malformed; \<open>None\<close> is a panic.
\<close>

definition load_text ::
  "(string \<Rightarrow> config config_result) \<Rightarrow> env_vars \<Rightarrow> string \<Rightarrow> config config_result" where
  "load_text parse_toml env content =
     (case parse_toml (expand_env_vars env content) of
        Inl e \<Rightarrow> Inl e
      | Inr c \<Rightarrow> (case validate c of Inl e \<Rightarrow> Inl e | Inr _ \<Rightarrow> Inr c))"

definition startup_config :: "env_vars \<Rightarrow> config config_result \<Rightarrow> config option" where
  "startup_config env loaded =
     (case (case loaded of Inr c \<Rightarrow> Some c | Inl _ \<Rightarrow> config_default env) of
        None \<Rightarrow> None
      | Some base \<Rightarrow>
          (case load_from_env env of
             None \<Rightarrow> None
           | Some (Inr other) \<Rightarrow> Some (merge base other)
           | Some (Inl _) \<Rightarrow> map_option (merge base) (config_default env)))"

section \<open>What an accepted configuration guarantees\<close>

text \<open>
  A configuration that passes validation can be served: its ports are usable, the router's default
  algorithm is the one it names, its steps are ordered, its threshold is a fraction, its pool is not
  empty and its batch limit is between 1 and 10000.
\<close>

theorem accepted_config:
  assumes "validate c = Inr ()"
  shows "http_port (cfg_app c) \<noteq> 0 \<and> grpc_port (cfg_app c) \<noteq> 0 \<and> dc_id (cfg_app c) \<le> 31 \<and>
    algorithm_name (get_default_algorithm (cfg_algorithm c)) = default_algorithm (cfg_algorithm c) \<and>
    (let sg = segment_cfg (cfg_algorithm c) in
      min_step sg \<le> base_step sg \<and> base_step sg \<le> max_step sg \<and>
      0 \<le> switch_threshold sg \<and> switch_threshold sg \<le> 1) \<and>
    0 < max_connections (cfg_database c) \<and>
    min_connections (cfg_database c) \<le> max_connections (cfg_database c) \<and>
    max_batch_size (cfg_batch_generate c) \<in> {1..10000}"
proof -
  have name: "algorithm_name (get_default_algorithm a) = default_algorithm a"
    if "default_algorithm a = algorithm_name x" for a x
    using that by (simp add: get_default_algorithm_def parse_algorithm_name)
  have "default_algorithm (cfg_algorithm c) \<in> algorithm_name ` {Segment, Snowflake, UuidV7, UuidV4}"
    using assms by (simp add: validate_def Let_def split: if_splits)
  then obtain x where "default_algorithm (cfg_algorithm c) = algorithm_name x" by blast
  from name [OF this] show ?thesis
    using assms
    by (simp add: validate_def Let_def not_less not_le word_gt_0 split: if_splits)
      (simp add: word_le_nat_alt word_less_nat_alt Suc_le_eq unat_gt_0)
qed

text \<open>A configuration for the concrete instances: the default one of the test mode.\<close>

definition test_env :: env_vars where
  "test_env = [''NEBULA_TEST_MODE'' \<mapsto> ''1'']"

definition test_config :: config where
  "test_config = the (config_default test_env)"

lemma config_default_test: "config_default test_env = Some test_config"
  by (simp add: test_config_def config_default_def database_config_default_def test_env_def)

lemma threshold_default: "0 < f64_round (1 / 10)" "f64_round (1 / 10) \<le> 1"
  by code_simp+

lemma validate_test_config:
  "dc \<le> 31 \<Longrightarrow> datacenter_id_bits sf + worker_id_bits sf + sequence_bits sf < 64 \<Longrightarrow>
   clock_drift_threshold_ms sf \<noteq> 0 \<Longrightarrow>
   validate (test_config\<lparr>cfg_app := app_config_default\<lparr>dc_id := dc\<rparr>,
     cfg_algorithm := algorithm_config_default\<lparr>snowflake_cfg := sf\<rparr>\<rparr>) = Inr ()"
  using threshold_default
  by (simp add: validate_def Let_def test_config_def config_default_def database_config_default_def
      test_env_def app_config_default_def algorithm_config_default_def segment_config_default_def
      rate_limit_config_default_def batch_generate_config_default_def not_less not_le)

theorem accepted_config_witness:
  "max_batch_size (cfg_batch_generate (test_config\<lparr>cfg_app := app_config_default\<lparr>dc_id := 8\<rparr>,
     cfg_algorithm := algorithm_config_default\<lparr>snowflake_cfg := snowflake_config_default\<rparr>\<rparr>)) \<le> 10000"
  using accepted_config [OF validate_test_config [of 8 snowflake_config_default]]
  by (auto simp: snowflake_config_default_def)

text \<open>
  Validation accepts data centre numbers up to 31, but the default width is 3 bits: number 8 spills into
  the timestamp, so at an even millisecond its identifiers are those of data centre 0, with the same
  worker and sequence number, one millisecond later.
\<close>

theorem accepted_dc_collides:
  assumes "even ts"
  shows "construct_id (snowflake_initialize snowflake_config_default 8 w s) ts q =
      construct_id (snowflake_initialize snowflake_config_default 0 w s') (ts + 1) q \<and>
    (\<exists>c. validate c = Inr () \<and> dc_id (cfg_app c) = 8 \<and>
      snowflake_cfg (cfg_algorithm c) = snowflake_config_default)"
proof -
  have id: "construct_id (snowflake_initialize snowflake_config_default d w r) t q =
      Id (ucast (push_bit 21 t OR push_bit 18 (ucast d) OR push_bit 10 (ucast w) OR q))" for d r t
    by (simp add: construct_id_def snowflake_initialize_def snowflake_config_default_def shl_def
        Let_def)
  have "push_bit 21 (ts + 1) = push_bit 21 (ts OR 1)"
    using assms by (simp add: or_one_eq)
  also have "\<dots> = push_bit 21 ts OR push_bit 18 (ucast (8 :: u8))"
    by (simp add: push_bit_or)
  finally have spill: "push_bit 21 (ts + 1) = push_bit 21 ts OR push_bit 18 (ucast (8 :: u8))" .
  have zero: "push_bit 18 (ucast (0 :: u8)) = (0 :: u64)" by simp
  have "construct_id (snowflake_initialize snowflake_config_default 8 w s) ts q =
      construct_id (snowflake_initialize snowflake_config_default 0 w s') (ts + 1) q"
    unfolding id spill zero by (simp only: or.assoc or.left_neutral)
  moreover have "validate (test_config\<lparr>cfg_app := app_config_default\<lparr>dc_id := 8\<rparr>,
     cfg_algorithm := algorithm_config_default\<lparr>snowflake_cfg := snowflake_config_default\<rparr>\<rparr>) = Inr ()"
    by (rule validate_test_config) (simp_all add: snowflake_config_default_def)
  ultimately show ?thesis
    by (intro conjI exI [of _ "test_config\<lparr>cfg_app := app_config_default\<lparr>dc_id := 8\<rparr>,
     cfg_algorithm := algorithm_config_default\<lparr>snowflake_cfg := snowflake_config_default\<rparr>\<rparr>"]) simp_all
qed

theorem accepted_dc_collides_witness:
  "construct_id (snowflake_initialize snowflake_config_default 8 7 (snowflake_new 8 7)) 1000 5 =
     construct_id (snowflake_initialize snowflake_config_default 0 7 (snowflake_new 0 7)) 1001 5"
  using accepted_dc_collides [of 1000 7 "snowflake_new 8 7" 5 "snowflake_new 0 7"] by simp

text \<open>
  Validation adds the widths in 8 bits: widths of 86 each pass, and then two sequence numbers of one
  millisecond give the same identifier.
\<close>

theorem accepted_widths_duplicate:
  "\<exists>c s. validate c = Inr () \<and>
     s = snowflake_initialize (snowflake_cfg (cfg_algorithm c)) (dc_id (cfg_app c))
           (worker_id (cfg_app c)) (snowflake_new 0 0) \<and>
     4 AND sequence_mask (sf_config s) = 4 \<and> construct_id s 1 0 = construct_id s 1 4"
proof -
  define sf where "sf = snowflake_config_default
    \<lparr>datacenter_id_bits := 86, worker_id_bits := 86, sequence_bits := 86\<rparr>"
  define c where "c = test_config\<lparr>cfg_app := app_config_default\<lparr>dc_id := 0\<rparr>,
     cfg_algorithm := algorithm_config_default\<lparr>snowflake_cfg := sf\<rparr>\<rparr>"
  have "validate c = Inr ()"
    unfolding c_def by (rule validate_test_config) (simp_all add: sf_def snowflake_config_default_def)
  moreover have "4 AND sequence_mask sf = 4" unfolding sf_def by code_simp
  moreover have "construct_id (snowflake_initialize sf 0 0 (snowflake_new 0 0)) 1 0 =
      construct_id (snowflake_initialize sf 0 0 (snowflake_new 0 0)) 1 4"
    unfolding sf_def by code_simp
  moreover have "snowflake_cfg (cfg_algorithm c) = sf" "dc_id (cfg_app c) = 0" "worker_id (cfg_app c) = 0"
    by (simp_all add: c_def app_config_default_def)
  ultimately show ?thesis
    by (intro exI [of _ c] exI [of _ "snowflake_initialize sf 0 0 (snowflake_new 0 0)"])
      (simp add: snowflake_initialize_def)
qed

section \<open>Starting up\<close>

text \<open>
  The configuration file cannot set the parameters of the algorithms: whatever it holds, the server runs
  with the default segment, Snowflake and UUID settings, and with the default etcd endpoint unless the
  environment names others.
\<close>

theorem startup_discards_file_settings:
  assumes "startup_config env loaded = Some c"
  shows "segment_cfg (cfg_algorithm c) = segment_config_default \<and>
    snowflake_cfg (cfg_algorithm c) = snowflake_config_default \<and>
    uuid_v7_cfg (cfg_algorithm c) = uuid_v7_config_default \<and>
    (env ''ETCD_ENDPOINTS'' = None \<longrightarrow> etcd_endpoints (cfg_etcd c) = [''etcd:2379''])"
proof -
  have dflt: "cfg_algorithm d = algorithm_config_default \<and> cfg_etcd d = etcd_config_default"
    if "config_default env = Some d" for d
    using that by (auto simp: config_default_def)
  have other: "cfg_algorithm d = algorithm_config_default \<and>
      (env ''ETCD_ENDPOINTS'' = None \<longrightarrow> cfg_etcd d = etcd_config_default)"
    if "load_from_env env = Some (Inr d)" for d
    using that dflt
    by (auto simp: load_from_env_def Let_def split: option.splits sum.splits)
  obtain base d where "c = merge base d" and "cfg_algorithm d = algorithm_config_default"
    and "env ''ETCD_ENDPOINTS'' = None \<longrightarrow> cfg_etcd d = etcd_config_default"
    using assms dflt other unfolding startup_config_def
    by (auto split: option.splits sum.splits)
  then show ?thesis
    by (simp add: merge_def algorithm_config_default_def etcd_config_default_def)
qed

definition file_config :: config where
  "file_config = test_config\<lparr>cfg_algorithm := algorithm_config_default\<lparr>snowflake_cfg :=
     snowflake_config_default\<lparr>datacenter_id_bits := 5\<rparr>\<rparr>\<rparr>"

theorem startup_discards_file_settings_witness:
  "\<exists>c. startup_config test_env (Inr file_config) = Some c \<and>
     datacenter_id_bits (snowflake_cfg (cfg_algorithm c)) = 3"
proof -
  have unset: "test_env name = None" if "name \<noteq> ''NEBULA_TEST_MODE''" for name
    using that by (simp add: test_env_def)
  obtain c where c: "startup_config test_env (Inr file_config) = Some c"
    by (simp add: startup_config_def load_from_env_def config_default_test env_number_def unset
        Let_def)
  from startup_discards_file_settings [OF c] c show ?thesis
    by (simp add: snowflake_config_default_def)
qed

text \<open>
  The merged configuration is not validated again: the environment can set a data centre number that
  validation of the file refuses.
\<close>

theorem startup_not_validated:
  "\<exists>env c. startup_config env (Inr test_config) = Some c \<and> dc_id (cfg_app c) = 200 \<and>
     validate c = Inl (InvalidValue ''Datacenter ID must be between 0 and 31'')"
proof -
  define env where "env = test_env(''DC_ID'' \<mapsto> ''200'')"
  have n: "parse_unsigned 256 ''200'' = Some 200" by code_simp
  have "config_default env = Some test_config"
    by (simp add: test_config_def config_default_def database_config_default_def test_env_def env_def
        redis_config_default_def auth_config_default_def default_api_key_salt_def)
  then obtain c where "startup_config env (Inr test_config) = Some c" "dc_id (cfg_app c) = 200"
    "http_port (cfg_app c) = 8080" "grpc_port (cfg_app c) = 9091"
    by (simp add: startup_config_def load_from_env_def env_number_def test_env_def Let_def env_def n
        merge_def merge_app_def test_config_def config_default_def database_config_default_def
        app_config_default_def)
  then show ?thesis
    by (intro exI [of _ env] exI [of _ c]) (simp add: validate_def Let_def)
qed

section \<open>Expansion\<close>

lemma expand_Nil [simp]: "expand_env_vars env [] = []"
  by (simp add: expand_env_vars.simps)

lemma expand_plain: "c \<noteq> CHR ''$'' \<Longrightarrow> expand_env_vars env (c # s) = c # expand_env_vars env s"
  by (subst expand_env_vars.simps) (simp add: Let_def)

lemma expand_prefix:
  "CHR ''$'' \<notin> set pre \<Longrightarrow> expand_env_vars env (pre @ s) = pre @ expand_env_vars env s"
  by (induction pre) (auto simp: expand_plain)

lemma expand_var:
  assumes "name \<noteq> []" "CHR ''}'' \<notin> set name"
  shows "expand_env_vars env (''${'' @ name @ ''}'' @ s) =
    (case env name of Some v \<Rightarrow> v | None \<Rightarrow> ''${'' @ name @ ''}'') @ expand_env_vars env s"
proof -
  have "takeWhile (\<lambda>d. d \<noteq> CHR ''}'') (name @ CHR ''}'' # s) = name"
    "dropWhile (\<lambda>d. d \<noteq> CHR ''}'') (name @ CHR ''}'' # s) = CHR ''}'' # s"
    using assms(2) by (subst takeWhile_append2 dropWhile_append2; auto)+
  with assms(1) show ?thesis
    by (subst expand_env_vars.simps) (simp add: Let_def split: option.split)
qed

lemma expand_unset: "expand_env_vars (\<lambda>_. None) s = s"
proof (induction s rule: length_induct)
  case (1 s)
  show ?case
  proof (cases s)
    case (Cons c rest)
    let ?name = "takeWhile (\<lambda>d. d \<noteq> CHR ''}'') (tl rest)"
      and ?after = "dropWhile (\<lambda>d. d \<noteq> CHR ''}'') (tl rest)"
    have len: "length (tl ?after) < length s"
      using length_dropWhile_le [of "\<lambda>d. d \<noteq> CHR ''}''" "tl rest"] Cons by simp
    have whole: "s = c # hd rest # ?name @ hd ?after # tl ?after" if "rest \<noteq> []" "?after \<noteq> []"
      using that Cons by simp
    have brace: "hd ?after = CHR ''}''" if "?after \<noteq> []"
      using hd_dropWhile [OF that] by simp
    show ?thesis
      using 1 [rule_format, OF len] 1 [rule_format, of rest] Cons whole brace
      by (subst expand_env_vars.simps) (auto simp: Let_def)
  qed simp
qed

text \<open>
  Expansion replaces each reference by the variable's value, which is not expanded again, and copies the
  text before the first dollar sign; a reference to an unset variable stays as it is, so without
  variables the text is unchanged.
\<close>

theorem expand_spec:
  assumes "CHR ''$'' \<notin> set pre" "name \<noteq> []" "CHR ''}'' \<notin> set name"
  shows "expand_env_vars env (pre @ ''${'' @ name @ ''}'' @ post) =
      pre @ (case env name of Some v \<Rightarrow> v | None \<Rightarrow> ''${'' @ name @ ''}'') @ expand_env_vars env post \<and>
    expand_env_vars env pre = pre \<and> expand_env_vars (\<lambda>_. None) post = post"
  using expand_prefix [OF assms(1), of env "[]"] expand_prefix [OF assms(1)]
    expand_var [OF assms(2,3)] expand_unset by simp

theorem expand_spec_witness:
  "expand_env_vars [''A'' \<mapsto> ''${A}''] ''x=${A};y=${B}'' = ''x=${A};y=${B}''"
proof -
  have "expand_env_vars [''A'' \<mapsto> ''${A}''] ''y=${B}'' = ''y=${B}''"
    using expand_spec [of "''y=''" "''B''" "[''A'' \<mapsto> ''${A}'']" "[]"] by simp
  then show ?thesis
    using expand_spec [of "''x=''" "''A''" "[''A'' \<mapsto> ''${A}'']" "'';y=${B}''"]
      expand_prefix [of "'';''" "[''A'' \<mapsto> ''${A}'']" "''y=${B}''"] by simp
qed

end
