(* ===== verification/Local_Lock.thy ===== *)
theory Local_Lock
  imports Prelude
begin

text \<open>
  Coordination without etcd: the traits and errors of \<open>src/src/core/coordinator/mod.rs\<close> and the
  in-process lock and worker allocator of \<open>coordinator/local.rs\<close>. The lock is first the sequential
  object its callers see, with the contract \<open>distributed_lock\<close> that callers rely on, then the atomic
  steps in which concurrent tasks run \<open>acquire\<close>: the table is locked for the test and for the
  insertion separately. Logging is left out.
\<close>

section \<open>Errors and the worker allocator\<close>

datatype worker_allocator_error =
    WorkerConnectionFailed string
  | NoAvailableId
  | LeaseRenewalFailed string
  | Cancelled
  | WorkerEtcdError string
  | WorkerNotConfigured

datatype lock_error =
    LockConnectionFailed string
  | LockTimeout string
  | AcquireFailed string string
  | ReleaseFailed string string
  | LockEtcdError string
  | LockNotConfigured
  | ServiceUnavailable

definition quote :: string where
  "quote = [CHR 0x27]"

fun lock_error_text :: "lock_error \<Rightarrow> string" where
  "lock_error_text (LockConnectionFailed m) = ''Failed to connect to lock service: '' @ m"
| "lock_error_text (LockTimeout k) =
     ''Lock acquisition timeout for key '' @ quote @ k @ quote"
| "lock_error_text (AcquireFailed k m) =
     ''Failed to acquire lock for key '' @ quote @ k @ quote @ '': '' @ m"
| "lock_error_text (ReleaseFailed k m) =
     ''Failed to release lock for key '' @ quote @ k @ quote @ '': '' @ m"
| "lock_error_text (LockEtcdError m) = ''etcd error: '' @ m"
| "lock_error_text LockNotConfigured = ''Lock not configured''"
| "lock_error_text ServiceUnavailable = ''Lock service unavailable, degraded to local mode''"

record local_worker_allocator =
  lwa_worker_id :: u16
  lwa_datacenter_id :: u8

definition lwa_new :: "u8 \<Rightarrow> u16 \<Rightarrow> local_worker_allocator" where
  "lwa_new dc worker = \<lparr>lwa_worker_id = worker, lwa_datacenter_id = dc\<rparr>"

definition lwa_allocate :: "local_worker_allocator \<Rightarrow> worker_allocator_error + u16" where
  "lwa_allocate a = Inr (lwa_worker_id a)"

definition lwa_release :: "u16 \<Rightarrow> local_worker_allocator \<Rightarrow> worker_allocator_error + unit" where
  "lwa_release worker a = Inr ()"

definition lwa_get_allocated_id :: "local_worker_allocator \<Rightarrow> u16 option" where
  "lwa_get_allocated_id a = (if lwa_worker_id a = 0 then None else Some (lwa_worker_id a))"

section \<open>The lock\<close>

type_synonym lock_table = "string \<rightharpoonup> bool"

definition lock_table_new :: lock_table where
  "lock_table_new = Map.empty"

definition is_locked :: "string \<Rightarrow> lock_table \<Rightarrow> bool" where
  "is_locked key locks = (case locks key of Some b \<Rightarrow> b | None \<Rightarrow> False)"

definition acquire_lock :: "string \<Rightarrow> lock_table \<Rightarrow> lock_table" where
  "acquire_lock key locks = locks(key \<mapsto> True)"

definition release_lock :: "string \<Rightarrow> lock_table \<Rightarrow> lock_table" where
  "release_lock key locks = locks(key := None)"

definition already_held :: "string \<Rightarrow> lock_error" where
  "already_held key = AcquireFailed key ''Lock already held in local mode''"

definition local_acquire :: "string \<Rightarrow> lock_table \<Rightarrow> (lock_error + unit) \<times> lock_table" where
  "local_acquire key locks =
     (if is_locked key locks then (Inl (already_held key), locks)
      else (Inr (), acquire_lock key locks))"

text \<open>The release of the guard of \<open>key\<close>; dropping a guard does nothing.\<close>

definition guard_release :: "string \<Rightarrow> lock_table \<Rightarrow> lock_table" where
  "guard_release key locks = release_lock key locks"

section \<open>The contract of a distributed lock\<close>

locale distributed_lock =
  fixes acq :: "string \<Rightarrow> 'l \<Rightarrow> (lock_error + unit) \<times> 'l"
    and rel :: "string \<Rightarrow> 'l \<Rightarrow> 'l"
    and held :: "string \<Rightarrow> 'l \<Rightarrow> bool"
  assumes acq_free: "\<not> held k l \<Longrightarrow> fst (acq k l) = Inr ()"
    and acq_free_held: "\<not> held k l \<Longrightarrow> held k' (snd (acq k l)) \<longleftrightarrow> k' = k \<or> held k' l"
    and acq_taken: "held k l \<Longrightarrow> isl (fst (acq k l)) \<and> snd (acq k l) = l"
    and rel_held: "held k' (rel k l) \<longleftrightarrow> k' \<noteq> k \<and> held k' l"
begin

text \<open>A critical section: acquire, run the body, release; a failed body keeps the lock.\<close>

definition section_run :: "string \<Rightarrow> (unit \<Rightarrow> 'e + 'a) \<Rightarrow> 'l \<Rightarrow> (lock_error + ('e + 'a)) \<times> 'l" where
  "section_run k body l =
     (case acq k l of
        (Inl e, l') \<Rightarrow> (Inl e, l')
      | (Inr _, l') \<Rightarrow>
          (case body () of Inl e \<Rightarrow> (Inr (Inl e), l') | Inr x \<Rightarrow> (Inr (Inr x), rel k l')))"

lemma acq_cases:
  obtains (taken) e where "held k l" "acq k l = (Inl e, l)"
  | (free) l' where "\<not> held k l" "acq k l = (Inr (), l')"
      "\<And>k'. held k' l' \<longleftrightarrow> k' = k \<or> held k' l" "\<And>k'. held k' (rel k l') \<longleftrightarrow> held k' l"
proof (cases "held k l")
  case True
  then show ?thesis
    using acq_taken [OF True] taken by (cases "acq k l"; cases "fst (acq k l)") auto
next
  case False
  obtain l' where "acq k l = (Inr (), l')"
    using acq_free [OF False] by (cases "acq k l") auto
  with free False acq_free_held [OF False] rel_held show ?thesis
    by (metis snd_conv)
qed

lemma section_run_held:
  "held k' (snd (section_run k body l)) \<longleftrightarrow>
     held k' l \<or> k' = k \<and> isl (body ())"
  by (cases rule: acq_cases [of k l]) (auto simp: section_run_def split: sum.split)

lemma section_run_blocked:
  "held k l \<Longrightarrow> isl (fst (section_run k body l)) \<and> snd (section_run k body l) = l"
  by (cases rule: acq_cases [of k l]) (auto simp: section_run_def)

end

interpretation local: distributed_lock local_acquire guard_release is_locked
  by unfold_locales
    (auto simp: local_acquire_def guard_release_def is_locked_def acquire_lock_def release_lock_def
        split: option.splits if_splits)

section \<open>Concurrent tasks\<close>

text \<open>
  A task of \<open>acquire\<close> tests the table in one step and inserts in another; it then holds its guard until
  it releases it, which it may do again.
\<close>

datatype lock_point = Start string | Tested string | Holds string | Released string | Refused string

inductive lock_step :: "lock_table \<Rightarrow> lock_point \<Rightarrow> lock_table \<Rightarrow> lock_point \<Rightarrow> bool" where
  test_free: "\<not> is_locked k l \<Longrightarrow> lock_step l (Start k) l (Tested k)"
| test_taken: "is_locked k l \<Longrightarrow> lock_step l (Start k) l (Refused k)"
| insert_key: "lock_step l (Tested k) (acquire_lock k l) (Holds k)"
| release: "lock_step l (Holds k) (release_lock k l) (Released k)"
| release_again: "lock_step l (Released k) (release_lock k l) (Released k)"

inductive_cases test_stepE: "lock_step l (Start k) l' p"

text \<open>
  Reachable locks and program points of tasks numbered by \<open>nat\<close>, under any schedule, of a lock with
  the steps \<open>ls\<close> and the first state \<open>l0\<close>; and the exclusion a lock may promise.
\<close>

inductive lock_reachable ::
  "('l \<Rightarrow> lock_point \<Rightarrow> 'l \<Rightarrow> lock_point \<Rightarrow> bool) \<Rightarrow> 'l \<Rightarrow> (nat \<Rightarrow> lock_point) \<Rightarrow> 'l \<Rightarrow>
   (nat \<Rightarrow> lock_point) \<Rightarrow> bool" for ls l0 ps0 where
  initial: "lock_reachable ls l0 ps0 l0 ps0"
| step: "lock_reachable ls l0 ps0 l ps \<Longrightarrow> ls l (ps t) l' p \<Longrightarrow> lock_reachable ls l0 ps0 l' (ps(t := p))"

definition lock_excludes :: "('l \<Rightarrow> lock_point \<Rightarrow> 'l \<Rightarrow> lock_point \<Rightarrow> bool) \<Rightarrow> 'l \<Rightarrow> bool" where
  "lock_excludes ls l0 \<longleftrightarrow>
     (\<forall>ps0 l ps t u k. (\<forall>t. \<exists>k. ps0 t = Start k) \<longrightarrow> lock_reachable ls l0 ps0 l ps \<longrightarrow>
        ps t = Holds k \<longrightarrow> ps u = Holds k \<longrightarrow> t = u)"

text \<open>The steps of a lock whose two operations are atomic, as the call of a lock server is.\<close>

inductive service_step ::
  "(string \<Rightarrow> 'l \<Rightarrow> (lock_error + unit) \<times> 'l) \<Rightarrow> (string \<Rightarrow> 'l \<Rightarrow> 'l) \<Rightarrow> 'l \<Rightarrow> lock_point \<Rightarrow> 'l \<Rightarrow>
   lock_point \<Rightarrow> bool" for acq rel where
  served: "acq k l = (Inr (), l') \<Longrightarrow> service_step acq rel l (Start k) l' (Holds k)"
| unserved: "acq k l = (Inl e, l') \<Longrightarrow> service_step acq rel l (Start k) l' (Refused k)"
| given_back: "service_step acq rel l (Holds k) (rel k l) (Released k)"

inductive_cases service_stepE: "service_step acq rel l p l' p'"

context distributed_lock
begin

lemma service_excludes: "lock_excludes (service_step acq rel) l0"
  unfolding lock_excludes_def
proof (intro allI impI)
  fix ps0 :: "nat \<Rightarrow> lock_point" and l ps t u k
  assume start: "\<forall>t. \<exists>k. ps0 t = Start k" and run: "lock_reachable (service_step acq rel) l0 ps0 l ps"
    and t: "ps t = Holds k" and u: "ps u = Holds k"
  from run have "(ps t = Holds k \<longrightarrow> held k l) \<and> (ps t = Holds k \<longrightarrow> ps u = Holds k \<longrightarrow> t = u)" for t u k
  proof (induction arbitrary: t u k rule: lock_reachable.induct)
    case initial
    have "ps0 t \<noteq> Holds k" for t k using start by (metis lock_point.distinct(3))
    then show ?case by blast
  next
    case (step l ps v l' p)
    note IH = step.IH
    from step.hyps(2) show ?case
    proof (cases rule: service_step.cases)
      case (served j)
      then have "\<not> held j l" using acq_taken [of j l] by auto
      with served acq_free_held [of j l] IH show ?thesis by (auto split: if_splits)
    next
      case (unserved j e)
      then have "held j l" using acq_free [of j l] by auto
      with unserved acq_taken [of j l] IH show ?thesis by (auto split: if_splits)
    next
      case (given_back j)
      then show ?thesis using IH rel_held by (auto split: if_splits)
    qed
  qed
  with t u show "t = u" by blast
qed

end

lemma is_locked_simps [simp]:
  "is_locked k lock_table_new = False"
  "is_locked k (acquire_lock k' l) = (k = k' \<or> is_locked k l)"
  "is_locked k (release_lock k' l) = (k \<noteq> k' \<and> is_locked k l)"
  by (auto simp: is_locked_def lock_table_new_def acquire_lock_def release_lock_def)

text \<open>
  The code does not keep the test and the insertion together: two tasks that both test before either
  inserts both hold the lock.
\<close>

theorem lock_race:
  "\<exists>l. lock_reachable lock_step lock_table_new (\<lambda>_. Start ''a'') l
     ((\<lambda>_. Start ''a'')(0 := Holds ''a'', 1 := Holds ''a''))"
proof -
  let ?p0 = "\<lambda>_ :: nat. Start ''a''"
  have "lock_reachable lock_step lock_table_new ?p0 lock_table_new (?p0(0 := Tested ''a''))"
    by (rule lock_reachable.step [OF lock_reachable.initial]) (simp add: lock_step.test_free)
  then have "lock_reachable lock_step lock_table_new ?p0 lock_table_new (?p0(0 := Tested ''a'', 1 := Tested ''a''))"
    by (rule lock_reachable.step) (simp add: lock_step.test_free)
  then have "lock_reachable lock_step lock_table_new ?p0 (acquire_lock ''a'' lock_table_new)
      (?p0(0 := Tested ''a'', 1 := Tested ''a'', 0 := Holds ''a''))"
    by (rule lock_reachable.step) (simp add: lock_step.insert_key)
  then have "lock_reachable lock_step lock_table_new ?p0 (acquire_lock ''a'' (acquire_lock ''a'' lock_table_new))
      (?p0(0 := Tested ''a'', 1 := Tested ''a'', 0 := Holds ''a'', 1 := Holds ''a''))"
    by (rule lock_reachable.step) (simp add: lock_step.insert_key)
  moreover have "?p0(0 := Tested ''a'', 1 := Tested ''a'', 0 := Holds ''a'', 1 := Holds ''a'') =
      ?p0(0 := Holds ''a'', 1 := Holds ''a'')" by auto
  ultimately show ?thesis by metis
qed

text \<open>
  Releasing a guard a second time frees the lock of the task that has acquired it since: a third task
  then holds the key at the same time as the second.
\<close>

theorem double_release:
  "\<exists>l. lock_reachable lock_step lock_table_new (\<lambda>_. Start ''a'') l
     ((\<lambda>_. Start ''a'')(0 := Released ''a'', 1 := Holds ''a'', 2 := Holds ''a''))"
proof -
  let ?p0 = "\<lambda>_ :: nat. Start ''a''"
  let ?l = "acquire_lock ''a'' lock_table_new"
  let ?f = "release_lock ''a'' ?l"
  have get: "lock_reachable lock_step lock_table_new ?p0 (acquire_lock ''a'' l) (ps(t := Holds ''a''))"
    if "lock_reachable lock_step lock_table_new ?p0 l ps" "ps t = Start ''a''" "\<not> is_locked ''a'' l" for l ps t
  proof -
    have "lock_reachable lock_step lock_table_new ?p0 l (ps(t := Tested ''a''))"
      by (rule lock_reachable.step [OF that(1)]) (simp add: that lock_step.test_free)
    then have "lock_reachable lock_step lock_table_new ?p0 (acquire_lock ''a'' l) (ps(t := Tested ''a'', t := Holds ''a''))"
      by (rule lock_reachable.step) (simp add: lock_step.insert_key)
    then show ?thesis by simp
  qed
  have "lock_reachable lock_step lock_table_new ?p0 ?l (?p0(0 := Holds ''a''))"
    by (rule get [OF lock_reachable.initial]) simp_all
  then have "lock_reachable lock_step lock_table_new ?p0 ?f (?p0(0 := Holds ''a'', 0 := Released ''a''))"
    by (rule lock_reachable.step) (simp add: lock_step.release)
  then have "lock_reachable lock_step lock_table_new ?p0 (acquire_lock ''a'' ?f)
      (?p0(0 := Holds ''a'', 0 := Released ''a'', 1 := Holds ''a''))"
    by (rule get) simp_all
  then have "lock_reachable lock_step lock_table_new ?p0 (release_lock ''a'' (acquire_lock ''a'' ?f))
      (?p0(0 := Holds ''a'', 0 := Released ''a'', 1 := Holds ''a'', 0 := Released ''a''))"
    by (rule lock_reachable.step) (simp add: lock_step.release_again)
  then have "lock_reachable lock_step lock_table_new ?p0 (acquire_lock ''a'' (release_lock ''a'' (acquire_lock ''a'' ?f)))
      (?p0(0 := Holds ''a'', 0 := Released ''a'', 1 := Holds ''a'', 0 := Released ''a'',
        2 := Holds ''a''))"
    by (rule get) simp_all
  moreover have "?p0(0 := Holds ''a'', 0 := Released ''a'', 1 := Holds ''a'', 0 := Released ''a'',
        2 := Holds ''a'') = ?p0(0 := Released ''a'', 1 := Holds ''a'', 2 := Holds ''a'')"
    by auto
  ultimately show ?thesis by metis
qed

end
