(* ===== verification/Segment_Repo.thy ===== *)
theory Segment_Repo
  imports Local_Lock Types_Id
begin

text \<open>
  Allocation of identifier ranges in the database, the \<open>SegmentRepository\<close> of
  \<open>src/src/core/database/repository.rs\<close>, over the entity of \<open>segment_entity.rs\<close>.

  The database and its ORM are a parameter: \<open>segment_db\<close> is the operations the code calls, each with
  the database's own error, and \<open>db_contract\<close> what a transactional SQL table documents of them. The
  lock service is the other parameter, with the contract of \<open>Local_Lock\<close>. A signed column is an
  integer, with the saturation and the wrap-around of its width written out; the time columns, which no
  operation reads, are left out, and so is the lock-free variant of the test build.
\<close>

section \<open>Rows and operations\<close>

definition sat_i64 :: "int \<Rightarrow> int" where
  "sat_i64 x = max (- (2 ^ 63)) (min (2 ^ 63 - 1) x)"

definition wrap_i64 :: "int \<Rightarrow> int" where
  "wrap_i64 x = (x + 2 ^ 63) mod 2 ^ 64 - 2 ^ 63"

record segment_row =
  row_id :: int
  row_workspace_id :: string
  row_biz_tag :: string
  row_current_id :: int
  row_max_id :: int
  row_step :: int
  row_delta :: int
  row_dc_id :: int

record segment_info =
  si_id :: int
  si_workspace_id :: string
  si_biz_tag :: string
  si_current_id :: int
  si_max_id :: int
  si_step :: u32
  si_delta :: u32

definition segment_info_new :: "string \<Rightarrow> string \<Rightarrow> int \<Rightarrow> int \<Rightarrow> u32 \<Rightarrow> u32 \<Rightarrow> segment_info" where
  "segment_info_new ws tag current mx step delta =
     \<lparr>si_id = 0, si_workspace_id = ws, si_biz_tag = tag, si_current_id = current, si_max_id = mx,
      si_step = step, si_delta = delta\<rparr>"

definition info_of_row :: "segment_row \<Rightarrow> segment_info" where
  "info_of_row m =
     \<lparr>si_id = row_id m, si_workspace_id = row_workspace_id m, si_biz_tag = row_biz_tag m,
      si_current_id = row_current_id m, si_max_id = row_max_id m, si_step = of_int (row_step m),
      si_delta = of_int (row_delta m)\<rparr>"

record 'd segment_db =
  db_begin :: "'d \<Rightarrow> (string + unit) \<times> 'd"
  db_find :: "(segment_row \<Rightarrow> bool) \<Rightarrow> 'd \<Rightarrow> (string + segment_row option) \<times> 'd"
  db_all :: "(segment_row \<Rightarrow> bool) \<Rightarrow> 'd \<Rightarrow> (string + segment_row list) \<times> 'd"
  db_set_current :: "(segment_row \<Rightarrow> bool) \<Rightarrow> int \<Rightarrow> 'd \<Rightarrow> (string + nat) \<times> 'd"
  db_insert :: "segment_row \<Rightarrow> 'd \<Rightarrow> (string + segment_row) \<times> 'd"
  db_delete :: "(segment_row \<Rightarrow> bool) \<Rightarrow> 'd \<Rightarrow> (string + nat) \<times> 'd"
  db_commit :: "'d \<Rightarrow> (string + unit) \<times> 'd"
  db_rollback :: "'d \<Rightarrow> 'd"

record 'l lock_service =
  ls_acquire :: "string \<Rightarrow> 'l \<Rightarrow> (lock_error + unit) \<times> 'l"
  ls_release :: "string \<Rightarrow> 'l \<Rightarrow> 'l"

definition print_int :: "int \<Rightarrow> string" where
  "print_int n = (if n < 0 then ''-'' @ print_dec (nat (- n)) else print_dec (nat n))"

definition segment_lock_key :: "string \<Rightarrow> string \<Rightarrow> int option \<Rightarrow> string" where
  "segment_lock_key ws tag dc =
     (case dc of
        Some d \<Rightarrow> ''segment:'' @ ws @ '':'' @ tag @ '':dc:'' @ print_int d
      | None \<Rightarrow> ''segment:'' @ ws @ '':'' @ tag)"

definition row_for :: "string \<Rightarrow> string \<Rightarrow> segment_row \<Rightarrow> bool" where
  "row_for ws tag r \<longleftrightarrow> row_workspace_id r = ws \<and> row_biz_tag r = tag"

definition row_for_dc :: "string \<Rightarrow> string \<Rightarrow> int \<Rightarrow> segment_row \<Rightarrow> bool" where
  "row_for_dc ws tag dc r \<longleftrightarrow> row_for ws tag r \<and> row_dc_id r = dc"

text \<open>What an allocation answers and writes, from the row it found or for the first row of a key.\<close>

definition advanced_id :: "segment_row \<Rightarrow> int \<Rightarrow> int" where
  "advanced_id model step = sat_i64 (row_current_id model + step)"

definition advanced_info :: "segment_row \<Rightarrow> int \<Rightarrow> segment_info" where
  "advanced_info model step = (info_of_row model)\<lparr>si_max_id := advanced_id model step\<rparr>"

definition first_segment :: "int \<Rightarrow> int \<Rightarrow> string \<Rightarrow> string \<Rightarrow> int \<Rightarrow> segment_row" where
  "first_segment start_id dc ws tag step =
     (let max_id = sat_i64 (start_id + step) in
      \<lparr>row_id = 0, row_workspace_id = ws, row_biz_tag = tag, row_current_id = max_id,
       row_max_id = max_id, row_step = step, row_delta = 1, row_dc_id = dc\<rparr>)"

definition first_info :: "int \<Rightarrow> int \<Rightarrow> segment_row \<Rightarrow> segment_info" where
  "first_info start_id step inserted =
     \<lparr>si_id = row_id inserted, si_workspace_id = row_workspace_id inserted,
      si_biz_tag = row_biz_tag inserted, si_current_id = start_id,
      si_max_id = sat_i64 (start_id + step), si_step = of_int step, si_delta = 1\<rparr>"

text \<open>The transaction of both allocations: it is dropped, and so rolled back, on every early return.\<close>

definition commit_with :: "'d segment_db \<Rightarrow> segment_info \<Rightarrow> 'd \<Rightarrow> segment_info res \<times> 'd" where
  "commit_with db info d =
     (case db_commit db d of
        (Inl e, d') \<Rightarrow> (Inl (DatabaseError e), d')
      | (Inr _, d') \<Rightarrow> (Inr info, d'))"

definition advance_row :: "'d segment_db \<Rightarrow> segment_row \<Rightarrow> int \<Rightarrow> 'd \<Rightarrow> segment_info res \<times> 'd" where
  "advance_row db model step d =
     (case db_set_current db (\<lambda>r. row_id r = row_id model) (advanced_id model step) d of
        (Inl e, d') \<Rightarrow> (Inl (DatabaseError e), db_rollback db d')
      | (Inr _, d') \<Rightarrow> commit_with db (advanced_info model step) d')"

definition first_row ::
  "'d segment_db \<Rightarrow> int \<Rightarrow> int \<Rightarrow> string \<Rightarrow> string \<Rightarrow> int \<Rightarrow> 'd \<Rightarrow> segment_info res \<times> 'd" where
  "first_row db start_id dc ws tag step d =
     (case db_insert db (first_segment start_id dc ws tag step) d of
        (Inl e, d') \<Rightarrow> (Inl (DatabaseError e), db_rollback db d')
      | (Inr inserted, d') \<Rightarrow> commit_with db (first_info start_id step inserted) d')"

definition allocate_txn ::
  "'d segment_db \<Rightarrow> (segment_row \<Rightarrow> bool) \<Rightarrow> int \<Rightarrow> int \<Rightarrow> string \<Rightarrow> string \<Rightarrow> int \<Rightarrow> 'd \<Rightarrow>
   segment_info res \<times> 'd" where
  "allocate_txn db p start_id dc ws tag step d =
     (case db_begin db d of
        (Inl e, d1) \<Rightarrow> (Inl (DatabaseError e), d1)
      | (Inr _, d1) \<Rightarrow>
          (case db_find db p d1 of
             (Inl e, d2) \<Rightarrow> (Inl (DatabaseError e), db_rollback db d2)
           | (Inr (Some model), d2) \<Rightarrow> advance_row db model step d2
           | (Inr None, d2) \<Rightarrow> first_row db start_id dc ws tag step d2))"

text \<open>
  The lock around it: the guard is released only after the commit, so an error in between returns with
  the lock still taken.
\<close>

definition allocate_locked ::
  "'l lock_service option \<Rightarrow> string \<Rightarrow> ('d \<Rightarrow> segment_info res \<times> 'd) \<Rightarrow> 'l \<times> 'd \<Rightarrow>
   segment_info res \<times> 'l \<times> 'd" where
  "allocate_locked lock key body ld =
     (case lock of
        None \<Rightarrow> (Inl (ConfigurationError
          ''Distributed lock not configured for segment allocation''), ld)
      | Some ls \<Rightarrow>
          (case ls_acquire ls key (fst ld) of
             (Inl e, l) \<Rightarrow> (Inl (InternalError
               (''Failed to acquire distributed lock for segment allocation: '' @
                lock_error_text e)), l, snd ld)
           | (Inr _, l) \<Rightarrow>
               (case body (snd ld) of
                  (Inl e, d) \<Rightarrow> (Inl e, l, d)
                | (Inr info, d) \<Rightarrow> (Inr info, ls_release ls key l, d))))"

definition allocate_segment ::
  "'l lock_service option \<Rightarrow> 'd segment_db \<Rightarrow> string \<Rightarrow> string \<Rightarrow> int \<Rightarrow> 'l \<times> 'd \<Rightarrow>
   segment_info res \<times> 'l \<times> 'd" where
  "allocate_segment lock db ws tag step =
     allocate_locked lock (segment_lock_key ws tag None)
       (allocate_txn db (row_for ws tag) 1 0 ws tag step)"

definition allocate_segment_with_dc ::
  "'l lock_service option \<Rightarrow> 'd segment_db \<Rightarrow> string \<Rightarrow> string \<Rightarrow> int \<Rightarrow> int \<Rightarrow> 'l \<times> 'd \<Rightarrow>
   segment_info res \<times> 'l \<times> 'd" where
  "allocate_segment_with_dc lock db ws tag step dc =
     allocate_locked lock (segment_lock_key ws tag (Some dc))
       (allocate_txn db (row_for_dc ws tag dc) (wrap_i64 (dc * 1000000000000 + 1)) dc ws tag step)"

definition get_segment ::
  "'d segment_db \<Rightarrow> string \<Rightarrow> string \<Rightarrow> 'd \<Rightarrow> segment_info option res \<times> 'd" where
  "get_segment db ws tag d =
     (case db_find db (row_for ws tag) d of
        (Inl e, d') \<Rightarrow> (Inl (DatabaseError e), d')
      | (Inr r, d') \<Rightarrow> (Inr (map_option info_of_row r), d'))"

definition segment_not_found :: "string \<Rightarrow> string \<Rightarrow> core_error" where
  "segment_not_found ws tag = NotFound (''Segment not found for '' @ ws @ ''/'' @ tag)"

definition update_segment ::
  "'d segment_db \<Rightarrow> string \<Rightarrow> string \<Rightarrow> int \<Rightarrow> int \<Rightarrow> 'd \<Rightarrow> unit res \<times> 'd" where
  "update_segment db ws tag current mx d =
     (case db_set_current db (row_for ws tag) current d of
        (Inl e, d') \<Rightarrow> (Inl (DatabaseError e), d')
      | (Inr n, d') \<Rightarrow> (if n = 0 then Inl (segment_not_found ws tag) else Inr (), d'))"

definition create_segment ::
  "'d segment_db \<Rightarrow> string \<Rightarrow> string \<Rightarrow> int \<Rightarrow> int \<Rightarrow> int \<Rightarrow> int \<Rightarrow> 'd \<Rightarrow> segment_info res \<times> 'd" where
  "create_segment db ws tag start_id max_id step delta d =
     (case db_insert db \<lparr>row_id = 0, row_workspace_id = ws, row_biz_tag = tag,
            row_current_id = start_id, row_max_id = max_id, row_step = step, row_delta = delta,
            row_dc_id = 0\<rparr> d of
        (Inl e, d') \<Rightarrow> (Inl (DatabaseError e), d')
      | (Inr inserted, d') \<Rightarrow> (Inr (info_of_row inserted), d'))"

definition list_segments ::
  "'d segment_db \<Rightarrow> string \<Rightarrow> 'd \<Rightarrow> segment_info list res \<times> 'd" where
  "list_segments db ws d =
     (case db_all db (\<lambda>r. row_workspace_id r = ws) d of
        (Inl e, d') \<Rightarrow> (Inl (DatabaseError e), d')
      | (Inr rs, d') \<Rightarrow> (Inr (map info_of_row rs), d'))"

definition delete_segment ::
  "'d segment_db \<Rightarrow> string \<Rightarrow> string \<Rightarrow> 'd \<Rightarrow> unit res \<times> 'd" where
  "delete_segment db ws tag d =
     (case db_delete db (row_for ws tag) d of
        (Inl e, d') \<Rightarrow> (Inl (DatabaseError e), d')
      | (Inr n, d') \<Rightarrow> (if n = 0 then Inl (segment_not_found ws tag) else Inr (), d'))"

section \<open>The contract of the database\<close>

text \<open>
  \<open>working d\<close> is the table as the current connection sees it, \<open>committed d\<close> the durable one. A failed
  commit may or may not have taken effect.
\<close>

definition assign_current :: "(segment_row \<Rightarrow> bool) \<Rightarrow> int \<Rightarrow> segment_row list \<Rightarrow> segment_row list" where
  "assign_current p c rows = map (\<lambda>r. if p r then r\<lparr>row_current_id := c\<rparr> else r) rows"

definition db_contract ::
  "'d segment_db \<Rightarrow> ('d \<Rightarrow> segment_row list) \<Rightarrow> ('d \<Rightarrow> segment_row list) \<Rightarrow> bool" where
  "db_contract db working committed \<longleftrightarrow>
     (\<forall>d. committed (snd (db_begin db d)) = committed d \<and>
          working (snd (db_begin db d)) = committed d) \<and>
     (\<forall>p d. working (snd (db_find db p d)) = working d \<and>
          committed (snd (db_find db p d)) = committed d \<and>
          (case fst (db_find db p d) of
             Inl _ \<Rightarrow> True
           | Inr None \<Rightarrow> \<forall>r \<in> set (working d). \<not> p r
           | Inr (Some r) \<Rightarrow> r \<in> set (working d) \<and> p r)) \<and>
     (\<forall>p c d. committed (snd (db_set_current db p c d)) = committed d \<and>
          (\<not> isl (fst (db_set_current db p c d)) \<longrightarrow>
             working (snd (db_set_current db p c d)) = assign_current p c (working d))) \<and>
     (\<forall>r d. committed (snd (db_insert db r d)) = committed d \<and>
          (case fst (db_insert db r d) of
             Inl _ \<Rightarrow> True
           | Inr r' \<Rightarrow> (\<exists>i. r' = r\<lparr>row_id := i\<rparr> \<and> i \<notin> row_id ` set (working d)) \<and>
               working (snd (db_insert db r d)) = working d @ [r'])) \<and>
     (\<forall>d. working (snd (db_commit db d)) = committed (snd (db_commit db d)) \<and>
          (case fst (db_commit db d) of
             Inr _ \<Rightarrow> committed (snd (db_commit db d)) = working d
           | Inl _ \<Rightarrow> committed (snd (db_commit db d)) \<in> {committed d, working d})) \<and>
     (\<forall>d. committed (db_rollback db d) = committed d \<and> working (db_rollback db d) = committed d)"

section \<open>One allocation\<close>

definition next_free :: "(segment_row \<Rightarrow> bool) \<Rightarrow> int \<Rightarrow> segment_row list \<Rightarrow> int" where
  "next_free p start rows =
     (case List.find p rows of Some r \<Rightarrow> row_current_id r | None \<Rightarrow> start)"

definition unique_row :: "(segment_row \<Rightarrow> bool) \<Rightarrow> segment_row list \<Rightarrow> bool" where
  "unique_row p rows \<longleftrightarrow> (\<forall>r \<in> set rows. \<forall>r' \<in> set rows. p r \<and> p r' \<longrightarrow> r = r')"

definition rows_ok :: "segment_row list \<Rightarrow> bool" where
  "rows_ok rows \<longleftrightarrow> distinct (map row_id rows) \<and> (\<forall>r \<in> set rows. row_current_id r < 2 ^ 63)"

text \<open>\<open>advanced p c rows rows'\<close>: the counter of the one row of \<open>p\<close> is now \<open>c\<close>, or that row is new.\<close>

definition advanced :: "(segment_row \<Rightarrow> bool) \<Rightarrow> int \<Rightarrow> segment_row list \<Rightarrow> segment_row list \<Rightarrow> bool" where
  "advanced p c rows rows' \<longleftrightarrow>
     (\<exists>r \<in> set rows. p r \<and> rows' = assign_current (\<lambda>x. row_id x = row_id r) c rows) \<or>
     (\<forall>r \<in> set rows. \<not> p r) \<and>
       (\<exists>n. p n \<and> row_id n \<notin> row_id ` set rows \<and> row_current_id n = c \<and> rows' = rows @ [n])"

text \<open>A selection that looks neither at the row number nor at the counter.\<close>

definition key_pred :: "(segment_row \<Rightarrow> bool) \<Rightarrow> bool" where
  "key_pred p \<longleftrightarrow> (\<forall>r i c. p (r\<lparr>row_id := i\<rparr>) = p r \<and> p (r\<lparr>row_current_id := c\<rparr>) = p r)"

lemma key_pred_row_for [simp]: "key_pred (row_for ws tag)" "key_pred (row_for_dc ws tag dc)"
  by (simp_all add: key_pred_def row_for_def row_for_dc_def)

lemma sat_i64_bounds: "sat_i64 x < 2 ^ 63" "0 \<le> s \<Longrightarrow> c < 2 ^ 63 \<Longrightarrow> c \<le> sat_i64 (c + s)"
  by (auto simp: sat_i64_def)

lemma find_unique:
  "unique_row p rows \<Longrightarrow> r \<in> set rows \<Longrightarrow> p r \<Longrightarrow> List.find p rows = Some r"
  unfolding unique_row_def
  by (cases "List.find p rows") (auto simp: find_None_iff find_Some_iff dest: nth_mem)

lemma find_snoc: "\<not> q n \<Longrightarrow> List.find q (rows @ [n]) = List.find q rows"
  by (induction rows) auto

lemma next_free_row: "unique_row p rows \<Longrightarrow> r \<in> set rows \<Longrightarrow> p r \<Longrightarrow> next_free p s rows = row_current_id r"
  by (simp add: next_free_def find_unique)

lemma next_free_none: "\<forall>r \<in> set rows. \<not> p r \<Longrightarrow> next_free p s rows = s"
  by (simp add: next_free_def find_None_iff [THEN iffD2])

lemma set_set_current:
  "set (assign_current q c rows) = (\<lambda>r. if q r then r\<lparr>row_current_id := c\<rparr> else r) ` set rows"
  by (simp add: assign_current_def)

lemma map_row_id_set_current [simp]: "map row_id (assign_current q c rows) = map row_id rows"
  by (simp add: assign_current_def)

lemma key_pred_set_current:
  "key_pred p \<Longrightarrow> p (if q r then r\<lparr>row_current_id := c\<rparr> else r) = p r"
  by (simp add: key_pred_def)

lemma unique_set_current:
  assumes "key_pred p" "unique_row p rows"
  shows "unique_row p (assign_current q c rows)"
  unfolding unique_row_def set_set_current
proof clarify
  fix r r' x x'
  assume r: "r \<in> set rows" "r' \<in> set rows"
    and "p (if q r then r\<lparr>row_current_id := c\<rparr> else r)" "p (if q r' then r'\<lparr>row_current_id := c\<rparr> else r')"
  then have "p r" "p r'" using key_pred_set_current [OF assms(1)] by simp_all
  with r assms(2) have "r = r'" by (auto simp: unique_row_def)
  then show "(if q r then r\<lparr>row_current_id := c\<rparr> else r) = (if q r' then r'\<lparr>row_current_id := c\<rparr> else r')"
    by simp
qed

lemma row_id_inj: "distinct (map row_id rows) \<Longrightarrow> r \<in> set rows \<Longrightarrow> r' \<in> set rows \<Longrightarrow>
    row_id r = row_id r' \<Longrightarrow> r = r'"
  by (auto simp: distinct_map dest: inj_onD)

text \<open>What \<open>advanced\<close> does to the counter of its own selection and to every disjoint one.\<close>

lemma advanced_own:
  assumes "advanced p c rows rows'" "rows_ok rows" "unique_row p rows" "key_pred p" "c < 2 ^ 63"
  shows "rows_ok rows' \<and> unique_row p rows' \<and> next_free p s rows' = c"
proof (cases "\<exists>r \<in> set rows. p r")
  case True
  then obtain r where r: "r \<in> set rows" "p r"
    and rows': "rows' = assign_current (\<lambda>x. row_id x = row_id r) c rows"
    using assms(1) by (auto simp: advanced_def)
  have u: "unique_row p rows'" unfolding rows' by (rule unique_set_current [OF assms(4,3)])
  have "r\<lparr>row_current_id := c\<rparr> \<in> set rows'" "p (r\<lparr>row_current_id := c\<rparr>)"
    using r assms(4) by (auto simp: rows' set_set_current key_pred_def)
  from next_free_row [OF u this] u assms(2,5) show ?thesis
    by (auto simp: rows_ok_def rows' set_set_current)
next
  case False
  then obtain n where n: "p n" "row_id n \<notin> row_id ` set rows" "row_current_id n = c" "rows' = rows @ [n]"
    using assms(1) by (auto simp: advanced_def)
  have u: "unique_row p rows'" using False by (auto simp: unique_row_def n(4))
  have "n \<in> set rows'" by (simp add: n(4))
  from next_free_row [OF u this n(1)] u n assms(2,5) show ?thesis
    by (auto simp: rows_ok_def)
qed

lemma advanced_other:
  assumes "advanced p c rows rows'" "rows_ok rows" "unique_row q rows" "key_pred q"
    and disj: "\<And>r. \<not> (p r \<and> q r)"
  shows "unique_row q rows' \<and> next_free q s rows' = next_free q s rows"
proof (cases "\<exists>r \<in> set rows. p r")
  case True
  then obtain r where r: "r \<in> set rows" "p r"
    and rows': "rows' = assign_current (\<lambda>x. row_id x = row_id r) c rows"
    using assms(1) by (auto simp: advanced_def)
  have u: "unique_row q rows'" unfolding rows' by (rule unique_set_current [OF assms(4,3)])
  have "next_free q s rows' = next_free q s rows"
  proof (cases "\<exists>x \<in> set rows. q x")
    case True
    then obtain x where x: "x \<in> set rows" "q x" by blast
    have "row_id x \<noteq> row_id r"
      using row_id_inj [OF _ x(1) r(1)] assms(2) disj x r by (auto simp: rows_ok_def)
    then have "x \<in> set rows'" using x by (force simp: rows' set_set_current)
    with x u assms(3) show ?thesis by (metis next_free_row)
  next
    case False
    then have "\<forall>x \<in> set rows'. \<not> q x"
      using assms(4) by (auto simp: rows' set_set_current key_pred_def)
    with False show ?thesis by (simp add: next_free_none)
  qed
  with u show ?thesis ..
next
  case False
  then obtain n where n: "p n" "rows' = rows @ [n]" using assms(1) by (auto simp: advanced_def)
  have "\<not> q n" using disj n(1) by blast
  then have "unique_row q rows'" using assms(3) by (auto simp: unique_row_def n(2))
  moreover have "List.find q rows' = List.find q rows"
    using \<open>\<not> q n\<close> by (simp add: n(2) find_snoc)
  ultimately show ?thesis by (simp add: next_free_def)
qed

text \<open>The contract, one law at a time.\<close>

lemma db_begin_law:
  "db_contract db working committed \<Longrightarrow> db_begin db d = (x, d') \<Longrightarrow>
     committed d' = committed d \<and> working d' = committed d"
  unfolding db_contract_def by (metis snd_conv)

lemma db_find_law:
  "db_contract db working committed \<Longrightarrow> db_find db p d = (x, d') \<Longrightarrow>
     working d' = working d \<and> committed d' = committed d \<and>
     (x = Inr None \<longrightarrow> (\<forall>r \<in> set (working d). \<not> p r)) \<and>
     (\<forall>r. x = Inr (Some r) \<longrightarrow> r \<in> set (working d) \<and> p r)"
  unfolding db_contract_def by (elim conjE allE [of _ p] allE [of _ d]) auto

lemma db_set_current_law:
  "db_contract db working committed \<Longrightarrow> db_set_current db p c d = (x, d') \<Longrightarrow>
     committed d' = committed d \<and> (\<not> isl x \<longrightarrow> working d' = assign_current p c (working d))"
  unfolding db_contract_def by (metis fst_conv snd_conv)

lemma db_insert_law:
  "db_contract db working committed \<Longrightarrow> db_insert db r d = (x, d') \<Longrightarrow>
     committed d' = committed d \<and>
     (\<forall>r'. x = Inr r' \<longrightarrow> (\<exists>i. r' = r\<lparr>row_id := i\<rparr> \<and> i \<notin> row_id ` set (working d)) \<and>
        working d' = working d @ [r'])"
  unfolding db_contract_def by (elim conjE allE [of _ r] allE [of _ d]) auto

lemma db_commit_law:
  "db_contract db working committed \<Longrightarrow> db_commit db d = (x, d') \<Longrightarrow>
     (isl x \<longrightarrow> committed d' \<in> {committed d, working d}) \<and> (\<not> isl x \<longrightarrow> committed d' = working d)"
  unfolding db_contract_def by (elim conjE allE [of _ d]) (auto split: sum.splits)

lemma db_rollback_law:
  "db_contract db working committed \<Longrightarrow> committed (db_rollback db d) = committed d"
  unfolding db_contract_def by blast

lemma commit_with_post:
  assumes "db_contract db working committed" "commit_with db info d = (res, d')"
  shows "committed d' \<in> {committed d, working d} \<and>
    (\<forall>i. res = Inr i \<longrightarrow> i = info \<and> committed d' = working d)"
  using assms(2) db_commit_law [OF assms(1), of d]
  by (auto simp: commit_with_def split: prod.splits sum.splits)

text \<open>The transaction advances the counter of its selection by the step, once, or changes nothing.\<close>

definition allocated ::
  "(segment_row \<Rightarrow> bool) \<Rightarrow> int \<Rightarrow> int \<Rightarrow> segment_row list \<Rightarrow> segment_row list \<Rightarrow> segment_info res \<Rightarrow> bool"
where
  "allocated p c m rows rows' res \<longleftrightarrow>
     (rows' = rows \<or> advanced p m rows rows') \<and>
     (\<forall>i. res = Inr i \<longrightarrow> si_current_id i = c \<and> si_max_id i = m \<and> advanced p m rows rows')"

lemma allocated_commit:
  assumes "db_contract db working committed" "commit_with db info d3 = (res, d')"
    and "advanced p m (committed d3) (working d3)"
  shows "allocated p (si_current_id info) (si_max_id info) (committed d3) (committed d') res \<or>
    si_max_id info \<noteq> m"
  using commit_with_post [OF assms(1,2)] assms(3) unfolding allocated_def by auto

lemma advance_row_post:
  assumes con: "db_contract db working committed" and run: "advance_row db model step d = (res, d')"
    and m: "model \<in> set (committed d)" "p model" and w: "working d = committed d"
  defines "c \<equiv> row_current_id model"
  shows "allocated p c (sat_i64 (c + step)) (committed d) (committed d') res"
proof -
  let ?m = "sat_i64 (c + step)" and ?q = "\<lambda>r. row_id r = row_id model"
  obtain x d3 where s: "db_set_current db ?q ?m d = (x, d3)" by (cases "db_set_current db ?q ?m d")
  note d3 = db_set_current_law [OF con s]
  show ?thesis
  proof (cases x)
    case (Inl e)
    with run s d3 show ?thesis
      by (auto simp: advance_row_def advanced_id_def c_def allocated_def db_rollback_law [OF con])
  next
    case (Inr n)
    then have "working d3 = assign_current ?q ?m (committed d)"
      using d3 w by simp
    then have adv: "advanced p ?m (committed d) (working d3)"
      using m unfolding advanced_def by blast
    define info where "info = (info_of_row model)\<lparr>si_max_id := ?m\<rparr>"
    have cw: "commit_with db info d3 = (res, d')"
      using run s Inr by (simp add: advance_row_def advanced_info_def advanced_id_def c_def info_def)
    have "si_current_id info = c" "si_max_id info = ?m"
      by (simp_all add: info_def info_of_row_def c_def)
    then show ?thesis
      using allocated_commit [OF con cw, of p ?m] adv d3 by simp
  qed
qed

lemma first_row_post:
  assumes con: "db_contract db working committed"
    and run: "first_row db start dc ws tag step d = (res, d')"
    and none: "\<forall>r \<in> set (committed d). \<not> p r" and w: "working d = committed d"
    and new: "\<And>i c. p \<lparr>row_id = i, row_workspace_id = ws, row_biz_tag = tag, row_current_id = c,
        row_max_id = c, row_step = step, row_delta = 1, row_dc_id = dc\<rparr>"
  shows "allocated p start (sat_i64 (start + step)) (committed d) (committed d') res"
proof -
  let ?m = "sat_i64 (start + step)"
  let ?r = "\<lparr>row_id = 0, row_workspace_id = ws, row_biz_tag = tag, row_current_id = ?m,
      row_max_id = ?m, row_step = step, row_delta = 1, row_dc_id = dc\<rparr>"
  obtain x d3 where s: "db_insert db ?r d = (x, d3)" by (cases "db_insert db ?r d")
  note d3 = db_insert_law [OF con s]
  show ?thesis
  proof (cases x)
    case (Inl e)
    with run s d3 show ?thesis
      by (auto simp: first_row_def first_segment_def Let_def allocated_def db_rollback_law [OF con])
  next
    case (Inr n)
    then obtain i where n: "n = ?r\<lparr>row_id := i\<rparr>" "i \<notin> row_id ` set (committed d)"
      "working d3 = committed d @ [n]"
      using d3 w by auto
    have "p n" "row_current_id n = ?m" "row_id n = i" by (simp_all add: n(1) new)
    then have adv: "advanced p ?m (committed d) (working d3)"
      using none n(2,3) unfolding advanced_def by blast
    define info where "info = \<lparr>si_id = row_id n, si_workspace_id = row_workspace_id n,
        si_biz_tag = row_biz_tag n, si_current_id = start, si_max_id = ?m,
        si_step = of_int step, si_delta = 1\<rparr>"
    have cw: "commit_with db info d3 = (res, d')"
      using run s Inr by (simp add: first_row_def first_segment_def first_info_def Let_def info_def)
    have "si_current_id info = start" "si_max_id info = ?m" by (simp_all add: info_def)
    then show ?thesis
      using allocated_commit [OF con cw, of p ?m] adv d3 by simp
  qed
qed

lemma allocate_txn_post:
  assumes con: "db_contract db working committed" and u: "unique_row p (committed d)"
    and new: "\<And>i c. p \<lparr>row_id = i, row_workspace_id = ws, row_biz_tag = tag, row_current_id = c,
        row_max_id = c, row_step = step, row_delta = 1, row_dc_id = dc\<rparr>"
    and run: "allocate_txn db p start dc ws tag step d = (res, d')"
  defines "c \<equiv> next_free p start (committed d)"
  shows "allocated p c (sat_i64 (c + step)) (committed d) (committed d') res"
proof -
  obtain x1 d1 where b: "db_begin db d = (x1, d1)" by (cases "db_begin db d")
  note d1 = db_begin_law [OF con b]
  obtain x2 d2 where f: "db_find db p d1 = (x2, d2)" by (cases "db_find db p d1")
  note d2 = db_find_law [OF con f]
  have same: ?thesis if "committed d' = committed d" "isl res"
    using that by (auto simp: allocated_def)
  consider (error) "isl x1 \<or> isl x2" | (found) y model where "x1 = Inr y" "x2 = Inr (Some model)"
    | (missing) y where "x1 = Inr y" "x2 = Inr None"
    by (cases x1; cases x2) (auto simp: option.split intro: option.exhaust)
  then show ?thesis
  proof cases
    case error
    with run b f d1 d2 db_rollback_law [OF con] show ?thesis
      by (intro same) (auto simp: allocate_txn_def split: sum.splits option.splits)
  next
    case (found y model)
    have "c = row_current_id model" "model \<in> set (committed d2)" "p model"
      using d1 d2 found next_free_row [OF u] by (simp_all add: c_def)
    then show ?thesis
      using advance_row_post [OF con, of model step d2 res d' p] run b f d1 d2 found
      by (simp add: allocate_txn_def)
  next
    case (missing y)
    have "c = start" using d1 d2 missing by (simp add: c_def next_free_none)
    then show ?thesis
      using first_row_post [where p = p and start = start and d = d2 and d' = d' and res = res,
          OF con _ _ _ new] run b f d1 d2 missing
      by (simp add: allocate_txn_def)
  qed
qed

section \<open>Runs of allocations\<close>

text \<open>
  A range store hands out ranges per key from a counter that never falls. Any sequence of calls, one
  after another, then gives ranges of one key in ascending order.
\<close>

fun run_allocs ::
  "('k \<Rightarrow> int \<Rightarrow> 's \<Rightarrow> segment_info res \<times> 's) \<Rightarrow> ('k \<times> int) list \<Rightarrow> 's \<Rightarrow>
   ('k \<times> segment_info res) list \<times> 's" where
  "run_allocs alloc [] s = ([], s)"
| "run_allocs alloc ((k, step) # reqs) s =
     (case alloc k step s of (res, s') \<Rightarrow>
      case run_allocs alloc reqs s' of (rs, s'') \<Rightarrow> ((k, res) # rs, s''))"

fun range_before :: "'k \<times> segment_info res \<Rightarrow> 'k \<times> segment_info res \<Rightarrow> bool" where
  "range_before (k, Inr a) (k', Inr b) = (k = k' \<longrightarrow> si_max_id a \<le> si_current_id b)"
| "range_before _ _ = True"

locale range_store =
  fixes alloc :: "'k \<Rightarrow> int \<Rightarrow> 's \<Rightarrow> segment_info res \<times> 's"
    and nxt :: "'k \<Rightarrow> 's \<Rightarrow> int"
    and inv :: "'s \<Rightarrow> bool"
  assumes alloc_inv: "inv s \<Longrightarrow> 0 \<le> step \<Longrightarrow> alloc k step s = (res, s') \<Longrightarrow> inv s'"
    and alloc_mono: "inv s \<Longrightarrow> 0 \<le> step \<Longrightarrow> alloc k step s = (res, s') \<Longrightarrow> nxt k' s \<le> nxt k' s'"
    and alloc_ok: "inv s \<Longrightarrow> 0 \<le> step \<Longrightarrow> alloc k step s = (Inr i, s') \<Longrightarrow>
      si_current_id i = nxt k s \<and> si_max_id i = nxt k s'"
begin

lemma run_ordered:
  "inv s \<Longrightarrow> \<forall>(k, step) \<in> set reqs. 0 \<le> step \<Longrightarrow> run_allocs alloc reqs s = (rs, s') \<Longrightarrow>
     inv s' \<and> (\<forall>k. nxt k s \<le> nxt k s') \<and>
     (\<forall>k i. (k, Inr i) \<in> set rs \<longrightarrow>
        nxt k s \<le> si_current_id i \<and> si_current_id i \<le> si_max_id i \<and> si_max_id i \<le> nxt k s') \<and>
     sorted_wrt range_before rs"
proof (induction reqs arbitrary: s rs)
  case (Cons req reqs)
  obtain k step where req: "req = (k, step)" by (cases req)
  obtain res s1 where a: "alloc k step s = (res, s1)" by (cases "alloc k step s")
  obtain rs1 where r: "run_allocs alloc reqs s1 = (rs1, s')" and rs: "rs = (k, res) # rs1"
    using Cons.prems(3) by (auto simp: req a split: prod.splits)
  have step: "0 \<le> step" using Cons.prems(2) by (simp add: req)
  note inv = alloc_inv [OF Cons.prems(1) step a]
    and mono = alloc_mono [OF Cons.prems(1) step a]
  have IH: "inv s'" "\<And>k. nxt k s1 \<le> nxt k s'" "sorted_wrt range_before rs1"
    "\<And>k i. (k, Inr i) \<in> set rs1 \<Longrightarrow>
      nxt k s1 \<le> si_current_id i \<and> si_current_id i \<le> si_max_id i \<and> si_max_id i \<le> nxt k s'"
    using Cons.IH [OF inv _ r] Cons.prems(2) by auto
  have ok: "nxt k s \<le> si_current_id i \<and> si_current_id i \<le> si_max_id i \<and> si_max_id i = nxt k s1"
    if "res = Inr i" for i
    using alloc_ok [OF Cons.prems(1) step a [unfolded that]] mono [of k] by simp
  have "range_before (k, res) x" if "x \<in> set rs1" for x
  proof -
    obtain k' y where x: "x = (k', y)" by (cases x)
    show ?thesis
    proof (cases "\<exists>a b. res = Inr a \<and> y = Inr b \<and> k' = k")
      case True
      then obtain a b where ab: "res = Inr a" "y = Inr b" "k' = k" by blast
      with ok [of a] IH(4) [of k b] that show ?thesis by (simp add: x)
    next
      case False
      then show ?thesis by (cases res; cases y) (auto simp: x)
    qed
  qed
  then show ?case
    using IH(1-3) ok order_trans [OF mono IH(2)] order_trans [OF mono conjunct1 [OF IH(4)]] IH(4)
    by (auto simp: rs)
qed simp

end

lemma allocate_locked_body:
  "allocate_locked lock key body ld = (res, ld') \<Longrightarrow>
     (\<exists>e. res = Inl e \<and> snd ld' = snd ld) \<or> body (snd ld) = (res, snd ld')"
  by (auto simp: allocate_locked_def split: option.splits prod.splits sum.splits)

definition store_inv :: "('k \<Rightarrow> segment_row \<Rightarrow> bool) \<Rightarrow> segment_row list \<Rightarrow> bool" where
  "store_inv p rows \<longleftrightarrow> rows_ok rows \<and> (\<forall>k. unique_row (p k) rows)"

lemma store_invD:
  "store_inv p rows \<Longrightarrow> rows_ok rows" "store_inv p rows \<Longrightarrow> unique_row (p k) rows"
  unfolding store_inv_def by blast+

lemma allocated_step:
  assumes "\<And>k. key_pred (p k)" "\<And>k k' r. k \<noteq> k' \<Longrightarrow> \<not> (p k r \<and> p k' r)" "\<And>k. start k < 2 ^ 63"
    and "store_inv p rows" "0 \<le> step"
    and "allocated (p k) c (sat_i64 (c + step)) rows rows' res" "c = next_free (p k) (start k) rows"
  shows "store_inv p rows' \<and>
    next_free (p k') (start k') rows \<le> next_free (p k') (start k') rows' \<and>
    (\<forall>i. res = Inr i \<longrightarrow> si_current_id i = next_free (p k) (start k) rows \<and>
       si_max_id i = next_free (p k) (start k) rows')"
proof -
  have ok: "rows_ok rows" and u: "unique_row (p k) rows" for k
    using assms(4) by (auto simp: store_inv_def)
  have "c < 2 ^ 63"
    using ok assms(3) unfolding assms(7) next_free_def
    by (auto simp: rows_ok_def find_Some_iff split: option.split)
  then have le: "c \<le> sat_i64 (c + step)" by (rule sat_i64_bounds(2) [OF assms(5)])
  have adv: "store_inv p rows' \<and> next_free (p k) (start k) rows' = sat_i64 (c + step) \<and>
      next_free (p k') (start k') rows \<le> next_free (p k') (start k') rows'"
    if a: "advanced (p k) (sat_i64 (c + step)) rows rows'"
  proof -
    note own = advanced_own [OF a ok u assms(1) sat_i64_bounds(1)]
    have other: "unique_row (p j) rows' \<and>
        next_free (p j) (start j) rows' = next_free (p j) (start j) rows" if "j \<noteq> k" for j
      by (rule advanced_other [OF a ok u assms(1)]) (use assms(2) that in blast)
    have "unique_row (p j) rows'" for j
      using own other by (cases "j = k") auto
    moreover have "next_free (p k') (start k') rows \<le> next_free (p k') (start k') rows'"
      using own other [of k'] le assms(7) by (cases "k' = k") auto
    ultimately show ?thesis using own by (simp add: store_inv_def)
  qed
  show ?thesis
    using assms(4,6,7) adv unfolding allocated_def by auto
qed

definition plain_key :: "string \<times> string \<Rightarrow> segment_row \<Rightarrow> bool" where
  "plain_key k = row_for (fst k) (snd k)"

definition dc_key :: "string \<times> string \<times> int \<Rightarrow> segment_row \<Rightarrow> bool" where
  "dc_key k = row_for_dc (fst k) (fst (snd k)) (snd (snd k))"

definition dc_start :: "int \<Rightarrow> int" where
  "dc_start dc = wrap_i64 (dc * 1000000000000 + 1)"

lemma plain_key_props:
  "key_pred (plain_key k)" "k \<noteq> k' \<Longrightarrow> \<not> (plain_key k r \<and> plain_key k' r)"
  "row_workspace_id r = fst k \<Longrightarrow> row_biz_tag r = snd k \<Longrightarrow> plain_key k r"
  by (simp add: plain_key_def) (auto simp: plain_key_def row_for_def prod_eq_iff)

lemma dc_key_props:
  "key_pred (dc_key k)" "k \<noteq> k' \<Longrightarrow> \<not> (dc_key k r \<and> dc_key k' r)"
  "row_workspace_id r = fst k \<Longrightarrow> row_biz_tag r = fst (snd k) \<Longrightarrow> row_dc_id r = snd (snd k) \<Longrightarrow>
     dc_key k r"
  by (simp add: dc_key_def) (auto simp: dc_key_def row_for_dc_def row_for_def prod_eq_iff)

lemma wrap_i64_lt: "wrap_i64 x < 2 ^ 63"
  using pos_mod_bound [of "2 ^ 64" "x + 2 ^ 63"] by (simp add: wrap_i64_def)

lemma dc_start_lt: "dc_start dc < 2 ^ 63"
  using wrap_i64_lt by (simp add: dc_start_def)

lemma allocate_segment_step:
  assumes "db_contract db working committed" "store_inv plain_key (committed (snd ld))" "0 \<le> step"
    and run: "allocate_segment lock db (fst k) (snd k) step ld = (res, ld')"
  shows "store_inv plain_key (committed (snd ld')) \<and>
    next_free (plain_key k') 1 (committed (snd ld)) \<le> next_free (plain_key k') 1 (committed (snd ld')) \<and>
    (\<forall>i. res = Inr i \<longrightarrow> si_current_id i = next_free (plain_key k) 1 (committed (snd ld)) \<and>
       si_max_id i = next_free (plain_key k) 1 (committed (snd ld')))"
  using allocate_locked_body [OF run [unfolded allocate_segment_def]]
proof (elim disjE exE conjE)
  assume txn: "allocate_txn db (row_for (fst k) (snd k)) 1 0 (fst k) (snd k) step (snd ld) = (res, snd ld')"
  have u: "unique_row (plain_key k) (committed (snd ld))"
    using assms(2) by (rule store_invD)
  note post = allocate_txn_post [OF assms(1) u _ txn [folded plain_key_def]]
  show ?thesis
    by (rule allocated_step [OF plain_key_props(1,2) _ assms(2,3) post refl])
      (simp_all add: plain_key_props(3))
qed (use assms(2) in simp)

lemma allocate_segment_with_dc_step:
  assumes "db_contract db working committed" "store_inv dc_key (committed (snd ld))" "0 \<le> step"
    and run: "allocate_segment_with_dc lock db (fst k) (fst (snd k)) step (snd (snd k)) ld = (res, ld')"
  shows "store_inv dc_key (committed (snd ld')) \<and>
    next_free (dc_key k') (dc_start (snd (snd k'))) (committed (snd ld)) \<le>
      next_free (dc_key k') (dc_start (snd (snd k'))) (committed (snd ld')) \<and>
    (\<forall>i. res = Inr i \<longrightarrow>
       si_current_id i = next_free (dc_key k) (dc_start (snd (snd k))) (committed (snd ld)) \<and>
       si_max_id i = next_free (dc_key k) (dc_start (snd (snd k))) (committed (snd ld')))"
  using allocate_locked_body [OF run [unfolded allocate_segment_with_dc_def]]
proof (elim disjE exE conjE)
  assume txn: "allocate_txn db (row_for_dc (fst k) (fst (snd k)) (snd (snd k)))
      (wrap_i64 (snd (snd k) * 1000000000000 + 1)) (snd (snd k)) (fst k) (fst (snd k)) step (snd ld) =
      (res, snd ld')"
  have u: "unique_row (dc_key k) (committed (snd ld))"
    using assms(2) by (rule store_invD)
  note post = allocate_txn_post [OF assms(1) u _ txn [folded dc_key_def dc_start_def]]
  show ?thesis
    by (rule allocated_step [where start = "\<lambda>k. dc_start (snd (snd k))",
          OF dc_key_props(1,2) _ assms(2,3) post refl])
      (simp_all add: dc_key_props(3) dc_start_lt [simplified])
qed (use assms(2) in simp)

interpretation plain: range_store "\<lambda>k step. allocate_segment lock db (fst k) (snd k) step"
  "\<lambda>k ld. next_free (plain_key k) 1 (committed (snd ld))"
  "\<lambda>ld. db_contract db working committed \<and> store_inv plain_key (committed (snd ld))"
  for lock db working committed
  by unfold_locales (use allocate_segment_step in blast)+

interpretation per_dc: range_store
  "\<lambda>k step. allocate_segment_with_dc lock db (fst k) (fst (snd k)) step (snd (snd k))"
  "\<lambda>k ld. next_free (dc_key k) (dc_start (snd (snd k))) (committed (snd ld))"
  "\<lambda>ld. db_contract db working committed \<and> store_inv dc_key (committed (snd ld))"
  for lock db working committed
  by unfold_locales (use allocate_segment_with_dc_step in blast)+

section \<open>A table\<close>

text \<open>
  A concrete database that meets the contract, used to show that it can hold: two row lists, and the
  faults to come, one per operation.
\<close>

record table_state =
  tb_committed :: "segment_row list"
  tb_working :: "segment_row list"
  tb_faults :: "bool list"

definition fails :: "table_state \<Rightarrow> bool" where
  "fails t = (tb_faults t \<noteq> [] \<and> hd (tb_faults t))"

definition next_fault :: "table_state \<Rightarrow> table_state" where
  "next_fault t = t\<lparr>tb_faults := tl (tb_faults t)\<rparr>"

definition table_op ::
  "(table_state \<Rightarrow> 'a) \<Rightarrow> (table_state \<Rightarrow> table_state) \<Rightarrow> table_state \<Rightarrow> (string + 'a) \<times> table_state" where
  "table_op answer effect t =
     (if fails t then (Inl ''connection lost'', next_fault t)
      else (Inr (answer t), next_fault (effect t)))"

definition fresh_id :: "segment_row list \<Rightarrow> int" where
  "fresh_id rows = fold max (map row_id rows) 0 + 1"

definition table_db :: "table_state segment_db" where
  "table_db =
     \<lparr>db_begin = (\<lambda>t. (if fails t then Inl ''connection lost'' else Inr (),
                       next_fault (t\<lparr>tb_working := tb_committed t\<rparr>))),
      db_find = (\<lambda>p. table_op (\<lambda>t. List.find p (tb_working t)) id),
      db_all = (\<lambda>p. table_op (\<lambda>t. filter p (tb_working t)) id),
      db_set_current = (\<lambda>p c. table_op (\<lambda>t. length (filter p (tb_working t)))
         (\<lambda>t. t\<lparr>tb_working := assign_current p c (tb_working t)\<rparr>)),
      db_insert = (\<lambda>r. table_op (\<lambda>t. r\<lparr>row_id := fresh_id (tb_working t)\<rparr>)
         (\<lambda>t. t\<lparr>tb_working := tb_working t @ [r\<lparr>row_id := fresh_id (tb_working t)\<rparr>]\<rparr>)),
      db_delete = (\<lambda>p. table_op (\<lambda>t. length (filter p (tb_working t)))
         (\<lambda>t. t\<lparr>tb_working := filter (\<lambda>r. \<not> p r) (tb_working t)\<rparr>)),
      db_commit = (\<lambda>t. if fails t
         then (Inl ''connection lost'', next_fault (t\<lparr>tb_working := tb_committed t\<rparr>))
         else (Inr (), next_fault (t\<lparr>tb_committed := tb_working t\<rparr>))),
      db_rollback = (\<lambda>t. t\<lparr>tb_working := tb_committed t\<rparr>)\<rparr>"

definition table_of :: "bool list \<Rightarrow> table_state" where
  "table_of faults = \<lparr>tb_committed = [], tb_working = [], tb_faults = faults\<rparr>"

lemma fold_max_ge: "(m::int) \<le> fold max xs m \<and> (\<forall>x \<in> set xs. x \<le> fold max xs m)"
  by (induction xs arbitrary: m) (auto, (meson max.boundedE)+)

lemma fresh_id_fresh: "fresh_id rows \<notin> row_id ` set rows"
  using fold_max_ge [of 0 "map row_id rows"] by (force simp: fresh_id_def)

lemma table_contract: "db_contract table_db tb_working tb_committed"
  unfolding db_contract_def table_db_def
  by (auto simp: table_op_def next_fault_def find_None_iff find_Some_iff split: option.split)
    (use fresh_id_fresh in blast)

lemma store_inv_empty: "store_inv p (tb_committed (table_of faults))"
  by (simp add: store_inv_def rows_ok_def unique_row_def table_of_def)

definition local_service :: "lock_table lock_service" where
  "local_service = \<lparr>ls_acquire = local_acquire, ls_release = guard_release\<rparr>"

declare run_allocs.simps [simp del]

section \<open>What allocation guarantees\<close>

text \<open>
  Allocations that run one after another: whatever fails, two successful ones for the same workspace
  and tag return ranges of which the later starts at or above the end of the earlier. Allocations that
  run at the same time are the subject of \<open>Segment_Race\<close>.
\<close>

theorem allocated_ranges_disjoint:
  assumes "db_contract db working committed" "store_inv plain_key (committed (snd ld))"
    and "\<forall>(k, step) \<in> set reqs. 0 \<le> step"
    and "run_allocs (\<lambda>k step. allocate_segment lock db (fst k) (snd k) step) reqs ld = (rs, ld')"
  shows "sorted_wrt range_before rs \<and>
    (\<forall>k i. (k, Inr i) \<in> set rs \<longrightarrow>
      next_free (plain_key k) 1 (committed (snd ld)) \<le> si_current_id i \<and>
      si_current_id i \<le> si_max_id i)"
  using plain.run_ordered [of db working committed ld, OF conjI [OF assms(1,2)] assms(3,4)] by blast

theorem allocated_ranges_disjoint_witness:
  "\<exists>a b. map snd (fst (run_allocs
       (\<lambda>k step. allocate_segment (Some local_service) table_db (fst k) (snd k) step)
       [((''w'', ''t''), 100), ((''w'', ''t''), 50)] (lock_table_new, table_of []))) = [Inr a, Inr b] \<and>
     si_current_id a = 1 \<and> si_max_id a = 101 \<and> si_max_id a \<le> si_current_id b \<and> si_max_id b = 151"
proof -
  let ?run = "run_allocs (\<lambda>k step. allocate_segment (Some local_service) table_db (fst k) (snd k) step)
       [((''w'', ''t''), 100), ((''w'', ''t''), 50)] (lock_table_new, table_of [])"
  let ?a = "\<lparr>si_id = 1, si_workspace_id = ''w'', si_biz_tag = ''t'', si_current_id = 1,
      si_max_id = 101, si_step = 100, si_delta = 1\<rparr>"
  let ?b = "\<lparr>si_id = 1, si_workspace_id = ''w'', si_biz_tag = ''t'', si_current_id = 101,
      si_max_id = 151, si_step = 100, si_delta = 1\<rparr>"
  have r: "fst ?run = [((''w'', ''t''), Inr ?a), ((''w'', ''t''), Inr ?b)]"
    by code_simp
  have "sorted_wrt range_before (fst ?run)"
    using allocated_ranges_disjoint [of table_db tb_working tb_committed "(lock_table_new, table_of [])",
        OF table_contract _ _ surjective_pairing] by (simp add: store_inv_empty)
  then have "si_max_id ?a \<le> si_current_id ?b" unfolding r by simp
  then show ?thesis unfolding r by simp
qed

text \<open>The same for the allocations of a data centre, whose rows are separate.\<close>

theorem dc_ranges_disjoint:
  assumes "db_contract db working committed" "store_inv dc_key (committed (snd ld))"
    and "\<forall>(k, step) \<in> set reqs. 0 \<le> step"
    and "run_allocs (\<lambda>k step. allocate_segment_with_dc lock db (fst k) (fst (snd k)) step (snd (snd k)))
        reqs ld = (rs, ld')"
  shows "sorted_wrt range_before rs \<and>
    (\<forall>k i. (k, Inr i) \<in> set rs \<longrightarrow>
      next_free (dc_key k) (dc_start (snd (snd k))) (committed (snd ld)) \<le> si_current_id i \<and>
      si_current_id i \<le> si_max_id i)"
  using per_dc.run_ordered [of db working committed ld, OF conjI [OF assms(1,2)] assms(3,4)] by blast

theorem dc_ranges_disjoint_witness:
  "sorted_wrt range_before (fst (run_allocs
     (\<lambda>k step. allocate_segment_with_dc (Some local_service) table_db (fst k) (fst (snd k)) step
       (snd (snd k)))
     [((''w'', ''t'', 3), 100), ((''w'', ''t'', 4), 100), ((''w'', ''t'', 3), 50)]
     (lock_table_new, table_of [])))"
  using dc_ranges_disjoint [of table_db tb_working tb_committed "(lock_table_new, table_of [])",
      OF table_contract _ _ surjective_pairing] by (simp add: store_inv_empty)

text \<open>How a client of any lock that keeps the contract behaves.\<close>

context distributed_lock
begin

definition service :: "'l lock_service" where
  "service = \<lparr>ls_acquire = acq, ls_release = rel\<rparr>"

lemma locked_taken:
  "held key (fst ld) \<Longrightarrow> \<exists>e. allocate_locked (Some service) key body ld = (Inl e, ld)"
  by (cases rule: acq_cases [of key "fst ld"]) (auto simp: allocate_locked_def service_def)

lemma locked_free:
  assumes "\<not> held key l" "body d = (res, d')"
  shows "\<exists>l'. allocate_locked (Some service) key body (l, d) = (res, l', d') \<and>
    (\<forall>k. held k l' \<longleftrightarrow> held k l \<or> k = key \<and> isl res)"
proof (cases rule: acq_cases [of key l])
  case (free l')
  with assms(2) show ?thesis
    by (cases res) (auto simp: allocate_locked_def service_def)
qed (use assms in simp)

lemma run_taken:
  assumes "\<And>k step. alloc k step = allocate_locked (Some service) (key k) (body k step)"
    and "held (key k) (fst ld)"
  shows "snd (run_allocs alloc (map (Pair k) steps) ld) = ld \<and>
    (\<forall>r \<in> set (fst (run_allocs alloc (map (Pair k) steps) ld)). isl (snd r))"
proof (induction steps)
  case (Cons step steps)
  obtain e where "alloc k step ld = (Inl e, ld)"
    using locked_taken [OF assms(2), of "body k step"] assms(1) [of k step] by auto
  with Cons.IH show ?case by (auto simp: run_allocs.simps split: prod.splits)
qed (simp add: run_allocs.simps)

end

lemma local_service_eq: "local.service = local_service"
  by (simp add: local.service_def local_service_def)

text \<open>
  C19. A database error after the lock was taken is passed on without releasing it, and the guard has no
  effect when it is dropped: from then on every allocation for this workspace and tag is refused
  without asking the database.
\<close>

theorem database_error_blocks_key:
  assumes "\<not> is_locked (segment_lock_key ws tag None) l"
    and "allocate_txn db (row_for ws tag) 1 0 ws tag step d = (Inl e, d')"
  shows "\<exists>l'. allocate_segment (Some local_service) db ws tag step (l, d) = (Inl e, l', d') \<and>
    (\<forall>steps d''. snd (run_allocs (\<lambda>k step. allocate_segment (Some local_service) db (fst k) (snd k) step)
          (map (Pair (ws, tag)) steps) (l', d'')) = (l', d'') \<and>
       (\<forall>r \<in> set (fst (run_allocs
            (\<lambda>k step. allocate_segment (Some local_service) db (fst k) (snd k) step)
            (map (Pair (ws, tag)) steps) (l', d''))). isl (snd r)))"
proof -
  obtain l' where l': "allocate_segment (Some local_service) db ws tag step (l, d) = (Inl e, l', d')"
    and held: "is_locked (segment_lock_key ws tag None) l'"
    using local.locked_free [where body = "allocate_txn db (row_for ws tag) 1 0 ws tag step", OF assms]
    unfolding local_service_eq allocate_segment_def by auto
  have "snd (run_allocs (\<lambda>k step. allocate_segment (Some local_service) db (fst k) (snd k) step)
          (map (Pair (ws, tag)) steps) (l', d'')) = (l', d'') \<and>
       (\<forall>r \<in> set (fst (run_allocs
            (\<lambda>k step. allocate_segment (Some local_service) db (fst k) (snd k) step)
            (map (Pair (ws, tag)) steps) (l', d''))). isl (snd r))" for steps d''
    by (rule local.run_taken [where key = "\<lambda>k. segment_lock_key (fst k) (snd k) None"])
      (simp_all add: local_service_eq allocate_segment_def held)
  with l' show ?thesis by blast
qed

theorem database_error_blocks_key_witness:
  "map (isl \<circ> snd) (fst (run_allocs
     (\<lambda>k step. allocate_segment (Some local_service) table_db (fst k) (snd k) step)
     [((''w'', ''t''), 100), ((''w'', ''t''), 100), ((''w'', ''t''), 100)]
     (lock_table_new, table_of [False, True]))) = [True, True, True]"
proof -
  let ?alloc = "\<lambda>k step. allocate_segment (Some local_service) table_db (fst k) (snd k) step"
  let ?d = "table_of [False, True]" and ?k = "(''w'', ''t'')"
  obtain res d' where t: "allocate_txn table_db (row_for ''w'' ''t'') 1 0 ''w'' ''t'' 100 ?d = (res, d')"
    by (cases "allocate_txn table_db (row_for ''w'' ''t'') 1 0 ''w'' ''t'' 100 ?d")
  have "isl (fst (allocate_txn table_db (row_for ''w'' ''t'') 1 0 ''w'' ''t'' 100 ?d))" by code_simp
  with t obtain e where "allocate_txn table_db (row_for ''w'' ''t'') 1 0 ''w'' ''t'' 100 ?d = (Inl e, d')"
    by (cases res) simp_all
  from database_error_blocks_key [OF _ this, of lock_table_new] obtain l' where
    first: "?alloc ?k 100 (lock_table_new, ?d) = (Inl e, l', d')"
    and "\<And>steps d''. \<forall>r \<in> set (fst (run_allocs ?alloc (map (Pair ?k) steps) (l', d''))). isl (snd r)"
    by auto
  then have rest: "\<forall>r \<in> set (fst (run_allocs ?alloc (map (Pair ?k) [100, 100]) (l', d'))). isl (snd r)"
    by blast
  obtain rs ld2 where r: "run_allocs ?alloc (map (Pair ?k) [100, 100]) (l', d') = (rs, ld2)"
    by (cases "run_allocs ?alloc (map (Pair ?k) [100, 100]) (l', d')")
  then obtain x y where "rs = [(?k, x), (?k, y)]" by (auto simp: run_allocs.simps split: prod.splits)
  then show ?thesis using first rest r by (simp add: run_allocs.simps split: prod.splits)
qed

end
