(* ===== verification/Segment_Race.thy ===== *)
theory Segment_Race
  imports Segment_Repo
begin

text \<open>
  Allocations that run at the same time: \<open>allocate_segment\<close> and \<open>allocate_segment_with_dc\<close> of
  \<open>src/src/core/database/repository.rs\<close> as tasks, on any number of nodes, whose calls of the lock and of
  the database interleave. The lock is a parameter, so that the theorems can say what a lock that
  excludes gives, and what the steps of the local lock of \<open>coordinator/local.rs\<close> do not. The database
  is a parameter as well: what it promises of the committed rows that all connections share.
\<close>

section \<open>The shared database\<close>

text \<open>
  \<open>sh_read\<close> opens the transaction and selects, \<open>sh_advance\<close> updates the counter of one row and commits,
  \<open>sh_insert\<close> inserts a row and commits. A failed write may have taken effect.
\<close>

record 'd shared_db =
  sh_read :: "(segment_row \<Rightarrow> bool) \<Rightarrow> 'd \<Rightarrow> (string + segment_row option) \<times> 'd"
  sh_advance :: "int \<Rightarrow> int \<Rightarrow> 'd \<Rightarrow> (string + unit) \<times> 'd"
  sh_insert :: "segment_row \<Rightarrow> 'd \<Rightarrow> (string + segment_row) \<times> 'd"

locale shared_table =
  fixes db :: "'d shared_db" and committed :: "'d \<Rightarrow> segment_row list"
  assumes read_keeps: "sh_read db p d = (x, d') \<Longrightarrow> committed d' = committed d"
    and read_some: "sh_read db p d = (Inr (Some r), d') \<Longrightarrow> r \<in> set (committed d) \<and> p r"
    and read_none: "sh_read db p d = (Inr None, d') \<Longrightarrow> r \<in> set (committed d) \<Longrightarrow> \<not> p r"
    and advance: "sh_advance db i c d = (y, d') \<Longrightarrow>
      committed d' = assign_current (\<lambda>r. row_id r = i) c (committed d) \<or>
      isl y \<and> committed d' = committed d"
    and insert_row: "sh_insert db r d = (z, d') \<Longrightarrow>
      (\<exists>i. i \<notin> row_id ` set (committed d) \<and> committed d' = committed d @ [r\<lparr>row_id := i\<rparr>] \<and>
         (\<forall>r'. z = Inr r' \<longrightarrow> r' = r\<lparr>row_id := i\<rparr>)) \<or>
      isl z \<and> committed d' = committed d"
begin

lemma advance_allocated:
  assumes "sh_advance db (row_id m) (advanced_id m step) d = (y, d')" "m \<in> set (committed d)" "p m"
    and "\<And>i. res = Inr i \<Longrightarrow> \<not> isl y \<and> i = advanced_info m step"
  shows "allocated p (row_current_id m) (sat_i64 (row_current_id m + step)) (committed d)
    (committed d') res"
  using advance [OF assms(1)] assms(2-4)
  by (auto simp: allocated_def advanced_def advanced_id_def advanced_info_def info_of_row_def)

lemma insert_allocated:
  assumes "sh_insert db (first_segment start dc ws tag step) d = (z, d')"
    and "\<And>r. r \<in> set (committed d) \<Longrightarrow> \<not> p r"
    and "\<And>i. p ((first_segment start dc ws tag step)\<lparr>row_id := i\<rparr>)"
    and "\<And>i. res = Inr i \<Longrightarrow> \<exists>n. z = Inr n \<and> i = first_info start step n"
  shows "allocated p start (sat_i64 (start + step)) (committed d) (committed d') res"
proof -
  have adv: "advanced p (sat_i64 (start + step)) (committed d)
      (committed d @ [(first_segment start dc ws tag step)\<lparr>row_id := i\<rparr>])"
    if "i \<notin> row_id ` set (committed d)" for i
    using that assms(2,3) by (auto simp: advanced_def first_segment_def Let_def)
  show ?thesis
    using insert_row [OF assms(1)] assms(4) adv
    by (auto simp: allocated_def first_info_def)
qed

end

section \<open>The tasks\<close>

record alloc_request =
  aq_workspace_id :: string
  aq_biz_tag :: string
  aq_step :: int
  aq_dc :: "int option"

definition request_key :: "alloc_request \<Rightarrow> string" where
  "request_key a = segment_lock_key (aq_workspace_id a) (aq_biz_tag a) (aq_dc a)"

definition request_row :: "alloc_request \<Rightarrow> segment_row \<Rightarrow> bool" where
  "request_row a =
     (case aq_dc a of
        None \<Rightarrow> row_for (aq_workspace_id a) (aq_biz_tag a)
      | Some dc \<Rightarrow> row_for_dc (aq_workspace_id a) (aq_biz_tag a) dc)"

definition request_start :: "alloc_request \<Rightarrow> int" where
  "request_start a = (case aq_dc a of None \<Rightarrow> 1 | Some dc \<Rightarrow> wrap_i64 (dc * 1000000000000 + 1))"

definition request_first :: "alloc_request \<Rightarrow> segment_row" where
  "request_first a =
     first_segment (request_start a) (case aq_dc a of None \<Rightarrow> 0 | Some dc \<Rightarrow> dc)
       (aq_workspace_id a) (aq_biz_tag a) (aq_step a)"

text \<open>
  How far a task is with its work: it has not asked the database, it has read its row, its transaction
  is committed, it has returned an error.
\<close>

datatype work = Idle | Found "segment_row option" | Granted segment_info | Broken

record ('l, 'd) alloc_system =
  sys_locks :: 'l
  sys_db :: 'd
  sys_tasks :: "nat \<Rightarrow> lock_point \<times> work"
  sys_returns :: "(nat \<times> segment_info res) list"

definition lock_refused :: "lock_error \<Rightarrow> core_error" where
  "lock_refused e =
     InternalError (''Failed to acquire distributed lock for segment allocation: '' @ lock_error_text e)"

text \<open>
  One step of task \<open>t\<close>. An acquisition may take several steps of the lock; an error after it returns
  with the lock still taken; the guard is released after the commit, and the range is then returned.
\<close>

inductive request_step ::
  "('l \<Rightarrow> lock_point \<Rightarrow> 'l \<Rightarrow> lock_point \<Rightarrow> bool) \<Rightarrow> 'd shared_db \<Rightarrow> (nat \<Rightarrow> alloc_request) \<Rightarrow> nat \<Rightarrow>
   ('l, 'd) alloc_system \<Rightarrow> ('l, 'd) alloc_system \<Rightarrow> bool" for ls db req t where
  acquiring: "k = request_key (req t) \<Longrightarrow> sys_tasks s t = (q, Idle) \<Longrightarrow> q \<in> {Start k, Tested k} \<Longrightarrow>
    ls (sys_locks s) q l' p \<Longrightarrow> p \<in> {Tested k, Holds k} \<Longrightarrow>
    request_step ls db req t s (s\<lparr>sys_locks := l', sys_tasks := (sys_tasks s)(t := (p, Idle))\<rparr>)"
| refused: "k = request_key (req t) \<Longrightarrow> sys_tasks s t = (q, Idle) \<Longrightarrow> q \<in> {Start k, Tested k} \<Longrightarrow>
    ls (sys_locks s) q l' (Refused k) \<Longrightarrow>
    request_step ls db req t s (s\<lparr>sys_locks := l', sys_tasks := (sys_tasks s)(t := (Refused k, Broken)),
      sys_returns := sys_returns s @ [(t, Inl (lock_refused e))]\<rparr>)"
| read: "sys_tasks s t = (Holds k, Idle) \<Longrightarrow>
    sh_read db (request_row (req t)) (sys_db s) = (Inr r, d') \<Longrightarrow>
    request_step ls db req t s (s\<lparr>sys_db := d', sys_tasks := (sys_tasks s)(t := (Holds k, Found r))\<rparr>)"
| read_fails: "sys_tasks s t = (Holds k, Idle) \<Longrightarrow>
    sh_read db (request_row (req t)) (sys_db s) = (Inl e, d') \<Longrightarrow>
    request_step ls db req t s (s\<lparr>sys_db := d', sys_tasks := (sys_tasks s)(t := (Holds k, Broken)),
      sys_returns := sys_returns s @ [(t, Inl (DatabaseError e))]\<rparr>)"
| advanced: "sys_tasks s t = (Holds k, Found (Some m)) \<Longrightarrow>
    sh_advance db (row_id m) (advanced_id m (aq_step (req t))) (sys_db s) = (Inr u, d') \<Longrightarrow>
    request_step ls db req t s (s\<lparr>sys_db := d',
      sys_tasks := (sys_tasks s)(t := (Holds k, Granted (advanced_info m (aq_step (req t)))))\<rparr>)"
| advance_fails: "sys_tasks s t = (Holds k, Found (Some m)) \<Longrightarrow>
    sh_advance db (row_id m) (advanced_id m (aq_step (req t))) (sys_db s) = (Inl e, d') \<Longrightarrow>
    request_step ls db req t s (s\<lparr>sys_db := d', sys_tasks := (sys_tasks s)(t := (Holds k, Broken)),
      sys_returns := sys_returns s @ [(t, Inl (DatabaseError e))]\<rparr>)"
| inserted: "sys_tasks s t = (Holds k, Found None) \<Longrightarrow>
    sh_insert db (request_first (req t)) (sys_db s) = (Inr n, d') \<Longrightarrow>
    request_step ls db req t s (s\<lparr>sys_db := d', sys_tasks := (sys_tasks s)(t :=
      (Holds k, Granted (first_info (request_start (req t)) (aq_step (req t)) n)))\<rparr>)"
| insert_fails: "sys_tasks s t = (Holds k, Found None) \<Longrightarrow>
    sh_insert db (request_first (req t)) (sys_db s) = (Inl e, d') \<Longrightarrow>
    request_step ls db req t s (s\<lparr>sys_db := d', sys_tasks := (sys_tasks s)(t := (Holds k, Broken)),
      sys_returns := sys_returns s @ [(t, Inl (DatabaseError e))]\<rparr>)"
| returned: "sys_tasks s t = (Holds k, Granted i) \<Longrightarrow> ls (sys_locks s) (Holds k) l' (Released k) \<Longrightarrow>
    request_step ls db req t s (s\<lparr>sys_locks := l', sys_tasks := (sys_tasks s)(t := (Released k, Granted i)),
      sys_returns := sys_returns s @ [(t, Inr i)]\<rparr>)"

definition system_start :: "(nat \<Rightarrow> alloc_request) \<Rightarrow> 'l \<Rightarrow> 'd \<Rightarrow> ('l, 'd) alloc_system" where
  "system_start req l0 d0 =
     \<lparr>sys_locks = l0, sys_db = d0, sys_tasks = (\<lambda>t. (Start (request_key (req t)), Idle)),
      sys_returns = []\<rparr>"

inductive system_reachable ::
  "('l \<Rightarrow> lock_point \<Rightarrow> 'l \<Rightarrow> lock_point \<Rightarrow> bool) \<Rightarrow> 'd shared_db \<Rightarrow> (nat \<Rightarrow> alloc_request) \<Rightarrow> 'l \<Rightarrow> 'd \<Rightarrow>
   ('l, 'd) alloc_system \<Rightarrow> bool" for ls db req l0 d0 where
  at_start: "system_reachable ls db req l0 d0 (system_start req l0 d0)"
| moved: "system_reachable ls db req l0 d0 s \<Longrightarrow> request_step ls db req t s s' \<Longrightarrow>
    system_reachable ls db req l0 d0 s'"

section \<open>What a lock that excludes gives\<close>

definition points :: "('l, 'd) alloc_system \<Rightarrow> nat \<Rightarrow> lock_point" where
  "points s = (\<lambda>t. fst (sys_tasks s t))"

lemma step_points:
  assumes "request_step ls db req t s s'"
  shows "sys_locks s' = sys_locks s \<and> points s' = points s \<or>
     (\<exists>p. ls (sys_locks s) (points s t) (sys_locks s') p \<and> points s' = (points s)(t := p))"
  using assms
proof cases
  case (acquiring k q l' p)
  then show ?thesis by (intro disjI2 exI [of _ p]) (auto simp: points_def)
next
  case (refused k q l' e)
  then show ?thesis by (intro disjI2 exI [of _ "Refused k"]) (auto simp: points_def)
next
  case (returned k i l')
  then show ?thesis by (intro disjI2 exI [of _ "Released k"]) (auto simp: points_def)
qed (auto simp: points_def fun_eq_iff)

lemma reachable_locks:
  "system_reachable ls db req l0 d0 s \<Longrightarrow>
     lock_reachable ls l0 (\<lambda>t. Start (request_key (req t))) (sys_locks s) (points s)"
proof (induction rule: system_reachable.induct)
  case at_start
  then show ?case by (simp add: system_start_def points_def lock_reachable.initial)
next
  case (moved s t s')
  from step_points [OF moved.hyps(2)] show ?case
    using moved.IH lock_reachable.step [OF moved.IH] by metis
qed

definition excluding :: "('l, 'd) alloc_system \<Rightarrow> bool" where
  "excluding s \<longleftrightarrow> (\<forall>t u k. points s t = Holds k \<longrightarrow> points s u = Holds k \<longrightarrow> t = u)"

lemma reachable_excluding:
  "lock_excludes ls l0 \<Longrightarrow> system_reachable ls db req l0 d0 s \<Longrightarrow> excluding s"
  unfolding lock_excludes_def excluding_def
  using reachable_locks [of ls db req l0 d0 s] by (metis (no_types, lifting))

locale alloc_family =
  fixes key :: "nat \<Rightarrow> 'k" and p :: "'k \<Rightarrow> segment_row \<Rightarrow> bool" and start :: "'k \<Rightarrow> int"
    and req :: "nat \<Rightarrow> alloc_request"
  assumes key_pred: "key_pred (p k)"
    and apart: "k \<noteq> k' \<Longrightarrow> \<not> (p k r \<and> p k' r)"
    and start_lt: "start k < 2 ^ 63"
    and step_ge: "0 \<le> aq_step (req t)"
    and own_row: "request_row (req t) = p (key t)"
    and own_start: "request_start (req t) = start (key t)"
    and own_first: "p (key t) (request_first (req t))"
    and own_key: "key t = key u \<Longrightarrow> request_key (req t) = request_key (req u)"
begin

definition free_id :: "segment_row list \<Rightarrow> nat \<Rightarrow> int" where
  "free_id rows t = next_free (p (key t)) (start (key t)) rows"

definition work_ok :: "('l, 'd) alloc_system \<Rightarrow> segment_row list \<Rightarrow> (nat \<Rightarrow> int) \<Rightarrow> bool" where
  "work_ok s rows lo \<longleftrightarrow>
     (\<forall>t q r. sys_tasks s t = (q, Found r) \<longrightarrow>
        q = Holds (request_key (req t)) \<and>
        (case r of Some m \<Rightarrow> m \<in> set rows \<and> p (key t) m | None \<Rightarrow> \<forall>m \<in> set rows. \<not> p (key t) m)) \<and>
     (\<forall>t k i. sys_tasks s t = (Holds k, Granted i) \<longrightarrow>
        k = request_key (req t) \<and> lo t \<le> si_current_id i \<and> si_current_id i \<le> si_max_id i \<and>
        si_max_id i \<le> free_id rows t \<and>
        (\<forall>u j. (u, Inr j) \<in> set (sys_returns s) \<longrightarrow> key u = key t \<longrightarrow> si_max_id j \<le> si_current_id i)) \<and>
     (\<forall>t k. fst (sys_tasks s t) = Holds k \<longrightarrow> k = request_key (req t))"

definition returns_ok :: "(nat \<times> segment_info res) list \<Rightarrow> segment_row list \<Rightarrow> (nat \<Rightarrow> int) \<Rightarrow> bool" where
  "returns_ok rets rows lo \<longleftrightarrow>
     (\<forall>t i. (t, Inr i) \<in> set rets \<longrightarrow>
        lo t \<le> si_current_id i \<and> si_current_id i \<le> si_max_id i \<and> si_max_id i \<le> free_id rows t) \<and>
     sorted_wrt range_before (map (\<lambda>(t, r). (key t, r)) rets)"

definition system_inv :: "('d \<Rightarrow> segment_row list) \<Rightarrow> (nat \<Rightarrow> int) \<Rightarrow> ('l, 'd) alloc_system \<Rightarrow> bool" where
  "system_inv committed lo s \<longleftrightarrow>
     store_inv p (committed (sys_db s)) \<and> (\<forall>t. lo t \<le> free_id (committed (sys_db s)) t) \<and>
     work_ok s (committed (sys_db s)) lo \<and> returns_ok (sys_returns s) (committed (sys_db s)) lo"

lemma system_invD:
  assumes "system_inv committed lo s"
  shows "store_inv p (committed (sys_db s))" "lo t \<le> free_id (committed (sys_db s)) t"
    "work_ok s (committed (sys_db s)) lo" "returns_ok (sys_returns s) (committed (sys_db s)) lo"
  using assms by (simp_all add: system_inv_def)

lemma returns_ok_error: "returns_ok (rets @ [(t, Inl e)]) rows lo = returns_ok rets rows lo"
proof -
  have "range_before x (key t, Inl e)" for x :: "'k \<times> segment_info res"
    by (cases x; cases "snd x") auto
  then show ?thesis by (auto simp: returns_ok_def sorted_wrt_append)
qed

text \<open>A step that leaves the committed rows alone, and moves one task to where it holds nothing new.\<close>

lemma inv_keep:
  assumes "system_inv committed lo s" "committed d' = committed (sys_db s)"
    and "\<And>k. q = Holds k \<Longrightarrow> k = request_key (req t)"
    and "w = Idle \<or> w = Broken \<or> (\<exists>k i. q = Released k \<and> w = Granted i)"
    and "e = [] \<or> (\<exists>x. e = [(t, Inl x)])"
  shows "system_inv committed lo (s\<lparr>sys_locks := l', sys_db := d', sys_tasks := (sys_tasks s)(t := (q, w)),
    sys_returns := sys_returns s @ e\<rparr>)"
proof -
  have "returns_ok (sys_returns s @ e) (committed (sys_db s)) lo"
    using assms(5) system_invD(4) [OF assms(1)] returns_ok_error by auto
  moreover have "(u, Inr j) \<in> set (sys_returns s @ e) \<longleftrightarrow> (u, Inr j) \<in> set (sys_returns s)" for u j
    using assms(5) by auto
  ultimately show ?thesis
    using assms(1-4) by (auto simp: system_inv_def work_ok_def)
qed

text \<open>What a task of another key sees of a write.\<close>

lemma advanced_found:
  assumes "advanced q c rows rows'" "rows_ok rows" "\<And>r. \<not> (q r \<and> p k r)"
  shows "m \<in> set rows \<Longrightarrow> p k m \<Longrightarrow> m \<in> set rows'"
    and "\<forall>m \<in> set rows. \<not> p k m \<Longrightarrow> \<forall>m \<in> set rows'. \<not> p k m"
proof -
  consider (row) r where "r \<in> set rows" "q r" "rows' = assign_current (\<lambda>x. row_id x = row_id r) c rows"
    | (new) n where "q n" "rows' = rows @ [n]"
    using assms(1) by (auto simp: advanced_def)
  then have both: "(m \<in> set rows \<longrightarrow> p k m \<longrightarrow> m \<in> set rows') \<and>
      ((\<forall>m \<in> set rows. \<not> p k m) \<longrightarrow> (\<forall>m \<in> set rows'. \<not> p k m))"
  proof cases
    case row
    have "row_id m \<noteq> row_id r" if "m \<in> set rows" "p k m"
      using row_id_inj [OF _ that(1) row(1)] assms(2,3) row(2) that by (auto simp: rows_ok_def)
    then have "m \<in> set rows'" if "m \<in> set rows" "p k m"
      using that by (force simp: row(3) set_set_current)
    moreover have "p k (x\<lparr>row_current_id := c\<rparr>) = p k x" for x
      using key_pred [of k] by (simp add: key_pred_def)
    ultimately show ?thesis by (auto simp: row(3) set_set_current)
  next
    case new
    with assms(3) show ?thesis by auto
  qed
  show "m \<in> set rows \<Longrightarrow> p k m \<Longrightarrow> m \<in> set rows'"
    and "\<forall>m \<in> set rows. \<not> p k m \<Longrightarrow> \<forall>m \<in> set rows'. \<not> p k m"
    using both by blast+
qed

lemma inv_write:
  fixes s :: "('l, 'd) alloc_system" and committed :: "'d \<Rightarrow> segment_row list"
  defines "rows \<equiv> committed (sys_db s)"
  assumes inv: "system_inv committed lo s" and excl: "excluding s"
    and here: "sys_tasks s t = (Holds (request_key (req t)), Found r)"
    and post: "allocated (p (key t)) c (sat_i64 (c + aq_step (req t))) rows (committed d') res"
      "c = free_id rows t"
    and upd: "w = Broken \<and> (\<exists>x. e = [(t, Inl x)]) \<or> (\<exists>i. res = Inr i \<and> w = Granted i \<and> e = [])"
  shows "system_inv committed lo (s\<lparr>sys_db := d',
    sys_tasks := (sys_tasks s)(t := (Holds (request_key (req t)), w)), sys_returns := sys_returns s @ e\<rparr>)"
proof -
  define rows' where "rows' = committed d'"
  note st = system_invD(1) [OF inv, folded rows_def] and lo = system_invD(2) [OF inv, folded rows_def]
    and wk = system_invD(3) [OF inv, folded rows_def] and rt = system_invD(4) [OF inv, folded rows_def]
  have step: "store_inv p rows' \<and> free_id rows u \<le> free_id rows' u \<and>
      (\<forall>i. res = Inr i \<longrightarrow> si_current_id i = free_id rows t \<and> si_max_id i = free_id rows' t)" for u
    using allocated_step [where start = start and k = "key t" and k' = "key u",
        OF key_pred apart start_lt st step_ge post [folded rows'_def, unfolded free_id_def]]
    unfolding free_id_def by blast
  have other: "u = t" if "points s u = Holds (request_key (req t))" for u
    using excl here that unfolding excluding_def points_def by (metis fst_conv)
  have found: "case r' of Some m \<Rightarrow> m \<in> set rows' \<and> p (key u) m | None \<Rightarrow> \<forall>m \<in> set rows'. \<not> p (key u) m"
    if "u \<noteq> t" "sys_tasks s u = (q, Found r')" for u q r'
  proof -
    have q: "q = Holds (request_key (req u))"
      and old: "case r' of Some m \<Rightarrow> m \<in> set rows \<and> p (key u) m | None \<Rightarrow> \<forall>m \<in> set rows. \<not> p (key u) m"
      using wk that(2) unfolding work_ok_def by blast+
    have "key u \<noteq> key t"
      using other [of u] that q own_key [of u t] by (auto simp: points_def)
    then have apart': "\<not> (p (key t) x \<and> p (key u) x)" for x
      using apart [of "key t" "key u" x] by metis
    have "rows' = rows \<or> advanced (p (key t)) (sat_i64 (c + aq_step (req t))) rows rows'"
      using post(1) by (simp add: allocated_def rows'_def)
    then show ?thesis
    proof
      assume "rows' = rows"
      show ?thesis unfolding \<open>rows' = rows\<close> by (rule old)
    next
      assume "advanced (p (key t)) (sat_i64 (c + aq_step (req t))) rows rows'"
      note keeps = advanced_found [OF this store_invD(1) [OF st] apart']
      show ?thesis
      proof (cases r')
        case None
        with old keeps(2) show ?thesis by simp
      next
        case (Some m)
        with old keeps(1) [of m] show ?thesis by simp
      qed
    qed
  qed
  have rets: "(u, Inr j) \<in> set (sys_returns s @ e) \<longleftrightarrow> (u, Inr j) \<in> set (sys_returns s)" for u j
    using upd by auto
  have bounds: "lo u \<le> si_current_id j \<and> si_current_id j \<le> si_max_id j \<and> si_max_id j \<le> free_id rows u"
    if "(u, Inr j) \<in> set (sys_returns s)" for u j
    using rt that unfolding returns_ok_def by blast
  have mono: "x \<le> free_id rows u \<Longrightarrow> x \<le> free_id rows' u" for x u
    using step [of u] by linarith
  have same: "free_id rows u = free_id rows t" if "key u = key t" for u
    using that by (simp add: free_id_def)
  let ?s' = "s\<lparr>sys_db := d', sys_tasks := (sys_tasks s)(t := (Holds (request_key (req t)), w)),
    sys_returns := sys_returns s @ e\<rparr>"
  have mine: "lo t \<le> si_current_id i \<and> si_current_id i \<le> si_max_id i \<and> si_max_id i \<le> free_id rows' t \<and>
      (\<forall>u j. (u, Inr j) \<in> set (sys_returns s) \<longrightarrow> key u = key t \<longrightarrow> si_max_id j \<le> si_current_id i)"
    if "w = Granted i" for i
  proof -
    have i: "si_current_id i = free_id rows t" "si_max_id i = free_id rows' t"
      using upd step that by auto
    have "si_max_id j \<le> si_current_id i" if "(u, Inr j) \<in> set (sys_returns s)" "key u = key t" for u j
      using bounds [OF that(1)] same [OF that(2)] i by simp
    then show ?thesis using i lo [of t] step [of t] by simp
  qed
  have "work_ok ?s' rows' lo"
    unfolding work_ok_def
  proof (intro conjI allI impI)
    fix u q r'
    assume "sys_tasks ?s' u = (q, Found r')"
    then have "u \<noteq> t" "sys_tasks s u = (q, Found r')"
      using upd by (auto split: if_splits)
    with found [OF this] wk show "q = Holds (request_key (req u))"
      "case r' of Some m \<Rightarrow> m \<in> set rows' \<and> p (key u) m | None \<Rightarrow> \<forall>m \<in> set rows'. \<not> p (key u) m"
      unfolding work_ok_def by blast+
  next
    fix u k i
    assume "sys_tasks ?s' u = (Holds k, Granted i)"
    then have "u = t \<and> k = request_key (req t) \<and> w = Granted i \<or> u \<noteq> t \<and> sys_tasks s u = (Holds k, Granted i)"
      by (auto split: if_splits)
    then have g: "k = request_key (req u) \<and> lo u \<le> si_current_id i \<and> si_current_id i \<le> si_max_id i \<and>
        si_max_id i \<le> free_id rows' u \<and>
        (\<forall>v j. (v, Inr j) \<in> set (sys_returns s) \<longrightarrow> key v = key u \<longrightarrow> si_max_id j \<le> si_current_id i)"
    proof
      assume "u \<noteq> t \<and> sys_tasks s u = (Holds k, Granted i)"
      then show ?thesis using wk mono unfolding work_ok_def by blast
    qed (use mine in blast)
    then show "k = request_key (req u)" "lo u \<le> si_current_id i" "si_current_id i \<le> si_max_id i"
      "si_max_id i \<le> free_id rows' u" by blast+
    fix v j
    assume "(v, Inr j) \<in> set (sys_returns ?s')" "key v = key u"
    then show "si_max_id j \<le> si_current_id i" using g rets by simp
  next
    fix u k
    assume "fst (sys_tasks ?s' u) = Holds k"
    then show "k = request_key (req u)"
      using wk unfolding work_ok_def by (auto split: if_splits)
  qed
  moreover have "returns_ok (sys_returns s) rows' lo"
    using rt mono unfolding returns_ok_def by blast
  then have "returns_ok (sys_returns s @ e) rows' lo"
    using upd returns_ok_error by auto
  moreover have "lo u \<le> free_id rows' u" for u
    using lo mono by blast
  ultimately show ?thesis
    using step by (simp add: system_inv_def rows'_def)
qed

lemma inv_step:
  fixes committed :: "'d \<Rightarrow> segment_row list"
  assumes "shared_table db committed" and inv: "system_inv committed lo s" and excl: "excluding s"
    and "request_step ls db req t s s'"
  shows "system_inv committed lo s'"
  using assms(4)
proof cases
  case (acquiring k q l' p)
  then show ?thesis
    using inv_keep [OF inv refl, where q = p and t = t and w = Idle and e = "[]" and l' = l'] by auto
next
  case (refused k q l' e)
  then show ?thesis
    using inv_keep [OF inv refl, where q = "Refused k" and t = t and w = Broken and l' = l'
        and e = "[(t, Inl (lock_refused e))]"] by simp
next
  case (read k r d')
  note same = shared_table.read_keeps [OF assms(1) read(3)]
  have "m \<in> set (committed (sys_db s)) \<and> p (key t) m" if "r = Some m" for m
    using shared_table.read_some [OF assms(1)] read(3) that own_row by auto
  moreover have "\<not> p (key t) m" if "r = None" "m \<in> set (committed (sys_db s))" for m
    using shared_table.read_none [OF assms(1) _ that(2)] read(3) that(1) own_row by auto
  moreover have "k = request_key (req t)"
    using inv read(2) by (auto simp: system_inv_def work_ok_def)
  ultimately show ?thesis
    using inv unfolding read(1)
    by (auto simp: system_inv_def work_ok_def same split: option.split)
next
  case (read_fails k e d')
  have "k = request_key (req t)"
    using inv read_fails(2) by (auto simp: system_inv_def work_ok_def)
  then show ?thesis
    using inv_keep [OF inv shared_table.read_keeps [OF assms(1) read_fails(3)], where q = "Holds k"
        and t = t and w = Broken and l' = "sys_locks s" and e = "[(t, Inl (DatabaseError e))]"]
      read_fails by simp
next
  case (advanced k m u d')
  have k: "k = request_key (req t)" and m: "m \<in> set (committed (sys_db s))" "p (key t) m"
    using inv advanced(2) by (fastforce simp: system_inv_def work_ok_def)+
  have c: "row_current_id m = free_id (committed (sys_db s)) t"
    using next_free_row [OF store_invD(2) [OF system_invD(1) [OF inv]] m] by (simp add: free_id_def)
  let ?i = "advanced_info m (aq_step (req t))"
  have "allocated (p (key t)) (row_current_id m) (sat_i64 (row_current_id m + aq_step (req t)))
      (committed (sys_db s)) (committed d') (Inr ?i)"
    by (rule shared_table.advance_allocated [where p = "p (key t)", OF assms(1) advanced(3) m]) auto
  from inv_write [OF inv excl _ this c, where w = "Granted ?i" and e = "[]"]
  show ?thesis using advanced(1,2) k by auto
next
  case (advance_fails k m e d')
  have k: "k = request_key (req t)" and m: "m \<in> set (committed (sys_db s))" "p (key t) m"
    using inv advance_fails(2) by (fastforce simp: system_inv_def work_ok_def)+
  have c: "row_current_id m = free_id (committed (sys_db s)) t"
    using next_free_row [OF store_invD(2) [OF system_invD(1) [OF inv]] m] by (simp add: free_id_def)
  have "allocated (p (key t)) (row_current_id m) (sat_i64 (row_current_id m + aq_step (req t)))
      (committed (sys_db s)) (committed d') (Inl (DatabaseError e))"
    by (rule shared_table.advance_allocated [where p = "p (key t)", OF assms(1) advance_fails(3) m]) auto
  from inv_write [OF inv excl _ this c, where w = Broken and e = "[(t, Inl (DatabaseError e))]"]
  show ?thesis using advance_fails(1,2) k by auto
next
  case (inserted k n d')
  have k: "k = request_key (req t)" and none: "\<And>m. m \<in> set (committed (sys_db s)) \<Longrightarrow> \<not> p (key t) m"
    using inv inserted(2) by (fastforce simp: system_inv_def work_ok_def)+
  have c: "request_start (req t) = free_id (committed (sys_db s)) t"
    using next_free_none none by (simp add: free_id_def own_start)
  have first: "p (key t) ((request_first (req t))\<lparr>row_id := i\<rparr>)" for i
    using own_first key_pred by (simp add: key_pred_def)
  let ?i = "first_info (request_start (req t)) (aq_step (req t)) n"
  have "allocated (p (key t)) (request_start (req t)) (sat_i64 (request_start (req t) + aq_step (req t)))
      (committed (sys_db s)) (committed d') (Inr ?i)"
    by (rule shared_table.insert_allocated [where p = "p (key t)", OF assms(1) inserted(3) [unfolded request_first_def] none
        first [unfolded request_first_def]]) auto
  from inv_write [OF inv excl _ this c, where w = "Granted ?i" and e = "[]"]
  show ?thesis using inserted(1,2) k by auto
next
  case (insert_fails k e d')
  have k: "k = request_key (req t)" and none: "\<And>m. m \<in> set (committed (sys_db s)) \<Longrightarrow> \<not> p (key t) m"
    using inv insert_fails(2) by (fastforce simp: system_inv_def work_ok_def)+
  have c: "request_start (req t) = free_id (committed (sys_db s)) t"
    using next_free_none none by (simp add: free_id_def own_start)
  have first: "p (key t) ((request_first (req t))\<lparr>row_id := i\<rparr>)" for i
    using own_first key_pred by (simp add: key_pred_def)
  have "allocated (p (key t)) (request_start (req t)) (sat_i64 (request_start (req t) + aq_step (req t)))
      (committed (sys_db s)) (committed d') (Inl (DatabaseError e))"
    by (rule shared_table.insert_allocated [where p = "p (key t)", OF assms(1) insert_fails(3) [unfolded request_first_def] none
        first [unfolded request_first_def]]) auto
  from inv_write [OF inv excl _ this c, where w = Broken and e = "[(t, Inl (DatabaseError e))]"]
  show ?thesis using insert_fails(1,2) k by auto
next
  case (returned k i l')
  note wk = system_invD(3) [OF inv] and rt = system_invD(4) [OF inv]
  have i: "k = request_key (req t)" "lo t \<le> si_current_id i" "si_current_id i \<le> si_max_id i"
    "si_max_id i \<le> free_id (committed (sys_db s)) t"
    "\<And>u j. (u, Inr j) \<in> set (sys_returns s) \<Longrightarrow> key u = key t \<Longrightarrow> si_max_id j \<le> si_current_id i"
    using wk returned(2) unfolding work_ok_def by blast+
  have other: "key u \<noteq> key t" if "u \<noteq> t" "sys_tasks s u = (Holds k', Granted j)" for u k' j
  proof
    assume "key u = key t"
    then have "k' = k"
      using wk that(2) i(1) own_key [of u t] unfolding work_ok_def by metis
    then show False
      using excl returned(2) that unfolding excluding_def points_def by (metis fst_conv)
  qed
  have "range_before (key u, r) (key t, Inr i)" if "(u, r) \<in> set (sys_returns s)" for u r
    using i(5) [of u] that by (cases r) auto
  then have "returns_ok (sys_returns s @ [(t, Inr i)]) (committed (sys_db s)) lo"
    using rt i by (auto simp: returns_ok_def sorted_wrt_append)
  moreover have "work_ok s' (committed (sys_db s)) lo"
    using wk other other [THEN not_sym] unfolding returned(1) work_ok_def by auto
  ultimately show ?thesis
    using inv unfolding returned(1) by (simp add: system_inv_def)
qed

lemma reachable_inv:
  assumes "shared_table db committed" "lock_excludes ls l0" "store_inv p (committed d0)"
    and "system_reachable ls db req l0 d0 s"
  shows "system_inv committed (free_id (committed d0)) s"
  using assms(4)
proof (induction rule: system_reachable.induct)
  case at_start
  show ?case
    using assms(3) by (simp add: system_inv_def system_start_def work_ok_def returns_ok_def)
next
  case (moved s t s')
  show ?case
    by (rule inv_step [OF assms(1) moved.IH reachable_excluding [OF assms(2) moved.hyps(1)] moved.hyps(2)])
qed

lemma reachable_returns:
  assumes "shared_table db committed" "lock_excludes ls l0" "store_inv p (committed d0)"
    and "system_reachable ls db req l0 d0 s"
  shows "sorted_wrt range_before (map (\<lambda>(t, r). (key t, r)) (sys_returns s)) \<and>
    (\<forall>t i. (t, Inr i) \<in> set (sys_returns s) \<longrightarrow>
       next_free (p (key t)) (start (key t)) (committed d0) \<le> si_current_id i \<and>
       si_current_id i \<le> si_max_id i \<and> si_max_id i < 2 ^ 63)"
proof -
  note inv = reachable_inv [OF assms]
  have "free_id (committed (sys_db s)) t < 2 ^ 63" for t
    using store_invD(1) [OF system_invD(1) [OF inv]] start_lt [of "key t"]
    by (auto simp: free_id_def next_free_def rows_ok_def find_Some_iff split: option.split)
  then show ?thesis
    using system_invD(4) [OF inv] unfolding returns_ok_def free_id_def by (meson le_less_trans)
qed

end

text \<open>Requests that all name a data centre, and requests of which none does, are such families.\<close>

definition plain_request_key :: "alloc_request \<Rightarrow> string \<times> string" where
  "plain_request_key a = (aq_workspace_id a, aq_biz_tag a)"

definition dc_request_key :: "alloc_request \<Rightarrow> string \<times> string \<times> int" where
  "dc_request_key a =
     (aq_workspace_id a, aq_biz_tag a, case aq_dc a of None \<Rightarrow> 0 | Some dc \<Rightarrow> dc)"

lemma plain_family:
  assumes "\<And>t. aq_dc (req t) = None \<and> 0 \<le> aq_step (req t)"
  shows "alloc_family (\<lambda>t. plain_request_key (req t)) plain_key (\<lambda>_. 1) req"
  using assms
  by unfold_locales
    (auto simp: plain_key_props plain_key_def plain_request_key_def request_row_def request_start_def
      request_first_def first_segment_def row_for_def request_key_def Let_def prod_eq_iff)

lemma dc_family:
  assumes "\<And>t. aq_dc (req t) \<noteq> None \<and> 0 \<le> aq_step (req t)"
  shows "alloc_family (\<lambda>t. dc_request_key (req t)) dc_key (\<lambda>k. dc_start (snd (snd k))) req"
proof
  fix t u
  obtain dc where dc: "aq_dc (req t) = Some dc" using assms [of t] by blast
  show "0 \<le> aq_step (req t)" using assms by blast
  show "request_row (req t) = dc_key (dc_request_key (req t))"
    "request_start (req t) = dc_start (snd (snd (dc_request_key (req t))))"
    "dc_key (dc_request_key (req t)) (request_first (req t))"
    by (simp_all add: dc request_row_def request_start_def request_first_def dc_request_key_def dc_key_def
        dc_start_def first_segment_def row_for_dc_def row_for_def Let_def)
  assume "dc_request_key (req t) = dc_request_key (req u)"
  moreover obtain dc' where "aq_dc (req u) = Some dc'" using assms [of u] by blast
  ultimately show "request_key (req t) = request_key (req u)"
    using dc by (simp add: dc_request_key_def request_key_def)
qed (use dc_key_props dc_start_lt in \<open>auto\<close>)

definition plain_request :: "(string \<times> string) \<times> nat \<Rightarrow> alloc_request" where
  "plain_request x =
     \<lparr>aq_workspace_id = fst (fst x), aq_biz_tag = snd (fst x), aq_step = int (snd x), aq_dc = None\<rparr>"

interpretation plain_tasks: alloc_family "\<lambda>t. plain_request_key (plain_request (ks t))" plain_key
  "\<lambda>_. 1" "\<lambda>t. plain_request (ks t)" for ks
  by (rule plain_family) (simp add: plain_request_def)

section \<open>A shared table\<close>

text \<open>
  A concrete database that meets the contract: the committed rows, and for the calls to come whether
  each is answered, fails without effect, or takes effect and loses its answer.
\<close>

datatype call_fate = Answered | Failed | Lost

record shared_state =
  ss_rows :: "segment_row list"
  ss_fates :: "call_fate list"

definition fate :: "shared_state \<Rightarrow> call_fate" where
  "fate d = (case ss_fates d of [] \<Rightarrow> Answered | f # _ \<Rightarrow> f)"

definition shared_call ::
  "(segment_row list \<Rightarrow> 'a \<times> segment_row list) \<Rightarrow> shared_state \<Rightarrow> (string + 'a) \<times> shared_state" where
  "shared_call f d =
     ((if fate d = Answered then Inr (fst (f (ss_rows d))) else Inl ''connection lost''),
      \<lparr>ss_rows = (if fate d = Failed then ss_rows d else snd (f (ss_rows d))), ss_fates = tl (ss_fates d)\<rparr>)"

definition shared_rows_db :: "shared_state shared_db" where
  "shared_rows_db =
     \<lparr>sh_read = (\<lambda>p. shared_call (\<lambda>rows. (List.find p rows, rows))),
      sh_advance = (\<lambda>i c. shared_call (\<lambda>rows. ((), assign_current (\<lambda>r. row_id r = i) c rows))),
      sh_insert = (\<lambda>r. shared_call (\<lambda>rows.
         (r\<lparr>row_id := fresh_id rows\<rparr>, rows @ [r\<lparr>row_id := fresh_id rows\<rparr>])))\<rparr>"

interpretation shared_rows: shared_table shared_rows_db ss_rows
proof
  fix p d x d' and r and i c :: int and y z
  show "sh_read shared_rows_db p d = (x, d') \<Longrightarrow> ss_rows d' = ss_rows d"
    by (auto simp: shared_rows_db_def shared_call_def)
  show "sh_read shared_rows_db p d = (Inr (Some r), d') \<Longrightarrow> r \<in> set (ss_rows d) \<and> p r"
    by (auto simp: shared_rows_db_def shared_call_def find_Some_iff split: if_splits)
  show "sh_read shared_rows_db p d = (Inr None, d') \<Longrightarrow> r \<in> set (ss_rows d) \<Longrightarrow> \<not> p r"
    by (auto simp: shared_rows_db_def shared_call_def find_None_iff split: if_splits)
  show "sh_advance shared_rows_db i c d = (y, d') \<Longrightarrow>
      ss_rows d' = assign_current (\<lambda>r. row_id r = i) c (ss_rows d) \<or> isl y \<and> ss_rows d' = ss_rows d"
    by (auto simp: shared_rows_db_def shared_call_def)
  show "sh_insert shared_rows_db r d = (z, d') \<Longrightarrow>
      (\<exists>i. i \<notin> row_id ` set (ss_rows d) \<and> ss_rows d' = ss_rows d @ [r\<lparr>row_id := i\<rparr>] \<and>
         (\<forall>r'. z = Inr r' \<longrightarrow> r' = r\<lparr>row_id := i\<rparr>)) \<or> isl z \<and> ss_rows d' = ss_rows d"
    using fresh_id_fresh [of "ss_rows d"]
    by (cases "fate d") (auto simp: shared_rows_db_def shared_call_def)
qed

text \<open>Running a schedule: the next step of a task, where the database answers, and a list of tasks to move.\<close>

fun local_next :: "lock_table \<Rightarrow> lock_point \<Rightarrow> lock_table \<times> lock_point" where
  "local_next l (Start k) = (l, if is_locked k l then Refused k else Tested k)"
| "local_next l (Tested k) = (acquire_lock k l, Holds k)"
| "local_next l (Holds k) = (release_lock k l, Released k)"
| "local_next l p = (l, p)"

fun served_next :: "lock_table \<Rightarrow> lock_point \<Rightarrow> lock_table \<times> lock_point" where
  "served_next l (Start k) =
     (case local_acquire k l of (Inr _, l') \<Rightarrow> (l', Holds k) | (Inl _, l') \<Rightarrow> (l', Refused k))"
| "served_next l (Holds k) = (guard_release k l, Released k)"
| "served_next l p = (l, p)"

definition next_step ::
  "('l \<Rightarrow> lock_point \<Rightarrow> 'l \<Rightarrow> lock_point \<Rightarrow> bool) \<Rightarrow> ('l \<Rightarrow> lock_point \<Rightarrow> 'l \<times> lock_point) \<Rightarrow> bool" where
  "next_step ls nx \<longleftrightarrow>
     (\<forall>l p. snd (nx l p) \<noteq> p \<longrightarrow> ls l p (fst (nx l p)) (snd (nx l p)))"

lemma local_next_step: "next_step lock_step local_next"
  unfolding next_step_def
proof (intro allI impI)
  fix l p
  show "snd (local_next l p) \<noteq> p \<Longrightarrow> lock_step l p (fst (local_next l p)) (snd (local_next l p))"
    by (cases p) (auto intro: lock_step.intros)
qed

lemma served_next_step: "next_step (service_step local_acquire guard_release) served_next"
  unfolding next_step_def
proof (intro allI impI)
  fix l p
  show "snd (served_next l p) \<noteq> p \<Longrightarrow>
      service_step local_acquire guard_release l p (fst (served_next l p)) (snd (served_next l p))"
    by (cases p) (auto intro: service_step.intros split: prod.split sum.split)
qed

definition alloc_next ::
  "('l \<Rightarrow> lock_point \<Rightarrow> 'l \<times> lock_point) \<Rightarrow> 'd shared_db \<Rightarrow> (nat \<Rightarrow> alloc_request) \<Rightarrow> nat \<Rightarrow>
   ('l, 'd) alloc_system \<Rightarrow> ('l, 'd) alloc_system" where
  "alloc_next nx db req t s =
     (let a = req t; put = (\<lambda>d' x. s\<lparr>sys_db := d', sys_tasks := (sys_tasks s)(t := x)\<rparr>) in
      case sys_tasks s t of
        (Holds k, Idle) \<Rightarrow>
          (case sh_read db (request_row a) (sys_db s) of
             (Inr r, d') \<Rightarrow> put d' (Holds k, Found r) | _ \<Rightarrow> s)
      | (q, Idle) \<Rightarrow>
          (case nx (sys_locks s) q of (l', p) \<Rightarrow>
             if q \<in> {Start (request_key a), Tested (request_key a)} \<and> p \<noteq> q \<and>
                p \<in> {Tested (request_key a), Holds (request_key a)}
             then s\<lparr>sys_locks := l', sys_tasks := (sys_tasks s)(t := (p, Idle))\<rparr> else s)
      | (Holds k, Found (Some m)) \<Rightarrow>
          (case sh_advance db (row_id m) (advanced_id m (aq_step a)) (sys_db s) of
             (Inr u, d') \<Rightarrow> put d' (Holds k, Granted (advanced_info m (aq_step a))) | _ \<Rightarrow> s)
      | (Holds k, Found None) \<Rightarrow>
          (case sh_insert db (request_first a) (sys_db s) of
             (Inr n, d') \<Rightarrow> put d' (Holds k, Granted (first_info (request_start a) (aq_step a) n))
           | _ \<Rightarrow> s)
      | (Holds k, Granted i) \<Rightarrow>
          (case nx (sys_locks s) (Holds k) of (l', p) \<Rightarrow>
             if p = Released k
             then s\<lparr>sys_locks := l', sys_tasks := (sys_tasks s)(t := (Released k, Granted i)),
                    sys_returns := sys_returns s @ [(t, Inr i)]\<rparr> else s)
      | _ \<Rightarrow> s)"

lemma alloc_next_step:
  assumes "next_step ls nx"
  shows "alloc_next nx db req t s = s \<or> request_step ls db req t s (alloc_next nx db req t s)"
proof -
  obtain q w where t: "sys_tasks s t = (q, w)" by (cases "sys_tasks s t")
  obtain l' p where n: "nx (sys_locks s) q = (l', p)" by (cases "nx (sys_locks s) q")
  then have ls: "p \<noteq> q \<Longrightarrow> ls (sys_locks s) q l' p"
    using assms unfolding next_step_def by (metis fst_conv snd_conv)
  consider (read) k where "q = Holds k" "w = Idle" | (lock) "w = Idle" "\<And>k. q \<noteq> Holds k"
    | (row) k m where "q = Holds k" "w = Found (Some m)" | (new) k where "q = Holds k" "w = Found None"
    | (answer) k i where "q = Holds k" "w = Granted i"
    | (other) "alloc_next nx db req t s = s"
  proof (cases w)
    case Idle
    then show ?thesis using read lock by (cases q) auto
  next
    case (Found r)
    then show ?thesis using row new other by (cases q; cases r) (auto simp: alloc_next_def t Let_def)
  next
    case (Granted i)
    then show ?thesis using answer other by (cases q) (auto simp: alloc_next_def t Let_def)
  next
    case Broken
    then show ?thesis using other by (cases q) (auto simp: alloc_next_def t Let_def)
  qed
  then show ?thesis
  proof cases
    case read
    then show ?thesis
      by (auto simp: alloc_next_def t Let_def intro: request_step.read split: prod.split sum.split)
  next
    case lock
    have "alloc_next nx db req t s =
        (if q \<in> {Start (request_key (req t)), Tested (request_key (req t))} \<and> p \<noteq> q \<and>
            p \<in> {Tested (request_key (req t)), Holds (request_key (req t))}
         then s\<lparr>sys_locks := l', sys_tasks := (sys_tasks s)(t := (p, Idle))\<rparr> else s)"
      using lock n by (cases q) (auto simp: alloc_next_def t Let_def)
    then show ?thesis
      using request_step.acquiring [of "request_key (req t)" req t s q ls l' p db] t lock ls by auto
  next
    case row
    then show ?thesis
      by (auto simp: alloc_next_def t Let_def intro: request_step.advanced split: prod.split sum.split)
  next
    case new
    then show ?thesis
      by (auto simp: alloc_next_def t Let_def intro: request_step.inserted split: prod.split sum.split)
  next
    case (answer k i)
    then show ?thesis
      using n ls t by (auto simp: alloc_next_def Let_def intro: request_step.returned)
  qed blast
qed

definition run_schedule ::
  "('l \<Rightarrow> lock_point \<Rightarrow> 'l \<times> lock_point) \<Rightarrow> 'd shared_db \<Rightarrow> (nat \<Rightarrow> alloc_request) \<Rightarrow> nat list \<Rightarrow>
   ('l, 'd) alloc_system \<Rightarrow> ('l, 'd) alloc_system" where
  "run_schedule nx db req = fold (alloc_next nx db req)"

lemma schedule_reachable:
  assumes "next_step ls nx"
  shows "system_reachable ls db req l0 d0 (run_schedule nx db req ts (system_start req l0 d0))"
proof (induction ts rule: rev_induct)
  case Nil
  show ?case by (simp add: run_schedule_def system_reachable.at_start)
next
  case (snoc t ts)
  then show ?case
    using alloc_next_step [OF assms, of db req t] system_reachable.moved [OF snoc]
    by (simp add: run_schedule_def) metis
qed

section \<open>What concurrent allocations guarantee\<close>

text \<open>
  C3. Any number of allocations that run at the same time, on any nodes, interleaved call by call, with
  calls of the database that fail or lose their answers: if the lock excludes and every allocation
  names no data centre, two that return ranges of one workspace and tag return ranges of which the
  later starts at or above the end of the earlier.
\<close>

theorem concurrent_ranges_disjoint:
  assumes "shared_table db committed" "lock_excludes ls l0" "store_inv plain_key (committed d0)"
    and "\<And>t. aq_dc (req t) = None \<and> 0 \<le> aq_step (req t)"
    and "system_reachable ls db req l0 d0 s"
  shows "sorted_wrt range_before (map (\<lambda>(t, r). (plain_request_key (req t), r)) (sys_returns s)) \<and>
    (\<forall>t i. (t, Inr i) \<in> set (sys_returns s) \<longrightarrow>
       next_free (plain_key (plain_request_key (req t))) 1 (committed d0) \<le> si_current_id i \<and>
       si_current_id i \<le> si_max_id i)"
  using alloc_family.reachable_returns [OF plain_family [OF assms(4)] assms(1-3,5)] by blast

definition demo_requests :: "nat \<Rightarrow> alloc_request" where
  "demo_requests t = plain_request ((''w'', if t = 2 then ''u'' else ''t''), 100)"

definition no_rows :: shared_state where
  "no_rows = \<lparr>ss_rows = [], ss_fates = []\<rparr>"

lemma store_inv_no_rows: "store_inv p (ss_rows no_rows)"
  by (simp add: store_inv_def rows_ok_def unique_row_def no_rows_def)

definition demo_run :: "(lock_table, shared_state) alloc_system" where
  "demo_run = run_schedule served_next shared_rows_db demo_requests [0, 2, 0, 2, 0, 2, 2, 0, 1, 1, 1, 1]
     (system_start demo_requests lock_table_new no_rows)"

lemma demo_reachable:
  "system_reachable (service_step local_acquire guard_release) shared_rows_db demo_requests lock_table_new
     no_rows demo_run"
  unfolding demo_run_def by (rule schedule_reachable [OF served_next_step])

theorem concurrent_ranges_disjoint_witness:
  "\<exists>a b c. sys_returns demo_run = [(2, Inr c), (0, Inr a), (1, Inr b)] \<and>
     si_current_id a = 1 \<and> si_max_id a = 101 \<and> si_max_id a \<le> si_current_id b \<and> si_max_id b = 201"
proof -
  let ?info = "\<lambda>n tag lo hi. \<lparr>si_id = n, si_workspace_id = ''w'', si_biz_tag = tag, si_current_id = lo,
      si_max_id = hi, si_step = 100, si_delta = 1\<rparr>"
  have r: "sys_returns demo_run =
      [(2, Inr (?info 2 ''u'' 1 101)), (0, Inr (?info 1 ''t'' 1 101)), (1, Inr (?info 1 ''t'' 101 201))]"
    by code_simp
  have "sorted_wrt range_before (map (\<lambda>(t, r). (plain_request_key (demo_requests t), r))
      (sys_returns demo_run))"
    using concurrent_ranges_disjoint [OF shared_rows.shared_table_axioms local.service_excludes
        store_inv_no_rows _ demo_reachable]
    by (simp add: demo_requests_def plain_request_def)
  then have "si_max_id (?info 1 ''t'' 1 101) \<le> si_current_id (?info 1 ''t'' 101 201)"
    unfolding r by (simp add: plain_request_key_def demo_requests_def plain_request_def)
  then show ?thesis unfolding r by simp
qed

text \<open>
  Allocations that all name a data centre have rows of their own, and the same holds for each of them.
\<close>

theorem concurrent_dc_ranges_disjoint:
  assumes "shared_table db committed" "lock_excludes ls l0" "store_inv dc_key (committed d0)"
    and "\<And>t. aq_dc (req t) \<noteq> None \<and> 0 \<le> aq_step (req t)"
    and "system_reachable ls db req l0 d0 s"
  shows "sorted_wrt range_before (map (\<lambda>(t, r). (dc_request_key (req t), r)) (sys_returns s)) \<and>
    (\<forall>t i. (t, Inr i) \<in> set (sys_returns s) \<longrightarrow>
       next_free (dc_key (dc_request_key (req t)))
         (dc_start (snd (snd (dc_request_key (req t))))) (committed d0) \<le> si_current_id i \<and>
       si_current_id i \<le> si_max_id i)"
  using alloc_family.reachable_returns [OF dc_family [OF assms(4)] assms(1-3,5)] by blast

definition dc_requests :: "nat \<Rightarrow> alloc_request" where
  "dc_requests t = (plain_request ((''w'', ''t''), 100))\<lparr>aq_dc := Some (if t = 2 then 4 else 3)\<rparr>"

definition dc_run :: "(lock_table, shared_state) alloc_system" where
  "dc_run = run_schedule served_next shared_rows_db dc_requests [0, 2, 0, 2, 0, 2, 2, 0, 1, 1, 1, 1]
     (system_start dc_requests lock_table_new no_rows)"

theorem concurrent_dc_ranges_disjoint_witness:
  "length (sys_returns dc_run) = 3 \<and>
   sorted_wrt range_before (map (\<lambda>(t, r). (dc_request_key (dc_requests t), r)) (sys_returns dc_run))"
proof
  have "system_reachable (service_step local_acquire guard_release) shared_rows_db dc_requests
      lock_table_new no_rows dc_run"
    unfolding dc_run_def by (rule schedule_reachable [OF served_next_step])
  from concurrent_dc_ranges_disjoint [OF shared_rows.shared_table_axioms local.service_excludes
      store_inv_no_rows _ this]
  show "sorted_wrt range_before (map (\<lambda>(t, r). (dc_request_key (dc_requests t), r)) (sys_returns dc_run))"
    by (simp add: dc_requests_def plain_request_def)
qed code_simp

definition tag_requests :: "nat \<Rightarrow> alloc_request" where
  "tag_requests t = plain_request ((''w'', ''t''), 100)"

definition one_row :: shared_state where
  "one_row = \<lparr>ss_rows = [(request_first (tag_requests 0))\<lparr>row_id := 1\<rparr>], ss_fates = []\<rparr>"

text \<open>
  C21. The local lock does not exclude: two allocations of one process for one workspace and tag, which
  both test the table of locks before either inserts its key, read the same row and return the same
  range of identifiers.
\<close>

theorem local_lock_duplicates_range:
  "\<exists>s i. system_reachable lock_step shared_rows_db tag_requests lock_table_new one_row s \<and>
     sys_returns s = [(0, Inr i), (1, Inr i)] \<and> si_current_id i = 101 \<and> si_max_id i = 201"
proof -
  let ?s = "run_schedule local_next shared_rows_db tag_requests [0, 1, 0, 1, 0, 1, 0, 1, 0, 1]
      (system_start tag_requests lock_table_new one_row)"
  let ?i = "\<lparr>si_id = 1, si_workspace_id = ''w'', si_biz_tag = ''t'', si_current_id = 101, si_max_id = 201,
      si_step = 100, si_delta = 1\<rparr>"
  have "sys_returns ?s = [(0, Inr ?i), (1, Inr ?i)]" by code_simp
  moreover have "system_reachable lock_step shared_rows_db tag_requests lock_table_new one_row ?s"
    by (rule schedule_reachable [OF local_next_step])
  ultimately show ?thesis by (intro exI [of _ ?s] exI [of _ ?i] conjI) simp_all
qed

definition mixed_requests :: "nat \<Rightarrow> alloc_request" where
  "mixed_requests t = (tag_requests t)\<lparr>aq_dc := (if t = 0 then None else Some 3)\<rparr>"

definition dc_row :: shared_state where
  "dc_row = \<lparr>ss_rows = [(request_first (mixed_requests 1))\<lparr>row_id := 1\<rparr>], ss_fates = []\<rparr>"

text \<open>
  C15. The two kinds of allocation use two locks but not always two rows: one that names no data centre
  takes the first row of the tag, of whichever data centre it is. Under a lock that excludes, it and an
  allocation of that data centre then return the same range.
\<close>

theorem mixed_allocations_duplicate_range:
  "lock_excludes (service_step local_acquire guard_release) lock_table_new \<and>
   (\<exists>s i. system_reachable (service_step local_acquire guard_release) shared_rows_db mixed_requests
        lock_table_new dc_row s \<and>
      sys_returns s = [(0, Inr i), (1, Inr i)] \<and> si_current_id i = 3000000000101)"
proof
  let ?s = "run_schedule served_next shared_rows_db mixed_requests [0, 1, 0, 1, 0, 1, 0, 1]
      (system_start mixed_requests lock_table_new dc_row)"
  let ?i = "\<lparr>si_id = 1, si_workspace_id = ''w'', si_biz_tag = ''t'', si_current_id = 3000000000101,
      si_max_id = 3000000000201, si_step = 100, si_delta = 1\<rparr>"
  have "sys_returns ?s = [(0, Inr ?i), (1, Inr ?i)]" by code_simp
  moreover have "system_reachable (service_step local_acquire guard_release) shared_rows_db mixed_requests
      lock_table_new dc_row ?s"
    by (rule schedule_reachable [OF served_next_step])
  ultimately show "\<exists>s i. system_reachable (service_step local_acquire guard_release) shared_rows_db
      mixed_requests lock_table_new dc_row s \<and> sys_returns s = [(0, Inr i), (1, Inr i)] \<and>
      si_current_id i = 3000000000101"
    by (intro exI [of _ ?s] exI [of _ ?i] conjI) simp_all
qed (rule local.service_excludes)

end
