(* ===== verification/Segment_Gen.thy ===== *)
theory Segment_Gen
  imports Alg_Traits "HOL-Library.AList"
begin

text \<open>
  The segment generator with its double buffer, \<open>src/src/core/algorithm/segment.rs\<close>, as one task runs
  it.

  \<^item> The answers of \<open>SegmentLoader::load_segment\<close> still to come are a list; a call that needs one
    more than there are still waits (\<open>None\<close>). What a loader promises is \<open>fresh_from\<close>: ranges in
    ascending order above what was handed out.
  \<^item> \<open>None\<close> is also the spin on \<open>loading\<close>, which only another task could end.
  \<^item> The CPU monitor, the health-check task and the failure detector of the struct play no part in
    these operations and are modelled in their own theories or left out.
\<close>

section \<open>Segments\<close>

record segment =
  seg_start_id :: u64
  seg_max_id :: u64
  seg_current_id :: u64
  seg_step :: u64
  seg_version :: u8

definition segment_new :: "u64 \<Rightarrow> u64 \<Rightarrow> u64 \<Rightarrow> segment" where
  "segment_new start mx step =
     \<lparr>seg_start_id = start, seg_max_id = mx, seg_current_id = start, seg_step = step,
      seg_version = 0\<rparr>"

definition segment_remaining :: "segment \<Rightarrow> u64" where
  "segment_remaining g = sat_sub (seg_max_id g) (seg_current_id g)"

definition segment_consumed :: "segment \<Rightarrow> u64" where
  "segment_consumed g = sat_sub (seg_current_id g) (seg_start_id g)"

definition try_consume :: "u64 \<Rightarrow> segment \<Rightarrow> (u64 \<times> u64) option \<times> segment" where
  "try_consume count g =
     (let current = seg_current_id g in
      if current + count > seg_max_id g then (None, g)
      else (Some (current, current + count), g\<lparr>seg_current_id := current + count\<rparr>))"

record segment_data =
  sd_start_id :: u64
  sd_max_id :: u64
  sd_step :: u64
  sd_version :: u8

section \<open>The double buffer\<close>

record double_buffer =
  db_current :: segment
  db_next :: "segment option"
  db_switch_threshold :: rat
  db_loading :: bool

definition double_buffer_new :: "rat \<Rightarrow> double_buffer" where
  "double_buffer_new threshold =
     \<lparr>db_current = segment_new 0 0 0, db_next = None, db_switch_threshold = threshold,
      db_loading = False\<rparr>"

definition try_start_loading :: "double_buffer \<Rightarrow> bool \<times> double_buffer" where
  "try_start_loading b = (if db_loading b then (False, b) else (True, b\<lparr>db_loading := True\<rparr>))"

definition finish_loading :: "double_buffer \<Rightarrow> double_buffer" where
  "finish_loading b = b\<lparr>db_loading := False\<rparr>"

definition is_loading :: "double_buffer \<Rightarrow> bool" where
  "is_loading b = db_loading b"

definition set_current :: "segment \<Rightarrow> double_buffer \<Rightarrow> double_buffer" where
  "set_current g b = b\<lparr>db_current := g\<rparr>"

definition set_next :: "segment \<Rightarrow> double_buffer \<Rightarrow> double_buffer" where
  "set_next g b = b\<lparr>db_next := Some g\<rparr>"

definition swap_buffers :: "double_buffer \<Rightarrow> double_buffer" where
  "swap_buffers b =
     (case db_next b of None \<Rightarrow> b | Some g \<Rightarrow> b\<lparr>db_next := None, db_current := g\<rparr>)"

definition need_switch :: "double_buffer \<Rightarrow> bool" where
  "need_switch b =
     (let g = db_current b;
          remaining = sat_sub (seg_max_id g) (seg_current_id g);
          total = seg_max_id g - seg_start_id g
      in total = 0 \<or> f64_div (f64_of_u64 remaining) (f64_of_u64 total) < db_switch_threshold b)"

section \<open>The generator\<close>

record segment_metrics =
  sm_total_generated :: u64
  sm_total_failed :: u64
  sm_cache_hits :: u64
  sm_cache_misses :: u64

record segment_alg =
  sa_config :: segment_config
  sa_buffers :: "(string \<times> double_buffer) list"
  sa_metrics :: segment_metrics
  sa_local_dc_id :: u8

definition segment_alg_new :: "u8 \<Rightarrow> segment_alg" where
  "segment_alg_new dc =
     \<lparr>sa_config = segment_config_default, sa_buffers = [],
      sa_metrics = \<lparr>sm_total_generated = 0, sm_total_failed = 0, sm_cache_hits = 0,
        sm_cache_misses = 0\<rparr>,
      sa_local_dc_id = dc\<rparr>"

definition segment_initialize :: "segment_config \<Rightarrow> segment_alg \<Rightarrow> segment_alg" where
  "segment_initialize cfg s = s\<lparr>sa_config := cfg\<rparr>"

definition buffer_key :: "generate_context \<Rightarrow> string" where
  "buffer_key ctx = ctx_workspace_id ctx @ '':'' @ ctx_biz_tag ctx"

definition get_or_create_buffer :: "string \<Rightarrow> segment_alg \<Rightarrow> double_buffer" where
  "get_or_create_buffer key s =
     (case map_of (sa_buffers s) key of
        Some b \<Rightarrow> b
      | None \<Rightarrow> double_buffer_new (switch_threshold (sa_config s)))"

definition put_buffer :: "string \<Rightarrow> double_buffer \<Rightarrow> segment_metrics \<Rightarrow> segment_alg \<Rightarrow> segment_alg" where
  "put_buffer key b m s = s\<lparr>sa_buffers := AList.update key b (sa_buffers s), sa_metrics := m\<rparr>"

definition install :: "segment_data \<Rightarrow> double_buffer \<Rightarrow> double_buffer" where
  "install d b =
     swap_buffers (set_next (segment_new (sd_start_id d) (sd_max_id d) (sd_step d)) b)"

text \<open>\<open>generate_loop k\<close> is \<open>k\<close> turns of the \<open>for\<close> of \<open>generate\<close> and what follows it.\<close>

fun generate_loop ::
  "nat \<Rightarrow> double_buffer \<Rightarrow> segment_metrics \<Rightarrow> segment_data res list \<Rightarrow>
   (id_t res \<times> double_buffer \<times> segment_metrics \<times> segment_data res list) option" where
  "generate_loop 0 b m env =
     Some (Inl (SegmentExhausted (seg_max_id (db_current b))), b,
           m\<lparr>sm_total_failed := sm_total_failed m + 1\<rparr>, env)"
| "generate_loop (Suc k) b m env =
     (case try_consume 1 (db_current b) of
        (Some (start, _), g) \<Rightarrow>
          Some (Inr (Id (ucast start)), set_current g b,
                m\<lparr>sm_total_generated := sm_total_generated m + 1,
                  sm_cache_hits := sm_cache_hits m + 1\<rparr>, env)
      | (None, _) \<Rightarrow>
          if need_switch b then
            (if db_next b \<noteq> None then generate_loop k (swap_buffers b) m env
             else case try_start_loading b of
               (True, b1) \<Rightarrow>
                 (let m1 = m\<lparr>sm_cache_misses := sm_cache_misses m + 1\<rparr> in
                  case env of
                    [] \<Rightarrow> None
                  | r # env' \<Rightarrow>
                      (let b2 = finish_loading b1 in
                       case r of
                         Inl e \<Rightarrow> Some (Inl e, b2, m1, env')
                       | Inr d \<Rightarrow> generate_loop k (install d b2) m1 env'))
             | (False, b1) \<Rightarrow> None)
          else generate_loop k b m env)"

definition segment_generate ::
  "generate_context \<Rightarrow> segment_alg \<Rightarrow> segment_data res list \<Rightarrow>
   (id_t res \<times> segment_alg \<times> segment_data res list) option" where
  "segment_generate ctx s env =
     (let key = buffer_key ctx in
      case generate_loop 3 (get_or_create_buffer key s) (sa_metrics s) env of
        None \<Rightarrow> None
      | Some (r, b, m, env') \<Rightarrow> Some (r, put_buffer key b m s, env'))"

text \<open>The \<open>while\<close> of \<open>batch_generate\<close>; \<open>Inl\<close> is the early return of the loader's error.\<close>

function segment_batch_loop ::
  "nat \<Rightarrow> id_t list \<Rightarrow> double_buffer \<Rightarrow> segment_metrics \<Rightarrow> segment_data res list \<Rightarrow>
   (id_t list res \<times> double_buffer \<times> segment_metrics \<times> segment_data res list) option" where
  "segment_batch_loop sz ids b m env =
     (if length ids < sz then
        (case try_consume (of_nat (sz - length ids)) (db_current b) of
           (Some (start, stop), g) \<Rightarrow>
             Some (Inr (ids @ map (\<lambda>i. Id (of_nat i)) [unat start..<unat stop]),
                   set_current g b,
                   m\<lparr>sm_total_generated := sm_total_generated m + (stop - start)\<rparr>, env)
         | (None, _) \<Rightarrow>
             if need_switch b then
               (if db_next b = None then
                  (let m1 = m\<lparr>sm_cache_misses := sm_cache_misses m + 1\<rparr> in
                   case env of
                     [] \<Rightarrow> None
                   | Inl e # env' \<Rightarrow> Some (Inl e, b, m1, env')
                   | Inr d # env' \<Rightarrow> segment_batch_loop sz ids (install d b) m1 env')
                else segment_batch_loop sz ids (swap_buffers b) m env)
             else Some (Inr ids, b, m, env))
      else Some (Inr ids, b, m, env))"
  by pat_completeness auto
termination
  by (relation "measure (\<lambda>(sz, ids, b, m, env). length env + (if db_next b = None then 0 else 1))")
    (auto simp: install_def set_next_def swap_buffers_def split: option.splits)

declare segment_batch_loop.simps [simp del]

definition segment_batch_generate ::
  "generate_context \<Rightarrow> nat \<Rightarrow> segment_alg \<Rightarrow> segment_data res list \<Rightarrow>
   (id_batch res \<times> segment_alg \<times> segment_data res list) option" where
  "segment_batch_generate ctx sz s env =
     (let key = buffer_key ctx in
      case segment_batch_loop sz [] (get_or_create_buffer key s) (sa_metrics s) env of
        None \<Rightarrow> None
      | Some (Inl e, b, m, env') \<Rightarrow> Some (Inl e, put_buffer key b m s, env')
      | Some (Inr ids, b, m, env') \<Rightarrow>
          Some (if ids = []
                then (Inl (SegmentExhausted (seg_max_id (db_current b))),
                      put_buffer key b (m\<lparr>sm_total_failed := sm_total_failed m + 1\<rparr>) s, env')
                else (Inr (batch_new ids Segment (ctx_biz_tag ctx)), put_buffer key b m s, env')))"

definition segment_health_check :: "segment_alg \<Rightarrow> health_status" where
  "segment_health_check s =
     (if sa_buffers s = [] then HealthDegraded ''No active buffers'' else Healthy)"

definition segment_metrics_snapshot :: "segment_alg \<Rightarrow> algorithm_metrics" where
  "segment_metrics_snapshot s =
     (let hits = sm_cache_hits (sa_metrics s);
          total = hits + sm_cache_misses (sa_metrics s)
      in \<lparr>am_total_generated = sm_total_generated (sa_metrics s),
          am_total_failed = sm_total_failed (sa_metrics s), am_current_qps = 0,
          am_p50_latency_us = 0, am_p99_latency_us = 0,
          am_cache_hit_rate =
            Some (if total > 0 then f64_div (f64_of_u64 hits) (f64_of_u64 total) else 1)\<rparr>)"

section \<open>The default loader\<close>

text \<open>The clock reading is \<open>SystemTime::now()\<close> in nanoseconds since the Unix epoch.\<close>

definition default_load_segment :: "int \<Rightarrow> segment_data res" where
  "default_load_segment now =
     (if now < 0 then
        Inl (InternalError ''Failed to get system time: second time provided was later than self'')
      else
        (let timestamp = of_int (now div 1000000000) :: u64;
             base_id = timestamp * 10000
         in Inr \<lparr>sd_start_id = base_id, sd_max_id = base_id + 1000000, sd_step = 1000,
                 sd_version = 0\<rparr>))"

section \<open>Consuming a segment\<close>

text \<open>
  \<open>seg_ok\<close> orders the three positions of a segment and keeps them below \<open>2 ^ 63\<close>, as the signed
  columns of the database do; then \<open>current + count\<close> does not wrap for any \<open>count\<close> below \<open>2 ^ 63\<close>.
\<close>

definition seg_ok :: "segment \<Rightarrow> bool" where
  "seg_ok g \<longleftrightarrow> seg_start_id g \<le> seg_current_id g \<and> seg_current_id g \<le> seg_max_id g \<and>
     unat (seg_max_id g) < 2 ^ 63"

lemma try_consume_cases:
  assumes "seg_ok g" "unat count < 2 ^ 63"
  shows "try_consume count g =
      (if unat (seg_current_id g) + unat count \<le> unat (seg_max_id g)
       then (Some (seg_current_id g, seg_current_id g + count),
             g\<lparr>seg_current_id := seg_current_id g + count\<rparr>)
       else (None, g))"
    and "unat (seg_current_id g + count) = unat (seg_current_id g) + unat count"
proof -
  have "unat (seg_current_id g) < 2 ^ 63"
    using assms(1) by (simp add: seg_ok_def word_le_nat_alt)
  with assms(2) show *: "unat (seg_current_id g + count) = unat (seg_current_id g) + unat count"
    by (intro unat_add_bounded) simp
  show "try_consume count g =
      (if unat (seg_current_id g) + unat count \<le> unat (seg_max_id g)
       then (Some (seg_current_id g, seg_current_id g + count),
             g\<lparr>seg_current_id := seg_current_id g + count\<rparr>)
       else (None, g))"
    by (simp add: try_consume_def Let_def word_less_nat_alt *)
qed

lemma seg_ok_consume:
  assumes "seg_ok g" "unat count < 2 ^ 63" "try_consume count g = (Some x, g')"
  shows "seg_ok g' \<and> seg_max_id g' = seg_max_id g \<and>
    x = (seg_current_id g, seg_current_id g + count) \<and>
    unat (seg_current_id g') = unat (seg_current_id g) + unat count \<and>
    unat (seg_current_id g) + unat count \<le> unat (seg_max_id g)"
  using assms(1,3) try_consume_cases [OF assms(1,2)]
  by (auto simp: seg_ok_def word_le_nat_alt split: if_splits)

lemma try_consume_None: "try_consume count g = (None, g') \<Longrightarrow> g' = g"
  by (auto simp: try_consume_def Let_def split: if_splits)

section \<open>Loader answers and the buffer\<close>

definition data_ok :: "segment_data \<Rightarrow> bool" where
  "data_ok d \<longleftrightarrow> sd_start_id d \<le> sd_max_id d \<and> unat (sd_max_id d) < 2 ^ 63"

fun fresh_from :: "nat \<Rightarrow> segment_data res list \<Rightarrow> bool" where
  "fresh_from lo [] = True"
| "fresh_from lo (Inl e # env) = fresh_from lo env"
| "fresh_from lo (Inr d # env) =
     (lo \<le> unat (sd_start_id d) \<and> data_ok d \<and> fresh_from (unat (sd_max_id d)) env)"

fun ranges :: "segment_data res list \<Rightarrow> nat set" where
  "ranges [] = {}"
| "ranges (Inl e # env) = ranges env"
| "ranges (Inr d # env) = {unat (sd_start_id d)..<unat (sd_max_id d)} \<union> ranges env"

definition buf_ok :: "double_buffer \<Rightarrow> bool" where
  "buf_ok b \<longleftrightarrow> seg_ok (db_current b) \<and> db_next b = None \<and> \<not> db_loading b"

definition buf_next :: "double_buffer \<Rightarrow> nat" where
  "buf_next b = unat (seg_current_id (db_current b))"

definition buf_range :: "double_buffer \<Rightarrow> nat set" where
  "buf_range b = {buf_next b..<unat (seg_max_id (db_current b))}"

definition supplied :: "nat set \<Rightarrow> double_buffer \<Rightarrow> segment_data res list \<Rightarrow> bool" where
  "supplied A b env \<longleftrightarrow> buf_ok b \<and> fresh_from (unat (seg_max_id (db_current b))) env \<and>
     buf_range b \<union> ranges env \<subseteq> A"

lemma install_simps [simp]:
  "db_current (install d b) = segment_new (sd_start_id d) (sd_max_id d) (sd_step d)"
  "db_next (install d b) = None"
  "db_loading (install d b) = db_loading b"
  "db_switch_threshold (install d b) = db_switch_threshold b"
  by (simp_all add: install_def swap_buffers_def set_next_def)

lemma supplied_install:
  assumes "supplied A b (Inr d # env)" "\<not> db_loading b'"
  shows "supplied A (install d b') env \<and> buf_next b \<le> buf_next (install d b') \<and>
    buf_next (install d b') = unat (sd_start_id d)"
  using assms
  by (auto simp: supplied_def buf_ok_def seg_ok_def data_ok_def buf_next_def buf_range_def
      segment_new_def word_le_nat_alt)

lemma supplied_error:
  "supplied A b (Inl e # env) \<Longrightarrow> supplied A b env"
  by (simp add: supplied_def)

lemma finish_start [simp]: "db_loading b = False \<Longrightarrow> finish_loading (b\<lparr>db_loading := True\<rparr>) = b"
  by (simp add: finish_loading_def)

lemma generate_loop_supplied:
  assumes "supplied A b env" "generate_loop k b m env = Some (r, b', m', env')"
  shows "supplied A b' env' \<and> db_switch_threshold b' = db_switch_threshold b \<and>
    (case r of
       Inr i \<Rightarrow> buf_next b \<le> id_nat i \<and> buf_next b' = Suc (id_nat i) \<and> id_nat i \<in> A
     | Inl e \<Rightarrow> buf_next b \<le> buf_next b')"
  using assms
proof (induction k arbitrary: b m env)
  case 0
  then show ?case by auto
next
  case (Suc k)
  have ok: "seg_ok (db_current b)" "db_next b = None" "\<not> db_loading b"
    using Suc.prems(1) by (simp_all add: supplied_def buf_ok_def)
  obtain x g where c: "try_consume 1 (db_current b) = (x, g)"
    by (cases "try_consume 1 (db_current b)")
  show ?case
  proof (cases x)
    case (Some y)
    note cons = seg_ok_consume [OF ok(1) _ c [unfolded Some]]
    have eqs: "r = Inr (Id (ucast (seg_current_id (db_current b))))" "b' = set_current g b"
      "env' = env"
      using Suc.prems(2) c Some cons by auto
    have "id_nat (Id (ucast (seg_current_id (db_current b)))) = buf_next b"
      by (simp add: unat_ucast_up buf_next_def)
    then show ?thesis
      using Suc.prems(1) cons
      by (auto simp: eqs supplied_def buf_ok_def buf_next_def buf_range_def set_current_def)
  next
    case None
    show ?thesis
    proof (cases "need_switch b")
      case False
      with Suc c None show ?thesis by simp
    next
      case True
      show ?thesis
      proof (cases env)
        case Nil
        with Suc.prems(2) c None True ok show ?thesis by (simp add: try_start_loading_def)
      next
        case (Cons a env1)
        show ?thesis
        proof (cases a)
          case (Inl e)
          with Suc.prems c None True ok Cons show ?thesis
            by (auto simp: try_start_loading_def supplied_error)
        next
          case (Inr d)
          have s: "supplied A b (Inr d # env1)" using Suc.prems(1) Cons Inr by simp
          note inst = supplied_install [OF s, of b]
          have "generate_loop k (install d b)
              (m\<lparr>sm_cache_misses := sm_cache_misses m + 1\<rparr>) env1 = Some (r, b', m', env')"
            using Suc.prems(2) c None True ok Cons Inr by (simp add: try_start_loading_def)
          from Suc.IH [OF _ this] inst ok(3) show ?thesis
            by (auto split: sum.splits)
        qed
      qed
    qed
  qed
qed

section \<open>When the buffer switches\<close>

lemma need_switch_full:
  assumes "seg_start_id (db_current b) = seg_current_id (db_current b)"
    "seg_current_id (db_current b) < seg_max_id (db_current b)" "db_switch_threshold b \<le> 1"
  shows "\<not> need_switch b"
proof -
  let ?g = "db_current b"
  have "seg_max_id ?g - seg_current_id ?g \<noteq> 0" using assms(2) by auto
  then show ?thesis
    using assms f64_div_self [of "seg_max_id ?g - seg_current_id ?g"]
    by (auto simp: need_switch_def sat_sub_def Let_def)
qed

lemma need_switch_used_up:
  assumes "seg_current_id (db_current b) = seg_max_id (db_current b)"
  shows "need_switch b \<longleftrightarrow>
    seg_start_id (db_current b) = seg_max_id (db_current b) \<or> 0 < db_switch_threshold b"
  using assms by (auto simp: need_switch_def sat_sub_def f64_div_def f64_of_u64_def Let_def)

lemma need_switch_new: "need_switch (double_buffer_new t)"
  by (simp add: need_switch_def double_buffer_new_def segment_new_def)

lemma buf_ok_new: "buf_ok (double_buffer_new t)"
  by (simp add: buf_ok_def double_buffer_new_def segment_new_def seg_ok_def)

lemma get_put_buffer [simp]: "get_or_create_buffer key (put_buffer key b m s) = b"
  by (simp add: get_or_create_buffer_def put_buffer_def update_conv)

lemma get_put_buffer_other:
  "key' \<noteq> key \<Longrightarrow> get_or_create_buffer key' (put_buffer key b m s) = get_or_create_buffer key' s"
  by (simp add: get_or_create_buffer_def put_buffer_def update_conv split: option.split)

section \<open>The generator as an id source\<close>

abbreviation ctx_buffer :: "generate_context \<Rightarrow> segment_alg \<Rightarrow> double_buffer" where
  "ctx_buffer ctx s \<equiv> get_or_create_buffer (buffer_key ctx) s"

lemma segment_generate_step:
  assumes "supplied A (ctx_buffer ctx s) env" "segment_generate ctx s env = Some (r, s', env')"
  shows "supplied A (ctx_buffer ctx s') env' \<and>
    (case r of
       Inr i \<Rightarrow> buf_next (ctx_buffer ctx s) \<le> id_nat i \<and>
         buf_next (ctx_buffer ctx s') = Suc (id_nat i) \<and> id_nat i \<in> A
     | Inl e \<Rightarrow> buf_next (ctx_buffer ctx s) \<le> buf_next (ctx_buffer ctx s'))"
proof -
  obtain b m where l: "generate_loop 3 (ctx_buffer ctx s) (sa_metrics s) env = Some (r, b, m, env')"
    and s': "s' = put_buffer (buffer_key ctx) b m s"
    using assms(2) by (auto simp: segment_generate_def Let_def split: option.splits)
  from generate_loop_supplied [OF assms(1) l] show ?thesis by (cases r) (simp_all add: s')
qed

interpretation seg: owned_source "segment_generate ctx"
  "\<lambda>s env. supplied A (ctx_buffer ctx s) env" "\<lambda>s. buf_next (ctx_buffer ctx s)"
  "\<lambda>i. id_nat i \<in> A" for ctx A
proof
  fix s s' :: segment_alg and r :: "id_t res" and env env'
  assume "supplied A (ctx_buffer ctx s) env" "segment_generate ctx s env = Some (r, s', env')"
  from segment_generate_step [OF this] show "supplied A (ctx_buffer ctx s') env'" by simp
next
  fix s s' :: segment_alg and i env env'
  assume "supplied A (ctx_buffer ctx s) env" "segment_generate ctx s env = Some (Inr i, s', env')"
  from segment_generate_step [OF this]
  show "buf_next (ctx_buffer ctx s) \<le> id_nat i \<and> id_nat i < buf_next (ctx_buffer ctx s')"
    and "id_nat i \<in> A" by simp_all
next
  fix s s' :: segment_alg and e env env'
  assume "supplied A (ctx_buffer ctx s) env" "segment_generate ctx s env = Some (Inl e, s', env')"
  from segment_generate_step [OF this]
  show "buf_next (ctx_buffer ctx s) \<le> buf_next (ctx_buffer ctx s')" by simp
qed

section \<open>Batches\<close>

lemma segment_batch_loop_supplied:
  assumes "supplied A b env" "sz < 2 ^ 63"
    and "segment_batch_loop sz [] b m env = Some (r, b', m', env')"
  shows "supplied A b' env' \<and> (case r of
      Inr is \<Rightarrow> is = [] \<and> buf_next b \<le> buf_next b' \<or>
        (\<exists>start. is = map (\<lambda>i. Id (of_nat i)) [start..<start + sz] \<and> buf_next b \<le> start \<and>
          buf_next b' = start + sz \<and> {start..<start + sz} \<subseteq> A)
    | Inl e \<Rightarrow> buf_next b \<le> buf_next b')"
proof -
  have "supplied A b' env' \<and> (case r of
      Inr is \<Rightarrow> is = [] \<and> buf_next b \<le> buf_next b' \<or>
        (\<exists>start. is = map (\<lambda>i. Id (of_nat i)) [start..<start + sz] \<and> buf_next b \<le> start \<and>
          buf_next b' = start + sz \<and> {start..<start + sz} \<subseteq> A)
    | Inl e \<Rightarrow> buf_next b \<le> buf_next b')" if "ids = ([] :: id_t list)"
    "segment_batch_loop sz ids b m env = Some (r, b', m', env')" for ids
    using assms(1,2) that
  proof (induction sz ids b m env rule: segment_batch_loop.induct)
    case (1 sz ids b m env)
    note unfold = segment_batch_loop.simps [of sz "[]" b m env]
    have ok: "seg_ok (db_current b)" "db_next b = None" "\<not> db_loading b"
      using 1(3) by (simp_all add: supplied_def buf_ok_def)
    show ?case
    proof (cases "sz = 0")
      case True
      with 1(3,5,6) show ?thesis by (auto simp: segment_batch_loop.simps [of 0])
    next
      case False
      then have lt: "length ids < sz" using 1(5) by simp
      have n: "unat (of_nat (sz - length ids) :: u64) = sz"
        using 1(4,5) by (simp add: unat_of_nat take_bit_nat_eq_self unsigned_of_nat)
      obtain x g where c: "try_consume (of_nat (sz - length ids)) (db_current b) = (x, g)"
        by (cases "try_consume (of_nat (sz - length ids)) (db_current b)")
      show ?thesis
      proof (cases x)
        case (Some y)
        note cons = seg_ok_consume [OF ok(1) _ c [unfolded Some], unfolded n, OF 1(4)]
        have stop: "unat (seg_current_id (db_current b) + of_nat (sz - length ids)) =
            unat (seg_current_id (db_current b)) + sz"
          using try_consume_cases(2) [OF ok(1), of "of_nat (sz - length ids)"] n 1(4) by simp
        have r: "r = Inr (map (\<lambda>i. Id (of_nat i)) [buf_next b..<buf_next b + sz])"
          and b': "b' = set_current g b" "env' = env"
          using 1(5,6) lt c Some cons stop by (auto simp: unfold buf_next_def)
        show ?thesis
          using 1(3) cons
          by (auto simp: r b' supplied_def buf_ok_def buf_next_def buf_range_def set_current_def
              subset_iff)
      next
        case None
        show ?thesis
        proof (cases "need_switch b")
          case False
          with 1 lt c None show ?thesis by (auto simp: unfold)
        next
          case True
          show ?thesis
          proof (cases env)
            case Nil
            with 1(5,6) lt c None True ok show ?thesis
              by (simp add: segment_batch_loop.simps [of sz "[]" b m "[]"])
          next
            case (Cons a env1)
            show ?thesis
            proof (cases a)
              case (Inl e)
              with 1(3,5,6) lt c None True ok Cons show ?thesis
                by (auto simp: segment_batch_loop.simps [of sz "[]" b m "Inl e # env1"] supplied_error)
            next
              case (Inr d)
              have s: "supplied A b (Inr d # env1)" using 1(3) Cons Inr by simp
              note inst = supplied_install [OF s ok(3)]
              have "segment_batch_loop sz ids (install d b)
                  (m\<lparr>sm_cache_misses := sm_cache_misses m + 1\<rparr>) env1 = Some (r, b', m', env')"
                using 1(5,6) lt c None True ok Cons Inr
                by (simp add: segment_batch_loop.simps [of sz "[]" b m "Inr d # env1"])
              from 1(1) [OF lt c [symmetric] None True ok(2) refl Cons Inr _ 1(4,5) this] inst
              show ?thesis by (fastforce split: sum.splits)
            qed
          qed
        qed
      qed
    qed
  qed
  from this [OF refl assms(3)] show ?thesis .
qed

lemma increasing_interval:
  assumes "n + k \<le> 2 ^ 128"
  shows "increasing (map (\<lambda>i. Id (of_nat i)) [n..<n + k])"
proof -
  have "id_nat (Id (of_nat i)) = i" if "i < 2 ^ 128" for i
    using that by (simp add: unsigned_of_nat take_bit_nat_eq_self)
  then have "map id_nat (map (\<lambda>i. Id (of_nat i)) [n..<n + k]) = map (\<lambda>i. i) [n..<n + k]"
    unfolding map_map using assms by (intro map_cong) auto
  then have "map id_nat (map (\<lambda>i. Id (of_nat i)) [n..<n + k]) = [n..<n + k]" by simp
  then show ?thesis unfolding increasing_id_nat by (simp only: sorted_wrt_upt)
qed

section \<open>Properties\<close>

definition demo_data :: "nat \<Rightarrow> nat \<Rightarrow> segment_data res" where
  "demo_data a b = Inr \<lparr>sd_start_id = of_nat a, sd_max_id = of_nat b, sd_step = 10, sd_version = 0\<rparr>"

lemma supplied_new:
  "fresh_from 0 env \<Longrightarrow> ranges env \<subseteq> A \<Longrightarrow> supplied A (ctx_buffer ctx (segment_alg_new dc)) env"
  by (simp add: supplied_def buf_ok_new get_or_create_buffer_def segment_alg_new_def buf_range_def
      buf_next_def) (simp add: double_buffer_new_def segment_new_def)

text \<open>
  C5. If every range the loader hands out starts at or above the end of the one before and of the numbers
  the buffer holds, as the ranges of the database's counter do, the identifiers a generator returns for
  one buffer increase strictly, so none is repeated, and lie in those ranges. The default loader does not
  keep this (\<open>default_loader_overlap\<close> below).
\<close>

theorem segment_strictly_increasing:
  assumes "supplied A (ctx_buffer ctx s) env"
    and "run_calls (segment_generate ctx) n s env = (rs, s', env')"
  shows "increasing (ok_ids rs) \<and> distinct (ok_ids rs) \<and> (\<forall>i \<in> set (ok_ids rs). id_nat i \<in> A) \<and>
    supplied A (ctx_buffer ctx s') env'"
  using seg.run_fresh [OF assms] seg.run_own [OF assms] seg.run_inv [OF assms]
  by (auto intro: increasing_distinct)

theorem segment_strictly_increasing_witness:
  "increasing (ok_ids (fst (run_calls (segment_generate generate_context_default) 3
     (segment_alg_new 0) [demo_data 5 7, demo_data 20 30])))"
proof -
  let ?env = "[demo_data 5 7, demo_data 20 30]"
  have s: "supplied UNIV (ctx_buffer generate_context_default (segment_alg_new 0)) ?env"
    by (rule supplied_new) (simp_all add: demo_data_def data_ok_def)
  obtain rs s' env' where
    r: "run_calls (segment_generate generate_context_default) 3 (segment_alg_new 0) ?env = (rs, s', env')"
    by (rule prod_cases3)
  from segment_strictly_increasing [OF s r] show ?thesis by (simp add: r)
qed

text \<open>
  A call takes the next number of the current segment when there is one. When the segment is used
  up it loads exactly once: it returns the first number of a non-empty new segment, or hands the
  loader's error on, leaves the buffer as it was and is ready to load again.
\<close>

theorem segment_generate_spec:
  fixes s :: segment_alg
  assumes "buf_ok (ctx_buffer ctx s)"
    and "0 < db_switch_threshold (ctx_buffer ctx s)"
  defines "g \<equiv> db_current (ctx_buffer ctx s)"
  shows "(seg_current_id g < seg_max_id g \<longrightarrow> (\<exists>s'. segment_generate ctx s env =
        Some (Inr (Id (ucast (seg_current_id g))), s', env) \<and>
        db_current (ctx_buffer ctx s') = g\<lparr>seg_current_id := seg_current_id g + 1\<rparr>)) \<and>
    (seg_current_id g = seg_max_id g \<longrightarrow>
      (\<forall>d env'. env = Inr d # env' \<and> data_ok d \<and> sd_start_id d < sd_max_id d \<longrightarrow>
        (\<exists>s'. segment_generate ctx s env = Some (Inr (Id (ucast (sd_start_id d))), s', env'))) \<and>
      (\<forall>e env'. env = Inl e # env' \<longrightarrow>
        (\<exists>s'. segment_generate ctx s env = Some (Inl e, s', env') \<and>
          ctx_buffer ctx s' = ctx_buffer ctx s)))"
proof -
  let ?b = "ctx_buffer ctx s"
  have ok: "seg_ok g" "db_next ?b = None" "\<not> db_loading ?b"
    using assms by (simp_all add: buf_ok_def)
  have take: "try_consume 1 h = (Some (seg_current_id h, seg_current_id h + 1),
      h\<lparr>seg_current_id := seg_current_id h + 1\<rparr>)" if "seg_ok h" "seg_current_id h < seg_max_id h" for h
    using try_consume_cases(1) [OF that(1), of 1] that(2) by (simp add: word_less_nat_alt)
  have three: "(3::nat) = Suc (Suc (Suc 0))" by simp
  show ?thesis
  proof (intro conjI impI allI)
    assume "seg_current_id g < seg_max_id g"
    with ok take [of g] show "\<exists>s'. segment_generate ctx s env =
        Some (Inr (Id (ucast (seg_current_id g))), s', env) \<and>
        db_current (ctx_buffer ctx s') = g\<lparr>seg_current_id := seg_current_id g + 1\<rparr>"
      by (simp add: segment_generate_def Let_def three set_current_def g_def)
  next
    fix d env'
    assume full: "seg_current_id g = seg_max_id g"
      and d: "env = Inr d # env' \<and> data_ok d \<and> sd_start_id d < sd_max_id d"
    have "try_consume 1 g = (None, g)"
      using try_consume_cases(1) [OF ok(1), of 1] full by simp
    moreover have "need_switch ?b"
      using need_switch_used_up [of ?b] full assms(2) by (simp add: g_def)
    moreover have "try_consume 1 (segment_new (sd_start_id d) (sd_max_id d) (sd_step d)) =
        (Some (sd_start_id d, sd_start_id d + 1),
         (segment_new (sd_start_id d) (sd_max_id d) (sd_step d))\<lparr>seg_current_id := sd_start_id d + 1\<rparr>)"
      using take [of "segment_new (sd_start_id d) (sd_max_id d) (sd_step d)"] d
      by (simp add: segment_new_def seg_ok_def data_ok_def order_less_imp_le)
    ultimately show "\<exists>s'. segment_generate ctx s env =
        Some (Inr (Id (ucast (sd_start_id d))), s', env')"
      using ok d by (simp add: segment_generate_def Let_def three g_def try_start_loading_def)
  next
    fix e env'
    assume full: "seg_current_id g = seg_max_id g" and e: "env = Inl e # env'"
    have "try_consume 1 g = (None, g)"
      using try_consume_cases(1) [OF ok(1), of 1] full by simp
    moreover have "need_switch ?b"
      using need_switch_used_up [of ?b] full assms(2) by (simp add: g_def)
    ultimately show "\<exists>s'. segment_generate ctx s env = Some (Inl e, s', env') \<and>
        ctx_buffer ctx s' = ?b"
      using ok e by (simp add: segment_generate_def Let_def three g_def try_start_loading_def)
  qed
qed

theorem segment_generate_spec_witness:
  "\<exists>s'. segment_generate generate_context_default (segment_alg_new 0) [demo_data 5 7] =
     Some (Inr (Id 5), s', [])"
proof -
  let ?s = "segment_alg_new 0" and ?c = generate_context_default
  have b: "ctx_buffer ?c ?s = double_buffer_new (f64_round (1 / 10))"
    by (simp add: get_or_create_buffer_def segment_alg_new_def segment_config_default_def)
  have "buf_ok (ctx_buffer ?c ?s)" "0 < db_switch_threshold (ctx_buffer ?c ?s)"
    by (simp_all add: b buf_ok_new) (simp add: double_buffer_new_def f64_round_pos)
  from segment_generate_spec [OF this, of "[demo_data 5 7]"] show ?thesis
    by (simp add: b double_buffer_new_def segment_new_def demo_data_def data_ok_def)
qed

text \<open>
  C18. If every range the loader hands out starts at or above the end of the one before and of the
  numbers the buffer holds, a batch of less than 2^63 is all or nothing: a successful one is exactly the
  requested count of consecutive numbers, at or above the next number of the buffer before, so new, and
  inside the loader's ranges; a refused one never takes the next number back.
\<close>

theorem segment_batch_spec:
  assumes "supplied A (ctx_buffer ctx s) env" "sz < 2 ^ 63"
    and "segment_batch_generate ctx sz s env = Some (r, s', env')"
  shows "supplied A (ctx_buffer ctx s') env' \<and> (case r of
      Inr b \<Rightarrow> 0 < sz \<and> (\<exists>start. batch_ids b = map (\<lambda>i. Id (of_nat i)) [start..<start + sz] \<and>
          increasing (batch_ids b) \<and> buf_next (ctx_buffer ctx s) \<le> start \<and>
          buf_next (ctx_buffer ctx s') = start + sz \<and> {start..<start + sz} \<subseteq> A)
    | Inl e \<Rightarrow> buf_next (ctx_buffer ctx s) \<le> buf_next (ctx_buffer ctx s'))"
proof -
  obtain r0 b m where
    l: "segment_batch_loop sz [] (ctx_buffer ctx s) (sa_metrics s) env = Some (r0, b, m, env')"
    using assms(3)
    by (auto simp: segment_batch_generate_def Let_def split: option.splits sum.splits if_splits)
  note sup = segment_batch_loop_supplied [OF assms(1,2) l]
  show ?thesis
  proof (cases r0)
    case (Inl e)
    with assms(3) l sup show ?thesis by (auto simp: segment_batch_generate_def)
  next
    case (Inr ids)
    show ?thesis
    proof (cases "ids = []")
      case True
      with Inr assms(3) l sup show ?thesis by (auto simp: segment_batch_generate_def)
    next
      case False
      with sup Inr obtain start where
        ids: "ids = map (\<lambda>i. Id (of_nat i)) [start..<start + sz]" "buf_next (ctx_buffer ctx s) \<le> start"
          "buf_next b = start + sz" "{start..<start + sz} \<subseteq> A" by auto
      have "unat (seg_current_id (db_current b)) < 2 ^ LENGTH(64)" by (rule unsigned_less)
      then have "buf_next b < 2 ^ 64" by (simp add: buf_next_def)
      then have "increasing ids"
        using ids(3) unfolding ids(1) by (intro increasing_interval) simp
      with False Inr assms(3) l sup ids show ?thesis
        by (auto simp: segment_batch_generate_def batch_new_def)
    qed
  qed
qed

theorem segment_batch_spec_witness:
  "map_option (\<lambda>(r, _). r) (segment_batch_generate generate_context_default 2 (segment_alg_new 0)
     [demo_data 5 9]) = Some (Inr (batch_new [Id 5, Id 6] Segment [])) \<and> increasing [Id 5, Id 6]"
proof -
  let ?c = generate_context_default and ?s = "segment_alg_new 0" and ?env = "[demo_data 5 9]"
  have s: "supplied UNIV (ctx_buffer ?c ?s) ?env"
    by (rule supplied_new) (simp_all add: demo_data_def data_ok_def)
  have e: "map_option (\<lambda>(r, _). r) (segment_batch_generate ?c 2 ?s ?env) =
      Some (Inr (batch_new [Id 5, Id 6] Segment []))" by code_simp
  then obtain s' env' where
    b: "segment_batch_generate ?c 2 ?s ?env = Some (Inr (batch_new [Id 5, Id 6] Segment []), s', env')"
    by auto
  from segment_batch_spec [OF s _ b] e show ?thesis by (auto simp: batch_new_def)
qed

text \<open>
  A batch larger than what is left of a segment that is not yet low fails without asking the loader,
  although single calls would succeed: the buffer only switches below the threshold.
\<close>

theorem segment_batch_refused:
  assumes "buf_ok (ctx_buffer ctx s)" "sz < 2 ^ 63" "\<not> need_switch (ctx_buffer ctx s)"
    and "unat (seg_max_id (db_current (ctx_buffer ctx s))) < buf_next (ctx_buffer ctx s) + sz"
  shows "\<exists>s'. segment_batch_generate ctx sz s env =
      Some (Inl (SegmentExhausted (seg_max_id (db_current (ctx_buffer ctx s)))), s', env) \<and>
    ctx_buffer ctx s' = ctx_buffer ctx s"
proof -
  let ?b = "ctx_buffer ctx s"
  have ok: "seg_ok (db_current ?b)" using assms(1) by (simp add: buf_ok_def)
  have n: "unat (of_nat sz :: u64) = sz"
    using assms(2) by (simp add: unsigned_of_nat take_bit_nat_eq_self)
  have "sz \<noteq> 0"
    using assms(4) ok by (auto simp: seg_ok_def buf_next_def word_le_nat_alt)
  moreover have "try_consume (of_nat sz) (db_current ?b) = (None, db_current ?b)"
    using try_consume_cases(1) [OF ok, of "of_nat sz"] n assms(2,4) by (simp add: buf_next_def)
  ultimately show ?thesis
    using assms(3)
    by (simp add: segment_batch_generate_def Let_def segment_batch_loop.simps)
qed

definition half_used :: segment_alg where
  "half_used = put_buffer (buffer_key generate_context_default)
     ((double_buffer_new (f64_round (1 / 10)))
        \<lparr>db_current := (segment_new 100 110 10)\<lparr>seg_current_id := 105\<rparr>\<rparr>)
     (sa_metrics (segment_alg_new 0)) (segment_alg_new 0)"

theorem segment_batch_refused_witness:
  "(\<exists>s'. segment_batch_generate generate_context_default 6 half_used [demo_data 200 300] =
     Some (Inl (SegmentExhausted 110), s', [demo_data 200 300])) \<and>
   map_option fst (segment_generate generate_context_default half_used []) = Some (Inr (Id 105))"
proof -
  let ?b = "ctx_buffer generate_context_default half_used"
  have b: "?b = (double_buffer_new (f64_round (1 / 10)))
        \<lparr>db_current := (segment_new 100 110 10)\<lparr>seg_current_id := 105\<rparr>\<rparr>"
    by (simp add: half_used_def)
  have "buf_ok ?b" by (simp add: b buf_ok_def double_buffer_new_def segment_new_def seg_ok_def)
  moreover have "\<not> need_switch ?b" unfolding b by code_simp
  moreover have "unat (seg_max_id (db_current ?b)) < buf_next ?b + 6"
    by (simp add: b buf_next_def segment_new_def)
  moreover have "map_option fst (segment_generate generate_context_default half_used []) =
      Some (Inr (Id 105))" by code_simp
  ultimately show ?thesis
    using segment_batch_refused [of generate_context_default half_used 6 "[demo_data 200 300]"]
    by (auto simp: b segment_new_def)
qed

text \<open>
  A threshold of 0, which the configuration check accepts, stops the generator for good after its
  first non-empty segment: the used-up buffer never switches, every later call fails and no
  answer of the loader is ever taken.
\<close>

theorem segment_threshold_zero:
  fixes s :: segment_alg
  assumes "buf_ok (ctx_buffer ctx s)" "db_switch_threshold (ctx_buffer ctx s) = 0"
    and "seg_start_id (db_current (ctx_buffer ctx s)) < seg_max_id (db_current (ctx_buffer ctx s))"
    and "seg_current_id (db_current (ctx_buffer ctx s)) = seg_max_id (db_current (ctx_buffer ctx s))"
  shows "\<exists>s'. segment_generate ctx s env =
      Some (Inl (SegmentExhausted (seg_max_id (db_current (ctx_buffer ctx s)))), s', env) \<and>
    ctx_buffer ctx s' = ctx_buffer ctx s"
proof -
  let ?b = "ctx_buffer ctx s"
  have ok: "seg_ok (db_current ?b)" using assms(1) by (simp add: buf_ok_def)
  have "\<not> need_switch ?b" using need_switch_used_up [of ?b] assms by auto
  moreover have "try_consume 1 (db_current ?b) = (None, db_current ?b)"
    using try_consume_cases(1) [OF ok, of 1] assms(4) by simp
  ultimately show ?thesis by (simp add: segment_generate_def Let_def numeral_3_eq_3)
qed

theorem segment_threshold_zero_witness:
  "\<exists>s'. segment_generate generate_context_default
     (put_buffer (buffer_key generate_context_default)
       ((double_buffer_new 0)\<lparr>db_current := (segment_new 100 110 10)\<lparr>seg_current_id := 110\<rparr>\<rparr>)
       (sa_metrics (segment_alg_new 0)) (segment_alg_new 0)) [demo_data 200 300] =
     Some (Inl (SegmentExhausted 110), s', [demo_data 200 300])"
  (is "\<exists>s'. segment_generate ?c ?s ?env = _")
proof -
  have "buf_ok (ctx_buffer ?c ?s)"
    by (simp add: buf_ok_def double_buffer_new_def segment_new_def seg_ok_def)
  then show ?thesis
    using segment_threshold_zero [of ?c ?s ?env]
    by (auto simp: double_buffer_new_def segment_new_def)
qed

text \<open>
  The default loader, the one the production factory leaves in place, hands out overlapping ranges:
  two loads less than 100 seconds apart share numbers, so two nodes that start in the same second
  return the same first identifier for every workspace and tag.
\<close>

theorem default_loader_overlap:
  assumes "0 \<le> now1" "now1 div 10 ^ 9 \<le> now2 div 10 ^ 9"
    and "now2 div 10 ^ 9 < now1 div 10 ^ 9 + 100" "now2 div 10 ^ 9 < 10 ^ 12"
  shows "\<exists>d1 d2. default_load_segment now1 = Inr d1 \<and> default_load_segment now2 = Inr d2 \<and>
    data_ok d1 \<and> data_ok d2 \<and>
    unat (sd_start_id d2) \<in> {unat (sd_start_id d1)..<unat (sd_max_id d1)} \<inter>
      {unat (sd_start_id d2)..<unat (sd_max_id d2)}"
proof -
  have val: "unat (of_int t * 10000 :: u64) = nat t * 10000 \<and>
      unat (of_int t * 10000 + 1000000 :: u64) = nat t * 10000 + 1000000"
    if "0 \<le> t" "t < 10 ^ 12" for t :: int
  proof -
    have w: "(of_int t * 10000 :: u64) = of_nat (nat t * 10000)"
      "(of_int t * 10000 + 1000000 :: u64) = of_nat (nat t * 10000 + 1000000)"
      using that(1) by simp_all
    have "nat t < 10 ^ 12" using that by simp
    have small: "unat (of_nat n :: u64) = n" if "n < 2 ^ 64" for n
      using that by (simp add: unsigned_of_nat take_bit_nat_eq_self)
    show ?thesis
      unfolding w(2) unfolding w(1) by (intro conjI small) (use \<open>nat t < 10 ^ 12\<close> in simp_all)
  qed
  have "0 \<le> now1 div 10 ^ 9" using assms(1) by (simp add: pos_imp_zdiv_nonneg_iff)
  then have t: "0 \<le> now1 div 10 ^ 9" "0 \<le> now2 div 10 ^ 9" "now1 div 10 ^ 9 < 10 ^ 12"
    using assms(2,4) by linarith+
  from t(2) have "0 \<le> now2" by (subst (asm) pos_imp_zdiv_nonneg_iff) simp_all
  note v = val [OF t(1,3)] val [OF t(2) assms(4)]
  have "nat (now2 div 10 ^ 9) < nat (now1 div 10 ^ 9) + 100" "nat (now1 div 10 ^ 9) \<le> nat (now2 div 10 ^ 9)"
    using assms t by linarith+
  moreover have "nat (now1 div 10 ^ 9) < 10 ^ 12" "nat (now2 div 10 ^ 9) < 10 ^ 12"
    using t assms by (simp_all add: nat_less_iff)
  ultimately show ?thesis
    using \<open>0 \<le> now2\<close> assms(1) v
    by (simp add: default_load_segment_def Let_def data_ok_def word_le_nat_alt)
qed

theorem default_loader_overlap_witness:
  "\<exists>d1 d2. default_load_segment (1700000000 * 10 ^ 9) = Inr d1 \<and>
     default_load_segment (1700000050 * 10 ^ 9) = Inr d2 \<and> data_ok d1 \<and> data_ok d2 \<and>
     unat (sd_start_id d2) < unat (sd_max_id d1)"
  using default_loader_overlap [of "1700000000 * 10 ^ 9" "1700000050 * 10 ^ 9"] by auto

end
