(* ===== verification/Segment_Loader.thy ===== *)
theory Segment_Loader
  imports Segment_Race Segment_Gen Step_Calc Dc_Health
begin

text \<open>
  The loaders that fill a segment buffer from the database, \<open>DatabaseSegmentLoader\<close> and
  \<open>RepositoryBackedLoader\<close> of \<open>src/src/core/algorithm/segment.rs\<close>: the dynamic step, the choice of
  the data centre and its health, and the allocation of \<open>Segment_Repo\<close>. \<open>etext\<close> is the text of an
  error, \<open>now_s\<close> the second and \<open>now\<close> the instant at which the loader reads its clocks.

  The last part puts the repository and the generator together: nodes whose loads run at the same time
  on one database never return the same identifier for a workspace and tag, if the lock excludes.
\<close>

section \<open>The loaders\<close>

record database_loader =
  dl_detector :: dc_detector
  dl_local_dc_id :: u8
  dl_step_calculator :: step_calculator
  dl_segment_config :: segment_config
  dl_counter :: u64
  dl_qps_window :: qps_window

definition database_loader_new ::
  "dc_detector \<Rightarrow> u8 \<Rightarrow> segment_config \<Rightarrow> u64 \<Rightarrow> database_loader" where
  "database_loader_new dt dc cfg now_s =
     \<lparr>dl_detector = dt, dl_local_dc_id = dc, dl_step_calculator = step_calculator_default,
      dl_segment_config = cfg, dl_counter = 0, dl_qps_window = qps_window_new now_s\<rparr>"

definition as_i32 :: "u64 \<Rightarrow> int" where
  "as_i32 x = sint (ucast x :: u32)"

definition info_data :: "segment_info \<Rightarrow> segment_data" where
  "info_data i =
     \<lparr>sd_start_id = of_int (si_current_id i), sd_max_id = of_int (si_max_id i),
      sd_step = ucast (si_step i), sd_version = 0\<rparr>"

definition loader_answer :: "(core_error \<Rightarrow> string) \<Rightarrow> segment_info res \<Rightarrow> segment_data res" where
  "loader_answer etext r = map_sum (\<lambda>e. DatabaseError (etext e)) info_data r"

definition loader_step :: "u64 \<Rightarrow> database_loader \<Rightarrow> u64 option \<times> database_loader" where
  "loader_step now_s ld =
     (let (qps, w) = record_and_get_qps now_s (dl_qps_window ld);
          cfg = dl_segment_config ld
      in (calculate_step qps (base_step cfg) cfg (dl_step_calculator ld),
          ld\<lparr>dl_counter := dl_counter ld + 1, dl_qps_window := w\<rparr>))"

text \<open>\<open>None\<close> is the panic of the step calculation.\<close>

definition database_load_segment ::
  "(core_error \<Rightarrow> string) \<Rightarrow> 'l lock_service option \<Rightarrow> 'd segment_db \<Rightarrow> u64 \<Rightarrow> nat \<Rightarrow> generate_context \<Rightarrow>
   database_loader \<Rightarrow> 'l \<times> 'd \<Rightarrow> (segment_data res \<times> database_loader \<times> 'l \<times> 'd) option" where
  "database_load_segment etext lock db now_s now ctx ld st =
     (case loader_step now_s ld of
        (None, _) \<Rightarrow> None
      | (Some step, ld1) \<Rightarrow>
          (let dc = select_best_dc (dl_local_dc_id ld1) (dl_detector ld1);
               known = get_dc_state dc (dl_detector ld1) \<noteq> None;
               (r, st') = (if known
                 then allocate_segment_with_dc lock db (ctx_workspace_id ctx) (ctx_biz_tag ctx)
                        (as_i32 step) (int (unat dc)) st
                 else allocate_segment lock db (ctx_workspace_id ctx) (ctx_biz_tag ctx)
                        (as_i32 step) st);
               record = (if isl r then dc_record_failure else dc_record_success now)
           in Some (loader_answer etext r,
                    if known then ld1\<lparr>dl_detector := on_dc dc record (dl_detector ld1)\<rparr> else ld1,
                    st')))"

definition repository_load_segment ::
  "(core_error \<Rightarrow> string) \<Rightarrow> 'l lock_service option \<Rightarrow> 'd segment_db \<Rightarrow> segment_config \<Rightarrow>
   generate_context \<Rightarrow> 'l \<times> 'd \<Rightarrow> segment_data res \<times> 'l \<times> 'd" where
  "repository_load_segment etext lock db cfg ctx st =
     (case allocate_segment lock db (ctx_workspace_id ctx) (ctx_biz_tag ctx)
             (as_i32 (base_step cfg)) st of
        (r, st') \<Rightarrow> (loader_answer etext r, st'))"

section \<open>Health of the data centre\<close>

lemma get_dc_state_on_dc:
  "get_dc_state i (on_dc j f dt) = (if i = j then map_option f (get_dc_state i dt) else get_dc_state i dt)"
  by (simp add: get_dc_state_def on_dc_def map_of_map_entry split: option.split)

text \<open>
  A load records exactly its outcome on exactly the data centre it used: a failure counts there, a
  success clears the count there, and no other data centre is touched.
\<close>

theorem load_records_outcome:
  assumes "database_load_segment etext lock db now_s now ctx ld st = Some (r, ld', st')"
  defines "dc \<equiv> select_best_dc (dl_local_dc_id ld) (dl_detector ld)"
  shows "get_dc_state i (dl_detector ld') =
    (if i = dc then map_option (if isl r then dc_record_failure else dc_record_success now)
       (get_dc_state i (dl_detector ld))
     else get_dc_state i (dl_detector ld))"
  using assms(1)
  by (auto simp: database_load_segment_def loader_step_def loader_answer_def Let_def dc_def
      get_dc_state_on_dc isl_map_sum split: prod.splits option.splits if_splits)

definition one_dc_loader :: database_loader where
  "one_dc_loader = database_loader_new (add_dc 7 0 (detector_new 3 0)) 7 segment_config_default 0"

definition one_dc_load ::
  "(segment_data res \<times> database_loader \<times> unit \<times> table_state) option" where
  "one_dc_load = database_load_segment (\<lambda>_. ''down'') None table_db 0 0 generate_context_default
     one_dc_loader ((), table_of [])"

theorem load_records_outcome_witness:
  "\<exists>r ld' st'. one_dc_load = Some (r, ld', st') \<and> isl r \<and>
     get_dc_state 7 (dl_detector ld') =
       map_option dc_record_failure (get_dc_state 7 (dl_detector one_dc_loader))"
proof -
  have dc: "select_best_dc (dl_local_dc_id one_dc_loader) (dl_detector one_dc_loader) = 7"
    by code_simp
  obtain qps w where "record_and_get_qps 0 (dl_qps_window one_dc_loader) = (qps, w)"
    by (cases "record_and_get_qps 0 (dl_qps_window one_dc_loader)")
  moreover obtain step where "calculate_step qps (base_step (dl_segment_config one_dc_loader))
      (dl_segment_config one_dc_loader) (dl_step_calculator one_dc_loader) = Some step"
    using calculate_step_clamped [of segment_config_default qps 1000 step_calculator_default]
    by (auto simp: one_dc_loader_def database_loader_new_def segment_config_default_def)
  ultimately obtain ld1 where "loader_step 0 one_dc_loader = (Some step, ld1)"
    by (auto simp: loader_step_def Let_def)
  then obtain r ld' st' where l: "one_dc_load = Some (r, ld', st')" "isl r"
    by (simp add: one_dc_load_def database_load_segment_def allocate_segment_def
        allocate_segment_with_dc_def allocate_locked_def loader_answer_def Let_def cong: if_cong)
  from load_records_outcome [OF l(1) [unfolded one_dc_load_def], of 7] l(2) dc
  have "get_dc_state 7 (dl_detector ld') =
      map_option dc_record_failure (get_dc_state 7 (dl_detector one_dc_loader))"
    by simp
  with l show ?thesis by blast
qed

section \<open>Nodes that share a database\<close>

text \<open>
  Loads of any nodes through \<open>RepositoryBackedLoader\<close>, one task of \<open>Segment_Race\<close> each: \<open>loads t\<close> is the
  node, the configuration and the context of task \<open>t\<close>. \<open>env_of n k\<close> is what the loads of node \<open>n\<close> for
  the workspace and tag \<open>k\<close> returned, in this order.
\<close>

definition load_key :: "generate_context \<Rightarrow> string \<times> string" where
  "load_key ctx = (ctx_workspace_id ctx, ctx_biz_tag ctx)"

definition loader_request :: "segment_config \<Rightarrow> generate_context \<Rightarrow> alloc_request" where
  "loader_request cfg ctx =
     \<lparr>aq_workspace_id = ctx_workspace_id ctx, aq_biz_tag = ctx_biz_tag ctx,
      aq_step = as_i32 (base_step cfg), aq_dc = None\<rparr>"

type_synonym load_tasks = "nat \<Rightarrow> nat \<times> segment_config \<times> generate_context"

definition task_request :: "load_tasks \<Rightarrow> nat \<Rightarrow> alloc_request" where
  "task_request loads t = loader_request (fst (snd (loads t))) (snd (snd (loads t)))"

definition task_return :: "load_tasks \<Rightarrow> nat \<times> segment_info res \<Rightarrow> nat \<times> (string \<times> string) \<times> segment_info res" where
  "task_return loads x = (fst (loads (fst x)), load_key (snd (snd (loads (fst x)))), snd x)"

definition env_of ::
  "(core_error \<Rightarrow> string) \<Rightarrow> load_tasks \<Rightarrow> nat \<Rightarrow> string \<times> string \<Rightarrow> (nat \<times> segment_info res) list \<Rightarrow>
   segment_data res list" where
  "env_of etext loads n k rets =
     map (\<lambda>x. loader_answer etext (snd (snd x)))
       (filter (\<lambda>x. fst x = n \<and> fst (snd x) = k) (map (task_return loads) rets))"

lemma loader_answer_simps [simp]:
  "loader_answer etext (Inl e) = Inl (DatabaseError (etext e))"
  "loader_answer etext (Inr i) = Inr (info_data i)"
  by (simp_all add: loader_answer_def)

lemma unat_of_int:
  assumes "0 \<le> x" "x < 2 ^ 63"
  shows "unat (of_int x :: u64) = nat x"
proof -
  have "(of_int x :: u64) = of_nat (nat x)" using assms by simp
  moreover have "nat x < 2 ^ 64" using assms by (simp add: nat_less_iff)
  ultimately show ?thesis by (simp add: unsigned_of_nat take_bit_nat_eq_self)
qed

definition info_ok :: "int \<Rightarrow> segment_info \<Rightarrow> bool" where
  "info_ok lo i \<longleftrightarrow> lo \<le> si_current_id i \<and> si_current_id i \<le> si_max_id i \<and> si_max_id i < 2 ^ 63"

lemma info_data_bounds:
  assumes "info_ok lo i" "0 \<le> lo"
  shows "unat (sd_start_id (info_data i)) = nat (si_current_id i)"
    "unat (sd_max_id (info_data i)) = nat (si_max_id i)" "data_ok (info_data i)"
  using assms
  by (auto simp: info_ok_def info_data_def data_ok_def unat_of_int word_le_nat_alt nat_less_iff)

lemma answers_fresh:
  assumes "sorted_wrt (\<lambda>x y. range_before (snd x) (snd y)) xs" "0 \<le> lo"
    and "\<forall>x \<in> set xs. fst (snd x) = k \<and> (\<forall>i. snd (snd x) = Inr i \<longrightarrow> info_ok lo i)"
  shows "fresh_from (nat lo) (map (\<lambda>x. loader_answer etext (snd (snd x))) xs)"
  using assms
proof (induction xs arbitrary: lo)
  case (Cons x xs)
  obtain n r where x: "x = (n, k, r)" using Cons.prems(3) by (cases x) auto
  show ?case
  proof (cases r)
    case (Inl e)
    then show ?thesis
      using Cons.IH [of lo] Cons.prems by (auto simp: x)
  next
    case (Inr i)
    then have i: "info_ok lo i" using Cons.prems(3) by (simp add: x)
    have "info_ok (si_max_id i) j" if "y \<in> set xs" "snd (snd y) = Inr j" for y j
    proof -
      from that Cons.prems(3) have y: "snd y = (k, Inr j)" "info_ok lo j"
        by (auto simp: prod_eq_iff)
      have "range_before (k, Inr i) (snd y)" using Cons.prems(1) that(1) by (simp add: x Inr)
      with y show ?thesis by (simp add: info_ok_def)
    qed
    then have "fresh_from (nat (si_max_id i)) (map (\<lambda>x. loader_answer etext (snd (snd x))) xs)"
      using Cons.prems i by (intro Cons.IH) (auto simp: info_ok_def)
    then show ?thesis
      using info_data_bounds [OF i Cons.prems(2)] i
      by (auto simp: x Inr info_ok_def nat_le_eq_zle)
  qed
qed simp

lemma ranges_answers:
  "v \<in> ranges (map (\<lambda>x. loader_answer etext (snd (snd x))) xs) \<Longrightarrow>
     \<exists>x \<in> set xs. \<exists>i. snd (snd x) = Inr i \<and> unat (sd_start_id (info_data i)) \<le> v \<and>
       v < unat (sd_max_id (info_data i))"
proof (induction xs)
  case (Cons x xs)
  then show ?case by (cases "snd (snd x)") auto
qed simp

lemma sorted_wrt_pair:
  "sorted_wrt P xs \<Longrightarrow> x \<in> set xs \<Longrightarrow> y \<in> set xs \<Longrightarrow> x \<noteq> y \<Longrightarrow> P x y \<or> P y x"
  by (induction xs) auto

text \<open>What the loads of one database look like, seen from a node: fresh ranges, apart from every other node's.\<close>

lemma shared_loads:
  assumes con: "shared_table db committed" "lock_excludes ls l0" "store_inv plain_key (committed d0)"
    and steps: "\<And>t. 0 \<le> aq_step (task_request loads t)"
    and lo: "0 \<le> next_free (plain_key k) 1 (committed d0)"
    and run: "system_reachable ls db (task_request loads) l0 d0 s"
  shows "fresh_from 0 (env_of etext loads n k (sys_returns s))"
    and "n \<noteq> m \<Longrightarrow>
      ranges (env_of etext loads n k (sys_returns s)) \<inter> ranges (env_of etext loads m k (sys_returns s)) = {}"
proof -
  define lo where "lo = next_free (plain_key k) 1 (committed d0)"
  define xs where "xs = map (task_return loads) (sys_returns s)"
  define own where "own = (\<lambda>n. filter (\<lambda>x. fst x = n \<and> fst (snd x) = k) xs)"
  have key: "plain_request_key (task_request loads t) = load_key (snd (snd (loads t)))" for t
    by (simp add: plain_request_key_def task_request_def loader_request_def load_key_def)
  have fam: "alloc_family (\<lambda>t. plain_request_key (task_request loads t)) plain_key (\<lambda>_. 1) (task_request loads)"
    by (rule plain_family) (use steps in \<open>simp add: task_request_def loader_request_def\<close>)
  note ord = alloc_family.reachable_returns [OF fam con run]
  have sorted: "sorted_wrt (\<lambda>x y. range_before (snd x) (snd y)) xs"
    using ord unfolding xs_def sorted_wrt_map
    by (simp add: task_return_def key case_prod_beta)
  have info: "info_ok lo i" if mem: "x \<in> set xs" "fst (snd x) = k" "snd (snd x) = Inr i" for x i
  proof -
    obtain y where y: "y \<in> set (sys_returns s)" "x = task_return loads y"
      using mem(1) unfolding xs_def set_map by blast
    obtain t r where t: "y = (t, r)" by (cases y)
    have "r = Inr i" "load_key (snd (snd (loads t))) = k"
      using mem(2,3) y(2) by (simp_all add: t task_return_def)
    then have "(t, Inr i) \<in> set (sys_returns s)" "load_key (snd (snd (loads t))) = k"
      using y(1) t by simp_all
    with ord show ?thesis unfolding lo_def info_ok_def key by fastforce
  qed
  have env: "env_of etext loads n k (sys_returns s) = map (\<lambda>x. loader_answer etext (snd (snd x))) (own n)" for n
    by (simp add: env_of_def own_def xs_def)
  have "fresh_from (nat lo) (env_of etext loads n k (sys_returns s))"
    unfolding env
    by (rule answers_fresh [where k = k])
      (use sorted info lo in \<open>auto simp: own_def lo_def sorted_wrt_filter\<close>)
  moreover have "fresh_from a e \<Longrightarrow> fresh_from 0 e" for a e
    by (induction a e rule: fresh_from.induct) auto
  ultimately show "fresh_from 0 (env_of etext loads n k (sys_returns s))" by blast
  show "ranges (env_of etext loads n k (sys_returns s)) \<inter> ranges (env_of etext loads m k (sys_returns s)) = {}"
    if "n \<noteq> m"
  proof (rule equals0I, elim IntE)
    fix v
    assume "v \<in> ranges (env_of etext loads n k (sys_returns s))"
      "v \<in> ranges (env_of etext loads m k (sys_returns s))"
    then obtain x i y j where x: "x \<in> set (own n)" "snd (snd x) = Inr i"
        "unat (sd_start_id (info_data i)) \<le> v" "v < unat (sd_max_id (info_data i))"
      and y: "y \<in> set (own m)" "snd (snd y) = Inr j"
        "unat (sd_start_id (info_data j)) \<le> v" "v < unat (sd_max_id (info_data j))"
      unfolding env by (blast dest: ranges_answers)
    have k: "fst x = n" "fst y = m" "fst (snd x) = k" "fst (snd y) = k" "x \<in> set xs" "y \<in> set xs"
      using x(1) y(1) by (auto simp: own_def)
    then have "x \<noteq> y" using that by auto
    from sorted_wrt_pair [OF sorted k(5,6) this] x(2) y(2) k
    have "si_max_id i \<le> si_current_id j \<or> si_max_id j \<le> si_current_id i"
      by (cases x; cases y) auto
    moreover note info_data_bounds [OF info [OF k(5,3) x(2)]] info_data_bounds [OF info [OF k(6,4) y(2)]]
    ultimately show False using x y lo by (auto simp: lo_def)
  qed
qed

text \<open>
  C4. Any number of nodes, each with a fresh generator that \<open>RepositoryBackedLoader\<close> feeds from the one
  database, under a lock that excludes and with base steps that fit 32 bits: however their loads
  interleave and whatever fails, no two of them ever return the same identifier for a workspace and
  tag, and a node never returns one twice.
\<close>

theorem nodes_never_collide:
  assumes "shared_table db committed" "lock_excludes ls l0" "store_inv plain_key (committed d0)"
    and "\<And>t. 0 \<le> aq_step (task_request loads t)"
    and "0 \<le> next_free (plain_key (load_key ctx)) 1 (committed d0)"
    and "system_reachable ls db (task_request loads) l0 d0 s"
    and "run_calls (segment_generate ctx) c (segment_alg_new dc)
      (env_of etext loads n (load_key ctx) (sys_returns s)) = (rs, s1, env1)"
    and "run_calls (segment_generate ctx) c' (segment_alg_new dc')
      (env_of etext loads m (load_key ctx) (sys_returns s)) = (rs', s2, env2)"
  shows "distinct (ok_ids rs) \<and> (n \<noteq> m \<longrightarrow> set (ok_ids rs) \<inter> set (ok_ids rs') = {})"
proof -
  note sh = shared_loads [OF assms(1-6), where etext = etext]
  have sup: "supplied (ranges (env_of etext loads n (load_key ctx) (sys_returns s)))
      (ctx_buffer ctx (segment_alg_new dc)) (env_of etext loads n (load_key ctx) (sys_returns s))" for n dc
    by (rule supplied_new) (simp_all add: sh(1))
  have "distinct (ok_ids rs)"
    using seg.run_fresh [OF sup assms(7)] by (auto intro: increasing_distinct)
  moreover have "set (ok_ids rs) \<inter> set (ok_ids rs') = {}" if "n \<noteq> m"
    using seg.run_own [OF sup assms(7)] seg.run_own [OF sup assms(8)] sh(2) [OF that] by blast
  ultimately show ?thesis by blast
qed

definition demo_loads :: load_tasks where
  "demo_loads t = (if t = 1 then 1 else 0, segment_config_default, generate_context_default)"

definition demo_nodes :: "(lock_table, shared_state) alloc_system" where
  "demo_nodes = run_schedule served_next shared_rows_db (task_request demo_loads)
     [0, 0, 0, 0, 1, 1, 1, 1, 2, 2, 2, 2] (system_start (task_request demo_loads) lock_table_new no_rows)"

definition demo_env :: "nat \<Rightarrow> segment_data res list" where
  "demo_env n = env_of (\<lambda>_. ''down'') demo_loads n (load_key generate_context_default)
     (sys_returns demo_nodes)"

theorem nodes_never_collide_witness:
  "map (map_sum (\<lambda>_. ()) sd_start_id) (demo_env 0) = [Inr 1, Inr 2001] \<and>
   map (map_sum (\<lambda>_. ()) sd_start_id) (demo_env 1) = [Inr 1001] \<and>
   set (ok_ids (fst (run_calls (segment_generate generate_context_default) 3 (segment_alg_new 0)
       (demo_env 0)))) \<inter>
   set (ok_ids (fst (run_calls (segment_generate generate_context_default) 3 (segment_alg_new 0)
       (demo_env 1)))) = {}"
proof (intro conjI)
  let ?ctx = generate_context_default
  let ?gen = "run_calls (segment_generate ?ctx) 3 (segment_alg_new 0)"
  obtain rs s1 env1 where r0: "?gen (demo_env 0) = (rs, s1, env1)" by (rule prod_cases3)
  obtain rs' s2 env2 where r1: "?gen (demo_env 1) = (rs', s2, env2)" by (rule prod_cases3)
  have reach: "system_reachable (service_step local_acquire guard_release) shared_rows_db
      (task_request demo_loads) lock_table_new no_rows demo_nodes"
    unfolding demo_nodes_def by (rule schedule_reachable [OF served_next_step])
  have "as_i32 (base_step segment_config_default) = 1000" by code_simp
  then have step: "0 \<le> aq_step (task_request demo_loads t)" for t
    by (simp add: task_request_def demo_loads_def loader_request_def)
  have lo: "0 \<le> next_free (plain_key (load_key ?ctx)) 1 (ss_rows no_rows)"
    by (simp add: next_free_def no_rows_def)
  show "set (ok_ids (fst (?gen (demo_env 0)))) \<inter> set (ok_ids (fst (?gen (demo_env 1)))) = {}"
    using nodes_never_collide [OF shared_rows.shared_table_axioms local.service_excludes
        store_inv_no_rows step lo reach r0 [unfolded demo_env_def] r1 [unfolded demo_env_def]]
    unfolding r0 r1 by simp
qed code_simp+

text \<open>
  The step reaches the database as a 32-bit number. A base step of three thousand million, which the
  validation accepts, arrives negative: the first load covers nearly the whole 64-bit range, and the
  second ends below its start.
\<close>

definition huge_step_load ::
  "lock_table \<times> table_state \<Rightarrow> segment_data res \<times> lock_table \<times> table_state" where
  "huge_step_load = repository_load_segment (\<lambda>_. ''down'') (Some local_service) table_db
     (segment_config_default\<lparr>base_step := 3000000000, max_step := 4000000000\<rparr>) generate_context_default"

theorem step_beyond_i32:
  "(let (r1, st1) = huge_step_load (lock_table_new, table_of []); (r2, st2) = huge_step_load st1
    in [r1, r2]) =
     [Inr \<lparr>sd_start_id = 1, sd_max_id = 18446744072414584321, sd_step = 3000000000, sd_version = 0\<rparr>,
      Inr \<lparr>sd_start_id = 18446744072414584321, sd_max_id = 18446744071119617025,
           sd_step = 3000000000, sd_version = 0\<rparr>]"
  by code_simp

end
