(* ===== verification/Error_Response.thy ===== *)
theory Error_Response
  imports Types_Id
begin

text \<open>
  The mapping from errors to HTTP responses, \<open>src/src/server/handlers/helpers.rs\<close>. Translation
  belongs to the i18n catalogue: \<open>tr locale key args\<close> is the text it gives. A string is its list of
  UTF-8 bytes. Logging is left out.
\<close>

type_synonym translate = "string \<Rightarrow> string \<Rightarrow> (string \<times> string) list \<Rightarrow> string"

definition to_localized_string :: "translate \<Rightarrow> string \<Rightarrow> core_error \<Rightarrow> string" where
  "to_localized_string tr loc e = tr loc (i18n_key e) (i18n_args e)"

fun core_error_status_code :: "core_error \<Rightarrow> nat" where
  "core_error_status_code (InvalidIdFormat _) = 400"
| "core_error_status_code (InvalidIdString _) = 400"
| "core_error_status_code (InvalidAlgorithmType _) = 400"
| "core_error_status_code (InvalidInput _) = 400"
| "core_error_status_code (ParseError _) = 400"
| "core_error_status_code (AuthenticationError _) = 401"
| "core_error_status_code InvalidApiKeySignature = 401"
| "core_error_status_code ApiKeyDisabled = 401"
| "core_error_status_code ApiKeyExpired = 401"
| "core_error_status_code (WorkspaceDisabled _) = 403"
| "core_error_status_code (NotFound _) = 404"
| "core_error_status_code (BizTagNotFound _) = 404"
| "core_error_status_code RateLimitExceeded = 429"
| "core_error_status_code TimeoutError = 503"
| "core_error_status_code _ = 500"

section \<open>Truncation\<close>

text \<open>\<open>str::is_char_boundary\<close>: not inside a multi-byte sequence and not past the end.\<close>

definition is_char_boundary :: "string \<Rightarrow> nat \<Rightarrow> bool" where
  "is_char_boundary s i =
     (i = 0 \<or> i = length s \<or> i < length s \<and> \<not> (128 \<le> code_of (s ! i) \<and> code_of (s ! i) < 192))"

fun round_down :: "string \<Rightarrow> nat \<Rightarrow> nat" where
  "round_down s 0 = 0"
| "round_down s (Suc n) = (if is_char_boundary s (Suc n) then Suc n else round_down s n)"

definition MAX_CLIENT_MESSAGE_LEN :: nat where
  "MAX_CLIENT_MESSAGE_LEN = 200"

definition sanitize_for_production :: "string \<Rightarrow> string" where
  "sanitize_for_production msg =
     (if length msg > MAX_CLIENT_MESSAGE_LEN
      then take (round_down msg MAX_CLIENT_MESSAGE_LEN) msg @ ''... (truncated)''
      else msg)"

section \<open>Responses\<close>

record error_response =
  er_code :: int
  er_message :: string
  er_details :: "string option"

definition error_response_new :: "int \<Rightarrow> string \<Rightarrow> error_response" where
  "error_response_new code message = \<lparr>er_code = code, er_message = message, er_details = None\<rparr>"

definition error_response_with_details :: "int \<Rightarrow> string \<Rightarrow> string \<Rightarrow> error_response" where
  "error_response_with_details code message details =
     \<lparr>er_code = code, er_message = message, er_details = Some details\<rparr>"

fun client_message :: "translate \<Rightarrow> string \<Rightarrow> core_error \<Rightarrow> string" where
  "client_message tr loc (DatabaseError _) = tr loc ''api.error.database_error'' []"
| "client_message tr loc (CacheError _) = tr loc ''api.error.cache_error'' []"
| "client_message tr loc (InternalError _) = tr loc ''api.error.internal_error'' []"
| "client_message tr loc (ConfigurationError _) = tr loc ''api.error.configuration_error'' []"
| "client_message tr loc (EtcdError _) = tr loc ''api.error.etcd_error'' []"
| "client_message tr loc (IoError _) = tr loc ''api.error.io_error'' []"
| "client_message tr loc (ClockMovedBackward _) = tr loc ''api.error.algorithm_error'' []"
| "client_message tr loc (SequenceOverflow _) = tr loc ''api.error.algorithm_error'' []"
| "client_message tr loc (SegmentExhausted _) = tr loc ''api.error.algorithm_error'' []"
| "client_message tr loc Unknown = tr loc ''api.error.internal_error'' []"
| "client_message tr loc RateLimitExceeded = to_localized_string tr loc RateLimitExceeded"
| "client_message tr loc ApiKeyDisabled = to_localized_string tr loc ApiKeyDisabled"
| "client_message tr loc ApiKeyExpired = to_localized_string tr loc ApiKeyExpired"
| "client_message tr loc InvalidApiKeySignature = to_localized_string tr loc InvalidApiKeySignature"
| "client_message tr loc TimeoutError = to_localized_string tr loc TimeoutError"
| "client_message tr loc e = sanitize_for_production (to_localized_string tr loc e)"

definition core_error_to_response :: "translate \<Rightarrow> string \<Rightarrow> core_error \<Rightarrow> nat \<times> error_response" where
  "core_error_to_response tr loc e =
     (let status = core_error_status_code e
      in (status, error_response_new (int status) (client_message tr loc e)))"

text \<open>The errors the handlers build themselves.\<close>

definition plain_response :: "translate \<Rightarrow> string \<Rightarrow> nat \<Rightarrow> string \<Rightarrow> nat \<times> error_response" where
  "plain_response tr loc status key = (status, error_response_new (int status) (tr loc key []))"

definition invalid_uuid_response :: "translate \<Rightarrow> string \<Rightarrow> nat \<times> error_response" where
  "invalid_uuid_response tr loc = plain_response tr loc 400 ''api.error.invalid_uuid_format''"

definition admin_cannot_perform_response :: "translate \<Rightarrow> string \<Rightarrow> nat \<times> error_response" where
  "admin_cannot_perform_response tr loc = plain_response tr loc 403 ''api.error.admin_cannot_perform''"

definition auth_required_response :: "translate \<Rightarrow> string \<Rightarrow> nat \<times> error_response" where
  "auth_required_response tr loc = plain_response tr loc 401 ''api.error.auth_required''"

definition workspace_mismatch_response :: "translate \<Rightarrow> string \<Rightarrow> nat \<times> error_response" where
  "workspace_mismatch_response tr loc = plain_response tr loc 403 ''api.error.workspace_mismatch''"

definition workspace_not_found_response :: "translate \<Rightarrow> string \<Rightarrow> nat \<times> error_response" where
  "workspace_not_found_response tr loc = plain_response tr loc 404 ''api.error.workspace_not_found''"

definition invalid_workspace_id_response :: "translate \<Rightarrow> string \<Rightarrow> nat \<times> error_response" where
  "invalid_workspace_id_response tr loc =
     plain_response tr loc 500 ''api.error.invalid_workspace_id''"

definition workspace_id_required_response :: "translate \<Rightarrow> string \<Rightarrow> nat \<times> error_response" where
  "workspace_id_required_response tr loc =
     plain_response tr loc 400 ''api.error.workspace_id_required''"

fun join_semicolon :: "string list \<Rightarrow> string" where
  "join_semicolon [] = []"
| "join_semicolon [p] = p"
| "join_semicolon (p # ps) = p @ ''; '' @ join_semicolon ps"

text \<open>\<open>errs\<close> lists the violated rules, each with its field, as \<open>field_errors()\<close> yields them.\<close>

definition validation_error_response ::
  "translate \<Rightarrow> string \<Rightarrow> (string \<times> string) list \<Rightarrow> nat \<times> error_response" where
  "validation_error_response tr loc errs =
     (let parts = map (\<lambda>(field, rule). tr loc ''api.error.validation_error_field''
                        [(''field'', field), (''rule'', rule)]) errs;
          message = (if parts = [] then tr loc ''api.error.validation_error'' [(''error'', [])]
                     else sanitize_for_production (join_semicolon parts))
      in (400, error_response_new 400 message))"

definition workspace_name_not_found_response ::
  "translate \<Rightarrow> string \<Rightarrow> string \<Rightarrow> nat \<times> error_response" where
  "workspace_name_not_found_response tr loc name =
     (let safe_name = (if length name > 64 then take (round_down name 64) name @ ''...'' else name)
      in (404, error_response_new 404
                 (tr loc ''api.error.workspace_name_not_found'' [(''name'', safe_name)])))"

section \<open>What a client sees\<close>

lemma round_down_le: "round_down s n \<le> n"
  by (induction s n rule: round_down.induct) auto

lemma round_down_boundary: "is_char_boundary s (round_down s n)"
  by (induction s n rule: round_down.induct) (auto simp: is_char_boundary_def)

lemma round_down_greatest: "i \<le> n \<Longrightarrow> is_char_boundary s i \<Longrightarrow> i \<le> round_down s n"
  by (induction s n rule: round_down.induct) (auto simp: le_Suc_eq)

lemma length_sanitize: "length (sanitize_for_production m) \<le> 215"
  using round_down_le [of m 200]
  by (auto simp: sanitize_for_production_def MAX_CLIENT_MESSAGE_LEN_def)

text \<open>
  Truncation keeps short messages, and cuts a long one at the last character boundary within the limit,
  so that no character is split.
\<close>

theorem sanitize_spec:
  "if length msg \<le> 200 then sanitize_for_production msg = msg
   else \<exists>k. sanitize_for_production msg = take k msg @ ''... (truncated)'' \<and> k \<le> 200 \<and>
          is_char_boundary msg k \<and> (\<forall>i. k < i \<and> i \<le> 200 \<longrightarrow> \<not> is_char_boundary msg i)"
proof (cases "length msg \<le> 200")
  case False
  have "\<forall>i. round_down msg 200 < i \<and> i \<le> 200 \<longrightarrow> \<not> is_char_boundary msg i"
    using round_down_greatest leD by blast
  with False show ?thesis
    using round_down_le [of msg 200] round_down_boundary [of msg 200]
    by (auto simp: sanitize_for_production_def MAX_CLIENT_MESSAGE_LEN_def)
qed (simp add: sanitize_for_production_def MAX_CLIENT_MESSAGE_LEN_def)

theorem sanitize_spec_witness:
  "sanitize_for_production ''short'' = ''short'' \<and>
   (\<exists>k \<le> 200. sanitize_for_production (replicate 250 CHR ''x'') =
      replicate k CHR ''x'' @ ''... (truncated)'')"
  using sanitize_spec [of "''short''"] sanitize_spec [of "replicate 250 CHR ''x''"]
  by (auto simp: min_def)

definition generic_key :: "nat \<Rightarrow> string set" where
  "generic_key status =
     (if status = 503 then {''error.timeout_error''}
      else {''api.error.database_error'', ''api.error.cache_error'', ''api.error.internal_error'',
            ''api.error.configuration_error'', ''api.error.etcd_error'', ''api.error.io_error'',
            ''api.error.algorithm_error''})"

text \<open>
  C28. A response never tells a client more than it may: on a server error (5xx) the message is one of the
  fixed translated texts, without any argument taken from the error; on a client error (4xx) that
  carries text, the message is bounded; and the body repeats the status.
\<close>

theorem no_internal_detail:
  "case core_error_to_response tr loc e of (status, body) \<Rightarrow>
     er_code body = int status \<and>
     (500 \<le> status \<longrightarrow> (\<exists>key \<in> generic_key status. er_message body = tr loc key [])) \<and>
     (status < 500 \<and> i18n_args e \<noteq> [] \<longrightarrow> length (er_message body) \<le> 215)"
  by (cases e) (simp_all add: core_error_to_response_def error_response_new_def generic_key_def
      to_localized_string_def length_sanitize)

theorem no_internal_detail_witness:
  "er_message (snd (core_error_to_response (\<lambda>loc key args. key) ''en'' (DatabaseError ''secret'')))
     \<in> generic_key 500"
  using no_internal_detail [of "\<lambda>loc key args. key" "''en''" "DatabaseError ''secret''"]
  by (simp add: core_error_to_response_def)

end
