(* ===== verification/Degradation.thy ===== *)
theory Degradation
  imports Alg_Traits "HOL-Library.AList"
begin

text \<open>
  The degradation manager, \<open>src/src/core/algorithm/degradation_manager.rs\<close>.

  \<^item> The maps of algorithms and of health states are association lists; the order of a list stands
    for the unspecified iteration order of a \<open>HashMap\<close>. Health states are shared, so an operation
    on one updates the manager's map.
  \<^item> Instants are nanoseconds; the readings of the clock within one turn of an operation are one
    instant. What \<open>health_check\<close> of a registered algorithm answers is the argument \<open>report\<close>.
  \<^item> The audit log, tracing and the background task are left out; the task is the repeated call of
    \<open>check_all_health\<close> while \<open>enabled\<close> is set.
\<close>

section \<open>One algorithm's health\<close>

datatype circuit_state = CircuitClosed | CircuitOpen | CircuitHalfOpen

datatype degradation_state = DegNormal | DegDegraded algorithm_type | DegCritical

record degradation_config =
  dg_enabled :: bool
  dg_check_interval_ms :: u64
  dg_failure_threshold :: u8
  dg_recovery_check_interval_ms :: u64
  dg_recovery_threshold :: u8
  dg_auto_recovery :: bool
  dg_fallback_chain :: "algorithm_type list"
  dg_circuit_breaker_timeout_ms :: u64
  dg_half_open_success_threshold :: u8
  dg_enable_circuit_breaker :: bool

definition degradation_config_default :: degradation_config where
  "degradation_config_default =
     \<lparr>dg_enabled = True, dg_check_interval_ms = 5000, dg_failure_threshold = 5,
      dg_recovery_check_interval_ms = 30000, dg_recovery_threshold = 10, dg_auto_recovery = True,
      dg_fallback_chain = [Segment, Snowflake, UuidV7], dg_circuit_breaker_timeout_ms = 60000,
      dg_half_open_success_threshold = 2, dg_enable_circuit_breaker = True\<rparr>"

definition CIRCUIT_BREAKER_CLOSED :: u8 where "CIRCUIT_BREAKER_CLOSED = 0"
definition CIRCUIT_BREAKER_OPEN :: u8 where "CIRCUIT_BREAKER_OPEN = 1"
definition CIRCUIT_BREAKER_HALF_OPEN :: u8 where "CIRCUIT_BREAKER_HALF_OPEN = 2"

record health_state =
  hs_alg_type :: algorithm_type
  hs_consecutive_failures :: u8
  hs_consecutive_successes :: u8
  hs_last_failure_time :: "nat option"
  hs_last_success_time :: "nat option"
  hs_current_state :: bool
  hs_is_degraded :: bool
  hs_circuit_breaker_state :: u8
  hs_circuit_breaker_opened_at :: "nat option"
  hs_total_requests :: u64
  hs_total_failures :: u64
  hs_total_successes :: u64
  hs_last_request_time :: "nat option"

definition health_state_new :: "algorithm_type \<Rightarrow> health_state" where
  "health_state_new a =
     \<lparr>hs_alg_type = a, hs_consecutive_failures = 0, hs_consecutive_successes = 0,
      hs_last_failure_time = None, hs_last_success_time = None, hs_current_state = True,
      hs_is_degraded = False, hs_circuit_breaker_state = CIRCUIT_BREAKER_CLOSED,
      hs_circuit_breaker_opened_at = None, hs_total_requests = 0, hs_total_failures = 0,
      hs_total_successes = 0, hs_last_request_time = None\<rparr>"

definition hs_record_request :: "nat \<Rightarrow> bool \<Rightarrow> health_state \<Rightarrow> health_state" where
  "hs_record_request now success h =
     (let h1 = h\<lparr>hs_total_requests := hs_total_requests h + 1, hs_last_request_time := Some now\<rparr> in
      if success then h1\<lparr>hs_total_successes := hs_total_successes h1 + 1\<rparr>
      else h1\<lparr>hs_total_failures := hs_total_failures h1 + 1\<rparr>)"

definition hs_record_failure :: "nat \<Rightarrow> health_state \<Rightarrow> health_state" where
  "hs_record_failure now h =
     h\<lparr>hs_consecutive_failures := hs_consecutive_failures h + 1, hs_last_failure_time := Some now,
       hs_consecutive_successes := 0\<rparr>"

definition hs_record_success :: "nat \<Rightarrow> health_state \<Rightarrow> health_state" where
  "hs_record_success now h =
     h\<lparr>hs_consecutive_successes := hs_consecutive_successes h + 1, hs_last_success_time := Some now,
       hs_consecutive_failures := 0\<rparr>"

definition should_degrade :: "u8 \<Rightarrow> health_state \<Rightarrow> bool" where
  "should_degrade threshold h \<longleftrightarrow> hs_consecutive_failures h \<ge> threshold"

definition should_recover :: "u8 \<Rightarrow> health_state \<Rightarrow> bool" where
  "should_recover threshold h \<longleftrightarrow> hs_consecutive_successes h \<ge> threshold"

definition mark_degraded :: "health_state \<Rightarrow> health_state" where
  "mark_degraded h = h\<lparr>hs_is_degraded := True, hs_current_state := False\<rparr>"

definition mark_recovered :: "health_state \<Rightarrow> health_state" where
  "mark_recovered h = h\<lparr>hs_is_degraded := False, hs_current_state := True\<rparr>"

definition hs_reset :: "health_state \<Rightarrow> health_state" where
  "hs_reset h =
     h\<lparr>hs_consecutive_failures := 0, hs_consecutive_successes := 0, hs_is_degraded := False,
       hs_current_state := True, hs_circuit_breaker_state := CIRCUIT_BREAKER_CLOSED,
       hs_circuit_breaker_opened_at := None\<rparr>"

definition get_circuit_breaker_state :: "health_state \<Rightarrow> circuit_state" where
  "get_circuit_breaker_state h =
     (if hs_circuit_breaker_state h = CIRCUIT_BREAKER_OPEN then CircuitOpen
      else if hs_circuit_breaker_state h = CIRCUIT_BREAKER_HALF_OPEN then CircuitHalfOpen
      else CircuitClosed)"

definition open_circuit_breaker :: "nat \<Rightarrow> health_state \<Rightarrow> health_state" where
  "open_circuit_breaker now h =
     h\<lparr>hs_circuit_breaker_state := CIRCUIT_BREAKER_OPEN, hs_circuit_breaker_opened_at := Some now\<rparr>"

definition half_open_circuit_breaker :: "health_state \<Rightarrow> health_state" where
  "half_open_circuit_breaker h = h\<lparr>hs_circuit_breaker_state := CIRCUIT_BREAKER_HALF_OPEN\<rparr>"

definition close_circuit_breaker :: "health_state \<Rightarrow> health_state" where
  "close_circuit_breaker h =
     h\<lparr>hs_circuit_breaker_state := CIRCUIT_BREAKER_CLOSED, hs_circuit_breaker_opened_at := None\<rparr>"

definition can_make_request :: "health_state \<Rightarrow> bool" where
  "can_make_request h \<longleftrightarrow> get_circuit_breaker_state h \<noteq> CircuitOpen"

definition is_circuit_open :: "nat \<Rightarrow> u64 \<Rightarrow> health_state \<Rightarrow> bool" where
  "is_circuit_open now timeout h \<longleftrightarrow>
     get_circuit_breaker_state h = CircuitOpen \<and>
     (case hs_circuit_breaker_opened_at h of
        Some opened_at \<Rightarrow> now - opened_at < unat timeout * 1000000
      | None \<Rightarrow> False)"

definition success_rate :: "health_state \<Rightarrow> rat" where
  "success_rate h =
     (let total = hs_total_requests h; failures = hs_total_failures h in
      if total > 0
      then f64_mul (f64_div (f64_of_u64 (sat_sub total failures)) (f64_of_u64 total)) 100 else 0)"

section \<open>The manager\<close>

record degradation_manager =
  dm_config :: degradation_config
  dm_algorithms :: "algorithm_type list"
  dm_health :: "(algorithm_type \<times> health_state) list"
  dm_current_state :: degradation_state
  dm_primary :: algorithm_type
  dm_chain :: "algorithm_type list"
  dm_last_check :: nat

definition manager_new :: "degradation_config option \<Rightarrow> nat \<Rightarrow> degradation_manager" where
  "manager_new config now =
     \<lparr>dm_config = (case config of Some c \<Rightarrow> c | None \<Rightarrow> degradation_config_default),
      dm_algorithms = [], dm_health = [], dm_current_state = DegNormal, dm_primary = Segment,
      dm_chain = [], dm_last_check = now\<rparr>"

definition health_of :: "algorithm_type \<Rightarrow> degradation_manager \<Rightarrow> health_state option" where
  "health_of a m = map_of (dm_health m) a"

definition put_health :: "algorithm_type \<Rightarrow> health_state \<Rightarrow> degradation_manager \<Rightarrow> degradation_manager" where
  "put_health a h m = m\<lparr>dm_health := AList.update a h (dm_health m)\<rparr>"

definition register_algorithm :: "algorithm_type \<Rightarrow> degradation_manager \<Rightarrow> degradation_manager" where
  "register_algorithm a m =
     put_health a (health_state_new a) (m\<lparr>dm_algorithms := List.insert a (dm_algorithms m)\<rparr>)"

definition set_primary_algorithm :: "algorithm_type \<Rightarrow> degradation_manager \<Rightarrow> degradation_manager" where
  "set_primary_algorithm a m = m\<lparr>dm_primary := a\<rparr>"

definition set_fallback_chain :: "algorithm_type list \<Rightarrow> degradation_manager \<Rightarrow> degradation_manager" where
  "set_fallback_chain chain m = m\<lparr>dm_chain := chain\<rparr>"

definition usable :: "degradation_manager \<Rightarrow> algorithm_type \<Rightarrow> bool" where
  "usable m a \<longleftrightarrow> (case health_of a m of Some h \<Rightarrow> \<not> hs_is_degraded h | None \<Rightarrow> False)"

definition determine_effective_algorithm :: "degradation_manager \<Rightarrow> degradation_state" where
  "determine_effective_algorithm m =
     (if usable m (dm_primary m) then DegNormal
      else case find (usable m) (dm_chain m) of
        Some fallback \<Rightarrow> DegDegraded fallback
      | None \<Rightarrow> DegCritical)"

definition refresh :: "degradation_manager \<Rightarrow> degradation_manager" where
  "refresh m = m\<lparr>dm_current_state := determine_effective_algorithm m\<rparr>"

definition trigger_degradation ::
  "algorithm_type \<Rightarrow> health_state \<Rightarrow> degradation_manager \<Rightarrow> degradation_manager" where
  "trigger_degradation a h m = refresh (put_health a (mark_degraded h) m)"

definition attempt_recovery ::
  "algorithm_type \<Rightarrow> health_state \<Rightarrow> degradation_manager \<Rightarrow> degradation_manager" where
  "attempt_recovery a h m =
     (let m1 = put_health a (mark_recovered h) m in
      if a = dm_primary m1 then refresh m1 else m1)"

definition record_generation_result ::
  "nat \<Rightarrow> algorithm_type \<Rightarrow> bool \<Rightarrow> degradation_manager \<Rightarrow> degradation_manager" where
  "record_generation_result now a success m =
     (case health_of a m of
        None \<Rightarrow> m
      | Some h \<Rightarrow>
          if success then
            (let h1 = hs_record_success now h; m1 = put_health a h1 m in
             if hs_is_degraded h1 \<and> should_recover (dg_recovery_threshold (dm_config m)) h1
             then attempt_recovery a h1 m1 else m1)
          else
            (let h1 = hs_record_failure now h; m1 = put_health a h1 m in
             if \<not> hs_is_degraded h1 \<and> should_degrade (dg_failure_threshold (dm_config m)) h1
             then trigger_degradation a h1 m1 else m1))"

fun debug_name :: "algorithm_type \<Rightarrow> string" where
  "debug_name Segment = ''Segment''"
| "debug_name Snowflake = ''Snowflake''"
| "debug_name UuidV7 = ''UuidV7''"
| "debug_name UuidV4 = ''UuidV4''"

definition health_report ::
  "(algorithm_type \<Rightarrow> health_status) \<Rightarrow> degradation_manager \<Rightarrow> algorithm_type \<Rightarrow> health_status" where
  "health_report report m a =
     (if a \<in> set (dm_algorithms m) then report a
      else Unhealthy (''Algorithm '' @ debug_name a @ '' not found''))"

text \<open>
  One turn of the loop of \<open>check_all_health\<close>: \<open>probe\<close> is its second half, the check of an algorithm
  that is not degraded. The flag is \<open>state_changed\<close>.
\<close>

definition probe ::
  "nat \<Rightarrow> health_status \<Rightarrow> algorithm_type \<Rightarrow> health_state \<Rightarrow> degradation_manager \<times> bool \<Rightarrow>
   degradation_manager \<times> bool" where
  "probe now health a h mc =
     (case mc of (m, changed) \<Rightarrow>
      if hs_is_degraded h then (put_health a h m, changed)
      else case health of
        Unhealthy _ \<Rightarrow>
          (let h1 = hs_record_failure now h in
           if dg_enable_circuit_breaker (dm_config m) \<and>
              should_degrade (dg_failure_threshold (dm_config m)) h1
           then (trigger_degradation a (open_circuit_breaker now h1) m, True)
           else if should_degrade (dg_failure_threshold (dm_config m)) h1
           then (trigger_degradation a h1 m, True)
           else (put_health a h1 m, changed))
      | HealthDegraded _ \<Rightarrow> (put_health a h m, changed)
      | Healthy \<Rightarrow> (put_health a (hs_record_success now h) m, changed))"

definition check_turn ::
  "nat \<Rightarrow> (algorithm_type \<Rightarrow> health_status) \<Rightarrow> algorithm_type \<Rightarrow> degradation_manager \<times> bool \<Rightarrow>
   degradation_manager \<times> bool" where
  "check_turn now report a mc =
     (case mc of (m, changed) \<Rightarrow>
      case health_of a m of
        None \<Rightarrow> (m, changed)
      | Some h \<Rightarrow>
          let health = health_report report m a in
          if dg_enable_circuit_breaker (dm_config m) then
            (case get_circuit_breaker_state h of
               CircuitOpen \<Rightarrow>
                 if is_circuit_open now (dg_circuit_breaker_timeout_ms (dm_config m)) h
                 then (m, changed)
                 else probe now health a (half_open_circuit_breaker h) (m, changed)
             | CircuitHalfOpen \<Rightarrow>
                 (case health of
                    Healthy \<Rightarrow>
                      if hs_consecutive_successes h \<ge> dg_half_open_success_threshold (dm_config m)
                      then (let h1 = close_circuit_breaker h in
                            if hs_is_degraded h1 then (put_health a (mark_recovered h1) m, True)
                            else (put_health a h1 m, changed))
                      else (put_health a (hs_record_success now h) m, changed)
                  | _ \<Rightarrow>
                      (put_health a (open_circuit_breaker now (hs_record_failure now h)) m, changed))
             | CircuitClosed \<Rightarrow> probe now health a h (m, changed))
          else probe now health a h (m, changed))"

definition check_all_health ::
  "(algorithm_type \<Rightarrow> nat) \<Rightarrow> nat \<Rightarrow> (algorithm_type \<Rightarrow> health_status) \<Rightarrow> degradation_manager \<Rightarrow>
   degradation_manager" where
  "check_all_health clock now report m =
     (case fold (\<lambda>a. check_turn (clock a) report a) (map fst (dm_health m)) (m, False) of
        (m1, changed) \<Rightarrow> (if changed then refresh m1 else m1)\<lparr>dm_last_check := now\<rparr>)"

definition get_effective_algorithm :: "degradation_manager \<Rightarrow> algorithm_type" where
  "get_effective_algorithm m =
     (case dm_current_state m of
        DegNormal \<Rightarrow> dm_primary m
      | DegDegraded a \<Rightarrow> a
      | DegCritical \<Rightarrow>
          (case find (\<lambda>a. case health_of a m of Some h \<Rightarrow> hs_current_state h | None \<Rightarrow> False)
                 (dm_chain m) of
             Some a \<Rightarrow> a
           | None \<Rightarrow> dm_primary m))"

record health_info =
  hi_alg_type :: algorithm_type
  hi_consecutive_failures :: u8
  hi_consecutive_successes :: u8
  hi_is_degraded :: bool
  hi_is_healthy :: bool

definition health_info_of :: "health_state \<Rightarrow> health_info" where
  "health_info_of h =
     \<lparr>hi_alg_type = hs_alg_type h, hi_consecutive_failures = hs_consecutive_failures h,
      hi_consecutive_successes = hs_consecutive_successes h, hi_is_degraded = hs_is_degraded h,
      hi_is_healthy = hs_current_state h\<rparr>"

definition get_algorithm_state :: "algorithm_type \<Rightarrow> degradation_manager \<Rightarrow> health_info option" where
  "get_algorithm_state a m = map_option health_info_of (health_of a m)"

definition get_all_states :: "degradation_manager \<Rightarrow> health_info list" where
  "get_all_states m = map (\<lambda>(_, h). health_info_of h) (dm_health m)"

definition manual_degrade :: "algorithm_type \<Rightarrow> degradation_manager \<Rightarrow> degradation_manager" where
  "manual_degrade a m =
     (case health_of a m of
        Some h \<Rightarrow> put_health a (mark_degraded h) m
      | None \<Rightarrow> put_health a (mark_degraded (health_state_new a)) m)"

definition manual_recover :: "algorithm_type \<Rightarrow> degradation_manager \<Rightarrow> degradation_manager" where
  "manual_recover a m =
     (case health_of a m of Some h \<Rightarrow> put_health a (hs_reset h) m | None \<Rightarrow> m)"

definition update_config :: "degradation_config \<Rightarrow> degradation_manager \<Rightarrow> degradation_manager" where
  "update_config config m = m\<lparr>dm_config := config\<rparr>"

section \<open>Facts about the map of health states\<close>

lemma health_of_put [simp]: "health_of b (put_health a h m) = (if b = a then Some h else health_of b m)"
  by (simp add: health_of_def put_health_def update_conv)

lemma put_health_simps [simp]:
  "dm_config (put_health a h m) = dm_config m"
  "dm_algorithms (put_health a h m) = dm_algorithms m"
  "dm_current_state (put_health a h m) = dm_current_state m"
  "dm_primary (put_health a h m) = dm_primary m"
  "dm_chain (put_health a h m) = dm_chain m"
  by (simp_all add: put_health_def)

lemma refresh_simps [simp]:
  "health_of a (refresh m) = health_of a m"
  "dm_config (refresh m) = dm_config m"
  "dm_algorithms (refresh m) = dm_algorithms m"
  "dm_primary (refresh m) = dm_primary m"
  "dm_chain (refresh m) = dm_chain m"
  "dm_current_state (refresh m) = determine_effective_algorithm m"
  by (simp_all add: refresh_def health_of_def)

lemma usable_put [simp]:
  "usable (put_health a h m) b = (if b = a then \<not> hs_is_degraded h else usable m b)"
  by (simp add: usable_def)

lemma usable_refresh [simp]: "usable (refresh m) = usable m"
  by (simp add: usable_def fun_eq_iff)

lemma hs_flags [simp]:
  "hs_is_degraded (hs_record_failure now h) = hs_is_degraded h"
  "hs_is_degraded (hs_record_success now h) = hs_is_degraded h"
  "hs_is_degraded (open_circuit_breaker now h) = hs_is_degraded h"
  "hs_is_degraded (half_open_circuit_breaker h) = hs_is_degraded h"
  "hs_is_degraded (close_circuit_breaker h) = hs_is_degraded h"
  "hs_is_degraded (mark_degraded h)" "\<not> hs_is_degraded (mark_recovered h)"
  "hs_current_state (hs_record_failure now h) = hs_current_state h"
  "hs_current_state (hs_record_success now h) = hs_current_state h"
  "hs_current_state (open_circuit_breaker now h) = hs_current_state h"
  "hs_current_state (half_open_circuit_breaker h) = hs_current_state h"
  "hs_current_state (close_circuit_breaker h) = hs_current_state h"
  "\<not> hs_current_state (mark_degraded h)" "hs_current_state (mark_recovered h)"
  by (simp_all add: hs_record_failure_def hs_record_success_def open_circuit_breaker_def
      half_open_circuit_breaker_def close_circuit_breaker_def mark_degraded_def mark_recovered_def)

section \<open>The effective algorithm is usable\<close>

definition flags_ok :: "degradation_manager \<Rightarrow> bool" where
  "flags_ok m \<longleftrightarrow> (\<forall>a h. health_of a m = Some h \<longrightarrow> hs_current_state h = (\<not> hs_is_degraded h))"

definition dm_inv :: "degradation_manager \<Rightarrow> bool" where
  "dm_inv m \<longleftrightarrow> flags_ok m \<and>
     (case dm_current_state m of
        DegNormal \<Rightarrow> usable m (dm_primary m) | DegDegraded a \<Rightarrow> usable m a | DegCritical \<Rightarrow> True)"

lemma flags_put: "flags_ok m \<Longrightarrow> hs_current_state h = (\<not> hs_is_degraded h) \<Longrightarrow> flags_ok (put_health a h m)"
  by (simp add: flags_ok_def)

lemma dm_inv_refresh: "flags_ok m \<Longrightarrow> dm_inv (refresh m)"
  by (auto simp: dm_inv_def determine_effective_algorithm_def flags_ok_def find_Some_iff
      split: option.split)

lemma dm_inv_put:
  assumes "dm_inv m" "health_of a m = Some h0" "hs_is_degraded h \<longrightarrow> hs_is_degraded h0"
    "hs_current_state h = (\<not> hs_is_degraded h)"
  shows "dm_inv (put_health a h m)"
  using assms by (auto simp: dm_inv_def flags_put usable_def split: degradation_state.split)

lemma dm_inv_flags: "dm_inv m \<Longrightarrow> health_of a m = Some h \<Longrightarrow> hs_current_state h = (\<not> hs_is_degraded h)"
  by (simp add: dm_inv_def flags_ok_def)

lemma dm_inv_trigger: "dm_inv m \<Longrightarrow> dm_inv (trigger_degradation a h m)"
  unfolding trigger_degradation_def
  by (intro dm_inv_refresh flags_put) (simp_all add: dm_inv_def)

lemma dm_inv_recovery:
  assumes "dm_inv m" "health_of a m = Some h0"
  shows "dm_inv (attempt_recovery a h m)"
proof -
  have "dm_inv (put_health a (mark_recovered h) m)"
    by (rule dm_inv_put [OF assms]) simp_all
  moreover from this have "dm_inv (refresh (put_health a (mark_recovered h) m))"
    by (intro dm_inv_refresh) (simp add: dm_inv_def)
  ultimately show ?thesis
    by (cases "a = dm_primary m") (simp_all add: attempt_recovery_def Let_def)
qed

lemma dm_inv_record:
  assumes "dm_inv m"
  shows "dm_inv (record_generation_result now a success m)"
proof (cases "health_of a m")
  case None
  with assms show ?thesis by (simp add: record_generation_result_def)
next
  case (Some h)
  have put: "dm_inv (put_health a (hs_record_success now h) m)"
    "dm_inv (put_health a (hs_record_failure now h) m)"
    using dm_inv_put [OF assms Some] dm_inv_flags [OF assms Some] by simp_all
  with Some show ?thesis
    by (simp add: record_generation_result_def Let_def dm_inv_trigger
        dm_inv_recovery [where ?h0.0 = "hs_record_success now h"])
qed

lemma dm_inv_probe:
  assumes "dm_inv m" "health_of a m = Some h0" "hs_is_degraded h = hs_is_degraded h0"
    "hs_current_state h = hs_current_state h0"
  shows "dm_inv (fst (probe now health a h (m, changed)))"
  using dm_inv_put [OF assms(1,2)] dm_inv_flags [OF assms(1,2)] assms
  by (auto simp: probe_def Let_def dm_inv_trigger split: health_status.split)

lemma dm_inv_turn:
  assumes "dm_inv m"
  shows "dm_inv (fst (check_turn now report a (m, changed)))"
proof (cases "health_of a m")
  case None
  with assms show ?thesis by (simp add: check_turn_def)
next
  case (Some h)
  show ?thesis
    using assms Some dm_inv_put [OF assms Some] dm_inv_flags [OF assms Some]
      dm_inv_probe [OF assms Some, of h] dm_inv_probe [OF assms Some, of "half_open_circuit_breaker h"]
    by (auto simp: check_turn_def Let_def split: circuit_state.split health_status.split)
qed

lemma dm_inv_check:
  assumes "dm_inv m"
  shows "dm_inv (check_all_health clock now report m)"
proof -
  have loop: "dm_inv (fst (fold (\<lambda>a. check_turn (clock a) report a) as mc))" if "dm_inv (fst mc)" for as mc
    using that
  proof (induction as arbitrary: mc)
    case (Cons a as)
    then show ?case using dm_inv_turn [of "fst mc" "clock a" report a "snd mc"] by simp
  qed simp
  have last: "dm_inv (x\<lparr>dm_last_check := now\<rparr>) = dm_inv x" for x
    by (simp add: dm_inv_def flags_ok_def usable_def health_of_def split: degradation_state.split)
  obtain m1 changed where
    r: "fold (\<lambda>a. check_turn (clock a) report a) (map fst (dm_health m)) (m, False) = (m1, changed)"
    by (rule prod.exhaust)
  have "dm_inv m1" using loop [of "(m, False)" "map fst (dm_health m)"] assms by (simp add: r)
  moreover from this have "flags_ok m1" by (simp add: dm_inv_def)
  ultimately show ?thesis
    by (simp add: check_all_health_def r last dm_inv_refresh)
qed

lemma dm_inv_effective:
  assumes "dm_inv m" "\<exists>a \<in> set (dm_primary m # dm_chain m). usable m a"
  shows "usable m (get_effective_algorithm m)"
proof -
  let ?P = "\<lambda>a. case health_of a m of Some h \<Rightarrow> hs_current_state h | None \<Rightarrow> False"
  have P: "?P = usable m"
    using assms(1) by (auto simp: dm_inv_def flags_ok_def usable_def fun_eq_iff split: option.split)
  show ?thesis
  proof (cases "dm_current_state m")
    case DegCritical
    show ?thesis
    proof (cases "find (usable m) (dm_chain m)")
      case None
      then have "usable m (dm_primary m)" using assms(2) by (auto simp: find_None_iff)
      then show ?thesis by (simp add: get_effective_algorithm_def DegCritical P None)
    next
      case (Some a)
      then have "usable m a" by (auto simp: find_Some_iff)
      then show ?thesis by (simp add: get_effective_algorithm_def DegCritical P Some)
    qed
  qed (use assms(1) in \<open>auto simp: get_effective_algorithm_def dm_inv_def\<close>)
qed

section \<open>One check, algorithm by algorithm\<close>

text \<open>
  \<open>turn_result\<close> is what a check does to one algorithm's health, as a function of that health alone,
  with the flag whether the effective algorithm has to be determined again.
\<close>

definition probe_result ::
  "nat \<Rightarrow> degradation_config \<Rightarrow> health_status \<Rightarrow> health_state \<Rightarrow> health_state \<times> bool" where
  "probe_result now cfg health h =
     (if hs_is_degraded h then (h, False)
      else case health of
        Unhealthy _ \<Rightarrow>
          (let h1 = hs_record_failure now h in
           if should_degrade (dg_failure_threshold cfg) h1
           then (mark_degraded (if dg_enable_circuit_breaker cfg then open_circuit_breaker now h1 else h1),
                 True)
           else (h1, False))
      | HealthDegraded _ \<Rightarrow> (h, False)
      | Healthy \<Rightarrow> (hs_record_success now h, False))"

definition turn_result ::
  "nat \<Rightarrow> degradation_config \<Rightarrow> health_status \<Rightarrow> health_state \<Rightarrow> health_state \<times> bool" where
  "turn_result now cfg health h =
     (if \<not> dg_enable_circuit_breaker cfg then probe_result now cfg health h
      else case get_circuit_breaker_state h of
        CircuitClosed \<Rightarrow> probe_result now cfg health h
      | CircuitOpen \<Rightarrow>
          if is_circuit_open now (dg_circuit_breaker_timeout_ms cfg) h then (h, False)
          else probe_result now cfg health (half_open_circuit_breaker h)
      | CircuitHalfOpen \<Rightarrow>
          if health \<noteq> Healthy then (open_circuit_breaker now (hs_record_failure now h), False)
          else if hs_consecutive_successes h < dg_half_open_success_threshold cfg
          then (hs_record_success now h, False)
          else if hs_is_degraded h then (mark_recovered (close_circuit_breaker h), True)
          else (close_circuit_breaker h, False))"

definition same_setup :: "degradation_manager \<Rightarrow> degradation_manager \<Rightarrow> bool" where
  "same_setup m m' \<longleftrightarrow> dm_config m' = dm_config m \<and> dm_algorithms m' = dm_algorithms m \<and>
     dm_primary m' = dm_primary m \<and> dm_chain m' = dm_chain m"

definition turn_post ::
  "algorithm_type \<Rightarrow> health_state \<times> bool \<Rightarrow> degradation_manager \<times> bool \<Rightarrow>
   degradation_manager \<times> bool \<Rightarrow> bool" where
  "turn_post a res mc mc' \<longleftrightarrow>
     (\<forall>b. health_of b (fst mc') = (if b = a then Some (fst res) else health_of b (fst mc))) \<and>
     same_setup (fst mc) (fst mc') \<and> snd mc' = (snd mc \<or> snd res) \<and>
     (\<not> snd res \<longrightarrow> dm_current_state (fst mc') = dm_current_state (fst mc))"

lemma probe_post:
  "turn_post a (probe_result now (dm_config m) health h) (m, ch) (probe now health a h (m, ch))"
  by (cases health)
    (auto simp: turn_post_def probe_result_def probe_def same_setup_def Let_def
      trigger_degradation_def)

lemma check_turn_post:
  assumes "health_of a m = Some h"
  shows "turn_post a (turn_result now (dm_config m) (health_report report m a) h) (m, ch)
    (check_turn now report a (m, ch))"
proof -
  have keep: "turn_post a (h, False) (m, ch) (m, ch)"
    using assms by (auto simp: turn_post_def same_setup_def)
  have put: "turn_post a (h', False) (m, ch) (put_health a h' m, ch)" for h'
    by (auto simp: turn_post_def same_setup_def)
  have putT: "turn_post a (h', True) (m, ch) (put_health a h' m, True)" for h'
    by (auto simp: turn_post_def same_setup_def)
  show ?thesis
    using assms keep put putT probe_post
    by (cases "get_circuit_breaker_state h"; cases "health_report report m a")
      (auto simp: turn_result_def check_turn_def Let_def not_less)
qed

definition some_change ::
  "(algorithm_type \<Rightarrow> nat) \<Rightarrow> (algorithm_type \<Rightarrow> health_status) \<Rightarrow> degradation_manager \<Rightarrow>
   algorithm_type set \<Rightarrow> bool" where
  "some_change clock report m A \<longleftrightarrow> (\<exists>a \<in> A. \<exists>h. health_of a m = Some h \<and>
     snd (turn_result (clock a) (dm_config m) (health_report report m a) h))"

lemma check_fold_post:
  fixes report :: "algorithm_type \<Rightarrow> health_status" and clock :: "algorithm_type \<Rightarrow> nat"
  assumes "distinct as" "\<forall>a \<in> set as. health_of a m \<noteq> None"
    and "fold (\<lambda>a. check_turn (clock a) report a) as (m, ch) = (m', ch')"
  shows "(\<forall>a. health_of a m' =
      (if a \<in> set as
       then map_option (\<lambda>h. fst (turn_result (clock a) (dm_config m) (health_report report m a) h))
              (health_of a m)
       else health_of a m)) \<and>
    same_setup m m' \<and> ch' = (ch \<or> some_change clock report m (set as)) \<and>
    (\<not> some_change clock report m (set as) \<longrightarrow> dm_current_state m' = dm_current_state m)"
  using assms
proof (induction as arbitrary: m ch)
  case Nil
  then show ?case by (simp add: same_setup_def some_change_def)
next
  case (Cons a as)
  obtain h where h: "health_of a m = Some h" using Cons.prems(2) by auto
  obtain m1 ch1 where t: "check_turn (clock a) report a (m, ch) = (m1, ch1)"
    by (cases "check_turn (clock a) report a (m, ch)")
  note post = check_turn_post [OF h, of "clock a" report ch, unfolded t turn_post_def, simplified]
  have cfg: "dm_config m1 = dm_config m" "health_report report m1 = health_report report m"
    using post by (auto simp: same_setup_def health_report_def fun_eq_iff)
  have same: "health_of b m1 = health_of b m" if "b \<in> set as" for b
    using that Cons.prems(1) post by auto
  have "some_change clock report m1 (set as) = some_change clock report m (set as)"
    by (simp add: some_change_def cfg same cong: bex_cong)
  moreover have "some_change clock report m (set (a # as)) =
      (snd (turn_result (clock a) (dm_config m) (health_report report m a) h) \<or>
       some_change clock report m (set as))"
    by (simp add: some_change_def h)
  moreover have "\<forall>b \<in> set as. health_of b m1 \<noteq> None"
    using Cons.prems(2) same by simp
  note IH = Cons.IH [OF _ this, of ch1]
  ultimately show ?case
    using IH Cons.prems(1,3) post same
    by (auto simp: t h cfg same_setup_def)
qed

lemma check_all_health_post:
  assumes "distinct (map fst (dm_health m))"
  shows "\<And>a. health_of a (check_all_health clock now report m) =
      map_option (\<lambda>h. fst (turn_result (clock a) (dm_config m) (health_report report m a) h))
        (health_of a m)"
    and "dm_current_state (check_all_health clock now report m) =
      (if some_change clock report m (dom (\<lambda>a. health_of a m))
       then determine_effective_algorithm (check_all_health clock now report m)
       else dm_current_state m)"
    and "same_setup m (check_all_health clock now report m)"
proof -
  let ?as = "map fst (dm_health m)"
  have dom: "set ?as = dom (\<lambda>a. health_of a m)"
    by (simp add: health_of_def dom_map_of_conv_image_fst)
  obtain m1 ch where r: "fold (\<lambda>a. check_turn (clock a) report a) ?as (m, False) = (m1, ch)"
    by (rule prod.exhaust)
  have "\<forall>a \<in> set ?as. health_of a m \<noteq> None" using dom by auto
  note post = check_fold_post [OF assms this r]
  have last: "health_of a (x\<lparr>dm_last_check := now\<rparr>) = health_of a x" for a x
    by (simp add: health_of_def)
  have det: "determine_effective_algorithm (x\<lparr>dm_last_check := now\<rparr>) =
      determine_effective_algorithm x" for x
    by (simp add: determine_effective_algorithm_def usable_def [abs_def] last)
  have det2: "determine_effective_algorithm (refresh x) = determine_effective_algorithm x" for x
    by (simp add: determine_effective_algorithm_def)
  have eq: "check_all_health clock now report m = (if ch then refresh m1 else m1)\<lparr>dm_last_check := now\<rparr>"
    by (simp add: check_all_health_def r)
  show "health_of a (check_all_health clock now report m) =
      map_option (\<lambda>h. fst (turn_result (clock a) (dm_config m) (health_report report m a) h))
        (health_of a m)" for a
    using post dom by (auto simp: eq last)
  show "dm_current_state (check_all_health clock now report m) =
      (if some_change clock report m (dom (\<lambda>a. health_of a m))
       then determine_effective_algorithm (check_all_health clock now report m)
       else dm_current_state m)"
    using post by (simp add: eq dom [symmetric] det det2)
  show "same_setup m (check_all_health clock now report m)"
    using post by (simp add: eq same_setup_def)
qed

section \<open>Properties\<close>

datatype dm_event =
    Result nat algorithm_type bool
  | Check "algorithm_type \<Rightarrow> nat" nat "algorithm_type \<Rightarrow> health_status"

fun dm_apply :: "dm_event \<Rightarrow> degradation_manager \<Rightarrow> degradation_manager" where
  "dm_apply (Result now a success) m = record_generation_result now a success m"
| "dm_apply (Check clock now report) m = check_all_health clock now report m"

text \<open>
  Whatever results are recorded and whatever the health checks report, from a manager whose current choice
  is usable: the effective algorithm is one that is registered and not degraded, as long as the primary
  algorithm or one of the chain is.
\<close>

theorem effective_algorithm_usable:
  assumes "dm_inv m"
  shows "dm_inv (fold dm_apply es m) \<and>
    ((\<exists>a \<in> set (dm_primary (fold dm_apply es m) # dm_chain (fold dm_apply es m)).
        usable (fold dm_apply es m) a) \<longrightarrow>
     usable (fold dm_apply es m) (get_effective_algorithm (fold dm_apply es m)))"
proof -
  have "dm_inv (dm_apply e m)" if "dm_inv m" for e m
    using that by (cases e) (simp_all add: dm_inv_record dm_inv_check)
  then have "dm_inv (fold dm_apply es m)"
    using assms by (induction es arbitrary: m) simp_all
  with dm_inv_effective show ?thesis by blast
qed

definition demo_manager :: degradation_manager where
  "demo_manager =
     set_fallback_chain [Snowflake] (register_algorithm Snowflake (register_algorithm Segment
       (manager_new None 0)))"

theorem effective_algorithm_usable_witness:
  "get_effective_algorithm (fold dm_apply (replicate 5 (Result 1 Segment False)) demo_manager) =
     Snowflake \<and> usable (fold dm_apply (replicate 5 (Result 1 Segment False)) demo_manager) Snowflake"
proof -
  let ?m = "fold dm_apply (replicate 5 (Result 1 Segment False)) demo_manager"
  have h: "health_of b demo_manager =
      (if b = Segment then Some (health_state_new Segment)
       else if b = Snowflake then Some (health_state_new Snowflake) else None)" for b
    by (simp add: demo_manager_def set_fallback_chain_def register_algorithm_def manager_new_def
        health_of_def put_health_def)
  have "dm_inv demo_manager"
    by (auto simp: dm_inv_def flags_ok_def h usable_def health_state_new_def split: if_splits
        degradation_state.split)
      (auto simp: demo_manager_def set_fallback_chain_def register_algorithm_def manager_new_def
        put_health_def)
  from effective_algorithm_usable [OF this, of "replicate 5 (Result 1 Segment False)"]
  have "Snowflake \<in> set (dm_primary ?m # dm_chain ?m) \<and> usable ?m Snowflake \<longrightarrow>
    usable ?m (get_effective_algorithm ?m)" by blast
  moreover have "get_effective_algorithm ?m = Snowflake" by code_simp
  moreover have "usable ?m Snowflake" by code_simp
  ultimately show ?thesis by simp
qed

text \<open>
  A health check treats every algorithm on its own and determines the effective algorithm from the
  final states if any of them changed its degradation; so the iteration order of the map of health
  states has no effect on what the check computes.
\<close>

theorem check_all_health_spec:
  assumes "distinct (map fst (dm_health m))"
  shows "(\<forall>a. health_of a (check_all_health clock now report m) =
      map_option (\<lambda>h. fst (turn_result (clock a) (dm_config m) (health_report report m a) h))
        (health_of a m)) \<and>
    dm_current_state (check_all_health clock now report m) =
      (if some_change clock report m (dom (\<lambda>a. health_of a m))
       then determine_effective_algorithm (check_all_health clock now report m)
       else dm_current_state m)"
  using check_all_health_post [OF assms] by blast

theorem check_all_health_spec_witness:
  "health_of Segment (check_all_health (\<lambda>_. 7) 8 (\<lambda>_. Healthy) demo_manager) =
     Some (hs_record_success 7 (health_state_new Segment))"
proof -
  have d: "distinct (map fst (dm_health demo_manager))" by code_simp
  have h: "health_of Segment demo_manager = Some (health_state_new Segment)" by code_simp
  have "health_report (\<lambda>_. Healthy) demo_manager Segment = Healthy" by code_simp
  with check_all_health_spec [OF d, of "\<lambda>_. 7" 8 "\<lambda>_. Healthy"] h show ?thesis
    by (simp add: turn_result_def probe_result_def health_state_new_def
        get_circuit_breaker_state_def CIRCUIT_BREAKER_CLOSED_def CIRCUIT_BREAKER_OPEN_def
        CIRCUIT_BREAKER_HALF_OPEN_def split: if_splits)
qed

text \<open>
  An algorithm that recorded failures degrade, with its circuit still closed, is never probed again:
  no number of health checks, however healthy their reports, changes its state.
\<close>

theorem degraded_closed_never_probed:
  assumes "distinct (map fst (dm_health m))" "health_of a m = Some h" "hs_is_degraded h"
    and "get_circuit_breaker_state h = CircuitClosed"
  shows "health_of a (check_all_health clock now report m) = Some h"
  using check_all_health_post(1) [OF assms(1), of a clock now report] assms
  by (simp add: turn_result_def probe_result_def)

theorem degraded_closed_never_probed_witness:
  "\<exists>h. health_of Segment (fold dm_apply (replicate 5 (Result 1 Segment False)) demo_manager) = Some h \<and>
     hs_is_degraded h \<and>
     health_of Segment (check_all_health (\<lambda>_. 10 ^ 12) 0 (\<lambda>_. Healthy)
       (fold dm_apply (replicate 5 (Result 1 Segment False)) demo_manager)) = Some h"
proof -
  let ?m = "fold dm_apply (replicate 5 (Result 1 Segment False)) demo_manager"
  have d: "distinct (map fst (dm_health ?m))" by code_simp
  have "map_option (\<lambda>h. hs_is_degraded h \<and> get_circuit_breaker_state h = CircuitClosed)
      (health_of Segment ?m) = Some True" by code_simp
  then obtain h where h: "health_of Segment ?m = Some h" "hs_is_degraded h"
    "get_circuit_breaker_state h = CircuitClosed" by auto
  from degraded_closed_never_probed [OF d h] h show ?thesis by blast
qed

text \<open>
  A manual degradation of the primary algorithm is recorded in its health but changes neither the
  degradation state nor the effective algorithm, which is then a degraded one.
\<close>

theorem manual_degrade_ignored:
  assumes "dm_current_state m = DegNormal" "a = dm_primary m"
  shows "get_effective_algorithm (manual_degrade a m) = a \<and> \<not> usable (manual_degrade a m) a \<and>
    dm_current_state (manual_degrade a m) = DegNormal"
  using assms by (auto simp: manual_degrade_def get_effective_algorithm_def split: option.split)

theorem manual_degrade_ignored_witness:
  "get_effective_algorithm (manual_degrade Segment demo_manager) = Segment \<and>
   usable (manual_degrade Segment demo_manager) Snowflake"
proof -
  have "dm_current_state demo_manager = DegNormal" "Segment = dm_primary demo_manager"
    by code_simp+
  moreover have "usable (manual_degrade Segment demo_manager) Snowflake" by code_simp
  ultimately show ?thesis using manual_degrade_ignored [of demo_manager Segment] by simp
qed

end
