(* ===== verification/Uuid_Gen.thy ===== *)
theory Uuid_Gen
  imports Alg_Traits
begin

text \<open>
  The UUID generators of \<open>src/src/core/algorithm/uuid_v7.rs\<close>. \<open>Uuid::now_v7()\<close> and \<open>Uuid::new_v4()\<close>
  belong to the \<open>uuid\<close> crate: the values they return are the environment, a list from which each call
  takes the next. The two implementations are the same code up to the version, an argument of the shared
  definitions.
\<close>

record uuid_alg =
  ua_total_generated :: u64
  ua_total_failed :: u64

definition uuid_alg_new :: uuid_alg where
  "uuid_alg_new = \<lparr>ua_total_generated = 0, ua_total_failed = 0\<rparr>"

fun uuid_generate :: "uuid_alg \<Rightarrow> u128 list \<Rightarrow> (id_t res \<times> uuid_alg \<times> u128 list) option" where
  "uuid_generate s [] = None"
| "uuid_generate s (uuid # env) =
     Some (Inr (Id uuid), s\<lparr>ua_total_generated := ua_total_generated s + 1\<rparr>, env)"

fun draw_uuids :: "nat \<Rightarrow> u128 list \<Rightarrow> (id_t list \<times> u128 list) option" where
  "draw_uuids 0 env = Some ([], env)"
| "draw_uuids (Suc n) [] = None"
| "draw_uuids (Suc n) (uuid # env) =
     (case draw_uuids n env of None \<Rightarrow> None | Some (ids, env') \<Rightarrow> Some (Id uuid # ids, env'))"

definition uuid_batch_generate ::
  "algorithm_type \<Rightarrow> nat \<Rightarrow> uuid_alg \<Rightarrow> u128 list \<Rightarrow> (id_batch res \<times> uuid_alg \<times> u128 list) option" where
  "uuid_batch_generate version sz s env =
     (case draw_uuids sz env of
        None \<Rightarrow> None
      | Some (ids, env') \<Rightarrow>
          Some (Inr (batch_new ids version []),
                s\<lparr>ua_total_generated := ua_total_generated s + of_nat (length ids)\<rparr>, env'))"

definition uuid_v7_batch_generate ::
  "nat \<Rightarrow> uuid_alg \<Rightarrow> u128 list \<Rightarrow> (id_batch res \<times> uuid_alg \<times> u128 list) option" where
  "uuid_v7_batch_generate = uuid_batch_generate UuidV7"

definition uuid_v4_generate :: "uuid_alg \<Rightarrow> u128 list \<Rightarrow> (id_t res \<times> uuid_alg \<times> u128 list) option" where
  "uuid_v4_generate = uuid_generate"

definition uuid_v4_batch_generate ::
  "nat \<Rightarrow> uuid_alg \<Rightarrow> u128 list \<Rightarrow> (id_batch res \<times> uuid_alg \<times> u128 list) option" where
  "uuid_v4_batch_generate = uuid_batch_generate UuidV4"

definition uuid_health_check :: "uuid_alg \<Rightarrow> health_status" where
  "uuid_health_check s = Healthy"

definition uuid_metrics_snapshot :: "uuid_alg \<Rightarrow> algorithm_metrics" where
  "uuid_metrics_snapshot s =
     algorithm_metrics_new\<lparr>am_total_generated := ua_total_generated s,
       am_total_failed := ua_total_failed s\<rparr>"

lemma draw_uuids_eq:
  "draw_uuids n env = (if n \<le> length env then Some (map Id (take n env), drop n env) else None)"
  by (induction n env rule: draw_uuids.induct) auto

lemma uuid_generate_ok: "env \<noteq> [] \<Longrightarrow> uuid_generate s env =
    Some (Inr (Id (hd env)), s\<lparr>ua_total_generated := ua_total_generated s + 1\<rparr>, tl env)"
  by (cases env) simp_all

text \<open>
  A batch of UUIDs holds exactly the requested number of the values drawn, in order, so it has no
  repetition when the crate does not repeat itself, and it never fails.
\<close>

theorem uuid_batch_spec:
  assumes "sz \<le> length env" "distinct env"
  shows "\<exists>b s' env'. uuid_batch_generate version sz s env = Some (Inr b, s', env') \<and>
    batch_ids b = map Id (take sz env) \<and> length (batch_ids b) = sz \<and> distinct (batch_ids b) \<and>
    batch_algorithm b = version \<and> ua_total_generated s' = ua_total_generated s + of_nat sz"
  using assms
  by (simp add: uuid_batch_generate_def draw_uuids_eq batch_new_def distinct_map inj_on_def)

lemma take_two_uuids: "take 2 [7, 9, 11 :: u128] = [7, 9]"
  by (simp add: take_Cons' del: of_nat_numeral)

theorem uuid_batch_spec_witness:
  "distinct [7, 9, 11 :: u128] \<and>
   (\<exists>b s' env'. uuid_batch_generate UuidV4 2 uuid_alg_new [7, 9, 11] = Some (Inr b, s', env') \<and>
     batch_ids b = [Id 7, Id 9] \<and> distinct (batch_ids b))"
proof -
  have d: "distinct [7, 9, 11 :: u128]" by simp
  have l: "2 \<le> length [7, 9, 11 :: u128]" by simp
  show ?thesis
    using uuid_batch_spec [OF l d, of UuidV4 uuid_alg_new] d unfolding take_two_uuids list.map
    by blast
qed

end
