(* ===== verification/Router.thy ===== *)
theory Router
  imports Degradation Segment_Gen Snowflake_Gen Uuid_Gen
begin

text \<open>
  The algorithm router, \<open>src/src/core/algorithm/router.rs\<close>. A registered algorithm is a trait object:
  \<open>attempt a w\<close> is what a call of algorithm \<open>a\<close> returns in the world \<open>w\<close> of all algorithm states,
  with the new world, and \<open>None\<close> if it still waits. The last part instantiates it with the modelled
  algorithms. Tracing is left out.
\<close>

section \<open>State\<close>

record router =
  rt_config :: algorithm_config
  rt_algorithms :: "algorithm_type list"
  rt_fallback_chain :: "algorithm_type list"
  rt_current_algorithm :: "(string \<times> algorithm_type) list"
  rt_manager :: degradation_manager

fun fallbacks_for :: "algorithm_type \<Rightarrow> algorithm_type list" where
  "fallbacks_for Segment = [Snowflake, UuidV7, UuidV4]"
| "fallbacks_for Snowflake = [UuidV7, UuidV4]"
| "fallbacks_for _ = []"

definition router_new :: "algorithm_config \<Rightarrow> nat \<Rightarrow> router" where
  "router_new cfg now =
     (let chain = fallbacks_for (get_default_algorithm cfg);
          m = set_fallback_chain chain
                (set_primary_algorithm (get_default_algorithm cfg) (manager_new None now))
      in \<lparr>rt_config = cfg, rt_algorithms = [], rt_fallback_chain = chain,
          rt_current_algorithm = [], rt_manager = m\<rparr>)"

text \<open>\<open>built a\<close> is the result of \<open>AlgorithmBuilder::new(a)...build(config)\<close>.\<close>

definition router_initialize :: "(algorithm_type \<Rightarrow> unit res) \<Rightarrow> router \<Rightarrow> unit res \<times> router" where
  "router_initialize built r =
     (let r' = fold (\<lambda>a r. case built a of
            Inr _ \<Rightarrow> r\<lparr>rt_algorithms := List.insert a (rt_algorithms r),
                       rt_manager := register_algorithm a (rt_manager r)\<rparr>
          | Inl _ \<Rightarrow> r) [Segment, Snowflake, UuidV7, UuidV4] r
      in if rt_algorithms r' = [] then (Inl (InternalError ''No algorithms available''), r')
         else (Inr (), r'))"

definition get_algorithm :: "generate_context \<Rightarrow> router \<Rightarrow> algorithm_type" where
  "get_algorithm ctx r =
     (case map_of (rt_current_algorithm r) (ctx_biz_tag ctx) of
        Some a \<Rightarrow> a
      | None \<Rightarrow> get_default_algorithm (rt_config r))"

definition set_algorithm :: "string \<Rightarrow> algorithm_type \<Rightarrow> router \<Rightarrow> router" where
  "set_algorithm tag a r = r\<lparr>rt_current_algorithm := AList.update tag a (rt_current_algorithm r)\<rparr>"

definition get_algorithm_name :: "string \<Rightarrow> router \<Rightarrow> string" where
  "get_algorithm_name tag r =
     (case map_of (rt_current_algorithm r) tag of
        Some a \<Rightarrow> algorithm_name a
      | None \<Rightarrow> algorithm_name (get_default_algorithm (rt_config r)))"

section \<open>Routing\<close>

text \<open>
  The internal functions of a single request and of a batch, each with its two copies of the loop over the
  chain, are one definition over the attempt; \<open>rd w\<close> is the instant the degradation manager reads
  when it records the result of an attempt that left the world \<open>w\<close>.
\<close>

definition note_result :: "nat \<Rightarrow> algorithm_type \<Rightarrow> bool \<Rightarrow> router \<Rightarrow> router" where
  "note_result now a ok r = r\<lparr>rt_manager := record_generation_result now a ok (rt_manager r)\<rparr>"

fun try_fallbacks ::
  "('w \<Rightarrow> nat) \<Rightarrow> (algorithm_type \<Rightarrow> 'w \<Rightarrow> ('r res \<times> 'w) option) \<Rightarrow> algorithm_type list \<Rightarrow> router \<Rightarrow> 'w \<Rightarrow>
   ('r option \<times> router \<times> 'w) option" where
  "try_fallbacks rd attempt [] r w = Some (None, r, w)"
| "try_fallbacks rd attempt (f # fs) r w =
     (if f \<in> set (rt_algorithms r) then
        (case attempt f w of
           None \<Rightarrow> None
         | Some (Inr x, w') \<Rightarrow> Some (Some x, note_result (rd w') f True r, w')
         | Some (Inl _, w') \<Rightarrow> try_fallbacks rd attempt fs (note_result (rd w') f False r) w')
      else try_fallbacks rd attempt fs r w)"

definition route ::
  "('w \<Rightarrow> nat) \<Rightarrow> (algorithm_type \<Rightarrow> 'w \<Rightarrow> ('r res \<times> 'w) option) \<Rightarrow> algorithm_type \<Rightarrow> router \<Rightarrow> 'w \<Rightarrow>
   ('r res \<times> router \<times> 'w) option" where
  "route rd attempt a r w =
     (if a \<in> set (rt_algorithms r) then
        (case attempt a w of
           None \<Rightarrow> None
         | Some (Inr x, w') \<Rightarrow> Some (Inr x, note_result (rd w') a True r, w')
         | Some (Inl e, w') \<Rightarrow>
             (case try_fallbacks rd attempt (rt_fallback_chain r) (note_result (rd w') a False r) w' of
                None \<Rightarrow> None
              | Some (Some x, r', w'') \<Rightarrow> Some (Inr x, r', w'')
              | Some (None, r', w'') \<Rightarrow> Some (Inl e, r', w'')))
      else
        (case try_fallbacks rd attempt (rt_fallback_chain r) r w of
           None \<Rightarrow> None
         | Some (Some x, r', w'') \<Rightarrow> Some (Inr x, r', w'')
         | Some (None, r', w'') \<Rightarrow> Some (Inl (InternalError ''All algorithms failed''), r', w'')))"

definition route_batch ::
  "('w \<Rightarrow> nat) \<Rightarrow> (generate_context \<Rightarrow> nat \<Rightarrow> algorithm_type \<Rightarrow> 'w \<Rightarrow> (id_batch res \<times> 'w) option) \<Rightarrow>
   algorithm_type \<Rightarrow> generate_context \<Rightarrow> nat \<Rightarrow> router \<Rightarrow> 'w \<Rightarrow> (id_batch res \<times> router \<times> 'w) option" where
  "route_batch rd bgen a ctx sz r w = route rd (bgen ctx sz) a r w"

definition router_generate ::
  "('w \<Rightarrow> nat) \<Rightarrow> (generate_context \<Rightarrow> algorithm_type \<Rightarrow> 'w \<Rightarrow> (id_t res \<times> 'w) option) \<Rightarrow>
   generate_context \<Rightarrow> router \<Rightarrow> 'w \<Rightarrow> (id_t res \<times> router \<times> 'w) option" where
  "router_generate rd gen ctx r w = route rd (gen ctx) (get_algorithm ctx r) r w"

definition router_batch_generate ::
  "('w \<Rightarrow> nat) \<Rightarrow> (generate_context \<Rightarrow> nat \<Rightarrow> algorithm_type \<Rightarrow> 'w \<Rightarrow> (id_batch res \<times> 'w) option) \<Rightarrow>
   generate_context \<Rightarrow> nat \<Rightarrow> router \<Rightarrow> 'w \<Rightarrow> (id_batch res \<times> router \<times> 'w) option" where
  "router_batch_generate rd bgen ctx sz r w = route_batch rd bgen (get_algorithm ctx r) ctx sz r w"

definition context_for :: "string \<Rightarrow> string \<Rightarrow> string \<Rightarrow> generate_context" where
  "context_for workspace grp tag =
     \<lparr>ctx_workspace_id = workspace, ctx_group_id = grp, ctx_biz_tag = tag, ctx_format = Numeric,
      ctx_prefix = None\<rparr>"

definition generate_with_algorithm ::
  "('w \<Rightarrow> nat) \<Rightarrow> (generate_context \<Rightarrow> algorithm_type \<Rightarrow> 'w \<Rightarrow> (id_t res \<times> 'w) option) \<Rightarrow>
   algorithm_type \<Rightarrow> string \<Rightarrow> string \<Rightarrow> string \<Rightarrow> router \<Rightarrow> 'w \<Rightarrow> (id_t res \<times> router \<times> 'w) option" where
  "generate_with_algorithm rd gen a workspace grp tag r w =
     route rd (gen (context_for workspace grp tag)) a r w"

definition batch_generate_with_algorithm ::
  "('w \<Rightarrow> nat) \<Rightarrow> (generate_context \<Rightarrow> nat \<Rightarrow> algorithm_type \<Rightarrow> 'w \<Rightarrow> (id_batch res \<times> 'w) option) \<Rightarrow>
   algorithm_type \<Rightarrow> string \<Rightarrow> string \<Rightarrow> string \<Rightarrow> nat \<Rightarrow> router \<Rightarrow> 'w \<Rightarrow>
   (id_batch res \<times> router \<times> 'w) option" where
  "batch_generate_with_algorithm rd bgen a workspace grp tag sz r w =
     route_batch rd bgen a (context_for workspace grp tag) sz r w"

text \<open>The \<open>IdGenerator\<close> trait, as the server calls it.\<close>

definition id_generator_generate ::
  "('w \<Rightarrow> nat) \<Rightarrow> (generate_context \<Rightarrow> algorithm_type \<Rightarrow> 'w \<Rightarrow> (id_t res \<times> 'w) option) \<Rightarrow>
   string \<Rightarrow> string \<Rightarrow> string \<Rightarrow> router \<Rightarrow> 'w \<Rightarrow> (id_t res \<times> router \<times> 'w) option" where
  "id_generator_generate rd gen workspace grp tag r w =
     router_generate rd gen (context_for workspace grp tag) r w"

definition id_generator_batch_generate ::
  "('w \<Rightarrow> nat) \<Rightarrow> (generate_context \<Rightarrow> nat \<Rightarrow> algorithm_type \<Rightarrow> 'w \<Rightarrow> (id_batch res \<times> 'w) option) \<Rightarrow>
   string \<Rightarrow> string \<Rightarrow> string \<Rightarrow> nat \<Rightarrow> router \<Rightarrow> 'w \<Rightarrow>
   (id_t list res \<times> router \<times> 'w) option" where
  "id_generator_batch_generate rd bgen workspace grp tag sz r w =
     map_option (\<lambda>(x, r', w'). (map_sum id batch_ids x, r', w'))
       (router_batch_generate rd bgen (context_for workspace grp tag) sz r w)"

definition id_generator_batch_with_algorithm ::
  "('w \<Rightarrow> nat) \<Rightarrow> (generate_context \<Rightarrow> nat \<Rightarrow> algorithm_type \<Rightarrow> 'w \<Rightarrow> (id_batch res \<times> 'w) option) \<Rightarrow>
   algorithm_type \<Rightarrow> string \<Rightarrow> string \<Rightarrow> string \<Rightarrow> nat \<Rightarrow> router \<Rightarrow> 'w \<Rightarrow>
   (id_t list res \<times> router \<times> 'w) option" where
  "id_generator_batch_with_algorithm rd bgen a workspace grp tag sz r w =
     map_option (\<lambda>(x, r', w'). (map_sum id batch_ids x, r', w'))
       (batch_generate_with_algorithm rd bgen a workspace grp tag sz r w)"

section \<open>Health\<close>

definition router_statuses ::
  "(algorithm_type \<Rightarrow> health_status) \<Rightarrow> router \<Rightarrow> (algorithm_type \<times> health_status) list" where
  "router_statuses report r = map (\<lambda>a. (a, report a)) (rt_algorithms r)"

definition is_unhealthy :: "health_status \<Rightarrow> bool" where
  "is_unhealthy h = (case h of Unhealthy _ \<Rightarrow> True | _ \<Rightarrow> False)"

definition is_health_degraded :: "health_status \<Rightarrow> bool" where
  "is_health_degraded h = (case h of HealthDegraded _ \<Rightarrow> True | _ \<Rightarrow> False)"

definition router_health_check :: "(algorithm_type \<Rightarrow> health_status) \<Rightarrow> router \<Rightarrow> health_status" where
  "router_health_check report r =
     (let statuses = router_statuses report r in
      if statuses = [] then Unhealthy ''No algorithms available''
      else if list_ex (\<lambda>(_, s). is_unhealthy s) statuses
      then Unhealthy ''Some algorithms are unhealthy''
      else if list_ex (\<lambda>(_, s). is_health_degraded s) statuses
      then HealthDegraded ''Some algorithms are degraded''
      else Healthy)"

definition check_health_and_update_degradation ::
  "(algorithm_type \<Rightarrow> nat) \<Rightarrow> nat \<Rightarrow> (algorithm_type \<Rightarrow> health_status) \<Rightarrow> router \<Rightarrow> router" where
  "check_health_and_update_degradation clock now report r =
     r\<lparr>rt_manager := check_all_health clock now report (rt_manager r)\<rparr>"

section \<open>The modelled algorithms behind the router\<close>

record world =
  w_segment :: segment_alg
  w_loader :: "segment_data res list"
  w_snowflake :: snowflake
  w_clock :: "int list"
  w_uuid_v7 :: uuid_alg
  w_v7_values :: "u128 list"
  w_uuid_v4 :: uuid_alg
  w_v4_values :: "u128 list"

definition world_generate ::
  "generate_context \<Rightarrow> algorithm_type \<Rightarrow> world \<Rightarrow> (id_t res \<times> world) option" where
  "world_generate ctx a w =
     (case a of
        Segment \<Rightarrow> map_option (\<lambda>(r, s, e). (r, w\<lparr>w_segment := s, w_loader := e\<rparr>))
                     (segment_generate ctx (w_segment w) (w_loader w))
      | Snowflake \<Rightarrow> map_option (\<lambda>(r, s, e). (r, w\<lparr>w_snowflake := s, w_clock := e\<rparr>))
                       (generate_id (w_snowflake w) (w_clock w))
      | UuidV7 \<Rightarrow> map_option (\<lambda>(r, s, e). (r, w\<lparr>w_uuid_v7 := s, w_v7_values := e\<rparr>))
                    (uuid_generate (w_uuid_v7 w) (w_v7_values w))
      | UuidV4 \<Rightarrow> map_option (\<lambda>(r, s, e). (r, w\<lparr>w_uuid_v4 := s, w_v4_values := e\<rparr>))
                    (uuid_v4_generate (w_uuid_v4 w) (w_v4_values w)))"

definition world_batch_generate ::
  "generate_context \<Rightarrow> nat \<Rightarrow> algorithm_type \<Rightarrow> world \<Rightarrow> (id_batch res \<times> world) option" where
  "world_batch_generate ctx sz a w =
     (case a of
        Segment \<Rightarrow> map_option (\<lambda>(r, s, e). (r, w\<lparr>w_segment := s, w_loader := e\<rparr>))
                     (segment_batch_generate ctx sz (w_segment w) (w_loader w))
      | Snowflake \<Rightarrow> map_option (\<lambda>(r, s, e). (r, w\<lparr>w_snowflake := s, w_clock := e\<rparr>))
                       (snowflake_batch_generate sz (w_snowflake w) (w_clock w))
      | UuidV7 \<Rightarrow> map_option (\<lambda>(r, s, e). (r, w\<lparr>w_uuid_v7 := s, w_v7_values := e\<rparr>))
                    (uuid_v7_batch_generate sz (w_uuid_v7 w) (w_v7_values w))
      | UuidV4 \<Rightarrow> map_option (\<lambda>(r, s, e). (r, w\<lparr>w_uuid_v4 := s, w_v4_values := e\<rparr>))
                    (uuid_v4_batch_generate sz (w_uuid_v4 w) (w_v4_values w)))"

section \<open>The reference loop\<close>

text \<open>
  \<open>tried\<close> is the contract of the router without its state: call the algorithms in order up to the
  first success, and log each call with the instant and the error.
\<close>

fun tried ::
  "('w \<Rightarrow> nat) \<Rightarrow> (algorithm_type \<Rightarrow> 'w \<Rightarrow> ('r res \<times> 'w) option) \<Rightarrow> algorithm_type list \<Rightarrow> 'w \<Rightarrow>
   ('r option \<times> (algorithm_type \<times> nat \<times> core_error option) list \<times> 'w) option" where
  "tried rd attempt [] w = Some (None, [], w)"
| "tried rd attempt (f # fs) w =
     (case attempt f w of
        None \<Rightarrow> None
      | Some (Inr x, w') \<Rightarrow> Some (Some x, [(f, rd w', None)], w')
      | Some (Inl e, w') \<Rightarrow>
          map_option (\<lambda>(x, lg, w''). (x, (f, rd w', Some e) # lg, w'')) (tried rd attempt fs w'))"

definition note_log :: "(algorithm_type \<times> nat \<times> core_error option) list \<Rightarrow> router \<Rightarrow> router" where
  "note_log lg r = r\<lparr>rt_manager :=
     fold (\<lambda>(f, t, e). record_generation_result t f (e = None)) lg (rt_manager r)\<rparr>"

definition candidates :: "algorithm_type \<Rightarrow> router \<Rightarrow> algorithm_type list" where
  "candidates a r = filter (\<lambda>f. f \<in> set (rt_algorithms r)) (a # rt_fallback_chain r)"

definition answer ::
  "'r option \<Rightarrow> bool \<Rightarrow> (algorithm_type \<times> nat \<times> core_error option) list \<Rightarrow> 'r res" where
  "answer x found lg =
     (case x of
        Some y \<Rightarrow> Inr y
      | None \<Rightarrow> (case lg of
          (_, _, Some e) # _ \<Rightarrow> if found then Inl e else Inl (InternalError ''All algorithms failed'')
        | _ \<Rightarrow> Inl (InternalError ''All algorithms failed'')))"

lemma note_log_Nil [simp]: "note_log [] r = r"
  by (simp add: note_log_def)

lemma note_log_Cons [simp]: "note_log ((f, t, e) # lg) r = note_log lg (note_result t f (e = None) r)"
  by (simp add: note_log_def note_result_def)

lemma note_result_fields [simp]:
  "rt_algorithms (note_result t f b r) = rt_algorithms r"
  "rt_fallback_chain (note_result t f b r) = rt_fallback_chain r"
  by (simp_all add: note_result_def)

lemma try_fallbacks_tried:
  "try_fallbacks rd attempt fs r w =
     map_option (\<lambda>(x, lg, w'). (x, note_log lg r, w'))
       (tried rd attempt (filter (\<lambda>f. f \<in> set (rt_algorithms r)) fs) w)"
proof (induction fs arbitrary: r w)
  case Nil
  then show ?case by simp
next
  case (Cons f fs)
  show ?case
    by (auto simp: Cons.IH option.map_comp o_def split_def split: option.splits sum.splits prod.splits)
qed

text \<open>
  C9. The router's request handling equals the reference loop: it calls the requested algorithm and the
  fallback chain in order, skipping what is not registered, up to the first success; it records exactly
  those calls, in order, in the degradation manager; and if none succeeds it returns the error of the
  requested algorithm, or the router's own error \<open>All algorithms failed\<close> if the requested algorithm is
  not registered, whatever the algorithms of the chain answered.
\<close>

theorem route_spec:
  "route rd attempt a r w =
     map_option (\<lambda>(x, lg, w'). (answer x (a \<in> set (rt_algorithms r)) lg, note_log lg r, w'))
       (tried rd attempt (candidates a r) w)"
  by (auto simp: route_def candidates_def try_fallbacks_tried answer_def option.map_comp o_def
           split: option.splits sum.splits prod.splits list.splits)

lemma note_log_fields [simp]:
  "rt_algorithms (note_log lg r) = rt_algorithms r"
  "rt_fallback_chain (note_log lg r) = rt_fallback_chain r"
  by (simp_all add: note_log_def)

text \<open>
  The degradation manager does not take part in routing: whatever it has recorded (degraded algorithms,
  open circuits, a manual degradation), the answer of a request and the effect on the algorithms are
  the same.
\<close>

theorem routing_ignores_degradation:
  "map_option (\<lambda>(x, r', w'). (x, w')) (route rd attempt a (r\<lparr>rt_manager := m\<rparr>) w) =
   map_option (\<lambda>(x, r', w'). (x, w')) (route rd attempt a r w)"
  by (simp add: route_spec candidates_def option.map_comp o_def split_def)

lemma tried_returns:
  assumes "\<And>n b w. b \<in> set bs \<Longrightarrow> P (Suc n) w \<Longrightarrow> \<exists>x w'. attempt b w = Some (x, w') \<and> P n w'"
    and "set fs \<subseteq> set bs" "P (length fs) w"
  shows "\<exists>x lg w'. tried rd attempt fs w = Some (x, lg, w')"
  using assms(2,3)
proof (induction fs arbitrary: w)
  case Nil
  then show ?case by simp
next
  case (Cons f fs)
  from assms(1) [of f "length fs" w] Cons.prems obtain x w' where
    a: "attempt f w = Some (x, w')" and p: "P (length fs) w'"
    by auto
  from Cons.IH [OF _ p] Cons.prems show ?case
    by (auto simp: a split: sum.splits)
qed

lemma tried_succeeds:
  assumes "\<And>w x w'. attempt v w = Some (x, w') \<Longrightarrow> \<exists>y. x = Inr y"
    and "v \<in> set fs" "tried rd attempt fs w = Some (x, lg, w')"
  shows "\<exists>y. x = Some y"
  using assms(2,3)
proof (induction fs arbitrary: w x lg w')
  case (Cons f fs)
  then show ?case
    using assms(1) [of w] by (fastforce split: option.splits sum.splits prod.splits)
qed simp

text \<open>
  C17. A request is answered: if every registered algorithm returns while \<open>P\<close> grants a further attempt, and
  one algorithm that is registered and requested or in the chain never fails, then the router returns,
  and it returns a value, never an error.
\<close>

theorem request_answered:
  assumes "\<And>n b w. b \<in> set (rt_algorithms r) \<Longrightarrow> P (Suc n) w \<Longrightarrow>
             \<exists>x w'. attempt b w = Some (x, w') \<and> P n w'"
    and "P (length (candidates a r)) w"
    and "\<And>w x w'. attempt v w = Some (x, w') \<Longrightarrow> \<exists>y. x = Inr y"
    and "v \<in> set (candidates a r)"
  shows "\<exists>y r' w'. route rd attempt a r w = Some (Inr y, r', w')"
proof -
  have sub: "set (candidates a r) \<subseteq> set (rt_algorithms r)"
    by (auto simp: candidates_def)
  from tried_returns [where P = P and rd = rd and attempt = attempt and bs = "rt_algorithms r",
      OF assms(1) sub assms(2)] obtain x lg w' where
    t: "tried rd attempt (candidates a r) w = Some (x, lg, w')"
    by blast
  from tried_succeeds [OF assms(3,4) t] obtain y where "x = Some y" ..
  with t show ?thesis by (simp add: route_spec answer_def)
qed

definition example_router :: router where
  "example_router = (router_new algorithm_config_default 0)\<lparr>rt_algorithms := [UuidV7, UuidV4]\<rparr>"

definition example_world :: world where
  "example_world =
     \<lparr>w_segment = segment_alg_new 0, w_loader = [], w_snowflake = snowflake_new 0 0, w_clock = [],
      w_uuid_v7 = uuid_alg_new, w_v7_values = [5, 6, 7], w_uuid_v4 = uuid_alg_new,
      w_v4_values = [8, 9, 10]\<rparr>"

theorem request_answered_witness:
  "\<exists>y r' w'. route (\<lambda>_. 0) (world_generate (context_for ''w'' ''g'' ''t'')) UuidV7 example_router
     example_world = Some (Inr y, r', w')"
proof (rule request_answered [where v = UuidV4 and
      P = "\<lambda>n (w :: world). n \<le> length (w_v7_values w) \<and> n \<le> length (w_v4_values w)"])
  have c: "candidates UuidV7 example_router = [UuidV7, UuidV7, UuidV4]"
    by code_simp
  then show "length (candidates UuidV7 example_router) \<le> length (w_v7_values example_world) \<and>
        length (candidates UuidV7 example_router) \<le> length (w_v4_values example_world)"
    by (auto simp: example_world_def)
  from c show "UuidV4 \<in> set (candidates UuidV7 example_router)"
    by auto
next
  fix n b and w :: world
  assume "b \<in> set (rt_algorithms example_router)"
    "Suc n \<le> length (w_v7_values w) \<and> Suc n \<le> length (w_v4_values w)"
  then show "\<exists>x w'. world_generate (context_for ''w'' ''g'' ''t'') b w = Some (x, w') \<and>
      n \<le> length (w_v7_values w') \<and> n \<le> length (w_v4_values w')"
    by (cases "w_v7_values w"; cases "w_v4_values w")
      (auto simp: example_router_def world_generate_def uuid_v4_generate_def)
next
  fix w w' :: world and x
  assume "world_generate (context_for ''w'' ''g'' ''t'') UuidV4 w = Some (x, w')"
  then show "\<exists>y. x = Inr y"
    by (cases "w_v4_values w") (auto simp: world_generate_def uuid_v4_generate_def)
qed

lemma initialize_steps:
  "fold (\<lambda>a r. case built a of
            Inr _ \<Rightarrow> r\<lparr>rt_algorithms := List.insert a (rt_algorithms r),
                       rt_manager := register_algorithm a (rt_manager r)\<rparr>
          | Inl _ \<Rightarrow> r) as r =
   r\<lparr>rt_algorithms := fold List.insert (filter (\<lambda>a. \<not> isl (built a)) as) (rt_algorithms r),
     rt_manager := fold register_algorithm (filter (\<lambda>a. \<not> isl (built a)) as) (rt_manager r)\<rparr>"
  by (induction as arbitrary: r) (auto split: sum.splits)

text \<open>
  A new router registers exactly the algorithms whose factory succeeded, in itself and in the degradation
  manager; initialisation fails only if none did; and the chain it falls back to never contains the
  default algorithm itself.
\<close>

theorem router_initialize_spec:
  "let r = router_new cfg now; (x, r') = router_initialize built r in
     set (rt_algorithms r') = {a. \<not> isl (built a)} \<and>
     (isl x \<longleftrightarrow> (\<forall>a. isl (built a))) \<and>
     rt_manager r' = fold register_algorithm
       (filter (\<lambda>a. \<not> isl (built a)) [Segment, Snowflake, UuidV7, UuidV4]) (rt_manager r) \<and>
     get_default_algorithm cfg \<notin> set (rt_fallback_chain r')"
proof -
  define ok where "ok = filter (\<lambda>a. \<not> isl (built a)) [Segment, Snowflake, UuidV7, UuidV4]"
  have ins: "set (fold List.insert xs []) = set xs" for xs :: "algorithm_type list"
    by (induction xs rule: rev_induct) auto
  have emp: "fold List.insert ok [] = [] \<longleftrightarrow> ok = []"
    using ins [of ok] by (metis set_empty)
  have memb: "a \<in> set [Segment, Snowflake, UuidV7, UuidV4]" for a
    by (cases a) simp_all
  have ok: "set ok = {a. \<not> isl (built a)}"
    unfolding ok_def set_filter using memb by blast
  have none: "ok = [] \<longleftrightarrow> (\<forall>a. isl (built a))"
    using ok by (metis (mono_tags) empty_Collect_eq set_empty)
  have chain: "a \<notin> set (fallbacks_for a)" for a
    by (cases a) simp_all
  have eq: "router_initialize built r =
      (let r' = r\<lparr>rt_algorithms := fold List.insert ok (rt_algorithms r),
                  rt_manager := fold register_algorithm ok (rt_manager r)\<rparr>
       in if rt_algorithms r' = [] then (Inl (InternalError ''No algorithms available''), r')
          else (Inr (), r'))" for r
    unfolding router_initialize_def initialize_steps ok_def ..
  have new: "rt_algorithms (router_new cfg now) = []"
    "rt_fallback_chain (router_new cfg now) = fallbacks_for (get_default_algorithm cfg)"
    by (simp_all add: router_new_def Let_def)
  show ?thesis
    unfolding eq ok_def [symmetric] by (simp add: Let_def new ins emp none ok chain)
qed

lemma initialized_manager:
  "rt_manager (snd (router_initialize built (router_new cfg now))) =
     fold register_algorithm (filter (\<lambda>a. \<not> isl (built a)) [Segment, Snowflake, UuidV7, UuidV4])
       (rt_manager (router_new cfg now))"
  using router_initialize_spec [of cfg now built] unfolding Let_def case_prod_beta by (elim conjE)

lemma health_registered:
  "health_of a (fold register_algorithm as m) =
     (if a \<in> set as then Some (health_state_new a) else health_of a m)"
  by (induction as arbitrary: m)
    (auto simp: register_algorithm_def put_health_def health_of_def update_conv')

lemma registered_fields:
  "dm_primary (fold register_algorithm as m) = dm_primary m"
  "dm_chain (fold register_algorithm as m) = dm_chain m"
  "dm_current_state (fold register_algorithm as m) = dm_current_state m"
  by (induction as arbitrary: m) (simp_all add: register_algorithm_def put_health_def)

definition same_plan :: "degradation_manager \<Rightarrow> degradation_manager \<Rightarrow> bool" where
  "same_plan m m' \<longleftrightarrow> dm_primary m' = dm_primary m \<and> dm_chain m' = dm_chain m"

lemma same_plan_trans: "same_plan m m' \<Longrightarrow> same_plan m' m'' \<Longrightarrow> same_plan m m''"
  by (simp add: same_plan_def)

lemma trigger_plan: "dm_primary (trigger_degradation a h m) = dm_primary m" "dm_chain (trigger_degradation a h m) = dm_chain m"
  by (simp_all add: trigger_degradation_def)

lemma probe_plan: "same_plan m (fst (probe now health a h (m, changed)))"
  by (cases health) (auto simp: same_plan_def probe_def Let_def trigger_plan)

lemma check_turn_plan: "same_plan (fst mc) (fst (check_turn now report a mc))"
proof (cases mc)
  case (Pair m changed)
  show ?thesis
  proof (cases "health_of a m")
    case None
    then show ?thesis by (simp add: Pair check_turn_def same_plan_def)
  next
    case (Some h)
    have probed: "same_plan m (fst (probe now x a h' (m, changed)))" for x h' by (rule probe_plan)
    then show ?thesis
      by (cases "get_circuit_breaker_state h"; cases "health_report report m a")
        (auto simp: Pair Some check_turn_def Let_def same_plan_def)
  qed
qed

lemma check_all_plan: "same_plan m (check_all_health clock now report m)"
proof -
  have "same_plan (fst mc) (fst (fold (\<lambda>a. check_turn (clock a) report a) as mc))" for as mc
  proof (induction as arbitrary: mc)
    case (Cons a as)
    from same_plan_trans [OF check_turn_plan Cons.IH] show ?case by simp
  qed (simp add: same_plan_def)
  from this [of "(m, False)" "map fst (dm_health m)"] show ?thesis
    by (auto simp: check_all_health_def same_plan_def split: prod.split)
qed

lemma record_plan: "same_plan m (record_generation_result now a ok m)"
  by (auto simp: record_generation_result_def same_plan_def Let_def trigger_plan attempt_recovery_def
      split: option.split)

lemma dm_apply_fields: "same_plan m (fold dm_apply es m)"
proof (induction es arbitrary: m)
  case (Cons e es)
  have "same_plan m (dm_apply e m)" by (cases e) (simp_all add: record_plan check_all_plan)
  from same_plan_trans [OF this Cons.IH] show ?case by simp
qed (simp add: same_plan_def)

text \<open>
  C25. The manager of an initialised router, whose default algorithm could be built: whatever results are
  recorded and whatever the health checks report, the effective algorithm is registered and not degraded,
  as long as the default algorithm or one of its fallbacks is.
\<close>

theorem effective_algorithm_usable_from_start:
  fixes es :: "dm_event list" and now :: nat
  assumes "\<not> isl (built (get_default_algorithm cfg))"
  defines "m \<equiv> fold dm_apply es (rt_manager (snd (router_initialize built (router_new cfg now))))"
  shows "(\<exists>a \<in> set (get_default_algorithm cfg # fallbacks_for (get_default_algorithm cfg)). usable m a) \<longrightarrow>
    usable m (get_effective_algorithm m)"
proof -
  let ?d = "get_default_algorithm cfg"
  define ok where "ok = filter (\<lambda>a. \<not> isl (built a)) [Segment, Snowflake, UuidV7, UuidV4]"
  define m0 where "m0 = rt_manager (router_new cfg now)"
  have start: "rt_manager (snd (router_initialize built (router_new cfg now))) = fold register_algorithm ok m0"
    unfolding ok_def m0_def by (rule initialized_manager)
  have m0: "dm_primary m0 = ?d" "dm_chain m0 = fallbacks_for ?d" "dm_current_state m0 = DegNormal"
    "health_of a m0 = None" for a
    by (simp_all add: m0_def router_new_def Let_def set_fallback_chain_def set_primary_algorithm_def
        manager_new_def health_of_def)
  have "?d \<in> set ok" using assms(1) by (cases ?d) (simp_all add: ok_def)
  then have "dm_inv (fold register_algorithm ok m0)"
    by (auto simp: dm_inv_def flags_ok_def usable_def health_registered registered_fields m0
        health_state_new_def)
  note inv = effective_algorithm_usable [OF this, of es, folded start, folded m_def]
  have "dm_primary m = ?d" "dm_chain m = fallbacks_for ?d"
    using dm_apply_fields [of "fold register_algorithm ok m0" es]
    by (simp_all add: m_def start same_plan_def registered_fields m0)
  with inv show ?thesis by simp
qed

text \<open>If the default algorithm cannot be built, the manager starts with it as its choice all the same.\<close>

lemma effective_algorithm_unregistered:
  fixes now :: nat
  assumes "isl (built (get_default_algorithm cfg))"
  defines "m \<equiv> rt_manager (snd (router_initialize built (router_new cfg now)))"
  shows "get_effective_algorithm m = get_default_algorithm cfg \<and> \<not> usable m (get_default_algorithm cfg)"
proof -
  define ok where "ok = filter (\<lambda>a. \<not> isl (built a)) [Segment, Snowflake, UuidV7, UuidV4]"
  have m: "m = fold register_algorithm ok (rt_manager (router_new cfg now))"
    unfolding m_def ok_def by (rule initialized_manager)
  have "get_default_algorithm cfg \<notin> set ok" using assms(1) by (auto simp: ok_def)
  moreover have "dm_primary (rt_manager (router_new cfg now)) = get_default_algorithm cfg"
    "dm_current_state (rt_manager (router_new cfg now)) = DegNormal"
    "health_of a (rt_manager (router_new cfg now)) = None" for a
    by (simp_all add: router_new_def Let_def set_fallback_chain_def set_primary_algorithm_def manager_new_def
        health_of_def)
  ultimately show ?thesis
    by (simp add: m get_effective_algorithm_def registered_fields usable_def health_registered)
qed

definition demo_started :: router where
  "demo_started = snd (router_initialize (\<lambda>_. Inr ()) (router_new algorithm_config_default 0))"

theorem effective_algorithm_usable_from_start_witness:
  "get_effective_algorithm (fold dm_apply (replicate 5 (Result 1 Segment False)) (rt_manager demo_started)) =
     Snowflake \<and>
   usable (fold dm_apply (replicate 5 (Result 1 Segment False)) (rt_manager demo_started)) Snowflake"
proof -
  let ?m = "fold dm_apply (replicate 5 (Result 1 Segment False)) (rt_manager demo_started)"
  have d: "get_default_algorithm algorithm_config_default = Segment" by code_simp
  have e: "get_effective_algorithm ?m = Snowflake" and v: "usable ?m UuidV7" by code_simp+
  have "\<exists>a \<in> set (Segment # fallbacks_for Segment). usable ?m a" using v by simp
  note start = effective_algorithm_usable_from_start [of "\<lambda>_. Inr ()" algorithm_config_default
      "replicate 5 (Result 1 Segment False)" 0, unfolded d, folded demo_started_def]
  have "usable ?m (get_effective_algorithm ?m)" by (rule mp [OF start]) (simp, fact)
  then show ?thesis using e by simp
qed

end
