(* ===== verification/Id_Handlers.thy ===== *)
theory Id_Handlers
  imports Router
begin

text \<open>
  The identifier handlers of the API, \<open>src/src/server/handlers/id_handlers.rs\<close>, with the counters
  of \<open>handlers/mod.rs\<close> and the requests and responses of \<open>server/models.rs\<close>.

  The \<open>IdGenerator\<close> trait object is a record of functions on a state \<open>'s\<close>; \<open>router_service\<close> is the
  modelled router in that role. Parameters: \<open>t key args\<close> is a translated text, \<open>disp\<close> and
  \<open>parse\<close> print and read a UUID, \<open>uuid_ts\<close> reads the time of a UUID as seconds and nanoseconds,
  \<open>latency\<close> is the measured time of the request in milliseconds and \<open>stamp\<close> the formatted time of the
  response. Logging is left out.
\<close>

section \<open>Requests, responses and counters\<close>

record generate_request =
  gr_workspace :: string
  gr_group :: string
  gr_biz_tag :: string
  gr_algorithm :: "string option"

record generate_response =
  gp_id :: string
  gp_algorithm :: string
  gp_timestamp :: string

record batch_request =
  br_workspace :: string
  br_group :: string
  br_biz_tag :: string
  br_size :: "nat option"
  br_algorithm :: "string option"

record batch_response =
  bp_ids :: "string list"
  bp_size :: nat
  bp_algorithm :: string
  bp_timestamp :: string

record parse_request =
  pr_id :: string
  pr_workspace :: string
  pr_group :: string
  pr_biz_tag :: string
  pr_algorithm :: string

record id_metadata_response =
  imr_timestamp :: u64
  imr_datacenter_id :: u8
  imr_worker_id :: u16
  imr_sequence :: u16
  imr_algorithm :: string
  imr_biz_tag :: string

record parse_response =
  pp_original_id :: string
  pp_numeric_value :: string
  pp_algorithm :: string
  pp_metadata :: id_metadata_response
  pp_timestamp :: string

record api_metrics =
  total_requests :: u64
  successful_generations :: u64
  failed_generations :: u64
  total_ids_generated :: u64
  avg_latency_ms :: u64
  total_latency_ms :: u64

definition api_metrics_default :: api_metrics where
  "api_metrics_default =
     \<lparr>total_requests = 0, successful_generations = 0, failed_generations = 0,
      total_ids_generated = 0, avg_latency_ms = 0, total_latency_ms = 0\<rparr>"

definition count_failure :: "api_metrics \<Rightarrow> api_metrics" where
  "count_failure m = m\<lparr>failed_generations := failed_generations m + 1\<rparr>"

definition count_success :: "nat \<Rightarrow> u64 \<Rightarrow> api_metrics \<Rightarrow> api_metrics" where
  "count_success n latency m =
     (let m1 = m\<lparr>total_requests := total_requests m + 1,
                 successful_generations := successful_generations m + 1,
                 total_ids_generated := total_ids_generated m + of_nat n,
                 total_latency_ms := total_latency_ms m + latency\<rparr>;
          total_reqs = total_requests m1;
          new_avg = (if total_reqs = 0 then latency else total_latency_ms m1 div total_reqs)
      in m1\<lparr>avg_latency_ms := new_avg\<rparr>)"

section \<open>The generator service\<close>

record 's id_service =
  svc_generate :: "string \<Rightarrow> string \<Rightarrow> string \<Rightarrow> 's \<Rightarrow> (id_t res \<times> 's) option"
  svc_generate_with ::
    "algorithm_type \<Rightarrow> string \<Rightarrow> string \<Rightarrow> string \<Rightarrow> 's \<Rightarrow> (id_t res \<times> 's) option"
  svc_batch :: "string \<Rightarrow> string \<Rightarrow> string \<Rightarrow> nat \<Rightarrow> 's \<Rightarrow> (id_t list res \<times> 's) option"
  svc_batch_with ::
    "algorithm_type \<Rightarrow> string \<Rightarrow> string \<Rightarrow> string \<Rightarrow> nat \<Rightarrow> 's \<Rightarrow> (id_t list res \<times> 's) option"
  svc_algorithm_name :: "string \<Rightarrow> 's \<Rightarrow> string res"

definition router_service ::
  "('w \<Rightarrow> nat) \<Rightarrow> (generate_context \<Rightarrow> algorithm_type \<Rightarrow> 'w \<Rightarrow> (id_t res \<times> 'w) option) \<Rightarrow>
   (generate_context \<Rightarrow> nat \<Rightarrow> algorithm_type \<Rightarrow> 'w \<Rightarrow> (id_batch res \<times> 'w) option) \<Rightarrow>
   (router \<times> 'w) id_service" where
  "router_service rd gen bgen =
     \<lparr>svc_generate = (\<lambda>ws grp tag (r, w). id_generator_generate rd gen ws grp tag r w),
      svc_generate_with = (\<lambda>a ws grp tag (r, w). generate_with_algorithm rd gen a ws grp tag r w),
      svc_batch = (\<lambda>ws grp tag sz (r, w). id_generator_batch_generate rd bgen ws grp tag sz r w),
      svc_batch_with =
        (\<lambda>a ws grp tag sz (r, w). id_generator_batch_with_algorithm rd bgen a ws grp tag sz r w),
      svc_algorithm_name = (\<lambda>tag (r, w). Inr (get_algorithm_name tag r))\<rparr>"

section \<open>Handlers\<close>

definition handle_generate ::
  "(u128 \<Rightarrow> string) \<Rightarrow> 's id_service \<Rightarrow> u64 \<Rightarrow> string \<Rightarrow> generate_request \<Rightarrow> api_metrics \<Rightarrow> 's \<Rightarrow>
   (generate_response res \<times> api_metrics \<times> 's) option" where
  "handle_generate disp svc latency stamp req m s =
     (let continue = (\<lambda>parsed outcome. case outcome of
            None \<Rightarrow> None
          | Some (Inl e, s') \<Rightarrow> Some (Inl e, count_failure m, s')
          | Some (Inr i, s') \<Rightarrow>
              Some (Inr \<lparr>gp_id = to_string disp i,
                         gp_algorithm = (case parsed of
                            Some a \<Rightarrow> algorithm_name a
                          | None \<Rightarrow> (case svc_algorithm_name svc (gr_biz_tag req) s' of
                                Inr n \<Rightarrow> n | Inl _ \<Rightarrow> ''segment'')),
                         gp_timestamp = stamp\<rparr>,
                    count_success 1 latency m, s'))
      in case gr_algorithm req of
           Some alg_str \<Rightarrow>
             (case parse_algorithm alg_str of
                Inl e \<Rightarrow> Some (Inl e, m, s)
              | Inr a \<Rightarrow> continue (Some a)
                  (svc_generate_with svc a (gr_workspace req) (gr_group req) (gr_biz_tag req) s))
         | None \<Rightarrow> continue None
             (svc_generate svc (gr_workspace req) (gr_group req) (gr_biz_tag req) s))"

definition finish_batch ::
  "(u128 \<Rightarrow> string) \<Rightarrow> 's id_service \<Rightarrow> u64 \<Rightarrow> string \<Rightarrow> batch_request \<Rightarrow> api_metrics \<Rightarrow>
   (id_t list res \<times> 's) option \<Rightarrow> (batch_response res \<times> api_metrics \<times> 's) option" where
  "finish_batch disp svc latency stamp req m outcome =
     (case outcome of
        None \<Rightarrow> None
      | Some (Inl e, s') \<Rightarrow> Some (Inl e, count_failure m, s')
      | Some (Inr is, s') \<Rightarrow>
          Some (Inr \<lparr>bp_ids = map (to_string disp) is, bp_size = length is,
                     bp_algorithm = (case svc_algorithm_name svc (br_biz_tag req) s' of
                        Inr n \<Rightarrow> n | Inl _ \<Rightarrow> []),
                     bp_timestamp = stamp\<rparr>,
                count_success (length is) latency m, s'))"

definition handle_batch_generate ::
  "(string \<Rightarrow> (string \<times> string) list \<Rightarrow> string) \<Rightarrow> (u128 \<Rightarrow> string) \<Rightarrow> 's id_service \<Rightarrow> u32 \<Rightarrow> u64 \<Rightarrow>
   string \<Rightarrow> batch_request \<Rightarrow> api_metrics \<Rightarrow> 's \<Rightarrow> (batch_response res \<times> api_metrics \<times> 's) option" where
  "handle_batch_generate t disp svc max_batch_size latency stamp req m s =
     (let sz = (case br_size req of Some n \<Rightarrow> n | None \<Rightarrow> 10) in
      if sz = 0 then
        Some (Inl (InvalidInput (t ''api.error.handlers.id_handlers.batch_size_zero'' [])), m, s)
      else if sz > unat max_batch_size then
        Some (Inl (InvalidInput (t ''api.error.handlers.id_handlers.batch_size_exceeds_max''
                [(''size'', print_dec sz), (''max'', print_dec (unat max_batch_size))])), m, s)
      else (case br_algorithm req of
         Some alg_str \<Rightarrow>
           (case parse_algorithm alg_str of
              Inl e \<Rightarrow> Some (Inl e, m, s)
            | Inr a \<Rightarrow> finish_batch disp svc latency stamp req m
                (svc_batch_with svc a (br_workspace req) (br_group req) (br_biz_tag req) sz s))
       | None \<Rightarrow> finish_batch disp svc latency stamp req m
           (svc_batch svc (br_workspace req) (br_group req) (br_biz_tag req) sz s)))"

definition extract_snowflake_metadata :: "id_t \<Rightarrow> id_metadata_response" where
  "extract_snowflake_metadata i =
     (let value = as_u128 i;
          sequence_mask = shl 1 10 - 1;
          worker_mask = shl 1 8 - 1;
          datacenter_mask = shl 1 3 - 1
      in \<lparr>imr_timestamp = ucast (shr value 21),
          imr_datacenter_id = ucast (shr value 18 AND datacenter_mask),
          imr_worker_id = ucast (shr value 10 AND worker_mask),
          imr_sequence = ucast (value AND sequence_mask),
          imr_algorithm = ''snowflake'', imr_biz_tag = []\<rparr>)"

definition extract_uuid_v7_metadata :: "(u128 \<Rightarrow> (u64 \<times> u32) option) \<Rightarrow> id_t \<Rightarrow> id_metadata_response" where
  "extract_uuid_v7_metadata uuid_ts i =
     \<lparr>imr_timestamp = (case uuid_ts (as_u128 i) of
        Some (secs, nanos) \<Rightarrow> secs * 1000 + ucast (nanos div 1000000) | None \<Rightarrow> 0),
      imr_datacenter_id = 0, imr_worker_id = 0, imr_sequence = 0, imr_algorithm = ''uuid_v7'',
      imr_biz_tag = []\<rparr>"

definition extract_segment_metadata :: "id_t \<Rightarrow> string \<Rightarrow> id_metadata_response" where
  "extract_segment_metadata i tag =
     \<lparr>imr_timestamp = 0, imr_datacenter_id = 0, imr_worker_id = 0, imr_sequence = 0,
      imr_algorithm = ''segment'', imr_biz_tag = tag\<rparr>"

definition handle_parse ::
  "(string \<Rightarrow> (string \<times> string) list \<Rightarrow> string) \<Rightarrow> (string \<Rightarrow> u128 option) \<Rightarrow>
   (u128 \<Rightarrow> (u64 \<times> u32) option) \<Rightarrow> 's id_service \<Rightarrow> string \<Rightarrow> parse_request \<Rightarrow> 's \<Rightarrow>
   parse_response res" where
  "handle_parse t parse uuid_ts svc stamp req s =
     (case from_string parse (pr_id req) of
        Inl e \<Rightarrow> Inl (InvalidIdString (t ''api.error.handlers.id_handlers.parse_id_failed''
                   [(''error'', t (i18n_key e) (i18n_args e))]))
      | Inr i \<Rightarrow>
          (let algorithm = (if pr_algorithm req = []
                 then (case svc_algorithm_name svc (pr_biz_tag req) s of
                         Inr n \<Rightarrow> n | Inl _ \<Rightarrow> ''unknown'')
                 else pr_algorithm req);
               metadata =
                 (if algorithm = ''snowflake'' then extract_snowflake_metadata i
                  else if algorithm = ''uuid_v7'' then extract_uuid_v7_metadata uuid_ts i
                  else if algorithm = ''segment'' then extract_segment_metadata i (pr_biz_tag req)
                  else \<lparr>imr_timestamp = 0, imr_datacenter_id = 0, imr_worker_id = 0,
                        imr_sequence = 0, imr_algorithm = ''unknown'',
                        imr_biz_tag = pr_biz_tag req\<rparr>)
           in Inr \<lparr>pp_original_id = pr_id req, pp_numeric_value = print_dec (unat (as_u128 i)),
                   pp_algorithm = algorithm, pp_metadata = metadata, pp_timestamp = stamp\<rparr>))"

section \<open>Reading a Snowflake identifier back\<close>

lemma low_mask_u128: "n < 128 \<Longrightarrow> (shl 1 n - 1 :: u128) = mask n"
  by (simp add: shl_def mask_eq_exp_minus_1)

lemma unat_ucast_field:
  fixes x :: "'a::len word"
  assumes "unat x < 2 ^ LENGTH('b)"
  shows "unat (ucast x :: 'b::len word) = unat x"
  using assms by (simp add: unsigned_ucast_eq take_bit_nat_eq_self)

lemma extract_fields:
  fixes v :: u128
  defines "m \<equiv> extract_snowflake_metadata (Id v)"
  shows "unat (imr_sequence m) = unat v mod 2 ^ 10"
    "unat (imr_worker_id m) = unat v div 2 ^ 10 mod 2 ^ 8"
    "unat (imr_datacenter_id m) = unat v div 2 ^ 18 mod 2 ^ 3"
    "unat v < 2 ^ 85 \<Longrightarrow> unat (imr_timestamp m) = unat v div 2 ^ 21"
proof -
  have field: "unat (shr v n AND mask k) = unat v div 2 ^ n mod 2 ^ k" if "n < 128" "k < 128" for n k
    using that by (simp add: unat_and_mask unat_shr)
  have field0: "unat (v AND mask k) = unat v mod 2 ^ k" if "k < 128" for k
    using that by (simp add: unat_and_mask)
  show "unat (imr_sequence m) = unat v mod 2 ^ 10"
    unfolding m_def extract_snowflake_metadata_def Let_def id_metadata_response.simps id_t.sel
    by (subst low_mask_u128; (subst unat_ucast_field)?) (simp_all add: field0)
  show "unat (imr_worker_id m) = unat v div 2 ^ 10 mod 2 ^ 8"
    unfolding m_def extract_snowflake_metadata_def Let_def id_metadata_response.simps id_t.sel
    by (subst low_mask_u128; (subst unat_ucast_field)?) (simp_all add: field)
  show "unat (imr_datacenter_id m) = unat v div 2 ^ 18 mod 2 ^ 3"
    unfolding m_def extract_snowflake_metadata_def Let_def id_metadata_response.simps id_t.sel
    by (subst low_mask_u128; (subst unat_ucast_field)?) (simp_all add: field)
  show "unat (imr_timestamp m) = unat v div 2 ^ 21" if "unat v < 2 ^ 85"
  proof -
    have "unat v div 2 ^ 21 < 2 ^ 64"
      using that by (intro less_mult_imp_div_less) (simp flip: power_add)
    then show ?thesis
      unfolding m_def extract_snowflake_metadata_def Let_def id_metadata_response.simps id_t.sel
      by (subst unat_ucast_field) (simp_all add: unat_shr)
  qed
qed

lemma default_fields:
  fixes t d w q :: nat
  assumes "q < 2 ^ 10" "w < 2 ^ 8" "d < 2 ^ 3"
    and n: "n = ((t * 2 ^ 3 + d) * 2 ^ 8 + w) * 2 ^ 10 + q"
  shows "n mod 2 ^ 10 = q" "n div 2 ^ 10 mod 2 ^ 8 = w" "n div 2 ^ 18 mod 2 ^ 3 = d" "n div 2 ^ 21 = t"
proof -
  have a: "n div 2 ^ 10 = (t * 2 ^ 3 + d) * 2 ^ 8 + w"
    unfolding n by (rule div_field [OF assms(1)])
  have b: "n div 2 ^ 18 = t * 2 ^ 3 + d"
    using div_mult2_eq [of n "2 ^ 10" "2 ^ 8"] div_field [OF assms(2), of "t * 2 ^ 3 + d"]
    unfolding a by (simp flip: power_add)
  have c: "n div 2 ^ 21 = t"
    using div_mult2_eq [of n "2 ^ 18" "2 ^ 3"] div_field [OF assms(3), of t]
    unfolding b by (simp flip: power_add)
  show "n mod 2 ^ 10 = q"
    unfolding n by (rule mod_field [OF assms(1)])
  show "n div 2 ^ 10 mod 2 ^ 8 = w"
    unfolding a by (rule mod_field [OF assms(2)])
  show "n div 2 ^ 18 mod 2 ^ 3 = d"
    unfolding b by (rule mod_field [OF assms(3)])
  show "n div 2 ^ 21 = t" by (rule c)
qed

text \<open>
  C23. Parsing inverts generation: the text of a Snowflake identifier built with the default bit widths, for
  numbers inside those widths and a timestamp below 2^43, parses into a response whose metadata are
  exactly the timestamp, the node numbers and the sequence number it was built from.
\<close>

theorem parse_inverts_snowflake:
  assumes "sf_config s = snowflake_config_default" "unat (sf_datacenter_id s) < 8"
    "unat ts < 2 ^ 43" "unat seq < 2 ^ 10"
    "pr_id req = to_string disp (construct_id s ts seq)" "pr_algorithm req = ''snowflake''"
  shows "\<exists>p. handle_parse t parse uuid_ts svc stamp req st = Inr p \<and>
    pp_numeric_value p = pr_id req \<and>
    imr_timestamp (pp_metadata p) = ts \<and>
    imr_datacenter_id (pp_metadata p) = sf_datacenter_id s \<and>
    unat (imr_worker_id (pp_metadata p)) = unat (sf_worker_id s) \<and>
    unat (imr_sequence (pp_metadata p)) = unat seq"
proof -
  let ?i = "construct_id s ts seq"
  let ?m = "extract_snowflake_metadata ?i"
  have c: "dcb s = 3" "wkb s = 8" "sqb s = 10"
    using assms(1) by (simp_all add: snowflake_config_default_def)
  have w: "unat (sf_worker_id s) < 2 ^ 8"
    using unsigned_less [of "sf_worker_id s"] by simp
  then have wf: "sf_wf s" using assms(2) by (simp add: sf_wf_def low_bits_def c)
  define d w n where "d = unat (sf_datacenter_id s)" and "w = unat (sf_worker_id s)" and
    "n = unat (as_u128 ?i)"
  have n: "n = ((unat ts * 2 ^ 3 + d) * 2 ^ 8 + w) * 2 ^ 10 + unat seq"
    unfolding n_def d_def w_def using assms(3,4) wf
    by (subst unat_construct_id) (simp_all add: packed_def node_field_def low_bits_def c)
  have lt: "d < 2 ^ 3" "w < 2 ^ 8" using assms(2) \<open>unat (sf_worker_id s) < 2 ^ 8\<close>
    by (simp_all add: d_def w_def)
  have n64: "n < 2 ^ 64"
    using assms(3,4) lt by (simp add: n)
  have m: "unat (imr_sequence ?m) = unat seq" "unat (imr_worker_id ?m) = w"
    "unat (imr_datacenter_id ?m) = d" "unat (imr_timestamp ?m) = unat ts"
    using extract_fields [of "as_u128 ?i"] n64 default_fields [OF assms(4) lt(2,1) n]
    unfolding n_def [symmetric] by simp_all
  have str: "to_string disp ?i = print_dec n"
    using n64 unfolding n_def by (intro to_string_numeric) simp
  have parse: "from_string parse (pr_id req) = Inr ?i"
    unfolding assms(5) str unfolding n_def from_string_print_dec by simp
  show ?thesis
    using m unfolding handle_parse_def parse sum.case
    by (simp add: Let_def assms(5,6) str d_def w_def word_unat_eq_iff flip: n_def)
qed

text \<open>A service for the concrete instances: the modelled router over the modelled algorithms.\<close>

definition example_service :: "(router \<times> world) id_service" where
  "example_service = router_service (\<lambda>_. 0) world_generate world_batch_generate"

definition example_parse_request :: "string \<Rightarrow> parse_request" where
  "example_parse_request txt =
     \<lparr>pr_id = txt, pr_workspace = ''w'', pr_group = ''g'', pr_biz_tag = ''t'',
      pr_algorithm = ''snowflake''\<rparr>"

theorem parse_inverts_snowflake_witness:
  "\<exists>p. handle_parse (\<lambda>key args. key) uuid_unhyphenate (\<lambda>_. None) example_service ''now''
       (example_parse_request (to_string uuid_hyphenated (construct_id (snowflake_new 3 7) 1000 5)))
       (example_router, example_world) = Inr p \<and>
     imr_timestamp (pp_metadata p) = 1000 \<and> imr_datacenter_id (pp_metadata p) = 3 \<and>
     unat (imr_worker_id (pp_metadata p)) = 7 \<and> unat (imr_sequence (pp_metadata p)) = 5"
  using parse_inverts_snowflake [of "snowflake_new 3 7" 1000 5
      "example_parse_request (to_string uuid_hyphenated (construct_id (snowflake_new 3 7) 1000 5))"
      uuid_hyphenated "\<lambda>key args. key" uuid_unhyphenate "\<lambda>_. None" example_service "''now''"
      "(example_router, example_world)"]
  by (auto simp: example_parse_request_def snowflake_new_def)

text \<open>
  The widths are constants of the parser, not the configured ones: under the widths 5, 5 and 12 the
  metadata of an identifier of data centre 3, worker 7, sequence 5 name another data centre, worker and
  timestamp.
\<close>

theorem parse_ignores_configured_widths:
  "let s = (snowflake_new 3 7)\<lparr>sf_config := \<lparr>datacenter_id_bits = 5, worker_id_bits = 5,
              sequence_bits = 12, clock_drift_threshold_ms = 1000\<rparr>\<rparr>;
       m = extract_snowflake_metadata (construct_id s 1000 5)
   in imr_datacenter_id m \<noteq> 3 \<and> imr_worker_id m \<noteq> 7 \<and> imr_timestamp m \<noteq> 1000"
  by code_simp

section \<open>Counters\<close>

text \<open>
  The counters after a run of requests, each with its outcome: \<open>Some (n, l)\<close> for a success that
  returned \<open>n\<close> identifiers in \<open>l\<close> milliseconds, \<open>None\<close> for a failed generation.
\<close>

definition count_outcome :: "(nat \<times> u64) option \<Rightarrow> api_metrics \<Rightarrow> api_metrics" where
  "count_outcome out m = (case out of Some (n, l) \<Rightarrow> count_success n l m | None \<Rightarrow> count_failure m)"

definition successes :: "(nat \<times> u64) option list \<Rightarrow> (nat \<times> u64) list" where
  "successes outs = List.map_filter (\<lambda>x. x) outs"

lemma successes_snoc [simp]:
  "successes [] = []"
  "successes (outs @ [Some p]) = successes outs @ [p]"
  "successes (outs @ [None]) = successes outs"
  by (simp_all add: successes_def List.map_filter_def)

lemma counts_raw:
  "let m = fold count_outcome outs api_metrics_default; ok = successes outs in
     total_requests m = of_nat (length ok) \<and> successful_generations m = of_nat (length ok) \<and>
     failed_generations m = of_nat (length outs - length ok) \<and> length ok \<le> length outs \<and>
     total_ids_generated m = of_nat (sum_list (map fst ok)) \<and>
     total_latency_ms m = of_nat (sum_list (map (unat \<circ> snd) ok))"
proof (induction outs rule: rev_induct)
  case Nil
  then show ?case by (simp add: api_metrics_default_def)
next
  case (snoc out outs)
  then show ?case
    by (cases out) (auto simp: Let_def count_outcome_def count_success_def count_failure_def
        Suc_diff_le algebra_simps)
qed

text \<open>
  The counters are exact: after any run of requests whose totals fit their 64 bits, they hold the
  numbers of successes and of failures, the number of identifiers returned and the total latency, and
  right after a success the average is the total divided by the number of successes.
\<close>

theorem counters_exact:
  assumes "length outs < 2 ^ 64" "sum_list (map fst (successes outs)) < 2 ^ 64"
    "sum_list (map (unat \<circ> snd) (successes outs)) < 2 ^ 64"
  shows "let m = fold count_outcome outs api_metrics_default; ok = successes outs in
    unat (total_requests m) = length ok \<and> unat (successful_generations m) = length ok \<and>
    unat (failed_generations m) = length outs - length ok \<and>
    unat (total_ids_generated m) = sum_list (map fst ok) \<and>
    ((\<exists>pre p. outs = pre @ [Some p]) \<longrightarrow>
      unat (avg_latency_ms m) = sum_list (map (unat \<circ> snd) ok) div length ok)"
proof -
  define m where "m = fold count_outcome outs api_metrics_default"
  have fits: "unat (of_nat k :: u64) = k" if "k < 2 ^ 64" for k
    using that by (simp add: unsigned_of_nat take_bit_nat_eq_self)
  note raw = counts_raw [of outs, unfolded Let_def, folded m_def]
  have len: "length (successes outs) < 2 ^ 64" using raw assms(1) by simp
  have "length outs - length (successes outs) < 2 ^ 64" using assms(1) by simp
  from fits [OF this] raw have f: "unat (failed_generations m) = length outs - length (successes outs)"
    by simp
  have avg: "unat (avg_latency_ms m) =
      sum_list (map (unat \<circ> snd) (successes outs)) div length (successes outs)"
    if outs: "outs = pre @ [Some p]" for pre p
  proof -
    have "avg_latency_ms m =
        (if total_requests m = 0 then snd p else total_latency_ms m div total_requests m)"
      unfolding m_def outs
      by (cases p) (simp add: count_outcome_def count_success_def Let_def)
    moreover have n: "unat (total_requests m) = length (successes outs)"
      using raw len fits by simp
    moreover have "length (successes outs) \<noteq> 0" by (simp add: outs)
    moreover have "unat (total_latency_ms m) = sum_list (map (unat \<circ> snd) (successes outs))"
      using raw assms(3) fits by simp
    ultimately show ?thesis
      by (metis unat_0 unat_div)
  qed
  have "unat (total_requests m) = length (successes outs)"
    "unat (successful_generations m) = length (successes outs)"
    "unat (total_ids_generated m) = sum_list (map fst (successes outs))"
    using raw len assms(2) fits by simp_all
  with f avg show ?thesis
    unfolding Let_def m_def by blast
qed

theorem counters_exact_witness:
  "unat (avg_latency_ms (fold count_outcome [Some (1, 10), None, Some (5, 20)] api_metrics_default)) = 15"
proof -
  have two: "(30 :: nat) div Suc (Suc 0) = 15" by (simp flip: numeral_2_eq_2)
  show ?thesis
    using counters_exact [of "[Some (1, 10), None, Some (5, 20)]"]
    by (auto simp: Let_def successes_def List.map_filter_def two)
qed

section \<open>What a handler does\<close>

text \<open>
  A batch request is refused before the generator is called and before anything is counted when its size
  is zero or above the configured maximum, or when it names no known algorithm; otherwise the generator
  is called once, its error is passed on and counted, and its identifiers are returned, printed, in
  order, with their number.
\<close>

theorem batch_handler_spec:
  "let sz = (case br_size req of Some n \<Rightarrow> n | None \<Rightarrow> 10);
       alg = map_option parse_algorithm (br_algorithm req);
       call = (case alg of
           Some (Inr a) \<Rightarrow> svc_batch_with svc a (br_workspace req) (br_group req) (br_biz_tag req) sz s
         | _ \<Rightarrow> svc_batch svc (br_workspace req) (br_group req) (br_biz_tag req) sz s);
       out = handle_batch_generate t disp svc mx latency stamp req m s
   in if sz = 0 \<or> unat mx < sz then \<exists>e. out = Some (Inl (InvalidInput e), m, s)
      else case alg of
        Some (Inl e) \<Rightarrow> out = Some (Inl e, m, s)
      | _ \<Rightarrow> (case call of
            None \<Rightarrow> out = None
          | Some (Inl e, s') \<Rightarrow> out = Some (Inl e, count_outcome None m, s')
          | Some (Inr is, s') \<Rightarrow> \<exists>p. out = Some (Inr p, count_outcome (Some (length is, latency)) m, s') \<and>
              bp_ids p = map (to_string disp) is \<and> bp_size p = length is)"
  by (simp add: handle_batch_generate_def finish_batch_def count_outcome_def Let_def
      split: option.splits sum.splits)

text \<open>
  The algorithm a batch response names does not depend on the algorithm the request named, nor on the
  one that generated the identifiers: it is the one set for the tag. The response to a single request
  names the requested algorithm.
\<close>

theorem batch_response_names_tag_algorithm:
  assumes "handle_batch_generate t disp (router_service rd gen bgen) mx latency stamp req m st =
      Some (Inr p, m', (r', w'))"
  shows "bp_algorithm p = get_algorithm_name (br_biz_tag req) r'"
  using assms
  by (auto simp: handle_batch_generate_def finish_batch_def router_service_def Let_def
      split: option.splits sum.splits if_splits)

definition example_batch_request :: batch_request where
  "example_batch_request =
     \<lparr>br_workspace = ''w'', br_group = ''g'', br_biz_tag = ''t'', br_size = Some 2,
      br_algorithm = Some ''uuid_v4''\<rparr>"

theorem batch_response_names_tag_algorithm_witness:
  "\<exists>p m' r' w'. handle_batch_generate (\<lambda>key args. key) uuid_hyphenated example_service 100 5 ''now''
       example_batch_request api_metrics_default (example_router, example_world) =
       Some (Inr p, m', (r', w')) \<and>
     bp_ids p = [''8'', ''9''] \<and> bp_algorithm p = ''segment''"
proof -
  define out where "out = handle_batch_generate (\<lambda>key args. key) uuid_hyphenated example_service 100 5
       ''now'' example_batch_request api_metrics_default (example_router, example_world)"
  have ids: "case out of Some (Inr p, _, (r', _)) \<Rightarrow>
      bp_ids p = [''8'', ''9''] \<and> get_algorithm_name ''t'' r' = ''segment'' | _ \<Rightarrow> False"
    unfolding out_def by code_simp
  obtain p m' r' w' where o: "out = Some (Inr p, m', (r', w'))"
  proof (cases out)
    case (Some q)
    obtain x m' r' w' where "q = (x, m', r', w')" by (cases q)
    with ids Some that show ?thesis by (cases x) simp_all
  qed (use ids in simp)
  have "bp_algorithm p = get_algorithm_name (br_biz_tag example_batch_request) r'"
    by (rule batch_response_names_tag_algorithm
        [OF o [unfolded out_def example_service_def]])
  with ids o show ?thesis
    unfolding out_def by (auto simp: example_batch_request_def)
qed

end
