(* ===== verification/Memory_Dao.thy ===== *)
theory Memory_Dao
  imports Prelude "HOL-Library.AList"
begin

text \<open>
  The in-process store of the authentication library, \<open>MemoryGarrisonDao\<close> of
  \<open>src/src/server/auth/memory_dao.rs\<close>: keys with values and deadlines, expired entries that stay in the
  map until a write removes them, counters kept as decimal text, and the glob patterns of \<open>keys\<close>.

  An \<open>Instant\<close> is a number of nanoseconds. Every operation holds the lock of the map, so it is one step;
  one that reads the clock twice has both readings as arguments, \<open>now\<close> for the test of expiry and
  \<open>later\<close> for what follows. The hash map is an association list, whose order stands for the unspecified
  iteration order. A TTL that moves an \<open>Instant\<close> past its range, which panics, is outside the model; so
  is text other than ASCII in a pattern, where \<open>chars()\<close> is not the list of bytes.

  The first part is the code; then an abstract store without expired entries, which every operation
  refines; then the matcher against the meaning of a pattern.
\<close>

section \<open>Entries\<close>

datatype dao_error = Dao string | InvalidParam string

record dao_entry =
  entry_value :: string
  expire_at :: "nat option"

type_synonym memory_dao = "(string \<times> dao_entry) list"

definition is_expired :: "nat \<Rightarrow> dao_entry \<Rightarrow> bool" where
  "is_expired now e = (case expire_at e of Some t \<Rightarrow> t \<le> now | None \<Rightarrow> False)"

definition remaining_ttl :: "nat \<Rightarrow> dao_entry \<Rightarrow> nat option" where
  "remaining_ttl now e =
     (case expire_at e of Some t \<Rightarrow> if now \<le> t then Some (t - now) else None | None \<Rightarrow> None)"

definition deadline :: "nat \<Rightarrow> u64 \<Rightarrow> nat option" where
  "deadline now ttl_seconds =
     (if ttl_seconds = 0 then None else Some (now + unat ttl_seconds * 1000000000))"

definition dao_new :: memory_dao where
  "dao_new = []"

definition dao_len :: "memory_dao \<Rightarrow> nat" where
  "dao_len d = length d"

definition dao_is_empty :: "memory_dao \<Rightarrow> bool" where
  "dao_is_empty d = (d = [])"

definition key_expired :: "string \<Rightarrow> dao_error" where
  "key_expired key = Dao (''dao-key-expired::'' @ key)"

definition key_not_found :: "string \<Rightarrow> dao_error" where
  "key_not_found key = Dao (''dao-key-not-found::'' @ key)"

section \<open>Operations\<close>

definition dao_get :: "nat \<Rightarrow> string \<Rightarrow> memory_dao \<Rightarrow> string option" where
  "dao_get now key d =
     (case map_of d key of
        Some e \<Rightarrow> if \<not> is_expired now e then Some (entry_value e) else None
      | None \<Rightarrow> None)"

definition dao_set :: "nat \<Rightarrow> string \<Rightarrow> string \<Rightarrow> u64 \<Rightarrow> memory_dao \<Rightarrow> memory_dao" where
  "dao_set now key v ttl d =
     AList.update key \<lparr>entry_value = v, expire_at = deadline now ttl\<rparr> d"

definition dao_update ::
  "nat \<Rightarrow> string \<Rightarrow> string \<Rightarrow> memory_dao \<Rightarrow> (dao_error + unit) \<times> memory_dao" where
  "dao_update now key v d =
     (case map_of d key of
        Some e \<Rightarrow>
          if \<not> is_expired now e then (Inr (), AList.update key (e\<lparr>entry_value := v\<rparr>) d)
          else (Inl (key_expired key), d)
      | None \<Rightarrow> (Inl (key_not_found key), d))"

definition dao_expire ::
  "nat \<Rightarrow> nat \<Rightarrow> string \<Rightarrow> u64 \<Rightarrow> memory_dao \<Rightarrow> (dao_error + unit) \<times> memory_dao" where
  "dao_expire now later key seconds d =
     (case map_of d key of
        Some e \<Rightarrow>
          if \<not> is_expired now e
          then (Inr (), AList.update key (e\<lparr>expire_at := deadline later seconds\<rparr>) d)
          else (Inl (key_expired key), d)
      | None \<Rightarrow> (Inl (key_not_found key), d))"

definition dao_delete :: "string \<Rightarrow> memory_dao \<Rightarrow> memory_dao" where
  "dao_delete key d = AList.delete key d"

definition dao_set_permanent :: "string \<Rightarrow> string \<Rightarrow> memory_dao \<Rightarrow> memory_dao" where
  "dao_set_permanent key v d = AList.update key \<lparr>entry_value = v, expire_at = None\<rparr> d"

definition dao_get_timeout :: "nat \<Rightarrow> nat \<Rightarrow> string \<Rightarrow> memory_dao \<Rightarrow> nat option" where
  "dao_get_timeout now later key d =
     (case map_of d key of
        Some e \<Rightarrow> if \<not> is_expired now e then remaining_ttl later e else None
      | None \<Rightarrow> None)"

definition dao_get_with_ttl ::
  "nat \<Rightarrow> nat \<Rightarrow> string \<Rightarrow> memory_dao \<Rightarrow> (string \<times> nat option) option" where
  "dao_get_with_ttl now later key d =
     (case map_of d key of
        Some e \<Rightarrow>
          if \<not> is_expired now e then Some (entry_value e, remaining_ttl later e) else None
      | None \<Rightarrow> None)"

definition dao_rename ::
  "nat \<Rightarrow> string \<Rightarrow> string \<Rightarrow> memory_dao \<Rightarrow> (dao_error + unit) \<times> memory_dao" where
  "dao_rename now old new d =
     (case map_of d old of
        Some e \<Rightarrow>
          if \<not> is_expired now e
          then (Inr (), AList.delete old (AList.update new e d))
          else (Inl (InvalidParam (''dao-key-missing::'' @ old)), d)
      | None \<Rightarrow> (Inl (InvalidParam (''dao-key-missing::'' @ old)), d))"

definition dao_get_and_delete :: "nat \<Rightarrow> string \<Rightarrow> memory_dao \<Rightarrow> string option \<times> memory_dao" where
  "dao_get_and_delete now key d = (dao_get now key d, AList.delete key d)"

definition dao_incr ::
  "nat \<Rightarrow> nat \<Rightarrow> string \<Rightarrow> u64 \<Rightarrow> memory_dao \<Rightarrow> (dao_error + nat) \<times> memory_dao" where
  "dao_incr now later key ttl d =
     (let fresh = (Inr 1, dao_set later key ''1'' ttl d) in
      case map_of d key of
        Some e \<Rightarrow>
          if \<not> is_expired now e then
            (case parse_unsigned (2 ^ 64) (entry_value e) of
               None \<Rightarrow> (Inl (Dao (''dao-incr-parse-u64::'' @ key)), d)
             | Some cur \<Rightarrow>
                 if cur + 1 < 2 ^ 64
                 then (Inr (cur + 1),
                       AList.update key (e\<lparr>entry_value := print_dec (cur + 1)\<rparr>) d)
                 else (Inl (Dao (''dao-incr-overflow::'' @ key)), d))
          else fresh
      | None \<Rightarrow> fresh)"

definition dao_decr :: "nat \<Rightarrow> string \<Rightarrow> memory_dao \<Rightarrow> (dao_error + nat) \<times> memory_dao" where
  "dao_decr now key d =
     (case map_of d key of
        Some e \<Rightarrow>
          if \<not> is_expired now e then
            (case parse_unsigned (2 ^ 64) (entry_value e) of
               None \<Rightarrow> (Inl (Dao (''dao-decr-parse-u64::'' @ key)), d)
             | Some cur \<Rightarrow>
                 if cur = 0 then (Inr 0, d)
                 else if cur - 1 = 0 then (Inr 0, AList.delete key d)
                 else (Inr (cur - 1),
                       AList.update key (e\<lparr>entry_value := print_dec (cur - 1)\<rparr>) d))
          else (Inr 0, d)
      | None \<Rightarrow> (Inr 0, d))"

definition dao_cas ::
  "nat \<Rightarrow> nat \<Rightarrow> string \<Rightarrow> u64 \<Rightarrow> u64 \<Rightarrow> memory_dao \<Rightarrow> (dao_error + bool) \<times> memory_dao" where
  "dao_cas now later key new_value ttl d =
     (let replace = (\<lambda>current. if current < unat new_value
            then (Inr True, dao_set later key (print_dec (unat new_value)) ttl d)
            else (Inr False, d)) in
      case map_of d key of
        Some e \<Rightarrow>
          if \<not> is_expired now e then
            (case parse_unsigned (2 ^ 64) (entry_value e) of
               None \<Rightarrow> (Inl (Dao (''dao-cas-parse-u64::'' @ key @ ''::'' @ entry_value e)), d)
             | Some cur \<Rightarrow> replace cur)
          else replace 0
      | None \<Rightarrow> replace 0)"

section \<open>Patterns\<close>

function glob_match_inner :: "string \<Rightarrow> nat \<Rightarrow> string \<Rightarrow> nat \<Rightarrow> bool" where
  "glob_match_inner p pi t ti =
     (if pi < length p then
        (if p ! pi = CHR ''*'' then
           list_ex (\<lambda>skip. glob_match_inner (drop (pi + 1) p) 0 t (ti + skip))
             [0..<Suc (length t - ti)]
         else if p ! pi = CHR ''?'' then
           ti < length t \<and> glob_match_inner p (pi + 1) t (ti + 1)
         else
           ti < length t \<and> t ! ti = p ! pi \<and> glob_match_inner p (pi + 1) t (ti + 1))
      else ti = length t)"
  by auto
termination
  by (relation "measure (\<lambda>(p, pi, _). length p - pi)") auto

declare glob_match_inner.simps [simp del]

definition glob_match :: "string \<Rightarrow> string \<Rightarrow> bool" where
  "glob_match pattern txt = glob_match_inner pattern 0 txt 0"

definition dao_keys :: "nat \<Rightarrow> string \<Rightarrow> memory_dao \<Rightarrow> dao_error + string list" where
  "dao_keys now pattern d =
     (if 256 < length pattern
      then Inl (InvalidParam (''dao-keys-pattern-too-long::'' @ print_dec (length pattern)))
      else Inr (map fst (filter (\<lambda>(k, e). \<not> is_expired now e \<and> glob_match pattern k) d)))"


section \<open>The store without expired entries\<close>

text \<open>
  The abstract store maps a key to its value and deadline, and holds only entries that have not expired.
  Its operations are maps and updates; \<open>age\<close> lets time pass.
\<close>

type_synonym live_store = "string \<Rightarrow> (string \<times> nat option) option"

definition live_at :: "nat \<Rightarrow> nat option \<Rightarrow> bool" where
  "live_at now x = (case x of None \<Rightarrow> True | Some t \<Rightarrow> now < t)"

definition age :: "nat \<Rightarrow> live_store \<Rightarrow> live_store" where
  "age now a = (\<lambda>k. Option.bind (a k) (\<lambda>(v, x). if live_at now x then Some (v, x) else None))"

definition view :: "nat \<Rightarrow> memory_dao \<Rightarrow> live_store" where
  "view now d =
     (\<lambda>k. Option.bind (map_of d k)
        (\<lambda>e. if is_expired now e then None else Some (entry_value e, expire_at e)))"

datatype dao_op =
    Get string
  | SetTtl string string u64
  | Update string string
  | Expire string u64
  | Delete string
  | SetPermanent string string
  | GetTimeout string
  | GetWithTtl string
  | Rename string string
  | GetAndDelete string
  | Incr string u64
  | Decr string
  | CompareUpdate string u64 u64

datatype dao_val =
    RUnit
  | RText "string option"
  | RTtl "nat option"
  | RTextTtl "(string \<times> nat option) option"
  | RNum nat
  | RBool bool

fun dao_exec :: "nat \<Rightarrow> nat \<Rightarrow> dao_op \<Rightarrow> memory_dao \<Rightarrow> (dao_error + dao_val) \<times> memory_dao" where
  "dao_exec now later (Get k) d = (Inr (RText (dao_get now k d)), d)"
| "dao_exec now later (SetTtl k v ttl) d = (Inr RUnit, dao_set later k v ttl d)"
| "dao_exec now later (Update k v) d = apfst (map_sum id (\<lambda>_. RUnit)) (dao_update now k v d)"
| "dao_exec now later (Expire k s) d = apfst (map_sum id (\<lambda>_. RUnit)) (dao_expire now later k s d)"
| "dao_exec now later (Delete k) d = (Inr RUnit, dao_delete k d)"
| "dao_exec now later (SetPermanent k v) d = (Inr RUnit, dao_set_permanent k v d)"
| "dao_exec now later (GetTimeout k) d = (Inr (RTtl (dao_get_timeout now later k d)), d)"
| "dao_exec now later (GetWithTtl k) d = (Inr (RTextTtl (dao_get_with_ttl now later k d)), d)"
| "dao_exec now later (Rename old new) d = apfst (map_sum id (\<lambda>_. RUnit)) (dao_rename now old new d)"
| "dao_exec now later (GetAndDelete k) d = apfst (\<lambda>r. Inr (RText r)) (dao_get_and_delete now k d)"
| "dao_exec now later (Incr k ttl) d = apfst (map_sum id RNum) (dao_incr now later k ttl d)"
| "dao_exec now later (Decr k) d = apfst (map_sum id RNum) (dao_decr now k d)"
| "dao_exec now later (CompareUpdate k n ttl) d = apfst (map_sum id RBool) (dao_cas now later k n ttl d)"

definition left :: "nat \<Rightarrow> nat option \<Rightarrow> nat option" where
  "left later x = Option.bind x (\<lambda>t. if later \<le> t then Some (t - later) else None)"

text \<open>The counter a key holds: 0 when there is none, \<open>None\<close> when its text is no \<open>u64\<close>.\<close>

definition counter :: "string \<Rightarrow> live_store \<Rightarrow> nat option" where
  "counter k a = (case a k of None \<Rightarrow> Some 0 | Some (v, _) \<Rightarrow> parse_unsigned (2 ^ 64) v)"

text \<open>A counter that starts gets the new deadline, one that exists keeps its own.\<close>

definition count_to :: "nat \<Rightarrow> string \<Rightarrow> nat option \<Rightarrow> live_store \<Rightarrow> live_store" where
  "count_to n k x a = a(k \<mapsto> (print_dec n, case a k of Some (_, y) \<Rightarrow> y | None \<Rightarrow> x))"

fun spec_exec :: "nat \<Rightarrow> dao_op \<Rightarrow> live_store \<Rightarrow> (unit + dao_val) \<times> live_store" where
  "spec_exec later (Get k) a = (Inr (RText (map_option fst (a k))), a)"
| "spec_exec later (SetTtl k v ttl) a = (Inr RUnit, a(k \<mapsto> (v, deadline later ttl)))"
| "spec_exec later (Update k v) a =
     (case a k of None \<Rightarrow> (Inl (), a) | Some (_, x) \<Rightarrow> (Inr RUnit, a(k \<mapsto> (v, x))))"
| "spec_exec later (Expire k s) a =
     (case a k of None \<Rightarrow> (Inl (), a) | Some (v, _) \<Rightarrow> (Inr RUnit, a(k \<mapsto> (v, deadline later s))))"
| "spec_exec later (Delete k) a = (Inr RUnit, a(k := None))"
| "spec_exec later (SetPermanent k v) a = (Inr RUnit, a(k \<mapsto> (v, None)))"
| "spec_exec later (GetTimeout k) a = (Inr (RTtl (Option.bind (a k) (left later \<circ> snd))), a)"
| "spec_exec later (GetWithTtl k) a =
     (Inr (RTextTtl (map_option (\<lambda>(v, x). (v, left later x)) (a k))), a)"
| "spec_exec later (Rename old new) a =
     (if a old = None then (Inl (), a) else (Inr RUnit, (a(new := a old))(old := None)))"
| "spec_exec later (GetAndDelete k) a = (Inr (RText (map_option fst (a k))), a(k := None))"
| "spec_exec later (Incr k ttl) a =
     (case counter k a of
        None \<Rightarrow> (Inl (), a)
      | Some n \<Rightarrow>
          if n + 1 < 2 ^ 64 then (Inr (RNum (n + 1)), count_to (n + 1) k (deadline later ttl) a)
          else (Inl (), a))"
| "spec_exec later (Decr k) a =
     (case counter k a of
        None \<Rightarrow> (Inl (), a)
      | Some n \<Rightarrow>
          (Inr (RNum (n - 1)),
           if n = 0 then a else if n = 1 then a(k := None) else count_to (n - 1) k None a))"
| "spec_exec later (CompareUpdate k m ttl) a =
     (case counter k a of
        None \<Rightarrow> (Inl (), a)
      | Some n \<Rightarrow>
          if n < unat m then (Inr (RBool True), a(k \<mapsto> (print_dec (unat m), deadline later ttl)))
          else (Inr (RBool False), a))"

lemma map_of_delete [simp]: "map_of (AList.delete k d) = (map_of d)(k := None)"
  by (rule AList.delete_conv')

lemma map_of_update [simp]: "map_of (AList.update k e d) = (map_of d)(k \<mapsto> e)"
  by (rule AList.update_conv')

lemma is_expired_live: "is_expired now e \<longleftrightarrow> \<not> live_at now (expire_at e)"
  by (auto simp: is_expired_def live_at_def split: option.split)

lemma live_deadline [simp]: "now \<le> later \<Longrightarrow> live_at now (deadline later ttl)"
  by (auto simp: live_at_def deadline_def unat_gt_0 [symmetric] intro!: le_less_trans)

lemma remaining_left: "remaining_ttl later e = left later (expire_at e)"
  by (simp add: remaining_ttl_def left_def split: option.split)

lemma view_none: "view now d k = None \<longleftrightarrow> (\<forall>e. map_of d k = Some e \<longrightarrow> is_expired now e)"
  by (cases "map_of d k") (auto simp: view_def)

lemma view_some:
  "view now d k = Some (v, x) \<longleftrightarrow>
     (\<exists>e. map_of d k = Some e \<and> \<not> is_expired now e \<and> v = entry_value e \<and> x = expire_at e)"
  by (cases "map_of d k") (auto simp: view_def)

lemma view_update [simp]:
  "live_at now (expire_at e) \<Longrightarrow>
     view now (AList.update k e d) = (view now d)(k \<mapsto> (entry_value e, expire_at e))"
  by (rule ext) (simp add: view_def is_expired_live)

lemma view_delete [simp]: "view now (AList.delete k d) = (view now d)(k := None)"
  by (rule ext) (simp add: view_def)

text \<open>Every operation sees a missing, an expired or a live entry.\<close>

lemma entry_cases [case_names missing expired live]:
  assumes "map_of d k = None \<Longrightarrow> view now d k = None \<Longrightarrow> P"
    and "\<And>e. map_of d k = Some e \<Longrightarrow> is_expired now e \<Longrightarrow> view now d k = None \<Longrightarrow> P"
    and "\<And>e. map_of d k = Some e \<Longrightarrow> \<not> is_expired now e \<Longrightarrow> live_at now (expire_at e) \<Longrightarrow>
      view now d k = Some (entry_value e, expire_at e) \<Longrightarrow> P"
  shows P
proof (cases "map_of d k")
  case (Some e)
  then show ?thesis
    using assms(2,3) by (cases "is_expired now e") (auto simp: view_def is_expired_live)
qed (use assms(1) in \<open>simp add: view_def\<close>)


lemma view_set [simp]:
  "now \<le> later \<Longrightarrow> view now (dao_set later k v ttl d) = (view now d)(k \<mapsto> (v, deadline later ttl))"
  by (simp add: dao_set_def)

lemmas dao_op_defs = dao_get_def dao_update_def dao_expire_def dao_delete_def dao_set_permanent_def
  dao_get_timeout_def dao_get_with_ttl_def dao_rename_def dao_get_and_delete_def remaining_left

lemma print_dec_1: "print_dec (Suc 0) = ''1''"
  by code_simp

lemma map_sum_unit [simp]: "map_sum (\<lambda>_. ()) id (map_sum id f r) = map_sum (\<lambda>_. ()) f r"
  by (cases r) simp_all

lemma dao_incr_refines:
  assumes "now \<le> later"
  shows "(case dao_incr now later k ttl d of (r, d') \<Rightarrow> (map_sum (\<lambda>_. ()) RNum r, view now d')) =
    spec_exec later (Incr k ttl) (view now d)"
  by (rule entry_cases [of d k now])
    (auto simp: dao_incr_def counter_def count_to_def Let_def assms is_expired_live print_dec_1
      split: option.split)

lemma dao_decr_refines:
  "(case dao_decr now k d of (r, d') \<Rightarrow> (map_sum (\<lambda>_. ()) RNum r, view now d')) =
    spec_exec later (Decr k) (view now d)"
  by (rule entry_cases [of d k now])
    (auto simp: dao_decr_def counter_def count_to_def is_expired_live split: option.split)

lemma dao_cas_refines:
  assumes "now \<le> later"
  shows "(case dao_cas now later k m ttl d of (r, d') \<Rightarrow> (map_sum (\<lambda>_. ()) RBool r, view now d')) =
    spec_exec later (CompareUpdate k m ttl) (view now d)"
  by (rule entry_cases [of d k now])
    (auto simp: dao_cas_def counter_def Let_def assms is_expired_live split: option.split)

lemma dao_exec_refines:
  assumes "now \<le> later"
  shows "(case dao_exec now later op d of (r, d') \<Rightarrow> (map_sum (\<lambda>_. ()) id r, view now d')) =
    spec_exec later op (view now d)"
proof (cases op)
  case (Rename old new)
  show ?thesis
    by (rule entry_cases [of d old now]) (auto simp: Rename dao_rename_def is_expired_live)
next
  case (Incr k ttl)
  show ?thesis
    using dao_incr_refines [OF assms, of k ttl d]
    by (cases "dao_incr now later k ttl d") (simp add: Incr)
next
  case (Decr k)
  show ?thesis
    using dao_decr_refines [of now k d later]
    by (cases "dao_decr now k d") (simp add: Decr)
next
  case (CompareUpdate k m ttl)
  show ?thesis
    using dao_cas_refines [OF assms, of k m ttl d]
    by (cases "dao_cas now later k m ttl d") (simp add: CompareUpdate)
next
  case (Get k)
  show ?thesis by (rule entry_cases [of d k now]) (simp_all add: Get dao_op_defs)
next
  case (Update k v)
  show ?thesis by (rule entry_cases [of d k now]) (simp_all add: Update dao_op_defs)
next
  case (Expire k ttl)
  show ?thesis by (rule entry_cases [of d k now]) (simp_all add: Expire dao_op_defs assms)
next
  case (GetTimeout k)
  show ?thesis by (rule entry_cases [of d k now]) (simp_all add: GetTimeout dao_op_defs)
next
  case (GetWithTtl k)
  show ?thesis by (rule entry_cases [of d k now]) (simp_all add: GetWithTtl dao_op_defs)
next
  case (GetAndDelete k)
  show ?thesis by (rule entry_cases [of d k now]) (simp_all add: GetAndDelete dao_op_defs)
qed (simp_all add: dao_op_defs assms live_at_def)


section \<open>Sequences of operations\<close>

text \<open>
  What the authentication library relies on, as an interface: a store that behaves, for any times of its
  calls, like the abstract one.
\<close>

fun run_ops ::
  "(nat \<Rightarrow> nat \<Rightarrow> dao_op \<Rightarrow> 's \<Rightarrow> 'r \<times> 's) \<Rightarrow> (nat \<times> nat \<times> dao_op) list \<Rightarrow> 's \<Rightarrow> 'r list \<times> 's" where
  "run_ops exec [] s = ([], s)"
| "run_ops exec ((now, later, op) # ops) s =
     (case exec now later op s of (r, s') \<Rightarrow>
      case run_ops exec ops s' of (rs, s'') \<Rightarrow> (r # rs, s''))"

lemma run_ops_Cons [simp]:
  "run_ops exec ((now, later, op) # ops) s =
     (fst (exec now later op s) # fst (run_ops exec ops (snd (exec now later op s))),
      snd (run_ops exec ops (snd (exec now later op s))))"
  by (simp split: prod.split)

declare run_ops.simps(2) [simp del]

fun timed :: "nat \<Rightarrow> (nat \<times> nat \<times> dao_op) list \<Rightarrow> bool" where
  "timed t [] = True"
| "timed t ((now, later, op) # ops) = (t \<le> now \<and> now \<le> later \<and> timed later ops)"

definition spec_step :: "nat \<Rightarrow> nat \<Rightarrow> dao_op \<Rightarrow> live_store \<Rightarrow> (unit + dao_val) \<times> live_store" where
  "spec_step now later op a = spec_exec later op (age now a)"

definition answer :: "dao_error + dao_val \<Rightarrow> unit + dao_val" where
  "answer r = map_sum (\<lambda>_. ()) id r"

lemma answer_Inr [simp]: "answer r = Inr v \<longleftrightarrow> r = Inr v"
  by (cases r) (auto simp: answer_def)

lemma answers_Inr:
  "map answer rs = map (\<lambda>i. Inr (f i)) xs \<Longrightarrow> rs = map (\<lambda>i. Inr (f i)) xs"
proof (induction rs arbitrary: xs)
  case (Cons r rs)
  then show ?case by (cases xs) auto
qed simp

locale ttl_store =
  fixes exec :: "nat \<Rightarrow> nat \<Rightarrow> dao_op \<Rightarrow> 's \<Rightarrow> (dao_error + dao_val) \<times> 's"
    and look :: "nat \<Rightarrow> 's \<Rightarrow> live_store"
  assumes exec_look: "now \<le> later \<Longrightarrow>
      (case exec now later op s of (r, s') \<Rightarrow> (answer r, look now s')) = spec_exec later op (look now s)"
    and look_age: "t \<le> t' \<Longrightarrow> age t' (look t s) = look t' s"
begin

lemma run_refines:
  "timed t ops \<Longrightarrow> map answer (fst (run_ops exec ops s)) = fst (run_ops spec_step ops (look t s))"
proof (induction ops arbitrary: t s)
  case (Cons x ops)
  obtain now later op where x: "x = (now, later, op)" by (rule prod_cases3)
  from Cons.prems have t: "t \<le> now" "now \<le> later" "timed later ops" by (simp_all add: x)
  have "timed now ops"
    using t by (cases ops) auto
  note IH = Cons.IH [OF this, of "snd (exec now later op s)"]
  have "spec_exec later op (look now s) =
      (answer (fst (exec now later op s)), look now (snd (exec now later op s)))"
    using exec_look [OF t(2), of op s] by (simp split: prod.splits)
  with IH show ?case
    by (simp add: x spec_step_def look_age [OF t(1)])
qed simp

end

lemma age_view: "t \<le> t' \<Longrightarrow> age t' (view t d) = view t' d"
proof
  fix k
  assume "t \<le> t'"
  then show "age t' (view t d) k = view t' d k"
    by (rule_tac entry_cases [of d k t])
      (auto simp: age_def view_def is_expired_def live_at_def split: option.splits)
qed

interpretation memory: ttl_store dao_exec view
  by unfold_locales (use dao_exec_refines in \<open>simp_all add: answer_def age_view\<close>)

text \<open>No operation brings a second entry for a key into the map.\<close>

lemma dao_exec_distinct:
  "distinct (map fst d) \<Longrightarrow> distinct (map fst (snd (dao_exec now later op d)))"
  by (cases op)
    (auto simp: dao_op_defs dao_set_def dao_incr_def dao_decr_def dao_cas_def Let_def
      AList.distinct_update AList.distinct_delete split: option.split)

lemma run_ops_distinct:
  "distinct (map fst d) \<Longrightarrow> distinct (map fst (snd (run_ops dao_exec ops d)))"
proof (induction ops arbitrary: d)
  case (Cons x ops)
  obtain now later op where x: "x = (now, later, op)" by (rule prod_cases3)
  from Cons.IH [OF dao_exec_distinct [OF Cons.prems, of now later op]] show ?case
    by (simp add: x)
qed simp

section \<open>The meaning of a pattern\<close>

inductive glob :: "string \<Rightarrow> string \<Rightarrow> bool" where
  glob_nil: "glob [] []"
| glob_star: "glob p t \<Longrightarrow> glob (CHR ''*'' # p) (s @ t)"
| glob_any: "glob p t \<Longrightarrow> glob (CHR ''?'' # p) (c # t)"
| glob_char: "c \<noteq> CHR ''*'' \<Longrightarrow> c \<noteq> CHR ''?'' \<Longrightarrow> glob p t \<Longrightarrow> glob (c # p) (c # t)"

inductive_simps glob_Nil [simp]: "glob [] t"

inductive_simps glob_Cons: "glob (c # p) t"

lemma glob_match_inner_iff:
  "ti \<le> length t \<Longrightarrow> glob_match_inner p pi t ti \<longleftrightarrow> glob (drop pi p) (drop ti t)"
proof (induction p pi t ti rule: glob_match_inner.induct)
  case (1 p pi t ti)
  show ?case
  proof (cases "pi < length p")
    case False
    with 1(4) show ?thesis by (auto simp: glob_match_inner.simps [of p pi])
  next
    case True
    have p: "drop pi p = p ! pi # drop (Suc pi) p" using True by (simp add: Cons_nth_drop_Suc)
    show ?thesis
    proof (cases "p ! pi = CHR ''*''")
      case star: True
      have "glob_match_inner p pi t ti \<longleftrightarrow>
          (\<exists>skip \<le> length t - ti. glob_match_inner (drop (Suc pi) p) 0 t (ti + skip))"
        using True star
        by (subst glob_match_inner.simps) (simp add: list_ex_iff Bex_def less_Suc_eq_le del: upt_Suc)
      also have "\<dots> \<longleftrightarrow> (\<exists>skip \<le> length t - ti. glob (drop (Suc pi) p) (drop skip (drop ti t)))"
      proof -
        have "glob_match_inner (drop (Suc pi) p) 0 t (ti + skip) \<longleftrightarrow>
            glob (drop (Suc pi) p) (drop skip (drop ti t))" if "skip \<le> length t - ti" for skip
          using 1(1) [OF True star, of skip] 1(4) that by (simp add: add.commute del: upt_Suc)
        then show ?thesis by blast
      qed
      also have "\<dots> \<longleftrightarrow> (\<exists>s u. drop ti t = s @ u \<and> glob (drop (Suc pi) p) u)"
      proof
        assume "\<exists>skip \<le> length t - ti. glob (drop (Suc pi) p) (drop skip (drop ti t))"
        then show "\<exists>s u. drop ti t = s @ u \<and> glob (drop (Suc pi) p) u"
          by (metis append_take_drop_id)
      next
        assume "\<exists>s u. drop ti t = s @ u \<and> glob (drop (Suc pi) p) u"
        then obtain s u where u: "drop ti t = s @ u" "glob (drop (Suc pi) p) u" by blast
        then have "length s \<le> length t - ti" by (metis length_append length_drop le_add1)
        with u show "\<exists>skip \<le> length t - ti. glob (drop (Suc pi) p) (drop skip (drop ti t))"
          by (intro exI [of _ "length s"]) simp
      qed
      also have "\<dots> \<longleftrightarrow> glob (drop pi p) (drop ti t)"
        unfolding p star by (auto simp: glob_Cons)
      finally show ?thesis .
    next
      case False
      have step: "glob_match_inner p pi t ti \<longleftrightarrow>
          ti < length t \<and> (p ! pi = CHR ''?'' \<or> t ! ti = p ! pi) \<and> glob_match_inner p (pi + 1) t (ti + 1)"
        using True False by (subst glob_match_inner.simps) auto
      show ?thesis
      proof (cases "ti < length t")
        case ti: True
        have t: "drop ti t = t ! ti # drop (Suc ti) t" using ti by (simp add: Cons_nth_drop_Suc)
        have "glob_match_inner p (pi + 1) t (ti + 1) \<longleftrightarrow> glob (drop (Suc pi) p) (drop (Suc ti) t)"
          if "p ! pi = CHR ''?'' \<or> t ! ti = p ! pi"
          using 1(2,3) True False ti that by auto
        then show ?thesis
          unfolding step p t using ti False by (auto simp: glob_Cons)
      qed (use 1(4) step False in \<open>auto simp: p glob_Cons\<close>)
    qed
  qed
qed

lemma glob_match_glob: "glob_match p t \<longleftrightarrow> glob p t"
  by (simp add: glob_match_def glob_match_inner_iff)


text \<open>A counter that exists counts every increment and keeps its deadline.\<close>

lemma spec_incr_run:
  "a k = Some (print_dec c, x) \<Longrightarrow> c + length calls < 2 ^ 64 \<Longrightarrow>
     (\<forall>(now, later, op) \<in> set calls. op = Incr k ttl \<and> live_at now x) \<Longrightarrow>
     fst (run_ops spec_step calls a) = map (\<lambda>i. Inr (RNum (c + Suc i))) [0..<length calls]"
proof (induction calls arbitrary: a c)
  case (Cons call calls)
  obtain now later op where call: "call = (now, later, op)" by (rule prod_cases3)
  have op: "op = Incr k ttl" "live_at now x" using Cons.prems(3) by (auto simp: call)
  have "counter k (age now a) = Some c"
    using Cons.prems(1,2) op(2) parse_print_dec [of c "2 ^ 64"] by (simp add: counter_def age_def)
  then have s: "spec_step now later (Incr k ttl) a =
      (Inr (RNum (Suc c)), count_to (Suc c) k (deadline later ttl) (age now a))"
    using Cons.prems(2) by (simp add: spec_step_def)
  have "count_to (Suc c) k (deadline later ttl) (age now a) k = Some (print_dec (Suc c), x)"
    using Cons.prems(1) op(2) by (simp add: count_to_def age_def)
  from Cons.IH [where a = "count_to (Suc c) k (deadline later ttl) (age now a)" and c = "Suc c", OF this]
    Cons.prems(2,3) show ?case
    by (simp add: call op(1) s upt_conv_Cons map_Suc_upt [symmetric] comp_def del: upt_Suc)
qed simp


section \<open>Properties\<close>

text \<open>
  C11. Whatever sequence of calls the store serves, as long as the clock does not run backwards, its answers
  are those of the abstract store, which never holds an expired entry: an entry that has expired but is
  still in the map is never seen by any operation. Errors agree as errors.
\<close>

theorem dao_refines:
  assumes "timed t calls"
  shows "map answer (fst (run_ops dao_exec calls d)) = fst (run_ops spec_step calls (view t d))"
  using memory.run_refines [OF assms] .

theorem dao_refines_witness:
  "map answer (fst (run_ops dao_exec
     [(0, 0, SetTtl ''k'' ''v'' 1), (5, 5, Rename ''k'' ''m''), (1000000000, 1000000000, Get ''m'')] dao_new)) =
   [Inr RUnit, Inr RUnit, Inr (RText None)]"
proof -
  let ?calls = "[(0, 0, SetTtl ''k'' ''v'' 1), (5, 5, Rename ''k'' ''m''), (1000000000, 1000000000, Get ''m'')]"
  have "timed 0 ?calls" by simp
  from dao_refines [OF this, of dao_new] show ?thesis
    by (simp add: spec_step_def age_def view_def dao_new_def live_at_def deadline_def)
qed

text \<open>
  C24. The pattern matcher decides the meaning of patterns, and \<open>keys\<close> lists, without repetition, exactly the
  keys that are live and match, in every state the store can reach.
\<close>

theorem keys_spec:
  assumes "run_ops dao_exec calls dao_new = (rs, d)" and "length pattern \<le> 256"
  shows "\<exists>ks. dao_keys now pattern d = Inr ks \<and> distinct ks \<and>
    (\<forall>k. k \<in> set ks \<longleftrightarrow> view now d k \<noteq> None \<and> glob pattern k)"
proof -
  have d: "distinct (map fst d)"
    using run_ops_distinct [of dao_new calls] assms(1) by (simp add: dao_new_def)
  define ks where "ks = map fst (filter (\<lambda>(k, e). \<not> is_expired now e \<and> glob_match pattern k) d)"
  have "distinct ks" using d unfolding ks_def by (rule distinct_map_filter)
  moreover have "k \<in> set ks \<longleftrightarrow> view now d k \<noteq> None \<and> glob pattern k" for k
    using map_of_eq_Some_iff [OF d, of k]
    by (auto simp: ks_def view_none glob_match_glob image_iff)
  ultimately show ?thesis using assms(2) by (auto simp: dao_keys_def ks_def)
qed

theorem keys_spec_witness:
  "\<exists>ks. dao_keys 3 ''a*'' (snd (run_ops dao_exec
     [(0, 0, SetPermanent ''ab'' ''1''), (0, 0, SetPermanent ''b'' ''2'')] dao_new)) = Inr ks \<and> distinct ks"
proof -
  let ?calls = "[(0, 0, SetPermanent ''ab'' ''1''), (0, 0, SetPermanent ''b'' ''2'')]"
  obtain rs d where d: "run_ops dao_exec ?calls dao_new = (rs, d)"
    by (cases "run_ops dao_exec ?calls dao_new")
  from keys_spec [OF d, of "''a*''" 3] show ?thesis
    unfolding d snd_conv by auto
qed

text \<open>
  A counter with a time to live is a fixed window: of the calls that increment an absent key within the
  time to live of the first one, the \<open>n\<close>-th answers \<open>n\<close>; the window is not extended by them.
\<close>

theorem incr_fixed_window:
  assumes "timed t ((now, later, Incr k ttl) # calls)" "view now d k = None"
    and "\<forall>(now', later', op) \<in> set calls. op = Incr k ttl \<and> live_at now' (deadline later ttl)"
    and "length calls + 1 < 2 ^ 64"
  shows "fst (run_ops dao_exec ((now, later, Incr k ttl) # calls) d) =
    map (\<lambda>i. Inr (RNum (Suc i))) [0..<Suc (length calls)]"
proof -
  let ?calls = "(now, later, Incr k ttl) # calls"
  have "age now (view t d) k = None"
    using age_view [of t now d] assms(1,2) by simp
  then have first: "spec_step now later (Incr k ttl) (view t d) =
      (Inr (RNum 1), count_to 1 k (deadline later ttl) (age now (view t d)))"
    by (simp add: spec_step_def counter_def)
  have "fst (run_ops spec_step calls (count_to 1 k (deadline later ttl) (age now (view t d)))) =
      map (\<lambda>i. Inr (RNum (1 + Suc i))) [0..<length calls]"
    by (rule spec_incr_run [OF _ _ assms(3)])
      (use assms(4) \<open>age now (view t d) k = None\<close> in \<open>simp_all add: count_to_def\<close>)
  then have "fst (run_ops spec_step ?calls (view t d)) =
      map (\<lambda>i. Inr (RNum (Suc i))) [0..<Suc (length calls)]"
    by (simp add: first upt_conv_Cons map_Suc_upt [symmetric] comp_def del: upt_Suc)
  with memory.run_refines [OF assms(1), of d]
  have "map answer (fst (run_ops dao_exec ?calls d)) =
      map (\<lambda>i. Inr (RNum (Suc i))) [0..<Suc (length calls)]"
    by simp
  then show ?thesis by (rule answers_Inr)
qed


theorem incr_fixed_window_witness:
  "fst (run_ops dao_exec [(0, 0, Incr ''c'' 1), (10, 20, Incr ''c'' 1), (999999999, 999999999, Incr ''c'' 1)]
     dao_new) = [Inr (RNum 1), Inr (RNum 2), Inr (RNum 3)]"
proof -
  have "\<forall>(now', later', op) \<in> set [(10::nat, 20::nat, Incr ''c'' 1), (999999999, 999999999, Incr ''c'' 1)].
      op = Incr ''c'' 1 \<and> live_at now' (deadline 0 1)"
    by (simp add: live_at_def deadline_def)
  from incr_fixed_window [OF _ _ this, of 0 0 dao_new] show ?thesis
    by (simp add: view_def dao_new_def upt_rec)
qed

text \<open>
  Renaming a live key to itself removes it: the new entry is written first and the old key, the same
  one, is deleted after it.
\<close>

theorem rename_to_itself_deletes:
  assumes "view now d k \<noteq> None" "dao_rename now k k d = (r, d')"
  shows "r = Inr () \<and> view now d' k = None"
  using assms by (cases rule: entry_cases [of d k now]) (auto simp: dao_rename_def)

theorem rename_to_itself_deletes_witness:
  "view 0 (snd (dao_rename 0 ''k'' ''k'' (dao_set_permanent ''k'' ''v'' dao_new))) ''k'' = None"
  using rename_to_itself_deletes [of 0 "dao_set_permanent ''k'' ''v'' dao_new" "''k''", OF _ surjective_pairing]
  by (simp add: dao_set_permanent_def live_at_def)

end
