(* ===== verification/Etcd_Coord.thy ===== *)
theory Etcd_Coord
  imports Local_Lock
begin

text \<open>
  Coordination over etcd: \<open>src/src/core/coordinator/etcd.rs\<close> with the worker number allocator, the
  distributed lock and its guard, and the health monitor.

  The \<open>etcd_client\<close> crate and the cluster are not part of the repository. \<open>raw_client\<close> is what
  \<open>EtcdClientWrapper\<close> calls of the crate, \<open>etcd_ops\<close> the trait \<open>EtcdClientOps\<close>; both are parameters, and
  \<open>etcd_store\<close> is what etcd documents of the trait's calls: a transaction is atomic, a lease number is not
  given twice, a key lives at most as long as its lease, and no shorter. A call whose answer is an error may
  have taken effect. The owner of a key is the lease it was put with. The last part is a concrete cluster
  whose calls fail as a list of faults says; the wrapper over it meets the contract.
\<close>

section \<open>The client\<close>

datatype etcd_error = EtcdNetwork string | KeyNotFound string | LeaseInvalid string | EtcdInternal string

fun etcd_error_text :: "etcd_error \<Rightarrow> string" where
  "etcd_error_text (EtcdNetwork m) = ''etcd network error: '' @ m"
| "etcd_error_text (KeyNotFound m) = ''etcd key not found: '' @ m"
| "etcd_error_text (LeaseInvalid m) = ''etcd lease invalid: '' @ m"
| "etcd_error_text (EtcdInternal m) = ''etcd internal error: '' @ m"

record 'c etcd_ops =
  ec_get :: "string \<Rightarrow> 'c \<Rightarrow> (etcd_error + string option) \<times> 'c"
  ec_delete :: "string \<Rightarrow> 'c \<Rightarrow> (etcd_error + unit) \<times> 'c"
  ec_grant :: "int \<Rightarrow> 'c \<Rightarrow> (etcd_error + int) \<times> 'c"
  ec_revoke :: "int \<Rightarrow> 'c \<Rightarrow> (etcd_error + unit) \<times> 'c"
  ec_put_new :: "string \<Rightarrow> string \<Rightarrow> int \<Rightarrow> 'c \<Rightarrow> (etcd_error + bool) \<times> 'c"
  ec_ping :: "'c \<Rightarrow> (etcd_error + unit) \<times> 'c"

text \<open>A transaction of the crate: comparisons of create revisions, and the operations of its branches.\<close>

datatype txn_op = TxnPut string string int | TxnGet string

record etcd_txn =
  tx_when :: "(string \<times> int) list"
  tx_then :: "txn_op list"
  tx_else :: "txn_op list"

record 'c raw_client =
  raw_get :: "string \<Rightarrow> 'c \<Rightarrow> (string + string list) \<times> 'c"
  raw_delete :: "string \<Rightarrow> 'c \<Rightarrow> (string + unit) \<times> 'c"
  raw_grant :: "int \<Rightarrow> 'c \<Rightarrow> (string + int) \<times> 'c"
  raw_revoke :: "int \<Rightarrow> 'c \<Rightarrow> (string + unit) \<times> 'c"
  raw_txn :: "etcd_txn \<Rightarrow> 'c \<Rightarrow> (string + bool) \<times> 'c"

definition kv_get :: "'c raw_client \<Rightarrow> string \<Rightarrow> 'c \<Rightarrow> (etcd_error + string option) \<times> 'c" where
  "kv_get raw key c =
     (case raw_get raw key c of
        (Inl e, c') \<Rightarrow> (Inl (EtcdNetwork e), c')
      | (Inr kvs, c') \<Rightarrow> (Inr (if kvs = [] then None else Some (kvs ! 0)), c'))"

definition kv_delete :: "'c raw_client \<Rightarrow> string \<Rightarrow> 'c \<Rightarrow> (etcd_error + unit) \<times> 'c" where
  "kv_delete raw key c = map_prod (map_sum EtcdNetwork (\<lambda>_. ())) id (raw_delete raw key c)"

definition lease_grant :: "'c raw_client \<Rightarrow> int \<Rightarrow> 'c \<Rightarrow> (etcd_error + int) \<times> 'c" where
  "lease_grant raw ttl c = map_prod (map_sum LeaseInvalid id) id (raw_grant raw ttl c)"

definition lease_revoke :: "'c raw_client \<Rightarrow> int \<Rightarrow> 'c \<Rightarrow> (etcd_error + unit) \<times> 'c" where
  "lease_revoke raw lease c = map_prod (map_sum LeaseInvalid (\<lambda>_. ())) id (raw_revoke raw lease c)"

definition txn_check_create_rev_and_put ::
  "'c raw_client \<Rightarrow> string \<Rightarrow> string \<Rightarrow> int \<Rightarrow> 'c \<Rightarrow> (etcd_error + bool) \<times> 'c" where
  "txn_check_create_rev_and_put raw key v lease c =
     map_prod (map_sum EtcdNetwork id) id
       (raw_txn raw \<lparr>tx_when = [(key, 0)], tx_then = [TxnPut key v lease], tx_else = [TxnGet key]\<rparr> c)"

definition etcd_ping :: "'c raw_client \<Rightarrow> 'c \<Rightarrow> (etcd_error + unit) \<times> 'c" where
  "etcd_ping raw c = map_prod (map_sum EtcdNetwork (\<lambda>_. ())) id (raw_get raw [] c)"

definition etcd_client_wrapper :: "'c raw_client \<Rightarrow> 'c etcd_ops" where
  "etcd_client_wrapper raw =
     \<lparr>ec_get = kv_get raw, ec_delete = kv_delete raw, ec_grant = lease_grant raw,
      ec_revoke = lease_revoke raw, ec_put_new = txn_check_create_rev_and_put raw, ec_ping = etcd_ping raw\<rparr>"

section \<open>The worker number allocator\<close>

record etcd_worker_allocator =
  ea_datacenter_id :: u8
  ea_allocated_id :: u16
  ea_lease_id :: int
  ea_health_status :: u8

definition etcd_worker_allocator_new :: "u8 \<Rightarrow> etcd_worker_allocator" where
  "etcd_worker_allocator_new dc =
     \<lparr>ea_datacenter_id = dc, ea_allocated_id = 0, ea_lease_id = 0, ea_health_status = 0\<rparr>"

definition max_worker_id :: nat where "max_worker_id = 255"

definition worker_path :: "u8 \<Rightarrow> u16 \<Rightarrow> string" where
  "worker_path dc w = ''/idgen/workers/'' @ print_dec (unat dc) @ ''/'' @ print_dec (unat w)"

text \<open>\<open>stamp w\<close> is the process number and the clock when the number \<open>w\<close> is tried.\<close>

definition worker_value :: "u8 \<Rightarrow> nat \<times> nat \<Rightarrow> string" where
  "worker_value dc stamp =
     ''dc='' @ print_dec (unat dc) @ '',pid='' @ print_dec (fst stamp) @ '',ts='' @ print_dec (snd stamp)"

definition grant_lease ::
  "'c etcd_ops \<Rightarrow> etcd_worker_allocator \<Rightarrow> 'c \<Rightarrow>
   (worker_allocator_error + int) \<times> etcd_worker_allocator \<times> 'c" where
  "grant_lease ops a c =
     (case ec_grant ops 30 c of
        (Inl e, c') \<Rightarrow> (Inl (LeaseRenewalFailed (etcd_error_text e)), a, c')
      | (Inr lease, c') \<Rightarrow> (Inr lease, a\<lparr>ea_lease_id := lease\<rparr>, c'))"

definition try_allocate_id ::
  "'c etcd_ops \<Rightarrow> (u16 \<Rightarrow> nat \<times> nat) \<Rightarrow> u8 \<Rightarrow> u16 \<Rightarrow> int \<Rightarrow> 'c \<Rightarrow> (worker_allocator_error + bool) \<times> 'c" where
  "try_allocate_id ops stamp dc w lease c =
     (case ec_get ops (worker_path dc w) c of
        (Inl _, c1) \<Rightarrow> (Inr False, c1)
      | (Inr (Some _), c1) \<Rightarrow> (Inr False, c1)
      | (Inr None, c1) \<Rightarrow>
          (case ec_put_new ops (worker_path dc w) (worker_value dc (stamp w)) lease c1 of
             (Inl e, c2) \<Rightarrow> (Inl (WorkerEtcdError (etcd_error_text e)), c2)
           | (Inr succeeded, c2) \<Rightarrow> (Inr succeeded, c2)))"

fun try_worker_ids ::
  "'c etcd_ops \<Rightarrow> (u16 \<Rightarrow> nat \<times> nat) \<Rightarrow> int \<Rightarrow> u16 list \<Rightarrow> etcd_worker_allocator \<Rightarrow> 'c \<Rightarrow>
   (worker_allocator_error + u16) \<times> etcd_worker_allocator \<times> 'c" where
  "try_worker_ids ops stamp lease [] a c = (Inl NoAvailableId, a, c)"
| "try_worker_ids ops stamp lease (w # ws) a c =
     (case try_allocate_id ops stamp (ea_datacenter_id a) w lease c of
        (Inl _, c') \<Rightarrow> try_worker_ids ops stamp lease ws a c'
      | (Inr succeeded, c') \<Rightarrow>
          if succeeded then (Inr w, a\<lparr>ea_allocated_id := w\<rparr>, c')
          else try_worker_ids ops stamp lease ws a c')"

definition worker_ids :: "u16 list" where
  "worker_ids = map of_nat [1..<max_worker_id + 1]"

definition do_allocate ::
  "'c etcd_ops \<Rightarrow> (u16 \<Rightarrow> nat \<times> nat) \<Rightarrow> etcd_worker_allocator \<Rightarrow> 'c \<Rightarrow>
   (worker_allocator_error + u16) \<times> etcd_worker_allocator \<times> 'c" where
  "do_allocate ops stamp a c =
     (case grant_lease ops a c of
        (Inl e, a', c') \<Rightarrow> (Inl e, a', c')
      | (Inr lease, a', c') \<Rightarrow> try_worker_ids ops stamp lease worker_ids a' c')"

definition release_worker_id ::
  "'c etcd_ops \<Rightarrow> u16 \<Rightarrow> etcd_worker_allocator \<Rightarrow> 'c \<Rightarrow>
   (worker_allocator_error + unit) \<times> etcd_worker_allocator \<times> 'c" where
  "release_worker_id ops w a c =
     (case ec_delete ops (worker_path (ea_datacenter_id a) w) c of
        (Inl e, c') \<Rightarrow> (Inl (WorkerEtcdError (etcd_error_text e)), a, c')
      | (Inr _, c') \<Rightarrow> (Inr (), a\<lparr>ea_allocated_id := 0, ea_lease_id := 0\<rparr>, c'))"

definition get_allocated_id :: "etcd_worker_allocator \<Rightarrow> u16 option" where
  "get_allocated_id a = (if ea_allocated_id a = 0 then None else Some (ea_allocated_id a))"

definition allocator_is_healthy :: "etcd_worker_allocator \<Rightarrow> bool" where
  "allocator_is_healthy a \<longleftrightarrow> ea_health_status a = 1"

section \<open>The distributed lock\<close>

text \<open>\<open>prefix\<close> is the \<open>lock_path_prefix\<close>; \<open>stamp n\<close> the process number and the clock at attempt \<open>n\<close>.\<close>

definition lock_path :: "string \<Rightarrow> string \<Rightarrow> string" where
  "lock_path prefix key = prefix @ key"

definition lock_value :: "nat \<times> nat \<Rightarrow> string" where
  "lock_value stamp = ''holder_pid='' @ print_dec (fst stamp) @ '',ts='' @ print_dec (snd stamp)"

definition try_acquire_lock ::
  "'c etcd_ops \<Rightarrow> nat \<times> nat \<Rightarrow> string \<Rightarrow> int \<Rightarrow> 'c \<Rightarrow> (lock_error + int option) \<times> 'c" where
  "try_acquire_lock ops stamp path ttl c =
     (case ec_grant ops ttl c of
        (Inl e, c1) \<Rightarrow> (Inl (LockEtcdError (etcd_error_text e)), c1)
      | (Inr lease, c1) \<Rightarrow>
          (case ec_put_new ops path (lock_value stamp) lease c1 of
             (Inl e, c2) \<Rightarrow> (Inl (LockEtcdError (etcd_error_text e)), c2)
           | (Inr succeeded, c2) \<Rightarrow>
               if succeeded then (Inr (Some lease), c2)
               else (Inr None, snd (ec_revoke ops lease c2))))"

record etcd_lock_guard =
  eg_key :: string
  eg_lease :: int
  eg_path :: string
  eg_released :: bool

definition max_retries :: nat where "max_retries = 3"

definition lock_ttl :: "u64 \<Rightarrow> int" where
  "lock_ttl ttl = sint (if ttl < 1 then 1 else ttl)"

definition retries_failed :: "string \<Rightarrow> lock_error" where
  "retries_failed key =
     AcquireFailed key (''Lock acquisition failed after '' @ print_dec max_retries @ '' retries'')"

text \<open>
  The attempts from number \<open>n\<close> on; \<open>pause n\<close> is what the other tasks and the clock do to the cluster
  while this task sleeps after attempt \<open>n\<close>.
\<close>

function acquire_attempts ::
  "'c etcd_ops \<Rightarrow> (nat \<Rightarrow> nat \<times> nat) \<Rightarrow> (nat \<Rightarrow> 'c \<Rightarrow> 'c) \<Rightarrow> string \<Rightarrow> string \<Rightarrow> int \<Rightarrow> nat \<Rightarrow> 'c \<Rightarrow>
   (lock_error + etcd_lock_guard) \<times> 'c" where
  "acquire_attempts ops stamp pause prefix key ttl n c =
     (if n < max_retries then
        (case try_acquire_lock ops (stamp n) (lock_path prefix key) ttl c of
           (Inl e, c') \<Rightarrow> (Inl e, c')
         | (Inr (Some lease), c') \<Rightarrow>
             (Inr \<lparr>eg_key = key, eg_lease = lease, eg_path = lock_path prefix key, eg_released = False\<rparr>, c')
         | (Inr None, c') \<Rightarrow>
             acquire_attempts ops stamp pause prefix key ttl (n + 1)
               (if n < max_retries - 1 then pause n c' else c'))
      else (Inl (retries_failed key), c))"
  by pat_completeness auto
termination by (relation "measure (\<lambda>(_, _, _, _, _, _, n, _). max_retries - n)") auto

declare acquire_attempts.simps [simp del]

definition etcd_acquire ::
  "'c etcd_ops \<Rightarrow> (nat \<Rightarrow> nat \<times> nat) \<Rightarrow> (nat \<Rightarrow> 'c \<Rightarrow> 'c) \<Rightarrow> string \<Rightarrow> string \<Rightarrow> u64 \<Rightarrow> 'c \<Rightarrow>
   (lock_error + etcd_lock_guard) \<times> 'c" where
  "etcd_acquire ops stamp pause prefix key ttl c =
     acquire_attempts ops stamp pause prefix key (lock_ttl ttl) 0 c"

definition etcd_guard_release ::
  "'c etcd_ops \<Rightarrow> etcd_lock_guard \<Rightarrow> 'c \<Rightarrow> (lock_error + unit) \<times> etcd_lock_guard \<times> 'c" where
  "etcd_guard_release ops g c =
     (case ec_revoke ops (eg_lease g) c of
        (Inl e, c') \<Rightarrow> (Inl (ReleaseFailed (eg_key g) (etcd_error_text e)), g, c')
      | (Inr _, c') \<Rightarrow> (Inr (), g\<lparr>eg_released := True\<rparr>, c'))"

text \<open>Dropping a guard: \<open>runtime\<close> says whether there is a runtime on which the task can be spawned.\<close>

definition etcd_guard_drop :: "'c etcd_ops \<Rightarrow> bool \<Rightarrow> etcd_lock_guard \<Rightarrow> 'c \<Rightarrow> 'c" where
  "etcd_guard_drop ops runtime g c =
     (if eg_released g then c else if runtime then snd (ec_revoke ops (eg_lease g) c) else c)"

section \<open>The contract of the cluster\<close>

text \<open>
  \<open>owner c k\<close> is the lease of the key \<open>k\<close>, \<open>lease_end c l\<close> the time until which the lease \<open>l\<close> lives, and
  \<open>used c\<close> the leases ever granted. A revoked lease ends at once.
\<close>

locale etcd_store =
  fixes ops :: "'c etcd_ops" and owner :: "'c \<Rightarrow> string \<Rightarrow> int option" and clock :: "'c \<Rightarrow> int"
    and lease_end :: "'c \<Rightarrow> int \<Rightarrow> int" and used :: "'c \<Rightarrow> int set" and elapse :: "int \<Rightarrow> 'c \<Rightarrow> 'c"
  assumes get_law: "ec_get ops k c = (found, c') \<Longrightarrow>
      owner c' = owner c \<and> clock c' = clock c \<and> lease_end c' = lease_end c \<and> used c' = used c \<and>
      (\<forall>v. found = Inr v \<longrightarrow> (v = None \<longleftrightarrow> owner c k = None))"
    and ping_law: "ec_ping ops c = (pong, c') \<Longrightarrow>
      owner c' = owner c \<and> clock c' = clock c \<and> lease_end c' = lease_end c \<and> used c' = used c"
    and delete_law: "ec_delete ops k c = (deleted, c') \<Longrightarrow>
      clock c' = clock c \<and> lease_end c' = lease_end c \<and> used c' = used c \<and>
      owner c' \<in> {owner c, (owner c)(k := None)} \<and>
      (\<forall>u. deleted = Inr u \<longrightarrow> owner c' = (owner c)(k := None))"
    and grant_law: "ec_grant ops ttl c = (granted, c') \<Longrightarrow>
      owner c' = owner c \<and> clock c' = clock c \<and> used c \<subseteq> used c' \<and>
      (\<forall>l \<in> used c. lease_end c' l = lease_end c l) \<and>
      (\<forall>l. granted = Inr l \<longrightarrow> l \<notin> used c \<and> l \<in> used c' \<and> lease_end c' l = clock c + ttl)"
    and revoke_law: "ec_revoke ops l c = (revoked, c') \<Longrightarrow>
      clock c' = clock c \<and> used c' = used c \<and> (\<forall>l'. l' \<noteq> l \<longrightarrow> lease_end c' l' = lease_end c l') \<and>
      (lease_end c' l = lease_end c l \<and> owner c' = owner c \<or>
       lease_end c' l \<le> clock c \<and> owner c' = (\<lambda>k. if owner c k = Some l then None else owner c k)) \<and>
      (\<forall>u. revoked = Inr u \<longrightarrow>
         lease_end c' l \<le> clock c \<and> owner c' = (\<lambda>k. if owner c k = Some l then None else owner c k))"
    and put_law: "ec_put_new ops k v l c = (put, c') \<Longrightarrow>
      clock c' = clock c \<and> lease_end c' = lease_end c \<and> used c' = used c \<and>
      (owner c' = owner c \<or> owner c' = (owner c)(k \<mapsto> l) \<and> owner c k = None) \<and>
      (put = Inr True \<longrightarrow> owner c' = (owner c)(k \<mapsto> l) \<and> owner c k = None) \<and>
      (put = Inr False \<longrightarrow> owner c' = owner c \<and> owner c k \<noteq> None)"
    and elapse_law: "0 \<le> d \<Longrightarrow>
      clock (elapse d c) = clock c + d \<and> lease_end (elapse d c) = lease_end c \<and>
      used (elapse d c) = used c \<and>
      (\<forall>k l. owner (elapse d c) k = Some l \<longrightarrow> owner c k = Some l) \<and>
      (\<forall>k l. owner c k = Some l \<and> clock c + d < lease_end c l \<longrightarrow> owner (elapse d c) k = Some l)"
begin

end

text \<open>A cluster in a \<open>steady\<close> state answers, and stays so.\<close>

locale etcd_steady = etcd_store +
  fixes steady :: "'a \<Rightarrow> bool"
  assumes steady_get: "steady c \<Longrightarrow> ec_get ops k c = (found, c') \<Longrightarrow> \<not> isl found \<and> steady c'"
    and steady_grant: "steady c \<Longrightarrow> ec_grant ops ttl c = (granted, c') \<Longrightarrow> \<not> isl granted \<and> steady c'"
    and steady_put: "steady c \<Longrightarrow> clock c < lease_end c l \<Longrightarrow> ec_put_new ops k v l c = (put, c') \<Longrightarrow>
      \<not> isl put \<and> steady c'"
    and steady_revoke: "steady c \<Longrightarrow> clock c < lease_end c l \<Longrightarrow> ec_revoke ops l c = (revoked, c') \<Longrightarrow>
      \<not> isl revoked \<and> steady c'"
begin

text \<open>An allocation gives the first number that is free.\<close>

lemma try_allocate_answers:
  assumes "steady c" "clock c < lease_end c l" "try_allocate_id ops stamp dc w l c = (r, c')"
  shows "r = Inr (owner c (worker_path dc w) = None) \<and> clock c' = clock c \<and> lease_end c' = lease_end c \<and>
    owner c' = (if owner c (worker_path dc w) = None then (owner c)(worker_path dc w \<mapsto> l) else owner c) \<and>
    steady c'"
proof -
  obtain found c1 where g: "ec_get ops (worker_path dc w) c = (found, c1)"
    by (cases "ec_get ops (worker_path dc w) c")
  note sg = steady_get [OF assms(1) g] and gl = get_law [OF g]
  from sg obtain x where x: "found = Inr x" by (cases found) auto
  show ?thesis
  proof (cases x)
    case None
    let ?v = "worker_value dc (stamp w)"
    obtain put c2 where p: "ec_put_new ops (worker_path dc w) ?v l c1 = (put, c2)"
      by (cases "ec_put_new ops (worker_path dc w) ?v l c1")
    have sp: "\<not> isl put \<and> steady c2" using steady_put [OF _ _ p] sg gl assms(2) by simp
    then obtain b where b: "put = Inr b" by (cases put) auto
    have "owner c (worker_path dc w) = None" using gl x None by simp
    with put_law [OF p] gl b g x None p assms(3) sp show ?thesis
      by (cases b) (auto simp: try_allocate_id_def)
  next
    case (Some v)
    with gl g x sg assms(3) show ?thesis by (auto simp: try_allocate_id_def)
  qed
qed

lemma try_worker_ids_answers:
  assumes "steady c" "clock c < lease_end c l" "try_worker_ids ops stamp l ws a c = (r, a', c')"
  shows "case List.find (\<lambda>w. owner c (worker_path (ea_datacenter_id a) w) = None) ws of
      None \<Rightarrow> r = Inl NoAvailableId \<and> a' = a \<and> owner c' = owner c
    | Some w \<Rightarrow> r = Inr w \<and> a' = a\<lparr>ea_allocated_id := w\<rparr> \<and>
        owner c' = (owner c)(worker_path (ea_datacenter_id a) w \<mapsto> l)"
  using assms
proof (induction ws arbitrary: c)
  case (Cons w ws)
  obtain r1 c1 where t: "try_allocate_id ops stamp (ea_datacenter_id a) w l c = (r1, c1)"
    by (cases "try_allocate_id ops stamp (ea_datacenter_id a) w l c")
  note ta = try_allocate_answers [OF Cons.prems(1,2) t]
  show ?case
  proof (cases "owner c (worker_path (ea_datacenter_id a) w) = None")
    case True
    with ta t Cons.prems show ?thesis by auto
  next
    case False
    with ta t Cons.prems have "steady c1" "clock c1 < lease_end c1 l"
      and "try_worker_ids ops stamp l ws a c1 = (r, a', c')" and o: "owner c1 = owner c"
      by auto
    from Cons.IH [OF this(1-3), unfolded o] show ?thesis using False by auto
  qed
qed simp

lemma do_allocate_answers:
  assumes "steady c" "do_allocate ops stamp a c = (r, a', c')"
  shows "case List.find (\<lambda>w. owner c (worker_path (ea_datacenter_id a) w) = None) worker_ids of
      None \<Rightarrow> r = Inl NoAvailableId \<and> owner c' = owner c
    | Some w \<Rightarrow> r = Inr w \<and> get_allocated_id a' = (if w = 0 then None else Some w) \<and> ea_lease_id a' \<notin> used c \<and>
        owner c' = (owner c)(worker_path (ea_datacenter_id a) w \<mapsto> ea_lease_id a')"
proof -
  obtain granted c1 where g: "ec_grant ops 30 c = (granted, c1)" by (cases "ec_grant ops 30 c")
  note sg = steady_grant [OF assms(1) g]
  from sg obtain l where l: "granted = Inr l" by (cases granted) auto
  have o: "owner c1 = owner c" "l \<notin> used c" "clock c1 < lease_end c1 l" using grant_law [OF g] l by auto
  have "try_worker_ids ops stamp l worker_ids (a\<lparr>ea_lease_id := l\<rparr>) c1 = (r, a', c')"
    using assms(2) g l by (simp add: do_allocate_def grant_lease_def)
  from try_worker_ids_answers [OF _ o(3) this] sg show ?thesis
    by (auto simp: o get_allocated_id_def split: option.splits)
qed

text \<open>A guard that is dropped frees its key, unless it was released.\<close>

lemma guard_drop_frees:
  assumes "steady c" "clock c < lease_end c (eg_lease g)"
  shows "owner (etcd_guard_drop ops True g c) k =
    (if \<not> eg_released g \<and> owner c k = Some (eg_lease g) then None else owner c k)"
proof -
  obtain r c' where r: "ec_revoke ops (eg_lease g) c = (r, c')" by (cases "ec_revoke ops (eg_lease g) c")
  with steady_revoke [OF assms r] obtain u where "r = Inr u" by (cases r) auto
  with revoke_law [OF r] r show ?thesis by (simp add: etcd_guard_drop_def)
qed

end

section \<open>Tasks on one cluster\<close>

text \<open>
  The atomic steps of an allocation and of an acquisition are the calls of the cluster; between them other
  tasks move and time passes. A task that has got a number or a lock holds it with its lease. A number is
  released by deleting its key, a lock by revoking its lease. An allocator whose release is answered with an
  error keeps its number and its lease (\<open>AllocKept\<close>), a guard stays unreleased.
\<close>

datatype alloc_point =
    AllocGrant
  | AllocCheck int "u16 list"
  | AllocPut int u16 "u16 list"
  | AllocHolds int u16
  | AllocKept int u16
  | AllocFailed worker_allocator_error
  | AllocReleased

datatype acquire_point =
    AcqGrant nat
  | AcqPut nat int
  | AcqRevoke nat int
  | AcqHolds int
  | AcqFailed lock_error
  | AcqReleased

fun alloc_step ::
  "'c etcd_ops \<Rightarrow> (u16 \<Rightarrow> nat \<times> nat) \<Rightarrow> u8 \<Rightarrow> alloc_point \<times> 'c \<Rightarrow> alloc_point \<times> 'c" where
  "alloc_step ops stamp dc (AllocGrant, c) =
     (case ec_grant ops 30 c of
        (Inl e, c') \<Rightarrow> (AllocFailed (LeaseRenewalFailed (etcd_error_text e)), c')
      | (Inr lease, c') \<Rightarrow> (AllocCheck lease worker_ids, c'))"
| "alloc_step ops stamp dc (AllocCheck lease [], c) = (AllocFailed NoAvailableId, c)"
| "alloc_step ops stamp dc (AllocCheck lease (w # ws), c) =
     (case ec_get ops (worker_path dc w) c of
        (Inr None, c') \<Rightarrow> (AllocPut lease w ws, c')
      | (_, c') \<Rightarrow> (AllocCheck lease ws, c'))"
| "alloc_step ops stamp dc (AllocPut lease w ws, c) =
     (case ec_put_new ops (worker_path dc w) (worker_value dc (stamp w)) lease c of
        (Inl _, c') \<Rightarrow> (AllocCheck lease ws, c')
      | (Inr succeeded, c') \<Rightarrow> (if succeeded then AllocHolds lease w else AllocCheck lease ws, c'))"
| "alloc_step ops stamp dc (p, c) = (p, c)"

fun acquire_step ::
  "'c etcd_ops \<Rightarrow> (nat \<Rightarrow> nat \<times> nat) \<Rightarrow> string \<Rightarrow> string \<Rightarrow> int \<Rightarrow> acquire_point \<times> 'c \<Rightarrow> acquire_point \<times> 'c" where
  "acquire_step ops stamp prefix key ttl (AcqGrant n, c) =
     (if n < max_retries then
        (case ec_grant ops ttl c of
           (Inl e, c') \<Rightarrow> (AcqFailed (LockEtcdError (etcd_error_text e)), c')
         | (Inr lease, c') \<Rightarrow> (AcqPut n lease, c'))
      else (AcqFailed (retries_failed key), c))"
| "acquire_step ops stamp prefix key ttl (AcqPut n lease, c) =
     (case ec_put_new ops (lock_path prefix key) (lock_value (stamp n)) lease c of
        (Inl e, c') \<Rightarrow> (AcqFailed (LockEtcdError (etcd_error_text e)), c')
      | (Inr succeeded, c') \<Rightarrow> (if succeeded then AcqHolds lease else AcqRevoke n lease, c'))"
| "acquire_step ops stamp prefix key ttl (AcqRevoke n lease, c) =
     (AcqGrant (n + 1), snd (ec_revoke ops lease c))"
| "acquire_step ops stamp prefix key ttl (p, c) = (p, c)"

datatype task = Allocator u8 alloc_point | Locker string string int acquire_point

fun task_begins :: "task \<Rightarrow> bool" where
  "task_begins (Allocator dc p) \<longleftrightarrow> p = AllocGrant"
| "task_begins (Locker prefix key ttl p) \<longleftrightarrow> p = AcqGrant 0"

text \<open>The lease a task works with, and the key it holds with it.\<close>

fun task_lease :: "task \<Rightarrow> int option" where
  "task_lease (Allocator dc (AllocCheck l ws)) = Some l"
| "task_lease (Allocator dc (AllocPut l w ws)) = Some l"
| "task_lease (Allocator dc (AllocHolds l w)) = Some l"
| "task_lease (Allocator dc (AllocKept l w)) = Some l"
| "task_lease (Locker prefix key ttl (AcqPut n l)) = Some l"
| "task_lease (Locker prefix key ttl (AcqRevoke n l)) = Some l"
| "task_lease (Locker prefix key ttl (AcqHolds l)) = Some l"
| "task_lease _ = None"

fun task_claim :: "task \<Rightarrow> (string \<times> int) option" where
  "task_claim (Allocator dc (AllocHolds l w)) = Some (worker_path dc w, l)"
| "task_claim (Locker prefix key ttl (AcqHolds l)) = Some (lock_path prefix key, l)"
| "task_claim _ = None"

text \<open>The number an allocator reports: a failed release leaves it as it was.\<close>

fun reported_number :: "task \<Rightarrow> u16 option" where
  "reported_number (Allocator dc (AllocHolds l w)) = Some w"
| "reported_number (Allocator dc (AllocKept l w)) = Some w"
| "reported_number _ = None"

definition released_number :: "int \<Rightarrow> u16 \<Rightarrow> etcd_error + unit \<Rightarrow> alloc_point" where
  "released_number l w r = (if isl r then AllocKept l w else AllocReleased)"

definition released_lock :: "int \<Rightarrow> etcd_error + unit \<Rightarrow> acquire_point" where
  "released_lock l r = (if isl r then AcqHolds l else AcqReleased)"

text \<open>
  One step of one task. A call of \<open>release\<close> deletes the key whoever owns it; \<open>prompt\<close> says when numbers are
  released. \<open>timely\<close> is a discipline for it: while the lease lives, and not again after a failed release.
\<close>

fun timely :: "('c \<Rightarrow> int) \<Rightarrow> ('c \<Rightarrow> int \<Rightarrow> int) \<Rightarrow> 'c \<Rightarrow> alloc_point \<Rightarrow> bool" where
  "timely clock lease_end c (AllocHolds l w) \<longleftrightarrow> clock c < lease_end c l"
| "timely clock lease_end c p \<longleftrightarrow> False"

inductive task_step ::
  "'c etcd_ops \<Rightarrow> ('c \<Rightarrow> alloc_point \<Rightarrow> bool) \<Rightarrow> task \<Rightarrow> 'c \<Rightarrow> task \<Rightarrow> 'c \<Rightarrow> bool"
  for ops :: "'c etcd_ops" and prompt :: "'c \<Rightarrow> alloc_point \<Rightarrow> bool" where
  alloc: "alloc_step ops stamp dc (p, c) = (p', c') \<Longrightarrow>
    task_step ops prompt (Allocator dc p) c (Allocator dc p') c'"
| acquire: "acquire_step ops stamps prefix key ttl (q, c) = (q', c') \<Longrightarrow>
    task_step ops prompt (Locker prefix key ttl q) c (Locker prefix key ttl q') c'"
| release_number: "prompt c p \<Longrightarrow> p = AllocHolds l w \<or> p = AllocKept l w \<Longrightarrow>
    ec_delete ops (worker_path dc w) c = (r, c') \<Longrightarrow>
    task_step ops prompt (Allocator dc p) c (Allocator dc (released_number l w r)) c'"
| release_lock: "ec_revoke ops l c = (r, c') \<Longrightarrow>
    task_step ops prompt (Locker prefix key ttl (AcqHolds l)) c (Locker prefix key ttl (released_lock l r)) c'"

inductive coord_reachable ::
  "'c etcd_ops \<Rightarrow> (int \<Rightarrow> 'c \<Rightarrow> 'c) \<Rightarrow> ('c \<Rightarrow> alloc_point \<Rightarrow> bool) \<Rightarrow> 'c \<Rightarrow> (nat \<Rightarrow> task) \<Rightarrow> 'c \<Rightarrow> (nat \<Rightarrow> task) \<Rightarrow> bool"
  for ops :: "'c etcd_ops" and elapse :: "int \<Rightarrow> 'c \<Rightarrow> 'c" and prompt :: "'c \<Rightarrow> alloc_point \<Rightarrow> bool" and c0 ts0 where
  begin_tasks: "coord_reachable ops elapse prompt c0 ts0 c0 ts0"
| move: "coord_reachable ops elapse prompt c0 ts0 c ts \<Longrightarrow> task_step ops prompt (ts i) c t c' \<Longrightarrow>
    coord_reachable ops elapse prompt c0 ts0 c' (ts(i := t))"
| wait: "coord_reachable ops elapse prompt c0 ts0 c ts \<Longrightarrow> 0 \<le> d \<Longrightarrow>
    coord_reachable ops elapse prompt c0 ts0 (elapse d c) ts"

section \<open>Exclusion\<close>

lemma claim_lease: "task_claim t = Some (k, l) \<Longrightarrow> task_lease t = Some l"
  by (induction t rule: task_claim.induct) auto

context etcd_store
begin

definition alive :: "'c \<Rightarrow> int \<Rightarrow> bool" where
  "alive c l \<longleftrightarrow> clock c < lease_end c l"

text \<open>What a step of a task does to the others: nothing to their leases and to the keys they own.\<close>

definition step_effect :: "task \<Rightarrow> 'c \<Rightarrow> task \<Rightarrow> 'c \<Rightarrow> bool" where
  "step_effect t c t' c' \<longleftrightarrow>
     clock c' = clock c \<and> used c \<subseteq> used c' \<and>
     (\<forall>l. task_lease t' = Some l \<longrightarrow> task_lease t = Some l \<or> l \<notin> used c \<and> l \<in> used c') \<and>
     (\<forall>l \<in> used c. task_lease t \<noteq> Some l \<longrightarrow> lease_end c' l = lease_end c l) \<and>
     (\<forall>k l. owner c k = Some l \<and> task_lease t \<noteq> Some l \<longrightarrow> owner c' k = Some l) \<and>
     (\<forall>k l. task_claim t' = Some (k, l) \<longrightarrow>
        owner c' k = Some l \<or> \<not> alive c' l \<or> task_claim t = Some (k, l) \<and> c' = c)"

lemma alloc_effect:
  assumes "alloc_step ops stamp dc (p, c) = (p', c')"
  shows "step_effect (Allocator dc p) c (Allocator dc p') c'"
proof (cases p)
  case AllocGrant
  obtain r c1 where "ec_grant ops 30 c = (r, c1)" by (cases "ec_grant ops 30 c")
  with grant_law [OF this] assms AllocGrant show ?thesis
    by (cases r) (auto simp: step_effect_def)
next
  case (AllocCheck l ws)
  show ?thesis
  proof (cases ws)
    case Nil
    with AllocCheck assms show ?thesis by (auto simp: step_effect_def)
  next
    case (Cons w ws')
    obtain r c1 where "ec_get ops (worker_path dc w) c = (r, c1)" by (cases "ec_get ops (worker_path dc w) c")
    with get_law [OF this] assms AllocCheck Cons show ?thesis
      by (auto simp: step_effect_def split: sum.splits option.splits)
  qed
next
  case (AllocPut l w ws)
  let ?v = "worker_value dc (stamp w)"
  obtain r c1 where "ec_put_new ops (worker_path dc w) ?v l c = (r, c1)"
    by (cases "ec_put_new ops (worker_path dc w) ?v l c")
  with put_law [OF this] assms AllocPut show ?thesis
    by (cases r) (auto simp: step_effect_def split: if_splits)
qed (use assms in \<open>auto simp: step_effect_def\<close>)

lemma acquire_effect:
  assumes "acquire_step ops stamp prefix key ttl (q, c) = (q', c')"
  shows "step_effect (Locker prefix key ttl q) c (Locker prefix key ttl q') c'"
proof (cases q)
  case (AcqGrant n)
  obtain r c1 where "ec_grant ops ttl c = (r, c1)" by (cases "ec_grant ops ttl c")
  with grant_law [OF this] assms AcqGrant show ?thesis
    by (cases r) (auto simp: step_effect_def split: if_splits)
next
  case (AcqPut n l)
  let ?v = "lock_value (stamp n)"
  obtain r c1 where "ec_put_new ops (lock_path prefix key) ?v l c = (r, c1)"
    by (cases "ec_put_new ops (lock_path prefix key) ?v l c")
  with put_law [OF this] assms AcqPut show ?thesis
    by (cases r) (auto simp: step_effect_def split: if_splits)
next
  case (AcqRevoke n l)
  obtain r c1 where "ec_revoke ops l c = (r, c1)" by (cases "ec_revoke ops l c")
  with revoke_law [OF this] assms AcqRevoke show ?thesis by (auto simp: step_effect_def)
qed (use assms in \<open>auto simp: step_effect_def\<close>)

lemma task_effect:
  assumes "task_step ops (timely clock lease_end) t c t' c'" "\<And>k l. task_claim t = Some (k, l) \<Longrightarrow> alive c l \<Longrightarrow> owner c k = Some l"
  shows "step_effect t c t' c'"
  using assms
proof cases
  case (release_number p l w dc r)
  then have p: "p = AllocHolds l w" "alive c l" by (auto simp: alive_def)
  then have "owner c (worker_path dc w) = Some l" using assms(2) release_number(1) by simp
  with release_number p delete_law [OF release_number(5)] show ?thesis
    by (auto simp: step_effect_def released_number_def)
next
  case (release_lock l r prefix key ttl)
  note law = revoke_law [OF release_lock(3)]
  have "owner c' (lock_path prefix key) = Some l" if "alive c' l"
    using law that assms(2) release_lock(1) by (auto simp: alive_def)
  with release_lock law show ?thesis by (auto simp: step_effect_def released_lock_def)
qed (auto intro: alloc_effect acquire_effect)

definition coord_inv :: "'c \<Rightarrow> (nat \<Rightarrow> task) \<Rightarrow> bool" where
  "coord_inv c ts \<longleftrightarrow>
     (\<forall>i l. task_lease (ts i) = Some l \<longrightarrow> l \<in> used c) \<and>
     (\<forall>i j l. task_lease (ts i) = Some l \<and> task_lease (ts j) = Some l \<longrightarrow> i = j) \<and>
     (\<forall>i k l. task_claim (ts i) = Some (k, l) \<and> alive c l \<longrightarrow> owner c k = Some l)"

lemma coord_inv_move:
  assumes inv: "coord_inv c ts" and "step_effect (ts i) c t c'"
  shows "coord_inv c' (ts(i := t))"
proof -
  note e = assms(2) [unfolded step_effect_def]
  have u: "\<And>j l. task_lease (ts j) = Some l \<Longrightarrow> l \<in> used c"
    and d: "\<And>j j' l. task_lease (ts j) = Some l \<Longrightarrow> task_lease (ts j') = Some l \<Longrightarrow> j = j'"
    and o: "\<And>j k l. task_claim (ts j) = Some (k, l) \<Longrightarrow> alive c l \<Longrightarrow> owner c k = Some l"
    using inv unfolding coord_inv_def by blast+
  have other: "owner c' k = Some l" if "j \<noteq> i" "task_claim (ts j) = Some (k, l)" "alive c' l" for j k l
  proof -
    have l: "task_lease (ts j) = Some l" using that(2) by (rule claim_lease)
    then have "task_lease (ts i) \<noteq> Some l" using d that(1) by blast
    moreover have "l \<in> used c" using u l .
    ultimately have "lease_end c' l = lease_end c l" using e by blast
    then have "alive c l" using that(3) e by (simp add: alive_def)
    from o [OF that(2) this] show ?thesis using e \<open>task_lease (ts i) \<noteq> Some l\<close> by blast
  qed
  have own: "owner c' k = Some l" if "task_claim t = Some (k, l)" "alive c' l" for k l
    using e that o by blast
  show ?thesis unfolding coord_inv_def
  proof (intro conjI allI impI; (elim conjE)?)
    fix j l assume "task_lease ((ts(i := t)) j) = Some l"
    then show "l \<in> used c'" using e u by (auto split: if_splits)
  next
    fix j j' l
    assume "task_lease ((ts(i := t)) j) = Some l" "task_lease ((ts(i := t)) j') = Some l"
    then show "j = j'" using e u d by (auto split: if_splits)
  next
    fix j k l
    assume "task_claim ((ts(i := t)) j) = Some (k, l)" "alive c' l"
    then show "owner c' k = Some l" using other own by (cases "j = i") auto
  qed
qed

lemma coord_inv_wait:
  assumes "coord_inv c ts" "0 \<le> d"
  shows "coord_inv (elapse d c) ts"
proof -
  note e = elapse_law [OF assms(2), of c]
  have own: "owner (elapse d c) k = Some l"
    if "task_claim (ts i) = Some (k, l)" "clock (elapse d c) < lease_end (elapse d c) l" for i k l
  proof -
    have "clock c + d < lease_end c l" using that(2) e by simp
    moreover from this have "owner c k = Some l"
      using assms that(1) unfolding coord_inv_def alive_def by auto
    ultimately show ?thesis using e by blast
  qed
  have u: "used (elapse d c) = used c" using e by blast
  show ?thesis using assms(1) own unfolding coord_inv_def alive_def u by blast
qed

lemma coord_inv_reachable:
  assumes "coord_reachable ops elapse (timely clock lease_end) c0 ts0 c ts" "\<And>i. task_begins (ts0 i)"
  shows "coord_inv c ts"
  using assms(1)
proof induction
  case begin_tasks
  have "task_lease (ts0 i) = None \<and> task_claim (ts0 i) = None" for i
    using assms(2) [of i] by (cases "ts0 i") auto
  then show ?case by (simp add: coord_inv_def)
next
  case (move c ts i t c')
  have "step_effect (ts i) c t c'"
    by (rule task_effect [OF move.hyps(2)]) (use move.IH in \<open>auto simp: coord_inv_def\<close>)
  with move.IH show ?case by (rule coord_inv_move)
next
  case (wait c ts d)
  from coord_inv_wait [OF wait.IH wait.hyps(2)] show ?case .
qed

lemma claims_exclusive:
  assumes "coord_reachable ops elapse (timely clock lease_end) c0 ts0 c ts" "\<And>i. task_begins (ts0 i)"
    and "task_claim (ts i) = Some (k, l)" "alive c l" "task_claim (ts j) = Some (k, l')" "alive c l'"
  shows "i = j"
proof -
  have inv: "coord_inv c ts" using assms(1,2) by (rule coord_inv_reachable)
  then have "owner c k = Some l" "owner c k = Some l'" using assms(3-6) unfolding coord_inv_def by blast+
  then have "l = l'" by simp
  with claim_lease [OF assms(3)] claim_lease [OF assms(5)] inv show ?thesis
    unfolding coord_inv_def by blast
qed

end

section \<open>A concrete cluster\<close>

text \<open>
  A key has its lease and the revision that created it; lease 0 is no lease. Before each call the cluster
  takes the next fault: a call that is dropped does nothing, one that is lost takes effect without an answer.
\<close>

datatype etcd_fault = CallDropped | AnswerLost | NoFault

text \<open>\<open>ee_created\<close> is the create revision less one.\<close>

record etcd_entry =
  ee_value :: string
  ee_lease :: int
  ee_created :: nat

record etcd_cluster =
  et_clock :: int
  et_revision :: nat
  et_next_lease :: int
  et_leases :: "int \<rightharpoonup> int"
  et_keys :: "string \<rightharpoonup> etcd_entry"
  et_faults :: "etcd_fault list"

definition et_new :: "etcd_fault list \<Rightarrow> etcd_cluster" where
  "et_new faults =
     \<lparr>et_clock = 0, et_revision = 0, et_next_lease = 1, et_leases = Map.empty, et_keys = Map.empty,
      et_faults = faults\<rparr>"

definition et_lease_end :: "etcd_cluster \<Rightarrow> int \<Rightarrow> int" where
  "et_lease_end c l = (case et_leases c l of Some t \<Rightarrow> t | None \<Rightarrow> 0)"

definition et_owner :: "etcd_cluster \<Rightarrow> string \<Rightarrow> int option" where
  "et_owner c k = map_option ee_lease (et_keys c k)"

definition et_used :: "etcd_cluster \<Rightarrow> int set" where
  "et_used c = {..<et_next_lease c}"

definition et_call ::
  "(etcd_cluster \<Rightarrow> (string + 'a) \<times> etcd_cluster) \<Rightarrow> etcd_cluster \<Rightarrow> (string + 'a) \<times> etcd_cluster" where
  "et_call f c =
     (let c' = c\<lparr>et_faults := tl (et_faults c)\<rparr> in
      case (if et_faults c = [] then NoFault else hd (et_faults c)) of
        CallDropped \<Rightarrow> (Inl ''unavailable'', c')
      | AnswerLost \<Rightarrow> (Inl ''deadline exceeded'', snd (f c'))
      | NoFault \<Rightarrow> f c')"

definition et_compare :: "etcd_cluster \<Rightarrow> string \<times> int \<Rightarrow> bool" where
  "et_compare c p = ((case et_keys c (fst p) of Some e \<Rightarrow> int (ee_created e) + 1 | None \<Rightarrow> 0) = snd p)"

fun et_op :: "txn_op \<Rightarrow> etcd_cluster \<Rightarrow> etcd_cluster" where
  "et_op (TxnPut k v l) c =
     c\<lparr>et_keys := (et_keys c)(k \<mapsto>
        \<lparr>ee_value = v, ee_lease = l,
         ee_created = (case et_keys c k of Some e \<Rightarrow> ee_created e | None \<Rightarrow> et_revision c)\<rparr>),
       et_revision := et_revision c + 1\<rparr>"
| "et_op (TxnGet k) c = c"

definition et_alive :: "etcd_cluster \<Rightarrow> int \<Rightarrow> bool" where
  "et_alive c l = (case et_leases c l of Some t \<Rightarrow> et_clock c < t | None \<Rightarrow> False)"

fun lease_known :: "etcd_cluster \<Rightarrow> txn_op \<Rightarrow> bool" where
  "lease_known c (TxnPut k v l) \<longleftrightarrow> l = 0 \<or> et_alive c l"
| "lease_known c (TxnGet k) \<longleftrightarrow> True"

definition et_txn :: "etcd_txn \<Rightarrow> etcd_cluster \<Rightarrow> (string + bool) \<times> etcd_cluster" where
  "et_txn t c =
     (let ok = list_all (et_compare c) (tx_when t); todo = (if ok then tx_then t else tx_else t)
      in if list_all (lease_known c) todo then (Inr ok, fold et_op todo c)
         else (Inl ''requested lease not found'', c))"

definition et_grant :: "int \<Rightarrow> etcd_cluster \<Rightarrow> (string + int) \<times> etcd_cluster" where
  "et_grant ttl c =
     (let l = et_next_lease c
      in (Inr l, c\<lparr>et_leases := (et_leases c)(l \<mapsto> et_clock c + ttl), et_next_lease := l + 1\<rparr>))"

definition et_keep :: "(int \<Rightarrow> bool) \<Rightarrow> (string \<rightharpoonup> etcd_entry) \<Rightarrow> (string \<rightharpoonup> etcd_entry)" where
  "et_keep p keys = (\<lambda>k. case keys k of Some e \<Rightarrow> if p (ee_lease e) then Some e else None | None \<Rightarrow> None)"

definition et_revoke :: "int \<Rightarrow> etcd_cluster \<Rightarrow> (string + unit) \<times> etcd_cluster" where
  "et_revoke l c =
     (if \<not> et_alive c l then (Inl ''requested lease not found'', c)
      else (Inr (), c\<lparr>et_leases := (et_leases c)(l \<mapsto> et_clock c), et_keys := et_keep (\<lambda>x. x \<noteq> l) (et_keys c)\<rparr>))"

definition et_elapse :: "int \<Rightarrow> etcd_cluster \<Rightarrow> etcd_cluster" where
  "et_elapse d c =
     c\<lparr>et_clock := et_clock c + d,
       et_keys := et_keep (\<lambda>l. l = 0 \<or> et_clock c + d < et_lease_end c l) (et_keys c)\<rparr>"

definition et_raw :: "etcd_cluster raw_client" where
  "et_raw =
     \<lparr>raw_get = (\<lambda>k. et_call (\<lambda>c. (Inr (case et_keys c k of Some e \<Rightarrow> [ee_value e] | None \<Rightarrow> []), c))),
      raw_delete = (\<lambda>k. et_call (\<lambda>c. (Inr (), c\<lparr>et_keys := (et_keys c)(k := None)\<rparr>))),
      raw_grant = (\<lambda>ttl. et_call (et_grant ttl)), raw_revoke = (\<lambda>l. et_call (et_revoke l)),
      raw_txn = (\<lambda>t. et_call (et_txn t))\<rparr>"

definition et_ops :: "etcd_cluster etcd_ops" where
  "et_ops = etcd_client_wrapper et_raw"

lemma et_call_fields [simp]:
  "et_owner (c\<lparr>et_faults := fs\<rparr>) = et_owner c" "et_lease_end (c\<lparr>et_faults := fs\<rparr>) = et_lease_end c"
  "et_used (c\<lparr>et_faults := fs\<rparr>) = et_used c" "et_alive (c\<lparr>et_faults := fs\<rparr>) = et_alive c"
  by (simp_all add: fun_eq_iff et_owner_def et_lease_end_def et_used_def et_alive_def split: option.split)

lemma et_call_cases:
  assumes "et_call f c = (r, c')"
  shows "(isl r \<and> c' = c\<lparr>et_faults := tl (et_faults c)\<rparr>) \<or>
    (c' = snd (f (c\<lparr>et_faults := tl (et_faults c)\<rparr>)) \<and>
     (isl r \<or> r = fst (f (c\<lparr>et_faults := tl (et_faults c)\<rparr>))))"
  using assms by (auto simp: et_call_def Let_def split: etcd_fault.splits if_splits)

lemmas et_wrap_defs = et_ops_def etcd_client_wrapper_def et_raw_def kv_get_def kv_delete_def lease_grant_def
  lease_revoke_def txn_check_create_rev_and_put_def etcd_ping_def

lemma et_keep_owner:
  "et_owner (c\<lparr>et_keys := et_keep p (et_keys c)\<rparr>) k =
     (case et_owner c k of Some l \<Rightarrow> if p l then Some l else None | None \<Rightarrow> None)"
  by (simp add: et_owner_def et_keep_def split: option.split)

lemma et_put_new_effect:
  assumes "et_txn \<lparr>tx_when = [(k, 0)], tx_then = [TxnPut k v l], tx_else = [TxnGet k]\<rparr> c = (r, c')"
  shows "et_clock c' = et_clock c \<and> et_lease_end c' = et_lease_end c \<and> et_used c' = et_used c \<and>
    (r = Inr True \<longrightarrow> et_owner c k = None \<and> et_owner c' = (et_owner c)(k \<mapsto> l)) \<and>
    (r \<noteq> Inr True \<longrightarrow> c' = c) \<and> (r = Inr False \<longrightarrow> et_owner c k \<noteq> None)"
  using assms
  by (auto simp: et_txn_def et_compare_def et_owner_def fun_eq_iff et_lease_end_def et_used_def
      split: if_splits option.splits)

interpretation et_cluster: etcd_store et_ops et_owner et_clock et_lease_end et_used et_elapse
proof
  fix k c found c'
  assume "ec_get et_ops k c = (found, c')"
  then show "et_owner c' = et_owner c \<and> et_clock c' = et_clock c \<and> et_lease_end c' = et_lease_end c \<and>
      et_used c' = et_used c \<and> (\<forall>v. found = Inr v \<longrightarrow> (v = None \<longleftrightarrow> et_owner c k = None))"
    by (auto simp: et_wrap_defs et_owner_def dest!: et_call_cases split: prod.splits sum.splits option.splits)
next
  fix c pong c'
  assume "ec_ping et_ops c = (pong, c')"
  then show "et_owner c' = et_owner c \<and> et_clock c' = et_clock c \<and> et_lease_end c' = et_lease_end c \<and>
      et_used c' = et_used c"
    by (cases "raw_get et_raw [] c") (auto simp: et_wrap_defs dest!: et_call_cases)
next
  fix k c deleted c'
  assume "ec_delete et_ops k c = (deleted, c')"
  then show "et_clock c' = et_clock c \<and> et_lease_end c' = et_lease_end c \<and> et_used c' = et_used c \<and>
      et_owner c' \<in> {et_owner c, (et_owner c)(k := None)} \<and>
      (\<forall>u. deleted = Inr u \<longrightarrow> et_owner c' = (et_owner c)(k := None))"
    by (cases "raw_delete et_raw k c")
      (auto simp: et_wrap_defs et_owner_def et_lease_end_def et_used_def fun_eq_iff map_sum_Inr
        dest!: et_call_cases)
next
  fix ttl c granted c'
  assume "ec_grant et_ops ttl c = (granted, c')"
  then show "et_owner c' = et_owner c \<and> et_clock c' = et_clock c \<and> et_used c \<subseteq> et_used c' \<and>
      (\<forall>l \<in> et_used c. et_lease_end c' l = et_lease_end c l) \<and>
      (\<forall>l. granted = Inr l \<longrightarrow> l \<notin> et_used c \<and> l \<in> et_used c' \<and> et_lease_end c' l = et_clock c + ttl)"
    by (cases "raw_grant et_raw ttl c")
      (auto simp: et_wrap_defs et_grant_def Let_def et_owner_def et_lease_end_def et_used_def fun_eq_iff map_sum_Inr
        dest!: et_call_cases)
next
  fix l c revoked c'
  assume "ec_revoke et_ops l c = (revoked, c')"
  then show "et_clock c' = et_clock c \<and> et_used c' = et_used c \<and>
      (\<forall>l'. l' \<noteq> l \<longrightarrow> et_lease_end c' l' = et_lease_end c l') \<and>
      (et_lease_end c' l = et_lease_end c l \<and> et_owner c' = et_owner c \<or>
       et_lease_end c' l \<le> et_clock c \<and>
         et_owner c' = (\<lambda>k. if et_owner c k = Some l then None else et_owner c k)) \<and>
      (\<forall>u. revoked = Inr u \<longrightarrow> et_lease_end c' l \<le> et_clock c \<and>
         et_owner c' = (\<lambda>k. if et_owner c k = Some l then None else et_owner c k))"
    by (cases "raw_revoke et_raw l c")
      (auto simp: et_wrap_defs et_revoke_def et_owner_def et_keep_def et_lease_end_def et_used_def fun_eq_iff
        map_sum_Inr et_alive_def
        dest!: et_call_cases split: if_splits option.splits)
next
  fix k v l c put c'
  assume "ec_put_new et_ops k v l c = (put, c')"
  then obtain r where r: "raw_txn et_raw \<lparr>tx_when = [(k, 0)], tx_then = [TxnPut k v l], tx_else = [TxnGet k]\<rparr> c = (r, c')"
    "put = map_sum EtcdNetwork id r"
    by (cases "raw_txn et_raw \<lparr>tx_when = [(k, 0)], tx_then = [TxnPut k v l], tx_else = [TxnGet k]\<rparr> c")
      (auto simp: et_wrap_defs)
  obtain x c2 where x: "et_txn \<lparr>tx_when = [(k, 0)], tx_then = [TxnPut k v l], tx_else = [TxnGet k]\<rparr>
      (c\<lparr>et_faults := tl (et_faults c)\<rparr>) = (x, c2)" by (meson surj_pair)
  have call: "et_call (et_txn \<lparr>tx_when = [(k, 0)], tx_then = [TxnPut k v l], tx_else = [TxnGet k]\<rparr>) c = (r, c')"
    using r(1) by (simp add: et_raw_def)
  note e = et_put_new_effect [OF x]
  consider "isl r" "c' = c\<lparr>et_faults := tl (et_faults c)\<rparr>" | "isl r" "c' = c2" | "r = x" "c' = c2"
    using et_call_cases [OF call] unfolding x by auto
  then show "et_clock c' = et_clock c \<and> et_lease_end c' = et_lease_end c \<and> et_used c' = et_used c \<and>
      (et_owner c' = et_owner c \<or> et_owner c' = (et_owner c)(k \<mapsto> l) \<and> et_owner c k = None) \<and>
      (put = Inr True \<longrightarrow> et_owner c' = (et_owner c)(k \<mapsto> l) \<and> et_owner c k = None) \<and>
      (put = Inr False \<longrightarrow> et_owner c' = et_owner c \<and> et_owner c k \<noteq> None)"
  proof cases
    case 1
    then show ?thesis using r(2) by (cases r) simp_all
  next
    case 2
    then show ?thesis using r(2) e by (cases r; cases "x = Inr True") simp_all
  next
    case 3
    then have "put = Inr b \<longleftrightarrow> x = Inr b" for b using r(2) by (cases x) auto
    with 3 show ?thesis using e by (cases "x = Inr True") simp_all
  qed
next
  fix d :: int and c
  assume "0 \<le> d"
  then show "et_clock (et_elapse d c) = et_clock c + d \<and> et_lease_end (et_elapse d c) = et_lease_end c \<and>
      et_used (et_elapse d c) = et_used c \<and>
      (\<forall>k l. et_owner (et_elapse d c) k = Some l \<longrightarrow> et_owner c k = Some l) \<and>
      (\<forall>k l. et_owner c k = Some l \<and> et_clock c + d < et_lease_end c l \<longrightarrow>
         et_owner (et_elapse d c) k = Some l)"
    by (auto simp: et_elapse_def et_owner_def et_keep_def et_lease_end_def et_used_def fun_eq_iff
        split: option.splits if_splits)
qed

definition et_steady :: "etcd_cluster \<Rightarrow> bool" where
  "et_steady c \<longleftrightarrow> et_faults c = [] \<and> 0 \<le> et_clock c"

lemma et_call_steady: "et_faults c = [] \<Longrightarrow> et_call f c = f c"
  by (cases c) (simp add: et_call_def)

lemma et_alive_end: "0 \<le> et_clock c \<Longrightarrow> et_alive c l \<longleftrightarrow> et_clock c < et_lease_end c l"
  by (simp add: et_alive_def et_lease_end_def split: option.splits)

interpretation et_cluster: etcd_steady et_ops et_owner et_clock et_lease_end et_used et_elapse et_steady
proof
  show "\<not> isl found \<and> et_steady c'" if "et_steady c" "ec_get et_ops k c = (found, c')" for c k found c'
    using that by (auto simp: et_wrap_defs et_steady_def et_call_steady split: option.splits)
  show "\<not> isl granted \<and> et_steady c'" if "et_steady c" "ec_grant et_ops ttl c = (granted, c')" for c ttl granted c'
    using that by (auto simp: et_wrap_defs et_steady_def et_call_steady et_grant_def Let_def)
  show "\<not> isl put \<and> et_steady c'"
    if "et_steady c" "et_clock c < et_lease_end c l" "ec_put_new et_ops k v l c = (put, c')" for c l k v put c'
    using that by (auto simp: et_wrap_defs et_steady_def et_call_steady et_txn_def Let_def et_alive_end split: if_splits)
  show "\<not> isl revoked \<and> et_steady c'"
    if "et_steady c" "et_clock c < et_lease_end c l" "ec_revoke et_ops l c = (revoked, c')" for c l revoked c'
    using that by (auto simp: et_wrap_defs et_steady_def et_call_steady et_revoke_def et_alive_end split: if_splits)
qed

section \<open>Runs\<close>

text \<open>
  A run on the concrete cluster: a task makes its next step, a task gives back what it holds, or time
  passes.
\<close>

datatype run_event = Step nat | GiveBack nat | Pass int

definition no_stamp :: "'a \<Rightarrow> nat \<times> nat" where
  "no_stamp x = (0, 0)"

fun next_step :: "'c etcd_ops \<Rightarrow> task \<Rightarrow> 'c \<Rightarrow> task \<times> 'c" where
  "next_step ops (Allocator dc p) c = map_prod (Allocator dc) id (alloc_step ops no_stamp dc (p, c))"
| "next_step ops (Locker prefix key ttl q) c =
     map_prod (Locker prefix key ttl) id (acquire_step ops no_stamp prefix key ttl (q, c))"

fun give_back :: "'c etcd_ops \<Rightarrow> ('c \<Rightarrow> alloc_point \<Rightarrow> bool) \<Rightarrow> task \<Rightarrow> 'c \<Rightarrow> task \<times> 'c" where
  "give_back ops prompt (Allocator dc (AllocHolds l w)) c =
     (if prompt c (AllocHolds l w)
      then map_prod (\<lambda>r. Allocator dc (released_number l w r)) id (ec_delete ops (worker_path dc w) c)
      else (Allocator dc (AllocHolds l w), c))"
| "give_back ops prompt (Allocator dc (AllocKept l w)) c =
     (if prompt c (AllocKept l w)
      then map_prod (\<lambda>r. Allocator dc (released_number l w r)) id (ec_delete ops (worker_path dc w) c)
      else (Allocator dc (AllocKept l w), c))"
| "give_back ops prompt (Locker prefix key ttl (AcqHolds l)) c =
     map_prod (\<lambda>r. Locker prefix key ttl (released_lock l r)) id (ec_revoke ops l c)"
| "give_back ops prompt t c = (t, c)"

fun run_one ::
  "'c etcd_ops \<Rightarrow> (int \<Rightarrow> 'c \<Rightarrow> 'c) \<Rightarrow> ('c \<Rightarrow> alloc_point \<Rightarrow> bool) \<Rightarrow> run_event \<Rightarrow> (nat \<Rightarrow> task) \<times> 'c \<Rightarrow> (nat \<Rightarrow> task) \<times> 'c" where
  "run_one ops elapse prompt (Step i) (ts, c) = (case next_step ops (ts i) c of (t, c') \<Rightarrow> (ts(i := t), c'))"
| "run_one ops elapse prompt (GiveBack i) (ts, c) =
     (case give_back ops prompt (ts i) c of (t, c') \<Rightarrow> (ts(i := t), c'))"
| "run_one ops elapse prompt (Pass d) (ts, c) = (ts, elapse (max 0 d) c)"

lemma next_step_reachable:
  assumes "coord_reachable ops elapse prompt c0 ts0 c ts" "next_step ops (ts i) c = (t, c')"
  shows "coord_reachable ops elapse prompt c0 ts0 c' (ts(i := t))"
proof (rule coord_reachable.move [OF assms(1)])
  show "task_step ops prompt (ts i) c t c'"
    using assms(2)
    by (cases "ts i") (auto simp: map_prod_def split: prod.splits intro: task_step.alloc task_step.acquire)
qed

lemma give_back_step:
  "give_back ops prompt t0 c = (t, c') \<Longrightarrow> t = t0 \<and> c' = c \<or> task_step ops prompt t0 c t c'"
  by (cases "(ops, prompt, t0, c)" rule: give_back.cases)
    (auto simp: map_prod_def split: if_splits prod.splits
      intro: task_step.release_number task_step.release_lock)

lemma give_back_reachable:
  assumes "coord_reachable ops elapse prompt c0 ts0 c ts" "give_back ops prompt (ts i) c = (t, c')"
  shows "coord_reachable ops elapse prompt c0 ts0 c' (ts(i := t))"
  using give_back_step [OF assms(2)] assms(1) by (auto intro: coord_reachable.move)

lemma run_reachable:
  assumes "coord_reachable ops elapse prompt c0 ts0 c ts" "fold (run_one ops elapse prompt) es (ts, c) = (ts', c')"
  shows "coord_reachable ops elapse prompt c0 ts0 c' ts'"
  using assms
proof (induction es arbitrary: ts c)
  case (Cons e es)
  obtain ts1 c1 where e: "run_one ops elapse prompt e (ts, c) = (ts1, c1)" by fastforce
  have "coord_reachable ops elapse prompt c0 ts0 c1 ts1"
    using e Cons.prems(1)
    by (cases e) (auto split: prod.splits intro: next_step_reachable give_back_reachable coord_reachable.wait)
  from Cons.IH [OF this] show ?case using Cons.prems(2) e by simp
qed simp

lemma run_from_start:
  "coord_reachable ops elapse prompt c0 ts0
     (snd (fold (run_one ops elapse prompt) es (ts0, c0))) (fst (fold (run_one ops elapse prompt) es (ts0, c0)))"
  by (rule run_reachable [OF coord_reachable.begin_tasks]) (simp only: prod.collapse)

section \<open>A task that runs alone\<close>

text \<open>The steps of an allocation that nobody interrupts are \<open>do_allocate\<close>.\<close>

fun alloc_outcome ::
  "(worker_allocator_error + u16) \<times> etcd_worker_allocator \<times> 'c \<Rightarrow> alloc_point \<times> 'c" where
  "alloc_outcome (Inl e, a, c) = (AllocFailed e, c)"
| "alloc_outcome (Inr w, a, c) = (AllocHolds (ea_lease_id a) w, c)"

lemma alloc_run_more: "(f ^^ n) x = y \<Longrightarrow> (f ^^ m) y = z \<Longrightarrow> (f ^^ (m + n)) x = z"
  by (simp add: funpow_add)

lemma alloc_run_ids:
  assumes "try_worker_ids ops stamp l ws a c = r" "ea_lease_id a = l" "ea_datacenter_id a = dc"
  shows "\<exists>n. (alloc_step ops stamp dc ^^ n) (AllocCheck l ws, c) = alloc_outcome r"
  using assms
proof (induction ws arbitrary: c)
  case Nil
  then show ?case by (intro exI [of _ 1]) auto
next
  case (Cons w ws)
  let ?f = "alloc_step ops stamp dc"
  obtain r1 c1 where t: "try_allocate_id ops stamp dc w l c = (r1, c1)"
    by (cases "try_allocate_id ops stamp dc w l c")
  show ?case
  proof (cases "r1 = Inr True")
    case True
    have "(?f ^^ 2) (AllocCheck l (w # ws), c) = (AllocHolds l w, c1)"
      using t True by (auto simp: try_allocate_id_def numeral_2_eq_2 split: prod.splits sum.splits option.splits)
    then show ?thesis using Cons.prems t True by (intro exI [of _ 2]) auto
  next
    case False
    have "\<exists>n. (?f ^^ n) (AllocCheck l (w # ws), c) = (AllocCheck l ws, c1)"
    proof (cases "\<exists>c2. ec_get ops (worker_path dc w) c = (Inr None, c2)")
      case True
      then show ?thesis using t False
        by (intro exI [of _ 2])
          (auto simp: try_allocate_id_def numeral_2_eq_2 split: prod.splits sum.splits option.splits)
    next
      case none: False
      then show ?thesis using t False
        by (intro exI [of _ 1]) (auto simp: try_allocate_id_def split: prod.splits sum.splits option.splits)
    qed
    moreover have "try_worker_ids ops stamp l ws a c1 = r" using Cons.prems t False by (auto split: sum.splits)
    ultimately show ?thesis using Cons.IH [OF _ Cons.prems(2,3)] alloc_run_more by metis
  qed
qed

section \<open>Properties\<close>

text \<open>
  C32. Exclusion of worker numbers: whatever the tasks of a cluster do, in any order and with any loss of answers,
  two allocators of one data centre whose leases both live never hold the same number, provided numbers are
  released only while their lease lives and not again after a release was answered with an error. An
  allocator whose release failed does not count as a holder, although it still reports its number.
\<close>

theorem worker_numbers_exclusive:
  assumes "etcd_store ops owner clock lease_end used elapse"
    and "coord_reachable ops elapse (timely clock lease_end) c0 ts0 c ts" "\<And>i. task_begins (ts0 i)"
    and "ts i = Allocator dc (AllocHolds l w)" "clock c < lease_end c l"
    and "ts j = Allocator dc (AllocHolds l' w)" "clock c < lease_end c l'"
  shows "i = j"
proof -
  note alive = etcd_store.alive_def [OF assms(1)]
  from etcd_store.claims_exclusive [OF assms(1-3), unfolded alive] assms(4-) show ?thesis by auto
qed

definition two_allocators :: "nat \<Rightarrow> task" where
  "two_allocators i = Allocator 0 AllocGrant"

definition two_lockers :: "nat \<Rightarrow> task" where
  "two_lockers i = Locker ''lock/'' ''a'' 30 (AcqGrant 0)"

definition et_timely :: "etcd_cluster \<Rightarrow> alloc_point \<Rightarrow> bool" where
  "et_timely = timely et_clock et_lease_end"

definition et_run ::
  "(etcd_cluster \<Rightarrow> alloc_point \<Rightarrow> bool) \<Rightarrow> etcd_fault list \<Rightarrow> run_event list \<Rightarrow> (nat \<Rightarrow> task) \<Rightarrow>
   (nat \<Rightarrow> task) \<times> etcd_cluster" where
  "et_run prompt faults es ts = fold (run_one et_ops et_elapse prompt) es (ts, et_new faults)"

lemma et_run_reachable:
  "coord_reachable et_ops et_elapse prompt (et_new faults) ts
     (snd (et_run prompt faults es ts)) (fst (et_run prompt faults es ts))"
  unfolding et_run_def by (rule run_from_start)

lemma et_timely_run:
  "coord_reachable et_ops et_elapse (timely et_clock et_lease_end) (et_new faults) ts
     (snd (et_run et_timely faults es ts)) (fst (et_run et_timely faults es ts))"
  unfolding et_timely_def by (rule et_run_reachable)

theorem worker_numbers_exclusive_witness:
  "{i. fst (et_run et_timely [] [Step 0, Step 1, Step 0, Step 0, Step 1, Step 1, Step 1] two_allocators) i =
       Allocator 0 (AllocHolds 1 1)} = {0}"
proof -
  let ?r = "et_run et_timely [] [Step 0, Step 1, Step 0, Step 0, Step 1, Step 1, Step 1] two_allocators"
  have "case ?r of (ts, c) \<Rightarrow> ts 0 = Allocator 0 (AllocHolds 1 1) \<and> et_clock c < et_lease_end c 1"
    by code_simp
  then have zero: "fst ?r 0 = Allocator 0 (AllocHolds 1 1)" and alive: "et_clock (snd ?r) < et_lease_end (snd ?r) 1"
    by (simp_all add: case_prod_beta)
  have "i = 0" if "fst ?r i = Allocator 0 (AllocHolds 1 1)" for i
    by (rule worker_numbers_exclusive [OF et_cluster.etcd_store_axioms et_timely_run _ that alive zero alive])
      (simp add: two_allocators_def)
  with zero show ?thesis by blast
qed

text \<open>
  A lease of 30 seconds is never renewed: after that time the number is given to another allocator, while the
  first one still holds it.
\<close>

theorem worker_number_reused:
  "\<exists>c ts l l'. coord_reachable et_ops et_elapse et_timely (et_new []) two_allocators c ts \<and>
     ts 0 = Allocator 0 (AllocHolds l 1) \<and> ts 1 = Allocator 0 (AllocHolds l' 1)"
proof -
  let ?r = "et_run et_timely [] [Step 0, Step 0, Step 0, Pass 30, Step 1, Step 1, Step 1] two_allocators"
  have "case ?r of (ts, c) \<Rightarrow> ts 0 = Allocator 0 (AllocHolds 1 1) \<and> ts 1 = Allocator 0 (AllocHolds 2 1)"
    by code_simp
  then have "fst ?r 0 = Allocator 0 (AllocHolds 1 1)" "fst ?r 1 = Allocator 0 (AllocHolds 2 1)"
    by (simp_all add: case_prod_beta)
  with et_run_reachable show ?thesis by blast
qed

text \<open>
  A release whose answer is lost has deleted the key, while the allocator keeps its number and its lease and
  goes on reporting it: the next allocation gives the same number, with both leases alive.
\<close>

theorem lost_release_duplicates_number:
  "\<exists>c ts l l'. coord_reachable et_ops et_elapse et_timely (et_new [NoFault, NoFault, NoFault, AnswerLost])
       two_allocators c ts \<and>
     reported_number (ts 0) = Some 1 \<and> task_lease (ts 0) = Some l \<and> et_clock c < et_lease_end c l \<and>
     ts 1 = Allocator 0 (AllocHolds l' 1) \<and> et_clock c < et_lease_end c l'"
proof -
  let ?r = "et_run et_timely [NoFault, NoFault, NoFault, AnswerLost]
    [Step 0, Step 0, Step 0, GiveBack 0, Step 1, Step 1, Step 1] two_allocators"
  have "case ?r of (ts, c) \<Rightarrow> ts 0 = Allocator 0 (AllocKept 1 1) \<and> et_clock c < et_lease_end c 1 \<and>
      ts 1 = Allocator 0 (AllocHolds 2 1) \<and> et_clock c < et_lease_end c 2" by code_simp
  then have "fst ?r 0 = Allocator 0 (AllocKept 1 1)" "et_clock (snd ?r) < et_lease_end (snd ?r) 1"
    "fst ?r 1 = Allocator 0 (AllocHolds 2 1)" "et_clock (snd ?r) < et_lease_end (snd ?r) 2"
    by (simp_all add: case_prod_beta)
  with et_run_reachable show ?thesis
    by (intro exI [of _ "snd ?r"] exI [of _ "fst ?r"] exI [of _ 1] exI [of _ 2]) simp
qed

text \<open>
  A release deletes the key whoever owns it: released after its lease has ended, a number is freed for a
  third allocator while the second one's lease lives.
\<close>

theorem late_release_frees_other:
  "\<exists>c ts l l'. coord_reachable et_ops et_elapse (\<lambda>_ _. True) (et_new []) two_allocators c ts \<and>
     ts 1 = Allocator 0 (AllocHolds l 1) \<and> et_clock c < et_lease_end c l \<and>
     ts 2 = Allocator 0 (AllocHolds l' 1) \<and> et_clock c < et_lease_end c l'"
proof -
  let ?r = "et_run (\<lambda>_ _. True) [] [Step 0, Step 0, Step 0, Pass 30, Step 1, Step 1, Step 1, GiveBack 0,
    Step 2, Step 2, Step 2] two_allocators"
  have "case ?r of (ts, c) \<Rightarrow> ts 1 = Allocator 0 (AllocHolds 2 1) \<and> et_clock c < et_lease_end c 2 \<and>
      ts 2 = Allocator 0 (AllocHolds 3 1) \<and> et_clock c < et_lease_end c 3" by code_simp
  then have "fst ?r 1 = Allocator 0 (AllocHolds 2 1)" "et_clock (snd ?r) < et_lease_end (snd ?r) 2"
    "fst ?r 2 = Allocator 0 (AllocHolds 3 1)" "et_clock (snd ?r) < et_lease_end (snd ?r) 3"
    by (simp_all add: case_prod_beta)
  with et_run_reachable show ?thesis by blast
qed

text \<open>
  C33. Exclusion of the lock, with no condition on when a guard is released: revoking a lease touches only the
  keys of that lease.
\<close>

theorem etcd_lock_excludes:
  assumes "etcd_store ops owner clock lease_end used elapse"
    and "coord_reachable ops elapse (timely clock lease_end) c0 ts0 c ts" "\<And>i. task_begins (ts0 i)"
    and "ts i = Locker prefix key ttl (AcqHolds l)" "clock c < lease_end c l"
    and "ts j = Locker prefix key ttl' (AcqHolds l')" "clock c < lease_end c l'"
  shows "i = j"
proof -
  note alive = etcd_store.alive_def [OF assms(1)]
  from etcd_store.claims_exclusive [OF assms(1-3), unfolded alive] assms(4-) show ?thesis by auto
qed

theorem etcd_lock_excludes_witness:
  "{i. fst (et_run et_timely [] [Step 0, Step 0, Pass 31, Step 1, Step 1, GiveBack 0] two_lockers) i =
       Locker ''lock/'' ''a'' 30 (AcqHolds 2)} = {1}"
proof -
  let ?r = "et_run et_timely [] [Step 0, Step 0, Pass 31, Step 1, Step 1, GiveBack 0] two_lockers"
  have "case ?r of (ts, c) \<Rightarrow> ts 1 = Locker ''lock/'' ''a'' 30 (AcqHolds 2) \<and> et_clock c < et_lease_end c 2"
    by code_simp
  then have one: "fst ?r 1 = Locker ''lock/'' ''a'' 30 (AcqHolds 2)"
    and alive: "et_clock (snd ?r) < et_lease_end (snd ?r) 2"
    by (simp_all add: case_prod_beta)
  have "i = 1" if "fst ?r i = Locker ''lock/'' ''a'' 30 (AcqHolds 2)" for i
    by (rule etcd_lock_excludes [OF et_cluster.etcd_store_axioms et_timely_run _ that alive one alive])
      (simp add: two_lockers_def)
  with one show ?thesis by blast
qed

text \<open>On a cluster that answers, an allocation gives the least number from 1 to 255 that no key holds.\<close>

theorem allocate_least_free:
  assumes "etcd_steady ops owner clock lease_end used elapse steady" "steady c"
    and "do_allocate ops stamp a c = (r, a', c')"
  shows "(case List.find (\<lambda>w. owner c (worker_path (ea_datacenter_id a) w) = None) worker_ids of
      None \<Rightarrow> r = Inl NoAvailableId \<and> owner c' = owner c
    | Some w \<Rightarrow> r = Inr w \<and> get_allocated_id a' = (if w = 0 then None else Some w) \<and> ea_lease_id a' \<notin> used c \<and>
        owner c' = (owner c)(worker_path (ea_datacenter_id a) w \<mapsto> ea_lease_id a'))"
  by (rule etcd_steady.do_allocate_answers [OF assms])

theorem allocate_least_free_witness:
  "fst (do_allocate et_ops no_stamp (etcd_worker_allocator_new 3) (et_new [])) = Inr 1"
proof -
  let ?x = "do_allocate et_ops no_stamp (etcd_worker_allocator_new 3) (et_new [])"
  have "et_steady (et_new [])" by code_simp
  moreover have "List.find (\<lambda>w. et_owner (et_new []) (worker_path (ea_datacenter_id (etcd_worker_allocator_new 3)) w) = None)
      worker_ids = Some 1" by code_simp
  ultimately show ?thesis
    using allocate_least_free [OF et_cluster.etcd_steady_axioms, of "et_new []" no_stamp
        "etcd_worker_allocator_new 3" "fst ?x" "fst (snd ?x)" "snd (snd ?x)"] by simp
qed

theorem solo_refines_do_allocate:
  "\<exists>n. (alloc_step ops stamp (ea_datacenter_id a) ^^ n) (AllocGrant, c) = alloc_outcome (do_allocate ops stamp a c)"
proof -
  obtain g c1 where g: "ec_grant ops 30 c = (g, c1)" by (cases "ec_grant ops 30 c")
  show ?thesis
  proof (cases g)
    case (Inl e)
    then show ?thesis using g by (intro exI [of _ 1]) (simp add: do_allocate_def grant_lease_def)
  next
    case (Inr l)
    then have one: "(alloc_step ops stamp (ea_datacenter_id a) ^^ 1) (AllocGrant, c) = (AllocCheck l worker_ids, c1)"
      using g by simp
    obtain n where "(alloc_step ops stamp (ea_datacenter_id a) ^^ n) (AllocCheck l worker_ids, c1) =
        alloc_outcome (try_worker_ids ops stamp l worker_ids (a\<lparr>ea_lease_id := l\<rparr>) c1)"
      using alloc_run_ids [OF refl, where a = "a\<lparr>ea_lease_id := l\<rparr>" and l = l and ws = worker_ids
          and c = c1 and ops = ops and stamp = stamp and dc = "ea_datacenter_id a"] by auto
    from alloc_run_more [OF one this] show ?thesis
      by (intro exI [of _ "n + 1"]) (simp only: do_allocate_def grant_lease_def g Inr prod.case sum.case)
  qed
qed

lemma never_healthy:
  "allocator_is_healthy (fst (snd (do_allocate ops stamp (etcd_worker_allocator_new dc) c))) = False"
proof -
  have ids: "ea_health_status (fst (snd (try_worker_ids ops stamp l ws a c))) = ea_health_status a" for l ws a c
    by (induction ws arbitrary: c) (auto split: prod.splits sum.splits)
  then show ?thesis
    by (auto simp: do_allocate_def grant_lease_def allocator_is_healthy_def etcd_worker_allocator_new_def
        split: prod.splits sum.splits)
qed

end
