(* ===== verification/Etcd_Monitor.thy ===== *)
theory Etcd_Monitor
  imports Etcd_Coord Types_Id "HOL-Library.AList"
begin

text \<open>
  \<open>EtcdClusterHealthMonitor\<close> of \<open>src/src/core/coordinator/etcd.rs\<close>: the status of the cluster, counted from
  health checks, and the local cache of key values with its file.

  \<open>clone\<close> copies the counters and the status, but shares the cache and the time of the last success; so a
  monitor is its own part \<open>etcd_monitor\<close> and the part \<open>monitor_shared\<close> that its clones share. The file
  system, the JSON library and the clock are inputs; logging is left out. The monitor of a build without
  etcd (\<open>coordinator/local.rs\<close>) has no state.
\<close>

section \<open>Status\<close>

datatype etcd_cluster_status = ClusterHealthy | ClusterDegraded | ClusterFailed

fun status_as_u8 :: "etcd_cluster_status \<Rightarrow> u8" where
  "status_as_u8 ClusterHealthy = 0"
| "status_as_u8 ClusterDegraded = 1"
| "status_as_u8 ClusterFailed = 2"

record local_cache_entry =
  ce_key :: string
  ce_value :: string
  ce_version :: int
  ce_created_at :: int
  ce_updated_at :: int

record etcd_monitor =
  em_status :: u8
  em_failure_count :: u64
  em_consecutive_failures :: u64
  em_is_using_cache :: bool

record monitor_shared =
  ms_last_success :: int
  ms_cache :: "(string \<times> local_cache_entry) list"

definition etcd_monitor_new :: "int \<Rightarrow> etcd_monitor \<times> monitor_shared" where
  "etcd_monitor_new now =
     (\<lparr>em_status = status_as_u8 ClusterHealthy, em_failure_count = 0, em_consecutive_failures = 0,
       em_is_using_cache = False\<rparr>, \<lparr>ms_last_success = now, ms_cache = []\<rparr>)"

definition get_cluster_status :: "etcd_monitor \<Rightarrow> etcd_cluster_status" where
  "get_cluster_status m =
     (if em_status m = 0 then ClusterHealthy else if em_status m = 1 then ClusterDegraded else ClusterFailed)"

definition set_cluster_status :: "etcd_cluster_status \<Rightarrow> etcd_monitor \<Rightarrow> etcd_monitor" where
  "set_cluster_status st m = m\<lparr>em_status := status_as_u8 st\<rparr>"

definition record_etcd_success ::
  "int \<Rightarrow> etcd_monitor \<times> monitor_shared \<Rightarrow> etcd_monitor \<times> monitor_shared" where
  "record_etcd_success now ms =
     (case ms of (m, s) \<Rightarrow>
        let s' = s\<lparr>ms_last_success := now\<rparr>;
            m1 = m\<lparr>em_consecutive_failures := 0\<rparr>
        in if get_cluster_status m1 \<noteq> ClusterHealthy
           then let m2 = set_cluster_status ClusterHealthy m1
                in (if em_is_using_cache m2 then m2\<lparr>em_is_using_cache := False\<rparr> else m2, s')
           else (m1, s'))"

definition record_etcd_failure :: "etcd_monitor \<Rightarrow> etcd_monitor" where
  "record_etcd_failure m =
     (let m1 = m\<lparr>em_failure_count := em_failure_count m + 1,
                 em_consecutive_failures := em_consecutive_failures m + 1\<rparr>;
          consecutive = em_consecutive_failures m + 1
      in if consecutive \<ge> 5 then (set_cluster_status ClusterFailed m1)\<lparr>em_is_using_cache := True\<rparr>
         else if consecutive \<ge> 3 then set_cluster_status ClusterDegraded m1
         else m1)"

text \<open>
  A health check. \<open>ping\<close> is the answer of the injected client, \<open>None\<close> without one; then a new client is
  connected. A call that does not end within the timeout is \<open>TimedOut\<close>.
\<close>

datatype 'x timed = InTime 'x | TimedOut

record check_input =
  ci_now :: int
  ci_ping :: "(etcd_error + unit) timed option"
  ci_connect :: "(string + unit) timed"

definition check_etcd_health ::
  "string list \<Rightarrow> check_input \<Rightarrow> etcd_monitor \<times> monitor_shared \<Rightarrow> etcd_monitor \<times> monitor_shared" where
  "check_etcd_health endpoints i ms =
     (case ci_ping i of
        Some (InTime (Inr _)) \<Rightarrow> record_etcd_success (ci_now i) ms
      | Some _ \<Rightarrow> (record_etcd_failure (fst ms), snd ms)
      | None \<Rightarrow>
          if endpoints = [] then ms
          else (case ci_connect i of
              InTime (Inr _) \<Rightarrow> record_etcd_success (ci_now i) ms
            | _ \<Rightarrow> (record_etcd_failure (fst ms), snd ms)))"

definition clone_monitor :: "etcd_monitor \<Rightarrow> etcd_monitor" where
  "clone_monitor m =
     \<lparr>em_status = em_status m, em_failure_count = em_failure_count m,
      em_consecutive_failures = em_consecutive_failures m, em_is_using_cache = em_is_using_cache m\<rparr>"

text \<open>
  \<open>start_health_check\<close> spawns a task that checks on a clone: the result is the monitor that started it, the
  clone after the checks \<open>is\<close>, and what they share.
\<close>

definition start_health_check ::
  "string list \<Rightarrow> check_input list \<Rightarrow> etcd_monitor \<times> monitor_shared \<Rightarrow>
   etcd_monitor \<times> etcd_monitor \<times> monitor_shared" where
  "start_health_check endpoints is ms =
     (fst ms, fold (check_etcd_health endpoints) is (clone_monitor (fst ms), snd ms))"

section \<open>The local cache\<close>

definition get_from_cache :: "string \<Rightarrow> monitor_shared \<Rightarrow> local_cache_entry option" where
  "get_from_cache key s = map_of (ms_cache s) key"

definition put_to_cache :: "int \<Rightarrow> string \<Rightarrow> string \<Rightarrow> int \<Rightarrow> monitor_shared \<Rightarrow> monitor_shared" where
  "put_to_cache now key v version s =
     s\<lparr>ms_cache := AList.update key
        \<lparr>ce_key = key, ce_value = v, ce_version = version, ce_created_at = now, ce_updated_at = now\<rparr>
        (ms_cache s)\<rparr>"

definition delete_from_cache :: "string \<Rightarrow> monitor_shared \<Rightarrow> monitor_shared" where
  "delete_from_cache key s = s\<lparr>ms_cache := AList.delete key (ms_cache s)\<rparr>"

text \<open>
  The file is \<open>None\<close> if there is none, or what reading it gives; \<open>parse\<close> and \<open>print\<close> are the JSON library,
  \<open>store\<close> the outcome of writing the file.
\<close>

definition load_local_cache ::
  "(string \<Rightarrow> string + local_cache_entry list) \<Rightarrow> (string + string) option \<Rightarrow> monitor_shared \<Rightarrow>
   unit res \<times> monitor_shared" where
  "load_local_cache parse file s =
     (case file of
        None \<Rightarrow> (Inr (), s)
      | Some (Inl e) \<Rightarrow> (Inl (InternalError (''Failed to read cache file: '' @ e)), s)
      | Some (Inr content) \<Rightarrow>
          (case parse content of
             Inl e \<Rightarrow> (Inl (InternalError (''Failed to parse cache file: '' @ e)), s)
           | Inr entries \<Rightarrow>
               (Inr (), s\<lparr>ms_cache := fold (\<lambda>e. AList.update (ce_key e) e) entries (ms_cache s)\<rparr>)))"

definition save_local_cache ::
  "(local_cache_entry list \<Rightarrow> string + string) \<Rightarrow> (string \<Rightarrow> string + unit) \<Rightarrow> monitor_shared \<Rightarrow>
   unit res \<times> string option" where
  "save_local_cache print store s =
     (case print (map snd (ms_cache s)) of
        Inl e \<Rightarrow> (Inl (InternalError (''Failed to serialize cache: '' @ e)), None)
      | Inr content \<Rightarrow>
          (case store content of
             Inl e \<Rightarrow> (Inl (InternalError (''Failed to write cache file: '' @ e)), None)
           | Inr _ \<Rightarrow> (Inr (), Some content)))"

section \<open>Properties\<close>

definition level :: "nat \<Rightarrow> etcd_cluster_status" where
  "level n = (if n \<ge> 5 then ClusterFailed else if n \<ge> 3 then ClusterDegraded else ClusterHealthy)"

text \<open>What a check counts: \<open>Some True\<close> a success, \<open>Some False\<close> a failure, \<open>None\<close> nothing.\<close>

definition check_outcome :: "string list \<Rightarrow> check_input \<Rightarrow> bool option" where
  "check_outcome endpoints i =
     (case ci_ping i of
        Some p \<Rightarrow> Some (p = InTime (Inr ()))
      | None \<Rightarrow> if endpoints = [] then None else Some (ci_connect i = InTime (Inr ())))"

definition failures_in_a_row :: "bool list \<Rightarrow> nat" where
  "failures_in_a_row os = length (takeWhile (\<lambda>ok. \<not> ok) (rev os))"

definition monitor_ok :: "bool list \<Rightarrow> etcd_monitor \<Rightarrow> bool" where
  "monitor_ok os m \<longleftrightarrow>
     unat (em_consecutive_failures m) = failures_in_a_row os \<and>
     get_cluster_status m = level (failures_in_a_row os) \<and>
     em_is_using_cache m = (get_cluster_status m = ClusterFailed)"

lemma get_set_cluster [simp]: "get_cluster_status (set_cluster_status st m) = st"
  by (cases st) (simp_all add: get_cluster_status_def set_cluster_status_def)

lemma set_cluster_fields [simp]:
  "em_consecutive_failures (set_cluster_status st m) = em_consecutive_failures m"
  "em_is_using_cache (set_cluster_status st m) = em_is_using_cache m"
  "get_cluster_status (m\<lparr>em_consecutive_failures := n\<rparr>) = get_cluster_status m"
  "get_cluster_status (m\<lparr>em_failure_count := k, em_consecutive_failures := n\<rparr>) = get_cluster_status m"
  "get_cluster_status (m\<lparr>em_is_using_cache := b\<rparr>) = get_cluster_status m"
  "get_cluster_status (m\<lparr>em_failure_count := k\<rparr>) = get_cluster_status m"
  by (simp_all add: set_cluster_status_def get_cluster_status_def)

lemma monitor_success:
  "monitor_ok os m \<Longrightarrow> monitor_ok (os @ [True]) (fst (record_etcd_success now (m, s)))"
  by (auto simp: monitor_ok_def record_etcd_success_def Let_def failures_in_a_row_def level_def)

lemma monitor_failure:
  assumes "monitor_ok os m" "length os < 2 ^ 64 - 1"
  shows "monitor_ok (os @ [False]) (record_etcd_failure m)"
proof -
  have "failures_in_a_row os \<le> length os"
    unfolding failures_in_a_row_def by (metis length_rev length_takeWhile_le)
  with assms have "unat (em_consecutive_failures m + 1) = failures_in_a_row os + 1"
    by (simp add: monitor_ok_def unat_add_bounded)
  moreover have "failures_in_a_row (os @ [False]) = failures_in_a_row os + 1"
    by (simp add: failures_in_a_row_def)
  ultimately show ?thesis using assms(1)
    by (auto simp: monitor_ok_def record_etcd_failure_def Let_def level_def word_le_nat_alt)
qed

lemma check_effect:
  assumes "monitor_ok os m" "length os < 2 ^ 64 - 1"
  shows "monitor_ok (os @ (case check_outcome endpoints i of Some b \<Rightarrow> [b] | None \<Rightarrow> []))
    (fst (check_etcd_health endpoints i (m, s)))"
  using monitor_success [OF assms(1), of "ci_now i" s] monitor_failure [OF assms] assms(1)
  by (auto simp: check_etcd_health_def check_outcome_def split: option.splits timed.splits sum.splits)

lemma checks_effect:
  assumes "monitor_ok os m" "length os + length is < 2 ^ 64"
  shows "monitor_ok (os @ List.map_filter (check_outcome endpoints) is)
    (fst (fold (check_etcd_health endpoints) is (m, s)))"
  using assms
proof (induction "is" arbitrary: os m s)
  case Nil
  then show ?case by (simp add: map_filter_simps)
next
  case (Cons i "is")
  let ?os = "os @ (case check_outcome endpoints i of Some b \<Rightarrow> [b] | None \<Rightarrow> [])"
  obtain m1 s1 where c: "check_etcd_health endpoints i (m, s) = (m1, s1)"
    by (cases "check_etcd_health endpoints i (m, s)")
  have "monitor_ok ?os m1"
    using check_effect [OF Cons.prems(1), of endpoints i s] Cons.prems(2) c by simp
  moreover have "length ?os + length is < 2 ^ 64" using Cons.prems(2) by (auto split: option.splits)
  ultimately have "monitor_ok (?os @ List.map_filter (check_outcome endpoints) is)
      (fst (fold (check_etcd_health endpoints) is (m1, s1)))" by (rule Cons.IH)
  then show ?case using c by (simp add: map_filter_simps split: option.splits)
qed

lemma clone_monitor_id [simp]: "clone_monitor m = m"
  by (simp add: clone_monitor_def)

text \<open>
  The background checks count on their own copy: its status is the level of the failures since the last
  success, but the monitor the rest of the program asks stays healthy for ever.
\<close>

theorem background_checks_not_seen:
  assumes "start_health_check endpoints is (etcd_monitor_new now) = (m, m', s)" "length is < 2 ^ 64"
  shows "get_cluster_status m' = level (failures_in_a_row (List.map_filter (check_outcome endpoints) is)) \<and>
    em_is_using_cache m' = (get_cluster_status m' = ClusterFailed) \<and>
    get_cluster_status m = ClusterHealthy \<and> \<not> em_is_using_cache m"
proof -
  have ok: "monitor_ok [] (fst (etcd_monitor_new now))"
    by (simp add: monitor_ok_def etcd_monitor_new_def failures_in_a_row_def level_def get_cluster_status_def)
  have "monitor_ok ([] @ List.map_filter (check_outcome endpoints) is) m'"
    using checks_effect [OF ok, of "is" endpoints "snd (etcd_monitor_new now)"] assms
    by (auto simp: start_health_check_def)
  moreover have "m = fst (etcd_monitor_new now)" using assms(1) by (simp add: start_health_check_def)
  ultimately show ?thesis using ok by (simp add: monitor_ok_def failures_in_a_row_def level_def)
qed

definition no_answer :: check_input where
  "no_answer = \<lparr>ci_now = 0, ci_ping = Some TimedOut, ci_connect = TimedOut\<rparr>"

lemma background_checks_not_seen_witness:
  "case start_health_check [] (replicate 5 no_answer) (etcd_monitor_new 0) of (m, m', s) \<Rightarrow>
     get_cluster_status m' = ClusterFailed \<and> get_cluster_status m = ClusterHealthy"
proof -
  obtain m m' s where r: "start_health_check [] (replicate 5 no_answer) (etcd_monitor_new 0) = (m, m', s)"
    by (metis prod_cases3)
  have "level (failures_in_a_row (List.map_filter (check_outcome []) (replicate 5 no_answer))) = ClusterFailed"
    by code_simp
  with background_checks_not_seen [OF r] r show ?thesis by simp
qed

definition cache_ok :: "monitor_shared \<Rightarrow> bool" where
  "cache_ok s \<longleftrightarrow> distinct (map fst (ms_cache s)) \<and> (\<forall>p \<in> set (ms_cache s). ce_key (snd p) = fst p)"

lemma cache_ok_put: "cache_ok s \<Longrightarrow> cache_ok (put_to_cache now key v version s)"
proof -
  assume ok: "cache_ok s"
  let ?al = "ms_cache (put_to_cache now key v version s)"
  have d: "distinct (map fst ?al)" using ok by (simp add: cache_ok_def put_to_cache_def distinct_update)
  have "ce_key x = k" if "(k, x) \<in> set ?al" for k x
  proof -
    have "map_of ?al k = Some x" using d that by simp
    then have "k = key \<and> ce_key x = key \<or> map_of (ms_cache s) k = Some x"
      by (auto simp: put_to_cache_def update_conv' split: if_splits)
    then show ?thesis using ok by (auto simp: cache_ok_def dest: map_of_SomeD)
  qed
  with d show ?thesis by (auto simp: cache_ok_def)
qed

lemma find_append_one:
  "List.find q (xs @ [y]) = (case List.find q xs of Some z \<Rightarrow> Some z | None \<Rightarrow> if q y then Some y else None)"
  by (induction xs) auto

lemma fold_entries:
  "map_of (fold (\<lambda>e. AList.update (ce_key e) e) es xs) k =
     (case List.find (\<lambda>e. ce_key e = k) (rev es) of Some e \<Rightarrow> Some e | None \<Rightarrow> map_of xs k)"
proof (induction es arbitrary: xs)
  case (Cons e es)
  then show ?case
    by (cases "List.find (\<lambda>e. ce_key e = k) (rev es)") (auto simp: find_append_one update_conv')
qed simp

lemma find_entry:
  assumes "distinct (map fst ps)" "\<forall>p \<in> set ps. ce_key (snd p) = fst p"
  shows "List.find (\<lambda>e. ce_key e = key) (rev (map snd ps)) = map_of ps key"
  using assms
proof (induction ps)
  case (Cons p ps)
  then have IH: "List.find (\<lambda>e. ce_key e = key) (rev (map snd ps)) = map_of ps key" by simp
  have "fst p = key \<Longrightarrow> map_of ps key = None" using Cons.prems(1) by (auto simp: map_of_eq_None_iff)
  then show ?case using Cons.prems(2) IH by (cases p; cases "map_of ps key") (auto simp: find_append_one)
qed simp

text \<open>The file brings back the cache: what is saved and then loaded answers every look-up as before.\<close>

theorem cache_file_roundtrip:
  assumes "save_local_cache print store s = (Inr (), Some content)" "cache_ok s"
    and "\<And>es text. print es = Inr text \<Longrightarrow> parse text = Inr es"
    and "load_local_cache parse (Some (Inr content)) (base\<lparr>ms_cache := []\<rparr>) = (r, loaded)"
  shows "r = Inr () \<and> get_from_cache key loaded = get_from_cache key s"
proof -
  have "print (map snd (ms_cache s)) = Inr content"
    using assms(1) by (auto simp: save_local_cache_def split: sum.splits)
  then have p: "parse content = Inr (map snd (ms_cache s))" by (rule assms(3))
  then have loaded: "r = Inr ()" "ms_cache loaded = fold (\<lambda>e. AList.update (ce_key e) e) (map snd (ms_cache s)) []"
    using assms(4) by (auto simp: load_local_cache_def)
  have "List.find (\<lambda>e. ce_key e = key) (rev (map snd (ms_cache s))) = map_of (ms_cache s) key"
    using assms(2) by (intro find_entry) (simp_all add: cache_ok_def)
  then show ?thesis using loaded by (simp add: get_from_cache_def fold_entries split: option.split)
qed

text \<open>A printer of single entries with an empty value, for the witness.\<close>

definition demo_entry :: "string \<Rightarrow> local_cache_entry" where
  "demo_entry k = \<lparr>ce_key = k, ce_value = [], ce_version = 1, ce_created_at = 5, ce_updated_at = 5\<rparr>"

definition demo_print :: "local_cache_entry list \<Rightarrow> string + string" where
  "demo_print es =
     (case es of [e] \<Rightarrow> if e = demo_entry (ce_key e) then Inr (ce_key e) else Inl ''unsupported''
      | _ \<Rightarrow> Inl ''unsupported'')"

definition demo_parse :: "string \<Rightarrow> string + local_cache_entry list" where
  "demo_parse text = Inr [demo_entry text]"

lemma demo_parse_print: "demo_print es = Inr text \<Longrightarrow> demo_parse text = Inr es"
  by (auto simp: demo_print_def demo_parse_def split: list.splits if_splits)

lemma cache_file_roundtrip_witness:
  "get_from_cache ''a'' (snd (load_local_cache demo_parse (Some (Inr ''a'')) \<lparr>ms_last_success = 0, ms_cache = []\<rparr>)) =
     Some (demo_entry ''a'')"
proof -
  let ?e = "\<lparr>ms_last_success = 0, ms_cache = []\<rparr>"
  let ?s = "put_to_cache 5 ''a'' [] 1 ?e"
  let ?l = "load_local_cache demo_parse (Some (Inr ''a'')) (?e\<lparr>ms_cache := []\<rparr>)"
  have "save_local_cache demo_print (\<lambda>_. Inr ()) ?s = (Inr (), Some ''a'')" by code_simp
  moreover have "cache_ok ?s" by (rule cache_ok_put) (simp add: cache_ok_def)
  ultimately have "get_from_cache ''a'' (snd ?l) = get_from_cache ''a'' ?s"
    using cache_file_roundtrip [where store = "\<lambda>_. Inr ()" and s = ?s and content = "''a''" and base = ?e
        and print = demo_print and parse = demo_parse and r = "fst ?l" and loaded = "snd ?l" and key = "''a''",
        OF _ _ demo_parse_print] by simp
  moreover have "get_from_cache ''a'' ?s = Some (demo_entry ''a'')" by code_simp
  ultimately show ?thesis by simp
qed

end
