(* ===== verification/Metrics.thy ===== *)
theory Metrics
  imports Types_Id F64
begin

text \<open>
  The metrics of \<open>src/src/core/types/metrics.rs\<close>: the counters of an algorithm (\<open>AlgorithmMetrics\<close>), their
  snapshot, the window of requests per second (\<open>QpsWindow\<close>) and \<open>GlobalMetrics\<close>.

  The atomics are words that wrap; one call is one step. The clock is an input in whole seconds, and so is
  whether the weak compare-and-swap of the window succeeds, for it may fail without a reason. \<open>Instant\<close>s are
  numbers of nanoseconds; the map of algorithms is an association list.
\<close>

section \<open>The counters of an algorithm\<close>

record algorithm_counters =
  ac_algorithm :: algorithm_type
  ac_total_generated :: u64
  ac_total_failed :: u64
  ac_current_qps :: u64
  ac_p50_latency_ns :: u64
  ac_p99_latency_ns :: u64
  ac_p999_latency_ns :: u64
  ac_cache_hit_rate :: u64

definition counters_default :: algorithm_counters where
  "counters_default =
     \<lparr>ac_algorithm = Segment, ac_total_generated = 0, ac_total_failed = 0, ac_current_qps = 0,
      ac_p50_latency_ns = 0, ac_p99_latency_ns = 0, ac_p999_latency_ns = 0, ac_cache_hit_rate = 0\<rparr>"

definition counters_new :: "algorithm_type \<Rightarrow> algorithm_counters" where
  "counters_new alg = counters_default\<lparr>ac_algorithm := alg\<rparr>"

definition increment_generated :: "u64 \<Rightarrow> algorithm_counters \<Rightarrow> algorithm_counters" where
  "increment_generated count m = m\<lparr>ac_total_generated := ac_total_generated m + count\<rparr>"

definition increment_failed :: "algorithm_counters \<Rightarrow> algorithm_counters" where
  "increment_failed m = m\<lparr>ac_total_failed := ac_total_failed m + 1\<rparr>"

definition record_latency :: "u64 \<Rightarrow> algorithm_counters \<Rightarrow> algorithm_counters" where
  "record_latency latency_ns m =
     (let m = m\<lparr>ac_current_qps := ac_current_qps m + 1\<rparr>;
          m = (if latency_ns > ac_p50_latency_ns m \<or> ac_p50_latency_ns m = 0
               then m\<lparr>ac_p50_latency_ns := latency_ns\<rparr> else m);
          m = (if latency_ns > ac_p99_latency_ns m then m\<lparr>ac_p99_latency_ns := latency_ns\<rparr> else m)
      in if latency_ns > ac_p999_latency_ns m then m\<lparr>ac_p999_latency_ns := latency_ns\<rparr> else m)"

definition update_qps :: "u64 \<Rightarrow> algorithm_counters \<Rightarrow> algorithm_counters" where
  "update_qps qps m = m\<lparr>ac_current_qps := qps\<rparr>"

definition update_cache_hit_rate :: "rat \<Rightarrow> algorithm_counters \<Rightarrow> algorithm_counters" where
  "update_cache_hit_rate hit_rate m = m\<lparr>ac_cache_hit_rate := f64_to_u64 (f64_mul hit_rate 10000)\<rparr>"

definition as_ms :: "u64 \<Rightarrow> rat" where
  "as_ms ns = f64_div (f64_of_u64 ns) 1000000"

definition get_p50_latency_ms :: "algorithm_counters \<Rightarrow> rat" where
  "get_p50_latency_ms m = as_ms (ac_p50_latency_ns m)"

definition get_p99_latency_ms :: "algorithm_counters \<Rightarrow> rat" where
  "get_p99_latency_ms m = as_ms (ac_p99_latency_ns m)"

definition get_p999_latency_ms :: "algorithm_counters \<Rightarrow> rat" where
  "get_p999_latency_ms m = as_ms (ac_p999_latency_ns m)"

definition get_cache_hit_rate :: "algorithm_counters \<Rightarrow> rat" where
  "get_cache_hit_rate m = f64_div (f64_of_u64 (ac_cache_hit_rate m)) 100"

record metrics_snapshot =
  sn_algorithm :: algorithm_type
  sn_total_generated :: u64
  sn_total_failed :: u64
  sn_current_qps :: u64
  sn_p50_latency_ms :: rat
  sn_p99_latency_ms :: rat
  sn_p999_latency_ms :: rat
  sn_cache_hit_rate :: rat

definition snapshot_of :: "algorithm_counters \<Rightarrow> metrics_snapshot" where
  "snapshot_of m =
     \<lparr>sn_algorithm = ac_algorithm m, sn_total_generated = ac_total_generated m,
      sn_total_failed = ac_total_failed m, sn_current_qps = ac_current_qps m,
      sn_p50_latency_ms = get_p50_latency_ms m, sn_p99_latency_ms = get_p99_latency_ms m,
      sn_p999_latency_ms = get_p999_latency_ms m, sn_cache_hit_rate = get_cache_hit_rate m\<rparr>"

section \<open>Requests per second\<close>

record second_window =
  sw_window_secs :: u64
  sw_current_count :: u64
  sw_last_count :: u64
  sw_current_second :: u64

definition second_window_new :: "u64 \<Rightarrow> u64 \<Rightarrow> second_window" where
  "second_window_new window_secs now_secs =
     \<lparr>sw_window_secs = window_secs, sw_current_count = 0, sw_last_count = 0, sw_current_second = now_secs\<rparr>"

definition window_record_batch :: "bool \<Rightarrow> u64 \<Rightarrow> u64 \<Rightarrow> second_window \<Rightarrow> second_window" where
  "window_record_batch swapped now_secs count w =
     (let stored_sec = sw_current_second w;
          w = (if now_secs \<noteq> stored_sec then
                 (let w = (if swapped then w\<lparr>sw_current_second := now_secs\<rparr> else w) in
                  if now_secs > stored_sec
                  then w\<lparr>sw_last_count := sw_current_count w, sw_current_count := 0\<rparr> else w)
               else w)
      in w\<lparr>sw_current_count := sw_current_count w + count\<rparr>)"

definition window_record :: "bool \<Rightarrow> u64 \<Rightarrow> second_window \<Rightarrow> second_window" where
  "window_record swapped now_secs w = window_record_batch swapped now_secs 1 w"

definition window_get_qps :: "second_window \<Rightarrow> u64" where
  "window_get_qps w = (sw_current_count w * 7 + sw_last_count w * 3) div 10"

section \<open>All metrics\<close>

record global_metrics =
  gm_algorithms :: "(algorithm_type \<times> algorithm_counters) list"
  gm_active_connections :: u32
  gm_total_requests :: u64
  gm_total_errors :: u64
  gm_start_time :: int

definition global_metrics_new :: "int \<Rightarrow> global_metrics" where
  "global_metrics_new now =
     \<lparr>gm_algorithms = [], gm_active_connections = 0, gm_total_requests = 0, gm_total_errors = 0,
      gm_start_time = now\<rparr>"

definition get_or_create_metrics :: "algorithm_type \<Rightarrow> global_metrics \<Rightarrow> algorithm_counters \<times> global_metrics" where
  "get_or_create_metrics alg g =
     (case map_of (gm_algorithms g) alg of
        Some m \<Rightarrow> (m, g)
      | None \<Rightarrow> (counters_new alg, g\<lparr>gm_algorithms := (alg, counters_new alg) # gm_algorithms g\<rparr>))"

definition increment_requests :: "global_metrics \<Rightarrow> global_metrics" where
  "increment_requests g = g\<lparr>gm_total_requests := gm_total_requests g + 1\<rparr>"

definition increment_errors :: "global_metrics \<Rightarrow> global_metrics" where
  "increment_errors g = g\<lparr>gm_total_errors := gm_total_errors g + 1\<rparr>"

definition increment_connections :: "global_metrics \<Rightarrow> u32 \<times> global_metrics" where
  "increment_connections g =
     (gm_active_connections g + 1, g\<lparr>gm_active_connections := gm_active_connections g + 1\<rparr>)"

definition decrement_connections :: "global_metrics \<Rightarrow> global_metrics" where
  "decrement_connections g = g\<lparr>gm_active_connections := gm_active_connections g - 1\<rparr>"

definition get_uptime_seconds :: "int \<Rightarrow> global_metrics \<Rightarrow> int" where
  "get_uptime_seconds now g = (now - gm_start_time g) div 10 ^ 9"

definition get_all_snapshots :: "global_metrics \<Rightarrow> metrics_snapshot list" where
  "get_all_snapshots g = map (\<lambda>(_, m). snapshot_of m) (gm_algorithms g)"

section \<open>What the numbers mean\<close>

text \<open>The three percentiles are one number, the largest latency, and the rate is the number of latencies.\<close>

lemma record_latency_fields:
  "ac_p50_latency_ns (record_latency l m) = max (ac_p50_latency_ns m) l"
  "ac_p99_latency_ns (record_latency l m) = max (ac_p99_latency_ns m) l"
  "ac_p999_latency_ns (record_latency l m) = max (ac_p999_latency_ns m) l"
  "ac_current_qps (record_latency l m) = ac_current_qps m + 1"
  by (auto simp: record_latency_def Let_def max_def)

lemma percentiles_are_maximum:
  "case fold record_latency ls (counters_new alg) of m \<Rightarrow>
     ac_p50_latency_ns m = foldl max 0 ls \<and> ac_p99_latency_ns m = foldl max 0 ls \<and>
     ac_p999_latency_ns m = foldl max 0 ls \<and> ac_current_qps m = of_nat (length ls)"
proof (induction ls rule: rev_induct)
  case Nil
  show ?case
    by (simp add: counters_new_def counters_default_def)
next
  case (snoc l ls)
  thus ?case
    by (simp add: record_latency_fields)
qed

text \<open>
  What the window counts, as a list of the seconds of the requests: the requests of the last second seen and
  those of the second before it that had any, however long ago.
\<close>

fun counts_of :: "u64 list \<Rightarrow> u64 \<Rightarrow> nat \<Rightarrow> nat \<Rightarrow> nat \<times> nat" where
  "counts_of [] s c l = (c, l)"
| "counts_of (t # ts) s c l = (if t = s then counts_of ts s (Suc c) l else counts_of ts t 1 c)"

lemma window_counts_from:
  assumes "sorted (sw_current_second w # ts)"
    and "sw_current_count w = of_nat c" and "sw_last_count w = of_nat l"
  shows "case fold (window_record True) ts w of w' \<Rightarrow>
    sw_current_count w' = of_nat (fst (counts_of ts (sw_current_second w) c l)) \<and>
    sw_last_count w' = of_nat (snd (counts_of ts (sw_current_second w) c l))"
  using assms
proof (induction ts arbitrary: w c l)
  case (Cons t ts)
  let ?w = "window_record True t w"
  have t: "sw_current_second w \<le> t" "sorted (t # ts)"
    using Cons.prems(1) by auto
  show ?case
  proof (cases "t = sw_current_second w")
    case True
    hence "sw_current_second ?w = t" "sw_current_count ?w = of_nat (Suc c)" "sw_last_count ?w = of_nat l"
      using Cons.prems by (simp_all add: window_record_def window_record_batch_def)
    with Cons.IH [of ?w "Suc c" l] t(2) True show ?thesis
      by simp
  next
    case False
    hence "sw_current_second ?w = t" "sw_current_count ?w = of_nat 1" "sw_last_count ?w = of_nat c"
      using Cons.prems t(1) by (simp_all add: window_record_def window_record_batch_def Let_def)
    with Cons.IH [of ?w 1 c] t(2) False show ?thesis
      by simp
  qed
qed simp

lemma window_counts:
  assumes "sorted (s # ts)"
  shows "window_get_qps (fold (window_record True) ts (second_window_new n s)) =
    (of_nat (fst (counts_of ts s 0 0)) * 7 + of_nat (snd (counts_of ts s 0 0)) * 3) div 10"
  using window_counts_from [of "second_window_new n s" ts 0 0] assms
  by (simp add: second_window_new_def window_get_qps_def)

text \<open>Reading the rate does not look at the clock: after an hour without a request it is what it was.\<close>

lemma idle_rate_stays:
  "window_get_qps (fold (window_record True) (replicate 10 100) (second_window_new 60 100)) = 7"
  "window_get_qps (window_record True 3700 (fold (window_record True) (replicate 10 100) (second_window_new 60 100))) = 3"
  by code_simp+

text \<open>A snapshot of a new algorithm appears once, and asking again finds the same counters.\<close>

lemma get_or_create_metrics_spec:
  assumes "get_or_create_metrics alg g = (m, g')"
  shows "map_of (gm_algorithms g') alg = Some m" "get_or_create_metrics alg g' = (m, g')"
    "b \<noteq> alg \<Longrightarrow> map_of (gm_algorithms g') b = map_of (gm_algorithms g) b"
    "distinct (map fst (gm_algorithms g)) \<Longrightarrow> distinct (map fst (gm_algorithms g'))"
  using assms
  using map_of_eq_None_iff [of "gm_algorithms g" alg]
  by (auto simp: get_or_create_metrics_def split: option.splits)

lemma connections_balanced: "decrement_connections (snd (increment_connections g)) = g"
  by (simp add: decrement_connections_def increment_connections_def)

end
