(* ===== verification/Db_Table.thy ===== *)
theory Db_Table
  imports Prelude "HOL-Library.Multiset"
begin

text \<open>
  A table of the database as the repositories of \<open>src/src/core/database/repository.rs\<close> use it through
  the ORM: single statements, each with the database's own error. The ORM and the database are not part
  of the repository, so \<open>table_ops\<close> is a parameter of every definition that uses it, and \<open>sql_table\<close>
  the interface: what a table with a primary key and unique columns documents. A statement that fails may
  or may not have taken effect. The last part is a concrete table, which meets the interface; faults are a
  list of what is to come, one per statement.
\<close>

record ('r, 'd) table_ops =
  t_find :: "('r \<Rightarrow> bool) \<Rightarrow> 'd \<Rightarrow> (string + 'r option) \<times> 'd"
  t_all :: "('r \<Rightarrow> bool) \<Rightarrow> nat option \<Rightarrow> nat option \<Rightarrow> 'd \<Rightarrow> (string + 'r list) \<times> 'd"
  t_count :: "('r \<Rightarrow> bool) \<Rightarrow> 'd \<Rightarrow> (string + nat) \<times> 'd"
  t_insert :: "'r \<Rightarrow> 'd \<Rightarrow> (string + 'r) \<times> 'd"
  t_update :: "('r \<Rightarrow> bool) \<Rightarrow> ('r \<Rightarrow> 'r) \<Rightarrow> 'd \<Rightarrow> (string + 'r) \<times> 'd"
  t_delete :: "('r \<Rightarrow> bool) \<Rightarrow> 'd \<Rightarrow> (string + nat) \<times> 'd"

text \<open>
  \<open>t_all p limit offset\<close> returns rows in no particular order. \<open>clash r r'\<close> is equality of the primary
  key or of a unique column.
\<close>

definition apply_where :: "('r \<Rightarrow> bool) \<Rightarrow> ('r \<Rightarrow> 'r) \<Rightarrow> 'r list \<Rightarrow> 'r list" where
  "apply_where p f rs = map (\<lambda>r. if p r then f r else r) rs"

definition limited :: "nat option \<Rightarrow> nat option \<Rightarrow> 'r list \<Rightarrow> 'r list" where
  "limited lim off rs =
     (let rs' = drop (case off of Some n \<Rightarrow> n | None \<Rightarrow> 0) rs
      in case lim of Some n \<Rightarrow> take n rs' | None \<Rightarrow> rs')"

locale sql_table =
  fixes db :: "('r, 'd) table_ops" and rows :: "'d \<Rightarrow> 'r list" and clash :: "'r \<Rightarrow> 'r \<Rightarrow> bool"
  assumes find_law: "t_find db p d = (found, d') \<Longrightarrow>
      rows d' = rows d \<and>
      (found = Inr None \<longrightarrow> (\<forall>r \<in> set (rows d). \<not> p r)) \<and>
      (\<forall>r. found = Inr (Some r) \<longrightarrow> r \<in> set (rows d) \<and> p r)"
    and all_law: "t_all db p lim off d = (listed, d') \<Longrightarrow>
      rows d' = rows d \<and>
      (\<forall>rs. listed = Inr rs \<longrightarrow> mset rs \<subseteq># mset (filter p (rows d)) \<and>
         (off \<in> {None, Some 0} \<longrightarrow>
            length rs = (case lim of Some n \<Rightarrow> min n (length (filter p (rows d)))
                         | None \<Rightarrow> length (filter p (rows d)))))"
    and count_law: "t_count db p d = (counted, d') \<Longrightarrow>
      rows d' = rows d \<and> (\<forall>n. counted = Inr n \<longrightarrow> n = length (filter p (rows d)))"
    and insert_law: "t_insert db r d = (inserted, d') \<Longrightarrow>
      rows d' \<in> {rows d, rows d @ [r]} \<and>
      (rows d' = rows d @ [r] \<longrightarrow> (\<forall>r' \<in> set (rows d). \<not> clash r r')) \<and>
      (\<forall>r'. inserted = Inr r' \<longrightarrow> r' = r \<and> rows d' = rows d @ [r])"
    and update_law: "t_update db p f d = (updated, d') \<Longrightarrow>
      rows d' \<in> {rows d, apply_where p f (rows d)} \<and>
      (\<forall>r'. updated = Inr r' \<longrightarrow>
         rows d' = apply_where p f (rows d) \<and> (\<exists>r \<in> set (rows d). p r \<and> r' = f r))"
    and delete_law: "t_delete db p d = (deleted, d') \<Longrightarrow>
      rows d' \<in> {rows d, filter (\<lambda>r. \<not> p r) (rows d)} \<and>
      (\<forall>n. deleted = Inr n \<longrightarrow>
         rows d' = filter (\<lambda>r. \<not> p r) (rows d) \<and> n = length (filter p (rows d)))"
begin

lemma find_one:
  "t_find db p d = (Inr x, d') \<Longrightarrow> filter p (rows d) = [r] \<Longrightarrow> x = Some r"
proof -
  assume f: "t_find db p d = (Inr x, d')" and r: "filter p (rows d) = [r]"
  have "r \<in> set (filter p (rows d))" by (simp add: r)
  moreover have "x \<noteq> Some r' \<or> r' = r" for r'
  proof (cases "x = Some r'")
    case True
    then have "r' \<in> set (filter p (rows d))" using find_law [OF f] by simp
    then show ?thesis by (simp add: r)
  qed simp
  ultimately show ?thesis using find_law [OF f] by (cases x) auto
qed

lemma all_complete:
  assumes "t_all db p (Some n) (Some 0) d = (Inr rs, d')" "length (rows d) \<le> n"
  shows "set rs = {r \<in> set (rows d). p r}"
proof -
  have "length (filter p (rows d)) \<le> n" using assms(2) length_filter_le le_trans by blast
  then have "length rs = length (filter p (rows d))" "mset rs \<subseteq># mset (filter p (rows d))"
    using all_law [OF assms(1)] by simp_all
  then have "mset rs = mset (filter p (rows d))"
    by (metis mset_subset_eq_exists_conv size_mset size_union add_cancel_left_right size_eq_0_iff_empty)
  then show ?thesis by (metis set_mset_mset set_filter)
qed

lemma find_none:
  "t_find db p d = (Inr x, d') \<Longrightarrow> \<forall>r \<in> set (rows d). \<not> p r \<Longrightarrow> x = None"
  using find_law [of p d "Inr x" d'] by (cases x) auto

end

text \<open>A statement other than a deletion leaves \<open>other\<close> as it is.\<close>

locale sql_frame =
  fixes db :: "('r, 'd) table_ops" and other :: "'d \<Rightarrow> 'x"
  assumes find_frame: "t_find db p d = (found, d') \<Longrightarrow> other d' = other d"
    and all_frame: "t_all db p lim off d = (listed, d') \<Longrightarrow> other d' = other d"
    and count_frame: "t_count db p d = (counted, d') \<Longrightarrow> other d' = other d"
    and insert_frame: "t_insert db r d = (inserted, d') \<Longrightarrow> other d' = other d"
    and update_frame: "t_update db p f d = (updated, d') \<Longrightarrow> other d' = other d"

lemma filter_apply_where_same:
  "(\<And>r. p r \<Longrightarrow> q (f r) = q r) \<Longrightarrow>
     filter q (apply_where p f rs) = apply_where p f (filter q rs)"
  by (induction rs) (auto simp: apply_where_def)

lemma filter_apply_where_other:
  "(\<And>r. r \<in> set rs \<Longrightarrow> p r \<Longrightarrow> \<not> q r \<and> \<not> q (f r)) \<Longrightarrow> filter q (apply_where p f rs) = filter q rs"
  by (induction rs) (auto simp: apply_where_def)

lemma set_apply_where: "set (apply_where p f rs) = (\<lambda>r. if p r then f r else r) ` set rs"
  by (simp add: apply_where_def)

section \<open>A concrete table\<close>

record 'r list_table =
  lt_rows :: "'r list"
  lt_faults :: "bool list"

definition lt_fails :: "'r list_table \<Rightarrow> bool" where
  "lt_fails t = (lt_faults t \<noteq> [] \<and> hd (lt_faults t))"

definition lt_statement ::
  "('r list_table \<Rightarrow> 'a) \<Rightarrow> ('r list \<Rightarrow> 'r list) \<Rightarrow> 'r list_table \<Rightarrow> (string + 'a) \<times> 'r list_table" where
  "lt_statement answer effect t =
     (if lt_fails t then (Inl ''connection lost'', t\<lparr>lt_faults := tl (lt_faults t)\<rparr>)
      else (Inr (answer t), \<lparr>lt_rows = effect (lt_rows t), lt_faults = tl (lt_faults t)\<rparr>))"

definition lt_ops :: "('r \<Rightarrow> 'r \<Rightarrow> bool) \<Rightarrow> ('r, 'r list_table) table_ops" where
  "lt_ops clash =
     \<lparr>t_find = (\<lambda>p. lt_statement (\<lambda>t. List.find p (lt_rows t)) id),
      t_all = (\<lambda>p lim off. lt_statement (\<lambda>t. limited lim off (filter p (lt_rows t))) id),
      t_count = (\<lambda>p. lt_statement (\<lambda>t. length (filter p (lt_rows t))) id),
      t_insert = (\<lambda>r t. if list_ex (clash r) (lt_rows t) then (Inl ''duplicate key'', t)
         else lt_statement (\<lambda>_. r) (\<lambda>rs. rs @ [r]) t),
      t_update = (\<lambda>p f t. case List.find p (lt_rows t) of
           None \<Rightarrow> (Inl ''no rows updated'', t)
         | Some r \<Rightarrow> lt_statement (\<lambda>_. f r) (apply_where p f) t),
      t_delete = (\<lambda>p. lt_statement (\<lambda>t. length (filter p (lt_rows t))) (filter (\<lambda>r. \<not> p r)))\<rparr>"

lemma lt_statement_rows:
  "lt_statement answer effect t = (x, t') \<Longrightarrow>
     (isl x \<and> lt_rows t' = lt_rows t) \<or> (x = Inr (answer t) \<and> lt_rows t' = effect (lt_rows t))"
  by (auto simp: lt_statement_def split: if_splits)

lemma mset_take_drop: "mset (take n xs) \<subseteq># mset xs" "mset (drop n xs) \<subseteq># mset xs"
  by (metis append_take_drop_id mset_append mset_subset_eq_add_left mset_subset_eq_add_right)+

lemma mset_limited: "mset (limited lim off rs) \<subseteq># mset rs"
  by (auto simp: limited_def Let_def mset_take_drop split: option.split
      intro: subset_mset.order_trans [OF mset_take_drop(1) mset_take_drop(2)])

lemma length_limited:
  "off \<in> {None, Some 0} \<Longrightarrow>
     length (limited lim off rs) = (case lim of Some n \<Rightarrow> min n (length rs) | None \<Rightarrow> length rs)"
  by (auto simp: limited_def min.commute split: option.split)

interpretation list_table: sql_table "lt_ops clash" lt_rows clash for clash
proof
  fix p and d d' :: "'a list_table" and x
  assume "t_find (lt_ops clash) p d = (x, d')"
  then have "lt_statement (\<lambda>t. List.find p (lt_rows t)) id d = (x, d')" by (simp add: lt_ops_def)
  from lt_statement_rows [OF this]
  show "lt_rows d' = lt_rows d \<and> (x = Inr None \<longrightarrow> (\<forall>r \<in> set (lt_rows d). \<not> p r)) \<and>
      (\<forall>r. x = Inr (Some r) \<longrightarrow> r \<in> set (lt_rows d) \<and> p r)"
    by (auto simp: find_None_iff find_Some_iff)
next
  fix p lim off and d d' :: "'a list_table" and x
  assume "t_all (lt_ops clash) p lim off d = (x, d')"
  then have "lt_statement (\<lambda>t. limited lim off (filter p (lt_rows t))) id d = (x, d')"
    by (simp add: lt_ops_def)
  from lt_statement_rows [OF this]
  show "lt_rows d' = lt_rows d \<and>
      (\<forall>rs. x = Inr rs \<longrightarrow> mset rs \<subseteq># mset (filter p (lt_rows d)) \<and>
         (off \<in> {None, Some 0} \<longrightarrow>
            length rs = (case lim of Some n \<Rightarrow> min n (length (filter p (lt_rows d)))
                         | None \<Rightarrow> length (filter p (lt_rows d)))))"
    using mset_limited [of lim off "filter p (lt_rows d)"] length_limited [of off lim] by auto
next
  fix p and d d' :: "'a list_table" and x
  assume "t_count (lt_ops clash) p d = (x, d')"
  then have "lt_statement (\<lambda>t. length (filter p (lt_rows t))) id d = (x, d')" by (simp add: lt_ops_def)
  from lt_statement_rows [OF this]
  show "lt_rows d' = lt_rows d \<and> (\<forall>n. x = Inr n \<longrightarrow> n = length (filter p (lt_rows d)))" by auto
next
  fix r and d d' :: "'a list_table" and x
  assume "t_insert (lt_ops clash) r d = (x, d')"
  then consider "x = Inl ''duplicate key''" "d' = d"
    | "\<forall>r' \<in> set (lt_rows d). \<not> clash r r'" "lt_statement (\<lambda>_. r) (\<lambda>rs. rs @ [r]) d = (x, d')"
    by (auto simp: lt_ops_def list_ex_iff split: if_splits)
  then show "lt_rows d' \<in> {lt_rows d, lt_rows d @ [r]} \<and>
      (lt_rows d' = lt_rows d @ [r] \<longrightarrow> (\<forall>r' \<in> set (lt_rows d). \<not> clash r r')) \<and>
      (\<forall>r'. x = Inr r' \<longrightarrow> r' = r \<and> lt_rows d' = lt_rows d @ [r])"
    by cases (auto dest!: lt_statement_rows)
next
  fix p f and d d' :: "'a list_table" and x
  assume "t_update (lt_ops clash) p f d = (x, d')"
  then consider "x = Inl ''no rows updated''" "d' = d"
    | r where "List.find p (lt_rows d) = Some r"
        "lt_statement (\<lambda>_. f r) (apply_where p f) d = (x, d')"
    by (auto simp: lt_ops_def split: option.splits)
  then show "lt_rows d' \<in> {lt_rows d, apply_where p f (lt_rows d)} \<and>
      (\<forall>r'. x = Inr r' \<longrightarrow> lt_rows d' = apply_where p f (lt_rows d) \<and>
         (\<exists>r \<in> set (lt_rows d). p r \<and> r' = f r))"
    by cases (auto dest!: lt_statement_rows simp: find_Some_iff)
next
  fix p and d d' :: "'a list_table" and x
  assume "t_delete (lt_ops clash) p d = (x, d')"
  then have "lt_statement (\<lambda>t. length (filter p (lt_rows t))) (filter (\<lambda>r. \<not> p r)) d = (x, d')"
    by (simp add: lt_ops_def)
  from lt_statement_rows [OF this]
  show "lt_rows d' \<in> {lt_rows d, filter (\<lambda>r. \<not> p r) (lt_rows d)} \<and>
      (\<forall>n. x = Inr n \<longrightarrow> lt_rows d' = filter (\<lambda>r. \<not> p r) (lt_rows d) \<and>
         n = length (filter p (lt_rows d)))"
    by auto
qed

section \<open>A table inside a larger database\<close>

text \<open>\<open>get\<close> and \<open>put\<close> select the table; \<open>cascade before after\<close> is what a deletion does elsewhere.\<close>

definition on_table ::
  "('d \<Rightarrow> 't) \<Rightarrow> ('t \<Rightarrow> 'd \<Rightarrow> 'd) \<Rightarrow> ('d \<Rightarrow> 'd \<Rightarrow> 'd) \<Rightarrow> ('r, 't) table_ops \<Rightarrow> ('r, 'd) table_ops" where
  "on_table get put cascade ops =
     \<lparr>t_find = (\<lambda>p d. case t_find ops p (get d) of (x, t) \<Rightarrow> (x, put t d)),
      t_all = (\<lambda>p lim off d. case t_all ops p lim off (get d) of (x, t) \<Rightarrow> (x, put t d)),
      t_count = (\<lambda>p d. case t_count ops p (get d) of (x, t) \<Rightarrow> (x, put t d)),
      t_insert = (\<lambda>r d. case t_insert ops r (get d) of (x, t) \<Rightarrow> (x, put t d)),
      t_update = (\<lambda>p f d. case t_update ops p f (get d) of (x, t) \<Rightarrow> (x, put t d)),
      t_delete = (\<lambda>p d. case t_delete ops p (get d) of (x, t) \<Rightarrow> (x, cascade d (put t d)))\<rparr>"

lemma sql_table_on:
  fixes get :: "'d \<Rightarrow> 't"
  assumes "sql_table ops rows clash" "\<And>t d. get (put t d) = t" "\<And>d d'. get (cascade d d') = get d'"
  shows "sql_table (on_table get put cascade ops) (\<lambda>d. rows (get d)) clash"
proof
  fix p and d d' :: 'd and x
  assume "t_find (on_table get put cascade ops) p d = (x, d')"
  then have "t_find ops p (get d) = (x, get d')" by (auto simp: on_table_def assms(2) split: prod.splits)
  from sql_table.find_law [OF assms(1) this]
  show "rows (get d') = rows (get d) \<and> (x = Inr None \<longrightarrow> (\<forall>r \<in> set (rows (get d)). \<not> p r)) \<and>
      (\<forall>r. x = Inr (Some r) \<longrightarrow> r \<in> set (rows (get d)) \<and> p r)" .
next
  fix p lim off and d d' :: 'd and x
  assume "t_all (on_table get put cascade ops) p lim off d = (x, d')"
  then have "t_all ops p lim off (get d) = (x, get d')" by (auto simp: on_table_def assms(2) split: prod.splits)
  from sql_table.all_law [OF assms(1) this]
  show "rows (get d') = rows (get d) \<and>
      (\<forall>rs. x = Inr rs \<longrightarrow> mset rs \<subseteq># mset (filter p (rows (get d))) \<and>
         (off \<in> {None, Some 0} \<longrightarrow>
            length rs = (case lim of Some n \<Rightarrow> min n (length (filter p (rows (get d))))
                         | None \<Rightarrow> length (filter p (rows (get d))))))" .
next
  fix p and d d' :: 'd and x
  assume "t_count (on_table get put cascade ops) p d = (x, d')"
  then have "t_count ops p (get d) = (x, get d')" by (auto simp: on_table_def assms(2) split: prod.splits)
  from sql_table.count_law [OF assms(1) this]
  show "rows (get d') = rows (get d) \<and> (\<forall>n. x = Inr n \<longrightarrow> n = length (filter p (rows (get d))))" .
next
  fix r and d d' :: 'd and x
  assume "t_insert (on_table get put cascade ops) r d = (x, d')"
  then have "t_insert ops r (get d) = (x, get d')" by (auto simp: on_table_def assms(2) split: prod.splits)
  from sql_table.insert_law [OF assms(1) this]
  show "rows (get d') \<in> {rows (get d), rows (get d) @ [r]} \<and>
      (rows (get d') = rows (get d) @ [r] \<longrightarrow> (\<forall>r' \<in> set (rows (get d)). \<not> clash r r')) \<and>
      (\<forall>r'. x = Inr r' \<longrightarrow> r' = r \<and> rows (get d') = rows (get d) @ [r])" .
next
  fix p f and d d' :: 'd and x
  assume "t_update (on_table get put cascade ops) p f d = (x, d')"
  then have "t_update ops p f (get d) = (x, get d')" by (auto simp: on_table_def assms(2) split: prod.splits)
  from sql_table.update_law [OF assms(1) this]
  show "rows (get d') \<in> {rows (get d), apply_where p f (rows (get d))} \<and>
      (\<forall>r'. x = Inr r' \<longrightarrow> rows (get d') = apply_where p f (rows (get d)) \<and>
         (\<exists>r \<in> set (rows (get d)). p r \<and> r' = f r))" .
next
  fix p and d d' :: 'd and x
  assume "t_delete (on_table get put cascade ops) p d = (x, d')"
  then have "t_delete ops p (get d) = (x, get d')" by (auto simp: on_table_def assms(2,3) split: prod.splits)
  from sql_table.delete_law [OF assms(1) this]
  show "rows (get d') \<in> {rows (get d), filter (\<lambda>r. \<not> p r) (rows (get d))} \<and>
      (\<forall>n. x = Inr n \<longrightarrow> rows (get d') = filter (\<lambda>r. \<not> p r) (rows (get d)) \<and>
         n = length (filter p (rows (get d))))" .
qed

lemma sql_frame_on: "(\<And>t d. other (put t d) = other d) \<Longrightarrow> sql_frame (on_table get put cascade ops) other"
  by unfold_locales (auto simp: on_table_def split: prod.splits)

lemma on_table_delete:
  "t_delete (on_table get put cascade ops) p d = (x, d') \<Longrightarrow> \<exists>t. d' = cascade d (put t d)"
  by (auto simp: on_table_def split: prod.splits)

end
