(* ===== verification/Api_Keys.thy ===== *)
theory Api_Keys
  imports Db_Table Types_Id
begin

text \<open>
  API keys: the entity of \<open>src/src/core/database/api_key_entity.rs\<close>, the \<open>ApiKeyRepository\<close> of
  \<open>repository.rs\<close>, the handlers of \<open>src/src/server/handlers/api_key_handlers.rs\<close> and the background
  rotation of \<open>system_handlers.rs\<close>.

  Parameters: the table (\<open>Db_Table\<close>), the hash functions of the \<open>argon2\<close> crate (\<open>argon2_ok\<close> states
  that a hash verifies its own password and no other), \<open>disp\<close> for the text of a UUID, \<open>etext\<close> for the
  text of an error, \<open>t key args\<close> for a translated text, \<open>rfc\<close> and \<open>parse_rfc\<close> for time stamps. What the
  code draws at random (UUIDs, the salt, the letters of a secret) is an input. A time is its number of
  microseconds.
\<close>

section \<open>The entity\<close>

datatype api_key_role = Admin | User | Anonymous

fun role_text :: "api_key_role \<Rightarrow> string" where
  "role_text Admin = ''admin''"
| "role_text User = ''user''"
| "role_text Anonymous = ''anonymous''"

definition role_of_text :: "string \<Rightarrow> api_key_role" where
  "role_of_text s = (if s = ''admin'' then Admin else User)"

record api_key_row =
  k_id :: u128
  k_key_id :: string
  k_secret_hash :: string
  k_prefix :: string
  k_role :: string
  k_workspace :: "u128 option"
  k_name :: string
  k_description :: "string option"
  k_rate_limit :: int
  k_enabled :: bool
  k_expires_at :: "int option"
  k_last_used :: "int option"
  k_created_at :: int
  k_updated_at :: int

record api_key =
  ak_id :: u128
  ak_key_id :: string
  ak_prefix :: string
  ak_role :: api_key_role
  ak_workspace :: "u128 option"
  ak_name :: string
  ak_description :: "string option"
  ak_rate_limit :: int
  ak_enabled :: bool
  ak_expires_at :: "int option"
  ak_last_used :: "int option"
  ak_created_at :: int

definition api_key_of :: "api_key_row \<Rightarrow> api_key" where
  "api_key_of m =
     \<lparr>ak_id = k_id m, ak_key_id = k_key_id m, ak_prefix = k_prefix m, ak_role = role_of_text (k_role m),
      ak_workspace = k_workspace m, ak_name = k_name m, ak_description = k_description m,
      ak_rate_limit = k_rate_limit m, ak_enabled = k_enabled m, ak_expires_at = k_expires_at m,
      ak_last_used = k_last_used m, ak_created_at = k_created_at m\<rparr>"

record create_key_request =
  cr_workspace :: "u128 option"
  cr_name :: string
  cr_description :: "string option"
  cr_role :: api_key_role
  cr_rate_limit :: "int option"
  cr_expires_at :: "int option"
  cr_secret :: "string option"
  cr_key_id :: "string option"

record api_key_response =
  rs_id :: u128
  rs_key_id :: string
  rs_prefix :: string
  rs_name :: string
  rs_description :: "string option"
  rs_role :: api_key_role
  rs_rate_limit :: int
  rs_enabled :: bool
  rs_expires_at :: "int option"
  rs_created_at :: int

record api_key_with_secret =
  ws_key :: api_key_response
  ws_secret :: string

definition response_of :: "api_key_row \<Rightarrow> int option \<Rightarrow> api_key_response" where
  "response_of m expires =
     \<lparr>rs_id = k_id m, rs_key_id = k_key_id m, rs_prefix = k_prefix m, rs_name = k_name m,
      rs_description = k_description m, rs_role = role_of_text (k_role m),
      rs_rate_limit = k_rate_limit m, rs_enabled = k_enabled m, rs_expires_at = expires,
      rs_created_at = k_created_at m\<rparr>"

section \<open>Hashing\<close>

record argon2 =
  a_hash :: "string \<Rightarrow> string \<Rightarrow> string + string"
  a_verify :: "string \<Rightarrow> string \<Rightarrow> bool"

definition argon2_ok :: "argon2 \<Rightarrow> bool" where
  "argon2_ok a \<longleftrightarrow>
     (\<forall>password salt h password'. a_hash a password salt = Inr h \<longrightarrow>
        (a_verify a password' h \<longleftrightarrow> password' = password))"

definition key_password :: "string \<Rightarrow> string \<Rightarrow> string \<Rightarrow> string" where
  "key_password pepper key_id secret = pepper @ ''|'' @ key_id @ '':'' @ secret"

definition hash_key :: "argon2 \<Rightarrow> string \<Rightarrow> string \<Rightarrow> string \<Rightarrow> string \<Rightarrow> string res" where
  "hash_key a pepper salt key_id secret =
     (case a_hash a (key_password pepper key_id secret) salt of
        Inl e \<Rightarrow> Inl (InternalError (''argon2 hash failed: '' @ e))
      | Inr h \<Rightarrow> Inr h)"

definition verify_key :: "argon2 \<Rightarrow> string \<Rightarrow> string \<Rightarrow> string \<Rightarrow> string \<Rightarrow> bool" where
  "verify_key a pepper key_id secret stored = a_verify a (key_password pepper key_id secret) stored"

definition secret_charset :: string where
  "secret_charset = ''ABCDEFGHIJKLMNOPQRSTUVWXYZabcdefghijklmnopqrstuvwxyz0123456789_-''"

definition generate_secret :: "nat list \<Rightarrow> string" where
  "generate_secret draws = map (\<lambda>i. secret_charset ! i) draws"

record key_draws =
  dr_key_uuid :: u128
  dr_secret :: "nat list"
  dr_salt :: string
  dr_id :: u128

text \<open>What the random sources promise: 32 indices into the character set.\<close>

definition draws_ok :: "key_draws \<Rightarrow> bool" where
  "draws_ok dr \<longleftrightarrow> length (dr_secret dr) = 32 \<and> (\<forall>i \<in> set (dr_secret dr). i < length secret_charset)"

section \<open>The repository\<close>

definition db_error :: "string + 'a \<Rightarrow> 'a res" where
  "db_error r = map_sum DatabaseError id r"

definition key_prefix_of :: "api_key_role \<Rightarrow> string res" where
  "key_prefix_of role =
     (case role of
        Admin \<Rightarrow> Inr ''niad_''
      | User \<Rightarrow> Inr ''nino_''
      | Anonymous \<Rightarrow> Inl (InvalidInput ''Anonymous role cannot be persisted to database''))"

definition full_key_id :: "(u128 \<Rightarrow> string) \<Rightarrow> string \<Rightarrow> u128 \<Rightarrow> string option \<Rightarrow> string" where
  "full_key_id disp prefix uuid key_id =
     (case key_id of
        Some kid \<Rightarrow> if take (length prefix) kid = prefix then kid else prefix @ kid
      | None \<Rightarrow> prefix @ disp uuid)"

definition create_api_key ::
  "argon2 \<Rightarrow> (u128 \<Rightarrow> string) \<Rightarrow> string \<Rightarrow> int \<Rightarrow> key_draws \<Rightarrow> (api_key_row, 'd) table_ops \<Rightarrow>
   create_key_request \<Rightarrow> 'd \<Rightarrow> api_key_with_secret res \<times> 'd" where
  "create_api_key a disp pepper now dr db req d =
     (if (case cr_secret req of Some s \<Rightarrow> length s < 8 \<or> 128 < length s | None \<Rightarrow> False)
      then (Inl (InvalidInput ''key_secret must be between 8 and 128 characters''), d)
      else
        case key_prefix_of (cr_role req) of
          Inl e \<Rightarrow> (Inl e, d)
        | Inr prefix \<Rightarrow>
            (let kid = full_key_id disp prefix (dr_key_uuid dr) (cr_key_id req);
                 secret = (case cr_secret req of Some s \<Rightarrow> s | None \<Rightarrow> generate_secret (dr_secret dr))
             in case hash_key a pepper (dr_salt dr) kid secret of
                  Inl e \<Rightarrow> (Inl e, d)
                | Inr h \<Rightarrow>
                    (let expires = (case cr_expires_at req of
                           Some e \<Rightarrow> Some e | None \<Rightarrow> Some (now + 30 * 86400 * 1000000));
                         row = \<lparr>k_id = dr_id dr, k_key_id = kid, k_secret_hash = h, k_prefix = prefix,
                           k_role = role_text (cr_role req), k_workspace = cr_workspace req,
                           k_name = cr_name req, k_description = cr_description req,
                           k_rate_limit = (case cr_rate_limit req of Some n \<Rightarrow> n | None \<Rightarrow> 10000),
                           k_enabled = True, k_expires_at = expires, k_last_used = None,
                           k_created_at = now, k_updated_at = now\<rparr>
                     in case t_insert db row d of
                          (Inl e, d') \<Rightarrow> (Inl (DatabaseError e), d')
                        | (Inr m, d') \<Rightarrow>
                            (Inr \<lparr>ws_key = response_of m (k_expires_at m), ws_secret = secret\<rparr>, d'))))"

definition get_api_key_by_id ::
  "(api_key_row, 'd) table_ops \<Rightarrow> string \<Rightarrow> 'd \<Rightarrow> api_key option res \<times> 'd" where
  "get_api_key_by_id db key_id d =
     (case t_find db (\<lambda>m. k_key_id m = key_id) d of
        (x, d') \<Rightarrow> (map_sum id (map_option api_key_of) (db_error x), d'))"

definition update_last_used ::
  "int \<Rightarrow> (api_key_row, 'd) table_ops \<Rightarrow> u128 \<Rightarrow> 'd \<Rightarrow> unit res \<times> 'd" where
  "update_last_used now db i d =
     (case t_find db (\<lambda>m. k_id m = i) d of
        (Inl e, d') \<Rightarrow> (Inl (DatabaseError e), d')
      | (Inr None, d') \<Rightarrow> (Inr (), d')
      | (Inr (Some model), d') \<Rightarrow>
          (case t_update db (\<lambda>m. k_id m = k_id model)
                  (\<lambda>m. m\<lparr>k_last_used := Some now, k_updated_at := now\<rparr>) d' of
             (x, d'') \<Rightarrow> (map_sum id (\<lambda>_. ()) (db_error x), d'')))"

definition validate_api_key ::
  "argon2 \<Rightarrow> string \<Rightarrow> int \<Rightarrow> (api_key_row, 'd) table_ops \<Rightarrow> string \<Rightarrow> string \<Rightarrow> 'd \<Rightarrow>
   (u128 option \<times> api_key_role) option res \<times> 'd" where
  "validate_api_key a pepper now db key_id secret d =
     (case t_find db (\<lambda>m. k_key_id m = key_id) d of
        (Inl e, d') \<Rightarrow> (Inl (DatabaseError e), d')
      | (Inr None, d') \<Rightarrow> (Inr None, d')
      | (Inr (Some model), d') \<Rightarrow>
          if \<not> k_enabled model then (Inr None, d')
          else if (case k_expires_at model of Some e \<Rightarrow> e < now | None \<Rightarrow> False) then (Inr None, d')
          else if verify_key a pepper key_id secret (k_secret_hash model)
          then (Inr (Some (k_workspace model, role_of_text (k_role model))),
                snd (update_last_used now db (k_id model) d'))
          else (Inr None, d'))"

definition list_api_keys ::
  "(api_key_row, 'd) table_ops \<Rightarrow> u128 \<Rightarrow> nat option \<Rightarrow> nat option \<Rightarrow> 'd \<Rightarrow> api_key list res \<times> 'd" where
  "list_api_keys db ws lim off d =
     (case t_all db (\<lambda>m. k_workspace m = Some ws) lim off d of
        (x, d') \<Rightarrow> (map_sum id (map api_key_of) (db_error x), d'))"

definition key_missing :: "string \<Rightarrow> core_error" where
  "key_missing what = NotFound (''API key not found: '' @ what)"

definition delete_api_key ::
  "(u128 \<Rightarrow> string) \<Rightarrow> (api_key_row, 'd) table_ops \<Rightarrow> u128 \<Rightarrow> 'd \<Rightarrow> unit res \<times> 'd" where
  "delete_api_key disp db i d =
     (case t_delete db (\<lambda>m. k_id m = i) d of
        (Inl e, d') \<Rightarrow> (Inl (DatabaseError e), d')
      | (Inr n, d') \<Rightarrow> (if n = 0 then Inl (key_missing (disp i)) else Inr (), d'))"

definition revoke_api_key ::
  "(u128 \<Rightarrow> string) \<Rightarrow> int \<Rightarrow> (api_key_row, 'd) table_ops \<Rightarrow> u128 \<Rightarrow> 'd \<Rightarrow> unit res \<times> 'd" where
  "revoke_api_key disp now db i d =
     (case t_find db (\<lambda>m. k_id m = i) d of
        (Inl e, d') \<Rightarrow> (Inl (DatabaseError e), d')
      | (Inr None, d') \<Rightarrow> (Inl (key_missing (disp i)), d')
      | (Inr (Some model), d') \<Rightarrow>
          (case t_update db (\<lambda>m. k_id m = k_id model)
                  (\<lambda>m. m\<lparr>k_enabled := False, k_updated_at := now\<rparr>) d' of
             (x, d'') \<Rightarrow> (map_sum id (\<lambda>_. ()) (db_error x), d'')))"

definition get_admin_api_key ::
  "(api_key_row, 'd) table_ops \<Rightarrow> u128 \<Rightarrow> 'd \<Rightarrow> api_key option res \<times> 'd" where
  "get_admin_api_key db ws d =
     (case t_find db (\<lambda>m. k_role m = role_text Admin \<and> k_prefix m = ''niad_'') d of
        (Inl e, d') \<Rightarrow> (Inl (DatabaseError e), d')
      | (Inr None, d') \<Rightarrow> (Inr None, d')
      | (Inr (Some m), d') \<Rightarrow> (Inr (if k_enabled m then Some (api_key_of m) else None), d'))"

definition count_api_keys :: "(api_key_row, 'd) table_ops \<Rightarrow> u128 \<Rightarrow> 'd \<Rightarrow> nat res \<times> 'd" where
  "count_api_keys db ws d =
     (case t_count db (\<lambda>m. k_workspace m = Some ws) d of (x, d') \<Rightarrow> (db_error x, d'))"

definition rotate_api_key ::
  "argon2 \<Rightarrow> string \<Rightarrow> int \<Rightarrow> key_draws \<Rightarrow> (api_key_row, 'd) table_ops \<Rightarrow> string \<Rightarrow> u64 \<Rightarrow> 'd \<Rightarrow>
   api_key_with_secret res \<times> 'd" where
  "rotate_api_key a pepper now dr db key_id grace_period_seconds d =
     (case get_api_key_by_id db key_id d of
        (Inl e, d1) \<Rightarrow> (Inl e, d1)
      | (Inr None, d1) \<Rightarrow> (Inl (key_missing key_id), d1)
      | (Inr (Some key), d1) \<Rightarrow>
          (let secret = generate_secret (dr_secret dr) in
           case hash_key a pepper (dr_salt dr) (ak_key_id key) secret of
             Inl e \<Rightarrow> (Inl e, d1)
           | Inr h \<Rightarrow>
               (case t_update db (\<lambda>m. k_id m = ak_id key)
                       (\<lambda>m. m\<lparr>k_secret_hash := h, k_updated_at := now\<rparr>) d1 of
                  (Inl e, d2) \<Rightarrow> (Inl (DatabaseError e), d2)
                | (Inr m, d2) \<Rightarrow>
                    (Inr \<lparr>ws_key = response_of m (ak_expires_at key), ws_secret = secret\<rparr>, d2))))"

definition get_keys_older_than ::
  "int \<Rightarrow> (api_key_row, 'd) table_ops \<Rightarrow> int \<Rightarrow> 'd \<Rightarrow> api_key list res \<times> 'd" where
  "get_keys_older_than now db days d =
     (case t_all db (\<lambda>m. k_created_at m < now - days * 86400 * 1000000 \<and> k_enabled m) None None d of
        (x, d') \<Rightarrow> (map_sum id (map api_key_of) (db_error x), d'))"


section \<open>What validation answers\<close>

text \<open>
  The table as a map from key ids: validation answers from the one row of the key, and of the tables it
  leaves behind only the time of the last use differs.
\<close>

definition key_clash :: "api_key_row \<Rightarrow> api_key_row \<Rightarrow> bool" where
  "key_clash r r' \<longleftrightarrow> k_id r = k_id r' \<or> k_key_id r = k_key_id r'"

definition keys_ok :: "api_key_row list \<Rightarrow> bool" where
  "keys_ok rs \<longleftrightarrow> distinct (map k_id rs) \<and> distinct (map k_key_id rs)"

definition expired :: "int \<Rightarrow> api_key_row \<Rightarrow> bool" where
  "expired now m \<longleftrightarrow> (case k_expires_at m of Some e \<Rightarrow> e < now | None \<Rightarrow> False)"

definition row_grants ::
  "argon2 \<Rightarrow> string \<Rightarrow> int \<Rightarrow> string \<Rightarrow> api_key_row \<Rightarrow> (u128 option \<times> api_key_role) option" where
  "row_grants a pepper now secret m =
     (if k_enabled m \<and> \<not> expired now m \<and> verify_key a pepper (k_key_id m) secret (k_secret_hash m)
      then Some (k_workspace m, role_of_text (k_role m)) else None)"

definition grants ::
  "argon2 \<Rightarrow> string \<Rightarrow> int \<Rightarrow> string \<Rightarrow> string \<Rightarrow> api_key_row list \<Rightarrow> (u128 option \<times> api_key_role) option"
where
  "grants a pepper now key_id secret rs =
     (case filter (\<lambda>m. k_key_id m = key_id) rs of
        [] \<Rightarrow> None
      | m # _ \<Rightarrow> row_grants a pepper now secret m)"

lemma role_of_role_text: "role \<noteq> Anonymous \<Longrightarrow> role_of_text (role_text role) = role"
  by (cases role) (simp_all add: role_of_text_def)

lemma role_of_text_eq_Admin: "role_of_text x = Admin \<longleftrightarrow> x = ''admin''"
  by (simp add: role_of_text_def)

lemma verify_hash_key:
  "argon2_ok a \<Longrightarrow> hash_key a pepper salt key_id secret = Inr h \<Longrightarrow>
     verify_key a pepper key_id secret' h \<longleftrightarrow> secret' = secret"
  by (auto simp: argon2_ok_def hash_key_def verify_key_def key_password_def split: sum.splits)

lemma filter_key_id:
  assumes "keys_ok rs" "m \<in> set rs"
  shows "filter (\<lambda>x. k_key_id x = k_key_id m) rs = [m]" "filter (\<lambda>x. k_id x = k_id m) rs = [m]"
proof -
  have "filter (\<lambda>x. f x = f m) rs = [m]" if "distinct (map f rs)" for f :: "api_key_row \<Rightarrow> 'a"
    using that assms(2)
  proof (induction rs)
    case (Cons r rs)
    then show ?case
      by (cases "m = r") (auto simp: filter_empty_conv, (metis imageI)+)
  qed simp
  with assms(1) show "filter (\<lambda>x. k_key_id x = k_key_id m) rs = [m]"
    "filter (\<lambda>x. k_id x = k_id m) rs = [m]"
    by (auto simp: keys_ok_def)
qed

lemma key_row_unique: "keys_ok rs \<Longrightarrow> m \<in> set rs \<Longrightarrow> x \<in> set rs \<Longrightarrow> k_id x = k_id m \<Longrightarrow> x = m"
proof -
  assume "keys_ok rs" "m \<in> set rs" and x: "x \<in> set rs" "k_id x = k_id m"
  from filter_key_id(2) [OF this(1,2)] have "set (filter (\<lambda>y. k_id y = k_id m) rs) = {m}" by simp
  with x show ?thesis by auto
qed

lemma keys_ok_snoc:
  "keys_ok rs \<Longrightarrow> \<forall>m' \<in> set rs. \<not> key_clash m m' \<Longrightarrow> keys_ok (rs @ [m])"
  by (auto simp: keys_ok_def key_clash_def)

lemma keys_ok_apply:
  "(\<And>m. k_id (f m) = k_id m \<and> k_key_id (f m) = k_key_id m) \<Longrightarrow>
     keys_ok (apply_where p f rs) \<longleftrightarrow> keys_ok rs"
proof -
  assume f: "\<And>m. k_id (f m) = k_id m \<and> k_key_id (f m) = k_key_id m"
  have "map k_id (apply_where p f rs) = map k_id rs" "map k_key_id (apply_where p f rs) = map k_key_id rs"
    by (auto simp: apply_where_def f)
  then show ?thesis by (simp add: keys_ok_def)
qed

lemma keys_ok_filter: "keys_ok rs \<Longrightarrow> keys_ok (filter p rs)"
  by (simp add: keys_ok_def distinct_map_filter)

text \<open>A change of other columns leaves what a row grants.\<close>

lemma grants_apply:
  assumes "\<And>m. k_key_id (f m) = k_key_id m"
    and "\<And>m. k_key_id m = key_id \<Longrightarrow> p m \<Longrightarrow> row_grants a pepper now secret (f m) = row_grants a pepper now secret m"
  shows "grants a pepper now key_id secret (apply_where p f rs) = grants a pepper now key_id secret rs"
proof -
  have "filter (\<lambda>m. k_key_id m = key_id) (apply_where p f rs) =
      apply_where p f (filter (\<lambda>m. k_key_id m = key_id) rs)"
    by (rule filter_apply_where_same) (simp add: assms(1))
  moreover have "k_key_id m = key_id" if "filter (\<lambda>m. k_key_id m = key_id) rs = m # ms" for m ms
  proof -
    have "m \<in> set (filter (\<lambda>m. k_key_id m = key_id) rs)" unfolding that by simp
    then show ?thesis by simp
  qed
  ultimately show ?thesis
    using assms(2) by (cases "filter (\<lambda>m. k_key_id m = key_id) rs") (auto simp: grants_def apply_where_def)
qed

lemma grants_row: "keys_ok rs \<Longrightarrow> m \<in> set rs \<Longrightarrow>
    grants a pepper now (k_key_id m) secret rs = row_grants a pepper now secret m"
  by (simp add: grants_def filter_key_id)

lemma grants_none: "\<forall>m \<in> set rs. k_key_id m \<noteq> key_id \<Longrightarrow> grants a pepper now key_id secret rs = None"
  by (simp add: grants_def filter_empty_conv [THEN iffD2])

lemma grants_some:
  "grants a pepper now key_id secret rs = Some w \<Longrightarrow>
     \<exists>m \<in> set rs. k_key_id m = key_id \<and> row_grants a pepper now secret m = Some w"
proof -
  assume g: "grants a pepper now key_id secret rs = Some w"
  then obtain m ms where "filter (\<lambda>m. k_key_id m = key_id) rs = m # ms"
    by (cases "filter (\<lambda>m. k_key_id m = key_id) rs") (auto simp: grants_def)
  moreover from this have "m \<in> set (filter (\<lambda>m. k_key_id m = key_id) rs)" by simp
  then have "m \<in> set rs" "k_key_id m = key_id" by simp_all
  ultimately show ?thesis using g by (auto simp: grants_def)
qed

text \<open>Well-formed rows: unique keys, and a key id that carries the prefix of its role.\<close>

definition row_wf :: "api_key_row \<Rightarrow> bool" where
  "row_wf m \<longleftrightarrow> (\<exists>role. key_prefix_of role = Inr (k_prefix m) \<and> k_role m = role_text role \<and>
     take (length (k_prefix m)) (k_key_id m) = k_prefix m)"

definition keys_wf :: "api_key_row list \<Rightarrow> bool" where
  "keys_wf rs \<longleftrightarrow> keys_ok rs \<and> (\<forall>m \<in> set rs. row_wf m)"

lemma key_prefix_cases:
  "key_prefix_of role = Inr p \<longleftrightarrow> role = Admin \<and> p = ''niad_'' \<or> role = User \<and> p = ''nino_''"
  by (cases role) (auto simp: key_prefix_of_def)

lemma full_key_id_prefix: "take (length p) (full_key_id disp p u kid) = p"
  by (auto simp: full_key_id_def split: option.split)

text \<open>A generated key id: the prefix and a UUID, 41 characters.\<close>

lemma generated_key_id_length:
  "key_prefix_of role = Inr p \<Longrightarrow> length (disp u) = 36 \<Longrightarrow> length (full_key_id disp p u None) = 41"
  by (auto simp: key_prefix_cases full_key_id_def)

lemma keys_wf_apply:
  "(\<And>m. k_id (f m) = k_id m \<and> k_key_id (f m) = k_key_id m \<and> k_prefix (f m) = k_prefix m \<and>
      k_role (f m) = k_role m) \<Longrightarrow> keys_wf rs \<Longrightarrow> keys_wf (apply_where p f rs)"
  by (auto simp: keys_wf_def keys_ok_apply set_apply_where row_wf_def)

lemma keys_wf_filter: "keys_wf rs \<Longrightarrow> keys_wf (filter p rs)"
  by (auto simp: keys_wf_def keys_ok_filter)

locale key_store = sql_table db rows key_clash
  for db :: "(api_key_row, 'd) table_ops" and rows :: "'d \<Rightarrow> api_key_row list"
begin

lemma update_last_used_rows:
  assumes "update_last_used now db i d = (x, d')"
  shows "\<exists>p. rows d' = apply_where p (\<lambda>m. m\<lparr>k_last_used := Some now, k_updated_at := now\<rparr>) (rows d)"
proof -
  let ?f = "\<lambda>m. m\<lparr>k_last_used := Some now, k_updated_at := now\<rparr>"
  have id: "rs = apply_where (\<lambda>_. False) ?f rs" for rs by (simp add: apply_where_def)
  obtain y d1 where f: "t_find db (\<lambda>m. k_id m = i) d = (y, d1)" by (cases "t_find db (\<lambda>m. k_id m = i) d")
  have same: "rows d1 = rows d" using find_law [OF f] by simp
  show ?thesis
  proof (cases "\<exists>model. y = Inr (Some model)")
    case True
    then obtain model where y: "y = Inr (Some model)" by blast
    obtain z where u: "t_update db (\<lambda>m. k_id m = k_id model) ?f d1 = (z, d')"
      using assms f y by (auto simp: update_last_used_def split: prod.splits)
    from update_law [OF u] same
    have "rows d' = rows d \<or> rows d' = apply_where (\<lambda>m. k_id m = k_id model) ?f (rows d)" by auto
    with id show ?thesis by metis
  next
    case False
    then have "d' = d1" using assms f by (auto simp: update_last_used_def split: sum.splits option.splits)
    then show ?thesis using same id by metis
  qed
qed

lemma validate_grants:
  assumes "keys_ok (rows d)" "validate_api_key a pepper now db key_id secret d = (Inr v, d')"
  shows "v = grants a pepper now key_id secret (rows d)"
    and "\<exists>p. rows d' = apply_where p (\<lambda>m. m\<lparr>k_last_used := Some now, k_updated_at := now\<rparr>) (rows d)"
proof -
  let ?p = "\<lambda>m. k_key_id m = key_id"
  have id: "rs = apply_where (\<lambda>_. False) (\<lambda>m. m\<lparr>k_last_used := Some now, k_updated_at := now\<rparr>) rs" for rs
    by (simp add: apply_where_def)
  obtain y d1 where f: "t_find db ?p d = (y, d1)" by (cases "t_find db ?p d")
  have same: "rows d1 = rows d" using find_law [OF f] by simp
  obtain w where y: "y = Inr w" using assms(2) f by (cases y) (auto simp: validate_api_key_def)
  show "v = grants a pepper now key_id secret (rows d)"
  proof (cases w)
    case None
    then show ?thesis
      using find_law [OF f] assms(2) f y by (simp add: validate_api_key_def grants_none)
  next
    case (Some m)
    then have "m \<in> set (rows d)" "k_key_id m = key_id" using find_law [OF f] y by auto
    with assms f y Some show ?thesis
      by (auto simp: validate_api_key_def grants_row row_grants_def expired_def split: if_splits)
  qed
  show "\<exists>p. rows d' = apply_where p (\<lambda>m. m\<lparr>k_last_used := Some now, k_updated_at := now\<rparr>) (rows d)"
  proof (cases "d' = d1")
    case True
    then show ?thesis using same id by metis
  next
    case False
    then obtain m where m: "w = Some m"
      using assms(2) f y by (cases w) (auto simp: validate_api_key_def)
    then have "d' = snd (update_last_used now db (k_id m) d1)"
      using assms(2) f y False by (auto simp: validate_api_key_def split: if_splits)
    then show ?thesis
      using update_last_used_rows [of now "k_id m" d1 _ d'] same by (metis prod.collapse)
  qed
qed

lemma create_effect:
  assumes "create_api_key a disp pepper now dr db req d = (x, d')"
  obtains "rows d' = rows d" "isl x"
  | m h where "rows d' = rows d @ [m]" "\<forall>m' \<in> set (rows d). \<not> key_clash m m'" "row_wf m"
      "\<And>r. x = Inr r \<Longrightarrow> hash_key a pepper (dr_salt dr) (k_key_id m) (ws_secret r) = Inr h \<and>
         ws_key r = response_of m (k_expires_at m)"
      "k_secret_hash m = h" "k_enabled m" "k_workspace m = cr_workspace req"
      "k_role m = role_text (cr_role req)" "cr_role req \<noteq> Anonymous"
proof -
  define secret where
    "secret = (case cr_secret req of Some s \<Rightarrow> s | None \<Rightarrow> generate_secret (dr_secret dr))"
  consider "d' = d" "isl x"
    | prefix h where "key_prefix_of (cr_role req) = Inr prefix"
        "hash_key a pepper (dr_salt dr) (full_key_id disp prefix (dr_key_uuid dr) (cr_key_id req)) secret = Inr h"
        "\<not> (case cr_secret req of Some s \<Rightarrow> length s < 8 \<or> 128 < length s | None \<Rightarrow> False)"
    using assms
    by (cases "key_prefix_of (cr_role req)")
      (auto simp: create_api_key_def secret_def [symmetric] Let_def split: if_splits sum.splits)
  then show thesis
  proof cases
    case (2 prefix h)
    define kid where "kid = full_key_id disp prefix (dr_key_uuid dr) (cr_key_id req)"
    define m where "m = \<lparr>k_id = dr_id dr, k_key_id = kid, k_secret_hash = h, k_prefix = prefix,
        k_role = role_text (cr_role req), k_workspace = cr_workspace req,
        k_name = cr_name req, k_description = cr_description req,
        k_rate_limit = (case cr_rate_limit req of Some n \<Rightarrow> n | None \<Rightarrow> 10000),
        k_enabled = True,
        k_expires_at = (case cr_expires_at req of
           Some e \<Rightarrow> Some e | None \<Rightarrow> Some (now + 30 * 86400 * 1000000)),
        k_last_used = None, k_created_at = now, k_updated_at = now\<rparr>"
    obtain y where i: "t_insert db m d = (y, d')" and
      x: "x = map_sum DatabaseError (\<lambda>m'. \<lparr>ws_key = response_of m' (k_expires_at m'), ws_secret = secret\<rparr>) y"
      using assms 2
      by (auto simp: create_api_key_def kid_def [symmetric] secret_def [symmetric] m_def Let_def
          split: if_splits prod.splits sum.splits)
    have wf: "row_wf m"
      using 2(1) full_key_id_prefix [of prefix disp "dr_key_uuid dr" "cr_key_id req"]
      unfolding row_wf_def by (intro exI [of _ "cr_role req"]) (simp add: m_def kid_def)
    have role: "cr_role req \<noteq> Anonymous" using 2(1) by (auto simp: key_prefix_cases)
    show thesis
    proof (cases "rows d' = rows d @ [m]")
      case True
      with insert_law [OF i] have clash: "\<forall>m' \<in> set (rows d). \<not> key_clash m m'" by blast
      have r: "hash_key a pepper (dr_salt dr) (k_key_id m) (ws_secret r) = Inr h \<and>
          ws_key r = response_of m (k_expires_at m)" if "x = Inr r" for r
        using that x insert_law [OF i] 2(2) by (cases y) (auto simp: m_def kid_def)
      show thesis
        by (rule that(2) [OF True clash wf r]) (simp_all add: m_def role)
    next
      case False
      with insert_law [OF i] have "rows d' = rows d" "isl x" by (cases y; simp add: x)+
      then show thesis by (rule that(1))
    qed
  qed (auto intro: that(1))
qed

lemma create_row:
  assumes "create_api_key a disp pepper now dr db req d = (Inr r, d')"
  obtains m h where "rows d' = rows d @ [m]" "\<forall>m' \<in> set (rows d). \<not> key_clash m m'"
    "hash_key a pepper (dr_salt dr) (k_key_id m) (ws_secret r) = Inr h" "k_secret_hash m = h"
    "k_enabled m" "k_workspace m = cr_workspace req" "k_role m = role_text (cr_role req)"
    "ws_key r = response_of m (k_expires_at m)" "cr_role req \<noteq> Anonymous"
  by (rule create_effect [OF assms]) (use that in auto)

lemma revoke_rows:
  assumes "keys_ok (rows d)" "m \<in> set (rows d)" "revoke_api_key disp now db (k_id m) d = (Inr (), d')"
  shows "rows d' = apply_where (\<lambda>x. k_id x = k_id m) (\<lambda>m. m\<lparr>k_enabled := False, k_updated_at := now\<rparr>) (rows d)"
proof -
  obtain y d1 where f: "t_find db (\<lambda>x. k_id x = k_id m) d = (y, d1)"
    by (cases "t_find db (\<lambda>x. k_id x = k_id m) d")
  obtain x where "y = Inr (Some x)"
    using assms(3) f by (auto simp: revoke_api_key_def split: sum.splits option.splits)
  moreover from this have "x = m" using find_one [of _ d "Some x" d1 m] f filter_key_id(2) [OF assms(1,2)] by simp
  ultimately obtain z where "t_update db (\<lambda>x. k_id x = k_id m)
      (\<lambda>m. m\<lparr>k_enabled := False, k_updated_at := now\<rparr>) d1 = (Inr z, d')"
    using assms(3) f by (auto simp: revoke_api_key_def db_error_def split: prod.splits sum.splits)
      (metis map_sum.simps(1) sum.distinct(1) sum.exhaust)
  from update_law [OF this] find_law [OF f] show ?thesis by auto
qed

lemma rotate_rows:
  assumes "keys_ok (rows d)" "rotate_api_key a pepper now dr db key_id grace d = (Inr r, d')"
  obtains m h where "m \<in> set (rows d)" "k_key_id m = key_id"
    "hash_key a pepper (dr_salt dr) key_id (ws_secret r) = Inr h"
    "rows d' = apply_where (\<lambda>x. k_id x = k_id m) (\<lambda>m. m\<lparr>k_secret_hash := h, k_updated_at := now\<rparr>) (rows d)"
proof -
  let ?p = "\<lambda>m. k_key_id m = key_id"
  obtain y d1 where f: "t_find db ?p d = (y, d1)" by (cases "t_find db ?p d")
  obtain w where w: "y = Inr w"
    using assms(2) f by (cases y) (auto simp: rotate_api_key_def get_api_key_by_id_def db_error_def)
  obtain m where "w = Some m"
    using assms(2) f w by (cases w) (auto simp: rotate_api_key_def get_api_key_by_id_def db_error_def)
  with w have y: "y = Inr (Some m)" by simp
  then have m: "m \<in> set (rows d)" "k_key_id m = key_id" using find_law [OF f] by auto
  obtain h where h: "hash_key a pepper (dr_salt dr) key_id (generate_secret (dr_secret dr)) = Inr h"
    using assms(2) f y m
    by (auto simp: rotate_api_key_def get_api_key_by_id_def db_error_def api_key_of_def Let_def split: sum.splits)
  obtain m' where u: "t_update db (\<lambda>x. k_id x = k_id m)
      (\<lambda>m. m\<lparr>k_secret_hash := h, k_updated_at := now\<rparr>) d1 = (Inr m', d')"
    and r: "ws_secret r = generate_secret (dr_secret dr)"
    using assms(2) f y m h
    by (auto simp: rotate_api_key_def get_api_key_by_id_def db_error_def api_key_of_def Let_def
        split: sum.splits prod.splits)
  from update_law [OF u] find_law [OF f] have
    "rows d' = apply_where (\<lambda>x. k_id x = k_id m) (\<lambda>m. m\<lparr>k_secret_hash := h, k_updated_at := now\<rparr>) (rows d)"
    by auto
  with m h show thesis by (intro that [of m h]) (simp_all add: r)
qed

text \<open>Every operation keeps the table well-formed, whether it succeeds or not.\<close>

lemma update_wf:
  assumes "t_update db p f d = (x, d')" "keys_wf (rows d)"
    and "\<And>m. k_id (f m) = k_id m \<and> k_key_id (f m) = k_key_id m \<and> k_prefix (f m) = k_prefix m \<and>
      k_role (f m) = k_role m"
  shows "keys_wf (rows d')"
  using update_law [OF assms(1)] keys_wf_apply [OF assms(3) assms(2)] assms(2) by auto

lemma create_wf:
  assumes "create_api_key a disp pepper now dr db req d = (x, d')" "keys_wf (rows d)"
  shows "keys_wf (rows d')"
  using assms(2) by (rule_tac create_effect [OF assms(1)]) (auto simp: keys_wf_def keys_ok_snoc)

lemma rotate_wf:
  assumes "rotate_api_key a pepper now dr db key_id grace d = (x, d')" "keys_wf (rows d)"
  shows "keys_wf (rows d')"
proof -
  obtain y d1 where f: "get_api_key_by_id db key_id d = (y, d1)" by (cases "get_api_key_by_id db key_id d")
  then have same: "rows d1 = rows d"
    by (auto simp: get_api_key_by_id_def split: prod.splits dest: find_law)
  show ?thesis
  proof (cases "d' = d1")
    case True
    then show ?thesis using same assms(2) by simp
  next
    case False
    then obtain key where y: "y = Inr (Some key)"
      using assms(1) f by (auto simp: rotate_api_key_def split: sum.splits option.splits)
    obtain h where "hash_key a pepper (dr_salt dr) (ak_key_id key) (generate_secret (dr_secret dr)) = Inr h"
      using assms(1) f y False by (auto simp: rotate_api_key_def Let_def split: sum.splits)
    then obtain z where "t_update db (\<lambda>m. k_id m = ak_id key)
        (\<lambda>m. m\<lparr>k_secret_hash := h, k_updated_at := now\<rparr>) d1 = (z, d')"
      using assms(1) f y by (auto simp: rotate_api_key_def Let_def split: sum.splits prod.splits)
    from update_wf [OF this] show ?thesis using same assms(2) by simp
  qed
qed

lemma revoke_wf:
  assumes "revoke_api_key disp now db i d = (x, d')" "keys_wf (rows d)"
  shows "keys_wf (rows d')"
proof -
  obtain y d1 where f: "t_find db (\<lambda>m. k_id m = i) d = (y, d1)" by (cases "t_find db (\<lambda>m. k_id m = i) d")
  have same: "rows d1 = rows d" using find_law [OF f] by simp
  show ?thesis
  proof (cases "d' = d1")
    case True
    then show ?thesis using same assms(2) by simp
  next
    case False
    then obtain j z where "t_update db (\<lambda>m. k_id m = j)
        (\<lambda>m. m\<lparr>k_enabled := False, k_updated_at := now\<rparr>) d1 = (z, d')"
      using assms(1) f by (auto simp: revoke_api_key_def split: sum.splits option.splits prod.splits elim: that)
    from update_wf [OF this] show ?thesis using same assms(2) by simp
  qed
qed

lemma delete_rows:
  assumes "delete_api_key disp db i d = (x, d')"
  shows "rows d' \<in> {rows d, filter (\<lambda>m. k_id m \<noteq> i) (rows d)}"
    and "x = Inr () \<Longrightarrow> rows d' = filter (\<lambda>m. k_id m \<noteq> i) (rows d)"
proof -
  obtain y where "t_delete db (\<lambda>m. k_id m = i) d = (y, d')"
    using assms by (auto simp: delete_api_key_def split: prod.splits sum.splits if_splits)
  from delete_law [OF this] show "rows d' \<in> {rows d, filter (\<lambda>m. k_id m \<noteq> i) (rows d)}"
    and "x = Inr () \<Longrightarrow> rows d' = filter (\<lambda>m. k_id m \<noteq> i) (rows d)"
    using assms \<open>t_delete db (\<lambda>m. k_id m = i) d = (y, d')\<close>
    by (auto simp: delete_api_key_def split: sum.splits)
qed

lemma last_used_wf:
  assumes "rows d' = apply_where p (\<lambda>m. m\<lparr>k_last_used := Some now, k_updated_at := now\<rparr>) (rows d)"
    and "keys_wf (rows d)"
  shows "keys_wf (rows d')"
  unfolding assms(1) by (rule keys_wf_apply [OF _ assms(2)]) simp

lemma delete_wf: "delete_api_key disp db i d = (x, d') \<Longrightarrow> keys_wf (rows d) \<Longrightarrow> keys_wf (rows d')"
  using delete_rows(1) [of disp i d x d'] keys_wf_filter by auto

lemma validate_wf:
  assumes "validate_api_key a pepper now db key_id secret d = (x, d')" "keys_wf (rows d)"
  shows "keys_wf (rows d')"
proof (cases x)
  case Inl
  with assms(1) have "\<exists>y. t_find db (\<lambda>m. k_key_id m = key_id) d = (y, d')"
    by (auto simp: validate_api_key_def split: prod.splits sum.splits option.splits if_splits)
  then show ?thesis using find_law assms(2) by metis
next
  case (Inr v)
  from assms(2) have "keys_ok (rows d)" by (simp add: keys_wf_def)
  from validate_grants(2) [OF this assms(1) [unfolded Inr]] last_used_wf assms(2) show ?thesis by blast
qed

lemma list_effect:
  assumes "list_api_keys db ws lim off d = (x, d')"
  shows "rows d' = rows d"
    and "x = Inr ks \<Longrightarrow> set ks \<subseteq> api_key_of ` {m \<in> set (rows d). k_workspace m = Some ws}"
    and "x = Inr ks \<Longrightarrow> lim = Some n \<Longrightarrow> off = Some 0 \<Longrightarrow> length (rows d) \<le> n \<Longrightarrow>
      set ks = api_key_of ` {m \<in> set (rows d). k_workspace m = Some ws}"
proof -
  obtain y where l: "t_all db (\<lambda>m. k_workspace m = Some ws) lim off d = (y, d')"
    and x: "x = map_sum id (map api_key_of) (db_error y)"
    using assms by (auto simp: list_api_keys_def split: prod.splits)
  show "rows d' = rows d" using all_law [OF l] by simp
  {
    assume "x = Inr ks"
    with x obtain rs where rs: "y = Inr rs" "ks = map api_key_of rs"
      by (cases y) (auto simp: db_error_def)
    then have "mset rs \<subseteq># mset (filter (\<lambda>m. k_workspace m = Some ws) (rows d))" using all_law [OF l] by simp
    from set_mset_mono [OF this] rs(2)
    show "set ks \<subseteq> api_key_of ` {m \<in> set (rows d). k_workspace m = Some ws}" by auto
    assume "lim = Some n" "off = Some 0" "length (rows d) \<le> n"
    then show "set ks = api_key_of ` {m \<in> set (rows d). k_workspace m = Some ws}"
      using all_complete [of _ n d rs d'] l rs by simp
  }
qed

lemma get_by_id_effect:
  assumes "get_api_key_by_id db key_id d = (x, d')"
  shows "rows d' = rows d" and "x = Inr (Some k) \<Longrightarrow> \<exists>m \<in> set (rows d). k_key_id m = key_id \<and> k = api_key_of m"
proof -
  obtain y where f: "t_find db (\<lambda>m. k_key_id m = key_id) d = (y, d')"
    and x: "x = map_sum id (map_option api_key_of) (db_error y)"
    using assms by (auto simp: get_api_key_by_id_def split: prod.splits)
  show "rows d' = rows d" using find_law [OF f] by simp
  show "\<exists>m \<in> set (rows d). k_key_id m = key_id \<and> k = api_key_of m" if "x = Inr (Some k)"
    using that x find_law [OF f] by (cases y) (auto simp: db_error_def)
qed

end

interpretation key_table: key_store "lt_ops key_clash" lt_rows
  by unfold_locales


lemma not_isl_fst: "\<not> isl (fst p) \<Longrightarrow> \<exists>v d. p = (Inr v, d)"
  by (cases p; cases "fst p") auto

section \<open>A table and a hash that meet the contracts\<close>

definition plain_argon2 :: argon2 where
  "plain_argon2 = \<lparr>a_hash = (\<lambda>password salt. Inr password), a_verify = (=)\<rparr>"

lemma plain_argon2_ok: "argon2_ok plain_argon2"
  by (auto simp: argon2_ok_def plain_argon2_def)

definition key_table :: "bool list \<Rightarrow> api_key_row list_table" where
  "key_table faults = \<lparr>lt_rows = [], lt_faults = faults\<rparr>"

definition demo_draws :: "nat \<Rightarrow> key_draws" where
  "demo_draws n = \<lparr>dr_key_uuid = of_nat n, dr_secret = replicate 32 n, dr_salt = ''s'', dr_id = of_nat n\<rparr>"

definition demo_disp :: "u128 \<Rightarrow> string" where
  "demo_disp u = print_dec (unat u)"

definition demo_request :: "api_key_role \<Rightarrow> u128 option \<Rightarrow> create_key_request" where
  "demo_request role ws =
     \<lparr>cr_workspace = ws, cr_name = ''k'', cr_description = None, cr_role = role, cr_rate_limit = None,
      cr_expires_at = None, cr_secret = None, cr_key_id = None\<rparr>"

definition demo_create ::
  "nat \<Rightarrow> api_key_role \<Rightarrow> u128 option \<Rightarrow> api_key_row list_table \<Rightarrow>
   api_key_with_secret res \<times> api_key_row list_table" where
  "demo_create n role ws =
     create_api_key plain_argon2 demo_disp ''pepper'' 0 (demo_draws n) (lt_ops key_clash)
       (demo_request role ws)"

definition demo_validate ::
  "int \<Rightarrow> string \<Rightarrow> string \<Rightarrow> api_key_row list_table \<Rightarrow>
   (u128 option \<times> api_key_role) option res \<times> api_key_row list_table" where
  "demo_validate now = validate_api_key plain_argon2 ''pepper'' now (lt_ops key_clash)"

definition demo_key :: api_key_with_secret where
  "demo_key = projr (fst (demo_create 7 User (Some 5) (key_table [])))"

definition demo_db :: "api_key_row list_table" where
  "demo_db = snd (demo_create 7 User (Some 5) (key_table []))"

lemma demo_created: "demo_create 7 User (Some 5) (key_table []) = (Inr demo_key, demo_db)"
proof -
  have "\<not> isl (fst (demo_create 7 User (Some 5) (key_table [])))" by code_simp
  then show ?thesis by (simp add: demo_key_def demo_db_def prod_eq_iff)
qed

section \<open>Properties of the repository\<close>

text \<open>
  C10. A new key is accepted with exactly the secret it was created with, until it expires, and grants
  exactly the workspace and the role it was created for.
\<close>

theorem created_key_validates:
  assumes "key_store db rows" "argon2_ok a" "keys_ok (rows d)"
    and "create_api_key a disp pepper now dr db req d = (Inr r, d1)"
    and "validate_api_key a pepper now' db (rs_key_id (ws_key r)) secret d1 = (Inr v, d2)"
  shows "v =
    (if secret = ws_secret r \<and> (case rs_expires_at (ws_key r) of Some e \<Rightarrow> now' \<le> e | None \<Rightarrow> True)
     then Some (cr_workspace req, cr_role req) else None)"
proof -
  from key_store.create_row [OF assms(1,4)] obtain m h where m:
    "rows d1 = rows d @ [m]" "\<forall>m' \<in> set (rows d). \<not> key_clash m m'"
    "hash_key a pepper (dr_salt dr) (k_key_id m) (ws_secret r) = Inr h" "k_secret_hash m = h"
    "k_enabled m" "k_workspace m = cr_workspace req" "k_role m = role_text (cr_role req)"
    "ws_key r = response_of m (k_expires_at m)" "cr_role req \<noteq> Anonymous"
    by blast
  have ok: "keys_ok (rows d1)" using keys_ok_snoc assms(3) m(1,2) by simp
  have "rs_key_id (ws_key r) = k_key_id m" "rs_expires_at (ws_key r) = k_expires_at m"
    by (simp_all add: m(8) response_of_def)
  moreover have "v = row_grants a pepper now' secret m"
    using key_store.validate_grants(1) [OF assms(1) ok assms(5)] grants_row [OF ok, of m]
    by (simp add: m(1) calculation)
  ultimately show ?thesis
    using verify_hash_key [OF assms(2) m(3), of secret] m(4-7,9)
    by (auto simp: row_grants_def expired_def role_of_role_text split: option.splits)
qed

theorem created_key_validates_witness:
  "fst (demo_validate 10 (rs_key_id (ws_key demo_key)) (ws_secret demo_key) demo_db) =
     Inr (Some (Some 5, User)) \<and>
   fst (demo_validate 10 (rs_key_id (ws_key demo_key)) ''guess'' demo_db) = Inr None"
proof -
  have ok: "\<not> isl (fst (demo_validate 10 (rs_key_id (ws_key demo_key)) (ws_secret demo_key) demo_db))"
    "\<not> isl (fst (demo_validate 10 (rs_key_id (ws_key demo_key)) ''guess'' demo_db))"
    and r: "rs_expires_at (ws_key demo_key) = Some 2592000000000" "ws_secret demo_key \<noteq> ''guess''"
    by code_simp+
  from not_isl_fst [OF ok(1)] not_isl_fst [OF ok(2)] obtain v d2 v' d3 where
    v: "demo_validate 10 (rs_key_id (ws_key demo_key)) (ws_secret demo_key) demo_db = (Inr v, d2)"
      "demo_validate 10 (rs_key_id (ws_key demo_key)) ''guess'' demo_db = (Inr v', d3)"
    by blast
  have "keys_ok (lt_rows (key_table []))" by (simp add: keys_ok_def key_table_def)
  note validates = created_key_validates [OF key_table.key_store_axioms plain_argon2_ok this
      demo_created [unfolded demo_create_def]]
  from validates [OF v(1) [unfolded demo_validate_def]] validates [OF v(2) [unfolded demo_validate_def]] v r
  show ?thesis by (simp add: demo_request_def)
qed

text \<open>
  C13. Revoking takes effect at once and touches no other key: after it no secret is accepted for the
  revoked key, and for every other key validation answers what it would have answered before.
\<close>

theorem revoked_key_refused:
  assumes "key_store db rows" "keys_ok (rows d)" "m \<in> set (rows d)"
    and "revoke_api_key disp now db (k_id m) d = (Inr (), d1)"
    and "validate_api_key a pepper now' db key_id secret d1 = (Inr v, d2)"
  shows "v = (if key_id = k_key_id m then None else grants a pepper now' key_id secret (rows d))"
proof -
  let ?f = "\<lambda>m. m\<lparr>k_enabled := False, k_updated_at := now\<rparr>"
  from key_store.revoke_rows [OF assms(1-4)] have r: "rows d1 = apply_where (\<lambda>x. k_id x = k_id m) ?f (rows d)" .
  have ok: "keys_ok (rows d1)" using assms(2) by (simp add: r keys_ok_apply)
  have v: "v = grants a pepper now' key_id secret (rows d1)"
    by (rule key_store.validate_grants(1) [OF assms(1) ok assms(5)])
  show ?thesis
  proof (cases "key_id = k_key_id m")
    case True
    have "?f m \<in> set (rows d1)" using assms(3) by (force simp: r set_apply_where)
    from grants_row [OF ok this] v show ?thesis by (simp add: True row_grants_def)
  next
    case False
    have "filter (\<lambda>x. k_key_id x = key_id) (rows d1) = filter (\<lambda>x. k_key_id x = key_id) (rows d)"
      using False key_row_unique [OF assms(2,3)] unfolding r
      by (intro filter_apply_where_other) auto
    then show ?thesis using False v by (simp add: grants_def)
  qed
qed


theorem revoked_key_refused_witness:
  "fst (demo_validate 10 (rs_key_id (ws_key demo_key)) (ws_secret demo_key)
     (snd (revoke_api_key demo_disp 1 (lt_ops key_clash) 7 demo_db))) = Inr None"
proof -
  let ?rv = "revoke_api_key demo_disp 1 (lt_ops key_clash) 7 demo_db"
  let ?v = "demo_validate 10 (rs_key_id (ws_key demo_key)) (ws_secret demo_key) (snd ?rv)"
  have "\<not> isl (fst ?rv)" "\<not> isl (fst ?v)"
    and rows: "map (\<lambda>m. (k_id m, k_key_id m)) (lt_rows demo_db) = [(7, rs_key_id (ws_key demo_key))]"
    by code_simp+
  from not_isl_fst [OF this(1)] not_isl_fst [OF this(2)] obtain d1 v d2 where
    rv: "?rv = (Inr (), d1)" and v: "?v = (Inr v, d2)" by auto
  obtain m where m: "lt_rows demo_db = [m]" "k_id m = 7" "k_key_id m = rs_key_id (ws_key demo_key)"
    using rows by auto
  have "keys_ok (lt_rows demo_db)" "m \<in> set (lt_rows demo_db)" by (simp_all add: m(1) keys_ok_def)
  from revoked_key_refused [OF key_table.key_store_axioms this rv [folded m(2)]
      v [unfolded demo_validate_def rv snd_conv]] v m(3)
  show ?thesis by simp
qed

text \<open>
  Rotation replaces the secret at once: the old one is refused and the new one accepted under the
  conditions of the row, whatever grace period was asked for.
\<close>

theorem rotation_ignores_grace:
  assumes "key_store db rows" "argon2_ok a" "keys_ok (rows d)"
    and "rotate_api_key a pepper now dr db key_id grace d = (Inr r, d1)"
    and "validate_api_key a pepper now' db key_id secret d1 = (Inr v, d2)"
  shows "\<exists>m \<in> set (rows d). k_key_id m = key_id \<and>
    v = (if secret = ws_secret r \<and> k_enabled m \<and> \<not> expired now' m
         then Some (k_workspace m, role_of_text (k_role m)) else None)"
proof -
  from key_store.rotate_rows [OF assms(1,3,4)] obtain m h where m: "m \<in> set (rows d)" "k_key_id m = key_id"
    and h: "hash_key a pepper (dr_salt dr) key_id (ws_secret r) = Inr h"
    and r: "rows d1 = apply_where (\<lambda>x. k_id x = k_id m)
      (\<lambda>m. m\<lparr>k_secret_hash := h, k_updated_at := now\<rparr>) (rows d)"
    by blast
  let ?m = "m\<lparr>k_secret_hash := h, k_updated_at := now\<rparr>"
  have ok: "keys_ok (rows d1)" using assms(3) by (simp add: r keys_ok_apply)
  have "?m \<in> set (rows d1)" using m(1) by (force simp: r set_apply_where)
  from grants_row [OF ok this] key_store.validate_grants(1) [OF assms(1) ok assms(5)] m(2)
  have "v = row_grants a pepper now' secret ?m" by simp
  then have "v = (if secret = ws_secret r \<and> k_enabled m \<and> \<not> expired now' m
      then Some (k_workspace m, role_of_text (k_role m)) else None)"
    using verify_hash_key [OF assms(2) h, of secret] m(2) by (auto simp: row_grants_def expired_def)
  with m show ?thesis by blast
qed

theorem rotation_ignores_grace_witness:
  "fst (demo_validate 10 (rs_key_id (ws_key demo_key)) (ws_secret demo_key)
     (snd (rotate_api_key plain_argon2 ''pepper'' 1 (demo_draws 8) (lt_ops key_clash)
        (rs_key_id (ws_key demo_key)) 604800 demo_db))) = Inr None"
proof -
  let ?rt = "rotate_api_key plain_argon2 ''pepper'' 1 (demo_draws 8) (lt_ops key_clash)
      (rs_key_id (ws_key demo_key)) 604800 demo_db"
  let ?v = "demo_validate 10 (rs_key_id (ws_key demo_key)) (ws_secret demo_key) (snd ?rt)"
  have "\<not> isl (fst ?rt)" "\<not> isl (fst ?v)" "keys_ok (lt_rows demo_db)"
    and new: "ws_secret demo_key \<noteq> ws_secret (projr (fst ?rt))"
    by code_simp+
  from not_isl_fst [OF this(1)] not_isl_fst [OF this(2)] this(3) obtain r d1 v d2 where
    rt: "?rt = (Inr r, d1)" and v: "?v = (Inr v, d2)" and ok: "keys_ok (lt_rows demo_db)" by auto
  from rotation_ignores_grace [OF key_table.key_store_axioms plain_argon2_ok ok rt
      v [unfolded demo_validate_def rt snd_conv]] v new rt
  show ?thesis by auto
qed

end
