(* ===== verification/Org_Repo.thy ===== *)
theory Org_Repo
  imports Api_Keys
begin

text \<open>
  Workspaces, groups and business tags: the entities of \<open>workspace_entity.rs\<close>, \<open>group_entity.rs\<close> and
  \<open>biz_tag_entity.rs\<close> and their repositories in \<open>src/src/core/database/repository.rs\<close>.

  The three tables are parameters over one database state, with the references of the schema in
  \<open>connection.rs\<close>: \<open>org_store\<close> says that a statement touches its own table, and that a deletion takes
  along the rows that refer to what it deletes. The column of data centres is the list its JSON text
  denotes; an update sets the columns it names and leaves the others. UUIDs and times are inputs.
\<close>

section \<open>Entities\<close>

datatype workspace_status = Active | Inactive | Suspended

fun workspace_status_text :: "workspace_status \<Rightarrow> string" where
  "workspace_status_text Active = ''active''"
| "workspace_status_text Inactive = ''inactive''"
| "workspace_status_text Suspended = ''suspended''"

definition workspace_status_of :: "string \<Rightarrow> workspace_status" where
  "workspace_status_of s =
     (if s = ''active'' then Active
      else if s = ''inactive'' then Inactive
      else if s = ''suspended'' then Suspended
      else Inactive)"

record workspace_row =
  ws_id :: u128
  ws_name :: string
  ws_description :: "string option"
  ws_status :: string
  ws_max_groups :: int
  ws_max_biz_tags :: int
  ws_created_at :: int
  ws_updated_at :: int

record workspace =
  wk_id :: u128
  wk_name :: string
  wk_description :: "string option"
  wk_status :: workspace_status
  wk_max_groups :: int
  wk_max_biz_tags :: int
  wk_created_at :: int
  wk_updated_at :: int

definition workspace_of :: "workspace_row \<Rightarrow> workspace" where
  "workspace_of m =
     \<lparr>wk_id = ws_id m, wk_name = ws_name m, wk_description = ws_description m,
      wk_status = workspace_status_of (ws_status m), wk_max_groups = ws_max_groups m,
      wk_max_biz_tags = ws_max_biz_tags m, wk_created_at = ws_created_at m,
      wk_updated_at = ws_updated_at m\<rparr>"

record create_workspace_request =
  cw_name :: string
  cw_description :: "string option"
  cw_max_groups :: "int option"
  cw_max_biz_tags :: "int option"

record update_workspace_request =
  uw_name :: "string option"
  uw_description :: "string option"
  uw_status :: "workspace_status option"
  uw_max_groups :: "int option"
  uw_max_biz_tags :: "int option"

text \<open>A group row and a group have the same fields.\<close>

record group_row =
  grp_id :: u128
  grp_workspace :: u128
  grp_name :: string
  grp_description :: "string option"
  grp_max_biz_tags :: int
  grp_created_at :: int
  grp_updated_at :: int

record create_group_request =
  cg_workspace :: u128
  cg_name :: string
  cg_description :: "string option"
  cg_max_biz_tags :: "int option"

record update_group_request =
  ug_name :: "string option"
  ug_description :: "string option"
  ug_max_biz_tags :: "int option"

datatype algorithm_type_db = SegmentDb | SnowflakeDb | UuidV7Db | UuidV4Db

datatype id_format_db = NumericDb | PrefixedDb | UuidDb

fun algorithm_of_db :: "algorithm_type_db \<Rightarrow> algorithm_type" where
  "algorithm_of_db SegmentDb = Segment"
| "algorithm_of_db SnowflakeDb = Snowflake"
| "algorithm_of_db UuidV7Db = UuidV7"
| "algorithm_of_db UuidV4Db = UuidV4"

fun algorithm_to_db :: "algorithm_type \<Rightarrow> algorithm_type_db" where
  "algorithm_to_db Segment = SegmentDb"
| "algorithm_to_db Snowflake = SnowflakeDb"
| "algorithm_to_db UuidV7 = UuidV7Db"
| "algorithm_to_db UuidV4 = UuidV4Db"

fun format_of_db :: "id_format_db \<Rightarrow> id_format" where
  "format_of_db NumericDb = Numeric"
| "format_of_db PrefixedDb = Prefixed"
| "format_of_db UuidDb = UuidFormat"

fun format_to_db :: "id_format \<Rightarrow> id_format_db" where
  "format_to_db Numeric = NumericDb"
| "format_to_db Prefixed = PrefixedDb"
| "format_to_db UuidFormat = UuidDb"

record biz_tag_row =
  btr_id :: u128
  btr_workspace :: u128
  btr_group :: u128
  btr_name :: string
  btr_description :: "string option"
  btr_algorithm :: algorithm_type_db
  btr_format :: id_format_db
  btr_prefix :: string
  btr_base_step :: int
  btr_max_step :: int
  btr_datacenter_ids :: "int list"
  btr_created_at :: int
  btr_updated_at :: int

record biz_tag =
  bt_id :: u128
  bt_workspace :: u128
  bt_group :: u128
  bt_name :: string
  bt_description :: "string option"
  bt_algorithm :: algorithm_type
  bt_format :: id_format
  bt_prefix :: string
  bt_base_step :: int
  bt_max_step :: int
  bt_datacenter_ids :: "int list"
  bt_created_at :: int
  bt_updated_at :: int

definition biz_tag_of :: "biz_tag_row \<Rightarrow> biz_tag" where
  "biz_tag_of m =
     \<lparr>bt_id = btr_id m, bt_workspace = btr_workspace m, bt_group = btr_group m, bt_name = btr_name m,
      bt_description = btr_description m, bt_algorithm = algorithm_of_db (btr_algorithm m),
      bt_format = format_of_db (btr_format m), bt_prefix = btr_prefix m, bt_base_step = btr_base_step m,
      bt_max_step = btr_max_step m, bt_datacenter_ids = btr_datacenter_ids m,
      bt_created_at = btr_created_at m, bt_updated_at = btr_updated_at m\<rparr>"

record create_biz_tag_request =
  cb_workspace :: u128
  cb_group :: u128
  cb_name :: string
  cb_description :: "string option"
  cb_algorithm :: "algorithm_type option"
  cb_format :: "id_format option"
  cb_prefix :: "string option"
  cb_base_step :: "int option"
  cb_max_step :: "int option"
  cb_datacenter_ids :: "int list option"

record update_biz_tag_request =
  ub_name :: "string option"
  ub_description :: "string option"
  ub_algorithm :: "algorithm_type option"
  ub_format :: "id_format option"
  ub_prefix :: "string option"
  ub_base_step :: "int option"
  ub_max_step :: "int option"
  ub_datacenter_ids :: "int list option"

text \<open>\<open>unwrap_or\<close> and \<open>Option::or\<close>.\<close>

definition unwrap_or :: "'a option \<Rightarrow> 'a \<Rightarrow> 'a" where
  "unwrap_or x d = (case x of Some v \<Rightarrow> v | None \<Rightarrow> d)"

definition option_or :: "'a option \<Rightarrow> 'a option \<Rightarrow> 'a option" where
  "option_or x y = (case x of Some v \<Rightarrow> Some v | None \<Rightarrow> y)"

section \<open>The tables\<close>

record 'd org_db =
  od_ws :: "(workspace_row, 'd) table_ops"
  od_groups :: "(group_row, 'd) table_ops"
  od_tags :: "(biz_tag_row, 'd) table_ops"

definition ws_clash :: "workspace_row \<Rightarrow> workspace_row \<Rightarrow> bool" where
  "ws_clash r r' \<longleftrightarrow> ws_id r = ws_id r' \<or> ws_name r = ws_name r'"

definition group_clash :: "group_row \<Rightarrow> group_row \<Rightarrow> bool" where
  "group_clash r r' \<longleftrightarrow>
     grp_id r = grp_id r' \<or> grp_workspace r = grp_workspace r' \<and> grp_name r = grp_name r'"

definition tag_clash :: "biz_tag_row \<Rightarrow> biz_tag_row \<Rightarrow> bool" where
  "tag_clash r r' \<longleftrightarrow>
     btr_id r = btr_id r' \<or>
     btr_workspace r = btr_workspace r' \<and> btr_group r = btr_group r' \<and> btr_name r = btr_name r'"

section \<open>Workspaces\<close>

definition missing_row :: "string \<Rightarrow> string \<Rightarrow> core_error" where
  "missing_row what i = NotFound (what @ '' not found: '' @ i)"

definition create_workspace ::
  "u128 \<Rightarrow> int \<Rightarrow> 'd org_db \<Rightarrow> create_workspace_request \<Rightarrow> 'd \<Rightarrow> workspace res \<times> 'd" where
  "create_workspace uuid now db req d =
     (case t_insert (od_ws db)
             \<lparr>ws_id = uuid, ws_name = cw_name req, ws_description = cw_description req,
              ws_status = workspace_status_text Active,
              ws_max_groups = unwrap_or (cw_max_groups req) 10,
              ws_max_biz_tags = unwrap_or (cw_max_biz_tags req) 100,
              ws_created_at = now, ws_updated_at = now\<rparr> d of
        (x, d') \<Rightarrow> (map_sum id workspace_of (db_error x), d'))"

definition get_workspace :: "'d org_db \<Rightarrow> u128 \<Rightarrow> 'd \<Rightarrow> workspace option res \<times> 'd" where
  "get_workspace db i d =
     (case t_find (od_ws db) (\<lambda>w. ws_id w = i) d of
        (x, d') \<Rightarrow> (map_sum id (map_option workspace_of) (db_error x), d'))"

definition get_workspace_by_name :: "'d org_db \<Rightarrow> string \<Rightarrow> 'd \<Rightarrow> workspace option res \<times> 'd" where
  "get_workspace_by_name db name d =
     (case t_find (od_ws db) (\<lambda>w. ws_name w = name) d of
        (x, d') \<Rightarrow> (map_sum id (map_option workspace_of) (db_error x), d'))"

definition update_workspace ::
  "(u128 \<Rightarrow> string) \<Rightarrow> int \<Rightarrow> 'd org_db \<Rightarrow> u128 \<Rightarrow> update_workspace_request \<Rightarrow> 'd \<Rightarrow> workspace res \<times> 'd"
where
  "update_workspace disp now db i req d =
     (case t_find (od_ws db) (\<lambda>w. ws_id w = i) d of
        (Inl e, d1) \<Rightarrow> (Inl (DatabaseError e), d1)
      | (Inr None, d1) \<Rightarrow> (Inl (missing_row ''Workspace'' (disp i)), d1)
      | (Inr (Some existing), d1) \<Rightarrow>
          (case t_update (od_ws db) (\<lambda>w. ws_id w = ws_id existing)
                  (\<lambda>w. w\<lparr>ws_name := unwrap_or (uw_name req) (ws_name existing),
                          ws_description := option_or (uw_description req) (ws_description existing),
                          ws_status := unwrap_or (map_option workspace_status_text (uw_status req))
                            (ws_status existing),
                          ws_max_groups := unwrap_or (uw_max_groups req) (ws_max_groups existing),
                          ws_max_biz_tags := unwrap_or (uw_max_biz_tags req) (ws_max_biz_tags existing),
                          ws_updated_at := now\<rparr>) d1 of
             (x, d2) \<Rightarrow> (map_sum id workspace_of (db_error x), d2)))"

definition delete_workspace :: "(u128 \<Rightarrow> string) \<Rightarrow> 'd org_db \<Rightarrow> u128 \<Rightarrow> 'd \<Rightarrow> unit res \<times> 'd" where
  "delete_workspace disp db i d =
     (case t_delete (od_ws db) (\<lambda>w. ws_id w = i) d of
        (Inl e, d') \<Rightarrow> (Inl (DatabaseError e), d')
      | (Inr n, d') \<Rightarrow> (if n = 0 then Inl (missing_row ''Workspace'' (disp i)) else Inr (), d'))"

definition list_workspaces ::
  "'d org_db \<Rightarrow> nat option \<Rightarrow> nat option \<Rightarrow> 'd \<Rightarrow> workspace list res \<times> 'd" where
  "list_workspaces db lim off d =
     (case t_all (od_ws db) (\<lambda>_. True) lim off d of
        (x, d') \<Rightarrow> (map_sum id (map workspace_of) (db_error x), d'))"

definition get_workspace_with_groups ::
  "'d org_db \<Rightarrow> u128 \<Rightarrow> 'd \<Rightarrow> (workspace \<times> group_row list) option res \<times> 'd" where
  "get_workspace_with_groups db i d =
     (case t_find (od_ws db) (\<lambda>w. ws_id w = i) d of
        (Inl e, d1) \<Rightarrow> (Inl (DatabaseError e), d1)
      | (Inr None, d1) \<Rightarrow> (Inr None, d1)
      | (Inr (Some w), d1) \<Rightarrow>
          (case t_all (od_groups db) (\<lambda>g. grp_workspace g = i) None None d1 of
             (x, d2) \<Rightarrow> (map_sum id (\<lambda>gs. Some (workspace_of w, gs)) (db_error x), d2)))"

section \<open>Groups\<close>

definition create_group ::
  "(u128 \<Rightarrow> string) \<Rightarrow> u128 \<Rightarrow> int \<Rightarrow> 'd org_db \<Rightarrow> create_group_request \<Rightarrow> 'd \<Rightarrow> group_row res \<times> 'd"
where
  "create_group disp uuid now db req d =
     (case t_find (od_ws db) (\<lambda>w. ws_id w = cg_workspace req) d of
        (Inl e, d1) \<Rightarrow> (Inl (DatabaseError e), d1)
      | (Inr None, d1) \<Rightarrow> (Inl (missing_row ''Workspace'' (disp (cg_workspace req))), d1)
      | (Inr (Some _), d1) \<Rightarrow>
          (case t_insert (od_groups db)
                  \<lparr>grp_id = uuid, grp_workspace = cg_workspace req, grp_name = cg_name req,
                   grp_description = cg_description req,
                   grp_max_biz_tags = unwrap_or (cg_max_biz_tags req) 50,
                   grp_created_at = now, grp_updated_at = now\<rparr> d1 of
             (x, d2) \<Rightarrow> (db_error x, d2)))"

definition get_group :: "'d org_db \<Rightarrow> u128 \<Rightarrow> 'd \<Rightarrow> group_row option res \<times> 'd" where
  "get_group db i d =
     (case t_find (od_groups db) (\<lambda>g. grp_id g = i) d of (x, d') \<Rightarrow> (db_error x, d'))"

definition get_group_by_workspace_and_name ::
  "'d org_db \<Rightarrow> u128 \<Rightarrow> string \<Rightarrow> 'd \<Rightarrow> group_row option res \<times> 'd" where
  "get_group_by_workspace_and_name db ws name d =
     (case t_find (od_groups db) (\<lambda>g. grp_workspace g = ws \<and> grp_name g = name) d of
        (x, d') \<Rightarrow> (db_error x, d'))"

definition update_group ::
  "(u128 \<Rightarrow> string) \<Rightarrow> int \<Rightarrow> 'd org_db \<Rightarrow> u128 \<Rightarrow> update_group_request \<Rightarrow> 'd \<Rightarrow> group_row res \<times> 'd" where
  "update_group disp now db i req d =
     (case t_find (od_groups db) (\<lambda>g. grp_id g = i) d of
        (Inl e, d1) \<Rightarrow> (Inl (DatabaseError e), d1)
      | (Inr None, d1) \<Rightarrow> (Inl (missing_row ''Group'' (disp i)), d1)
      | (Inr (Some existing), d1) \<Rightarrow>
          (case t_update (od_groups db) (\<lambda>g. grp_id g = grp_id existing)
                  (\<lambda>g. g\<lparr>grp_name := unwrap_or (ug_name req) (grp_name existing),
                          grp_description := option_or (ug_description req) (grp_description existing),
                          grp_max_biz_tags := unwrap_or (ug_max_biz_tags req) (grp_max_biz_tags existing),
                          grp_updated_at := now\<rparr>) d1 of
             (x, d2) \<Rightarrow> (db_error x, d2)))"

definition delete_group :: "(u128 \<Rightarrow> string) \<Rightarrow> 'd org_db \<Rightarrow> u128 \<Rightarrow> 'd \<Rightarrow> unit res \<times> 'd" where
  "delete_group disp db i d =
     (case t_delete (od_groups db) (\<lambda>g. grp_id g = i) d of
        (Inl e, d') \<Rightarrow> (Inl (DatabaseError e), d')
      | (Inr n, d') \<Rightarrow> (if n = 0 then Inl (missing_row ''Group'' (disp i)) else Inr (), d'))"

definition list_groups ::
  "'d org_db \<Rightarrow> u128 \<Rightarrow> nat option \<Rightarrow> nat option \<Rightarrow> 'd \<Rightarrow> group_row list res \<times> 'd" where
  "list_groups db ws lim off d =
     (case t_all (od_groups db) (\<lambda>g. grp_workspace g = ws) lim off d of (x, d') \<Rightarrow> (db_error x, d'))"

definition get_group_with_biz_tags ::
  "'d org_db \<Rightarrow> u128 \<Rightarrow> 'd \<Rightarrow> (group_row \<times> biz_tag list) option res \<times> 'd" where
  "get_group_with_biz_tags db i d =
     (case t_find (od_groups db) (\<lambda>g. grp_id g = i) d of
        (Inl e, d1) \<Rightarrow> (Inl (DatabaseError e), d1)
      | (Inr None, d1) \<Rightarrow> (Inr None, d1)
      | (Inr (Some g), d1) \<Rightarrow>
          (case t_all (od_tags db) (\<lambda>t. btr_group t = i) None None d1 of
             (x, d2) \<Rightarrow> (map_sum id (\<lambda>ts. Some (g, map biz_tag_of ts)) (db_error x), d2)))"

section \<open>Business tags\<close>

definition create_biz_tag ::
  "(u128 \<Rightarrow> string) \<Rightarrow> u128 \<Rightarrow> int \<Rightarrow> 'd org_db \<Rightarrow> create_biz_tag_request \<Rightarrow> 'd \<Rightarrow> biz_tag res \<times> 'd" where
  "create_biz_tag disp uuid now db req d =
     (case t_find (od_ws db) (\<lambda>w. ws_id w = cb_workspace req) d of
        (Inl e, d1) \<Rightarrow> (Inl (DatabaseError e), d1)
      | (Inr None, d1) \<Rightarrow> (Inl (missing_row ''Workspace'' (disp (cb_workspace req))), d1)
      | (Inr (Some _), d1) \<Rightarrow>
          (case t_find (od_groups db) (\<lambda>g. grp_id g = cb_group req) d1 of
             (Inl e, d2) \<Rightarrow> (Inl (DatabaseError e), d2)
           | (Inr None, d2) \<Rightarrow> (Inl (missing_row ''Group'' (disp (cb_group req))), d2)
           | (Inr (Some _), d2) \<Rightarrow>
               (case t_insert (od_tags db)
                       \<lparr>btr_id = uuid, btr_workspace = cb_workspace req, btr_group = cb_group req,
                        btr_name = cb_name req, btr_description = cb_description req,
                        btr_algorithm = algorithm_to_db (unwrap_or (cb_algorithm req) Segment),
                        btr_format = format_to_db (unwrap_or (cb_format req) Numeric),
                        btr_prefix = unwrap_or (cb_prefix req) [],
                        btr_base_step = unwrap_or (cb_base_step req) 100,
                        btr_max_step = unwrap_or (cb_max_step req) 1000,
                        btr_datacenter_ids = unwrap_or (cb_datacenter_ids req) [0],
                        btr_created_at = now, btr_updated_at = now\<rparr> d2 of
                  (x, d3) \<Rightarrow> (map_sum id biz_tag_of (db_error x), d3))))"

definition get_biz_tag :: "'d org_db \<Rightarrow> u128 \<Rightarrow> 'd \<Rightarrow> biz_tag option res \<times> 'd" where
  "get_biz_tag db i d =
     (case t_find (od_tags db) (\<lambda>t. btr_id t = i) d of
        (x, d') \<Rightarrow> (map_sum id (map_option biz_tag_of) (db_error x), d'))"

definition get_biz_tag_by_workspace_group_and_name ::
  "'d org_db \<Rightarrow> u128 \<Rightarrow> u128 \<Rightarrow> string \<Rightarrow> 'd \<Rightarrow> biz_tag option res \<times> 'd" where
  "get_biz_tag_by_workspace_group_and_name db ws grp name d =
     (case t_find (od_tags db) (\<lambda>t. btr_workspace t = ws \<and> btr_group t = grp \<and> btr_name t = name) d of
        (x, d') \<Rightarrow> (map_sum id (map_option biz_tag_of) (db_error x), d'))"

definition updated_tag :: "int \<Rightarrow> update_biz_tag_request \<Rightarrow> biz_tag_row \<Rightarrow> biz_tag_row \<Rightarrow> biz_tag_row" where
  "updated_tag now req existing t =
     t\<lparr>btr_name := unwrap_or (ub_name req) (btr_name existing),
        btr_description := option_or (ub_description req) (btr_description existing),
        btr_algorithm := unwrap_or (map_option algorithm_to_db (ub_algorithm req)) (btr_algorithm existing),
        btr_format := unwrap_or (map_option format_to_db (ub_format req)) (btr_format existing),
        btr_prefix := unwrap_or (ub_prefix req) (btr_prefix existing),
        btr_base_step := unwrap_or (ub_base_step req) (btr_base_step existing),
        btr_max_step := unwrap_or (ub_max_step req) (btr_max_step existing),
        btr_datacenter_ids := unwrap_or (ub_datacenter_ids req) [0],
        btr_updated_at := now\<rparr>"

definition update_biz_tag ::
  "(u128 \<Rightarrow> string) \<Rightarrow> int \<Rightarrow> 'd org_db \<Rightarrow> u128 \<Rightarrow> update_biz_tag_request \<Rightarrow> 'd \<Rightarrow> biz_tag res \<times> 'd" where
  "update_biz_tag disp now db i req d =
     (case t_find (od_tags db) (\<lambda>t. btr_id t = i) d of
        (Inl e, d1) \<Rightarrow> (Inl (DatabaseError e), d1)
      | (Inr None, d1) \<Rightarrow> (Inl (missing_row ''BizTag'' (disp i)), d1)
      | (Inr (Some existing), d1) \<Rightarrow>
          (case t_update (od_tags db) (\<lambda>t. btr_id t = btr_id existing) (updated_tag now req existing) d1 of
             (x, d2) \<Rightarrow> (map_sum id biz_tag_of (db_error x), d2)))"

definition delete_biz_tag :: "(u128 \<Rightarrow> string) \<Rightarrow> 'd org_db \<Rightarrow> u128 \<Rightarrow> 'd \<Rightarrow> unit res \<times> 'd" where
  "delete_biz_tag disp db i d =
     (case t_delete (od_tags db) (\<lambda>t. btr_id t = i) d of
        (Inl e, d') \<Rightarrow> (Inl (DatabaseError e), d')
      | (Inr n, d') \<Rightarrow> (if n = 0 then Inl (missing_row ''BizTag'' (disp i)) else Inr (), d'))"

definition tag_filter :: "u128 \<Rightarrow> u128 option \<Rightarrow> biz_tag_row \<Rightarrow> bool" where
  "tag_filter ws grp t =
     (btr_workspace t = ws \<and> (case grp of Some g \<Rightarrow> btr_group t = g | None \<Rightarrow> True))"

definition list_biz_tags ::
  "'d org_db \<Rightarrow> u128 \<Rightarrow> u128 option \<Rightarrow> nat option \<Rightarrow> nat option \<Rightarrow> 'd \<Rightarrow> biz_tag list res \<times> 'd" where
  "list_biz_tags db ws grp lim off d =
     (case t_all (od_tags db) (tag_filter ws grp) lim off d of
        (x, d') \<Rightarrow> (map_sum id (map biz_tag_of) (db_error x), d'))"

definition list_biz_tags_by_workspace_group ::
  "'d org_db \<Rightarrow> u128 \<Rightarrow> u128 \<Rightarrow> 'd \<Rightarrow> biz_tag list res \<times> 'd" where
  "list_biz_tags_by_workspace_group db ws grp d =
     (case t_all (od_tags db) (\<lambda>t. btr_workspace t = ws \<and> btr_group t = grp) None None d of
        (x, d') \<Rightarrow> (map_sum id (map biz_tag_of) (db_error x), d'))"

definition count_biz_tags_by_group :: "'d org_db \<Rightarrow> u128 \<Rightarrow> 'd \<Rightarrow> nat res \<times> 'd" where
  "count_biz_tags_by_group db grp d =
     (case t_count (od_tags db) (\<lambda>t. btr_group t = grp) d of (x, d') \<Rightarrow> (db_error x, d'))"

definition count_biz_tags :: "'d org_db \<Rightarrow> u128 \<Rightarrow> u128 option \<Rightarrow> 'd \<Rightarrow> nat res \<times> 'd" where
  "count_biz_tags db ws grp d =
     (case t_count (od_tags db) (tag_filter ws grp) d of (x, d') \<Rightarrow> (db_error x, d'))"

section \<open>The contract of the three tables\<close>

definition gone :: "('r \<Rightarrow> 'k) \<Rightarrow> 'r list \<Rightarrow> 'r list \<Rightarrow> 'k set" where
  "gone key before after = key ` set before - key ` set after"

locale org_store =
  workspaces: sql_table "od_ws db" wrows ws_clash +
  groups: sql_table "od_groups db" grows group_clash +
  tags: sql_table "od_tags db" trows tag_clash +
  ws_frame: sql_frame "od_ws db" "\<lambda>d. (grows d, trows d)" +
  group_frame: sql_frame "od_groups db" "\<lambda>d. (wrows d, trows d)" +
  tag_frame: sql_frame "od_tags db" "\<lambda>d. (wrows d, grows d)"
  for db :: "'d org_db" and wrows :: "'d \<Rightarrow> workspace_row list" and grows :: "'d \<Rightarrow> group_row list"
    and trows :: "'d \<Rightarrow> biz_tag_row list" +
  assumes ws_cascade: "t_delete (od_ws db) p d = (x, d') \<Longrightarrow>
      grows d' = filter (\<lambda>g. grp_workspace g \<notin> gone ws_id (wrows d) (wrows d')) (grows d) \<and>
      trows d' = filter (\<lambda>t. btr_workspace t \<notin> gone ws_id (wrows d) (wrows d') \<and>
        btr_group t \<notin> gone grp_id (grows d) (grows d')) (trows d)"
    and group_cascade: "t_delete (od_groups db) q d = (x, d') \<Longrightarrow>
      wrows d' = wrows d \<and> trows d' = filter (\<lambda>t. btr_group t \<notin> gone grp_id (grows d) (grows d')) (trows d)"
    and tag_delete_frame: "t_delete (od_tags db) r d = (x, d') \<Longrightarrow> wrows d' = wrows d \<and> grows d' = grows d"

text \<open>Every reference leads to a row.\<close>

definition refs_ok :: "workspace_row list \<Rightarrow> group_row list \<Rightarrow> biz_tag_row list \<Rightarrow> bool" where
  "refs_ok ws gs ts \<longleftrightarrow>
     grp_workspace ` set gs \<subseteq> ws_id ` set ws \<and>
     btr_workspace ` set ts \<subseteq> ws_id ` set ws \<and> btr_group ` set ts \<subseteq> grp_id ` set gs"

lemma apply_where_key: "(\<And>r. key (f r) = key r) \<Longrightarrow> key ` set (apply_where p f rs) = key ` set rs"
proof -
  assume "\<And>r. key (f r) = key r"
  then have "map key (apply_where p f rs) = map key rs" by (simp add: apply_where_def)
  then show ?thesis by (metis set_map)
qed

lemma update_key:
  "rs' \<in> {rs, apply_where p f rs} \<Longrightarrow> (\<And>r. key (f r) = key r) \<Longrightarrow> key ` set rs' = key ` set rs"
  by (elim insertE) (simp_all add: apply_where_key)

lemma refs_ok_mono:
  assumes "refs_ok ws gs ts" "ws_id ` set ws \<subseteq> ws_id ` set ws'" "grp_id ` set gs \<subseteq> grp_id ` set gs'"
    and "grp_workspace ` set gs' \<subseteq> grp_workspace ` set gs \<union> ws_id ` set ws"
    and "btr_workspace ` set ts' \<subseteq> btr_workspace ` set ts \<union> ws_id ` set ws"
    and "btr_group ` set ts' \<subseteq> btr_group ` set ts \<union> grp_id ` set gs"
  shows "refs_ok ws' gs' ts'"
proof -
  have "grp_workspace ` set gs \<union> ws_id ` set ws \<subseteq> ws_id ` set ws'"
    "btr_workspace ` set ts \<union> ws_id ` set ws \<subseteq> ws_id ` set ws'"
    "btr_group ` set ts \<union> grp_id ` set gs \<subseteq> grp_id ` set gs'"
    using assms(1-3) unfolding refs_ok_def by (meson Un_least order_trans)+
  then show ?thesis using assms(4-6) unfolding refs_ok_def by (meson order_trans)
qed

context org_store
begin

lemma ws_find_same:
  assumes "t_find (od_ws db) p d = (x, d')"
  shows "wrows d' = wrows d" "grows d' = grows d" "trows d' = trows d"
  using workspaces.find_law [OF assms] ws_frame.find_frame [OF assms] by simp_all

lemma group_find_same:
  assumes "t_find (od_groups db) p d = (x, d')"
  shows "wrows d' = wrows d" "grows d' = grows d" "trows d' = trows d"
  using groups.find_law [OF assms] group_frame.find_frame [OF assms] by simp_all

lemma tag_find_same:
  assumes "t_find (od_tags db) p d = (x, d')"
  shows "wrows d' = wrows d" "grows d' = grows d" "trows d' = trows d"
  using tags.find_law [OF assms] tag_frame.find_frame [OF assms] by simp_all

lemma ws_update_ok:
  assumes "t_update (od_ws db) p f d = (x, d')" "\<And>r. ws_id (f r) = ws_id r"
    and "refs_ok (wrows d) (grows d) (trows d)"
  shows "refs_ok (wrows d') (grows d') (trows d')"
proof -
  have "ws_id ` set (wrows d') = ws_id ` set (wrows d)"
    by (rule update_key [where f = f, OF conjunct1 [OF workspaces.update_law [OF assms(1)]]]) (rule assms)
  then show ?thesis using ws_frame.update_frame [OF assms(1)] assms(3) by (simp add: refs_ok_def)
qed

lemma group_update_ok:
  assumes "t_update (od_groups db) p f d = (x, d')"
    "\<And>r. grp_id (f r) = grp_id r" "\<And>r. grp_workspace (f r) = grp_workspace r"
    and "refs_ok (wrows d) (grows d) (trows d)"
  shows "refs_ok (wrows d') (grows d') (trows d')"
proof -
  have "grp_id ` set (grows d') = grp_id ` set (grows d)"
    "grp_workspace ` set (grows d') = grp_workspace ` set (grows d)"
    by (rule update_key [where f = f, OF conjunct1 [OF groups.update_law [OF assms(1)]]], rule assms)+
  then show ?thesis using group_frame.update_frame [OF assms(1)] assms(4) by (simp add: refs_ok_def)
qed

lemma tag_update_ok:
  assumes "t_update (od_tags db) p f d = (x, d')"
    "\<And>r. btr_group (f r) = btr_group r" "\<And>r. btr_workspace (f r) = btr_workspace r"
    and "refs_ok (wrows d) (grows d) (trows d)"
  shows "refs_ok (wrows d') (grows d') (trows d')"
proof -
  have "btr_group ` set (trows d') = btr_group ` set (trows d)"
    "btr_workspace ` set (trows d') = btr_workspace ` set (trows d)"
    by (rule update_key [where f = f, OF conjunct1 [OF tags.update_law [OF assms(1)]]], rule assms)+
  then show ?thesis using tag_frame.update_frame [OF assms(1)] assms(4) by (simp add: refs_ok_def)
qed

lemma create_workspace_ok:
  assumes "create_workspace uuid now db req d = (x, d')" "refs_ok (wrows d) (grows d) (trows d)"
  shows "refs_ok (wrows d') (grows d') (trows d')"
proof -
  obtain y m where i: "t_insert (od_ws db) m d = (y, d')"
    using assms(1) by (auto simp: create_workspace_def split: prod.splits)
  show ?thesis
    by (rule refs_ok_mono [OF assms(2)])
      (use workspaces.insert_law [OF i] ws_frame.insert_frame [OF i] in auto)
qed

lemma create_group_ok:
  assumes "create_group disp uuid now db req d = (x, d')" "refs_ok (wrows d) (grows d) (trows d)"
  shows "refs_ok (wrows d') (grows d') (trows d')"
proof -
  obtain y d1 where f: "t_find (od_ws db) (\<lambda>w. ws_id w = cg_workspace req) d = (y, d1)"
    by (cases "t_find (od_ws db) (\<lambda>w. ws_id w = cg_workspace req) d")
  note same = ws_find_same [OF f]
  show ?thesis
  proof (cases "\<exists>w. y = Inr (Some w)")
    case True
    then have "cg_workspace req \<in> ws_id ` set (wrows d)" using workspaces.find_law [OF f]
      by (auto intro: rev_image_eqI)
    moreover obtain z m where i: "t_insert (od_groups db) m d1 = (z, d')" "grp_workspace m = cg_workspace req"
      using assms(1) f True by (auto simp: create_group_def split: prod.splits)
    ultimately show ?thesis
      using groups.insert_law [OF i(1)] group_frame.insert_frame [OF i(1)] same
      by (intro refs_ok_mono [OF assms(2)]) auto
  next
    case False
    then have "d' = d1" using assms(1) f by (auto simp: create_group_def split: sum.splits option.splits)
    then show ?thesis using same assms(2) by simp
  qed
qed

lemma create_biz_tag_ok:
  assumes "create_biz_tag disp uuid now db req d = (x, d')" "refs_ok (wrows d) (grows d) (trows d)"
  shows "refs_ok (wrows d') (grows d') (trows d')"
proof -
  obtain y d1 where f: "t_find (od_ws db) (\<lambda>w. ws_id w = cb_workspace req) d = (y, d1)"
    by (cases "t_find (od_ws db) (\<lambda>w. ws_id w = cb_workspace req) d")
  obtain z d2 where g: "t_find (od_groups db) (\<lambda>g. grp_id g = cb_group req) d1 = (z, d2)"
    by (cases "t_find (od_groups db) (\<lambda>g. grp_id g = cb_group req) d1")
  note same = ws_find_same [OF f] group_find_same [OF g]
  consider "\<exists>w. y = Inr (Some w)" "\<exists>g. z = Inr (Some g)" | "d' = d1" | "d' = d2"
    using assms(1) f g by (auto simp: create_biz_tag_def split: sum.splits option.splits)
  then show ?thesis
  proof cases
    case 1
    then have "cb_workspace req \<in> ws_id ` set (wrows d)" "cb_group req \<in> grp_id ` set (grows d)"
      using workspaces.find_law [OF f] groups.find_law [OF g] same
      by (auto intro: rev_image_eqI)
    moreover obtain v m where i: "t_insert (od_tags db) m d2 = (v, d')"
      "btr_workspace m = cb_workspace req" "btr_group m = cb_group req"
      using assms(1) f g 1 by (auto simp: create_biz_tag_def split: prod.splits)
    ultimately show ?thesis
      using tags.insert_law [OF i(1)] tag_frame.insert_frame [OF i(1)] same
      by (intro refs_ok_mono [OF assms(2)]) auto
  qed (use same assms(2) in simp_all)
qed

lemma update_workspace_ok:
  assumes "update_workspace disp now db i req d = (x, d')" "refs_ok (wrows d) (grows d) (trows d)"
  shows "refs_ok (wrows d') (grows d') (trows d')"
proof -
  obtain y d1 where f: "t_find (od_ws db) (\<lambda>w. ws_id w = i) d = (y, d1)"
    by (cases "t_find (od_ws db) (\<lambda>w. ws_id w = i) d")
  have ok: "refs_ok (wrows d1) (grows d1) (trows d1)" using ws_find_same [OF f] assms(2) by simp
  show ?thesis
  proof (cases "\<exists>e. y = Inr (Some e)")
    case True
    then obtain z p g where u: "t_update (od_ws db) p g d1 = (z, d')" "\<And>w. ws_id (g w) = ws_id w"
      using assms(1) f by (auto simp: update_workspace_def split: prod.splits)
    show ?thesis by (rule ws_update_ok [OF u ok])
  next
    case False
    then have "d' = d1" using assms(1) f by (auto simp: update_workspace_def split: sum.splits option.splits)
    then show ?thesis using ok by simp
  qed
qed

lemma update_group_ok:
  assumes "update_group disp now db i req d = (x, d')" "refs_ok (wrows d) (grows d) (trows d)"
  shows "refs_ok (wrows d') (grows d') (trows d')"
proof -
  obtain y d1 where f: "t_find (od_groups db) (\<lambda>w. grp_id w = i) d = (y, d1)"
    by (cases "t_find (od_groups db) (\<lambda>w. grp_id w = i) d")
  have ok: "refs_ok (wrows d1) (grows d1) (trows d1)" using group_find_same [OF f] assms(2) by simp
  show ?thesis
  proof (cases "\<exists>e. y = Inr (Some e)")
    case True
    then obtain z p g where u: "t_update (od_groups db) p g d1 = (z, d')" "\<And>w. grp_id (g w) = grp_id w"
        "\<And>w. grp_workspace (g w) = grp_workspace w"
      using assms(1) f by (auto simp: update_group_def split: prod.splits)
    show ?thesis by (rule group_update_ok [OF u ok])
  next
    case False
    then have "d' = d1" using assms(1) f by (auto simp: update_group_def split: sum.splits option.splits)
    then show ?thesis using ok by simp
  qed
qed

lemma update_biz_tag_ok:
  assumes "update_biz_tag disp now db i req d = (x, d')" "refs_ok (wrows d) (grows d) (trows d)"
  shows "refs_ok (wrows d') (grows d') (trows d')"
proof -
  obtain y d1 where f: "t_find (od_tags db) (\<lambda>w. btr_id w = i) d = (y, d1)"
    by (cases "t_find (od_tags db) (\<lambda>w. btr_id w = i) d")
  have ok: "refs_ok (wrows d1) (grows d1) (trows d1)" using tag_find_same [OF f] assms(2) by simp
  show ?thesis
  proof (cases "\<exists>e. y = Inr (Some e)")
    case True
    then obtain z p g where u: "t_update (od_tags db) p g d1 = (z, d')"
        "\<And>w. btr_group (g w) = btr_group w" "\<And>w. btr_workspace (g w) = btr_workspace w"
      using assms(1) f by (auto simp: update_biz_tag_def updated_tag_def split: prod.splits)
    show ?thesis by (rule tag_update_ok [OF u ok])
  next
    case False
    then have "d' = d1" using assms(1) f by (auto simp: update_biz_tag_def split: sum.splits option.splits)
    then show ?thesis using ok by simp
  qed
qed

lemma delete_workspace_ok:
  assumes "delete_workspace disp db i d = (x, d')" "refs_ok (wrows d) (grows d) (trows d)"
  shows "refs_ok (wrows d') (grows d') (trows d')"
proof -
  obtain y where dl: "t_delete (od_ws db) (\<lambda>w. ws_id w = i) d = (y, d')"
    using assms(1) by (auto simp: delete_workspace_def split: prod.splits sum.splits if_splits)
  from ws_cascade [OF dl] assms(2) show ?thesis
    by (auto simp: refs_ok_def gone_def)
qed

lemma delete_group_ok:
  assumes "delete_group disp db i d = (x, d')" "refs_ok (wrows d) (grows d) (trows d)"
  shows "refs_ok (wrows d') (grows d') (trows d')"
proof -
  obtain y where dl: "t_delete (od_groups db) (\<lambda>g. grp_id g = i) d = (y, d')"
    using assms(1) by (auto simp: delete_group_def split: prod.splits sum.splits if_splits)
  have "set (grows d') \<subseteq> set (grows d)" using groups.delete_law [OF dl] by auto
  with group_cascade [OF dl] assms(2) show ?thesis by (auto simp: refs_ok_def gone_def)
qed

lemma delete_biz_tag_ok:
  assumes "delete_biz_tag disp db i d = (x, d')" "refs_ok (wrows d) (grows d) (trows d)"
  shows "refs_ok (wrows d') (grows d') (trows d')"
proof -
  obtain y where dl: "t_delete (od_tags db) (\<lambda>t. btr_id t = i) d = (y, d')"
    using assms(1) by (auto simp: delete_biz_tag_def split: prod.splits sum.splits if_splits)
  have "set (trows d') \<subseteq> set (trows d)" using tags.delete_law [OF dl] by auto
  then have "btr_workspace ` set (trows d') \<subseteq> btr_workspace ` set (trows d)"
    "btr_group ` set (trows d') \<subseteq> btr_group ` set (trows d)" by (simp_all add: image_mono)
  then show ?thesis using tag_delete_frame [OF dl] by (intro refs_ok_mono [OF assms(2)]) auto
qed

end

section \<open>Sequences of operations\<close>

datatype org_op =
    CreateWorkspace u128 int create_workspace_request
  | UpdateWorkspace int u128 update_workspace_request
  | DeleteWorkspace u128
  | CreateGroup u128 int create_group_request
  | UpdateGroup int u128 update_group_request
  | DeleteGroup u128
  | CreateTag u128 int create_biz_tag_request
  | UpdateTag int u128 update_biz_tag_request
  | DeleteTag u128

fun org_step :: "(u128 \<Rightarrow> string) \<Rightarrow> 'd org_db \<Rightarrow> org_op \<Rightarrow> 'd \<Rightarrow> 'd" where
  "org_step disp db (CreateWorkspace i now req) d = snd (create_workspace i now db req d)"
| "org_step disp db (UpdateWorkspace now i req) d = snd (update_workspace disp now db i req d)"
| "org_step disp db (DeleteWorkspace i) d = snd (delete_workspace disp db i d)"
| "org_step disp db (CreateGroup i now req) d = snd (create_group disp i now db req d)"
| "org_step disp db (UpdateGroup now i req) d = snd (update_group disp now db i req d)"
| "org_step disp db (DeleteGroup i) d = snd (delete_group disp db i d)"
| "org_step disp db (CreateTag i now req) d = snd (create_biz_tag disp i now db req d)"
| "org_step disp db (UpdateTag now i req) d = snd (update_biz_tag disp now db i req d)"
| "org_step disp db (DeleteTag i) d = snd (delete_biz_tag disp db i d)"

context org_store
begin

lemma org_step_ok:
  assumes "refs_ok (wrows d) (grows d) (trows d)"
  shows "refs_ok (wrows (org_step disp db c d)) (grows (org_step disp db c d)) (trows (org_step disp db c d))"
  by (cases c)
    (simp_all, (rule create_workspace_ok update_workspace_ok delete_workspace_ok create_group_ok
       update_group_ok delete_group_ok create_biz_tag_ok update_biz_tag_ok delete_biz_tag_ok,
       rule prod.collapse [symmetric], rule assms)+)

lemma org_run_ok:
  "refs_ok (wrows d) (grows d) (trows d) \<Longrightarrow>
     refs_ok (wrows (fold (org_step disp db) cs d)) (grows (fold (org_step disp db) cs d))
       (trows (fold (org_step disp db) cs d))"
  by (induction cs arbitrary: d) (simp_all add: org_step_ok)

text \<open>An update that finds the tag changes exactly it, and the answer is the row it leaves.\<close>

lemma update_biz_tag_effect:
  assumes "update_biz_tag disp now db i req d = (Inr t, d')" "distinct (map btr_id (trows d))"
  shows "\<exists>r \<in> set (trows d). btr_id r = i \<and> t = biz_tag_of (updated_tag now req r r) \<and>
           trows d' = apply_where (\<lambda>t. btr_id t = i) (updated_tag now req r) (trows d)"
proof -
  obtain r d1 where f: "t_find (od_tags db) (\<lambda>t. btr_id t = i) d = (Inr (Some r), d1)"
    using assms(1) by (auto simp: update_biz_tag_def split: prod.splits sum.splits option.splits)
  then have r: "r \<in> set (trows d)" "btr_id r = i" using tags.find_law [OF f] by simp_all
  obtain r' where u: "t_update (od_tags db) (\<lambda>t. btr_id t = i) (updated_tag now req r) d1 = (Inr r', d')"
      "t = biz_tag_of r'"
    using assms(1) f r(2)
    by (cases "t_update (od_tags db) (\<lambda>t. btr_id t = i) (updated_tag now req r) d1")
      (auto simp: update_biz_tag_def db_error_def map_sum_def split: sum.splits)
  have same: "trows d1 = trows d" by (rule tag_find_same [OF f])
  obtain s where s: "s \<in> set (trows d)" "btr_id s = i" "r' = updated_tag now req r s"
    using tags.update_law [OF u(1)] same by auto
  have "s = r" using s(1,2) r assms(2) by (metis distinct_map inj_on_eq_iff)
  then show ?thesis using tags.update_law [OF u(1)] same r s(3) u(2) by auto
qed

text \<open>What a listing answers lies in its own workspace.\<close>

lemma list_biz_tags_effect:
  assumes "list_biz_tags db ws grp lim off d = (Inr ts, d')"
  shows "\<forall>t \<in> set ts. bt_workspace t = ws \<and> (\<forall>g. grp = Some g \<longrightarrow> bt_group t = g)"
proof -
  obtain rs where l: "t_all (od_tags db) (tag_filter ws grp) lim off d = (Inr rs, d')" "ts = map biz_tag_of rs"
    using assms by (auto simp: list_biz_tags_def db_error_def map_sum_def split: prod.splits sum.splits)
  have "set rs \<subseteq> {r \<in> set (trows d). tag_filter ws grp r}"
    using tags.all_law [OF l(1)] set_mset_mono by fastforce
  then show ?thesis by (auto simp: l(2) biz_tag_of_def tag_filter_def)
qed

lemma get_biz_tag_effect:
  assumes "get_biz_tag db i d = (Inr (Some t), d')"
  shows "\<exists>r \<in> set (trows d). btr_id r = i \<and> t = biz_tag_of r" "wrows d' = wrows d" "grows d' = grows d"
    "trows d' = trows d"
proof -
  obtain r where f: "t_find (od_tags db) (\<lambda>t. btr_id t = i) d = (Inr (Some r), d')" "t = biz_tag_of r"
    using assms by (auto simp: get_biz_tag_def db_error_def map_sum_def split: prod.splits sum.splits)
  show "\<exists>r \<in> set (trows d). btr_id r = i \<and> t = biz_tag_of r" "wrows d' = wrows d" "grows d' = grows d"
    "trows d' = trows d"
    using tags.find_law [OF f(1)] f(2) tag_find_same [OF f(1)] by auto
qed

end

section \<open>Three concrete tables\<close>

record org_tables =
  ot_ws :: "workspace_row list_table"
  ot_groups :: "group_row list_table"
  ot_tags :: "biz_tag_row list_table"

definition cascade_ws :: "org_tables \<Rightarrow> org_tables \<Rightarrow> org_tables" where
  "cascade_ws d d' =
     (let dead = gone ws_id (lt_rows (ot_ws d)) (lt_rows (ot_ws d'));
          gs = filter (\<lambda>g. grp_workspace g \<notin> dead) (lt_rows (ot_groups d'));
          orphans = gone grp_id (lt_rows (ot_groups d')) gs
      in d'\<lparr>ot_groups := (ot_groups d')\<lparr>lt_rows := gs\<rparr>,
            ot_tags := (ot_tags d')\<lparr>lt_rows :=
              filter (\<lambda>t. btr_workspace t \<notin> dead \<and> btr_group t \<notin> orphans) (lt_rows (ot_tags d'))\<rparr>\<rparr>)"

definition cascade_group :: "org_tables \<Rightarrow> org_tables \<Rightarrow> org_tables" where
  "cascade_group d d' =
     d'\<lparr>ot_tags := (ot_tags d')\<lparr>lt_rows :=
       filter (\<lambda>t. btr_group t \<notin> gone grp_id (lt_rows (ot_groups d)) (lt_rows (ot_groups d')))
         (lt_rows (ot_tags d'))\<rparr>\<rparr>"

definition org_tables_db :: "org_tables org_db" where
  "org_tables_db =
     \<lparr>od_ws = on_table ot_ws (\<lambda>t d. d\<lparr>ot_ws := t\<rparr>) cascade_ws (lt_ops ws_clash),
      od_groups = on_table ot_groups (\<lambda>t d. d\<lparr>ot_groups := t\<rparr>) cascade_group (lt_ops group_clash),
      od_tags = on_table ot_tags (\<lambda>t d. d\<lparr>ot_tags := t\<rparr>) (\<lambda>_ d'. d') (lt_ops tag_clash)\<rparr>"

definition ws_rows :: "org_tables \<Rightarrow> workspace_row list" where "ws_rows d = lt_rows (ot_ws d)"
definition group_rows :: "org_tables \<Rightarrow> group_row list" where "group_rows d = lt_rows (ot_groups d)"
definition tag_rows :: "org_tables \<Rightarrow> biz_tag_row list" where "tag_rows d = lt_rows (ot_tags d)"

lemma org_rows_eta:
  "ws_rows = (\<lambda>d. lt_rows (ot_ws d))" "group_rows = (\<lambda>d. lt_rows (ot_groups d))"
  "tag_rows = (\<lambda>d. lt_rows (ot_tags d))"
  by (simp_all add: fun_eq_iff ws_rows_def group_rows_def tag_rows_def)

interpretation org_list: org_store org_tables_db ws_rows group_rows tag_rows
proof (intro org_store.intro org_store_axioms.intro)
  show "sql_table (od_ws org_tables_db) ws_rows ws_clash"
    unfolding org_tables_db_def org_db.simps org_rows_eta
    by (rule sql_table_on [OF list_table.sql_table_axioms]) (simp_all add: cascade_ws_def Let_def)
  show "sql_table (od_groups org_tables_db) group_rows group_clash"
    unfolding org_tables_db_def org_db.simps org_rows_eta
    by (rule sql_table_on [OF list_table.sql_table_axioms]) (simp_all add: cascade_group_def)
  show "sql_table (od_tags org_tables_db) tag_rows tag_clash"
    unfolding org_tables_db_def org_db.simps org_rows_eta
    by (rule sql_table_on [OF list_table.sql_table_axioms]) simp_all
  show "sql_frame (od_ws org_tables_db) (\<lambda>d. (group_rows d, tag_rows d))"
    unfolding org_tables_db_def org_db.simps by (rule sql_frame_on) (simp add: org_rows_eta)
  show "sql_frame (od_groups org_tables_db) (\<lambda>d. (ws_rows d, tag_rows d))"
    unfolding org_tables_db_def org_db.simps by (rule sql_frame_on) (simp add: org_rows_eta)
  show "sql_frame (od_tags org_tables_db) (\<lambda>d. (ws_rows d, group_rows d))"
    unfolding org_tables_db_def org_db.simps by (rule sql_frame_on) (simp add: org_rows_eta)
next
  fix p d x d'
  assume del: "t_delete (od_ws org_tables_db) p d = (x, d')"
  obtain t where "d' = cascade_ws d (d\<lparr>ot_ws := t\<rparr>)"
    using on_table_delete [OF del [unfolded org_tables_db_def org_db.simps]] ..
  then show "group_rows d' = filter (\<lambda>g. grp_workspace g \<notin> gone ws_id (ws_rows d) (ws_rows d')) (group_rows d) \<and>
      tag_rows d' = filter (\<lambda>t. btr_workspace t \<notin> gone ws_id (ws_rows d) (ws_rows d') \<and>
        btr_group t \<notin> gone grp_id (group_rows d) (group_rows d')) (tag_rows d)"
    by (simp add: cascade_ws_def Let_def org_rows_eta)
next
  fix q d x d'
  assume del: "t_delete (od_groups org_tables_db) q d = (x, d')"
  obtain t where "d' = cascade_group d (d\<lparr>ot_groups := t\<rparr>)"
    using on_table_delete [OF del [unfolded org_tables_db_def org_db.simps]] ..
  then show "ws_rows d' = ws_rows d \<and>
      tag_rows d' = filter (\<lambda>t. btr_group t \<notin> gone grp_id (group_rows d) (group_rows d')) (tag_rows d)"
    by (simp add: cascade_group_def org_rows_eta)
next
  fix r d x d'
  assume del: "t_delete (od_tags org_tables_db) r d = (x, d')"
  obtain t where "d' = d\<lparr>ot_tags := t\<rparr>"
    using on_table_delete [OF del [unfolded org_tables_db_def org_db.simps]] ..
  then show "ws_rows d' = ws_rows d \<and> group_rows d' = group_rows d" by (simp add: org_rows_eta)
qed

section \<open>Properties\<close>

definition no_tables :: org_tables where
  "no_tables = \<lparr>ot_ws = \<lparr>lt_rows = [], lt_faults = []\<rparr>, ot_groups = \<lparr>lt_rows = [], lt_faults = []\<rparr>,
     ot_tags = \<lparr>lt_rows = [], lt_faults = []\<rparr>\<rparr>"

definition demo_tag_request :: "u128 \<Rightarrow> u128 \<Rightarrow> create_biz_tag_request" where
  "demo_tag_request ws grp =
     \<lparr>cb_workspace = ws, cb_group = grp, cb_name = ''order'', cb_description = None, cb_algorithm = None,
      cb_format = None, cb_prefix = None, cb_base_step = None, cb_max_step = None,
      cb_datacenter_ids = Some [1, 2]\<rparr>"

definition demo_org :: "org_op list" where
  "demo_org =
     [CreateWorkspace 1 0 \<lparr>cw_name = ''a'', cw_description = None, cw_max_groups = None, cw_max_biz_tags = None\<rparr>,
      CreateWorkspace 2 0 \<lparr>cw_name = ''b'', cw_description = None, cw_max_groups = None, cw_max_biz_tags = None\<rparr>,
      CreateGroup 5 0 \<lparr>cg_workspace = 2, cg_name = ''g'', cg_description = None, cg_max_biz_tags = None\<rparr>,
      CreateTag 7 0 (demo_tag_request 1 5)]"

definition demo_rename :: update_biz_tag_request where
  "demo_rename =
     \<lparr>ub_name = Some ''orders'', ub_description = None, ub_algorithm = None, ub_format = None,
      ub_prefix = None, ub_base_step = None, ub_max_step = None, ub_datacenter_ids = None\<rparr>"

definition demo_org_state :: org_tables where
  "demo_org_state = fold (org_step (\<lambda>_. ''id'') org_tables_db) demo_org no_tables"

lemma demo_org_rows:
  "map ws_id (ws_rows demo_org_state) = [1, 2] \<and>
   map (\<lambda>g. (grp_id g, grp_workspace g)) (group_rows demo_org_state) = [(5, 2)] \<and>
   map (\<lambda>t. (btr_id t, btr_workspace t, btr_group t)) (tag_rows demo_org_state) = [(7, 1, 5)] \<and>
   map btr_datacenter_ids (tag_rows demo_org_state) = [[1, 2]]"
  by code_simp

text \<open>
  Referential integrity: from tables in which every group names a workspace that exists, and every tag a
  workspace and a group that exist, the same holds after any sequence of the nine writing operations
  modelled here, whatever each of them answers. That a deletion leaves no dangling reference is the
  cascade of the foreign keys, a law of the tables.
\<close>

theorem org_references_valid:
  assumes "org_store db wrows grows trows" "refs_ok (wrows d) (grows d) (trows d)"
    and "d' = fold (org_step disp db) cs d"
  shows "refs_ok (wrows d') (grows d') (trows d')"
  unfolding assms(3) by (rule org_store.org_run_ok [OF assms(1,2)])

lemma org_references_valid_witness:
  "refs_ok (ws_rows demo_org_state) (group_rows demo_org_state) (tag_rows demo_org_state) \<and>
     length (tag_rows demo_org_state) = 1"
proof
  show "refs_ok (ws_rows demo_org_state) (group_rows demo_org_state) (tag_rows demo_org_state)"
    by (rule org_references_valid [OF org_list.org_store_axioms _ demo_org_state_def])
      (simp add: refs_ok_def no_tables_def org_rows_eta)
  show "length (tag_rows demo_org_state) = 1"
    using demo_org_rows by (metis length_map length_Cons list.size(3) One_nat_def)
qed

text \<open>
  An update of a tag that does not name its data centres resets them to the list \<open>[0]\<close>, while every
  other column that the request leaves out keeps its value.
\<close>

theorem tag_update_resets_datacenters:
  assumes "org_store db wrows grows trows" "distinct (map btr_id (trows d))"
    and "update_biz_tag disp now db i req d = (Inr t, d')" "ub_datacenter_ids req = None"
  shows "bt_datacenter_ids t = [0] \<and>
     (\<exists>r \<in> set (trows d). btr_id r = i \<and> bt_workspace t = btr_workspace r \<and> bt_group t = btr_group r \<and>
        (ub_prefix req = None \<longrightarrow> bt_prefix t = btr_prefix r) \<and>
        (ub_base_step req = None \<longrightarrow> bt_base_step t = btr_base_step r) \<and>
        (ub_max_step req = None \<longrightarrow> bt_max_step t = btr_max_step r))"
proof -
  obtain r where "r \<in> set (trows d)" "btr_id r = i" "t = biz_tag_of (updated_tag now req r r)"
    using org_store.update_biz_tag_effect [OF assms(1,3,2)] by blast
  then show ?thesis using assms(4) by (auto simp: biz_tag_of_def updated_tag_def unwrap_or_def)
qed

lemma tag_update_resets_datacenters_witness:
  "bt_datacenter_ids (projr (fst (update_biz_tag (\<lambda>_. ''id'') 9 org_tables_db 7 demo_rename demo_org_state))) = [0] \<and>
     map btr_datacenter_ids (tag_rows demo_org_state) = [[1, 2]]"
proof -
  obtain t d' where u: "update_biz_tag (\<lambda>_. ''id'') 9 org_tables_db 7 demo_rename demo_org_state = (Inr t, d')"
  proof -
    have "\<not> isl (fst (update_biz_tag (\<lambda>_. ''id'') 9 org_tables_db 7 demo_rename demo_org_state))"
      by code_simp
    then show ?thesis using that by (metis not_isl_fst)
  qed
  have "map btr_id (tag_rows demo_org_state) = [7]" by code_simp
  then have "distinct (map btr_id (tag_rows demo_org_state))" by simp
  from tag_update_resets_datacenters [OF org_list.org_store_axioms this u] demo_org_rows u
  show ?thesis by (simp add: demo_rename_def)
qed

text \<open>
  The repository does not compare a tag's workspace with its group's: a tag of one workspace can hang
  in a group of another, and deleting that other workspace deletes the tag of the first.
\<close>

theorem foreign_group_tag_dies_with_it:
  "\<exists>cs d t g w. d = fold (org_step (\<lambda>_. ''id'') org_tables_db) cs no_tables \<and>
     t \<in> set (tag_rows d) \<and> g \<in> set (group_rows d) \<and> btr_group t = grp_id g \<and>
     w = btr_workspace t \<and> w \<noteq> grp_workspace g \<and>
     (case delete_workspace (\<lambda>_. ''id'') org_tables_db (grp_workspace g) d of
        (x, d') \<Rightarrow> x = Inr () \<and> map ws_id (ws_rows d') = [w] \<and> tag_rows d' = [])"
proof (intro exI conjI)
  let ?t = "hd (tag_rows demo_org_state)" and ?g = "hd (group_rows demo_org_state)"
  show "demo_org_state = fold (org_step (\<lambda>_. ''id'') org_tables_db) demo_org no_tables"
    by (rule demo_org_state_def)
  show "?t \<in> set (tag_rows demo_org_state)" "?g \<in> set (group_rows demo_org_state)"
    using demo_org_rows by (auto intro: list.set_sel)
  show "btr_group ?t = grp_id ?g" "btr_workspace ?t \<noteq> grp_workspace ?g" by code_simp+
  show "case delete_workspace (\<lambda>_. ''id'') org_tables_db (grp_workspace ?g) demo_org_state of
      (x, d') \<Rightarrow> x = Inr () \<and> map ws_id (ws_rows d') = [btr_workspace ?t] \<and> tag_rows d' = []"
    by code_simp
qed (rule refl)

end
