(* ===== verification/Key_Handlers.thy ===== *)
theory Key_Handlers
  imports Api_Keys
begin

text \<open>
  Management of API keys: the handlers of \<open>src/src/server/handlers/api_key_handlers.rs\<close> over the
  repository of \<open>Api_Keys\<close>, and the keys the process creates when it starts, \<open>load_api_keys\<close> of
  \<open>src/src/main.rs\<close> in a release build. \<open>key_env\<close> collects the parameters: hashing, the texts of UUIDs,
  errors, times and translations, and the parsers of times and UUIDs.
\<close>

section \<open>Handlers\<close>

record key_env =
  ke_argon2 :: argon2
  ke_pepper :: string
  ke_disp :: "u128 \<Rightarrow> string"
  ke_parse_uuid :: "string \<Rightarrow> u128 option"
  ke_t :: "string \<Rightarrow> (string \<times> string) list \<Rightarrow> string"
  ke_etext :: "core_error \<Rightarrow> string"
  ke_rfc :: "int \<Rightarrow> string"
  ke_parse_rfc :: "string \<Rightarrow> int option"

definition map_db_error :: "(core_error \<Rightarrow> string) \<Rightarrow> 'a res \<Rightarrow> 'a res" where
  "map_db_error etext r = map_sum (\<lambda>e. DatabaseError (etext e)) id r"

record key_request =
  hk_name :: string
  hk_description :: "string option"
  hk_role :: "string option"
  hk_rate_limit :: "int option"
  hk_expires_at :: "string option"

record key_http =
  kh_id :: string
  kh_key_id :: string
  kh_prefix :: string
  kh_name :: string
  kh_description :: "string option"
  kh_role :: string
  kh_rate_limit :: int
  kh_enabled :: bool
  kh_expires_at :: "string option"
  kh_created_at :: string

definition key_http_of :: "key_env \<Rightarrow> api_key_response \<Rightarrow> key_http" where
  "key_http_of env k =
     \<lparr>kh_id = ke_disp env (rs_id k), kh_key_id = rs_key_id k, kh_prefix = rs_prefix k,
      kh_name = rs_name k, kh_description = rs_description k, kh_role = role_text (rs_role k),
      kh_rate_limit = rs_rate_limit k, kh_enabled = rs_enabled k,
      kh_expires_at = map_option (ke_rfc env) (rs_expires_at k),
      kh_created_at = ke_rfc env (rs_created_at k)\<rparr>"

definition key_info_http :: "key_env \<Rightarrow> api_key \<Rightarrow> key_http" where
  "key_info_http env k =
     \<lparr>kh_id = ke_disp env (ak_id k), kh_key_id = ak_key_id k, kh_prefix = ak_prefix k,
      kh_name = ak_name k, kh_description = ak_description k, kh_role = role_text (ak_role k),
      kh_rate_limit = ak_rate_limit k, kh_enabled = ak_enabled k,
      kh_expires_at = map_option (ke_rfc env) (ak_expires_at k),
      kh_created_at = ke_rfc env (ak_created_at k)\<rparr>"

definition repo_missing :: "key_env \<Rightarrow> core_error" where
  "repo_missing env =
     NotFound (ke_t env ''api.error.handlers.workspace_handlers.api_key_repo_not_configured'' [])"

definition key_role_of :: "key_env \<Rightarrow> string option \<Rightarrow> api_key_role res" where
  "key_role_of env role =
     (case role of
        None \<Rightarrow> Inr User
      | Some r \<Rightarrow>
          if r = ''admin'' then Inr Admin
          else if r = ''user'' then Inr User
          else Inl (AuthenticationError
                 (ke_t env ''api.error.handlers.api_key_handlers.invalid_role'' [(''role'', r)])))"

text \<open>The limit of one key per workspace, and of one admin key.\<close>

definition key_precheck ::
  "key_env \<Rightarrow> (api_key_row, 'd) table_ops \<Rightarrow> u128 option \<Rightarrow> api_key_role \<Rightarrow> 'd \<Rightarrow> unit res \<times> 'd" where
  "key_precheck env db ws role d =
     (case role of
        Admin \<Rightarrow>
          (case list_api_keys db 0 (Some 1000) (Some 0) d of
             (Inl e, d') \<Rightarrow> (Inl (DatabaseError (ke_etext env e)), d')
           | (Inr ks, d') \<Rightarrow>
               (if list_ex (\<lambda>k. ak_role k = Admin) ks
                then Inl (AuthenticationError
                       (ke_t env ''api.error.handlers.api_key_handlers.admin_key_already_exists'' []))
                else Inr (), d'))
      | User \<Rightarrow>
          (case ws of
             None \<Rightarrow> (Inl (InvalidInput (ke_t env ''api.error.workspace_id_required'' [])), d)
           | Some w \<Rightarrow>
               (case list_api_keys db w (Some 1000) (Some 0) d of
                  (Inl e, d') \<Rightarrow> (Inl (DatabaseError (ke_etext env e)), d')
                | (Inr ks, d') \<Rightarrow>
                    (if list_ex (\<lambda>k. ak_role k = User) ks
                     then Inl (AuthenticationError
                            (ke_t env ''api.error.handlers.api_key_handlers.user_key_already_exists''
                               [(''workspace_id'', ke_disp env w)]))
                     else Inr (), d')))
      | Anonymous \<Rightarrow> (Inr (), d))"

definition expires_of :: "key_env \<Rightarrow> string option \<Rightarrow> int option res" where
  "expires_of env e =
     (case e of
        None \<Rightarrow> Inr None
      | Some ts \<Rightarrow>
          (case ke_parse_rfc env ts of
             None \<Rightarrow> Inl (InvalidIdFormat ''Invalid expires_at format'')
           | Some x \<Rightarrow> Inr (Some x)))"

definition create_key_handler ::
  "key_env \<Rightarrow> int \<Rightarrow> key_draws \<Rightarrow> (api_key_row, 'd) table_ops option \<Rightarrow> u128 option \<Rightarrow> key_request \<Rightarrow>
   'd \<Rightarrow> (key_http \<times> string) res \<times> 'd" where
  "create_key_handler env now dr repo ws req d =
     (case repo of
        None \<Rightarrow> (Inl (repo_missing env), d)
      | Some db \<Rightarrow>
          (case key_role_of env (hk_role req) of
             Inl e \<Rightarrow> (Inl e, d)
           | Inr role \<Rightarrow>
               (case key_precheck env db ws role d of
                  (Inl e, d1) \<Rightarrow> (Inl e, d1)
                | (Inr (), d1) \<Rightarrow>
                    (case expires_of env (hk_expires_at req) of
                       Inl e \<Rightarrow> (Inl e, d1)
                     | Inr expires \<Rightarrow>
                         (case create_api_key (ke_argon2 env) (ke_disp env) (ke_pepper env) now dr db
                                 \<lparr>cr_workspace = ws, cr_name = hk_name req,
                                  cr_description = hk_description req, cr_role = role,
                                  cr_rate_limit = hk_rate_limit req, cr_expires_at = expires,
                                  cr_secret = None, cr_key_id = None\<rparr> d1 of
                            (Inl e, d2) \<Rightarrow> (Inl (DatabaseError (ke_etext env e)), d2)
                          | (Inr k, d2) \<Rightarrow> (Inr (key_http_of env (ws_key k), ws_secret k), d2))))))"

definition list_keys_handler ::
  "key_env \<Rightarrow> (api_key_row, 'd) table_ops option \<Rightarrow> u128 \<Rightarrow> nat option \<Rightarrow> nat option \<Rightarrow> 'd \<Rightarrow>
   (key_http list \<times> nat) res \<times> 'd" where
  "list_keys_handler env repo ws lim off d =
     (case repo of
        None \<Rightarrow> (Inl (repo_missing env), d)
      | Some db \<Rightarrow>
          (case list_api_keys db ws lim off d of
             (Inl e, d1) \<Rightarrow> (Inl (DatabaseError (ke_etext env e)), d1)
           | (Inr ks, d1) \<Rightarrow>
               (case count_api_keys db ws d1 of
                  (Inl e, d2) \<Rightarrow> (Inl (DatabaseError (ke_etext env e)), d2)
                | (Inr n, d2) \<Rightarrow> (Inr (map (key_info_http env) ks, n), d2))))"

text \<open>The guard of the last admin key, then the deletion.\<close>

definition revoke_precheck ::
  "key_env \<Rightarrow> (api_key_row, 'd) table_ops \<Rightarrow> u128 \<Rightarrow> 'd \<Rightarrow> unit res \<times> 'd" where
  "revoke_precheck env db i d =
     (case get_api_key_by_id db (ke_disp env i) d of
        (Inl e, d1) \<Rightarrow> (Inl (DatabaseError (ke_etext env e)), d1)
      | (Inr None, d1) \<Rightarrow> (Inr (), d1)
      | (Inr (Some k), d1) \<Rightarrow>
          if ak_role k = Admin then
            (case list_api_keys db 0 (Some 1000) (Some 0) d1 of
               (Inl e, d2) \<Rightarrow> (Inl (DatabaseError (ke_etext env e)), d2)
             | (Inr ks, d2) \<Rightarrow>
                 (if length (filter (\<lambda>k. ak_role k = Admin) ks) \<le> 1
                  then Inl (AuthenticationError ''Cannot revoke the last admin key'')
                  else Inr (), d2))
          else (Inr (), d1))"

definition revoke_key_handler ::
  "key_env \<Rightarrow> (api_key_row, 'd) table_ops option \<Rightarrow> u128 \<Rightarrow> 'd \<Rightarrow> string res \<times> 'd" where
  "revoke_key_handler env repo i d =
     (case repo of
        None \<Rightarrow> (Inl (repo_missing env), d)
      | Some db \<Rightarrow>
          (case revoke_precheck env db i d of
             (Inl e, d1) \<Rightarrow> (Inl e, d1)
           | (Inr (), d1) \<Rightarrow>
               (case delete_api_key (ke_disp env) db i d1 of
                  (Inl e, d2) \<Rightarrow> (Inl (DatabaseError (ke_etext env e)), d2)
                | (Inr (), d2) \<Rightarrow>
                    (Inr (ke_t env ''api.success.handlers.api_key_handlers.revoked''
                            [(''id'', ke_disp env i)]), d2))))"

definition rotate_key_handler ::
  "key_env \<Rightarrow> int \<Rightarrow> key_draws \<Rightarrow> u64 \<Rightarrow> (api_key_row, 'd) table_ops option \<Rightarrow> string \<Rightarrow> 'd \<Rightarrow>
   (key_http \<times> string) res \<times> 'd" where
  "rotate_key_handler env now dr grace repo key_id d =
     (if key_id = []
      then (Inl (InvalidInput (ke_t env ''api.error.handlers.api_key_handlers.key_id_empty'' [])), d)
      else case repo of
        None \<Rightarrow> (Inl (repo_missing env), d)
      | Some db \<Rightarrow>
          (case rotate_api_key (ke_argon2 env) (ke_pepper env) now dr db key_id grace d of
             (Inl e, d1) \<Rightarrow> (Inl (DatabaseError (ke_etext env e)), d1)
           | (Inr k, d1) \<Rightarrow> (Inr (key_http_of env (ws_key k), ws_secret k), d1)))"

definition rotation_grace_period :: "u64 \<Rightarrow> u64" where
  "rotation_grace_period seconds =
     (if seconds < 1 then 1 else if 2592000 < seconds then 2592000 else seconds)"

section \<open>Start-up\<close>

record key_entry =
  ce_key_id :: string
  ce_secret :: string
  ce_workspace :: string
  ce_role :: string
  ce_rate_limit :: u32
  ce_name :: string

definition startup_create ::
  "key_env \<Rightarrow> int \<Rightarrow> key_draws \<Rightarrow> (api_key_row, 'd) table_ops \<Rightarrow> create_key_request \<Rightarrow> 'd \<Rightarrow> 'd" where
  "startup_create env now dr db req d =
     snd (create_api_key (ke_argon2 env) (ke_disp env) (ke_pepper env) now dr db req d)"

definition load_api_keys ::
  "key_env \<Rightarrow> int \<Rightarrow> key_draws \<Rightarrow> (api_key_row, 'd) table_ops option \<Rightarrow> string option \<Rightarrow> string option \<Rightarrow>
   key_entry list \<Rightarrow> 'd \<Rightarrow> 'd" where
  "load_api_keys env now dr repo env_secret env_key_id configured d =
     (case repo of
        None \<Rightarrow> d
      | Some db \<Rightarrow>
          (case env_secret of
             Some secret \<Rightarrow>
               startup_create env now dr db
                 \<lparr>cr_workspace = None, cr_name = ''admin'',
                  cr_description = Some ''Admin API key from environment'', cr_role = Admin,
                  cr_rate_limit = Some 100000, cr_expires_at = None, cr_secret = Some secret,
                  cr_key_id = env_key_id\<rparr> d
           | None \<Rightarrow>
               (case configured of
                  k # _ \<Rightarrow>
                    startup_create env now dr db
                      \<lparr>cr_workspace = (if ce_workspace k = ''global'' then None
                         else Some (case ke_parse_uuid env (ce_workspace k) of Some u \<Rightarrow> u | None \<Rightarrow> 0)),
                       cr_name = ce_name k,
                       cr_description = Some (''Configured via config, role: '' @ ce_role k),
                       cr_role = (if to_lowercase (ce_role k) = ''admin'' then Admin else User),
                       cr_rate_limit = Some (sint (ce_rate_limit k)), cr_expires_at = None,
                       cr_secret = Some (ce_secret k), cr_key_id = Some (ce_key_id k)\<rparr> d
                | [] \<Rightarrow>
                    (case get_admin_api_key db 0 d of
                       (Inr None, d1) \<Rightarrow>
                         startup_create env now dr db
                           \<lparr>cr_workspace = None, cr_name = ''admin'',
                            cr_description = Some ''Default Admin API Key'', cr_role = Admin,
                            cr_rate_limit = Some 100000, cr_expires_at = None, cr_secret = None,
                            cr_key_id = None\<rparr> d1
                     | (_, d1) \<Rightarrow> d1))))"

section \<open>What the handlers keep and refuse\<close>

text \<open>
  \<open>admins_global\<close> is the CHECK constraint of the table: an admin key has no workspace. The text of a UUID
  consists of hexadecimal digits and hyphens.
\<close>

definition admins_global :: "api_key_row list \<Rightarrow> bool" where
  "admins_global rs \<longleftrightarrow> (\<forall>m \<in> set rs. k_role m = ''admin'' \<longrightarrow> k_workspace m = None)"

definition uuid_text :: "string \<Rightarrow> bool" where
  "uuid_text s \<longleftrightarrow> set s \<subseteq> set ''0123456789abcdef-''"

definition one_user_key :: "api_key_row list \<Rightarrow> bool" where
  "one_user_key rs \<longleftrightarrow>
     (\<forall>m \<in> set rs. \<forall>m' \<in> set rs. \<forall>ws. k_workspace m = Some ws \<longrightarrow> k_workspace m' = Some ws \<longrightarrow>
        role_of_text (k_role m) = User \<longrightarrow> role_of_text (k_role m') = User \<longrightarrow> k_id m = k_id m')"

lemma key_id_not_uuid: "row_wf m \<Longrightarrow> \<not> uuid_text (k_key_id m)"
proof
  assume "row_wf m" and u: "uuid_text (k_key_id m)"
  then obtain role where "key_prefix_of role = Inr (k_prefix m)"
    and t: "take (length (k_prefix m)) (k_key_id m) = k_prefix m"
    by (auto simp: row_wf_def)
  then have "CHR ''n'' \<in> set (k_prefix m)" by (auto simp: key_prefix_cases)
  then have "CHR ''n'' \<in> set (k_key_id m)" using t by (metis in_set_takeD)
  with u show False by (auto simp: uuid_text_def)
qed

lemma one_user_key_snoc:
  assumes "one_user_key rs"
    and "\<And>w m'. k_workspace m = Some w \<Longrightarrow> role_of_text (k_role m) = User \<Longrightarrow> m' \<in> set rs \<Longrightarrow>
      k_workspace m' = Some w \<Longrightarrow> role_of_text (k_role m') \<noteq> User"
  shows "one_user_key (rs @ [m])"
proof -
  have "k_id x = k_id y" if "x \<in> set (rs @ [m])" "y \<in> set (rs @ [m])" "k_workspace x = Some w"
    "k_workspace y = Some w" "role_of_text (k_role x) = User" "role_of_text (k_role y) = User" for x y w
  proof (cases "x \<in> set rs \<and> y \<in> set rs")
    case True
    with assms(1) that(3-) show ?thesis by (simp add: one_user_key_def)
  next
    case False
    with that(1,2) consider "x = m" "y = m" | "x = m" "y \<in> set rs" | "y = m" "x \<in> set rs" by auto
    then show ?thesis
    proof cases
      case 2
      from assms(2) [OF _ _ this(2) that(4)] that(3,5,6) show ?thesis unfolding 2(1) by blast
    next
      case 3
      from assms(2) [OF _ _ this(2) that(3)] that(4,5,6) show ?thesis unfolding 3(1) by blast
    qed simp
  qed
  then show ?thesis unfolding one_user_key_def by blast
qed

context key_store
begin

lemma revoke_precheck_passes:
  assumes "revoke_precheck env db i d = (x, d1)" "keys_wf (rows d)" "uuid_text (ke_disp env i)"
  shows "rows d1 = rows d" and "x = Inr () \<or> (\<exists>e. x = Inl (DatabaseError e))"
proof -
  obtain y d2 where g: "get_api_key_by_id db (ke_disp env i) d = (y, d2)"
    by (cases "get_api_key_by_id db (ke_disp env i) d")
  note eff = get_by_id_effect [OF g]
  have "y \<noteq> Inr (Some k)" for k
    using eff(2) [of k] assms(2,3) key_id_not_uuid unfolding keys_wf_def by metis
  then consider e where "y = Inl e" | "y = Inr None" by (cases y) auto
  then show "rows d1 = rows d" and "x = Inr () \<or> (\<exists>e. x = Inl (DatabaseError e))"
    using assms(1) g eff(1) by (cases; auto simp: revoke_precheck_def)+
qed

lemma key_precheck_effect:
  assumes "key_precheck env db ws role d = (x, d1)"
  shows "rows d1 = rows d"
    and "role = Admin \<Longrightarrow> admins_global (rows d) \<Longrightarrow> x = Inr () \<or> (\<exists>e. x = Inl (DatabaseError e))"
    and "role = User \<Longrightarrow> x = Inr () \<Longrightarrow> length (rows d) \<le> 1000 \<Longrightarrow>
      \<exists>w. ws = Some w \<and> (\<forall>m \<in> set (rows d). k_workspace m = Some w \<longrightarrow> role_of_text (k_role m) \<noteq> User)"
proof -
  have list: "rows d1 = rows d" if "list_api_keys db w l off d = (y, d1)" for w l off y
    using list_effect(1) [OF that] .
  show "rows d1 = rows d"
    using assms by (auto simp: key_precheck_def split: api_key_role.splits option.splits sum.splits
        prod.splits if_splits dest: list)
  show "x = Inr () \<or> (\<exists>e. x = Inl (DatabaseError e))" if "role = Admin" "admins_global (rows d)"
  proof -
    obtain y d2 where l': "list_api_keys db 0 (Some 1000) (Some 0) d = (y, d2)"
      by (cases "list_api_keys db 0 (Some 1000) (Some 0) d")
    then have l: "list_api_keys db 0 (Some 1000) (Some 0) d = (y, d1)"
      using assms that(1) by (cases y) (auto simp: key_precheck_def)
    have "\<not> list_ex (\<lambda>k. ak_role k = Admin) ks" if "y = Inr ks" for ks
      using list_effect(2) [OF l that] \<open>admins_global (rows d)\<close>
      by (fastforce simp: list_ex_iff admins_global_def api_key_of_def role_of_text_eq_Admin)
    with assms l that(1) show ?thesis by (cases y) (auto simp: key_precheck_def)
  qed
  show "\<exists>w. ws = Some w \<and> (\<forall>m \<in> set (rows d). k_workspace m = Some w \<longrightarrow> role_of_text (k_role m) \<noteq> User)"
    if r: "role = User" "x = Inr ()" and len: "length (rows d) \<le> 1000"
  proof -
    obtain w where w: "ws = Some w" using assms r by (cases ws) (auto simp: key_precheck_def)
    obtain y d2 where l': "list_api_keys db w (Some 1000) (Some 0) d = (y, d2)"
      by (cases "list_api_keys db w (Some 1000) (Some 0) d")
    then obtain ks where y: "y = Inr ks" using assms r w by (cases y) (auto simp: key_precheck_def)
    then have l: "list_api_keys db w (Some 1000) (Some 0) d = (Inr ks, d1)"
      and none: "\<not> list_ex (\<lambda>k. ak_role k = User) ks"
      using l' assms r w by (auto simp: key_precheck_def split: if_splits)
    from none list_effect(3) [OF l refl refl refl len] w show ?thesis
      by (auto simp: list_ex_iff api_key_of_def)
  qed
qed

lemma create_handler_effect:
  assumes "create_key_handler env now dr (Some db) ws req d = (x, d')"
  obtains (role) e where "key_role_of env (hk_role req) = Inl e" "x = Inl e" "rows d' = rows d"
    | (check) role e d1 where "key_role_of env (hk_role req) = Inr role" "x = Inl e" "rows d' = rows d"
        "key_precheck env db ws role d = (Inl e, d1)"
    | (same) e where "x = Inl e" "\<forall>msg. e \<noteq> AuthenticationError msg" "rows d' = rows d"
    | (added) role m d1 where "key_role_of env (hk_role req) = Inr role" "rows d' = rows d @ [m]"
        "key_precheck env db ws role d = (Inr (), d1)" "\<forall>msg. x \<noteq> Inl (AuthenticationError msg)"
        "\<forall>m' \<in> set (rows d). \<not> key_clash m m'" "k_workspace m = ws" "k_role m = role_text role"
        "role \<noteq> Anonymous"
proof (cases "key_role_of env (hk_role req)")
  case (Inl e)
  then show thesis using assms role by (simp add: create_key_handler_def)
next
  case r: (Inr role)
  obtain y d1 where p: "key_precheck env db ws role d = (y, d1)" by (cases "key_precheck env db ws role d")
  note pre = key_precheck_effect(1) [OF p]
  show thesis
  proof (cases y)
    case (Inl e)
    then have "x = Inl e" "d' = d1" using assms r p by (simp_all add: create_key_handler_def)
    then show thesis using check [OF r] pre p Inl by simp
  next
    case (Inr u)
    show thesis
    proof (cases "expires_of env (hk_expires_at req)")
      case (Inl e)
      then have "\<forall>msg. e \<noteq> AuthenticationError msg" by (auto simp: expires_of_def split: option.splits)
      then show thesis using assms r p pre Inr Inl same
        by (auto simp: create_key_handler_def split: unit.splits)
    next
      case e: (Inr expires)
      let ?req = "\<lparr>cr_workspace = ws, cr_name = hk_name req, cr_description = hk_description req,
          cr_role = role, cr_rate_limit = hk_rate_limit req, cr_expires_at = expires, cr_secret = None,
          cr_key_id = None\<rparr>"
      obtain z d2 where c: "create_api_key (ke_argon2 env) (ke_disp env) (ke_pepper env) now dr db ?req d1 = (z, d2)"
        by (cases "create_api_key (ke_argon2 env) (ke_disp env) (ke_pepper env) now dr db ?req d1")
      have x: "d' = d2" "x = (case z of Inl e \<Rightarrow> Inl (DatabaseError (ke_etext env e))
          | Inr k \<Rightarrow> Inr (key_http_of env (ws_key k), ws_secret k))"
        using assms r p Inr e c by (auto simp: create_key_handler_def split: sum.splits unit.splits)
      from create_effect [OF c] show thesis
      proof cases
        case 1
        then show thesis using same x pre by (cases z) auto
      next
        case (2 m h)
        then show thesis
          using added [OF r, of m d1] x pre p Inr by (cases z) auto
      qed
    qed
  qed
qed

end

definition demo_env :: key_env where
  "demo_env =
     \<lparr>ke_argon2 = plain_argon2, ke_pepper = ''pepper'', ke_disp = demo_disp,
      ke_parse_uuid = (\<lambda>s. None), ke_t = (\<lambda>key args. key), ke_etext = (\<lambda>e. []),
      ke_rfc = (\<lambda>t. []), ke_parse_rfc = (\<lambda>s. None)\<rparr>"

definition demo_admin_db :: "api_key_row list_table" where
  "demo_admin_db = snd (demo_create 7 Admin None (key_table []))"

definition demo_key_request :: "string option \<Rightarrow> key_request" where
  "demo_key_request role =
     \<lparr>hk_name = ''k'', hk_description = None, hk_role = role, hk_rate_limit = None, hk_expires_at = None\<rparr>"

lemma demo_admin_wf: "keys_wf (lt_rows demo_admin_db)" "admins_global (lt_rows demo_admin_db)"
proof -
  have "keys_wf (lt_rows (key_table []))" by (simp add: keys_wf_def keys_ok_def key_table_def)
  then show "keys_wf (lt_rows demo_admin_db)"
    unfolding demo_admin_db_def demo_create_def
    by (rule key_table.create_wf [OF prod.collapse [symmetric]])
  have "map (\<lambda>m. (k_role m, k_workspace m)) (lt_rows demo_admin_db) = [(''admin'', None)]" by code_simp
  then show "admins_global (lt_rows demo_admin_db)" by (auto simp: admins_global_def)
qed

text \<open>
  C20. The repository keeps its table well-formed: unique ids and key ids, and every key id under the prefix
  of the role in its row. This holds for every operation and every outcome, faults included.
\<close>

theorem repository_keeps_wf:
  assumes "key_store db rows" "keys_wf (rows d)"
  shows "keys_wf (rows (snd (create_api_key a disp pepper now dr db req d))) \<and>
    keys_wf (rows (snd (validate_api_key a pepper now db key_id secret d))) \<and>
    keys_wf (rows (snd (rotate_api_key a pepper now dr db key_id grace d))) \<and>
    keys_wf (rows (snd (revoke_api_key disp now db i d))) \<and>
    keys_wf (rows (snd (delete_api_key disp db i d)))"
  by (intro conjI key_store.create_wf [OF assms(1) prod.collapse [symmetric] assms(2)]
      key_store.validate_wf [OF assms(1) prod.collapse [symmetric] assms(2)]
      key_store.rotate_wf [OF assms(1) prod.collapse [symmetric] assms(2)]
      key_store.revoke_wf [OF assms(1) prod.collapse [symmetric] assms(2)]
      key_store.delete_wf [OF assms(1) prod.collapse [symmetric] assms(2)])

theorem repository_keeps_wf_witness:
  "keys_wf (lt_rows (snd (revoke_api_key demo_disp 1 (lt_ops key_clash) 7 demo_admin_db)))"
  using repository_keeps_wf [OF key_table.key_store_axioms demo_admin_wf(1)] by blast

text \<open>
  The guard of the last admin key never fires: the handler looks for a key whose key id is the UUID it
  is given, and no key id is a UUID. Whichever key is named, the last admin key included, is deleted.
\<close>

theorem last_admin_deletable:
  assumes "key_store db rows" "keys_wf (rows d)" "uuid_text (ke_disp env i)"
    and "revoke_key_handler env (Some db) i d = (x, d')"
  shows "(\<forall>msg. x \<noteq> Inl (AuthenticationError msg)) \<and>
    (\<forall>msg. x = Inr msg \<longrightarrow> rows d' = filter (\<lambda>m. k_id m \<noteq> i) (rows d))"
proof -
  obtain y d1 where p: "revoke_precheck env db i d = (y, d1)" by (cases "revoke_precheck env db i d")
  note pre = key_store.revoke_precheck_passes [OF assms(1) p assms(2,3)]
  obtain z d2 where dl: "delete_api_key (ke_disp env) db i d1 = (z, d2)"
    by (cases "delete_api_key (ke_disp env) db i d1")
  note del = key_store.delete_rows(2) [OF assms(1) dl]
  have x: "(x, d') = (case y of Inl e \<Rightarrow> (Inl e, d1)
      | Inr _ \<Rightarrow> (case z of Inl e \<Rightarrow> (Inl (DatabaseError (ke_etext env e)), d2)
         | Inr _ \<Rightarrow> (Inr (ke_t env ''api.success.handlers.api_key_handlers.revoked''
                              [(''id'', ke_disp env i)]), d2)))"
    using assms(4) p dl by (cases y; cases z) (simp_all add: revoke_key_handler_def split: unit.splits)
  consider e where "y = Inl (DatabaseError e)" | e where "y = Inr ()" "z = Inl e" | "y = Inr ()" "z = Inr ()"
    using pre(2) by (cases z) auto
  then show ?thesis
    by cases (use x del pre(1) in simp_all)
qed

theorem last_admin_deletable_witness:
  "map k_role (lt_rows demo_admin_db) = [''admin''] \<and>
   lt_rows (snd (revoke_key_handler demo_env (Some (lt_ops key_clash)) 7 demo_admin_db)) = []"
proof -
  let ?r = "revoke_key_handler demo_env (Some (lt_ops key_clash)) 7 demo_admin_db"
  have ok: "\<not> isl (fst ?r)" and row: "map (\<lambda>m. (k_role m, k_id m)) (lt_rows demo_admin_db) = [(''admin'', 7)]"
    and u: "uuid_text (ke_disp demo_env 7)"
    by code_simp+
  from not_isl_fst [OF ok] obtain msg d' where r: "?r = (Inr msg, d')" by blast
  from last_admin_deletable [OF key_table.key_store_axioms demo_admin_wf(1) u r] row r
  show ?thesis by auto
qed

text \<open>
  The limit of one admin key is never applied: it is checked on the keys of the nil workspace, and an
  admin key has none. Whatever admin keys exist, the handler adds another one or fails in the database.
\<close>

theorem admin_limit_never_applies:
  assumes "key_store db rows" "admins_global (rows d)" "hk_role req = Some ''admin''"
    and "create_key_handler env now dr (Some db) None req d = (x, d')"
  shows "(\<forall>msg. x \<noteq> Inl (AuthenticationError msg)) \<and>
    (\<forall>k. x = Inr k \<longrightarrow> (\<exists>m. rows d' = rows d @ [m] \<and> k_role m = ''admin'')) \<and> admins_global (rows d')"
proof -
  have r: "key_role_of env (hk_role req) = Inr Admin" by (simp add: key_role_of_def assms(3))
  from key_store.create_handler_effect [OF assms(1,4)] show ?thesis
  proof cases
    case (2 role e d1)
    with r key_store.key_precheck_effect(2) [OF assms(1) 2(4) _ assms(2)] show ?thesis
      using assms(2) by auto
  next
    case (4 role m d1)
    with r assms(2) show ?thesis by (auto simp: admins_global_def)
  qed (use r assms(2) in auto)
qed

theorem admin_limit_never_applies_witness:
  "map k_role (lt_rows (snd (create_key_handler demo_env 0 (demo_draws 8) (Some (lt_ops key_clash)) None
     (demo_key_request (Some ''admin'')) demo_admin_db))) = [''admin'', ''admin'']"
proof -
  let ?r = "create_key_handler demo_env 0 (demo_draws 8) (Some (lt_ops key_clash)) None
      (demo_key_request (Some ''admin'')) demo_admin_db"
  have ok: "\<not> isl (fst ?r)" and row: "map k_role (lt_rows demo_admin_db) = [''admin'']"
    by code_simp+
  from not_isl_fst [OF ok] obtain k d' where r: "?r = (Inr k, d')" by blast
  have "hk_role (demo_key_request (Some ''admin'')) = Some ''admin''" by (simp add: demo_key_request_def)
  from admin_limit_never_applies [OF key_table.key_store_axioms demo_admin_wf(2) this r] row r
  show ?thesis by auto
qed

text \<open>
  C14. A workspace never gets a second user key from the handler, while the table has at most 1000 rows: the
  handler keeps \<open>one_user_key\<close> for every role, workspace, request and fault.
\<close>

theorem user_key_once:
  assumes "key_store db rows" "one_user_key (rows d)" "length (rows d) \<le> 1000"
    and "create_key_handler env now dr (Some db) ws req d = (x, d')"
  shows "one_user_key (rows d')"
proof -
  from key_store.create_handler_effect [OF assms(1,4)] show ?thesis
  proof cases
    case (4 role m d1)
    have "role_of_text (k_role m') \<noteq> User"
      if u: "k_workspace m = Some w" "role_of_text (k_role m) = User" "m' \<in> set (rows d)"
        "k_workspace m' = Some w" for w m'
    proof -
      have "role = User" using u(2) 4(7,8) by (simp add: role_of_role_text)
      from key_store.key_precheck_effect(3) [OF assms(1) 4(3) this refl assms(3)] u 4(6) show ?thesis
        by auto
    qed
    then show ?thesis unfolding 4(2) by (rule one_user_key_snoc [OF assms(2)])
  qed (use assms(2) in simp_all)
qed

theorem user_key_once_witness:
  "one_user_key (lt_rows (snd (create_key_handler demo_env 0 (demo_draws 8) (Some (lt_ops key_clash))
     (Some 5) (demo_key_request None) demo_db)))"
proof -
  have "length (lt_rows demo_db) = 1" by code_simp
  then obtain m where "lt_rows demo_db = [m]" by (auto simp: length_Suc_conv)
  then have "one_user_key (lt_rows demo_db)" "length (lt_rows demo_db) \<le> 1000"
    by (simp_all add: one_user_key_def)
  from user_key_once [OF key_table.key_store_axioms this prod.collapse [symmetric]] show ?thesis .
qed

text \<open>
  C22. When there are admin keys, all of them expired but still enabled, and neither an admin secret in
  the environment nor keys in the configuration, the service starts without a usable admin key: start-up
  finds an expired one and creates no other, so from then on nobody authenticates as admin.
\<close>

theorem admin_lockout_after_expiry:
  assumes "key_store db rows" "keys_wf (rows d)" "m \<in> set (rows d)"
    and "\<forall>m \<in> set (rows d). k_role m = ''admin'' \<longrightarrow> k_enabled m \<and> expired now m" "k_role m = ''admin''"
    and "load_api_keys env now dr (Some db) None env_key_id [] d = d1"
    and "now \<le> now'" "validate_api_key a pepper now' db key_id secret d1 = (Inr v, d2)"
  shows "rows d1 = rows d \<and> (\<forall>ws. v \<noteq> Some (ws, Admin))"
proof -
  let ?p = "\<lambda>m. k_role m = role_text Admin \<and> k_prefix m = ''niad_''"
  obtain y d' where f: "t_find db ?p d = (y, d')" by (cases "t_find db ?p d")
  note law = sql_table.find_law [OF key_store.axioms(1) [OF assms(1)] f]
  have "?p m" using assms(2,3,5) by (auto simp: keys_wf_def row_wf_def key_prefix_cases)
  then have "y \<noteq> Inr None" "\<forall>x. y = Inr (Some x) \<longrightarrow> k_enabled x" using law assms(3,4) by auto
  then have "d1 = d'" using assms(6) f
    by (cases y) (auto simp: load_api_keys_def get_admin_api_key_def split: option.splits)
  with law have same: "rows d1 = rows d" by simp
  have ok: "keys_ok (rows d1)" using assms(2) same by (simp add: keys_wf_def)
  have "v = grants a pepper now' key_id secret (rows d1)"
    by (rule key_store.validate_grants(1) [OF assms(1) ok assms(8)])
  moreover have "row_grants a pepper now' secret x \<noteq> Some (ws, Admin)" if "x \<in> set (rows d)" for x ws
    using that assms(4,7)
    by (auto simp: row_grants_def expired_def role_of_text_eq_Admin split: option.splits)
  ultimately show ?thesis using same grants_some by metis
qed

theorem admin_lockout_after_expiry_witness:
  "fst (demo_validate 10 ''niad_7'' (replicate 32 CHR ''H'') demo_admin_db) = Inr (Some (None, Admin)) \<and>
   (\<forall>ws. fst (demo_validate 2592000000002 ''niad_7'' (replicate 32 CHR ''H'')
      (load_api_keys demo_env 2592000000001 (demo_draws 8) (Some (lt_ops key_clash)) None None []
         demo_admin_db)) \<noteq> Inr (Some (ws, Admin)))"
proof -
  let ?d = "load_api_keys demo_env 2592000000001 (demo_draws 8) (Some (lt_ops key_clash)) None None []
      demo_admin_db"
  let ?v = "demo_validate 2592000000002 ''niad_7'' (replicate 32 CHR ''H'') ?d"
  have before: "fst (demo_validate 10 ''niad_7'' (replicate 32 CHR ''H'') demo_admin_db) =
      Inr (Some (None, Admin))"
    and ok: "\<not> isl (fst ?v)"
    and row: "map (\<lambda>m. (k_role m, k_enabled m, k_expires_at m)) (lt_rows demo_admin_db) =
      [(''admin'', True, Some 2592000000000)]"
    by code_simp+
  from row obtain m where m: "lt_rows demo_admin_db = [m]" "k_role m = ''admin''" "k_enabled m"
    "k_expires_at m = Some 2592000000000"
    by auto
  from not_isl_fst [OF ok] obtain v d2 where v: "?v = (Inr v, d2)" by blast
  have "m \<in> set (lt_rows demo_admin_db)" "\<forall>m \<in> set (lt_rows demo_admin_db). k_role m = ''admin'' \<longrightarrow>
      k_enabled m \<and> expired 2592000000001 m"
    by (simp_all add: m expired_def)
  from admin_lockout_after_expiry [OF key_table.key_store_axioms demo_admin_wf(1) this m(2) refl _
      v [unfolded demo_validate_def]] before v
  show ?thesis by simp
qed

end
