(* ===== verification/Org_Handlers.thy ===== *)
theory Org_Handlers
  imports Org_Repo Key_Handlers Error_Response
begin

text \<open>
  The handlers of workspaces, groups and tags: \<open>workspace_handlers.rs\<close> and \<open>biz_tag_handlers.rs\<close> of
  \<open>src/src/server/handlers\<close>, and the methods of \<open>ConfigManager\<close> in \<open>src/src/server/config/management.rs\<close>
  through which they reach the repositories of \<open>Org_Repo\<close>. Requests and responses are those of
  \<open>src/src/server/models.rs\<close>. All repositories work on one database state; any of them may be missing.
  The parameters are those of \<open>key_env\<close>.
\<close>

section \<open>Chains of steps\<close>

text \<open>The two ways through a step of the form \<open>step?; rest\<close>.\<close>

lemma check_then:
  "(case a of Inl e \<Rightarrow> (Inl (g e), d) | Inr v \<Rightarrow> f v) = (x, d') \<longleftrightarrow>
     (\<exists>e. a = Inl e \<and> x = Inl (g e) \<and> d' = d) \<or> (\<exists>v. a = Inr v \<and> f v = (x, d'))"
  by (cases a) auto

lemma option_then:
  "(case a of None \<Rightarrow> (Inl e, d) | Some v \<Rightarrow> f v) = (x, d') \<longleftrightarrow>
     (a = None \<and> x = Inl e \<and> d' = d) \<or> (\<exists>v. a = Some v \<and> f v = (x, d'))"
  by (cases a) auto

lemma step_then:
  "(case p of (Inl e, d1) \<Rightarrow> (Inl (g e), d1) | (Inr v, d1) \<Rightarrow> f v d1) = (x, d') \<longleftrightarrow>
     (\<exists>e. p = (Inl e, d') \<and> x = Inl (g e)) \<or> (\<exists>v d1. p = (Inr v, d1) \<and> f v d1 = (x, d'))"
  by (cases p; cases "fst p") auto

lemma find_then:
  "(case p of (Inl e, d1) \<Rightarrow> (Inl (g e), d1) | (Inr None, d1) \<Rightarrow> (Inl n, d1)
      | (Inr (Some v), d1) \<Rightarrow> f v d1) = (x, d') \<longleftrightarrow>
     (\<exists>e. p = (Inl e, d') \<and> x = Inl (g e)) \<or> (p = (Inr None, d') \<and> x = Inl n) \<or>
     (\<exists>v d1. p = (Inr (Some v), d1) \<and> f v d1 = (x, d'))"
  by (cases p; cases "fst p") (auto split: option.splits)

lemma last_then: "(case p of (y, d1) \<Rightarrow> (h y, d1)) = (x, d') \<longleftrightarrow> (\<exists>y. p = (y, d') \<and> x = h y)"
  by (cases p) auto

lemmas chain_simps = check_then option_then step_then find_then last_then

section \<open>Requests and responses\<close>

record create_workspace_http =
  hw_name :: string
  hw_description :: "string option"
  hw_max_groups :: "int option"
  hw_max_biz_tags :: "int option"

record create_group_http =
  hg_workspace :: string
  hg_name :: string
  hg_description :: "string option"
  hg_max_biz_tags :: "int option"

record create_biz_tag_http =
  hb_workspace_id :: u128
  hb_group_id :: u128
  hb_name :: string
  hb_description :: "string option"
  hb_algorithm :: "string option"
  hb_format :: "string option"
  hb_prefix :: "string option"
  hb_base_step :: "int option"
  hb_max_step :: "int option"
  hb_datacenter_ids :: "int list option"

record update_biz_tag_http =
  hu_name :: "string option"
  hu_description :: "string option"
  hu_algorithm :: "string option"
  hu_format :: "string option"
  hu_prefix :: "string option"
  hu_base_step :: "int option"
  hu_max_step :: "int option"
  hu_datacenter_ids :: "int list option"

record user_key_info =
  uk_key_id :: string
  uk_key_secret :: string
  uk_key_prefix :: string

record workspace_http =
  wh_id :: string
  wh_name :: string
  wh_description :: "string option"
  wh_status :: string
  wh_max_groups :: int
  wh_max_biz_tags :: int
  wh_created_at :: string
  wh_updated_at :: string
  wh_user_api_key :: "user_key_info option"

record group_http =
  gh_id :: string
  gh_workspace_id :: string
  gh_workspace_name :: string
  gh_name :: string
  gh_description :: "string option"
  gh_max_biz_tags :: int
  gh_created_at :: string
  gh_updated_at :: string

record biz_tag_http =
  th_id :: string
  th_workspace_id :: string
  th_group_id :: string
  th_name :: string
  th_description :: "string option"
  th_algorithm :: string
  th_format :: string
  th_prefix :: string
  th_base_step :: int
  th_max_step :: int
  th_datacenter_ids :: "int list"
  th_created_at :: string
  th_updated_at :: string

record biz_tag_list_http =
  tl_biz_tags :: "biz_tag_http list"
  tl_total :: nat
  tl_page :: u64
  tl_page_size :: u64

definition workspace_http_of :: "key_env \<Rightarrow> workspace \<Rightarrow> workspace_http" where
  "workspace_http_of env w =
     \<lparr>wh_id = ke_disp env (wk_id w), wh_name = wk_name w, wh_description = wk_description w,
      wh_status = workspace_status_text (wk_status w), wh_max_groups = wk_max_groups w,
      wh_max_biz_tags = wk_max_biz_tags w, wh_created_at = ke_rfc env (wk_created_at w),
      wh_updated_at = ke_rfc env (wk_updated_at w), wh_user_api_key = None\<rparr>"

definition group_http_of :: "key_env \<Rightarrow> workspace \<Rightarrow> group_row \<Rightarrow> group_http" where
  "group_http_of env w g =
     \<lparr>gh_id = ke_disp env (grp_id g), gh_workspace_id = ke_disp env (wk_id w),
      gh_workspace_name = wk_name w, gh_name = grp_name g, gh_description = grp_description g,
      gh_max_biz_tags = grp_max_biz_tags g, gh_created_at = ke_rfc env (grp_created_at g),
      gh_updated_at = ke_rfc env (grp_updated_at g)\<rparr>"

definition biz_tag_http_of :: "key_env \<Rightarrow> biz_tag \<Rightarrow> biz_tag_http" where
  "biz_tag_http_of env t =
     \<lparr>th_id = ke_disp env (bt_id t), th_workspace_id = ke_disp env (bt_workspace t),
      th_group_id = ke_disp env (bt_group t), th_name = bt_name t, th_description = bt_description t,
      th_algorithm = algorithm_name (bt_algorithm t), th_format = format_name (bt_format t),
      th_prefix = bt_prefix t, th_base_step = bt_base_step t, th_max_step = bt_max_step t,
      th_datacenter_ids = bt_datacenter_ids t, th_created_at = ke_rfc env (bt_created_at t),
      th_updated_at = ke_rfc env (bt_updated_at t)\<rparr>"

section \<open>The configuration service\<close>

text \<open>Its three repositories.\<close>

record 'd org_service =
  os_tags :: "'d org_db option"
  os_workspaces :: "'d org_db option"
  os_groups :: "'d org_db option"

definition not_configured :: "string \<Rightarrow> core_error" where
  "not_configured what = InternalError (what @ '' repository not configured'')"

definition with_tags :: "'d org_service \<Rightarrow> ('d org_db \<Rightarrow> 'd \<Rightarrow> 'a res \<times> 'd) \<Rightarrow> 'd \<Rightarrow> 'a res \<times> 'd" where
  "with_tags svc f d =
     (case os_tags svc of Some db \<Rightarrow> f db d | None \<Rightarrow> (Inl (not_configured ''Database''), d))"

definition svc_create_biz_tag ::
  "key_env \<Rightarrow> u128 \<Rightarrow> int \<Rightarrow> 'd org_service \<Rightarrow> create_biz_tag_request \<Rightarrow> 'd \<Rightarrow> biz_tag res \<times> 'd" where
  "svc_create_biz_tag env uuid now svc req =
     with_tags svc (\<lambda>db. create_biz_tag (ke_disp env) uuid now db req)"

definition svc_get_biz_tag :: "'d org_service \<Rightarrow> u128 \<Rightarrow> 'd \<Rightarrow> biz_tag option res \<times> 'd" where
  "svc_get_biz_tag svc i = with_tags svc (\<lambda>db. get_biz_tag db i)"

definition svc_update_biz_tag ::
  "key_env \<Rightarrow> int \<Rightarrow> 'd org_service \<Rightarrow> u128 \<Rightarrow> update_biz_tag_request \<Rightarrow> 'd \<Rightarrow> biz_tag res \<times> 'd" where
  "svc_update_biz_tag env now svc i req = with_tags svc (\<lambda>db. update_biz_tag (ke_disp env) now db i req)"

definition svc_delete_biz_tag :: "key_env \<Rightarrow> 'd org_service \<Rightarrow> u128 \<Rightarrow> 'd \<Rightarrow> unit res \<times> 'd" where
  "svc_delete_biz_tag env svc i = with_tags svc (\<lambda>db. delete_biz_tag (ke_disp env) db i)"

definition svc_count_biz_tags :: "'d org_service \<Rightarrow> u128 \<Rightarrow> u128 option \<Rightarrow> 'd \<Rightarrow> nat res \<times> 'd" where
  "svc_count_biz_tags svc ws grp = with_tags svc (\<lambda>db. count_biz_tags db ws grp)"

definition svc_list_biz_tags ::
  "'d org_service \<Rightarrow> u128 \<Rightarrow> u128 option \<Rightarrow> nat option \<Rightarrow> nat option \<Rightarrow> 'd \<Rightarrow> biz_tag list res \<times> 'd" where
  "svc_list_biz_tags svc ws grp lim off = with_tags svc (\<lambda>db. list_biz_tags db ws grp lim off)"

definition svc_create_workspace ::
  "key_env \<Rightarrow> u128 \<Rightarrow> int \<Rightarrow> 'd org_service \<Rightarrow> create_workspace_http \<Rightarrow> 'd \<Rightarrow> workspace_http res \<times> 'd" where
  "svc_create_workspace env uuid now svc req d =
     (case os_workspaces svc of
        None \<Rightarrow> (Inl (not_configured ''Workspace''), d)
      | Some db \<Rightarrow>
          (case create_workspace uuid now db
                  \<lparr>cw_name = hw_name req, cw_description = hw_description req,
                   cw_max_groups = hw_max_groups req, cw_max_biz_tags = hw_max_biz_tags req\<rparr> d of
             (x, d') \<Rightarrow> (map_sum id (workspace_http_of env) x, d')))"

definition svc_list_workspaces ::
  "key_env \<Rightarrow> 'd org_service \<Rightarrow> 'd \<Rightarrow> (workspace_http list \<times> nat) res \<times> 'd" where
  "svc_list_workspaces env svc d =
     (case os_workspaces svc of
        None \<Rightarrow> (Inl (not_configured ''Workspace''), d)
      | Some db \<Rightarrow>
          (case list_workspaces db None None d of
             (x, d') \<Rightarrow> (map_sum id (\<lambda>ws. (map (workspace_http_of env) ws, length ws)) x, d')))"

definition svc_get_workspace ::
  "key_env \<Rightarrow> 'd org_service \<Rightarrow> string \<Rightarrow> 'd \<Rightarrow> workspace_http option res \<times> 'd" where
  "svc_get_workspace env svc name d =
     (case os_workspaces svc of
        None \<Rightarrow> (Inl (not_configured ''Workspace''), d)
      | Some db \<Rightarrow>
          (case get_workspace_by_name db name d of
             (x, d') \<Rightarrow> (map_sum id (map_option (workspace_http_of env)) x, d')))"

definition svc_create_group ::
  "key_env \<Rightarrow> u128 \<Rightarrow> int \<Rightarrow> 'd org_service \<Rightarrow> create_group_http \<Rightarrow> 'd \<Rightarrow> group_http res \<times> 'd" where
  "svc_create_group env uuid now svc req d =
     (case (os_workspaces svc, os_groups svc) of
        (None, _) \<Rightarrow> (Inl (not_configured ''Workspace''), d)
      | (Some _, None) \<Rightarrow> (Inl (not_configured ''Group''), d)
      | (Some wdb, Some gdb) \<Rightarrow>
          (case get_workspace_by_name wdb (hg_workspace req) d of
             (Inl e, d1) \<Rightarrow> (Inl e, d1)
           | (Inr None, d1) \<Rightarrow>
               (Inl (InternalError (''Workspace '' @ [CHR 0x27] @ hg_workspace req @ [CHR 0x27] @ '' not found'')), d1)
           | (Inr (Some ws), d1) \<Rightarrow>
               (case create_group (ke_disp env) uuid now gdb
                       \<lparr>cg_workspace = wk_id ws, cg_name = hg_name req,
                        cg_description = hg_description req, cg_max_biz_tags = hg_max_biz_tags req\<rparr> d1 of
                  (x, d2) \<Rightarrow> (map_sum id (group_http_of env ws) x, d2))))"

definition svc_list_groups ::
  "key_env \<Rightarrow> 'd org_service \<Rightarrow> string \<Rightarrow> 'd \<Rightarrow> (group_http list \<times> nat) res \<times> 'd" where
  "svc_list_groups env svc name d =
     (case (os_workspaces svc, os_groups svc) of
        (None, _) \<Rightarrow> (Inl (not_configured ''Workspace''), d)
      | (Some _, None) \<Rightarrow> (Inl (not_configured ''Group''), d)
      | (Some wdb, Some gdb) \<Rightarrow>
          (case get_workspace_by_name wdb name d of
             (Inl e, d1) \<Rightarrow> (Inl e, d1)
           | (Inr None, d1) \<Rightarrow> (Inr ([], 0), d1)
           | (Inr (Some ws), d1) \<Rightarrow>
               (case list_groups gdb (wk_id ws) None None d1 of
                  (x, d2) \<Rightarrow> (map_sum id (\<lambda>gs. (map (group_http_of env ws) gs, length gs)) x, d2))))"

section \<open>The handlers of tags\<close>

record 'd api_handlers =
  ah_service :: "'d org_service"
  ah_keys :: "(api_key_row, 'd) table_ops option"

definition algorithm_or_error :: "string \<Rightarrow> algorithm_type res" where
  "algorithm_or_error s = (case parse_algorithm s of Inl _ \<Rightarrow> Inl (InvalidAlgorithmType s) | Inr a \<Rightarrow> Inr a)"

definition format_or_error :: "string \<Rightarrow> id_format res" where
  "format_or_error s = (case parse_format s of Inl _ \<Rightarrow> Inl (InvalidIdFormat s) | Inr f \<Rightarrow> Inr f)"

text \<open>\<open>Option<Result>::transpose\<close>.\<close>

definition option_res :: "('a \<Rightarrow> 'b res) \<Rightarrow> 'a option \<Rightarrow> 'b option res" where
  "option_res f x = (case x of None \<Rightarrow> Inr None | Some v \<Rightarrow> map_sum id Some (f v))"

definition create_biz_tag_handler ::
  "key_env \<Rightarrow> u128 \<Rightarrow> int \<Rightarrow> 'd api_handlers \<Rightarrow> create_biz_tag_http \<Rightarrow> 'd \<Rightarrow> biz_tag_http res \<times> 'd" where
  "create_biz_tag_handler env uuid now h req d =
     (case algorithm_or_error (unwrap_or (hb_algorithm req) ''segment'') of
        Inl e \<Rightarrow> (Inl e, d)
      | Inr alg \<Rightarrow>
          (case format_or_error (unwrap_or (hb_format req) ''numeric'') of
             Inl e \<Rightarrow> (Inl e, d)
           | Inr fmt \<Rightarrow>
               (case svc_create_biz_tag env uuid now (ah_service h)
                       \<lparr>cb_workspace = hb_workspace_id req, cb_group = hb_group_id req,
                        cb_name = hb_name req, cb_description = hb_description req,
                        cb_algorithm = Some alg, cb_format = Some fmt, cb_prefix = hb_prefix req,
                        cb_base_step = hb_base_step req, cb_max_step = hb_max_step req,
                        cb_datacenter_ids = hb_datacenter_ids req\<rparr> d of
                  (x, d') \<Rightarrow> (map_sum id (biz_tag_http_of env) x, d'))))"

definition update_biz_tag_handler ::
  "key_env \<Rightarrow> int \<Rightarrow> 'd api_handlers \<Rightarrow> u128 \<Rightarrow> update_biz_tag_http \<Rightarrow> 'd \<Rightarrow> biz_tag_http res \<times> 'd" where
  "update_biz_tag_handler env now h i req d =
     (case option_res algorithm_or_error (hu_algorithm req) of
        Inl e \<Rightarrow> (Inl e, d)
      | Inr alg \<Rightarrow>
          (case option_res format_or_error (hu_format req) of
             Inl e \<Rightarrow> (Inl e, d)
           | Inr fmt \<Rightarrow>
               (case svc_update_biz_tag env now (ah_service h) i
                       \<lparr>ub_name = hu_name req, ub_description = hu_description req,
                        ub_algorithm = alg, ub_format = fmt, ub_prefix = hu_prefix req,
                        ub_base_step = hu_base_step req, ub_max_step = hu_max_step req,
                        ub_datacenter_ids = hu_datacenter_ids req\<rparr> d of
                  (x, d') \<Rightarrow> (map_sum id (biz_tag_http_of env) x, d'))))"

definition get_biz_tag_handler ::
  "key_env \<Rightarrow> 'd api_handlers \<Rightarrow> u128 \<Rightarrow> 'd \<Rightarrow> biz_tag_http res \<times> 'd" where
  "get_biz_tag_handler env h i d =
     (case svc_get_biz_tag (ah_service h) i d of
        (Inl e, d') \<Rightarrow> (Inl e, d')
      | (Inr None, d') \<Rightarrow>
          (Inl (NotFound (ke_t env ''api.error.handlers.biz_tag_handlers.not_found''
                  [(''id'', ke_disp env i)])), d')
      | (Inr (Some t), d') \<Rightarrow> (Inr (biz_tag_http_of env t), d'))"

definition list_and_count ::
  "key_env \<Rightarrow> 'd org_service \<Rightarrow> u128 \<Rightarrow> u128 option \<Rightarrow> nat option \<Rightarrow> nat option \<Rightarrow> 'd \<Rightarrow>
   (biz_tag_http list \<times> nat) res \<times> 'd" where
  "list_and_count env svc ws grp lim off d =
     (case svc_list_biz_tags svc ws grp lim off d of
        (Inl e, d1) \<Rightarrow> (Inl e, d1)
      | (Inr ts, d1) \<Rightarrow>
          (case svc_count_biz_tags svc ws grp d1 of
             (x, d2) \<Rightarrow> (map_sum id (\<lambda>n. (map (biz_tag_http_of env) ts, n)) x, d2)))"

definition list_biz_tags_handler ::
  "key_env \<Rightarrow> 'd api_handlers \<Rightarrow> u128 option \<Rightarrow> u128 option \<Rightarrow> 'd \<Rightarrow> biz_tag_list_http res \<times> 'd" where
  "list_biz_tags_handler env h ws grp d =
     (case ws of
        None \<Rightarrow> (Inl (InvalidInput
                  (ke_t env ''api.error.handlers.biz_tag_handlers.workspace_id_required_list'' [])), d)
      | Some w \<Rightarrow>
          (case list_and_count env (ah_service h) w grp None None d of
             (x, d') \<Rightarrow> (map_sum id (\<lambda>(ts, n). \<lparr>tl_biz_tags = ts, tl_total = n, tl_page = 1,
                           tl_page_size = of_nat n\<rparr>) x, d')))"

text \<open>\<open>limit\<close> and \<open>offset\<close> are \<open>usize\<close> and are cast to \<open>u32\<close> for the query.\<close>

definition as_u32 :: "u64 \<Rightarrow> nat" where
  "as_u32 x = unat (ucast x :: u32)"

definition list_biz_tags_with_pagination ::
  "key_env \<Rightarrow> 'd api_handlers \<Rightarrow> u128 option \<Rightarrow> u128 option \<Rightarrow> u64 \<Rightarrow> u64 \<Rightarrow> 'd \<Rightarrow>
   biz_tag_list_http res \<times> 'd" where
  "list_biz_tags_with_pagination env h ws grp lim off d =
     (if lim = 0
      then (Inl (InvalidInput
              (ke_t env ''api.error.handlers.biz_tag_handlers.pagination_limit_zero'' [])), d)
      else case list_and_count env (ah_service h) (unwrap_or ws 0) grp (Some (as_u32 lim))
                  (Some (as_u32 off)) d of
        (x, d') \<Rightarrow> (map_sum id (\<lambda>(ts, n). \<lparr>tl_biz_tags = ts, tl_total = n,
                      tl_page = off div lim + 1, tl_page_size = lim\<rparr>) x, d'))"

definition delete_biz_tag_handler :: "key_env \<Rightarrow> 'd api_handlers \<Rightarrow> u128 \<Rightarrow> 'd \<Rightarrow> unit res \<times> 'd" where
  "delete_biz_tag_handler env h i = svc_delete_biz_tag env (ah_service h) i"

section \<open>The handlers of workspaces and groups\<close>

text \<open>\<open>uerr\<close> is the text of the \<open>uuid\<close> crate's error for a text that is no UUID.\<close>

definition parse_own_uuid :: "key_env \<Rightarrow> (string \<Rightarrow> string) \<Rightarrow> string \<Rightarrow> u128 res" where
  "parse_own_uuid env uerr s =
     (case ke_parse_uuid env s of
        Some u \<Rightarrow> Inr u
      | None \<Rightarrow> Inl (InvalidInput (ke_t env ''api.error.handlers.helpers.invalid_uuid''
                  [(''error'', uerr s)])))"

definition user_key_request :: "u128 \<Rightarrow> string \<Rightarrow> create_key_request" where
  "user_key_request ws name =
     \<lparr>cr_workspace = Some ws, cr_name = name @ ''-user-key'',
      cr_description = Some (''User API key for workspace: '' @ name), cr_role = User,
      cr_rate_limit = Some 10000, cr_expires_at = None, cr_secret = None, cr_key_id = None\<rparr>"

definition create_user_key ::
  "key_env \<Rightarrow> int \<Rightarrow> key_draws \<Rightarrow> (api_key_row, 'd) table_ops \<Rightarrow> u128 \<Rightarrow> string \<Rightarrow> 'd \<Rightarrow>
   api_key_with_secret res \<times> 'd" where
  "create_user_key env now dr db ws name d =
     (case create_api_key (ke_argon2 env) (ke_disp env) (ke_pepper env) now dr db
             (user_key_request ws name) d of
        (x, d') \<Rightarrow> (map_db_error (ke_etext env) x, d'))"

definition create_workspace_handler ::
  "key_env \<Rightarrow> (string \<Rightarrow> string) \<Rightarrow> u128 \<Rightarrow> int \<Rightarrow> key_draws \<Rightarrow> 'd api_handlers \<Rightarrow>
   create_workspace_http \<Rightarrow> 'd \<Rightarrow> workspace_http res \<times> 'd" where
  "create_workspace_handler env uerr uuid now dr h req d =
     (case svc_create_workspace env uuid now (ah_service h) req d of
        (Inl e, d1) \<Rightarrow> (Inl (DatabaseError (ke_etext env e)), d1)
      | (Inr w, d1) \<Rightarrow>
          (case ah_keys h of
             None \<Rightarrow> (Inl (repo_missing env), d1)
           | Some db \<Rightarrow>
               (case parse_own_uuid env uerr (wh_id w) of
                  Inl e \<Rightarrow> (Inl e, d1)
                | Inr ws \<Rightarrow>
                    (case create_user_key env now dr db ws (wh_name w) d1 of
                       (Inl e, d2) \<Rightarrow> (Inl e, d2)
                     | (Inr k, d2) \<Rightarrow>
                         (Inr (w\<lparr>wh_user_api_key := Some
                                 \<lparr>uk_key_id = rs_key_id (ws_key k), uk_key_secret = ws_secret k,
                                  uk_key_prefix = rs_prefix (ws_key k)\<rparr>\<rparr>), d2)))))"

fun delete_user_keys ::
  "key_env \<Rightarrow> (api_key_row, 'd) table_ops \<Rightarrow> api_key list \<Rightarrow> 'd \<Rightarrow> unit res \<times> 'd" where
  "delete_user_keys env db [] d = (Inr (), d)"
| "delete_user_keys env db (k # ks) d =
     (if ak_role k = User then
        (case delete_api_key (ke_disp env) db (ak_id k) d of
           (Inl e, d1) \<Rightarrow> (Inl (DatabaseError (ke_etext env e)), d1)
         | (Inr _, d1) \<Rightarrow> delete_user_keys env db ks d1)
      else delete_user_keys env db ks d)"

definition regenerated_response :: "key_env \<Rightarrow> api_key_with_secret \<Rightarrow> (key_http \<times> string) res" where
  "regenerated_response env k =
     (if rs_role (ws_key k) = Anonymous
      then Inl (InternalError ''Anonymous role should not be persisted in database'')
      else Inr (key_http_of env (ws_key k), ws_secret k))"

definition regenerate_user_api_key ::
  "key_env \<Rightarrow> (string \<Rightarrow> string) \<Rightarrow> int \<Rightarrow> key_draws \<Rightarrow> 'd api_handlers \<Rightarrow> string \<Rightarrow> 'd \<Rightarrow>
   (key_http \<times> string) res \<times> 'd" where
  "regenerate_user_api_key env uerr now dr h name d =
     (case svc_get_workspace env (ah_service h) name d of
        (Inl e, d1) \<Rightarrow> (Inl (DatabaseError (ke_etext env e)), d1)
      | (Inr None, d1) \<Rightarrow>
          (Inl (NotFound (ke_t env ''api.error.handlers.workspace_handlers.not_found''
                  [(''name'', name)])), d1)
      | (Inr (Some w), d1) \<Rightarrow>
          (case ah_keys h of
             None \<Rightarrow> (Inl (repo_missing env), d1)
           | Some db \<Rightarrow>
               (case parse_own_uuid env uerr (wh_id w) of
                  Inl e \<Rightarrow> (Inl e, d1)
                | Inr ws \<Rightarrow>
                    (case list_api_keys db ws (Some 1000) (Some 0) d1 of
                       (Inl e, d2) \<Rightarrow> (Inl (DatabaseError (ke_etext env e)), d2)
                     | (Inr ks, d2) \<Rightarrow>
                         (case delete_user_keys env db ks d2 of
                            (Inl e, d3) \<Rightarrow> (Inl e, d3)
                          | (Inr _, d3) \<Rightarrow>
                              (case create_user_key env now dr db ws (wh_name w) d3 of
                                 (Inl e, d4) \<Rightarrow> (Inl e, d4)
                               | (Inr k, d4) \<Rightarrow> (regenerated_response env k, d4)))))))"

definition list_workspaces_handler ::
  "key_env \<Rightarrow> 'd api_handlers \<Rightarrow> 'd \<Rightarrow> (workspace_http list \<times> nat) res \<times> 'd" where
  "list_workspaces_handler env h = svc_list_workspaces env (ah_service h)"

definition get_workspace_handler ::
  "key_env \<Rightarrow> 'd api_handlers \<Rightarrow> string \<Rightarrow> 'd \<Rightarrow> workspace_http option res \<times> 'd" where
  "get_workspace_handler env h name = svc_get_workspace env (ah_service h) name"

definition create_group_handler ::
  "key_env \<Rightarrow> u128 \<Rightarrow> int \<Rightarrow> 'd api_handlers \<Rightarrow> create_group_http \<Rightarrow> 'd \<Rightarrow> group_http res \<times> 'd" where
  "create_group_handler env uuid now h req = svc_create_group env uuid now (ah_service h) req"

definition list_groups_handler ::
  "key_env \<Rightarrow> 'd api_handlers \<Rightarrow> string \<Rightarrow> 'd \<Rightarrow> (group_http list \<times> nat) res \<times> 'd" where
  "list_groups_handler env h name = svc_list_groups env (ah_service h) name"

section \<open>What an operation on one tag leaves alone\<close>

definition tags_outside :: "u128 \<Rightarrow> biz_tag_row list \<Rightarrow> biz_tag_row list" where
  "tags_outside w ts = filter (\<lambda>t. btr_workspace t \<noteq> w) ts"

context org_store
begin

lemma create_biz_tag_outside:
  assumes "create_biz_tag disp uuid now db req d = (x, d')"
  shows "wrows d' = wrows d" "grows d' = grows d"
    "tags_outside (cb_workspace req) (trows d') = tags_outside (cb_workspace req) (trows d)"
    "x = Inr t \<Longrightarrow> bt_workspace t = cb_workspace req"
proof -
  obtain y d1 where f: "t_find (od_ws db) (\<lambda>w. ws_id w = cb_workspace req) d = (y, d1)"
    by (cases "t_find (od_ws db) (\<lambda>w. ws_id w = cb_workspace req) d")
  obtain z d2 where g: "t_find (od_groups db) (\<lambda>g. grp_id g = cb_group req) d1 = (z, d2)"
    by (cases "t_find (od_groups db) (\<lambda>g. grp_id g = cb_group req) d1")
  note same = ws_find_same [OF f] group_find_same [OF g]
  consider v m where "t_insert (od_tags db) m d2 = (v, d')" "btr_workspace m = cb_workspace req"
      "x = map_sum id biz_tag_of (db_error v)" | "d' = d1" "isl x" | "d' = d2" "isl x"
    using assms f g by (auto simp: create_biz_tag_def split: sum.splits option.splits prod.splits)
  then have "wrows d' = wrows d \<and> grows d' = grows d \<and>
      tags_outside (cb_workspace req) (trows d') = tags_outside (cb_workspace req) (trows d) \<and>
      (\<forall>t. x = Inr t \<longrightarrow> bt_workspace t = cb_workspace req)"
  proof cases
    case 1
    then show ?thesis
      using tags.insert_law [OF 1(1)] tag_frame.insert_frame [OF 1(1)] same
      by (cases v) (auto simp: tags_outside_def db_error_def biz_tag_of_def)
  qed (use same in auto)
  then show "wrows d' = wrows d" "grows d' = grows d"
    "tags_outside (cb_workspace req) (trows d') = tags_outside (cb_workspace req) (trows d)"
    "x = Inr t \<Longrightarrow> bt_workspace t = cb_workspace req" by simp_all
qed

lemma update_biz_tag_outside:
  assumes "update_biz_tag disp now db i req d = (x, d')"
    and "\<And>r. r \<in> set (trows d) \<Longrightarrow> btr_id r = i \<Longrightarrow> btr_workspace r = w"
  shows "wrows d' = wrows d" "grows d' = grows d" "tags_outside w (trows d') = tags_outside w (trows d)"
    "x = Inr t \<Longrightarrow> bt_workspace t = w"
proof -
  obtain y d1 where f: "t_find (od_tags db) (\<lambda>t. btr_id t = i) d = (y, d1)"
    by (cases "t_find (od_tags db) (\<lambda>t. btr_id t = i) d")
  note same = tag_find_same [OF f]
  consider r v where "y = Inr (Some r)"
      "t_update (od_tags db) (\<lambda>t. btr_id t = btr_id r) (updated_tag now req r) d1 = (v, d')"
      "x = map_sum id biz_tag_of (db_error v)" | "d' = d1" "isl x"
    using assms f by (auto simp: update_biz_tag_def split: sum.splits option.splits prod.splits)
  then have "wrows d' = wrows d \<and> grows d' = grows d \<and> tags_outside w (trows d') = tags_outside w (trows d) \<and>
      (\<forall>t. x = Inr t \<longrightarrow> bt_workspace t = w)"
  proof cases
    case (1 r v)
    then have id: "btr_id r = i" using tags.find_law [OF f] by simp
    have keep: "btr_workspace (updated_tag now req r s) = btr_workspace s" for s by (simp add: updated_tag_def)
    have "tags_outside w (apply_where (\<lambda>t. btr_id t = i) (updated_tag now req r) (trows d)) =
        tags_outside w (trows d)"
      unfolding tags_outside_def
      by (rule filter_apply_where_other) (use assms(2) keep in simp)
    moreover have "bt_workspace (biz_tag_of (updated_tag now req r s)) = w"
      if "s \<in> set (trows d)" "btr_id s = i" for s
      using that assms(2) by (simp add: biz_tag_of_def keep)
    ultimately show ?thesis
      using tags.update_law [OF 1(2)] tag_frame.update_frame [OF 1(2)] same 1(3) id
      by (cases v) (auto simp: db_error_def)
  qed (use same in auto)
  then show "wrows d' = wrows d" "grows d' = grows d" "tags_outside w (trows d') = tags_outside w (trows d)"
    "x = Inr t \<Longrightarrow> bt_workspace t = w" by simp_all
qed

lemma delete_biz_tag_outside:
  assumes "delete_biz_tag disp db i d = (x, d')"
    and "\<And>r. r \<in> set (trows d) \<Longrightarrow> btr_id r = i \<Longrightarrow> btr_workspace r = w"
  shows "wrows d' = wrows d" "grows d' = grows d" "tags_outside w (trows d') = tags_outside w (trows d)"
proof -
  obtain y where dl: "t_delete (od_tags db) (\<lambda>t. btr_id t = i) d = (y, d')"
    using assms(1) by (auto simp: delete_biz_tag_def split: prod.splits sum.splits if_splits)
  have "tags_outside w (filter (\<lambda>r. btr_id r \<noteq> i) (trows d)) = tags_outside w (trows d)"
    unfolding tags_outside_def filter_filter by (rule filter_cong) (use assms(2) in auto)
  then show "wrows d' = wrows d" "grows d' = grows d" "tags_outside w (trows d') = tags_outside w (trows d)"
    using tags.delete_law [OF dl] tag_delete_frame [OF dl] by auto
qed

lemma get_biz_tag_same:
  assumes "get_biz_tag db i d = (x, d')"
  shows "wrows d' = wrows d" "grows d' = grows d" "trows d' = trows d"
proof -
  obtain y where "t_find (od_tags db) (\<lambda>t. btr_id t = i) d = (y, d')"
    using assms by (auto simp: get_biz_tag_def split: prod.splits)
  from tag_find_same [OF this] show "wrows d' = wrows d" "grows d' = grows d" "trows d' = trows d"
    by simp_all
qed

end

end
