(* ===== verification/Api_Auth.thy ===== *)
theory Api_Auth
  imports Key_Handlers Error_Response "HOL-Library.AList"
begin

text \<open>
  Who may call: client addresses (\<open>src/src/server/middleware/utils.rs\<close>), the authentication middleware
  with its record of failures (\<open>api_key_auth.rs\<close> in the same directory), and the layers that
  \<open>src/src/server/router.rs\<close> puts around its routes.

  A middleware takes the rest of the chain as a function, as in the code: \<open>service\<close> is a function from a
  request and a state to a reply and a state. A header has the text \<open>to_str\<close> gives, or none. Base64
  decoding is a parameter; addresses are their texts; an instant is its number of nanoseconds. Logging
  and the audit line of a disabled authentication are left out.
\<close>

section \<open>Requests and replies\<close>

datatype header = Text string | Opaque

record http_request =
  rq_peer :: "string option"
  rq_header :: "string \<Rightarrow> header option"
  rq_workspace :: "u128 option option"
  rq_role :: "api_key_role option"
  rq_locale :: "string option"

datatype 'a reply = Denied nat string | Failure "nat \<times> error_response" | Success 'a

type_synonym ('a, 's) service = "http_request \<Rightarrow> 's \<Rightarrow> 'a reply \<times> 's"

definition header_text :: "http_request \<Rightarrow> string \<Rightarrow> string option" where
  "header_text req name = (case rq_header req name of Some (Text v) \<Rightarrow> Some v | _ \<Rightarrow> None)"

definition non_empty :: "string \<Rightarrow> string option" where
  "non_empty s = (if s = [] then None else Some s)"

definition parse_xff :: "http_request \<Rightarrow> string option" where
  "parse_xff req =
     Option.bind (header_text req ''x-forwarded-for'') (\<lambda>s. non_empty (trim (takeWhile (\<lambda>c. c \<noteq> CHR '','') s)))"

definition parse_xri :: "http_request \<Rightarrow> string option" where
  "parse_xri req = Option.bind (header_text req ''x-real-ip'') (\<lambda>s. non_empty (trim s))"

definition get_client_ip :: "http_request \<Rightarrow> string list \<Rightarrow> string option" where
  "get_client_ip req trusted_proxies =
     (case rq_peer req of
        None \<Rightarrow> None
      | Some conn_ip \<Rightarrow>
          if conn_ip \<in> set trusted_proxies then
            (case parse_xff req of
               Some ip \<Rightarrow> Some ip
             | None \<Rightarrow> (case parse_xri req of Some ip \<Rightarrow> Some ip | None \<Rightarrow> Some conn_ip))
          else Some conn_ip)"

section \<open>The record of failures\<close>

type_synonym failures = "(string \<times> int list) list"

definition MAX_TRACKED_AUTH_FAILURE_IPS :: nat where
  "MAX_TRACKED_AUTH_FAILURE_IPS = 10000"

definition FAILURE_WINDOW :: int where
  "FAILURE_WINDOW = 300 * 1000000000"

definition failures_of :: "failures \<Rightarrow> string \<Rightarrow> int list" where
  "failures_of fm ip = (case map_of fm ip of Some fs \<Rightarrow> fs | None \<Rightarrow> [])"

definition recent :: "int \<Rightarrow> int list \<Rightarrow> int list" where
  "recent now fs = filter (\<lambda>t. now - t < FAILURE_WINDOW) fs"

definition shrink_failures :: "failures \<Rightarrow> failures" where
  "shrink_failures fm =
     (if length fm > MAX_TRACKED_AUTH_FAILURE_IPS then
        let fm' = filter (\<lambda>e. snd e \<noteq> []) fm
        in if length fm' > MAX_TRACKED_AUTH_FAILURE_IPS then [] else fm'
      else fm)"

definition check_auth_failure_rate :: "int \<Rightarrow> string \<Rightarrow> failures \<Rightarrow> bool \<times> failures" where
  "check_auth_failure_rate now ip fm =
     (let fs = recent now (failures_of fm ip)
      in if fs = [] then (True, AList.delete ip fm)
         else let fm' = AList.update ip fs fm
              in if length fs \<ge> 10 then (False, fm') else (True, shrink_failures fm'))"

definition record_auth_failure :: "int \<Rightarrow> string \<Rightarrow> failures \<Rightarrow> failures" where
  "record_auth_failure now ip fm = AList.update ip (failures_of fm ip @ [now]) fm"

section \<open>Credentials\<close>

text \<open>\<open>String::from_utf8\<close> accepts exactly well-formed UTF-8.\<close>

definition cont_byte :: "nat \<Rightarrow> bool" where
  "cont_byte b = (128 \<le> b \<and> b < 192)"

fun utf8_ok :: "nat list \<Rightarrow> bool" where
  "utf8_ok [] = True"
| "utf8_ok [a] = (a < 128)"
| "utf8_ok [a, b] =
     (if a < 128 then utf8_ok [b] else 194 \<le> a \<and> a < 224 \<and> cont_byte b)"
| "utf8_ok [a, b, c] =
     (if a < 128 then utf8_ok [b, c]
      else if a < 224 then 194 \<le> a \<and> cont_byte b \<and> utf8_ok [c]
      else a < 240 \<and> cont_byte b \<and> cont_byte c \<and> (a = 224 \<longrightarrow> 160 \<le> b) \<and> (a = 237 \<longrightarrow> b < 160))"
| "utf8_ok (a # b # c # d # s) =
     (if a < 128 then utf8_ok (b # c # d # s)
      else if a < 224 then 194 \<le> a \<and> cont_byte b \<and> utf8_ok (c # d # s)
      else if a < 240 then cont_byte b \<and> cont_byte c \<and> (a = 224 \<longrightarrow> 160 \<le> b) \<and> (a = 237 \<longrightarrow> b < 160) \<and>
        utf8_ok (d # s)
      else a < 245 \<and> cont_byte b \<and> cont_byte c \<and> cont_byte d \<and> (a = 240 \<longrightarrow> 144 \<le> b) \<and>
        (a = 244 \<longrightarrow> b < 144) \<and> utf8_ok s)"

definition from_utf8 :: "string \<Rightarrow> string option" where
  "from_utf8 s = (if utf8_ok (map code_of s) then Some s else None)"

definition strip_prefix :: "string \<Rightarrow> string \<Rightarrow> string option" where
  "strip_prefix p s = (if take (length p) s = p then Some (drop (length p) s) else None)"

definition split_credentials :: "string \<Rightarrow> (string \<times> string) option" where
  "split_credentials s =
     (if CHR '':'' \<in> set s
      then Some (takeWhile (\<lambda>c. c \<noteq> CHR '':'') s, tl (dropWhile (\<lambda>c. c \<noteq> CHR '':'') s)) else None)"

definition parse_authorization :: "(string \<Rightarrow> string option) \<Rightarrow> string \<Rightarrow> (string \<times> string) option" where
  "parse_authorization base64 v =
     (case strip_prefix ''Basic '' v of
        Some credentials \<Rightarrow>
          (case base64 credentials of
             None \<Rightarrow> None
           | Some decoded \<Rightarrow>
               (case from_utf8 decoded of None \<Rightarrow> None | Some s \<Rightarrow> split_credentials s))
      | None \<Rightarrow>
          (case strip_prefix ''ApiKey '' v of
             Some s \<Rightarrow> split_credentials s
           | None \<Rightarrow> None))"

section \<open>The middleware\<close>

record 'd api_key_auth =
  au_repo :: "(api_key_row, 'd) table_ops"
  au_argon2 :: argon2
  au_pepper :: string
  au_base64 :: "string \<Rightarrow> string option"
  au_enabled :: bool
  au_trusted :: "string list"

record request_times =
  ti_check :: int
  ti_now :: int
  ti_record :: int

record 'd gate =
  g_failures :: failures
  g_db :: 'd

definition too_many_requests_response :: "'a reply" where
  "too_many_requests_response =
     Denied 429 ''Too many authentication attempts. Please try again later.''"

definition unauthorized_response :: "request_times \<Rightarrow> string \<Rightarrow> 'd gate \<Rightarrow> 'a reply \<times> 'd gate" where
  "unauthorized_response ti ip g =
     (Denied 401 ''Invalid or missing API key'',
      g\<lparr>g_failures := record_auth_failure (ti_record ti) ip (g_failures g)\<rparr>)"

definition validate_key ::
  "'d api_key_auth \<Rightarrow> int \<Rightarrow> string \<Rightarrow> string \<Rightarrow> 'd gate \<Rightarrow> (u128 option \<times> api_key_role) option \<times> 'd gate"
where
  "validate_key au now key_id secret g =
     (case validate_api_key (au_argon2 au) (au_pepper au) now (au_repo au) key_id secret (g_db g) of
        (Inl e, d) \<Rightarrow> (None, g\<lparr>g_db := d\<rparr>)
      | (Inr v, d) \<Rightarrow> (v, g\<lparr>g_db := d\<rparr>))"

definition with_identity :: "u128 option \<Rightarrow> api_key_role \<Rightarrow> http_request \<Rightarrow> http_request" where
  "with_identity ws role req = req\<lparr>rq_workspace := Some ws, rq_role := Some role\<rparr>"

definition client_ip_of :: "'d api_key_auth \<Rightarrow> http_request \<Rightarrow> string" where
  "client_ip_of au req =
     (case get_client_ip req (au_trusted au) of Some ip \<Rightarrow> ip | None \<Rightarrow> ''unknown'')"

definition auth_middleware ::
  "'d api_key_auth \<Rightarrow> request_times \<Rightarrow> ('a, 'd gate) service \<Rightarrow> ('a, 'd gate) service" where
  "auth_middleware au ti next_service req g =
     (let ip = client_ip_of au req in
      if \<not> au_enabled au then next_service (with_identity None Anonymous req) g
      else
        case check_auth_failure_rate (ti_check ti) ip (g_failures g) of
          (False, fm) \<Rightarrow> (too_many_requests_response, g\<lparr>g_failures := fm\<rparr>)
        | (True, fm) \<Rightarrow>
            (let g1 = g\<lparr>g_failures := fm\<rparr> in
             case header_text req ''authorization'' of
               None \<Rightarrow> unauthorized_response ti ip g1
             | Some v \<Rightarrow>
                 (case parse_authorization (au_base64 au) v of
                    None \<Rightarrow> unauthorized_response ti ip g1
                  | Some (key_id, secret) \<Rightarrow>
                      if key_id = [] \<or> secret = [] then unauthorized_response ti ip g1
                      else
                        case validate_key au (ti_now ti) key_id secret g1 of
                          (Some (ws, role), g2) \<Rightarrow> next_service (with_identity ws role req) g2
                        | (None, g2) \<Rightarrow> unauthorized_response ti ip g2)))"

section \<open>The layers of the router\<close>

definition admin_required_middleware :: "('a, 's) service \<Rightarrow> ('a, 's) service" where
  "admin_required_middleware next_service req s =
     (if rq_role req = Some Admin then next_service req s
      else (Denied 403 ''Admin access required'', s))"

definition default_locale :: string where
  "default_locale = ''en''"

definition anonymous_block_middleware :: "translate \<Rightarrow> ('a, 's) service \<Rightarrow> ('a, 's) service" where
  "anonymous_block_middleware tr next_service req s =
     (let loc = (case rq_locale req of Some l \<Rightarrow> l | None \<Rightarrow> default_locale) in
      case rq_role req of
        Some Anonymous \<Rightarrow> (Failure (auth_required_response tr loc), s)
      | Some _ \<Rightarrow> next_service req s
      | None \<Rightarrow> (Failure (auth_required_response tr loc), s))"

text \<open>A layer added later runs first.\<close>

definition admin_route :: "'d api_key_auth \<Rightarrow> request_times \<Rightarrow> ('a, 'd gate) service \<Rightarrow> ('a, 'd gate) service" where
  "admin_route au ti handler = auth_middleware au ti (admin_required_middleware handler)"

definition authenticated_route ::
  "translate \<Rightarrow> 'd api_key_auth \<Rightarrow> request_times \<Rightarrow> ('a, 'd gate) service \<Rightarrow> ('a, 'd gate) service" where
  "authenticated_route tr au ti handler = auth_middleware au ti (anonymous_block_middleware tr handler)"

section \<open>What the middleware does\<close>

lemma recent_recent: "a \<le> b \<Longrightarrow> recent b (recent a fs) = recent b fs"
  by (auto simp: recent_def intro!: filter_cong)

lemma failures_of_update: "failures_of (AList.update ip fs fm) ip' = (if ip' = ip then fs else failures_of fm ip')"
  by (simp add: failures_of_def update_conv')

lemma failures_of_delete: "failures_of (AList.delete ip fm) ip' = (if ip' = ip then [] else failures_of fm ip')"
  by (simp add: failures_of_def delete_conv')

lemma check_rate_fst:
  "fst (check_auth_failure_rate now ip fm) \<longleftrightarrow> length (recent now (failures_of fm ip)) < 10"
  by (simp add: check_auth_failure_rate_def Let_def not_le)

text \<open>The four ways through the middleware.\<close>

lemma auth_middleware_cases [consumes 1, case_names disabled limited unauthorized passed]:
  assumes "auth_middleware au ti nx req g = (r, g')"
  obtains "\<not> au_enabled au" "(r, g') = nx (with_identity None Anonymous req) g"
    | "au_enabled au" "r = too_many_requests_response" "g_db g' = g_db g"
      "10 \<le> length (recent (ti_check ti) (failures_of (g_failures g) (client_ip_of au req)))"
      "g_failures g' = snd (check_auth_failure_rate (ti_check ti) (client_ip_of au req) (g_failures g))"
    | g1 where "au_enabled au" "(r, g') = unauthorized_response ti (client_ip_of au req) g1"
      "length (recent (ti_check ti) (failures_of (g_failures g) (client_ip_of au req))) < 10"
      "g_failures g1 = snd (check_auth_failure_rate (ti_check ti) (client_ip_of au req) (g_failures g))"
      "g_db g1 = g_db g \<or> (\<exists>key_id secret x. validate_api_key (au_argon2 au) (au_pepper au) (ti_now ti)
         (au_repo au) key_id secret (g_db g) = (x, g_db g1))"
    | v key_id secret ws role g2 where "au_enabled au" "(r, g') = nx (with_identity ws role req) g2"
      "length (recent (ti_check ti) (failures_of (g_failures g) (client_ip_of au req))) < 10"
      "g_failures g2 = snd (check_auth_failure_rate (ti_check ti) (client_ip_of au req) (g_failures g))"
      "header_text req ''authorization'' = Some v"
      "parse_authorization (au_base64 au) v = Some (key_id, secret)" "key_id \<noteq> []" "secret \<noteq> []"
      "validate_api_key (au_argon2 au) (au_pepper au) (ti_now ti) (au_repo au) key_id secret (g_db g) =
         (Inr (Some (ws, role)), g_db g2)"
proof -
  let ?ip = "client_ip_of au req"
  obtain ok fm where c: "check_auth_failure_rate (ti_check ti) ?ip (g_failures g) = (ok, fm)"
    by (cases "check_auth_failure_rate (ti_check ti) ?ip (g_failures g)")
  let ?g1 = "g\<lparr>g_failures := fm\<rparr>"
  have few: "ok \<longleftrightarrow> length (recent (ti_check ti) (failures_of (g_failures g) ?ip)) < 10"
    using check_rate_fst [of "ti_check ti" ?ip "g_failures g"] c by simp
  note unauth = that(3) [where ?g1.0 = ?g1] 
  consider "\<not> au_enabled au" | "au_enabled au" "\<not> ok" | "au_enabled au" ok "header_text req ''authorization'' = None"
    | v where "au_enabled au" ok "header_text req ''authorization'' = Some v"
        "parse_authorization (au_base64 au) v = None"
    | v key_id secret where "au_enabled au" ok "header_text req ''authorization'' = Some v"
        "parse_authorization (au_base64 au) v = Some (key_id, secret)" "key_id = [] \<or> secret = []"
    | v key_id secret where "au_enabled au" ok "header_text req ''authorization'' = Some v"
        "parse_authorization (au_base64 au) v = Some (key_id, secret)" "key_id \<noteq> []" "secret \<noteq> []"
    by (metis option.exhaust surj_pair)
  then show thesis
  proof cases
    case 1
    then show thesis using assms that(1) by (simp add: auth_middleware_def Let_def)
  next
    case 2
    then show thesis using assms c few that(2) by (auto simp: auth_middleware_def Let_def)
  next
    case 3
    then show thesis using assms c few unauth by (simp add: auth_middleware_def Let_def)
  next
    case 4
    then show thesis using assms c few unauth by (simp add: auth_middleware_def Let_def)
  next
    case 5
    then have "(r, g') = unauthorized_response ti ?ip ?g1"
      using assms c by (simp add: auth_middleware_def Let_def)
    with 5 show thesis using c few unauth by simp
  next
    case (6 v key_id secret)
    obtain x d where v: "validate_api_key (au_argon2 au) (au_pepper au) (ti_now ti) (au_repo au) key_id secret
        (g_db g) = (x, d)"
      by (cases "validate_api_key (au_argon2 au) (au_pepper au) (ti_now ti) (au_repo au) key_id secret (g_db g)")
    let ?g2 = "?g1\<lparr>g_db := d\<rparr>"
    show thesis
    proof (cases "\<exists>w. x = Inr (Some w)")
      case True
      then obtain ws role where x: "x = Inr (Some (ws, role))" by auto
      with 6 assms c v have "(r, g') = nx (with_identity ws role req) ?g2"
        by (simp add: auth_middleware_def Let_def validate_key_def)
      with 6 few c v x show thesis by (intro that(4) [of ws role ?g2 v key_id secret]) simp_all
    next
      case False
      then have "(r, g') = unauthorized_response ti ?ip ?g2"
        using 6 assms c v
        by (cases x; cases "projr x") (auto simp: auth_middleware_def Let_def validate_key_def)
      moreover have "\<exists>key_id secret x. validate_api_key (au_argon2 au) (au_pepper au) (ti_now ti) (au_repo au)
          key_id secret (g_db g) = (x, g_db ?g2)" using v by auto
      ultimately show thesis using 6 few c by (intro that(3) [of ?g2]) (simp_all, blast?)
    qed
  qed
qed

text \<open>A concrete gate over the tables of \<open>Key_Handlers\<close>, for the witnesses.\<close>

definition demo_auth :: "api_key_row list_table api_key_auth" where
  "demo_auth = \<lparr>au_repo = lt_ops key_clash, au_argon2 = plain_argon2, au_pepper = ''pepper'',
     au_base64 = (\<lambda>s. None), au_enabled = True, au_trusted = []\<rparr>"

definition demo_http :: "string option \<Rightarrow> string option \<Rightarrow> http_request" where
  "demo_http peer auth = \<lparr>rq_peer = peer,
     rq_header = (\<lambda>name. if name = ''authorization'' then map_option Text auth else None),
     rq_workspace = None, rq_role = None, rq_locale = None\<rparr>"

definition demo_times :: "int \<Rightarrow> request_times" where
  "demo_times t = \<lparr>ti_check = t, ti_now = t, ti_record = t\<rparr>"

definition demo_gate :: "api_key_row list_table \<Rightarrow> api_key_row list_table gate" where
  "demo_gate d = \<lparr>g_failures = [], g_db = d\<rparr>"

definition demo_service :: "(u128 option option \<times> api_key_role option, 's) service" where
  "demo_service req s = (Success (rq_workspace req, rq_role req), s)"

definition demo_header :: "string \<Rightarrow> string option" where
  "demo_header key_id = Some (''ApiKey '' @ key_id @ '':'' @ replicate 32 CHR ''H'')"

lemma demo_auth_store: "key_store (au_repo demo_auth) lt_rows"
  using key_table.key_store_axioms by (simp add: demo_auth_def)

lemma demo_user_ok: "keys_ok (lt_rows demo_db)"
  by code_simp

text \<open>
  C6. A handler of an admin route runs only when the request carries the credentials of a key that the table
  grants the admin role at that moment, and its client has fewer than ten recent failures. Every other
  request is answered 401, 403 or 429.
\<close>

theorem admin_route_guarded:
  assumes "key_store (au_repo au) rows" "keys_ok (rows (g_db g))"
    and "admin_route au ti handler req g = (r, g')"
  shows "(\<exists>n msg. r = Denied n msg \<and> n \<in> {401, 403, 429}) \<or>
    (\<exists>v key_id secret ws g2.
       (r, g') = handler (with_identity ws Admin req) g2 \<and> au_enabled au \<and>
       header_text req ''authorization'' = Some v \<and>
       parse_authorization (au_base64 au) v = Some (key_id, secret) \<and>
       length (recent (ti_check ti) (failures_of (g_failures g) (client_ip_of au req))) < 10 \<and>
       grants (au_argon2 au) (au_pepper au) (ti_now ti) key_id secret (rows (g_db g)) = Some (ws, Admin))"
proof -
  from assms(3) have "auth_middleware au ti (admin_required_middleware handler) req g = (r, g')"
    by (simp add: admin_route_def)
  then show ?thesis
  proof (cases rule: auth_middleware_cases)
    case (passed v key_id secret ws role g2)
    from key_store.validate_grants(1) [OF assms(1,2) passed(9)]
    have "grants (au_argon2 au) (au_pepper au) (ti_now ti) key_id secret (rows (g_db g)) = Some (ws, role)"
      by simp
    with passed show ?thesis
      by (auto simp: admin_required_middleware_def with_identity_def split: if_splits)
  qed (auto simp: admin_required_middleware_def with_identity_def too_many_requests_response_def
      unauthorized_response_def)
qed

theorem admin_route_guarded_witness:
  "fst (admin_route demo_auth (demo_times 1) demo_service (demo_http None (demo_header ''niad_7''))
     (demo_gate demo_admin_db)) = Success (Some None, Some Admin)"
proof -
  let ?r = "admin_route demo_auth (demo_times 1) demo_service (demo_http None (demo_header ''niad_7''))
      (demo_gate demo_admin_db)"
  have row: "map k_workspace (lt_rows demo_admin_db) = [None]"
    and ok: "case fst ?r of Success _ \<Rightarrow> True | _ \<Rightarrow> False"
    by code_simp+
  have "keys_ok (lt_rows (g_db (demo_gate demo_admin_db)))"
    using demo_admin_wf(1) by (simp add: demo_gate_def keys_wf_def)
  note guarded = admin_route_guarded [where au = demo_auth, OF demo_auth_store this]
  from guarded [where ti = "demo_times 1" and handler = demo_service and
      req = "demo_http None (demo_header ''niad_7'')", OF prod.collapse [symmetric]] ok
  obtain ws key_id secret g2 where
    r: "?r = demo_service (with_identity ws Admin (demo_http None (demo_header ''niad_7''))) g2" and
    "grants plain_argon2 ''pepper'' 1 key_id secret (lt_rows demo_admin_db) = Some (ws, Admin)"
    by (auto simp: demo_auth_def demo_gate_def demo_times_def split: reply.splits)
  from grants_some [OF this(2)] row have "ws = None" by (auto simp: row_grants_def split: if_splits)
  with r show ?thesis by (simp add: demo_service_def with_identity_def)
qed

text \<open>
  The same for the authenticated routes: their handlers run only for a granted key, whose workspace
  and role the request then carries. The role is never \<open>Anonymous\<close>.
\<close>

theorem authenticated_route_guarded:
  assumes "key_store (au_repo au) rows" "keys_ok (rows (g_db g))"
    and "authenticated_route tr au ti handler req g = (r, g')"
  shows "(\<exists>n msg. r = Denied n msg \<and> n \<in> {401, 429}) \<or> (\<exists>loc. r = Failure (auth_required_response tr loc)) \<or>
    (\<exists>v key_id secret ws role g2.
       (r, g') = handler (with_identity ws role req) g2 \<and> role \<noteq> Anonymous \<and> au_enabled au \<and>
       header_text req ''authorization'' = Some v \<and>
       parse_authorization (au_base64 au) v = Some (key_id, secret) \<and>
       length (recent (ti_check ti) (failures_of (g_failures g) (client_ip_of au req))) < 10 \<and>
       grants (au_argon2 au) (au_pepper au) (ti_now ti) key_id secret (rows (g_db g)) = Some (ws, role))"
proof -
  from assms(3) have "auth_middleware au ti (anonymous_block_middleware tr handler) req g = (r, g')"
    by (simp add: authenticated_route_def)
  then show ?thesis
  proof (cases rule: auth_middleware_cases)
    case (passed v key_id secret ws role g2)
    from key_store.validate_grants(1) [OF assms(1,2) passed(9)]
    have "grants (au_argon2 au) (au_pepper au) (ti_now ti) key_id secret (rows (g_db g)) = Some (ws, role)"
      by simp
    with passed show ?thesis
      by (cases role) (auto simp: anonymous_block_middleware_def with_identity_def Let_def)
  qed (auto simp: anonymous_block_middleware_def with_identity_def too_many_requests_response_def
      unauthorized_response_def Let_def)
qed

theorem authenticated_route_guarded_witness:
  "fst (authenticated_route (\<lambda>l k a. k) demo_auth (demo_times 1) demo_service
     (demo_http None (demo_header ''nino_7'')) (demo_gate demo_db)) = Success (Some (Some 5), Some User)"
proof -
  let ?q = "demo_http None (demo_header ''nino_7'')"
  let ?r = "authenticated_route (\<lambda>l k a. k) demo_auth (demo_times 1) demo_service ?q (demo_gate demo_db)"
  have row: "map (\<lambda>m. (k_workspace m, role_of_text (k_role m))) (lt_rows demo_db) = [(Some 5, User)]"
    and ok: "case fst ?r of Success _ \<Rightarrow> True | _ \<Rightarrow> False"
    by code_simp+
  have "keys_ok (lt_rows (g_db (demo_gate demo_db)))" using demo_user_ok by (simp add: demo_gate_def)
  note guarded = authenticated_route_guarded [where au = demo_auth, OF demo_auth_store this]
  from guarded [where tr = "\<lambda>l k a. k" and ti = "demo_times 1" and handler = demo_service and req = ?q,
      OF prod.collapse [symmetric]] ok
  obtain ws role key_id secret g2 where r: "?r = demo_service (with_identity ws role ?q) g2" and
    "grants plain_argon2 ''pepper'' 1 key_id secret (lt_rows demo_db) = Some (ws, role)"
    by (auto simp: demo_auth_def demo_gate_def demo_times_def split: reply.splits)
  from grants_some [OF this(2)] row have "ws = Some 5" "role = User"
    by (auto simp: row_grants_def split: if_splits)
  with r show ?thesis by (simp add: demo_service_def with_identity_def)
qed

text \<open>
  With authentication switched off the service is closed, not open: no handler of an admin or an
  authenticated route runs and the state does not change.
\<close>

theorem disabled_auth_closes_routes:
  assumes "\<not> au_enabled au"
  shows "admin_route au ti handler req g = (Denied 403 ''Admin access required'', g) \<and>
    (\<exists>loc. authenticated_route tr au ti handler' req g = (Failure (auth_required_response tr loc), g))"
  using assms
  by (auto simp: admin_route_def authenticated_route_def auth_middleware_def admin_required_middleware_def
      anonymous_block_middleware_def with_identity_def Let_def)

theorem disabled_auth_closes_routes_witness:
  "admin_route (demo_auth\<lparr>au_enabled := False\<rparr>) (demo_times 1) demo_service (demo_http None None)
     (demo_gate demo_db) = (Denied 403 ''Admin access required'', demo_gate demo_db)"
proof -
  have "\<not> au_enabled (demo_auth\<lparr>au_enabled := False\<rparr>)" by simp
  from disabled_auth_closes_routes [OF this] show ?thesis by blast
qed

section \<open>Sequences of requests\<close>

text \<open>
  Whether the middleware itself refuses a request with 401, before any handler: its answer in front of a
  handler that only hands on the request it gets. What the middleware does with any other handler is what
  it does with this one, followed by the handler.
\<close>

definition admit :: "(http_request, 's) service" where
  "admit req g = (Success req, g)"

fun is_401 :: "'a reply \<Rightarrow> bool" where
  "is_401 (Denied n _) = (n = 401)"
| "is_401 _ = False"

definition auth_refuses :: "'d api_key_auth \<Rightarrow> request_times \<Rightarrow> http_request \<Rightarrow> 'd gate \<Rightarrow> bool" where
  "auth_refuses au ti req g \<longleftrightarrow> is_401 (fst (auth_middleware au ti admit req g))"

lemma auth_middleware_through:
  "auth_middleware au ti nx req g =
     (case auth_middleware au ti admit req g of
        (Success req', g') \<Rightarrow> nx req' g'
      | (Denied n t, g') \<Rightarrow> (Denied n t, g')
      | (Failure e, g') \<Rightarrow> (Failure e, g'))"
  by (simp add: auth_middleware_def admit_def too_many_requests_response_def unauthorized_response_def Let_def
      split: prod.splits option.splits bool.splits)

text \<open>
  \<open>serve\<close> answers requests in turn and collects the refusals: the client and the time of every 401 of
  the middleware. A 401 that a handler answers is not recorded by the code and not collected here.
\<close>

primrec serve ::
  "'d api_key_auth \<Rightarrow> ('a, 'd gate) service \<Rightarrow> (http_request \<times> request_times) list \<Rightarrow> 'd gate \<Rightarrow>
   (string \<times> int) list \<times> 'd gate" where
  "serve au nx [] g = ([], g)"
| "serve au nx (e # es) g =
     (case auth_middleware au (snd e) nx (fst e) g of
        (r, g1) \<Rightarrow>
          (case serve au nx es g1 of
             (ds, g2) \<Rightarrow>
               (if auth_refuses au (snd e) (fst e) g then (client_ip_of au (fst e), ti_record (snd e)) # ds else ds,
                g2)))"

text \<open>
  A handler may answer anything, but has no access to the record of failures, a private field of the
  middleware's state.
\<close>

definition inert :: "('a, 'd gate) service \<Rightarrow> bool" where
  "inert nx \<longleftrightarrow> (\<forall>req g. g_failures (snd (nx req g)) = g_failures g)"

fun in_order :: "int \<Rightarrow> request_times list \<Rightarrow> bool" where
  "in_order now [] = True"
| "in_order now (ti # tis) =
     (now \<le> ti_check ti \<and> ti_check ti \<le> ti_record ti \<and> in_order (ti_record ti) tis)"

definition times_of :: "string \<Rightarrow> (string \<times> int) list \<Rightarrow> int list" where
  "times_of ip ds = map snd (filter (\<lambda>d. fst d = ip) ds)"

definition in_window :: "int \<Rightarrow> int list \<Rightarrow> int list" where
  "in_window u ts = filter (\<lambda>t. u \<le> t \<and> t < u + FAILURE_WINDOW) ts"

text \<open>
  The invariant: the keys are distinct clients of a set, and from \<open>now\<close> on the recent entries of a
  client are its recent failures.
\<close>

definition tracks :: "string set \<Rightarrow> int \<Rightarrow> failures \<Rightarrow> (string \<Rightarrow> int list) \<Rightarrow> bool" where
  "tracks ips now fm H \<longleftrightarrow>
     distinct (map fst fm) \<and> fst ` set fm \<subseteq> ips \<and>
     (\<forall>ip c. now \<le> c \<longrightarrow> recent c (failures_of fm ip) = recent c (H ip)) \<and> (\<forall>ip. \<forall>t \<in> set (H ip). t \<le> now)"

lemma distinct_update_failures: "distinct (map fst fm) \<Longrightarrow> distinct (map fst (AList.update ip fs fm))"
  by (rule distinct_update)

lemma shrink_small: "length fm \<le> MAX_TRACKED_AUTH_FAILURE_IPS \<Longrightarrow> shrink_failures fm = fm"
  by (simp add: shrink_failures_def)

lemma tracks_small:
  assumes "tracks ips now fm H" "finite ips" "card ips \<le> MAX_TRACKED_AUTH_FAILURE_IPS"
  shows "length fm \<le> MAX_TRACKED_AUTH_FAILURE_IPS"
proof -
  have "length fm = card (fst ` set fm)"
    using assms(1) distinct_card [of "map fst fm"] by (simp add: tracks_def)
  also have "\<dots> \<le> card ips" using assms by (intro card_mono) (auto simp: tracks_def)
  finally show ?thesis using assms(3) by simp
qed

lemma tracks_later: "tracks ips now fm H \<Longrightarrow> now \<le> now' \<Longrightarrow> tracks ips now' fm H"
  by (fastforce simp: tracks_def)

lemma tracks_check:
  assumes "tracks ips now fm H" "finite ips" "card ips \<le> MAX_TRACKED_AUTH_FAILURE_IPS" "ip \<in> ips" "now \<le> c"
  shows "tracks ips c (snd (check_auth_failure_rate c ip fm)) H"
proof -
  let ?fs = "recent c (failures_of fm ip)"
  have t: "tracks ips c fm H" using assms(1,5) by (rule tracks_later)
  have upd: "tracks ips c (AList.update ip ?fs fm) H"
    using t assms(4)
    by (auto simp: tracks_def distinct_update_failures dom_update failures_of_update recent_recent
        simp del: set_map)
  have del: "tracks ips c (AList.delete ip fm) H" if "?fs = []"
  proof -
    have "recent c' (failures_of (AList.delete ip fm) ip') = recent c' (H ip')" if "c \<le> c'" for c' ip'
      using t that \<open>?fs = []\<close> recent_recent [OF that, of "failures_of fm ip"]
      by (auto simp: failures_of_delete tracks_def)
    moreover have "fst ` set (AList.delete ip fm) \<subseteq> ips" "distinct (map fst (AList.delete ip fm))"
      using t dom_delete_subset [of ip fm] distinct_delete [of fm ip] by (auto simp: tracks_def)
    ultimately show ?thesis using t unfolding tracks_def by blast
  qed
  show ?thesis
    using upd del shrink_small [OF tracks_small [OF upd assms(2,3)]]
    by (auto simp: check_auth_failure_rate_def Let_def)
qed

lemma tracks_record:
  assumes "tracks ips now fm H" "ip \<in> ips" "now \<le> t"
  shows "tracks ips t (record_auth_failure t ip fm) (H(ip := H ip @ [t]))"
proof -
  have r: "recent c (failures_of (record_auth_failure t ip fm) ip') = recent c ((H(ip := H ip @ [t])) ip')"
    if "t \<le> c" for c ip'
    using assms(1,3) that by (auto simp: tracks_def record_auth_failure_def failures_of_update recent_def)
  have "\<forall>x \<in> set ((H(ip := H ip @ [t])) ip'). x \<le> t" for ip'
  proof -
    have "\<forall>x \<in> set (H ip'). x \<le> t" using assms(1,3) unfolding tracks_def by (meson order_trans)
    then show ?thesis by simp
  qed
  moreover have "fst ` set (record_auth_failure t ip fm) \<subseteq> ips"
    using assms(1,2) by (simp add: tracks_def record_auth_failure_def dom_update)
  moreover have "distinct (map fst (record_auth_failure t ip fm))"
    using assms(1) by (simp add: tracks_def record_auth_failure_def distinct_update_failures)
  ultimately show ?thesis using r unfolding tracks_def by blast
qed

text \<open>A failure that follows a passed check keeps every window at ten.\<close>

lemma window_step:
  assumes "\<And>u. length (in_window u ts) \<le> 10" "\<forall>t \<in> set ts. t \<le> c" "c \<le> t" "length (recent c ts) < 10"
  shows "length (in_window u (ts @ [t])) \<le> 10"
proof (cases "u \<le> t \<and> t < u + FAILURE_WINDOW")
  case True
  then have "length (in_window u ts) \<le> length (recent c ts)"
    using assms(3) unfolding in_window_def recent_def
    by (induction ts) auto
  then show ?thesis using assms(4) True by (simp add: in_window_def)
next
  case False
  then have "in_window u (ts @ [t]) = in_window u ts" by (auto simp: in_window_def)
  then show ?thesis using assms(1) [of u] by simp
qed

lemma serve_step_tracks:
  assumes "auth_middleware au ti nx req g = (r, g')" "inert nx" "tracks ips now (g_failures g) H"
    and "finite ips" "card ips \<le> MAX_TRACKED_AUTH_FAILURE_IPS" "client_ip_of au req \<in> ips"
    and "now \<le> ti_check ti" "ti_check ti \<le> ti_record ti"
  defines "ip \<equiv> client_ip_of au req"
  defines "H' \<equiv> if auth_refuses au ti req g then H(ip := H ip @ [ti_record ti]) else H"
  shows "tracks ips (ti_record ti) (g_failures g') H'"
    and "(\<And>ip u. length (in_window u (H ip)) \<le> 10) \<Longrightarrow> length (in_window u (H' ip')) \<le> 10"
proof -
  note chk = tracks_check [OF assms(3-7)]
  have few: "recent (ti_check ti) (failures_of (g_failures g) ip) = recent (ti_check ti) (H ip)"
    using assms(3,7) by (simp add: tracks_def)
  have le: "\<forall>t \<in> set (H ip). t \<le> ti_check ti"
    using assms(3,7) unfolding tracks_def by (meson order_trans)
  obtain r0 g0 where m0: "auth_middleware au ti admit req g = (r0, g0)"
    by (cases "auth_middleware au ti admit req g")
  note out = assms(1) [unfolded auth_middleware_through [of au ti nx] m0]
  have tr: "tracks ips (ti_record ti) (g_failures g') H' \<and>
      (auth_refuses au ti req g \<longrightarrow> length (recent (ti_check ti) (H ip)) < 10)"
    using m0
  proof (cases rule: auth_middleware_cases)
    case disabled
    then have "\<not> auth_refuses au ti req g" "g_failures g' = g_failures g"
      using out assms(2) m0 by (auto simp: auth_refuses_def admit_def inert_def) (metis snd_conv)
    then show ?thesis
      using tracks_later [OF assms(3), of "ti_record ti"] assms(7,8) by (simp add: H'_def)
  next
    case limited
    then show ?thesis
      using tracks_later [OF chk assms(8)] out m0
      by (simp add: H'_def auth_refuses_def too_many_requests_response_def)
  next
    case (unauthorized g1)
    then have "auth_refuses au ti req g"
      "g_failures g' = record_auth_failure (ti_record ti) ip (g_failures g1)"
      using out m0 by (auto simp: auth_refuses_def unauthorized_response_def ip_def)
    moreover have "tracks ips (ti_record ti) (g_failures g') (H(ip := H ip @ [ti_record ti]))"
      unfolding calculation(2) unauthorized(4) ip_def by (rule tracks_record [OF chk assms(6,8)])
    ultimately show ?thesis using unauthorized(3) few by (simp add: H'_def ip_def)
  next
    case (passed v key_id secret ws role g2)
    then have "\<not> auth_refuses au ti req g" "g_failures g' = g_failures g2"
      using out assms(2) m0 by (auto simp: auth_refuses_def admit_def inert_def) (metis snd_conv)
    then show ?thesis using tracks_later [OF chk assms(8)] passed(4) by (simp add: H'_def)
  qed
  then show "tracks ips (ti_record ti) (g_failures g') H'" ..
  show "length (in_window u (H' ip')) \<le> 10" if w: "\<And>ip u. length (in_window u (H ip)) \<le> 10"
    using window_step [OF w le assms(8)] tr w by (simp add: H'_def)
qed

lemma serve_windows:
  assumes "inert nx" "finite ips" "card ips \<le> MAX_TRACKED_AUTH_FAILURE_IPS"
    and "(client_ip_of au \<circ> fst) ` set es \<subseteq> ips" "tracks ips now (g_failures g) H"
    and "in_order now (map snd es)" "\<And>ip u. length (in_window u (H ip)) \<le> 10"
  shows "length (in_window u (H ip @ times_of ip (fst (serve au nx es g)))) \<le> 10"
  using assms(4-)
proof (induction es arbitrary: g H now)
  case Nil
  then show ?case by (simp add: times_of_def)
next
  case (Cons e es)
  obtain r g1 where m: "auth_middleware au (snd e) nx (fst e) g = (r, g1)"
    by (cases "auth_middleware au (snd e) nx (fst e) g")
  let ?ip = "client_ip_of au (fst e)" and ?t = "ti_record (snd e)"
  let ?H = "if auth_refuses au (snd e) (fst e) g then H(?ip := H ?ip @ [?t]) else H"
  have ord: "now \<le> ti_check (snd e)" "ti_check (snd e) \<le> ?t" "in_order ?t (map snd es)"
    and ip: "?ip \<in> ips" "(client_ip_of au \<circ> fst) ` set es \<subseteq> ips"
    using Cons.prems(1,3) by simp_all
  note step = serve_step_tracks [OF m assms(1) Cons.prems(2) assms(2,3) ip(1) ord(1,2)]
  have "H ip @ times_of ip (fst (serve au nx (e # es) g)) = ?H ip @ times_of ip (fst (serve au nx es g1))"
    using m by (auto simp: times_of_def split: prod.splits)
  also have "length (in_window u \<dots>) \<le> 10"
    by (rule Cons.IH [OF ip(2) step(1) ord(3)]) (rule step(2) [OF Cons.prems(4)])
  finally show ?case .
qed

text \<open>
  C8. Against guessing: whatever requests arrive, in whatever order, the authentication middleware itself
  refuses at most ten of one client's with its own 401 in any window of five minutes, if the record of
  failures is empty at first, the requests come from at most 10000 clients, are handled one after the
  other on a clock that does not go back, and the handlers leave the record alone. Answers 401 that a
  handler behind the middleware gives are not failures to the code and are not counted.
\<close>

theorem failures_bounded:
  assumes "inert nx" "g_failures g = []" "in_order now (map snd es)"
    and "card ((client_ip_of au \<circ> fst) ` set es) \<le> MAX_TRACKED_AUTH_FAILURE_IPS"
  shows "length (in_window u (times_of ip (fst (serve au nx es g)))) \<le> 10"
  using serve_windows [of nx "(client_ip_of au \<circ> fst) ` set es" au es now g "\<lambda>_. []" u ip] assms
  by (simp add: tracks_def in_window_def failures_of_def)

theorem failures_bounded_witness:
  "length (in_window 0 (times_of ''10.0.0.1'' (fst (serve demo_auth demo_service
     (map (\<lambda>t. (demo_http (Some ''10.0.0.1'') None, demo_times t)) [1..12]) (demo_gate demo_db))))) \<le> 10"
proof (rule failures_bounded)
  show "inert (demo_service :: (_, api_key_row list_table gate) service)"
    by (simp add: inert_def demo_service_def)
  show "in_order 0 (map snd (map (\<lambda>t. (demo_http (Some ''10.0.0.1'') None, demo_times t)) [1..12]))"
    by (simp add: upto.simps demo_times_def)
  have "(client_ip_of demo_auth \<circ> fst) ` set (map (\<lambda>t. (demo_http (Some ''10.0.0.1'') None, demo_times t))
      [1..12]) \<subseteq> {''10.0.0.1''}"
    by (auto simp: client_ip_of_def get_client_ip_def demo_http_def demo_auth_def)
  from card_mono [OF _ this]
  show "card ((client_ip_of demo_auth \<circ> fst) ` set (map (\<lambda>t. (demo_http (Some ''10.0.0.1'') None,
      demo_times t)) [1..12])) \<le> MAX_TRACKED_AUTH_FAILURE_IPS"
    by (simp add: MAX_TRACKED_AUTH_FAILURE_IPS_def)
qed (simp add: demo_gate_def)

section \<open>Lockout\<close>

definition anonymous_try :: "http_request \<Rightarrow> bool" where
  "anonymous_try req \<longleftrightarrow> rq_peer req = None \<and> header_text req ''authorization'' = None"

lemma unknown_client: "rq_peer req = None \<Longrightarrow> client_ip_of au req = ''unknown''"
  by (simp add: client_ip_of_def get_client_ip_def)

definition only_unknown :: "int list \<Rightarrow> failures" where
  "only_unknown ts = (if ts = [] then [] else [(''unknown'', ts)])"

lemma failures_of_only: "failures_of (only_unknown ts) ''unknown'' = ts"
  by (simp add: only_unknown_def failures_of_def)

lemma recent_all: "\<forall>t \<in> set ts. c < t + FAILURE_WINDOW \<Longrightarrow> recent c ts = ts"
  by (auto simp: recent_def filter_id_conv)

lemma serve_anonymous:
  assumes "au_enabled au" "\<forall>e \<in> set es. anonymous_try (fst e) \<and> t0 \<le> ti_record (snd e) \<and>
      ti_check (snd e) < t0 + FAILURE_WINDOW"
    and "g_failures g = only_unknown ts" "\<forall>t \<in> set ts. t0 \<le> t" "length ts + length es \<le> 10"
  shows "g_failures (snd (serve au nx es g)) = only_unknown (ts @ map (ti_record \<circ> snd) es)"
  using assms(2-)
proof (induction es arbitrary: g ts)
  case (Cons e es)
  have e: "anonymous_try (fst e)" "t0 \<le> ti_record (snd e)" "ti_check (snd e) < t0 + FAILURE_WINDOW"
    using Cons.prems(1) by simp_all
  then have ip: "client_ip_of au (fst e) = ''unknown''" by (simp add: anonymous_try_def unknown_client)
  have "\<forall>t \<in> set ts. ti_check (snd e) < t + FAILURE_WINDOW" using Cons.prems(3) e(3) by fastforce
  then have r: "recent (ti_check (snd e)) ts = ts" by (rule recent_all)
  have chk: "check_auth_failure_rate (ti_check (snd e)) ''unknown'' (only_unknown ts) = (True, only_unknown ts)"
    using Cons.prems(4) r
    by (auto simp: check_auth_failure_rate_def failures_of_only shrink_failures_def
        MAX_TRACKED_AUTH_FAILURE_IPS_def only_unknown_def failures_of_def)
  have rec: "record_auth_failure (ti_record (snd e)) ''unknown'' (only_unknown ts) =
      only_unknown (ts @ [ti_record (snd e)])"
    by (simp add: record_auth_failure_def failures_of_only) (simp add: only_unknown_def)
  let ?g = "g\<lparr>g_failures := only_unknown (ts @ [ti_record (snd e)])\<rparr>"
  have m: "auth_middleware au (snd e) nx (fst e) g = (Denied 401 ''Invalid or missing API key'', ?g)"
    using assms(1) e(1) Cons.prems(2) chk rec ip
    by (simp add: auth_middleware_def anonymous_try_def unauthorized_response_def Let_def)
  have "g_failures (snd (serve au nx es ?g)) = only_unknown ((ts @ [ti_record (snd e)]) @ map (ti_record \<circ> snd) es)"
    using Cons.prems e(2) by (intro Cons.IH) auto
  then show ?case using m by (simp add: case_prod_beta comp_def)
qed simp

text \<open>
  Anybody locks out everybody: the server hands no peer address to the middleware, so all clients share
  the name \<open>unknown\<close>. After ten requests without credentials, from anywhere, every request of
  every client is refused with 429 for the rest of the five minutes, the ones with valid keys included.
\<close>

theorem anybody_locks_out_everybody:
  assumes "au_enabled au" "g_failures g = []" "length es = 10"
    and "\<forall>e \<in> set es. anonymous_try (fst e) \<and> t0 \<le> ti_record (snd e) \<and> ti_check (snd e) < t0 + FAILURE_WINDOW"
    and "rq_peer req = None" "ti_check ti < t0 + FAILURE_WINDOW"
  shows "fst (auth_middleware au ti nx req (snd (serve au nx es g))) = too_many_requests_response"
proof -
  let ?ts = "map (ti_record \<circ> snd) es"
  have fm: "g_failures (snd (serve au nx es g)) = only_unknown ?ts"
    using serve_anonymous [OF assms(1,4), of g "[]" nx] assms(2,3) by (simp add: only_unknown_def)
  have "\<forall>t \<in> set ?ts. ti_check ti < t + FAILURE_WINDOW" using assms(4,6) by fastforce
  then have "recent (ti_check ti) ?ts = ?ts" by (rule recent_all)
  then have "\<not> fst (check_auth_failure_rate (ti_check ti) ''unknown'' (only_unknown ?ts))"
    using assms(3) by (simp add: check_rate_fst failures_of_only)
  then show ?thesis
    using assms(1,5) fm
    by (auto simp: auth_middleware_def unknown_client Let_def split: prod.splits bool.splits)
qed

theorem anybody_locks_out_everybody_witness:
  "fst (auth_middleware demo_auth (demo_times 20) demo_service (demo_http None (demo_header ''nino_7''))
     (snd (serve demo_auth demo_service (map (\<lambda>t. (demo_http None None, demo_times t)) [1..10])
        (demo_gate demo_db)))) = too_many_requests_response"
proof (rule anybody_locks_out_everybody [where ?t0.0 = 1])
  show "\<forall>e \<in> set (map (\<lambda>t. (demo_http None None, demo_times t)) [1..10]).
      anonymous_try (fst e) \<and> 1 \<le> ti_record (snd e) \<and> ti_check (snd e) < 1 + FAILURE_WINDOW"
    by (auto simp: anonymous_try_def demo_http_def header_text_def demo_times_def FAILURE_WINDOW_def)
qed (simp_all add: demo_auth_def demo_gate_def demo_http_def demo_times_def FAILURE_WINDOW_def)

lemma serve_distinct:
  assumes "au_enabled au" "distinct (map (client_ip_of au \<circ> fst) es)"
    and "\<forall>e \<in> set es. header_text (fst e) ''authorization'' = None"
    and "\<forall>e \<in> set es. client_ip_of au (fst e) \<notin> fst ` set (g_failures g)"
  shows "length (g_failures (snd (serve au nx es g))) = length (g_failures g) + length es"
  using assms(2-)
proof (induction es arbitrary: g)
  case (Cons e es)
  let ?ip = "client_ip_of au (fst e)"
  have new: "?ip \<notin> fst ` set (g_failures g)" using Cons.prems(3) by simp
  then have none: "failures_of (g_failures g) ?ip = []"
    by (simp add: failures_of_def map_of_eq_None_iff [THEN iffD2])
  then have chk: "check_auth_failure_rate (ti_check (snd e)) ?ip (g_failures g) = (True, g_failures g)"
    using new by (simp add: check_auth_failure_rate_def recent_def)
  let ?g = "g\<lparr>g_failures := AList.update ?ip [ti_record (snd e)] (g_failures g)\<rparr>"
  have m: "auth_middleware au (snd e) nx (fst e) g = (Denied 401 ''Invalid or missing API key'', ?g)"
    using assms(1) Cons.prems(2) chk none
    by (simp add: auth_middleware_def unauthorized_response_def record_auth_failure_def Let_def)
  have "length (AList.update ip fs fm) = Suc (length fm)" if "ip \<notin> fst ` set fm" for ip fs and fm :: failures
    using that by (induction fm) auto
  from this [OF new] have "length (g_failures ?g) = Suc (length (g_failures g))" by simp
  moreover have "length (g_failures (snd (serve au nx es ?g))) = length (g_failures ?g) + length es"
  proof (rule Cons.IH)
    have "client_ip_of au (fst e') \<noteq> ?ip" if "e' \<in> set es" for e'
    proof -
      have "?ip \<notin> (client_ip_of au \<circ> fst) ` set es" using Cons.prems(1) by (simp add: image_comp)
      moreover have "client_ip_of au (fst e') \<in> (client_ip_of au \<circ> fst) ` set es"
        using imageI [OF that, of "client_ip_of au \<circ> fst"] by (simp only: comp_apply)
      ultimately show ?thesis by metis
    qed
    then show "\<forall>e' \<in> set es. client_ip_of au (fst e') \<notin> fst ` set (g_failures ?g)"
      using Cons.prems(3) by (simp add: dom_update)
  qed (use Cons.prems in simp_all)
  ultimately show ?case using m by (simp add: case_prod_beta)
qed simp

text \<open>
  The record of failures is not bounded by \<open>MAX_TRACKED_AUTH_FAILURE_IPS\<close>: the size is only looked
  at for a client with a recent failure, so clients that fail once each add one entry each, for ever.
\<close>

theorem failure_map_unbounded:
  assumes "au_enabled au" "distinct (map (client_ip_of au \<circ> fst) es)" "g_failures g = []"
    and "\<forall>e \<in> set es. header_text (fst e) ''authorization'' = None"
  shows "length (g_failures (snd (serve au nx es g))) = length es"
  using serve_distinct [OF assms(1,2,4), of g nx] assms(3) by simp

theorem failure_map_unbounded_witness:
  "MAX_TRACKED_AUTH_FAILURE_IPS < length (g_failures (snd (serve demo_auth demo_service
     (map (\<lambda>n. (demo_http (Some (print_dec n)) None, demo_times 1)) [0..<12000]) (demo_gate demo_db))))"
proof -
  let ?es = "map (\<lambda>n. (demo_http (Some (print_dec n)) None, demo_times 1)) [0..<12000]"
  have ip: "client_ip_of demo_auth \<circ> fst \<circ> (\<lambda>n. (demo_http (Some (print_dec n)) None, demo_times 1)) = print_dec"
    by (simp add: fun_eq_iff client_ip_of_def get_client_ip_def demo_http_def demo_auth_def)
  have "inj print_dec" by (rule injI) (metis lessI max.commute max.strict_coboundedI1 option.inject parse_print_dec)
  then have "distinct (map (client_ip_of demo_auth \<circ> fst) ?es)"
    unfolding map_map ip by (simp add: distinct_map inj_on_subset [OF _ subset_UNIV])
  from failure_map_unbounded [OF _ this, of "demo_gate demo_db" demo_service] show ?thesis
    by (simp add: demo_auth_def demo_gate_def demo_http_def header_text_def MAX_TRACKED_AUTH_FAILURE_IPS_def)
qed

text \<open>Above the bound one request clears the record, and with it every lockout.\<close>

lemma valve_clears_lockouts:
  assumes "distinct (map fst fm)" "MAX_TRACKED_AUTH_FAILURE_IPS < length fm" "\<forall>e \<in> set fm. snd e \<noteq> []"
    and "recent now (failures_of fm ip) \<noteq> []" "length (recent now (failures_of fm ip)) < 10"
  shows "check_auth_failure_rate now ip fm = (True, [])"
proof -
  let ?fm = "AList.update ip (recent now (failures_of fm ip)) fm"
  have "length (AList.update ip fs fm) \<ge> length fm" for fs
    by (induction fm) auto
  then have "MAX_TRACKED_AUTH_FAILURE_IPS < length ?fm" using assms(2) less_le_trans by blast
  moreover have "filter (\<lambda>e. snd e \<noteq> []) ?fm = ?fm"
  proof -
    have "\<forall>e \<in> set (AList.update ip fs fm). snd e \<noteq> []" if "fs \<noteq> []" for fs
      using that assms(3) by (induction fm) auto
    with assms(4) show ?thesis by (simp add: filter_id_conv)
  qed
  ultimately show ?thesis
    using assms(4,5) by (simp add: check_auth_failure_rate_def shrink_failures_def Let_def)
qed

section \<open>Credentials\<close>

lemma split_at_colon:
  "CHR '':'' \<notin> set k \<Longrightarrow> split_credentials (k @ '':'' @ t) = Some (k, t)"
proof -
  assume k: "CHR '':'' \<notin> set k"
  then have "dropWhile (\<lambda>c. c \<noteq> CHR '':'') (k @ '':'' @ t) = '':'' @ t"
    by (subst dropWhile_append2) auto
  moreover have "takeWhile (\<lambda>c. c \<noteq> CHR '':'') (k @ '':'' @ t) = k"
    using k by (subst takeWhile_append2) auto
  ultimately show ?thesis by (simp add: split_credentials_def)
qed

lemma split_no_colon: "split_credentials x = Some (k, t) \<Longrightarrow> CHR '':'' \<notin> set k"
  by (auto simp: split_credentials_def dest: set_takeWhileD split: if_splits)

text \<open>
  Both forms of the header carry a key id and a secret exactly when the key id has no colon; no header
  whatever presents a key id with one.
\<close>

theorem credentials_roundtrip:
  "(CHR '':'' \<notin> set key_id \<longrightarrow>
      parse_authorization base64 (''ApiKey '' @ key_id @ '':'' @ secret) = Some (key_id, secret) \<and>
      (\<forall>c. base64 c = Some (key_id @ '':'' @ secret) \<and> from_utf8 (key_id @ '':'' @ secret) \<noteq> None \<longrightarrow>
         parse_authorization base64 (''Basic '' @ c) = Some (key_id, secret))) \<and>
   (\<forall>v k t. parse_authorization base64 v = Some (k, t) \<longrightarrow> CHR '':'' \<notin> set k)"
proof (intro conjI impI allI)
  assume k: "CHR '':'' \<notin> set key_id"
  show "parse_authorization base64 (''ApiKey '' @ key_id @ '':'' @ secret) = Some (key_id, secret)"
    using split_at_colon [OF k, of secret] by (simp add: parse_authorization_def strip_prefix_def)
  fix c
  assume "base64 c = Some (key_id @ '':'' @ secret) \<and> from_utf8 (key_id @ '':'' @ secret) \<noteq> None"
  then show "parse_authorization base64 (''Basic '' @ c) = Some (key_id, secret)"
    using split_at_colon [OF k, of secret]
    by (auto simp: parse_authorization_def strip_prefix_def from_utf8_def split: if_splits)
next
  fix v k t
  assume "parse_authorization base64 v = Some (k, t)"
  then show "CHR '':'' \<notin> set k"
    by (auto simp: parse_authorization_def split: option.splits dest: split_no_colon)
qed

theorem credentials_roundtrip_witness:
  "parse_authorization (\<lambda>s. None) (''ApiKey '' @ ''nino_7'' @ '':'' @ ''a:b'') = Some (''nino_7'', ''a:b'')"
  using credentials_roundtrip [of "''nino_7''" "\<lambda>s. None" "''a:b''"] by simp

end
