(* ===== verification/Routes.thy ===== *)
theory Routes
  imports Org_Handlers Api_Auth Id_Handlers
begin

text \<open>
  The route handlers of \<open>src/src/server/router.rs\<close>: what happens between the middleware of \<open>Api_Auth\<close> and
  the handlers of \<open>Id_Handlers\<close>, \<open>Org_Handlers\<close> and \<open>Key_Handlers\<close>. A route checks the role of the key,
  validates the request, compares the workspace of the key with that of the request and maps errors to
  responses.

  \<open>ws\<close>, \<open>role\<close> and \<open>loc\<close> are the extensions the middleware put into the request. Decoding of paths,
  queries and bodies belongs to the web framework. The violated rules of a request are listed in the
  order of its fields, which stands for the unspecified order of the \<open>validator\<close> crate.
\<close>

section \<open>Checks\<close>

type_synonym 'a http_res = "(nat \<times> error_response) + 'a"

definition http_result :: "translate \<Rightarrow> string \<Rightarrow> 'a res \<Rightarrow> 'a http_res" where
  "http_result tr loc x = map_sum (core_error_to_response tr loc) id x"

definition verify_user_role :: "translate \<Rightarrow> string \<Rightarrow> api_key_role \<Rightarrow> unit http_res" where
  "verify_user_role tr loc role =
     (if role = Admin then Inl (admin_cannot_perform_response tr loc)
      else if role = Anonymous then Inl (auth_required_response tr loc)
      else Inr ())"

definition verify_workspace_id_match ::
  "translate \<Rightarrow> string \<Rightarrow> u128 \<Rightarrow> u128 option \<Rightarrow> unit http_res" where
  "verify_workspace_id_match tr loc workspace key_workspace =
     (if key_workspace = None then Inr ()
      else if Some workspace \<noteq> key_workspace then Inl (workspace_mismatch_response tr loc)
      else Inr ())"

definition verify_user_workspace ::
  "translate \<Rightarrow> string \<Rightarrow> key_env \<Rightarrow> 'd api_handlers \<Rightarrow> string \<Rightarrow> u128 option \<Rightarrow> 'd \<Rightarrow> unit http_res \<times> 'd"
where
  "verify_user_workspace tr loc env h name key_workspace d =
     (case get_workspace_handler env h name d of
        (Inl e, d') \<Rightarrow> (Inl (core_error_to_response tr loc e), d')
      | (Inr None, d') \<Rightarrow> (Inl (workspace_name_not_found_response tr loc name), d')
      | (Inr (Some w), d') \<Rightarrow>
          (case ke_parse_uuid env (wh_id w) of
             None \<Rightarrow> (Inl (invalid_workspace_id_response tr loc), d')
           | Some u \<Rightarrow> (verify_workspace_id_match tr loc u key_workspace, d')))"

section \<open>Validation of requests\<close>

text \<open>The \<open>length\<close> rule counts characters, the bytes of a string that do not continue a sequence.\<close>

type_synonym violations = "(string \<times> string) list"

definition char_count :: "string \<Rightarrow> nat" where
  "char_count s = length (filter (\<lambda>c. \<not> cont_byte (code_of c)) s)"

definition length_rule :: "string \<Rightarrow> nat \<Rightarrow> nat \<Rightarrow> string \<Rightarrow> violations" where
  "length_rule field lo hi s =
     (if lo \<le> char_count s \<and> char_count s \<le> hi then [] else [(field, ''length'')])"

definition range_rule :: "string \<Rightarrow> int \<Rightarrow> int \<Rightarrow> int \<Rightarrow> violations" where
  "range_rule field lo hi n = (if lo \<le> n \<and> n \<le> hi then [] else [(field, ''range'')])"

definition if_given :: "('a \<Rightarrow> violations) \<Rightarrow> 'a option \<Rightarrow> violations" where
  "if_given rule x = (case x of None \<Rightarrow> [] | Some v \<Rightarrow> rule v)"

definition validate_request :: "translate \<Rightarrow> string \<Rightarrow> violations \<Rightarrow> unit http_res" where
  "validate_request tr loc vs = (if vs = [] then Inr () else Inl (validation_error_response tr loc vs))"

definition generate_rules :: "generate_request \<Rightarrow> violations" where
  "generate_rules r =
     length_rule ''workspace'' 1 64 (gr_workspace r) @ length_rule ''group'' 1 64 (gr_group r) @
     length_rule ''biz_tag'' 1 64 (gr_biz_tag r) @
     if_given (length_rule ''algorithm'' 1 20) (gr_algorithm r)"

definition batch_rules :: "batch_request \<Rightarrow> violations" where
  "batch_rules r =
     length_rule ''workspace'' 1 64 (br_workspace r) @ length_rule ''group'' 1 64 (br_group r) @
     length_rule ''biz_tag'' 1 64 (br_biz_tag r) @
     if_given (\<lambda>n. range_rule ''size'' 1 100 (int n)) (br_size r) @
     if_given (length_rule ''algorithm'' 1 20) (br_algorithm r)"

definition create_biz_tag_rules :: "create_biz_tag_http \<Rightarrow> violations" where
  "create_biz_tag_rules r =
     length_rule ''name'' 1 64 (hb_name r) @ if_given (length_rule ''description'' 0 512) (hb_description r) @
     if_given (length_rule ''algorithm'' 1 20) (hb_algorithm r) @
     if_given (length_rule ''format'' 1 20) (hb_format r) @
     if_given (length_rule ''prefix'' 0 50) (hb_prefix r) @
     if_given (range_rule ''base_step'' 1 1000000) (hb_base_step r) @
     if_given (range_rule ''max_step'' 1 10000000) (hb_max_step r)"

definition update_biz_tag_rules :: "update_biz_tag_http \<Rightarrow> violations" where
  "update_biz_tag_rules r =
     if_given (length_rule ''name'' 1 64) (hu_name r) @
     if_given (length_rule ''description'' 0 512) (hu_description r) @
     if_given (length_rule ''algorithm'' 1 20) (hu_algorithm r) @
     if_given (length_rule ''format'' 1 20) (hu_format r) @
     if_given (length_rule ''prefix'' 0 50) (hu_prefix r) @
     if_given (range_rule ''base_step'' 1 1000000) (hu_base_step r) @
     if_given (range_rule ''max_step'' 1 10000000) (hu_max_step r)"

definition create_workspace_rules :: "create_workspace_http \<Rightarrow> violations" where
  "create_workspace_rules r =
     length_rule ''name'' 1 64 (hw_name r) @ if_given (range_rule ''max_groups'' 1 1000) (hw_max_groups r) @
     if_given (range_rule ''max_biz_tags'' 1 10000) (hw_max_biz_tags r)"

definition create_group_rules :: "create_group_http \<Rightarrow> violations" where
  "create_group_rules r =
     length_rule ''workspace'' 1 64 (hg_workspace r) @ length_rule ''name'' 1 64 (hg_name r) @
     if_given (range_rule ''max_biz_tags'' 1 1000) (hg_max_biz_tags r)"

definition create_key_rules :: "key_request \<Rightarrow> violations" where
  "create_key_rules r =
     length_rule ''name'' 1 64 (hk_name r) @ if_given (length_rule ''role'' 1 20) (hk_role r) @
     if_given (range_rule ''rate_limit'' 100 1000000) (hk_rate_limit r)"

record pagination_params =
  pg_workspace_id :: "string option"
  pg_page :: u64
  pg_page_size :: u64

record group_list_params =
  gl_workspace :: string
  gl_page :: u64
  gl_page_size :: u64

definition page_size_rules :: "u64 \<Rightarrow> violations" where
  "page_size_rules n = range_rule ''page_size'' 1 100 (uint n)"

text \<open>The page, its size and the offset of its first row, in wrapping arithmetic.\<close>

definition page_of :: "pagination_params \<Rightarrow> u64 \<times> u64 \<times> u64" where
  "page_of params =
     (let page = max 1 (pg_page params);
          page_size = max 1 (min 100 (pg_page_size params))
      in (page, page_size, (page - 1) * page_size))"

section \<open>Identifiers\<close>

text \<open>
  The state of the server apart from the database: the counters and the generator. \<open>None\<close> while the
  generator waits.
\<close>

definition route_generate ::
  "translate \<Rightarrow> key_env \<Rightarrow> 'd api_handlers \<Rightarrow> 's id_service \<Rightarrow> u64 \<Rightarrow> string \<Rightarrow>
   u128 option \<Rightarrow> api_key_role \<Rightarrow> string \<Rightarrow> generate_request \<Rightarrow> api_metrics \<Rightarrow> 's \<Rightarrow> 'd \<Rightarrow>
   (generate_response http_res \<times> api_metrics \<times> 's \<times> 'd) option" where
  "route_generate tr env h svc latency stamp ws role loc req m s d =
     (case verify_user_role tr loc role of
        Inl e \<Rightarrow> Some (Inl e, m, s, d)
      | Inr _ \<Rightarrow>
          (case validate_request tr loc (generate_rules req) of
             Inl e \<Rightarrow> Some (Inl e, m, s, d)
           | Inr _ \<Rightarrow>
               (case verify_user_workspace tr loc env h (gr_workspace req) ws d of
                  (Inl e, d') \<Rightarrow> Some (Inl e, m, s, d')
                | (Inr _, d') \<Rightarrow>
                    (case handle_generate (ke_disp env) svc latency stamp req m s of
                       None \<Rightarrow> None
                     | Some (x, m', s') \<Rightarrow> Some (http_result tr loc x, m', s', d')))))"

definition route_batch_generate ::
  "translate \<Rightarrow> key_env \<Rightarrow> 'd api_handlers \<Rightarrow> 's id_service \<Rightarrow> u32 \<Rightarrow> u64 \<Rightarrow> string \<Rightarrow>
   u128 option \<Rightarrow> api_key_role \<Rightarrow> string \<Rightarrow> batch_request \<Rightarrow> api_metrics \<Rightarrow> 's \<Rightarrow> 'd \<Rightarrow>
   (batch_response http_res \<times> api_metrics \<times> 's \<times> 'd) option" where
  "route_batch_generate tr env h svc max_batch_size latency stamp ws role loc req m s d =
     (case verify_user_role tr loc role of
        Inl e \<Rightarrow> Some (Inl e, m, s, d)
      | Inr _ \<Rightarrow>
          (case validate_request tr loc (batch_rules req) of
             Inl e \<Rightarrow> Some (Inl e, m, s, d)
           | Inr _ \<Rightarrow>
               (case verify_user_workspace tr loc env h (br_workspace req) ws d of
                  (Inl e, d') \<Rightarrow> Some (Inl e, m, s, d')
                | (Inr _, d') \<Rightarrow>
                    (case handle_batch_generate (ke_t env) (ke_disp env) svc max_batch_size latency stamp
                            req m s of
                       None \<Rightarrow> None
                     | Some (x, m', s') \<Rightarrow> Some (http_result tr loc x, m', s', d')))))"

section \<open>Tags\<close>

definition route_create_biz_tag ::
  "translate \<Rightarrow> key_env \<Rightarrow> u128 \<Rightarrow> int \<Rightarrow> 'd api_handlers \<Rightarrow> u128 option \<Rightarrow> api_key_role \<Rightarrow> string \<Rightarrow>
   create_biz_tag_http \<Rightarrow> 'd \<Rightarrow> biz_tag_http http_res \<times> 'd" where
  "route_create_biz_tag tr env uuid now h ws role loc req d =
     (case validate_request tr loc (create_biz_tag_rules req) of
        Inl e \<Rightarrow> (Inl e, d)
      | Inr _ \<Rightarrow>
          (case verify_user_role tr loc role of
             Inl e \<Rightarrow> (Inl e, d)
           | Inr _ \<Rightarrow>
               (case verify_workspace_id_match tr loc (hb_workspace_id req) ws of
                  Inl e \<Rightarrow> (Inl e, d)
                | Inr _ \<Rightarrow>
                    (case create_biz_tag_handler env uuid now h req d of
                       (x, d') \<Rightarrow> (http_result tr loc x, d')))))"

text \<open>The tag of a path, if the key may see it.\<close>

definition owned_tag ::
  "translate \<Rightarrow> key_env \<Rightarrow> 'd api_handlers \<Rightarrow> u128 option \<Rightarrow> api_key_role \<Rightarrow> string \<Rightarrow> u128 \<Rightarrow> 'd \<Rightarrow>
   biz_tag_http http_res \<times> 'd" where
  "owned_tag tr env h ws role loc uuid d =
     (case verify_user_role tr loc role of
        Inl e \<Rightarrow> (Inl e, d)
      | Inr _ \<Rightarrow>
          (case get_biz_tag_handler env h uuid d of
             (Inl e, d') \<Rightarrow> (Inl (core_error_to_response tr loc e), d')
           | (Inr t, d') \<Rightarrow>
               (case ke_parse_uuid env (th_workspace_id t) of
                  None \<Rightarrow> (Inl (invalid_uuid_response tr loc), d')
                | Some tw \<Rightarrow>
                    (case verify_workspace_id_match tr loc tw ws of
                       Inl e \<Rightarrow> (Inl e, d')
                     | Inr _ \<Rightarrow> (Inr t, d')))))"

definition route_get_biz_tag ::
  "translate \<Rightarrow> key_env \<Rightarrow> 'd api_handlers \<Rightarrow> u128 option \<Rightarrow> api_key_role \<Rightarrow> string \<Rightarrow> string \<Rightarrow> 'd \<Rightarrow>
   biz_tag_http http_res \<times> 'd" where
  "route_get_biz_tag tr env h ws role loc path d =
     (case ke_parse_uuid env path of
        None \<Rightarrow> (Inl (invalid_uuid_response tr loc), d)
      | Some uuid \<Rightarrow> owned_tag tr env h ws role loc uuid d)"

definition route_update_biz_tag ::
  "translate \<Rightarrow> key_env \<Rightarrow> int \<Rightarrow> 'd api_handlers \<Rightarrow> u128 option \<Rightarrow> api_key_role \<Rightarrow> string \<Rightarrow> string \<Rightarrow>
   update_biz_tag_http \<Rightarrow> 'd \<Rightarrow> biz_tag_http http_res \<times> 'd" where
  "route_update_biz_tag tr env now h ws role loc path req d =
     (case ke_parse_uuid env path of
        None \<Rightarrow> (Inl (invalid_uuid_response tr loc), d)
      | Some uuid \<Rightarrow>
          (case validate_request tr loc (update_biz_tag_rules req) of
             Inl e \<Rightarrow> (Inl e, d)
           | Inr _ \<Rightarrow>
               (case owned_tag tr env h ws role loc uuid d of
                  (Inl e, d1) \<Rightarrow> (Inl e, d1)
                | (Inr _, d1) \<Rightarrow>
                    (case update_biz_tag_handler env now h uuid req d1 of
                       (x, d2) \<Rightarrow> (http_result tr loc x, d2)))))"

definition route_delete_biz_tag ::
  "translate \<Rightarrow> key_env \<Rightarrow> 'd api_handlers \<Rightarrow> u128 option \<Rightarrow> api_key_role \<Rightarrow> string \<Rightarrow> string \<Rightarrow> 'd \<Rightarrow>
   nat http_res \<times> 'd" where
  "route_delete_biz_tag tr env h ws role loc path d =
     (case ke_parse_uuid env path of
        None \<Rightarrow> (Inl (invalid_uuid_response tr loc), d)
      | Some uuid \<Rightarrow>
          (case owned_tag tr env h ws role loc uuid d of
             (Inl e, d1) \<Rightarrow> (Inl e, d1)
           | (Inr _, d1) \<Rightarrow>
               (case delete_biz_tag_handler env h uuid d1 of
                  (x, d2) \<Rightarrow> (http_result tr loc (map_sum id (\<lambda>_. 204) x), d2))))"

definition route_list_biz_tags ::
  "translate \<Rightarrow> key_env \<Rightarrow> 'd api_handlers \<Rightarrow> string \<Rightarrow> pagination_params \<Rightarrow> 'd \<Rightarrow>
   biz_tag_list_http http_res \<times> 'd" where
  "route_list_biz_tags tr env h loc params d =
     (case validate_request tr loc (page_size_rules (pg_page_size params)) of
        Inl e \<Rightarrow> (Inl e, d)
      | Inr _ \<Rightarrow>
          (case page_of params of (page, page_size, offset) \<Rightarrow>
            (case list_biz_tags_with_pagination env h None None page_size offset d of
               (x, d') \<Rightarrow>
                 (http_result tr loc (map_sum id (\<lambda>r. r\<lparr>tl_page := page, tl_page_size := page_size\<rparr>) x),
                  d'))))"

section \<open>Workspaces and groups\<close>

definition route_create_workspace ::
  "translate \<Rightarrow> key_env \<Rightarrow> (string \<Rightarrow> string) \<Rightarrow> u128 \<Rightarrow> int \<Rightarrow> key_draws \<Rightarrow> 'd api_handlers \<Rightarrow> string \<Rightarrow>
   create_workspace_http \<Rightarrow> 'd \<Rightarrow> workspace_http http_res \<times> 'd" where
  "route_create_workspace tr env uerr uuid now dr h loc req d =
     (case validate_request tr loc (create_workspace_rules req) of
        Inl e \<Rightarrow> (Inl e, d)
      | Inr _ \<Rightarrow>
          (case create_workspace_handler env uerr uuid now dr h req d of
             (x, d') \<Rightarrow> (http_result tr loc x, d')))"

definition route_list_workspaces ::
  "translate \<Rightarrow> key_env \<Rightarrow> 'd api_handlers \<Rightarrow> string \<Rightarrow> 'd \<Rightarrow> (workspace_http list \<times> nat) http_res \<times> 'd"
where
  "route_list_workspaces tr env h loc d =
     (case list_workspaces_handler env h d of (x, d') \<Rightarrow> (http_result tr loc x, d'))"

definition route_get_workspace ::
  "translate \<Rightarrow> key_env \<Rightarrow> 'd api_handlers \<Rightarrow> string \<Rightarrow> string \<Rightarrow> 'd \<Rightarrow> workspace_http http_res \<times> 'd" where
  "route_get_workspace tr env h loc name d =
     (case get_workspace_handler env h name d of
        (Inr (Some w), d') \<Rightarrow> (Inr w, d')
      | (Inr None, d') \<Rightarrow> (Inl (workspace_not_found_response tr loc), d')
      | (Inl e, d') \<Rightarrow> (Inl (core_error_to_response tr loc e), d'))"

definition route_create_group ::
  "translate \<Rightarrow> key_env \<Rightarrow> u128 \<Rightarrow> int \<Rightarrow> 'd api_handlers \<Rightarrow> u128 option \<Rightarrow> api_key_role \<Rightarrow> string \<Rightarrow>
   create_group_http \<Rightarrow> 'd \<Rightarrow> group_http http_res \<times> 'd" where
  "route_create_group tr env uuid now h ws role loc req d =
     (case validate_request tr loc (create_group_rules req) of
        Inl e \<Rightarrow> (Inl e, d)
      | Inr _ \<Rightarrow>
          (case verify_user_role tr loc role of
             Inl e \<Rightarrow> (Inl e, d)
           | Inr _ \<Rightarrow>
               (case verify_user_workspace tr loc env h (hg_workspace req) ws d of
                  (Inl e, d1) \<Rightarrow> (Inl e, d1)
                | (Inr _, d1) \<Rightarrow>
                    (case create_group_handler env uuid now h req d1 of
                       (x, d2) \<Rightarrow> (http_result tr loc x, d2)))))"

definition route_list_groups ::
  "translate \<Rightarrow> key_env \<Rightarrow> 'd api_handlers \<Rightarrow> string \<Rightarrow> group_list_params \<Rightarrow> 'd \<Rightarrow>
   (group_http list \<times> nat) http_res \<times> 'd" where
  "route_list_groups tr env h loc params d =
     (case validate_request tr loc (page_size_rules (gl_page_size params)) of
        Inl e \<Rightarrow> (Inl e, d)
      | Inr _ \<Rightarrow>
          (case list_groups_handler env h (gl_workspace params) d of
             (x, d') \<Rightarrow> (http_result tr loc x, d')))"

definition route_regenerate_user_key ::
  "translate \<Rightarrow> key_env \<Rightarrow> (string \<Rightarrow> string) \<Rightarrow> int \<Rightarrow> key_draws \<Rightarrow> 'd api_handlers \<Rightarrow> string \<Rightarrow>
   string \<Rightarrow> 'd \<Rightarrow> (key_http \<times> string) http_res \<times> 'd" where
  "route_regenerate_user_key tr env uerr now dr h loc name d =
     (case regenerate_user_api_key env uerr now dr h name d of (x, d') \<Rightarrow> (http_result tr loc x, d'))"

section \<open>API keys\<close>

definition key_workspace_of ::
  "translate \<Rightarrow> string \<Rightarrow> key_env \<Rightarrow> string option \<Rightarrow> string option \<Rightarrow> u128 option http_res" where
  "key_workspace_of tr loc env role raw =
     (if role = Some ''admin'' then Inr None
      else case raw of
        None \<Rightarrow> Inl (workspace_id_required_response tr loc)
      | Some s \<Rightarrow>
          (case ke_parse_uuid env s of
             None \<Rightarrow> Inl (invalid_uuid_response tr loc)
           | Some u \<Rightarrow> Inr (Some u)))"

definition route_create_api_key ::
  "translate \<Rightarrow> key_env \<Rightarrow> int \<Rightarrow> key_draws \<Rightarrow> 'd api_handlers \<Rightarrow> string \<Rightarrow> string option \<Rightarrow> key_request \<Rightarrow>
   'd \<Rightarrow> (key_http \<times> string) http_res \<times> 'd" where
  "route_create_api_key tr env now dr h loc raw_workspace req d =
     (case validate_request tr loc (create_key_rules req) of
        Inl e \<Rightarrow> (Inl e, d)
      | Inr _ \<Rightarrow>
          (case key_workspace_of tr loc env (hk_role req) raw_workspace of
             Inl e \<Rightarrow> (Inl e, d)
           | Inr ws \<Rightarrow>
               (case create_key_handler env now dr (ah_keys h) ws req d of
                  (x, d') \<Rightarrow> (http_result tr loc x, d'))))"

definition route_list_api_keys ::
  "translate \<Rightarrow> key_env \<Rightarrow> 'd api_handlers \<Rightarrow> string \<Rightarrow> pagination_params \<Rightarrow> 'd \<Rightarrow>
   (key_http list \<times> nat) http_res \<times> 'd" where
  "route_list_api_keys tr env h loc params d =
     (case validate_request tr loc (page_size_rules (pg_page_size params)) of
        Inl e \<Rightarrow> (Inl e, d)
      | Inr _ \<Rightarrow>
          (case page_of params of (page, page_size, offset) \<Rightarrow>
            (let ws = (case pg_workspace_id params of
                    Some s \<Rightarrow> (case ke_parse_uuid env s of Some u \<Rightarrow> u | None \<Rightarrow> 0)
                  | None \<Rightarrow> 0)
             in case list_keys_handler env (ah_keys h) ws (Some (as_u32 page_size))
                       (Some (as_u32 offset)) d of
                  (x, d') \<Rightarrow> (http_result tr loc x, d'))))"

definition route_revoke_api_key ::
  "translate \<Rightarrow> key_env \<Rightarrow> 'd api_handlers \<Rightarrow> string \<Rightarrow> string \<Rightarrow> 'd \<Rightarrow> string http_res \<times> 'd" where
  "route_revoke_api_key tr env h loc path d =
     (case ke_parse_uuid env path of
        None \<Rightarrow> (Inl (invalid_uuid_response tr loc), d)
      | Some uuid \<Rightarrow>
          (case revoke_key_handler env (ah_keys h) uuid d of (x, d') \<Rightarrow> (http_result tr loc x, d')))"

section \<open>The tag routes as one service\<close>

datatype tag_request =
    CreateTagReq u128 int create_biz_tag_http
  | GetTagReq string
  | UpdateTagReq int string update_biz_tag_http
  | DeleteTagReq string
  | ListTagsReq pagination_params

text \<open>The answer to a deletion has no body.\<close>

datatype tag_answer = TagShown biz_tag_http | TagDeleted | TagsListed biz_tag_list_http

fun serve_tag ::
  "translate \<Rightarrow> key_env \<Rightarrow> 'd api_handlers \<Rightarrow> tag_request \<Rightarrow> u128 option \<Rightarrow> api_key_role \<Rightarrow> string \<Rightarrow> 'd \<Rightarrow>
   tag_answer http_res \<times> 'd" where
  "serve_tag tr env h (CreateTagReq uuid now req) ws role loc d =
     (case route_create_biz_tag tr env uuid now h ws role loc req d of (x, d') \<Rightarrow> (map_sum id TagShown x, d'))"
| "serve_tag tr env h (GetTagReq path) ws role loc d =
     (case route_get_biz_tag tr env h ws role loc path d of (x, d') \<Rightarrow> (map_sum id TagShown x, d'))"
| "serve_tag tr env h (UpdateTagReq now path req) ws role loc d =
     (case route_update_biz_tag tr env now h ws role loc path req d of (x, d') \<Rightarrow> (map_sum id TagShown x, d'))"
| "serve_tag tr env h (DeleteTagReq path) ws role loc d =
     (case route_delete_biz_tag tr env h ws role loc path d of (x, d') \<Rightarrow> (map_sum id (\<lambda>_. TagDeleted) x, d'))"
| "serve_tag tr env h (ListTagsReq params) ws role loc d =
     (case route_list_biz_tags tr env h loc params d of (x, d') \<Rightarrow> (map_sum id TagsListed x, d'))"

text \<open>The extractors of a route: the framework answers 500 for an extension that is missing.\<close>

definition with_extensions ::
  "(u128 option \<Rightarrow> api_key_role \<Rightarrow> string \<Rightarrow> 'd \<Rightarrow> 'a http_res \<times> 'd) \<Rightarrow> ('a, 'd gate) service" where
  "with_extensions f req g =
     (case (rq_workspace req, rq_role req, rq_locale req) of
        (Some ws, Some role, Some loc) \<Rightarrow>
          (case f ws role loc (g_db g) of
             (Inl e, d) \<Rightarrow> (Failure e, g\<lparr>g_db := d\<rparr>)
           | (Inr x, d) \<Rightarrow> (Success x, g\<lparr>g_db := d\<rparr>))
      | _ \<Rightarrow> (Denied 500 ''Missing request extension'', g))"

definition tag_service ::
  "translate \<Rightarrow> key_env \<Rightarrow> 'd api_key_auth \<Rightarrow> 'd api_handlers \<Rightarrow> request_times \<Rightarrow> tag_request \<Rightarrow>
   (tag_answer, 'd gate) service" where
  "tag_service tr env au h ti r = authenticated_route tr au ti (with_extensions (serve_tag tr env h r))"

section \<open>Isolation of workspaces\<close>

text \<open>The text of a UUID reads back, as the \<open>uuid\<close> crate documents.\<close>

definition uuid_reads :: "key_env \<Rightarrow> bool" where
  "uuid_reads env \<longleftrightarrow> (\<forall>u. ke_parse_uuid env (ke_disp env u) = Some u)"

lemma verify_user_role_Inr: "verify_user_role tr loc role = Inr u \<longleftrightarrow> role = User"
  by (cases role) (simp_all add: verify_user_role_def)

lemma verify_workspace_Inr: "verify_workspace_id_match tr loc tw ws = Inr u \<longleftrightarrow> ws = None \<or> ws = Some tw"
  by (auto simp: verify_workspace_id_match_def)

lemma isl_http_error: "isl (http_result tr loc (Inl e))"
  by (simp add: http_result_def)

lemma owned_tag_Inr:
  assumes "owned_tag tr env h ws role loc i d = (Inr t, d')"
  shows "role = User" "get_biz_tag_handler env h i d = (Inr t, d')"
    "\<exists>tw. ke_parse_uuid env (th_workspace_id t) = Some tw \<and> (ws = None \<or> ws = Some tw)"
  using assms by (auto simp: owned_tag_def chain_simps verify_user_role_Inr verify_workspace_Inr)

lemma get_biz_tag_handler_Inr:
  "get_biz_tag_handler env h i d = (Inr t, d') \<Longrightarrow> os_tags (ah_service h) = Some db \<Longrightarrow>
     \<exists>b. get_biz_tag db i d = (Inr (Some b), d') \<and> t = biz_tag_http_of env b"
  by (auto simp: get_biz_tag_handler_def svc_get_biz_tag_def with_tags_def chain_simps)

lemma owned_tag_state:
  "owned_tag tr env h ws role loc i d = (x, d') \<Longrightarrow> os_tags (ah_service h) = Some db \<Longrightarrow>
     d' = d \<or> d' = snd (get_biz_tag db i d)"
  by (auto simp: owned_tag_def get_biz_tag_handler_def svc_get_biz_tag_def with_tags_def chain_simps)

lemma route_update_cases:
  assumes "route_update_biz_tag tr env now h ws role loc path req d = (x, d')"
    and "os_tags (ah_service h) = Some db"
  obtains "isl x" "d' = d"
  | i y d1 where "owned_tag tr env h ws role loc i d = (y, d1)" "isl x" "d' = d1"
  | i t d1 req' z where "owned_tag tr env h ws role loc i d = (Inr t, d1)"
      "update_biz_tag (ke_disp env) now db i req' d1 = (z, d')"
      "x = http_result tr loc (map_sum id (biz_tag_http_of env) z)"
  using assms
  by (auto simp: route_update_biz_tag_def update_biz_tag_handler_def svc_update_biz_tag_def with_tags_def
      isl_http_error chain_simps intro: that)

context org_store
begin

lemma owned_tag_effect:
  assumes "owned_tag tr env h (Some w) role loc i d = (x, d1)" "os_tags (ah_service h) = Some db"
    and "uuid_reads env" "distinct (map btr_id (trows d))"
  shows "wrows d1 = wrows d" "grows d1 = grows d" "trows d1 = trows d"
    and "x = Inr t \<Longrightarrow> role = User \<and> th_workspace_id t = ke_disp env w \<and>
      (\<forall>r \<in> set (trows d). btr_id r = i \<longrightarrow> btr_workspace r = w)"
proof -
  obtain y d2 where g: "get_biz_tag db i d = (y, d2)" by (cases "get_biz_tag db i d")
  from owned_tag_state [OF assms(1,2)] g get_biz_tag_same [OF g]
  show "wrows d1 = wrows d" "grows d1 = grows d" "trows d1 = trows d" by auto
  assume "x = Inr t"
  note own = owned_tag_Inr [OF assms(1) [unfolded this]]
  obtain b where b: "get_biz_tag db i d = (Inr (Some b), d1)" "t = biz_tag_http_of env b"
    using get_biz_tag_handler_Inr [OF own(2) assms(2)] by blast
  have w: "bt_workspace b = w"
    using own(3) assms(3) b(2) by (auto simp: uuid_reads_def biz_tag_http_of_def)
  obtain r where r: "r \<in> set (trows d)" "btr_id r = i" "b = biz_tag_of r"
    using get_biz_tag_effect(1) [OF b(1)] by blast
  have "btr_workspace s = w" if "s \<in> set (trows d)" "btr_id s = i" for s
  proof -
    have "s = r" using that r assms(4) by (metis distinct_map inj_on_eq_iff)
    then show ?thesis using r(3) w by (simp add: biz_tag_of_def)
  qed
  then show "role = User \<and> th_workspace_id t = ke_disp env w \<and>
      (\<forall>r \<in> set (trows d). btr_id r = i \<longrightarrow> btr_workspace r = w)"
    using b(2) w own(1) by (simp add: biz_tag_http_of_def)
qed

text \<open>What a key of workspace \<open>w\<close> leaves as it is, and what it is shown.\<close>

definition isolated :: "key_env \<Rightarrow> u128 \<Rightarrow> tag_answer http_res \<Rightarrow> 'd \<Rightarrow> 'd \<Rightarrow> bool" where
  "isolated env w x d d' \<longleftrightarrow>
     wrows d' = wrows d \<and> grows d' = grows d \<and> tags_outside w (trows d') = tags_outside w (trows d) \<and>
     (\<forall>t. x = Inr (TagShown t) \<longrightarrow> th_workspace_id t = ke_disp env w)"

lemma isolated_error: "d' = d \<and> isl x \<Longrightarrow> isolated env w (map_sum id f x) d d'"
  by (cases x) (auto simp: isolated_def)

lemma create_route_isolated:
  assumes "route_create_biz_tag tr env uuid now h (Some w) role loc req d = (x, d')"
    and "os_tags (ah_service h) = Some db"
  shows "isolated env w (map_sum id TagShown x) d d'"
proof (cases "d' = d \<and> isl x")
  case True
  then show ?thesis by (rule isolated_error)
next
  case False
  then obtain y req' where c: "create_biz_tag (ke_disp env) uuid now db req' d = (y, d')"
    "cb_workspace req' = w" "x = http_result tr loc (map_sum id (biz_tag_http_of env) y)"
    using assms
    by (auto simp: route_create_biz_tag_def create_biz_tag_handler_def svc_create_biz_tag_def with_tags_def
        verify_workspace_Inr http_result_def chain_simps)
  show ?thesis
    using create_biz_tag_outside [OF c(1)] c(2,3)
    by (cases y) (auto simp: isolated_def http_result_def biz_tag_http_of_def)
qed

lemma update_route_isolated:
  assumes "route_update_biz_tag tr env now h (Some w) role loc path req d = (x, d')"
    and "os_tags (ah_service h) = Some db" "uuid_reads env" "distinct (map btr_id (trows d))"
  shows "isolated env w (map_sum id TagShown x) d d'"
  using assms(1,2)
proof (cases rule: route_update_cases)
  case 1
  then show ?thesis by (intro isolated_error) simp
next
  case (2 i y d1)
  then show ?thesis using owned_tag_effect(1-3) [OF 2(1) assms(2-4)] by (cases x) (auto simp: isolated_def)
next
  case (3 i t d1 req' z)
  note own = owned_tag_effect [OF 3(1) assms(2-4)]
  have "\<And>r. r \<in> set (trows d1) \<Longrightarrow> btr_id r = i \<Longrightarrow> btr_workspace r = w" using own(3,4) by auto
  from update_biz_tag_outside [OF 3(2) this] show ?thesis
    using own(1,2,3) 3(3) by (cases z) (auto simp: isolated_def http_result_def biz_tag_http_of_def)
qed

lemma delete_route_isolated:
  assumes "route_delete_biz_tag tr env h (Some w) role loc path d = (x, d')"
    and "os_tags (ah_service h) = Some db" "uuid_reads env" "distinct (map btr_id (trows d))"
  shows "isolated env w (map_sum id (\<lambda>_. TagDeleted) x) d d'"
proof (cases "d' = d \<and> isl x")
  case True
  then show ?thesis by (rule isolated_error)
next
  case False
  then obtain i y d1 where o: "owned_tag tr env h (Some w) role loc i d = (y, d1)"
    and r: "(isl x \<and> d' = d1) \<or> (\<not> isl y \<and> (\<exists>z. delete_biz_tag (ke_disp env) db i d1 = (z, d')))"
    using assms(1,2)
    by (auto simp: route_delete_biz_tag_def delete_biz_tag_handler_def svc_delete_biz_tag_def with_tags_def
        chain_simps)
  note own = owned_tag_effect [OF o assms(2-4)]
  from r show ?thesis
  proof (elim disjE conjE exE)
    assume "isl x" "d' = d1"
    then show ?thesis using own(1-3) by (cases x) (auto simp: isolated_def)
  next
    fix z
    assume u: "delete_biz_tag (ke_disp env) db i d1 = (z, d')" "\<not> isl y"
    then have "\<And>r. r \<in> set (trows d1) \<Longrightarrow> btr_id r = i \<Longrightarrow> btr_workspace r = w"
      using own(3,4) by (cases y) auto
    from delete_biz_tag_outside [OF u(1) this] show ?thesis
      using own(1,2,3) by (cases x) (auto simp: isolated_def)
  qed
qed

lemma serve_tag_isolated:
  assumes "serve_tag tr env h r (Some w) role loc d = (x, d')" "os_tags (ah_service h) = Some db"
    and "uuid_reads env" "distinct (map btr_id (trows d))" "\<And>params. r \<noteq> ListTagsReq params"
  shows "isolated env w x d d'"
proof (cases r)
  case (CreateTagReq uuid now req)
  then show ?thesis
    using assms(1) create_route_isolated [OF _ assms(2)] by (auto simp: last_then)
next
  case (GetTagReq path)
  show ?thesis
  proof (cases "d' = d \<and> isl x")
    case False
    with assms(1) GetTagReq obtain i y where "owned_tag tr env h (Some w) role loc i d = (y, d')"
      "x = map_sum id TagShown y"
      by (auto simp: route_get_biz_tag_def chain_simps)
    from owned_tag_effect [OF this(1) assms(2-4)] this(2) show ?thesis
      by (cases y) (auto simp: isolated_def)
  qed (auto simp: isolated_def)
next
  case (UpdateTagReq now path req)
  then show ?thesis
    using assms(1) update_route_isolated [OF _ assms(2-4)] by (auto simp: last_then)
next
  case (DeleteTagReq path)
  then show ?thesis
    using assms(1) delete_route_isolated [OF _ assms(2-4)] by (auto simp: last_then)
qed (use assms(5) in blast)

end

lemma serve_tag_no_list:
  "serve_tag tr env h r ws role loc d = (x, d') \<Longrightarrow> (\<And>params. r \<noteq> ListTagsReq params) \<Longrightarrow>
     x \<noteq> Inr (TagsListed l)"
  by (cases r; cases x) (auto simp: map_sum_Inr split: prod.splits)

lemma serve_tag_users_only:
  "serve_tag tr env h r ws role loc d = (x, d') \<Longrightarrow> role \<noteq> User \<Longrightarrow> (\<And>params. r \<noteq> ListTagsReq params) \<Longrightarrow>
     isl x \<and> d' = d"
  by (cases r)
    (auto simp: route_create_biz_tag_def route_get_biz_tag_def route_update_biz_tag_def
      route_delete_biz_tag_def owned_tag_def chain_simps verify_user_role_Inr)

context org_store
begin

lemma verify_user_workspace_effect:
  assumes "verify_user_workspace tr loc env h name (Some w) d = (Inr u, d')"
    and "os_workspaces (ah_service h) = Some db" "uuid_reads env"
  shows "\<exists>r \<in> set (wrows d). ws_name r = name \<and> ws_id r = w"
proof -
  obtain y d1 where f: "t_find (od_ws db) (\<lambda>w. ws_name w = name) d = (y, d1)"
    by (cases "t_find (od_ws db) (\<lambda>w. ws_name w = name) d")
  have "\<exists>r. y = Inr (Some r) \<and> ws_id r = w"
    using assms f
    by (cases y)
      (auto simp: verify_user_workspace_def get_workspace_handler_def svc_get_workspace_def
        get_workspace_by_name_def chain_simps verify_workspace_Inr uuid_reads_def db_error_def
        workspace_http_of_def workspace_of_def split: option.splits)
  then show ?thesis using workspaces.find_law [OF f] by auto
qed

lemma list_tags_empty:
  assumes "list_and_count env svc ws grp mx off d = (Inr (ts, n), d')" "os_tags svc = Some db"
    and "\<forall>r \<in> set (trows d). btr_workspace r \<noteq> ws"
  shows "ts = [] \<and> n = 0"
proof -
  obtain bs d1 where l: "list_biz_tags db ws grp mx off d = (Inr bs, d1)" "ts = map (biz_tag_http_of env) bs"
    and c: "count_biz_tags db ws grp d1 = (Inr n, d')"
    using assms(1,2)
    by (auto simp: list_and_count_def svc_list_biz_tags_def svc_count_biz_tags_def with_tags_def chain_simps
        map_sum_Inr)
  obtain rs where a: "t_all (od_tags db) (tag_filter ws grp) mx off d = (Inr rs, d1)" "bs = map biz_tag_of rs"
    using l(1) by (auto simp: list_biz_tags_def db_error_def map_sum_def split: prod.splits sum.splits)
  have empty: "filter (tag_filter ws grp) (trows d) = []"
    using assms(3) by (auto simp: tag_filter_def filter_empty_conv)
  have same: "trows d1 = trows d" and "mset rs \<subseteq># mset (filter (tag_filter ws grp) (trows d))"
    using tags.all_law [OF a(1)] by simp_all
  then have "ts = []" unfolding empty l(2) a(2) by simp
  moreover obtain k where k: "t_count (od_tags db) (tag_filter ws grp) d1 = (Inr k, d')" "k = n"
    using c by (auto simp: count_biz_tags_def db_error_def map_sum_def split: prod.splits sum.splits)
  have "n = length (filter (tag_filter ws grp) (trows d1))" using tags.count_law [OF k(1)] k(2) by simp
  ultimately show ?thesis by (simp add: same empty)
qed

text \<open>The listing reads the tags of the nil workspace, and changes nothing.\<close>

lemma list_route_idle:
  assumes "route_list_biz_tags tr env h loc params d = (x, d')" "os_tags (ah_service h) = Some db"
  shows "wrows d' = wrows d \<and> grows d' = grows d \<and> trows d' = trows d"
proof -
  have step: "(\<exists>f lim off y. t_all (od_tags db) f lim off a = (y, b)) \<or>
      (\<exists>f y. t_count (od_tags db) f a = (y, b)) \<Longrightarrow>
      wrows b = wrows a \<and> grows b = grows a \<and> trows b = trows a" for a b
    using tag_frame.all_frame tag_frame.count_frame tags.all_law tags.count_law by (metis prod.inject)
  have all: "list_biz_tags db ws grp lim off a = (y, b) \<Longrightarrow>
      \<exists>f lim off y. t_all (od_tags db) f lim off a = (y, b)" for ws grp lim off a y b
    by (auto simp: list_biz_tags_def split: prod.splits)
  have count: "count_biz_tags db ws grp a = (y, b) \<Longrightarrow> \<exists>f y. t_count (od_tags db) f a = (y, b)" for ws grp a y b
    by (auto simp: count_biz_tags_def split: prod.splits)
  have lc: "list_and_count env (ah_service h) ws grp lim off a = (y, b) \<Longrightarrow>
      wrows b = wrows a \<and> grows b = grows a \<and> trows b = trows a" for ws grp lim off a y b
    using assms(2)
    by (auto simp: list_and_count_def svc_list_biz_tags_def svc_count_biz_tags_def with_tags_def
        split: prod.splits sum.splits dest!: all count step [OF disjI1] step [OF disjI2])
  show ?thesis
    using assms(1)
    by (auto simp: route_list_biz_tags_def list_biz_tags_with_pagination_def
        split: prod.splits sum.splits if_splits dest: lc)
qed

lemma list_route_empty:
  assumes "route_list_biz_tags tr env h loc params d = (Inr r, d')" "os_tags (ah_service h) = Some db"
    and "\<forall>r \<in> set (trows d). btr_workspace r \<noteq> 0"
  shows "tl_biz_tags r = [] \<and> tl_total r = 0"
proof -
  obtain page page_size offset y where y: "list_biz_tags_with_pagination env h None None page_size offset d = (y, d')"
      "Inr r = http_result tr loc (map_sum id (\<lambda>r. r\<lparr>tl_page := page, tl_page_size := page_size\<rparr>) y)"
    using assms(1) by (cases "page_of params") (auto simp: route_list_biz_tags_def chain_simps)
  then obtain z where z: "y = Inr z" "tl_biz_tags r = tl_biz_tags z" "tl_total r = tl_total z"
    by (cases y) (auto simp: http_result_def)
  obtain ts n mx off where l: "list_and_count env (ah_service h) 0 None mx off d = (Inr (ts, n), d')"
    "tl_biz_tags z = ts" "tl_total z = n"
    using y(1) z(1)
    by (auto simp: list_biz_tags_with_pagination_def unwrap_or_def chain_simps map_sum_Inr split: if_splits)
  from list_tags_empty [OF l(1) assms(2,3)] show ?thesis using z l by simp
qed

end

section \<open>The whole site\<close>

text \<open>
  The tables of the organisation and of the keys in one database. A statement on the keys other than a
  deletion leaves the organisation as it is, and one on the workspaces other than a deletion the keys.
\<close>

lemma image_filter: "{y \<in> f ` A. P y} = f ` {x \<in> A. P (f x)}"
  by blast

locale site =
  org_store db wrows grows trows +
  keys: key_store kdb krows +
  key_frame: sql_frame kdb "\<lambda>d. (wrows d, grows d, trows d)" +
  ws_key_frame: sql_frame "od_ws db" krows
  for db :: "'d org_db" and wrows grows trows and kdb :: "(api_key_row, 'd) table_ops" and krows
begin

lemma last_used_frame:
  assumes "update_last_used now kdb i d = (x, d')"
  shows "wrows d' = wrows d \<and> grows d' = grows d \<and> trows d' = trows d"
proof -
  obtain y d1 where f: "t_find kdb (\<lambda>m. k_id m = i) d = (y, d1)" by (cases "t_find kdb (\<lambda>m. k_id m = i) d")
  consider "d' = d1" | p f z where "t_update kdb p f d1 = (z, d')"
    using assms f by (auto simp: update_last_used_def split: sum.splits option.splits prod.splits)
  then show ?thesis
    using key_frame.find_frame [OF f] by cases (auto dest: key_frame.update_frame)
qed

lemma validate_frame:
  assumes "validate_api_key a pepper now kdb key_id secret d = (x, d')"
  shows "wrows d' = wrows d \<and> grows d' = grows d \<and> trows d' = trows d"
proof -
  obtain y d1 where f: "t_find kdb (\<lambda>m. k_key_id m = key_id) d = (y, d1)"
    by (cases "t_find kdb (\<lambda>m. k_key_id m = key_id) d")
  consider "d' = d1" | i where "d' = snd (update_last_used now kdb i d1)"
    using assms f by (auto simp: validate_api_key_def split: sum.splits option.splits if_splits)
  then show ?thesis
  proof cases
    case (2 i)
    obtain v where "update_last_used now kdb i d1 = (v, d')" using 2 by (metis prod.collapse)
    from last_used_frame [OF this] show ?thesis using key_frame.find_frame [OF f] by simp
  qed (use key_frame.find_frame [OF f] in simp)
qed

lemma delete_user_keys_effect:
  assumes "delete_user_keys env kdb ks d = (Inr u, d')"
  shows "krows d' = filter (\<lambda>m. k_id m \<notin> ak_id ` {k \<in> set ks. ak_role k = User}) (krows d)"
  using assms
proof (induction ks arbitrary: d)
  case (Cons k ks)
  show ?case
  proof (cases "ak_role k = User")
    case True
    obtain u1 d1 where dl: "delete_api_key (ke_disp env) kdb (ak_id k) d = (Inr u1, d1)"
      and rest: "delete_user_keys env kdb ks d1 = (Inr u, d')"
      using Cons.prems True by (auto simp: chain_simps)
    have "krows d1 = filter (\<lambda>m. k_id m \<noteq> ak_id k) (krows d)" using keys.delete_rows(2) [OF dl] by simp
    with Cons.IH [OF rest] show ?thesis using True by (auto intro!: filter_cong)
  next
    case False
    then show ?thesis using Cons by (auto intro!: filter_cong)
  qed
qed simp

lemma regenerate_effect:
  assumes "regenerate_user_api_key env uerr now dr h name d = (Inr (k, secret), d')"
    and "ah_keys h = Some kdb" "os_workspaces (ah_service h) = Some db" "uuid_reads env"
    and "length (krows d) \<le> 1000" "keys_ok (krows d)"
  shows "\<exists>w \<in> set (wrows d). \<exists>m. ws_name w = name \<and> k_workspace m = Some (ws_id w) \<and> k_role m = ''user'' \<and>
    k_enabled m \<and> k_key_id m = kh_key_id k \<and>
    krows d' = filter (\<lambda>m. \<not> (k_workspace m = Some (ws_id w) \<and> role_of_text (k_role m) = User)) (krows d) @ [m]"
proof -
  obtain y d1 where f: "t_find (od_ws db) (\<lambda>w. ws_name w = name) d = (y, d1)"
    by (cases "t_find (od_ws db) (\<lambda>w. ws_name w = name) d")
  have same: "krows d1 = krows d" using ws_key_frame.find_frame [OF f] .
  have g: "svc_get_workspace env (ah_service h) name d =
      (map_sum DatabaseError (map_option (\<lambda>r. workspace_http_of env (workspace_of r))) y, d1)"
    using f assms(3)
    by (cases y) (auto simp: svc_get_workspace_def get_workspace_by_name_def db_error_def option.map_comp comp_def)
  then obtain r ks d2 u d3 key where r: "y = Inr (Some r)"
    and l: "list_api_keys kdb (ws_id r) (Some 1000) (Some 0) d1 = (Inr ks, d2)"
    and dl: "delete_user_keys env kdb ks d2 = (Inr u, d3)"
    and c: "create_user_key env now dr kdb (ws_id r) (ws_name r) d3 = (Inr key, d')"
    and k: "regenerated_response env key = Inr (k, secret)"
    using assms(1,2,4)
    by (cases y) (auto simp: regenerate_user_api_key_def chain_simps parse_own_uuid_def uuid_reads_def
        workspace_http_of_def workspace_of_def split: option.splits)
  have ks: "set ks = api_key_of ` {m \<in> set (krows d). k_workspace m = Some (ws_id r)}" "krows d2 = krows d"
    using keys.list_effect(1,3) [OF l] assms(5) same by auto
  have "ak_id ` {k \<in> set ks. ak_role k = User} =
      k_id ` {m \<in> set (krows d). k_workspace m = Some (ws_id r) \<and> role_of_text (k_role m) = User}"
    unfolding ks(1) image_filter image_image by (simp add: api_key_of_def conj_ac)
  then have d3: "krows d3 = filter (\<lambda>m. k_id m \<notin>
      k_id ` {m \<in> set (krows d). k_workspace m = Some (ws_id r) \<and> role_of_text (k_role m) = User}) (krows d)"
    using delete_user_keys_effect [OF dl] ks(2) by simp
  have d3: "krows d3 = filter (\<lambda>m. \<not> (k_workspace m = Some (ws_id r) \<and> role_of_text (k_role m) = User)) (krows d)"
    unfolding d3 by (rule filter_cong) (use key_row_unique [OF assms(6)] in \<open>auto simp: image_iff\<close>)
  obtain x where x: "create_api_key (ke_argon2 env) (ke_disp env) (ke_pepper env) now dr kdb
      (user_key_request (ws_id r) (ws_name r)) d3 = (Inr x, d')" "key = x"
    using c by (auto simp: create_user_key_def map_db_error_def chain_simps map_sum_Inr)
  obtain m hsh where m: "krows d' = krows d3 @ [m]" "k_enabled m"
    "k_workspace m = cr_workspace (user_key_request (ws_id r) (ws_name r))"
    "k_role m = role_text (cr_role (user_key_request (ws_id r) (ws_name r)))"
    "ws_key x = response_of m (k_expires_at m)"
    by (rule keys.create_row [OF x(1)])
  have "k_key_id m = kh_key_id k"
    using k m(5) x(2) by (auto simp: regenerated_response_def key_http_of_def response_of_def split: if_splits)
  moreover have "r \<in> set (wrows d)" "ws_name r = name" using workspaces.find_law [OF f] r by simp_all
  ultimately show ?thesis using m d3 by (auto simp: user_key_request_def)
qed

text \<open>What a request for a tag does to the tables: nothing, or what a user key of one workspace may do.\<close>

lemma tag_service_effect:
  assumes "tag_service tr env au h ti r req g = (rep, g')" "au_repo au = kdb"
    and "os_tags (ah_service h) = Some db" "uuid_reads env"
    and "keys_ok (krows (g_db g))" "distinct (map btr_id (trows (g_db g)))"
    and "\<forall>r \<in> set (trows (g_db g)). btr_workspace r \<noteq> 0"
  shows "((\<forall>x. rep = Success x \<longrightarrow> (\<exists>l. x = TagsListed l \<and> tl_biz_tags l = [])) \<and>
      wrows (g_db g') = wrows (g_db g) \<and> grows (g_db g') = grows (g_db g) \<and>
      trows (g_db g') = trows (g_db g)) \<or>
    (\<exists>v key_id secret ws. header_text req ''authorization'' = Some v \<and>
       parse_authorization (au_base64 au) v = Some (key_id, secret) \<and>
       grants (au_argon2 au) (au_pepper au) (ti_now ti) key_id secret (krows (g_db g)) = Some (ws, User) \<and>
       (\<forall>w. ws = Some w \<longrightarrow> (\<exists>x. isolated env w x (g_db g) (g_db g') \<and>
          (\<forall>t. rep = Success t \<longrightarrow> x = Inr t \<and> (\<forall>l. t \<noteq> TagsListed l)))))"
    (is "?idle \<or> ?user")
  using assms(1) [unfolded tag_service_def authenticated_route_def]
proof (cases rule: auth_middleware_cases)
  case disabled
  then show ?thesis by (auto simp: anonymous_block_middleware_def with_identity_def Let_def)
next
  case limited
  then show ?thesis by (simp add: too_many_requests_response_def)
next
  case (unauthorized g1)
  have "wrows (g_db g1) = wrows (g_db g) \<and> grows (g_db g1) = grows (g_db g) \<and> trows (g_db g1) = trows (g_db g)"
    using unauthorized(5) [unfolded assms(2)] validate_frame by (elim disjE exE) auto
  then show ?thesis using unauthorized(2) by (simp add: unauthorized_response_def)
next
  case (passed v key_id secret ws role g2)
  let ?req = "with_identity ws role req"
  note valid = passed(9) [unfolded assms(2)]
  have same: "wrows (g_db g2) = wrows (g_db g)" "grows (g_db g2) = grows (g_db g)"
      "trows (g_db g2) = trows (g_db g)"
    using validate_frame [OF valid] by simp_all
  have granted: "grants (au_argon2 au) (au_pepper au) (ti_now ti) key_id secret (krows (g_db g)) = Some (ws, role)"
    using keys.validate_grants(1) [OF assms(5) valid] by simp
  consider "\<forall>x. rep \<noteq> Success x" "g' = g2"
    | loc x d where "serve_tag tr env h r ws role loc (g_db g2) = (x, d)" "g' = g2\<lparr>g_db := d\<rparr>"
        "\<forall>t. rep = Success t \<longrightarrow> x = Inr t"
    using passed(2)
    by (auto simp: anonymous_block_middleware_def with_extensions_def with_identity_def Let_def
        split: option.splits api_key_role.splits prod.splits sum.splits)
  then show ?thesis
  proof cases
    case 1
    then show ?thesis using same by simp
  next
    case (2 loc x d)
    consider params where "r = ListTagsReq params" | (one) "\<And>params. r \<noteq> ListTagsReq params" by blast
    then show ?thesis
    proof cases
      case (1 params)
      then obtain y where y: "route_list_biz_tags tr env h loc params (g_db g2) = (y, d)" "x = map_sum id TagsListed y"
        using 2(1) by (auto split: prod.splits)
      note idle = list_route_idle [OF y(1) assms(3)]
      have "\<exists>l. t = TagsListed l \<and> tl_biz_tags l = []" if "rep = Success t" for t
      proof -
        have "x = Inr t" using 2(3) that by blast
        then obtain l where l: "y = Inr l" "t = TagsListed l" using y(2) by (cases y) auto
        from list_route_empty [OF y(1) [unfolded l(1)] assms(3)] assms(7) same l(2) show ?thesis by simp
      qed
      then show ?thesis using idle same 2(2) by simp
    next
      case one
      show ?thesis
    proof (cases "role = User")
      case True
      have "isolated env w x (g_db g) (g_db g')" if "ws = Some w" for w
        using serve_tag_isolated [OF 2(1) [unfolded that] assms(3,4)] assms(6) same 2(2) one
        by (simp add: isolated_def)
      moreover have "\<forall>l. t \<noteq> TagsListed l" if "rep = Success t" for t
      proof -
        have "x = Inr t" using 2(3) that by blast
        then show ?thesis using serve_tag_no_list [OF 2(1) one] by blast
      qed
      ultimately show ?thesis using granted True 2(3) passed(5,6) by blast
    next
      case False
      from serve_tag_users_only [OF 2(1) this one] have "isl x" "d = g_db g2" by simp_all
      then have "\<forall>t. rep \<noteq> Success t" "g_db g' = g_db g2" using 2(2,3) by auto
      then show ?thesis using same by simp
    qed
    qed
  qed
qed

end

section \<open>A concrete site\<close>

record site_tables =
  st_org :: org_tables
  st_keys :: "api_key_row list_table"

definition on_org :: "('r, org_tables) table_ops \<Rightarrow> ('r, site_tables) table_ops" where
  "on_org = on_table st_org (\<lambda>t d. d\<lparr>st_org := t\<rparr>) (\<lambda>_ d'. d')"

definition site_db :: "site_tables org_db" where
  "site_db = \<lparr>od_ws = on_org (od_ws org_tables_db), od_groups = on_org (od_groups org_tables_db),
     od_tags = on_org (od_tags org_tables_db)\<rparr>"

definition site_keys :: "(api_key_row, site_tables) table_ops" where
  "site_keys = on_table st_keys (\<lambda>t d. d\<lparr>st_keys := t\<rparr>) (\<lambda>_ d'. d') (lt_ops key_clash)"

definition site_ws_rows :: "site_tables \<Rightarrow> workspace_row list" where "site_ws_rows d = ws_rows (st_org d)"
definition site_group_rows :: "site_tables \<Rightarrow> group_row list" where "site_group_rows d = group_rows (st_org d)"
definition site_tag_rows :: "site_tables \<Rightarrow> biz_tag_row list" where "site_tag_rows d = tag_rows (st_org d)"
definition site_key_rows :: "site_tables \<Rightarrow> api_key_row list" where "site_key_rows d = lt_rows (st_keys d)"

lemma site_rows_eta:
  "site_ws_rows = (\<lambda>d. ws_rows (st_org d))" "site_group_rows = (\<lambda>d. group_rows (st_org d))"
  "site_tag_rows = (\<lambda>d. tag_rows (st_org d))" "site_key_rows = (\<lambda>d. lt_rows (st_keys d))"
  by (simp_all add: fun_eq_iff site_ws_rows_def site_group_rows_def site_tag_rows_def site_key_rows_def)

lemma on_org_table: "sql_table ops rows clash \<Longrightarrow> sql_table (on_org ops) (\<lambda>d. rows (st_org d)) clash"
  unfolding on_org_def by (rule sql_table_on) simp_all

lemma on_org_frame:
  assumes "sql_frame ops other"
  shows "sql_frame (on_org ops) (\<lambda>d. other (st_org d))"
  by unfold_locales
    (auto simp: on_org_def on_table_def split: prod.splits
      dest: sql_frame.find_frame [OF assms] sql_frame.all_frame [OF assms] sql_frame.count_frame [OF assms]
        sql_frame.insert_frame [OF assms] sql_frame.update_frame [OF assms])

lemma on_org_delete:
  "t_delete (on_org ops) p d = (x, d') \<Longrightarrow> t_delete ops p (st_org d) = (x, st_org d')"
  by (auto simp: on_org_def on_table_def split: prod.splits)

interpretation site_list: site site_db site_ws_rows site_group_rows site_tag_rows site_keys site_key_rows
proof (intro site.intro org_store.intro org_store_axioms.intro key_store.intro)
  show "sql_table (od_ws site_db) site_ws_rows ws_clash"
    unfolding site_db_def org_db.simps site_rows_eta by (rule on_org_table [OF org_list.workspaces.sql_table_axioms])
  show "sql_table (od_groups site_db) site_group_rows group_clash"
    unfolding site_db_def org_db.simps site_rows_eta by (rule on_org_table [OF org_list.groups.sql_table_axioms])
  show "sql_table (od_tags site_db) site_tag_rows tag_clash"
    unfolding site_db_def org_db.simps site_rows_eta by (rule on_org_table [OF org_list.tags.sql_table_axioms])
  show "sql_frame (od_ws site_db) (\<lambda>d. (site_group_rows d, site_tag_rows d))"
    unfolding site_db_def org_db.simps site_rows_eta
    by (rule on_org_frame [OF org_list.ws_frame.sql_frame_axioms])
  show "sql_frame (od_groups site_db) (\<lambda>d. (site_ws_rows d, site_tag_rows d))"
    unfolding site_db_def org_db.simps site_rows_eta
    by (rule on_org_frame [OF org_list.group_frame.sql_frame_axioms])
  show "sql_frame (od_tags site_db) (\<lambda>d. (site_ws_rows d, site_group_rows d))"
    unfolding site_db_def org_db.simps site_rows_eta
    by (rule on_org_frame [OF org_list.tag_frame.sql_frame_axioms])
  show "sql_table site_keys site_key_rows key_clash"
    unfolding site_keys_def site_rows_eta by (rule sql_table_on [OF list_table.sql_table_axioms]) simp_all
  show "sql_frame site_keys (\<lambda>d. (site_ws_rows d, site_group_rows d, site_tag_rows d))"
    unfolding site_keys_def site_rows_eta by (rule sql_frame_on) simp
  show "sql_frame (od_ws site_db) site_key_rows"
    unfolding site_db_def org_db.simps site_rows_eta on_org_def by (rule sql_frame_on) simp
next
  fix p d x d'
  assume "t_delete (od_ws site_db) p d = (x, d')"
  then have "t_delete (od_ws org_tables_db) p (st_org d) = (x, st_org d')"
    unfolding site_db_def org_db.simps by (rule on_org_delete)
  from org_list.ws_cascade [OF this]
  show "site_group_rows d' = filter (\<lambda>g. grp_workspace g \<notin> gone ws_id (site_ws_rows d) (site_ws_rows d')) (site_group_rows d) \<and>
      site_tag_rows d' = filter (\<lambda>t. btr_workspace t \<notin> gone ws_id (site_ws_rows d) (site_ws_rows d') \<and>
        btr_group t \<notin> gone grp_id (site_group_rows d) (site_group_rows d')) (site_tag_rows d)"
    unfolding site_rows_eta .
next
  fix q d x d'
  assume "t_delete (od_groups site_db) q d = (x, d')"
  then have "t_delete (od_groups org_tables_db) q (st_org d) = (x, st_org d')"
    unfolding site_db_def org_db.simps by (rule on_org_delete)
  from org_list.group_cascade [OF this]
  show "site_ws_rows d' = site_ws_rows d \<and>
      site_tag_rows d' = filter (\<lambda>t. btr_group t \<notin> gone grp_id (site_group_rows d) (site_group_rows d')) (site_tag_rows d)"
    unfolding site_rows_eta .
next
  fix r d x d'
  assume "t_delete (od_tags site_db) r d = (x, d')"
  then have "t_delete (od_tags org_tables_db) r (st_org d) = (x, st_org d')"
    unfolding site_db_def org_db.simps by (rule on_org_delete)
  from org_list.tag_delete_frame [OF this]
  show "site_ws_rows d' = site_ws_rows d \<and> site_group_rows d' = site_group_rows d"
    unfolding site_rows_eta .
qed

section \<open>Properties\<close>

text \<open>\<open>check_admin_key\<close> of the schema: exactly the admin keys have no workspace.\<close>

definition keys_scoped :: "api_key_row list \<Rightarrow> bool" where
  "keys_scoped rs \<longleftrightarrow> (\<forall>m \<in> set rs. k_workspace m = None \<longleftrightarrow> k_role m = ''admin'')"

lemma granted_user_scoped:
  assumes "grants a pepper now key_id secret rs = Some (ws, User)" "keys_scoped rs"
  shows "\<exists>w. ws = Some w"
proof -
  obtain m where m: "m \<in> set rs" "row_grants a pepper now secret m = Some (ws, User)"
    using grants_some [OF assms(1)] by blast
  then have "k_workspace m = ws" "role_of_text (k_role m) = User"
    by (auto simp: row_grants_def split: if_splits)
  then have "role_of_text (k_role m) \<noteq> Admin" by simp
  then have "k_role m \<noteq> ''admin''" by (simp add: role_of_text_eq_Admin)
  then show ?thesis using m(1) assms(2) \<open>k_workspace m = ws\<close> unfolding keys_scoped_def by (metis not_None_eq)
qed

text \<open>
  C1. Isolation of tenants, from the request to the tables, for the five tag routes: no request changes a
  workspace or a group. A request that changes a tag or is shown one carries the credentials of a user key
  that the table grants one workspace; no tag of any other workspace is created, changed or deleted, and
  the tag it is shown belongs to that workspace. The listing, which every valid key may ask for, changes
  nothing and shows no tag at all, as long as no tag belongs to the nil workspace.
\<close>

theorem tenant_isolation:
  assumes "site db wrows grows trows kdb krows" "au_repo au = kdb"
    and "os_tags (ah_service h) = Some db" "uuid_reads env"
    and "keys_ok (krows (g_db g))" "keys_scoped (krows (g_db g))" "distinct (map btr_id (trows (g_db g)))"
    and "\<forall>r \<in> set (trows (g_db g)). btr_workspace r \<noteq> 0"
    and "tag_service tr env au h ti r req g = (rep, g')"
  shows "wrows (g_db g') = wrows (g_db g) \<and> grows (g_db g') = grows (g_db g) \<and>
    ((\<forall>x. rep = Success x \<longrightarrow> (\<exists>l. x = TagsListed l \<and> tl_biz_tags l = [])) \<and>
       trows (g_db g') = trows (g_db g) \<or>
     (\<exists>v key_id secret w. header_text req ''authorization'' = Some v \<and>
        parse_authorization (au_base64 au) v = Some (key_id, secret) \<and>
        grants (au_argon2 au) (au_pepper au) (ti_now ti) key_id secret (krows (g_db g)) = Some (Some w, User) \<and>
        tags_outside w (trows (g_db g')) = tags_outside w (trows (g_db g)) \<and>
        (\<forall>t. rep = Success (TagShown t) \<longrightarrow> th_workspace_id t = ke_disp env w) \<and>
        (\<forall>l. rep \<noteq> Success (TagsListed l))))"
proof -
  have org: "org_store db wrows grows trows" using assms(1) by (simp add: site_def)
  from site.tag_service_effect [OF assms(1,9,2,3,4,5,7,8)] show ?thesis
  proof (elim disjE exE conjE)
    fix v key_id secret ws
    assume g: "header_text req ''authorization'' = Some v"
      "parse_authorization (au_base64 au) v = Some (key_id, secret)"
      "grants (au_argon2 au) (au_pepper au) (ti_now ti) key_id secret (krows (g_db g)) = Some (ws, User)"
      and i: "\<forall>w. ws = Some w \<longrightarrow> (\<exists>x. org_store.isolated wrows grows trows env w x (g_db g) (g_db g') \<and>
        (\<forall>t. rep = Success t \<longrightarrow> x = Inr t \<and> (\<forall>l. t \<noteq> TagsListed l)))"
    obtain w where w: "ws = Some w" using granted_user_scoped [OF g(3) assms(6)] by blast
    then obtain x where x: "org_store.isolated wrows grows trows env w x (g_db g) (g_db g')"
      "\<forall>t. rep = Success t \<longrightarrow> x = Inr t \<and> (\<forall>l. t \<noteq> TagsListed l)" using i by blast
    note iso = x(1) [unfolded org_store.isolated_def [OF org]]
    have "\<forall>t. rep = Success (TagShown t) \<longrightarrow> th_workspace_id t = ke_disp env w" using iso x(2) by simp
    with iso x(2) g [unfolded w] show ?thesis
      by (intro conjI disjI2 exI [of _ v] exI [of _ key_id] exI [of _ secret] exI [of _ w]) auto
  qed simp
qed

definition site_env :: key_env where
  "site_env = demo_env\<lparr>ke_disp := uuid_hyphenated, ke_parse_uuid := uuid_unhyphenate\<rparr>"

definition site_tables0 :: site_tables where
  "site_tables0 = \<lparr>st_org = demo_org_state, st_keys = snd (demo_create 7 User (Some 1) (key_table []))\<rparr>"

definition site_auth :: "site_tables api_key_auth" where
  "site_auth = \<lparr>au_repo = site_keys, au_argon2 = plain_argon2, au_pepper = ''pepper'',
     au_base64 = (\<lambda>s. None), au_enabled = True, au_trusted = []\<rparr>"

definition site_handlers :: "site_tables api_handlers" where
  "site_handlers = \<lparr>ah_service = \<lparr>os_tags = Some site_db, os_workspaces = Some site_db,
     os_groups = Some site_db\<rparr>, ah_keys = Some site_keys\<rparr>"

definition site_gate :: "site_tables gate" where
  "site_gate = \<lparr>g_failures = [], g_db = site_tables0\<rparr>"

definition site_request :: http_request where
  "site_request = (demo_http None (demo_header ''nino_7''))\<lparr>rq_locale := Some ''en''\<rparr>"

lemma site_env_reads: "uuid_reads site_env"
  by (simp add: uuid_reads_def site_env_def uuid_unhyphenate_hyphenated)

lemma site_tables_wf:
  "keys_ok (site_key_rows site_tables0)" "keys_scoped (site_key_rows site_tables0)"
  "distinct (map btr_id (site_tag_rows site_tables0))" "map k_workspace (site_key_rows site_tables0) = [Some 1]"
  "\<forall>r \<in> set (site_tag_rows site_tables0). btr_workspace r \<noteq> 0"
proof -
  have "map (\<lambda>m. (k_workspace m, k_role m)) (site_key_rows site_tables0) = [(Some 1, ''user'')]"
    and one: "map k_workspace (site_key_rows site_tables0) = [Some 1]"
    and "map btr_id (site_tag_rows site_tables0) = [7]"
    and tags: "map btr_workspace (site_tag_rows site_tables0) = [1]"
    by code_simp+
  then show "keys_scoped (site_key_rows site_tables0)" "distinct (map btr_id (site_tag_rows site_tables0))"
    by (auto simp: keys_scoped_def)
  from one have "length (site_key_rows site_tables0) = 1" by (metis length_map length_Cons list.size(3) One_nat_def)
  then show "keys_ok (site_key_rows site_tables0)" by (auto simp: keys_ok_def length_Suc_conv)
  show "map k_workspace (site_key_rows site_tables0) = [Some 1]" by (rule one)
  show "\<forall>r \<in> set (site_tag_rows site_tables0). btr_workspace r \<noteq> 0" using tags by auto
qed

theorem tenant_isolation_witness:
  "case fst (tag_service (\<lambda>loc key args. key) site_env site_auth site_handlers (demo_times 1)
       (GetTagReq (uuid_hyphenated 7)) site_request site_gate) of
     Success (TagShown t) \<Rightarrow> th_workspace_id t = uuid_hyphenated 1 | _ \<Rightarrow> False"
proof -
  let ?r = "tag_service (\<lambda>loc key args. key) site_env site_auth site_handlers (demo_times 1)
       (GetTagReq (uuid_hyphenated 7)) site_request site_gate"
  have "case fst ?r of Success (TagShown _) \<Rightarrow> True | _ \<Rightarrow> False" by code_simp
  then obtain t where t: "fst ?r = Success (TagShown t)" by (auto split: reply.splits tag_answer.splits)
  have db: "g_db site_gate = site_tables0" by (simp add: site_gate_def)
  note iso = tenant_isolation [where au = site_auth and h = site_handlers and env = site_env and g = site_gate,
      OF site_list.site_axioms _ _ site_env_reads, unfolded db, OF _ _ site_tables_wf(1,2,3,5)]
  obtain v key_id secret w where
    g: "grants (au_argon2 site_auth) (au_pepper site_auth) (ti_now (demo_times 1)) key_id secret
      (site_key_rows site_tables0) = Some (Some w, User)" and w: "th_workspace_id t = ke_disp site_env w"
    using iso [OF _ _ prod.collapse [symmetric], of "\<lambda>loc key args. key" "demo_times 1"
        "GetTagReq (uuid_hyphenated 7)" site_request] t
    by (auto simp: site_auth_def site_handlers_def)
  obtain m where "m \<in> set (site_key_rows site_tables0)" "k_workspace m = Some w"
    using grants_some [OF g] by (auto simp: row_grants_def split: if_splits)
  then have "Some w \<in> set (map k_workspace (site_key_rows site_tables0))" by force
  then have "w = 1" by (simp add: site_tables_wf(4))
  then show ?thesis using t w by (simp add: site_env_def)
qed

text \<open>
  C30. A generator is asked only on behalf of the workspace of the key: unless the key is a user key of the very
  workspace the request names, the request is refused and neither the generator nor a counter changes.
\<close>

theorem generate_for_own_workspace:
  assumes "org_store db wrows grows trows" "os_workspaces (ah_service h) = Some db" "uuid_reads env"
    and "route_generate tr env h svc latency stamp (Some w) role loc req m s d = Some (x, m', s', d')"
  shows "(isl x \<and> m' = m \<and> s' = s) \<or>
    (role = User \<and> (\<exists>r \<in> set (wrows d). ws_name r = gr_workspace req \<and> ws_id r = w) \<and>
     (\<exists>y. handle_generate (ke_disp env) svc latency stamp req m s = Some (y, m', s') \<and> x = http_result tr loc y))"
proof -
  obtain u d1 where v: "verify_user_workspace tr loc env h (gr_workspace req) (Some w) d = (u, d1)"
    by (cases "verify_user_workspace tr loc env h (gr_workspace req) (Some w) d")
  show ?thesis
  proof (cases "verify_user_role tr loc role = Inr () \<and> validate_request tr loc (generate_rules req) = Inr () \<and>
      u = Inr ()")
    case True
    then have "role = User" by (simp add: verify_user_role_Inr)
    with org_store.verify_user_workspace_effect [OF assms(1) _ assms(2,3)] v True assms(4) show ?thesis
      by (auto simp: route_generate_def split: option.splits prod.splits)
  next
    case False
    then have "isl x \<and> m' = m \<and> s' = s"
      using assms(4) v
      by (cases "verify_user_role tr loc role"; cases "validate_request tr loc (generate_rules req)"; cases u)
        (auto simp: route_generate_def)
    then show ?thesis ..
  qed
qed

lemma batch_for_own_workspace:
  assumes "org_store db wrows grows trows" "os_workspaces (ah_service h) = Some db" "uuid_reads env"
    and "route_batch_generate tr env h svc mx latency stamp (Some w) role loc req m s d = Some (x, m', s', d')"
  shows "(isl x \<and> m' = m \<and> s' = s) \<or>
    (role = User \<and> (\<exists>r \<in> set (wrows d). ws_name r = br_workspace req \<and> ws_id r = w) \<and>
     (\<exists>y. handle_batch_generate (ke_t env) (ke_disp env) svc mx latency stamp req m s = Some (y, m', s') \<and>
        x = http_result tr loc y))"
proof -
  obtain u d1 where v: "verify_user_workspace tr loc env h (br_workspace req) (Some w) d = (u, d1)"
    by (cases "verify_user_workspace tr loc env h (br_workspace req) (Some w) d")
  show ?thesis
  proof (cases "verify_user_role tr loc role = Inr () \<and> validate_request tr loc (batch_rules req) = Inr () \<and>
      u = Inr ()")
    case True
    then have "role = User" by (simp add: verify_user_role_Inr)
    with org_store.verify_user_workspace_effect [OF assms(1) _ assms(2,3)] v True assms(4) show ?thesis
      by (auto simp: route_batch_generate_def split: option.splits prod.splits)
  next
    case False
    then have "isl x \<and> m' = m \<and> s' = s"
      using assms(4) v
      by (cases "verify_user_role tr loc role"; cases "validate_request tr loc (batch_rules req)"; cases u)
        (auto simp: route_batch_generate_def)
    then show ?thesis ..
  qed
qed

definition demo_service0 :: "unit id_service" where
  "demo_service0 =
     \<lparr>svc_generate = (\<lambda>ws grp tag s. Some (Inr (Id 7), s)),
      svc_generate_with = (\<lambda>a ws grp tag s. Some (Inr (Id 7), s)),
      svc_batch = (\<lambda>ws grp tag n s. Some (Inr (replicate n (Id 7)), s)),
      svc_batch_with = (\<lambda>a ws grp tag n s. Some (Inr (replicate n (Id 7)), s)),
      svc_algorithm_name = (\<lambda>tag s. Inr ''segment'')\<rparr>"

definition demo_generate_request :: generate_request where
  "demo_generate_request =
     \<lparr>gr_workspace = ''a'', gr_group = ''g'', gr_biz_tag = ''order'', gr_algorithm = None\<rparr>"

lemma generate_for_own_workspace_witness:
  "(case route_generate (\<lambda>loc key args. key) site_env site_handlers demo_service0 0 [] (Some 1) User ''en''
      demo_generate_request api_metrics_default () site_tables0 of
      Some (x, _) \<Rightarrow> \<not> isl x \<and> (\<exists>r \<in> set (site_ws_rows site_tables0). ws_name r = ''a'' \<and> ws_id r = 1)
    | None \<Rightarrow> False)"
proof -
  let ?r = "route_generate (\<lambda>loc key args. key) site_env site_handlers demo_service0 0 [] (Some 1) User ''en''
      demo_generate_request api_metrics_default () site_tables0"
  have "case ?r of Some (x, _) \<Rightarrow> \<not> isl x | None \<Rightarrow> False" by code_simp
  then obtain x m' s' d' where r: "?r = Some (x, m', s', d')" "\<not> isl x" by (auto split: option.splits)
  from generate_for_own_workspace [OF site_list.org_store_axioms _ site_env_reads r(1)] r
  show ?thesis by (auto simp: site_handlers_def demo_generate_request_def)
qed

text \<open>
  The listing of tags never shows one: the route asks for the tags of the nil workspace, whatever the query
  names, and no workspace has the nil identifier.
\<close>

theorem tag_listing_empty:
  assumes "org_store db wrows grows trows" "os_tags (ah_service h) = Some db"
    and "refs_ok (wrows d) (grows d) (trows d)" "0 \<notin> ws_id ` set (wrows d)"
    and "route_list_biz_tags tr env h loc params d = (Inr r, d')"
  shows "tl_biz_tags r = [] \<and> tl_total r = 0"
proof -
  have "\<forall>r \<in> set (trows d). btr_workspace r \<noteq> 0" using assms(3,4) unfolding refs_ok_def by force
  from org_store.list_route_empty [OF assms(1,5,2) this] show ?thesis .
qed

lemma tag_listing_empty_witness:
  "map btr_workspace (site_tag_rows site_tables0) = [1] \<and>
   (case fst (route_list_biz_tags (\<lambda>loc key args. key) site_env site_handlers ''en''
        \<lparr>pg_workspace_id = Some (uuid_hyphenated 1), pg_page = 1, pg_page_size = 20\<rparr> site_tables0) of
      Inr r \<Rightarrow> tl_biz_tags r = [] \<and> tl_total r = 0 | Inl _ \<Rightarrow> False)"
proof -
  let ?r = "route_list_biz_tags (\<lambda>loc key args. key) site_env site_handlers ''en''
        \<lparr>pg_workspace_id = Some (uuid_hyphenated 1), pg_page = 1, pg_page_size = 20\<rparr> site_tables0"
  have "\<not> isl (fst ?r)" by code_simp
  then obtain r d' where r: "?r = (Inr r, d')" using not_isl_fst by blast
  have rows: "map btr_workspace (site_tag_rows site_tables0) = [1]"
    "refs_ok (site_ws_rows site_tables0) (site_group_rows site_tables0) (site_tag_rows site_tables0)"
    "0 \<notin> ws_id ` set (site_ws_rows site_tables0)"
    by code_simp+
  from tag_listing_empty [OF site_list.org_store_axioms _ rows(2,3) r] show ?thesis
    using rows(1) r by (simp add: site_handlers_def)
qed

text \<open>
  Regenerating the user key of a workspace removes every user key of that workspace and adds exactly one,
  which it answers; all other keys stay as they are.
\<close>

theorem regenerate_replaces_user_keys:
  assumes "site db wrows grows trows kdb krows" "ah_keys h = Some kdb" "os_workspaces (ah_service h) = Some db"
    and "uuid_reads env" "length (krows d) \<le> 1000" "keys_ok (krows d)"
    and "regenerate_user_api_key env uerr now dr h name d = (Inr (k, secret), d')"
  shows "\<exists>w \<in> set (wrows d). \<exists>m. ws_name w = name \<and> k_workspace m = Some (ws_id w) \<and> k_role m = ''user'' \<and>
    k_enabled m \<and> k_key_id m = kh_key_id k \<and>
    krows d' = filter (\<lambda>m. \<not> (k_workspace m = Some (ws_id w) \<and> role_of_text (k_role m) = User)) (krows d) @ [m]"
  by (rule site.regenerate_effect [OF assms(1,7,2-6)])

lemma regenerate_replaces_user_keys_witness:
  "\<exists>m. site_key_rows (snd (regenerate_user_api_key site_env id 5 (demo_draws 9) site_handlers ''a'' site_tables0)) = [m] \<and>
     k_workspace m = Some 1 \<and> k_enabled m"
proof -
  let ?r = "regenerate_user_api_key site_env id 5 (demo_draws 9) site_handlers ''a'' site_tables0"
  have ok: "\<not> isl (fst ?r)"
    and ws: "map (\<lambda>w. (ws_name w, ws_id w)) (site_ws_rows site_tables0) = [(''a'', 1), (''b'', 2)]"
    and ks: "map (\<lambda>m. (k_workspace m, role_of_text (k_role m))) (site_key_rows site_tables0) = [(Some 1, User)]"
    by code_simp+
  from not_isl_fst [OF ok] obtain v d' where "?r = (Inr v, d')" by blast
  then obtain k secret where r: "?r = (Inr (k, secret), d')" by (cases v) simp
  have "length (site_key_rows site_tables0) = 1" using arg_cong [OF ks, of length] by simp
  then have len: "length (site_key_rows site_tables0) \<le> 1000" by simp
  obtain w m where w: "w \<in> set (site_ws_rows site_tables0)" "ws_name w = ''a''" and m: "k_workspace m = Some (ws_id w)"
      "k_enabled m" "site_key_rows d' = filter (\<lambda>m. \<not> (k_workspace m = Some (ws_id w) \<and>
        role_of_text (k_role m) = User)) (site_key_rows site_tables0) @ [m]"
    using regenerate_replaces_user_keys [OF site_list.site_axioms _ _ site_env_reads len site_tables_wf(1) r]
    by (auto simp: site_handlers_def)
  have "(ws_name w, ws_id w) \<in> set [(''a'', 1 :: u128), (''b'', 2)]" unfolding ws [symmetric] using w(1) by simp
  then have id: "ws_id w = 1" using w(2) by auto
  have "k_workspace x = Some 1 \<and> role_of_text (k_role x) = User" if "x \<in> set (site_key_rows site_tables0)" for x
  proof -
    have "(k_workspace x, role_of_text (k_role x)) \<in> set [(Some (1 :: u128), User)]"
      unfolding ks [symmetric] using that by simp
    then show ?thesis by simp
  qed
  then have "site_key_rows d' = [m]" using m(3) id by (simp add: filter_empty_conv)
  then show ?thesis using m(1,2) id r by simp
qed

end
