(* ===== verification/Config_Service.thy ===== *)
theory Config_Service
  imports App_Config Routes
begin

text \<open>
  The configuration at run time: \<open>HotReloadConfig\<close> (\<open>src/src/server/config/hot_reload.rs\<close>), the part of
  \<open>ConfigManager\<close> in \<open>management.rs\<close> beside it that reads and changes it, the routes \<open>/config\<close> of
  \<open>src/src/server/router.rs\<close>, and the handlers of \<open>/health\<close>, \<open>/ready\<close> and \<open>/metrics\<close> in
  \<open>src/src/server/handlers/system_handlers.rs\<close>.

  Parsing TOML belongs to the \<open>confers\<close> crate: \<open>parse\<close> is what it makes of a text, and the content of the
  file is an input, \<open>None\<close> if it cannot be read. A callback works on the rest of the process, a state \<open>'e\<close>.
  The audit log receives the changes \<open>detect_config_changes\<close> lists. Poisoned locks are outside the model.
\<close>

section \<open>Hot reload\<close>

record 'e hot_config =
  hc_config :: config
  hc_callbacks :: "(config \<Rightarrow> 'e \<Rightarrow> 'e) list"
  hc_algorithms :: "(string \<times> algorithm_type) list"

definition hot_config_new :: "config \<Rightarrow> 'e hot_config" where
  "hot_config_new c = \<lparr>hc_config = c, hc_callbacks = [], hc_algorithms = []\<rparr>"

definition add_reload_callback :: "(config \<Rightarrow> 'e \<Rightarrow> 'e) \<Rightarrow> 'e hot_config \<Rightarrow> 'e hot_config" where
  "add_reload_callback f hc = hc\<lparr>hc_callbacks := hc_callbacks hc @ [f]\<rparr>"

definition run_callbacks :: "config \<Rightarrow> (config \<Rightarrow> 'e \<Rightarrow> 'e) list \<Rightarrow> 'e \<Rightarrow> 'e" where
  "run_callbacks c fs e = fold (\<lambda>f. f c) fs e"

definition hot_update_config :: "config \<Rightarrow> 'e hot_config \<Rightarrow> 'e \<Rightarrow> 'e hot_config \<times> 'e" where
  "hot_update_config new hc e = (hc\<lparr>hc_config := new\<rparr>, run_callbacks new (hc_callbacks hc) e)"

definition hot_reload_config ::
  "(string \<Rightarrow> config config_result) \<Rightarrow> string option \<Rightarrow> 'e hot_config \<Rightarrow> 'e \<Rightarrow>
   bool res \<times> 'e hot_config \<times> 'e" where
  "hot_reload_config parse content hc e =
     (case content of
        None \<Rightarrow> (Inr False, hc, e)
      | Some text \<Rightarrow>
          (case parse text of
             Inl _ \<Rightarrow> (Inr False, hc, e)
           | Inr new \<Rightarrow>
               (case hot_update_config new hc e of (hc', e') \<Rightarrow> (Inr True, hc', e'))))"

text \<open>One turn of \<open>watch\<close>: \<open>modified\<close> is the time of the file, \<open>None\<close> if its metadata cannot be read.\<close>

definition watch_turn ::
  "(string \<Rightarrow> config config_result) \<Rightarrow> int option option \<Rightarrow> string option \<Rightarrow> int option \<Rightarrow>
   'e hot_config \<Rightarrow> 'e \<Rightarrow> int option \<times> 'e hot_config \<times> 'e" where
  "watch_turn parse modified content last_modified hc e =
     (case modified of
        None \<Rightarrow> (last_modified, hc, e)
      | Some current \<Rightarrow>
          if last_modified = None \<or> current \<noteq> last_modified
          then (current, snd (hot_reload_config parse content hc e))
          else (last_modified, hc, e))"

definition hot_set_algorithm :: "string \<Rightarrow> algorithm_type \<Rightarrow> 'e hot_config \<Rightarrow> 'e hot_config" where
  "hot_set_algorithm tag a hc = hc\<lparr>hc_algorithms := AList.update tag a (hc_algorithms hc)\<rparr>"

definition hot_get_algorithm :: "string \<Rightarrow> 'e hot_config \<Rightarrow> algorithm_type option" where
  "hot_get_algorithm tag hc = map_of (hc_algorithms hc) tag"

definition change_line :: "string \<Rightarrow> ('a \<Rightarrow> string) \<Rightarrow> 'a \<Rightarrow> 'a \<Rightarrow> string list" where
  "change_line name show_it old new =
     (if old \<noteq> new then [name @ '': '' @ show_it old @ '' -> '' @ show_it new] else [])"

definition detect_config_changes :: "config \<Rightarrow> config \<Rightarrow> string list" where
  "detect_config_changes old new =
     change_line ''app.name'' id (app_name (cfg_app old)) (app_name (cfg_app new)) @
     change_line ''app.http_port'' (\<lambda>n. print_dec (unat n)) (http_port (cfg_app old)) (http_port (cfg_app new)) @
     change_line ''rate_limit.default_rps'' (\<lambda>n. print_dec (unat n)) (default_rps (cfg_rate_limit old))
       (default_rps (cfg_rate_limit new)) @
     change_line ''rate_limit.burst_size'' (\<lambda>n. print_dec (unat n)) (burst_size (cfg_rate_limit old))
       (burst_size (cfg_rate_limit new)) @
     change_line ''logging.level'' log_level_name (log_level (cfg_logging old)) (log_level (cfg_logging new))"

section \<open>What the API shows of the configuration\<close>

record app_info =
  ai_name :: string
  ai_host :: string
  ai_http_port :: u16
  ai_grpc_port :: u16
  ai_dc_id :: u8
  ai_worker_id :: u8

record database_info =
  di_engine :: string
  di_host :: "string option"
  di_port :: "u16 option"
  di_database :: "string option"
  di_max_connections :: u32
  di_min_connections :: u32

record algorithm_info =
  gi_default :: string
  gi_base_step :: u64
  gi_min_step :: u64
  gi_max_step :: u64
  gi_switch_threshold :: rat
  gi_datacenter_id_bits :: u8
  gi_worker_id_bits :: u8
  gi_sequence_bits :: u8
  gi_clock_drift_threshold_ms :: u64
  gi_uuid_v7_enabled :: bool

record monitoring_info =
  mi_metrics_enabled :: bool
  mi_metrics_path :: string
  mi_tracing_enabled :: bool

record logging_info =
  li_level :: string
  li_format :: string
  li_include_location :: bool

record tls_info =
  ti_enabled :: bool
  ti_http_enabled :: bool
  ti_grpc_enabled :: bool
  ti_has_cert :: bool

record config_response =
  rc_app :: app_info
  rc_database :: database_info
  rc_algorithm :: algorithm_info
  rc_monitoring :: monitoring_info
  rc_logging :: logging_info
  rc_rate_limit :: rate_limit_config
  rc_tls :: tls_info

record secure_config_response =
  sc_app :: app_info
  sc_algorithm :: algorithm_info
  sc_monitoring :: monitoring_info
  sc_logging :: logging_info
  sc_rate_limit :: rate_limit_config

definition app_info_of :: "app_config \<Rightarrow> app_info" where
  "app_info_of a =
     \<lparr>ai_name = app_name a, ai_host = app_host a, ai_http_port = http_port a, ai_grpc_port = grpc_port a,
      ai_dc_id = dc_id a, ai_worker_id = worker_id a\<rparr>"

definition database_info_of :: "database_config \<Rightarrow> database_info" where
  "database_info_of d =
     \<lparr>di_engine = engine_name (db_engine d), di_host = Some (db_host d), di_port = Some (db_port d),
      di_database = Some (db_database d), di_max_connections = max_connections d,
      di_min_connections = min_connections d\<rparr>"

definition algorithm_info_of :: "algorithm_config \<Rightarrow> algorithm_info" where
  "algorithm_info_of a =
     \<lparr>gi_default = default_algorithm a, gi_base_step = base_step (segment_cfg a),
      gi_min_step = min_step (segment_cfg a), gi_max_step = max_step (segment_cfg a),
      gi_switch_threshold = switch_threshold (segment_cfg a),
      gi_datacenter_id_bits = datacenter_id_bits (snowflake_cfg a),
      gi_worker_id_bits = worker_id_bits (snowflake_cfg a), gi_sequence_bits = sequence_bits (snowflake_cfg a),
      gi_clock_drift_threshold_ms = clock_drift_threshold_ms (snowflake_cfg a),
      gi_uuid_v7_enabled = uuid_v7_enabled (uuid_v7_cfg a)\<rparr>"

definition monitoring_info_of :: "monitoring_config \<Rightarrow> monitoring_info" where
  "monitoring_info_of m =
     \<lparr>mi_metrics_enabled = metrics_enabled m, mi_metrics_path = metrics_path m,
      mi_tracing_enabled = tracing_enabled m\<rparr>"

definition logging_info_of :: "logging_config \<Rightarrow> logging_info" where
  "logging_info_of l =
     \<lparr>li_level = log_level_name (log_level l), li_format = log_format_name (log_format l),
      li_include_location = include_location l\<rparr>"

definition tls_info_of :: "tls_config \<Rightarrow> tls_info" where
  "tls_info_of t =
     \<lparr>ti_enabled = tls_enabled t, ti_http_enabled = tls_http_enabled t, ti_grpc_enabled = tls_grpc_enabled t,
      ti_has_cert = (tls_cert_path t \<noteq> [])\<rparr>"

definition config_to_response :: "config \<Rightarrow> config_response" where
  "config_to_response c =
     \<lparr>rc_app = app_info_of (cfg_app c), rc_database = database_info_of (cfg_database c),
      rc_algorithm = algorithm_info_of (cfg_algorithm c), rc_monitoring = monitoring_info_of (cfg_monitoring c),
      rc_logging = logging_info_of (cfg_logging c), rc_rate_limit = cfg_rate_limit c,
      rc_tls = tls_info_of (cfg_tls c)\<rparr>"

definition secure_config_to_response :: "config \<Rightarrow> secure_config_response" where
  "secure_config_to_response c =
     \<lparr>sc_app = app_info_of (cfg_app c), sc_algorithm = algorithm_info_of (cfg_algorithm c),
      sc_monitoring = monitoring_info_of (cfg_monitoring c), sc_logging = logging_info_of (cfg_logging c),
      sc_rate_limit = cfg_rate_limit c\<rparr>"

section \<open>The configuration manager\<close>

record 'e config_manager =
  cm_hot :: "'e hot_config"
  cm_rate_limiter :: "(u32 \<times> u32) option"
  cm_router :: router

definition config_manager_new :: "'e hot_config \<Rightarrow> router \<Rightarrow> 'e config_manager" where
  "config_manager_new hc r = \<lparr>cm_hot = hc, cm_rate_limiter = None, cm_router = r\<rparr>"

record update_rate_limit_request =
  ur_default_rps :: "u32 option"
  ur_burst_size :: "u32 option"

record update_config_response =
  uc_success :: bool
  uc_message :: string
  uc_config :: "config_response option"

record set_algorithm_request =
  sr_biz_tag :: string
  sr_algorithm :: string

record set_algorithm_response =
  sa_success :: bool
  sa_biz_tag :: string
  sa_algorithm :: string
  sa_message :: string

text \<open>\<open>vtext\<close> is the text of the \<open>validator\<close> crate for violated rules.\<close>

definition update_rate_limit_rules :: "update_rate_limit_request \<Rightarrow> violations" where
  "update_rate_limit_rules r =
     if_given (\<lambda>n. range_rule ''default_rps'' 1 1000000 (uint n)) (ur_default_rps r) @
     if_given (\<lambda>n. range_rule ''burst_size'' 1 1000 (uint n)) (ur_burst_size r)"

definition update_logging_rules :: "string option \<Rightarrow> violations" where
  "update_logging_rules level = if_given (length_rule ''level'' 1 20) level"

definition set_algorithm_rules :: "set_algorithm_request \<Rightarrow> violations" where
  "set_algorithm_rules r =
     length_rule ''biz_tag'' 1 64 (sr_biz_tag r) @ length_rule ''algorithm'' 1 20 (sr_algorithm r)"

definition rejected_update :: "(violations \<Rightarrow> string) \<Rightarrow> violations \<Rightarrow> update_config_response" where
  "rejected_update vtext vs =
     \<lparr>uc_success = False, uc_message = ''Validation error: '' @ vtext vs, uc_config = None\<rparr>"

definition svc_update_rate_limit ::
  "(violations \<Rightarrow> string) \<Rightarrow> update_rate_limit_request \<Rightarrow> 'e config_manager \<Rightarrow> 'e \<Rightarrow>
   update_config_response \<times> 'e config_manager \<times> 'e" where
  "svc_update_rate_limit vtext req cm e =
     (if update_rate_limit_rules req \<noteq> [] then (rejected_update vtext (update_rate_limit_rules req), cm, e)
      else
        let c = hc_config (cm_hot cm);
            rl = cfg_rate_limit c;
            rl1 = (case ur_default_rps req of Some n \<Rightarrow> rl\<lparr>default_rps := n\<rparr> | None \<Rightarrow> rl);
            rl2 = (case ur_burst_size req of Some n \<Rightarrow> rl1\<lparr>burst_size := n\<rparr> | None \<Rightarrow> rl1);
            c' = c\<lparr>cfg_rate_limit := rl2\<rparr>
        in case hot_update_config c' (cm_hot cm) e of (hc, e') \<Rightarrow>
          (\<lparr>uc_success = True, uc_message = ''Rate limit configuration updated successfully'',
            uc_config = Some (config_to_response c')\<rparr>,
           cm\<lparr>cm_hot := hc, cm_rate_limiter := Some (default_rps rl2, burst_size rl2)\<rparr>, e'))"

definition svc_update_logging ::
  "(violations \<Rightarrow> string) \<Rightarrow> string option \<Rightarrow> 'e config_manager \<Rightarrow> 'e \<Rightarrow>
   update_config_response \<times> 'e config_manager \<times> 'e" where
  "svc_update_logging vtext level cm e =
     (if update_logging_rules level \<noteq> [] then (rejected_update vtext (update_logging_rules level), cm, e)
      else
        let c = hc_config (cm_hot cm);
            c' = (case level of
                Some l \<Rightarrow> c\<lparr>cfg_logging := (cfg_logging c)\<lparr>log_level := log_level_from l\<rparr>\<rparr> | None \<Rightarrow> c)
        in case hot_update_config c' (cm_hot cm) e of (hc, e') \<Rightarrow>
          (\<lparr>uc_success = True, uc_message = ''Logging configuration updated successfully'',
            uc_config = Some (config_to_response c')\<rparr>, cm\<lparr>cm_hot := hc\<rparr>, e'))"

definition svc_reload_config ::
  "(core_error \<Rightarrow> string) \<Rightarrow> (string \<Rightarrow> config config_result) \<Rightarrow> string option \<Rightarrow> 'e config_manager \<Rightarrow> 'e \<Rightarrow>
   update_config_response \<times> 'e config_manager \<times> 'e" where
  "svc_reload_config etext parse content cm e =
     (case hot_reload_config parse content (cm_hot cm) e of
        (Inr _, hc, e') \<Rightarrow>
          (\<lparr>uc_success = True, uc_message = ''Configuration reloaded from file successfully'',
            uc_config = Some (config_to_response (hc_config hc))\<rparr>, cm\<lparr>cm_hot := hc\<rparr>, e')
      | (Inl err, hc, e') \<Rightarrow>
          (\<lparr>uc_success = False, uc_message = ''Failed to reload configuration: '' @ etext err,
            uc_config = None\<rparr>, cm\<lparr>cm_hot := hc\<rparr>, e'))"

definition get_rate_limit_override :: "'e config_manager \<Rightarrow> (u32 \<times> u32) option" where
  "get_rate_limit_override cm = cm_rate_limiter cm"

definition settable_algorithm :: "string \<Rightarrow> algorithm_type option" where
  "settable_algorithm s =
     (let l = to_lowercase s in
      if l = ''segment'' then Some Segment
      else if l = ''snowflake'' then Some Snowflake
      else if l = ''uuid_v7'' then Some UuidV7
      else None)"

definition quoted :: "string \<Rightarrow> string" where
  "quoted s = [CHR 0x27] @ s @ [CHR 0x27]"

definition svc_set_algorithm ::
  "(violations \<Rightarrow> string) \<Rightarrow> set_algorithm_request \<Rightarrow> 'e config_manager \<Rightarrow>
   set_algorithm_response \<times> 'e config_manager" where
  "svc_set_algorithm vtext req cm =
     (if set_algorithm_rules req \<noteq> []
      then (\<lparr>sa_success = False, sa_biz_tag = sr_biz_tag req, sa_algorithm = sr_algorithm req,
              sa_message = ''Validation error: '' @ vtext (set_algorithm_rules req)\<rparr>, cm)
      else case settable_algorithm (sr_algorithm req) of
        None \<Rightarrow>
          (\<lparr>sa_success = False, sa_biz_tag = sr_biz_tag req, sa_algorithm = sr_algorithm req,
            sa_message = ''Invalid algorithm '' @ quoted (sr_algorithm req) @
              ''. Valid options: segment, snowflake, uuid_v7''\<rparr>, cm)
      | Some a \<Rightarrow>
          (\<lparr>sa_success = True, sa_biz_tag = sr_biz_tag req, sa_algorithm = sr_algorithm req,
            sa_message = ''Algorithm for biz_tag '' @ quoted (sr_biz_tag req) @ '' set to '' @
              quoted (sr_algorithm req) @ '' successfully''\<rparr>,
           cm\<lparr>cm_router := set_algorithm (sr_biz_tag req) a (cm_router cm)\<rparr>))"

definition get_secure_config :: "'e config_manager \<Rightarrow> secure_config_response" where
  "get_secure_config cm = secure_config_to_response (hc_config (cm_hot cm))"

definition get_config :: "'e config_manager \<Rightarrow> config_response" where
  "get_config cm = config_to_response (hc_config (cm_hot cm))"

definition get_batch_max_size :: "'e config_manager \<Rightarrow> u32" where
  "get_batch_max_size cm = max_batch_size (cfg_batch_generate (hc_config (cm_hot cm)))"

text \<open>The routes validate once more, with a response of their own.\<close>

definition route_update_rate_limit ::
  "translate \<Rightarrow> string \<Rightarrow> (violations \<Rightarrow> string) \<Rightarrow> update_rate_limit_request \<Rightarrow> 'e config_manager \<Rightarrow> 'e \<Rightarrow>
   update_config_response http_res \<times> 'e config_manager \<times> 'e" where
  "route_update_rate_limit tr loc vtext req cm e =
     (case validate_request tr loc (update_rate_limit_rules req) of
        Inl err \<Rightarrow> (Inl err, cm, e)
      | Inr _ \<Rightarrow> (case svc_update_rate_limit vtext req cm e of (r, cm', e') \<Rightarrow> (Inr r, cm', e')))"

definition route_update_logging ::
  "translate \<Rightarrow> string \<Rightarrow> (violations \<Rightarrow> string) \<Rightarrow> string option \<Rightarrow> 'e config_manager \<Rightarrow> 'e \<Rightarrow>
   update_config_response http_res \<times> 'e config_manager \<times> 'e" where
  "route_update_logging tr loc vtext level cm e =
     (case validate_request tr loc (update_logging_rules level) of
        Inl err \<Rightarrow> (Inl err, cm, e)
      | Inr _ \<Rightarrow> (case svc_update_logging vtext level cm e of (r, cm', e') \<Rightarrow> (Inr r, cm', e')))"

definition route_set_algorithm ::
  "translate \<Rightarrow> string \<Rightarrow> (violations \<Rightarrow> string) \<Rightarrow> set_algorithm_request \<Rightarrow> 'e config_manager \<Rightarrow>
   set_algorithm_response http_res \<times> 'e config_manager" where
  "route_set_algorithm tr loc vtext req cm =
     (case validate_request tr loc (set_algorithm_rules req) of
        Inl err \<Rightarrow> (Inl err, cm)
      | Inr _ \<Rightarrow> (case svc_set_algorithm vtext req cm of (r, cm') \<Rightarrow> (Inr r, cm')))"

section \<open>Health, readiness and metrics\<close>

text \<open>\<open>HealthStatus\<close> of \<open>models.rs\<close>.\<close>

datatype http_health = HttpHealthy | HttpDegraded | HttpUnhealthy

record database_metrics =
  dm_status :: http_health
  dm_active :: u32
  dm_idle :: u32
  dm_max :: u32
  dm_last_error :: "string option"

record cache_metrics =
  ca_status :: http_health
  ca_hit_rate :: rat
  ca_has_cache :: bool
  ca_memory_usage_mb :: "u64 option"
  ca_key_count :: "u64 option"

record algorithm_metrics_http =
  ma_algorithm :: string
  ma_status :: http_health
  ma_total_generated :: u64
  ma_total_failed :: u64
  ma_cache_hit_rate :: "rat option"

record metrics_response =
  mr_counters :: api_metrics
  mr_uptime_seconds :: u64
  mr_database :: database_metrics
  mr_cache :: cache_metrics
  mr_algorithms :: "algorithm_metrics_http list"

text \<open>The \<open>health_check\<close> of the repository, which asks the database nothing.\<close>

definition repository_health_check :: "'d org_db \<Rightarrow> unit res" where
  "repository_health_check db = Inr ()"

text \<open>The message holds a dash, three bytes of UTF-8.\<close>

definition health_check_failed :: string where
  "health_check_failed =
     ''Database health check failed '' @ [CHR 0xE2, CHR 0x80, CHR 0x94] @ '' see server logs''"

definition get_database_metrics :: "'d org_service \<Rightarrow> database_metrics" where
  "get_database_metrics svc =
     (case os_tags svc of
        None \<Rightarrow> \<lparr>dm_status = HttpUnhealthy, dm_active = 0, dm_idle = 0, dm_max = 0,
                 dm_last_error = Some ''Database not configured''\<rparr>
      | Some db \<Rightarrow>
          (case repository_health_check db of
             Inr _ \<Rightarrow> \<lparr>dm_status = HttpHealthy, dm_active = 0, dm_idle = 0, dm_max = 0, dm_last_error = None\<rparr>
           | Inl e \<Rightarrow> \<lparr>dm_status = HttpUnhealthy, dm_active = 0, dm_idle = 0, dm_max = 0,
               dm_last_error = Some health_check_failed\<rparr>))"

text \<open>\<open>snapshot a\<close> is the metrics of the registered algorithm \<open>a\<close>.\<close>

definition router_metrics ::
  "(algorithm_type \<Rightarrow> algorithm_metrics) \<Rightarrow> router \<Rightarrow> (algorithm_type \<times> algorithm_metrics) list" where
  "router_metrics snapshot r = map (\<lambda>a. (a, snapshot a)) (rt_algorithms r)"

definition get_cache_metrics :: "(algorithm_type \<times> algorithm_metrics) list \<Rightarrow> cache_metrics" where
  "get_cache_metrics ms =
     (let hit_rates = List.map_filter (\<lambda>(_, m). am_cache_hit_rate m) ms
      in \<lparr>ca_status = HttpHealthy,
          ca_hit_rate = (if hit_rates = [] then 0
            else f64_div (fold (\<lambda>x acc. f64_add acc x) hit_rates 0) (of_nat (length hit_rates))),
          ca_has_cache = (hit_rates \<noteq> []), ca_memory_usage_mb = None, ca_key_count = None\<rparr>)"

definition health_handler :: "(algorithm_type \<Rightarrow> health_status) \<Rightarrow> router \<Rightarrow> http_health \<times> string" where
  "health_handler report r =
     (if is_healthy (router_health_check report r) then HttpHealthy else HttpDegraded,
      debug_name (get_default_algorithm (rt_config r)))"

record ready_response =
  ry_ready :: bool
  ry_database :: bool
  ry_cache :: bool
  ry_message :: string

definition ready_handler ::
  "key_env \<Rightarrow> (algorithm_type \<Rightarrow> algorithm_metrics) \<Rightarrow> 'd org_service \<Rightarrow> router \<Rightarrow> ready_response" where
  "ready_handler env snapshot svc r =
     (let db = (dm_status (get_database_metrics svc) = HttpHealthy);
          cache = (ca_status (get_cache_metrics (router_metrics snapshot r)) = HttpHealthy);
          ready = (db \<and> cache)
      in \<lparr>ry_ready = ready, ry_database = db, ry_cache = cache,
          ry_message = ke_t env (if ready then ''api.success.system_handlers.ready''
            else ''api.error.system_handlers.not_ready'') []\<rparr>)"

definition metrics_handler ::
  "(algorithm_type \<Rightarrow> algorithm_metrics) \<Rightarrow> u64 \<Rightarrow> 'd org_service \<Rightarrow> router \<Rightarrow> api_metrics \<Rightarrow> metrics_response" where
  "metrics_handler snapshot uptime svc r m =
     (let ms = router_metrics snapshot r
      in \<lparr>mr_counters = m, mr_uptime_seconds = uptime, mr_database = get_database_metrics svc,
          mr_cache = get_cache_metrics ms,
          mr_algorithms = map (\<lambda>(a, x). \<lparr>ma_algorithm = algorithm_name a, ma_status = HttpHealthy,
            ma_total_generated = am_total_generated x, ma_total_failed = am_total_failed x,
            ma_cache_hit_rate = am_cache_hit_rate x\<rparr>) ms\<rparr>)"

section \<open>Properties\<close>

lemma hot_update_config_fst: "fst (hot_update_config c hc e) = hc\<lparr>hc_config := c\<rparr>"
  by (simp add: hot_update_config_def)

lemma validate_request_Inr: "validate_request tr loc vs = Inr u \<longleftrightarrow> vs = []"
  by (simp add: validate_request_def)

text \<open>What the authenticated route \<open>/config\<close> shows does not depend on any section that can hold a secret.\<close>

lemma secure_config_hides:
  "secure_config_to_response
     (c\<lparr>cfg_database := db, cfg_redis := rd, cfg_etcd := et, cfg_auth := au, cfg_tls := tls,
        cfg_batch_generate := bg\<rparr>) = secure_config_to_response c"
  by (simp add: secure_config_to_response_def)

lemma config_response_hides:
  "config_to_response
     (c\<lparr>cfg_redis := rd, cfg_etcd := et, cfg_auth := au,
        cfg_database := (cfg_database c)\<lparr>db_username := user, db_password := pw, db_url := url\<rparr>\<rparr>) =
   config_to_response c"
  by (simp add: config_to_response_def database_info_of_def)

lemma same_rate_limit: "c\<lparr>cfg_rate_limit := cfg_rate_limit c\<rparr> = (c :: config)"
  by (cases c) simp

lemma update_rate_limit_effect:
  assumes "svc_update_rate_limit vtext req cm e = (r, cm', e')"
  shows "(uc_success r \<longleftrightarrow> update_rate_limit_rules req = []) \<and>
    (if uc_success r then
       get_rate_limit_override cm' = Some (default_rps (cfg_rate_limit (hc_config (cm_hot cm'))),
         burst_size (cfg_rate_limit (hc_config (cm_hot cm')))) \<and>
       hc_config (cm_hot cm') =
         (hc_config (cm_hot cm))\<lparr>cfg_rate_limit := cfg_rate_limit (hc_config (cm_hot cm'))\<rparr> \<and>
       cm_router cm' = cm_router cm
     else cm' = cm \<and> e' = e)"
  using assms
  by (auto simp: svc_update_rate_limit_def rejected_update_def Let_def hot_update_config_def
      get_rate_limit_override_def same_rate_limit split: if_splits option.splits)

text \<open>
  An update of the rate limit that passes the checks of its request can leave a configuration that
  \<open>validate\<close> rejects: the rule that bounds the burst by the rate is not applied.
\<close>

definition demo_vars :: env_vars where
  "demo_vars name = (if name = ''NEBULA_TEST_MODE'' then Some ''1'' else None)"

definition demo_config :: config where
  "demo_config = the (config_default demo_vars)"

definition demo_manager0 :: "unit config_manager" where
  "demo_manager0 = config_manager_new (hot_config_new demo_config) (router_new algorithm_config_default 0)"

theorem rate_limit_update_invalidates:
  "\<exists>cm req r cm' e'. validate (hc_config (cm_hot cm)) = Inr () \<and>
     svc_update_rate_limit vtext req cm () = (r, cm', e') \<and> uc_success r \<and>
     isl (validate (hc_config (cm_hot cm')))"
proof -
  let ?req = "\<lparr>ur_default_rps = Some 1, ur_burst_size = None\<rparr>"
  let ?x = "\<lambda>vtext. svc_update_rate_limit vtext ?req demo_manager0 ()"
  have rules: "update_rate_limit_rules ?req = []" by code_simp
  have c': "hc_config (cm_hot (fst (snd (?x (\<lambda>_. [])))))= hc_config (cm_hot (fst (snd (?x vtext))))"
    "uc_success (fst (?x vtext))"
    by (simp_all add: svc_update_rate_limit_def rules Let_def hot_update_config_def)
  have "validate (hc_config (cm_hot demo_manager0)) = Inr ()"
    "isl (validate (hc_config (cm_hot (fst (snd (?x (\<lambda>_. [])))))))" by code_simp+
  then show ?thesis unfolding c'(1) using c'(2) by (metis prod.collapse)
qed

text \<open>
  C31. A reload always reports success. The configuration is the one of the file if the file can be read and
  parsed, whether or not it passes \<open>validate\<close>, and the old one otherwise.
\<close>

theorem reload_reports_success:
  "uc_success (fst (svc_reload_config etext parse content cm e)) \<and>
   hc_config (cm_hot (fst (snd (svc_reload_config etext parse content cm e)))) =
     (case Option.bind content (\<lambda>text. case parse text of Inl _ \<Rightarrow> None | Inr c \<Rightarrow> Some c) of
        Some c \<Rightarrow> c | None \<Rightarrow> hc_config (cm_hot cm))"
  by (auto simp: svc_reload_config_def hot_reload_config_def hot_update_config_def
      split: option.splits sum.splits)

text \<open>Readiness says whether a repository was configured, not whether the database answers.\<close>

theorem ready_iff_configured:
  "ry_ready (ready_handler env snapshot svc r) \<longleftrightarrow> os_tags svc \<noteq> None"
  by (auto simp: ready_handler_def get_database_metrics_def repository_health_check_def get_cache_metrics_def
      Let_def split: option.splits)

text \<open>
  Setting the algorithm of a tag: an accepted request decides the algorithm of that tag and of no other,
  a refused one changes nothing.
\<close>

theorem set_algorithm_spec:
  assumes "svc_set_algorithm vtext req cm = (r, cm')"
  shows "cm_hot cm' = cm_hot cm \<and>
    get_algorithm (ctx\<lparr>ctx_biz_tag := tag\<rparr>) (cm_router cm') =
      (case settable_algorithm (sr_algorithm req) of
         Some a \<Rightarrow> if sa_success r \<and> tag = sr_biz_tag req then a
           else get_algorithm (ctx\<lparr>ctx_biz_tag := tag\<rparr>) (cm_router cm)
       | None \<Rightarrow> get_algorithm (ctx\<lparr>ctx_biz_tag := tag\<rparr>) (cm_router cm)) \<and>
    (sa_success r \<longleftrightarrow> set_algorithm_rules req = [] \<and> settable_algorithm (sr_algorithm req) \<noteq> None)"
  using assms
  by (auto simp: svc_set_algorithm_def get_algorithm_def set_algorithm_def update_conv'
      split: if_splits option.splits)

lemma set_algorithm_spec_witness:
  "get_algorithm (context_for ''w'' ''g'' ''order'')
     (cm_router (snd (svc_set_algorithm (\<lambda>_. []) \<lparr>sr_biz_tag = ''order'', sr_algorithm = ''UUID_v7''\<rparr> demo_manager0))) =
     UuidV7"
proof -
  let ?req = "\<lparr>sr_biz_tag = ''order'', sr_algorithm = ''UUID_v7''\<rparr>"
  have "set_algorithm_rules ?req = []" "settable_algorithm (sr_algorithm ?req) = Some UuidV7" by code_simp+
  moreover have "(context_for ''w'' ''g'' ''order'')\<lparr>ctx_biz_tag := ''order''\<rparr> = context_for ''w'' ''g'' ''order''"
    by (simp add: context_for_def)
  ultimately show ?thesis
    using set_algorithm_spec [where ctx = "context_for ''w'' ''g'' ''order''" and tag = "''order''"
      and req = ?req and cm = demo_manager0 and vtext = "\<lambda>_. []", OF prod.collapse [symmetric]] by simp
qed

lemma metrics_counts_every_algorithm:
  "map ma_algorithm (mr_algorithms (metrics_handler snapshot up svc r m)) =
     map algorithm_name (rt_algorithms r)"
  by (simp add: metrics_handler_def router_metrics_def Let_def)

text \<open>The average of the hit rates ignores the algorithms without a cache.\<close>

lemma cache_metrics_without_cache:
  "ca_has_cache (get_cache_metrics ms) \<longleftrightarrow> (\<exists>p \<in> set ms. am_cache_hit_rate (snd p) \<noteq> None)"
  by (auto simp: get_cache_metrics_def Let_def map_filter_def filter_empty_conv case_prod_beta)

end
