(* ===== verification/Web_Layers.thy ===== *)
theory Web_Layers
  imports Config_Service
begin

text \<open>
  The layers around the API routes: locale negotiation (\<open>src/src/server/middleware/locale.rs\<close>), the API
  version (\<open>server/api_version.rs\<close>), the response headers and the order of the layers
  (\<open>create_router\<close> in \<open>server/router.rs\<close>), and the CORS policy (\<open>server/config/cors.rs\<close>).

  An \<open>f32\<close> is the rational it denotes; \<open>str::parse\<close> for \<open>f32\<close> is correctly rounded, and infinities and NaN
  cannot pass the test of a quality, so they are \<open>None\<close>. A layer takes the rest of the chain as a
  function; its answer has a list of response headers, a name at most once. Header values are printable
  ASCII, so a character is a byte. Request numbers and the clock of an error body are inputs. The
  \<open>CorsLayer\<close> of the framework is the policy it is built with and what the crate documents of its effect;
  \<open>Framework\<close> is an answer of such a layer.
\<close>

section \<open>Single precision\<close>

definition f32_round :: "rat \<Rightarrow> rat" where
  "f32_round q =
     (if q = 0 then 0
      else let e = max (ilog2 \<bar>q\<bar> - 23) (- 149) in
           sgn q * (of_int (round_half_even (\<bar>q\<bar> / 2 powi e)) * 2 powi e))"

text \<open>
  \<open>f32_digits\<close> reads digits with an optional point, \<open>f32_exponent\<close> the rest: nothing, or an exponent.
  Values of \<open>2 ^ 128\<close> and more are infinite.
\<close>

definition f32_digits :: "string \<Rightarrow> rat option" where
  "f32_digits s =
     (let ip = takeWhile is_digit s; rest = dropWhile is_digit s;
          fp = (case rest of [] \<Rightarrow> [] | c # r \<Rightarrow> r)
      in if rest \<noteq> [] \<and> hd rest \<noteq> CHR ''.'' \<or> \<not> list_all is_digit fp \<or> ip @ fp = [] then None
         else Some (of_nat (read_base 10 (ip @ fp)) / 10 ^ length fp))"

definition f32_signed :: "string \<Rightarrow> bool \<times> string" where
  "f32_signed s =
     (case s of c # r \<Rightarrow> if c = CHR ''-'' then (True, r) else if c = CHR ''+'' then (False, r) else (False, s)
      | [] \<Rightarrow> (False, s))"

definition f32_exponent :: "string \<Rightarrow> int option" where
  "f32_exponent s =
     (case s of
        [] \<Rightarrow> Some 0
      | _ # r \<Rightarrow>
          (case f32_signed r of (neg, ds) \<Rightarrow>
             if ds = [] \<or> \<not> list_all is_digit ds then None
             else Some (if neg then - int (read_base 10 ds) else int (read_base 10 ds))))"

definition parse_f32 :: "string \<Rightarrow> rat option" where
  "parse_f32 s =
     (case f32_signed s of (neg, t) \<Rightarrow>
        let is_e = (\<lambda>c. c = CHR ''e'' \<or> c = CHR ''E'');
            mant = takeWhile (\<lambda>c. \<not> is_e c) t; ex = dropWhile (\<lambda>c. \<not> is_e c) t
        in case (f32_digits mant, f32_exponent ex) of
          (Some m, Some x) \<Rightarrow>
            let v = f32_round (m * 10 powi x)
            in if v \<ge> 2 ^ 128 then None else Some (if neg then - v else v)
        | _ \<Rightarrow> None)"

section \<open>Locale negotiation\<close>

datatype locale_t = En | ZhCn

definition locale_default :: locale_t where
  "locale_default = En"

fun locale_as_str :: "locale_t \<Rightarrow> string" where
  "locale_as_str En = ''en''"
| "locale_as_str ZhCn = ''zh-CN''"

definition same_ignoring_case :: "string \<Rightarrow> string \<Rightarrow> bool" where
  "same_ignoring_case s t \<longleftrightarrow> map lower_char s = map lower_char t"

definition from_tag :: "string \<Rightarrow> locale_t option" where
  "from_tag tag =
     (let trimmed = trim tag in
      if trimmed = [] then None
      else if same_ignoring_case trimmed ''en'' then Some En
      else if same_ignoring_case trimmed ''zh-CN'' \<or> same_ignoring_case trimmed ''zh-Hans-CN'' \<or>
              same_ignoring_case trimmed ''zh-Hans'' then Some ZhCn
      else let primary = takeWhile (\<lambda>c. c \<noteq> CHR ''-'') trimmed in
           if same_ignoring_case primary ''en'' then Some En
           else if same_ignoring_case primary ''zh'' then Some ZhCn
           else None)"

record candidate =
  ca_tag :: string
  ca_quality :: rat

definition max_accept_language_len :: nat where
  "max_accept_language_len = 4096"

definition parse_qvalue :: "string \<Rightarrow> rat option" where
  "parse_qvalue s =
     (case parse_f32 (trim s) of
        Some v \<Rightarrow> if 0 \<le> v \<and> v \<le> 1 then Some v else None
      | None \<Rightarrow> None)"

text \<open>The parameters of an entry, from the left; the last quality counts.\<close>

fun entry_quality :: "string list \<Rightarrow> rat \<Rightarrow> rat option" where
  "entry_quality [] q = Some q"
| "entry_quality (p # ps) q =
     (let param = trim p in
      if length param \<ge> 2 \<and> lower_char (param ! 0) = CHR ''q'' \<and> param ! 1 = CHR ''=''
      then (case parse_qvalue (drop 2 param) of None \<Rightarrow> None | Some v \<Rightarrow> entry_quality ps v)
      else entry_quality ps q)"

definition parse_entry :: "string \<Rightarrow> candidate option" where
  "parse_entry entry =
     (if entry = [] then None
      else let parts = split_on CHR '';'' entry; tag = trim (hd parts) in
           if tag = [] then None
           else case entry_quality (tl parts) 1 of
             None \<Rightarrow> None
           | Some q \<Rightarrow> Some \<lparr>ca_tag = tag, ca_quality = q\<rparr>)"

definition accepted_entries :: "string \<Rightarrow> candidate list" where
  "accepted_entries header =
     filter (\<lambda>c. ca_quality c > 0) (List.map_filter (\<lambda>e. parse_entry (trim e)) (split_on CHR '','' header))"

definition parse_accept_language :: "string \<Rightarrow> candidate list" where
  "parse_accept_language header =
     (if trim header = [] then []
      else if length header > max_accept_language_len then []
      else sort_key (\<lambda>c. - ca_quality c) (accepted_entries header))"

fun first_locale :: "candidate list \<Rightarrow> locale_t" where
  "first_locale [] = locale_default"
| "first_locale (c # cs) =
     (if ca_tag c = ''*'' then first_locale cs
      else case from_tag (ca_tag c) of Some l \<Rightarrow> l | None \<Rightarrow> first_locale cs)"

definition negotiate_locale_str :: "string \<Rightarrow> locale_t" where
  "negotiate_locale_str accept_language = first_locale (parse_accept_language accept_language)"

definition negotiate_locale :: "header option \<Rightarrow> locale_t" where
  "negotiate_locale h = (case h of Some (Text s) \<Rightarrow> negotiate_locale_str s | _ \<Rightarrow> locale_default)"

section \<open>Layers\<close>

type_synonym response_headers = "(string \<times> string) list"

text \<open>The body of an error of a layer (\<open>ApiErrorResponse\<close> of \<open>server/models.rs\<close>).\<close>

record api_error_response =
  ae_code :: string
  ae_message :: string
  ae_details :: "string option"
  ae_request_id :: string
  ae_timestamp :: int

definition api_error_response_new :: "string \<times> int \<Rightarrow> string \<Rightarrow> string \<Rightarrow> api_error_response" where
  "api_error_response_new stamp code message =
     \<lparr>ae_code = code, ae_message = message, ae_details = None, ae_request_id = fst stamp,
      ae_timestamp = snd stamp\<rparr>"

definition with_details :: "string \<Rightarrow> api_error_response \<Rightarrow> api_error_response" where
  "with_details details e = e\<lparr>ae_details := Some details\<rparr>"

datatype 'a answer = Routed "'a reply" | Refused nat api_error_response | Framework nat

type_synonym ('a, 's) layered = "http_request \<Rightarrow> 's \<Rightarrow> ('a answer \<times> response_headers) \<times> 's"

definition plain :: "('a, 's) service \<Rightarrow> ('a, 's) layered" where
  "plain f req s = (case f req s of (r, s') \<Rightarrow> ((Routed r, []), s'))"

definition set_header :: "string \<Rightarrow> string \<Rightarrow> response_headers \<Rightarrow> response_headers" where
  "set_header name v hs = AList.update name v hs"

definition locale_middleware :: "('a, 's) layered \<Rightarrow> ('a, 's) layered" where
  "locale_middleware next_layer req s =
     next_layer (req\<lparr>rq_locale := Some (locale_as_str (negotiate_locale (rq_header req ''accept-language'')))\<rparr>) s"

subsection \<open>The API version\<close>

datatype api_version = V1 | V2

fun version_as_str :: "api_version \<Rightarrow> string" where
  "version_as_str V1 = ''v1''"
| "version_as_str V2 = ''v2''"

definition is_supported :: "api_version \<Rightarrow> bool" where
  "is_supported v \<longleftrightarrow> v = V1"

fun version_as_number :: "api_version \<Rightarrow> u32" where
  "version_as_number V1 = 1"
| "version_as_number V2 = 2"

definition version_from_str :: "string \<Rightarrow> string + api_version" where
  "version_from_str s =
     (let l = to_lowercase s in
      if l = ''v1'' \<or> l = ''1'' then Inr V1
      else if l = ''v2'' \<or> l = ''2'' then Inr V2
      else Inl (''Unsupported API version: '' @ l))"

definition parse_api_version_from_request :: "http_request \<Rightarrow> api_version" where
  "parse_api_version_from_request req =
     (case header_text req ''x-api-version'' of
        Some s \<Rightarrow> (case version_from_str s of Inr v \<Rightarrow> v | Inl _ \<Rightarrow> V1)
      | None \<Rightarrow> V1)"

definition unsupported_version :: "string \<times> int \<Rightarrow> api_version \<Rightarrow> 'a answer" where
  "unsupported_version stamp v =
     Refused 400 (with_details
       (''Requested version: '' @ quoted (version_as_str v) @ ''. Supported versions: '' @ version_as_str V1)
       (api_error_response_new stamp ''3001'' ''Unsupported API version''))"

definition api_version_middleware :: "string \<times> int \<Rightarrow> ('a, 's) layered \<Rightarrow> ('a, 's) layered" where
  "api_version_middleware stamp next_layer req s =
     (let version = parse_api_version_from_request req in
      if \<not> is_supported version then ((unsupported_version stamp version, []), s)
      else case next_layer req s of
        ((r, hs), s') \<Rightarrow> ((r, set_header ''x-api-version'' (version_as_str version) hs), s'))"

subsection \<open>Security headers\<close>

definition security_headers :: "(string \<times> string) list" where
  "security_headers =
     [(''x-content-type-options'', ''nosniff''), (''x-frame-options'', ''DENY''),
      (''content-security-policy'', ''default-src '' @ quoted ''self''),
      (''strict-transport-security'', ''max-age=31536000; includeSubDomains''),
      (''x-xss-protection'', ''1; mode=block''),
      (''referrer-policy'', ''strict-origin-when-cross-origin'')]"

definition with_security_headers :: "('a, 's) layered \<Rightarrow> ('a, 's) layered" where
  "with_security_headers next_layer req s =
     (case next_layer req s of
        ((r, hs), s') \<Rightarrow> ((r, fold (\<lambda>(n, v). set_header n v) security_headers hs), s'))"

section \<open>CORS\<close>

record cors_policy =
  co_origins :: "string list"
  co_methods :: "string list"
  co_any_header :: bool
  co_credentials :: bool
  co_max_age :: "nat option"
  co_exposed :: "string list"

definition cors_layer_new :: cors_policy where
  "cors_layer_new =
     \<lparr>co_origins = [], co_methods = [], co_any_header = False, co_credentials = False, co_max_age = None,
      co_exposed = []\<rparr>"

definition cors_settings :: "string list \<Rightarrow> cors_policy" where
  "cors_settings origins =
     \<lparr>co_origins = origins, co_methods = [''GET'', ''POST'', ''PUT'', ''DELETE'', ''PATCH''],
      co_any_header = True, co_credentials = False, co_max_age = Some 3600,
      co_exposed = [''x-request-id'', ''x-rate-limit-remaining'']\<rparr>"

text \<open>\<open>valid\<close> says which texts are header values.\<close>

definition create_cors_layer :: "(string \<Rightarrow> bool) \<Rightarrow> string list \<Rightarrow> cors_policy" where
  "create_cors_layer valid allowed_origins = cors_settings (filter valid allowed_origins)"

definition create_dev_cors_layer :: cors_policy where
  "create_dev_cors_layer = cors_settings [''http://localhost:3000'', ''http://127.0.0.1:3000'']"

definition create_env_aware_cors_layer :: "(string \<Rightarrow> bool) \<Rightarrow> env_vars \<Rightarrow> cors_policy" where
  "create_env_aware_cors_layer valid env =
     (let is_production = (to_lowercase (unwrap_or (env ''NEBULA_ENV'') ''development'') = ''production'');
          allowed = (case env ''ALLOWED_ORIGINS'' of
              Some os \<Rightarrow> filter (\<lambda>s. s \<noteq> []) (map trim (split_on CHR '','' os))
            | None \<Rightarrow> [])
      in if is_production then if allowed = [] then cors_layer_new else create_cors_layer valid allowed
         else if allowed = [] then create_dev_cors_layer
         else create_cors_layer valid allowed)"

section \<open>The layers of the router\<close>

text \<open>
  The CORS layer and the limit of the request body are the \<open>tower-http\<close> crate's, as it documents them:
  every OPTIONS request is answered by the CORS layer itself, and any other answer gets its headers; a
  request that announces more bytes than the limit is answered 413. Which headers they are is a
  parameter.
\<close>

record http_layers =
  hl_preflight :: "cors_policy \<Rightarrow> http_request \<Rightarrow> (string \<times> string) list"
  hl_cors_headers :: "cors_policy \<Rightarrow> http_request \<Rightarrow> (string \<times> string) list"

definition cors_documented :: "http_layers \<Rightarrow> bool" where
  "cors_documented hl \<longleftrightarrow>
     (\<forall>policy req. \<forall>n \<in> fst ` set (hl_cors_headers hl policy req).
        n = ''vary'' \<or> take 15 n = ''access-control-'')"

record http_line =
  hr_method :: string
  hr_content_length :: "nat option"

definition with_cors ::
  "http_layers \<Rightarrow> cors_policy \<Rightarrow> http_line \<Rightarrow> ('a, 's) layered \<Rightarrow> ('a, 's) layered" where
  "with_cors hl policy line next_layer req s =
     (if hr_method line = ''OPTIONS'' then ((Framework 200, hl_preflight hl policy req), s)
      else case next_layer req s of
        ((r, hs), s') \<Rightarrow> ((r, fold (\<lambda>(n, v). set_header n v) (hl_cors_headers hl policy req) hs), s'))"

definition max_request_size :: nat where
  "max_request_size = 1048576"

definition with_size_limit :: "http_line \<Rightarrow> ('a, 's) layered \<Rightarrow> ('a, 's) layered" where
  "with_size_limit line next_layer req s =
     (case hr_content_length line of
        Some n \<Rightarrow> if n > max_request_size then ((Framework 413, []), s) else next_layer req s
      | None \<Rightarrow> next_layer req s)"

text \<open>The layers of a route under \<open>/api/v1\<close>, from the outside.\<close>

definition api_v1 ::
  "http_layers \<Rightarrow> cors_policy \<Rightarrow> string \<times> int \<Rightarrow> ('a, 's) service \<Rightarrow> http_line \<Rightarrow> ('a, 's) layered" where
  "api_v1 hl policy stamp handler line =
     with_size_limit line (with_cors hl policy line (with_security_headers
       (locale_middleware (api_version_middleware stamp (plain handler)))))"

section \<open>Properties\<close>

lemma hd_sort_key:
  fixes f :: "'a \<Rightarrow> 'b::linorder"
  assumes "sort_key f xs = y # ys"
  shows "\<exists>i < length xs. xs ! i = y \<and> (\<forall>j < length xs. f y \<le> f (xs ! j)) \<and> (\<forall>j < i. f y < f (xs ! j))"
proof -
  have least: "f y \<le> f x" if "x \<in> set xs" for x
  proof -
    have "x \<in> set (y # ys)" using that assms by (metis set_sort)
    moreover have "sorted (map f (y # ys))" using assms by (metis sorted_sort_key)
    ultimately show ?thesis by auto
  qed
  have "filter (\<lambda>x. f x = f y) xs = filter (\<lambda>x. f x = f y) (y # ys)"
    using sort_key_stable [of f "f y" xs] assms by simp
  then obtain rest where "filter (\<lambda>x. f x = f y) xs = y # rest" by simp
  then obtain us vs where u: "xs = us @ y # vs" "\<forall>u \<in> set us. f u \<noteq> f y" by (auto simp: filter_eq_Cons_iff)
  have "f y < f (xs ! j)" if "j < length us" for j
    using u that least [of "us ! j"] by (auto simp: nth_append order.strict_iff_order)
  moreover have "f y \<le> f (xs ! j)" if "j < length xs" for j using least nth_mem [OF that] .
  ultimately show ?thesis by (intro exI [of _ "length us"]) (auto simp: u(1))
qed

lemma first_locale_filter:
  "first_locale cs = (case filter (\<lambda>c. from_tag (ca_tag c) \<noteq> None) cs of
     [] \<Rightarrow> locale_default | c # _ \<Rightarrow> the (from_tag (ca_tag c)))"
proof -
  have star: "from_tag ''*'' = None" by code_simp
  show ?thesis by (induction cs) (auto simp: star split: option.splits list.splits)
qed

text \<open>
  C34. Negotiation: the answer is the locale of the entry with the highest quality among those that are accepted
  and name a known language, the first of them in the header, and English if there is none.
\<close>

theorem negotiation_best:
  assumes "length header \<le> max_accept_language_len"
  shows "let cs = filter (\<lambda>c. from_tag (ca_tag c) \<noteq> None) (accepted_entries header) in
    if trim header = [] \<or> cs = [] then negotiate_locale_str header = En
    else \<exists>i < length cs. from_tag (ca_tag (cs ! i)) = Some (negotiate_locale_str header) \<and>
      (\<forall>j < length cs. ca_quality (cs ! j) \<le> ca_quality (cs ! i)) \<and>
      (\<forall>j < i. ca_quality (cs ! j) < ca_quality (cs ! i))"
proof -
  let ?p = "\<lambda>c. from_tag (ca_tag c) \<noteq> None" and ?k = "\<lambda>c. - ca_quality c"
  let ?cs = "filter ?p (accepted_entries header)"
  show ?thesis
  proof (cases "trim header = [] \<or> ?cs = []")
    case True
    moreover have "filter ?p (sort_key ?k (accepted_entries header)) = []" if "?cs = []"
      using that by (simp add: filter_empty_conv)
    ultimately have "filter ?p (parse_accept_language header) = []"
      using assms by (auto simp: parse_accept_language_def)
    then have "negotiate_locale_str header = En"
      unfolding negotiate_locale_str_def first_locale_filter by (simp add: locale_default_def)
    with True show ?thesis by (simp add: Let_def)
  next
    case False
    obtain y ys where s: "sort_key ?k ?cs = y # ys" using False by (cases "sort_key ?k ?cs") (auto dest: arg_cong [of _ _ length])
    have f: "filter ?p (parse_accept_language header) = y # ys"
      using s False assms by (simp add: parse_accept_language_def filter_sort)
    have "y \<in> set (filter ?p (parse_accept_language header))" unfolding f by simp
    then have "?p y" by simp
    then have y: "from_tag (ca_tag y) = Some (negotiate_locale_str header)"
      unfolding negotiate_locale_str_def first_locale_filter f by auto
    from hd_sort_key [OF s] y False show ?thesis by (auto simp: Let_def)
  qed
qed

lemma negotiation_best_witness:
  "negotiate_locale_str ''fr, en;q=.5, zh-TW;q=0.8'' = ZhCn"
proof -
  define h where "h = ''fr, en;q=.5, zh-TW;q=0.8''"
  define cs where "cs = filter (\<lambda>c. from_tag (ca_tag c) \<noteq> None) (accepted_entries h)"
  have "map (\<lambda>c. (from_tag (ca_tag c), ca_quality c < 2 / 3)) cs = [(Some En, True), (Some ZhCn, False)]"
    unfolding cs_def h_def by code_simp
  then have two: "length cs = 2" "from_tag (ca_tag (cs ! 1)) = Some ZhCn"
    "ca_quality (cs ! 0) < 2 / 3" "\<not> ca_quality (cs ! 1) < 2 / 3"
    by (auto simp: map_eq_Cons_conv)
  have len: "length h \<le> max_accept_language_len" and tr: "trim h \<noteq> []" unfolding h_def by code_simp+
  have "cs \<noteq> []" using two(1) by auto
  with tr have c: "\<not> (trim h = [] \<or> cs = [])" by blast
  obtain i where i: "i < length cs" "from_tag (ca_tag (cs ! i)) = Some (negotiate_locale_str h)"
    "\<forall>j < length cs. ca_quality (cs ! j) \<le> ca_quality (cs ! i)"
    using negotiation_best [OF len, folded cs_def, unfolded Let_def if_not_P [OF c]] by blast
  have "ca_quality (cs ! 1) \<le> ca_quality (cs ! i)" using i(3) two(1) by simp
  then have "i \<noteq> 0" using two(3,4) by (metis le_less_trans)
  then have "i = 1" using i(1) two(1) by simp
  then show ?thesis using i(2) two(2) by (simp add: h_def)
qed

text \<open>Qualities of at most three decimals, which RFC 7231 allows, are told apart although they are rounded.\<close>

lemma round_half_even_error: "\<bar>of_int (round_half_even x) - x\<bar> \<le> 1 / 2"
  unfolding abs_le_iff round_half_even_def Let_def by (auto; linarith)

lemma f32_round_error:
  assumes "0 \<le> q" "q \<le> 1"
  shows "\<bar>f32_round q - q\<bar> \<le> 1 / 2 ^ 24"
proof (cases "q = 0")
  case False
  then have q: "0 < q" using assms(1) by simp
  let ?e = "max (ilog2 q - 23) (- 149)"
  have "2 powi ilog2 q \<le> (2::rat) powi 0" using ilog2_bounds(1) [OF q] assms(2) by simp
  moreover have "(2::rat) powi 1 \<le> 2 powi ilog2 q" if "1 \<le> ilog2 q" using that by (rule power_int_increasing) simp
  ultimately have "ilog2 q \<le> 0" by fastforce
  then have "?e \<le> - 23" by simp
  then have small: "(2::rat) powi ?e \<le> 2 powi (- 23)" by (rule power_int_increasing) simp
  have p: "0 < (2::rat) powi ?e" by simp
  have "f32_round q = of_int (round_half_even (q / 2 powi ?e)) * 2 powi ?e"
    using q by (simp add: f32_round_def Let_def)
  then have "f32_round q - q = (of_int (round_half_even (q / 2 powi ?e)) - q / 2 powi ?e) * 2 powi ?e"
    using p by (simp add: left_diff_distrib)
  then have "\<bar>f32_round q - q\<bar> = \<bar>of_int (round_half_even (q / 2 powi ?e)) - q / 2 powi ?e\<bar> * 2 powi ?e"
    using p by (simp add: abs_mult)
  also have "\<dots> \<le> 1 / 2 * 2 powi ?e"
    by (rule mult_right_mono [OF round_half_even_error]) simp
  also have "\<dots> \<le> 1 / 2 * 2 powi (- 23)" using small by simp
  also have "\<dots> = 1 / 2 ^ 24" by (simp add: power_int_minus field_simps)
  finally show ?thesis .
qed (simp add: f32_round_def)

lemma qualities_told_apart:
  assumes "k < m" "m \<le> 1000"
  shows "f32_round (of_nat k / 1000) < f32_round (of_nat m / 1000)"
proof -
  let ?q = "\<lambda>n. of_nat n / 1000 :: rat"
  have one: "(of_nat k :: rat) + 1 \<le> of_nat m" using assms(1)
    by (metis Suc_leI of_nat_Suc of_nat_le_iff add.commute)
  have "\<bar>f32_round (?q k) - ?q k\<bar> \<le> 1 / 2 ^ 24" "\<bar>f32_round (?q m) - ?q m\<bar> \<le> 1 / 2 ^ 24"
    using assms by (intro f32_round_error; simp)+
  moreover have "?q k + 1 / 1000 \<le> ?q m" using one by (simp add: field_simps)
  moreover have "(1::rat) / 2 ^ 24 < 1 / 2000" by simp
  ultimately show ?thesis by (simp only: abs_le_iff) linarith
qed

text \<open>A version the program does not know is served as version 1; only version 2 is refused.\<close>

lemma unknown_version_served:
  "is_supported (parse_api_version_from_request req) \<longleftrightarrow>
     (\<forall>s. header_text req ''x-api-version'' = Some s \<longrightarrow> to_lowercase s \<noteq> ''v2'' \<and> to_lowercase s \<noteq> ''2'')"
  by (auto simp: is_supported_def parse_api_version_from_request_def version_from_str_def Let_def
      split: option.splits)

lemma map_of_set_headers:
  "map_of (fold (\<lambda>(n, v). set_header n v) xs hs) n =
     (case map_of (rev xs) n of Some v \<Rightarrow> Some v | None \<Rightarrow> map_of hs n)"
  by (induction xs arbitrary: hs) (auto simp: set_header_def update_conv' map_add_def split: option.splits)

lemma security_headers_set: "(n, v) \<in> set security_headers \<Longrightarrow> map_of (rev security_headers) n = Some v"
  by (auto simp: security_headers_def quoted_def)

lemma documented_apart:
  assumes "cors_documented hl"
  shows "map_of (rev (hl_cors_headers hl policy req)) ''x-api-version'' = None"
    "(n, v) \<in> set security_headers \<Longrightarrow> map_of (rev (hl_cors_headers hl policy req)) n = None"
proof -
  have no: "n \<notin> fst ` set (hl_cors_headers hl policy req)" if "n \<noteq> ''vary''" "take 15 n \<noteq> ''access-control-''" for n
    using assms that unfolding cors_documented_def by blast
  show "map_of (rev (hl_cors_headers hl policy req)) ''x-api-version'' = None"
    using no [of "''x-api-version''"] by (simp add: map_of_eq_None_iff)
  assume "(n, v) \<in> set security_headers"
  then have "n \<noteq> ''vary'' \<and> take 15 n \<noteq> ''access-control-''"
    by (auto simp: security_headers_def)
  then show "map_of (rev (hl_cors_headers hl policy req)) n = None"
    using no [of n] by (simp add: map_of_eq_None_iff)
qed

text \<open>
  C35. What reaches a route under \<open>/api/v1\<close>: a request that announces more than 1 MiB is answered 413 and an
  OPTIONS request by the CORS layer, neither with a change of anything. Every other answer carries the six
  security headers; a request for version 2 is refused before the route, and any other runs the route
  exactly once, with the negotiated locale, and names version 1.
\<close>

theorem api_v1_answers:
  assumes "cors_documented hl" "api_v1 hl policy stamp handler line req s = ((a, hs), s')"
  shows "if (\<exists>n. hr_content_length line = Some n \<and> n > max_request_size) then a = Framework 413 \<and> s' = s
    else if hr_method line = ''OPTIONS'' then a = Framework 200 \<and> s' = s
    else (\<forall>(n, v) \<in> set security_headers. map_of hs n = Some v) \<and>
      (case parse_api_version_from_request req of
         V2 \<Rightarrow> a = unsupported_version stamp V2 \<and> s' = s
       | V1 \<Rightarrow> map_of hs ''x-api-version'' = Some ''v1'' \<and>
           (\<exists>r. a = Routed r \<and> handler (req\<lparr>rq_locale :=
              Some (locale_as_str (negotiate_locale (rq_header req ''accept-language'')))\<rparr>) s = (r, s')))"
proof -
  let ?inner = "with_security_headers (locale_middleware (api_version_middleware stamp (plain handler)))"
  have v: "parse_api_version_from_request (req\<lparr>rq_locale := l\<rparr>) = parse_api_version_from_request req" for l
    by (simp add: parse_api_version_from_request_def header_text_def)
  have n: "map_of (rev security_headers) ''x-api-version'' = None" by code_simp
  consider (large) "\<exists>n. hr_content_length line = Some n \<and> n > max_request_size"
    | (preflight) "\<not> (\<exists>n. hr_content_length line = Some n \<and> n > max_request_size)" "hr_method line = ''OPTIONS''"
    | (inner) hs0 where "\<not> (\<exists>n. hr_content_length line = Some n \<and> n > max_request_size)"
        "hr_method line \<noteq> ''OPTIONS''" "?inner req s = ((a, hs0), s')"
        "hs = fold (\<lambda>(n, v). set_header n v) (hl_cors_headers hl policy req) hs0"
    using assms(2)
    by (auto simp: api_v1_def with_size_limit_def with_cors_def split: option.splits if_splits prod.splits)
  then show ?thesis
  proof cases
    case inner
    note apart = documented_apart [OF assms(1), where policy = policy and req = req]
    have "(\<forall>(n, v) \<in> set security_headers. map_of hs0 n = Some v) \<and>
      (case parse_api_version_from_request req of
         V2 \<Rightarrow> a = unsupported_version stamp V2 \<and> s' = s
       | V1 \<Rightarrow> map_of hs0 ''x-api-version'' = Some ''v1'' \<and>
           (\<exists>r. a = Routed r \<and> handler (req\<lparr>rq_locale :=
              Some (locale_as_str (negotiate_locale (rq_header req ''accept-language'')))\<rparr>) s = (r, s')))"
      using inner(3)
      by (auto simp: with_security_headers_def locale_middleware_def api_version_middleware_def
          plain_def v is_supported_def map_of_set_headers security_headers_set n set_header_def update_conv'
          Let_def split: prod.splits api_version.splits)
    moreover have "map_of hs ''x-api-version'' = map_of hs0 ''x-api-version''"
      unfolding inner(4) map_of_set_headers by (simp add: apart)
    moreover have "map_of hs n = map_of hs0 n" if "(n, v) \<in> set security_headers" for n v
      unfolding inner(4) map_of_set_headers by (simp add: apart(2) [OF that])
    ultimately show ?thesis using inner(1,2) by (auto split: api_version.splits)
  qed (use assms(2) in \<open>auto simp: api_v1_def with_size_limit_def with_cors_def split: option.splits\<close>)
qed

definition ask_locale :: "(string option, nat) service" where
  "ask_locale req n = (Success (rq_locale req), n + 1)"

definition demo_layers :: http_layers where
  "demo_layers = \<lparr>hl_preflight = (\<lambda>policy req. [(''allow'', ''GET'')]),
     hl_cors_headers = (\<lambda>policy req. [(''vary'', ''origin''), (''access-control-allow-origin'', ''*'')])\<rparr>"

lemma api_v1_answers_witness:
  "case api_v1 demo_layers create_dev_cors_layer (''id'', 0) ask_locale
       \<lparr>hr_method = ''GET'', hr_content_length = Some 10\<rparr> (demo_http None None) 0 of ((a, hs), n) \<Rightarrow>
     map_of hs ''x-frame-options'' = Some ''DENY'' \<and> map_of hs ''x-api-version'' = Some ''v1'' \<and> n = 1"
proof -
  let ?line = "\<lparr>hr_method = ''GET'', hr_content_length = Some 10\<rparr>"
  obtain a hs n where r: "api_v1 demo_layers create_dev_cors_layer (''id'', 0) ask_locale ?line
      (demo_http None None) 0 = ((a, hs), n)"
    by (metis surj_pair)
  have v: "parse_api_version_from_request (demo_http None None) = V1"
    and f: "(''x-frame-options'', ''DENY'') \<in> set security_headers" by code_simp+
  have d: "cors_documented demo_layers" by (simp add: cors_documented_def demo_layers_def)
  have "\<not> (\<exists>n. hr_content_length ?line = Some n \<and> n > max_request_size)"
    by (simp add: max_request_size_def)
  note ans = api_v1_answers [OF d r, unfolded v api_version.case if_not_P [OF this]]
  have "map_of hs ''x-frame-options'' = Some ''DENY''" using ans f by (auto dest: bspec)
  moreover have "map_of hs ''x-api-version'' = Some ''v1''" "n = 1" using ans by (auto simp: ask_locale_def)
  ultimately show ?thesis by (simp add: r)
qed

text \<open>Behind these layers no extractor of a tag route misses an extension.\<close>

lemma tag_service_total:
  assumes "tag_service tr env au h ti r req g = (rep, g')" "rq_locale req \<noteq> None"
  shows "rep \<noteq> Denied 500 m"
  using assms(1) [unfolded tag_service_def authenticated_route_def]
proof (cases rule: auth_middleware_cases)
  case disabled
  then show ?thesis by (auto simp: anonymous_block_middleware_def with_identity_def Let_def)
next
  case limited
  then show ?thesis by (simp add: too_many_requests_response_def)
next
  case (unauthorized g1)
  then show ?thesis by (simp add: unauthorized_response_def)
next
  case (passed v key_id secret ws role g2)
  then show ?thesis using assms(2)
    by (auto simp: anonymous_block_middleware_def with_extensions_def with_identity_def Let_def
        split: option.splits api_key_role.splits prod.splits sum.splits)
qed

lemma api_v1_total:
  "fst (fst (api_v1 hl policy stamp (tag_service tr env au h ti r) line req g)) \<noteq> Routed (Denied 500 m)"
  by (auto simp: api_v1_def with_size_limit_def with_cors_def with_security_headers_def locale_middleware_def
      api_version_middleware_def plain_def unsupported_version_def Let_def
      split: prod.splits option.splits dest!: tag_service_total [where m = m])

text \<open>The CORS policy never allows credentials; in production only configured origins are allowed.\<close>

lemma cors_spec:
  "\<not> co_credentials (create_env_aware_cors_layer valid env) \<and>
   (env ''NEBULA_ENV'' = Some ''production'' \<longrightarrow>
      set (co_origins (create_env_aware_cors_layer valid env)) \<subseteq>
        (case env ''ALLOWED_ORIGINS'' of Some os \<Rightarrow> trim ` set (split_on CHR '','' os) | None \<Rightarrow> {}))"
proof -
  have p: "to_lowercase ''production'' = ''production''" by code_simp
  show ?thesis
    by (auto simp: create_env_aware_cors_layer_def create_cors_layer_def create_dev_cors_layer_def
        cors_layer_new_def cors_settings_def unwrap_or_def p Let_def split: option.splits)
qed

end
