(* ===== verification/Rate_Limit.thy ===== *)
theory Rate_Limit
  imports Web_Layers
begin

text \<open>
  Rate limiting: \<open>RateLimiter\<close> of \<open>src/src/server/rate_limit/limiter.rs\<close> and the middleware of
  \<open>rate_limit/middleware.rs\<close>.

  The token bucket of one key is the \<open>limiteron\<close> crate's, not part of the repository: \<open>bucket_ops\<close> is a
  parameter and \<open>token_bucket\<close> what the crate documents of it, with \<open>fill t b\<close> the tokens at the time \<open>t\<close>.
  An instant is its number of nanoseconds. The hash map of buckets is an association list. The background
  cleanup repeats \<open>cleanup\<close>; the concurrency limiter only passes its calls on and is left out.
\<close>

section \<open>Buckets\<close>

record 'b bucket_ops =
  bk_new :: "u64 \<Rightarrow> u64 \<Rightarrow> int \<Rightarrow> 'b"
  bk_allow :: "u64 \<Rightarrow> int \<Rightarrow> 'b \<Rightarrow> (string + bool) \<times> 'b"
  bk_tokens :: "'b \<Rightarrow> u64"

definition amount :: "u32 \<Rightarrow> rat" where
  "amount w = of_nat (unat w)"

definition per_second :: "u32 \<Rightarrow> int \<Rightarrow> rat" where
  "per_second rate ns = amount rate * of_int ns / 10 ^ 9"

locale token_bucket =
  fixes ops :: "'b bucket_ops" and fill :: "int \<Rightarrow> 'b \<Rightarrow> rat" and bucket_ok :: "u32 \<Rightarrow> u32 \<Rightarrow> 'b \<Rightarrow> bool"
  assumes new_law: "bucket_ok cap rate (bk_new ops (ucast cap) (ucast rate) t)"
    and fill_law: "bucket_ok cap rate b \<Longrightarrow> 0 \<le> fill t b \<and> fill t b \<le> amount cap"
    and refill_law: "bucket_ok cap rate b \<Longrightarrow> t \<le> t' \<Longrightarrow> fill t' b \<le> fill t b + per_second rate (t' - t)"
    and allow_law: "bucket_ok cap rate b \<Longrightarrow> bk_allow ops 1 t b = (r, b') \<Longrightarrow>
      bucket_ok cap rate b' \<and> fill t b' \<le> fill t b \<and> (r = Inr True \<longrightarrow> fill t b' \<le> fill t b - 1)"

record 'b internal_rate_limiter =
  il_limiter :: 'b
  il_rate :: u32
  il_capacity :: u32
  il_last_accessed :: int

record rate_limit_result =
  rr_allowed :: bool
  rr_remaining :: u64
  rr_limit :: u32
  rr_retry_after :: "u64 option"

record rate_limit_status =
  rs_remaining :: u64
  rs_limit :: u32
  rs_rate :: u32

definition internal_new :: "'b bucket_ops \<Rightarrow> u32 \<Rightarrow> u32 \<Rightarrow> int \<Rightarrow> 'b internal_rate_limiter" where
  "internal_new ops rate capacity now =
     \<lparr>il_limiter = bk_new ops (ucast capacity) (ucast rate) now, il_rate = rate, il_capacity = capacity,
      il_last_accessed = now\<rparr>"

definition internal_touch :: "int \<Rightarrow> 'b internal_rate_limiter \<Rightarrow> 'b internal_rate_limiter" where
  "internal_touch now l = l\<lparr>il_last_accessed := now\<rparr>"

definition internal_check ::
  "'b bucket_ops \<Rightarrow> int \<Rightarrow> 'b internal_rate_limiter \<Rightarrow>
   (string + rate_limit_result) \<times> 'b internal_rate_limiter" where
  "internal_check ops now l =
     (let l1 = internal_touch now l in
      case bk_allow ops 1 now (il_limiter l1) of
        (Inl e, b) \<Rightarrow> (Inl e, l1\<lparr>il_limiter := b\<rparr>)
      | (Inr allowed, b) \<Rightarrow>
          (Inr \<lparr>rr_allowed = allowed, rr_remaining = bk_tokens ops b, rr_limit = il_capacity l1,
                rr_retry_after = (if allowed then None else Some 1)\<rparr>, l1\<lparr>il_limiter := b\<rparr>))"

section \<open>The limiter\<close>

record 'b rate_limiter =
  rl_limiters :: "(string \<times> 'b internal_rate_limiter) list"
  rl_defaults :: "u32 \<times> u32"
  rl_cleanup_interval :: int

record rate_limiter_memory_stats =
  st_active_limiters :: nat
  st_default_rps :: u32
  st_default_burst :: u32

definition rate_limiter_new :: "u32 \<Rightarrow> u32 \<Rightarrow> 'b rate_limiter" where
  "rate_limiter_new rps burst =
     \<lparr>rl_limiters = [], rl_defaults = (rps, burst), rl_cleanup_interval = 300 * 10 ^ 9\<rparr>"

definition get_or_create ::
  "'b bucket_ops \<Rightarrow> string \<Rightarrow> u32 \<Rightarrow> u32 \<Rightarrow> int \<Rightarrow> 'b rate_limiter \<Rightarrow> 'b internal_rate_limiter" where
  "get_or_create ops key rate capacity now rl =
     (case map_of (rl_limiters rl) key of Some l \<Rightarrow> l | None \<Rightarrow> internal_new ops rate capacity now)"

definition check_rate_limit ::
  "'b bucket_ops \<Rightarrow> int \<Rightarrow> string \<Rightarrow> u32 option \<Rightarrow> u32 option \<Rightarrow> 'b rate_limiter \<Rightarrow>
   rate_limit_result \<times> 'b rate_limiter" where
  "check_rate_limit ops now key custom_rate custom_burst rl =
     (case rl_defaults rl of (rps, burst) \<Rightarrow>
        let (rate, capacity) =
              (if custom_rate \<noteq> None \<or> custom_burst \<noteq> None
               then (unwrap_or custom_rate rps, unwrap_or custom_burst burst)
               else (rps, burst))
        in case internal_check ops now (get_or_create ops key rate capacity now rl) of
          (x, l) \<Rightarrow>
            ((case x of
                Inr r \<Rightarrow> r
              | Inl _ \<Rightarrow> \<lparr>rr_allowed = True, rr_remaining = ucast burst, rr_limit = burst,
                          rr_retry_after = None\<rparr>),
             rl\<lparr>rl_limiters := AList.update key l (rl_limiters rl)\<rparr>))"

definition get_usage :: "'b bucket_ops \<Rightarrow> string \<Rightarrow> 'b rate_limiter \<Rightarrow> rate_limit_status option" where
  "get_usage ops key rl =
     map_option (\<lambda>l. \<lparr>rs_remaining = bk_tokens ops (il_limiter l), rs_limit = il_capacity l, rs_rate = il_rate l\<rparr>)
       (map_of (rl_limiters rl) key)"

definition bucket_count :: "'b rate_limiter \<Rightarrow> nat" where
  "bucket_count rl = length (rl_limiters rl)"

definition keys_to_remove :: "int \<Rightarrow> int \<Rightarrow> 'b rate_limiter \<Rightarrow> string list" where
  "keys_to_remove now max_idle rl =
     map fst (filter (\<lambda>(k, l). now - il_last_accessed l > max_idle) (rl_limiters rl))"

definition cleanup :: "int \<Rightarrow> int \<Rightarrow> 'b rate_limiter \<Rightarrow> nat \<times> 'b rate_limiter" where
  "cleanup now max_idle rl =
     (let ks = keys_to_remove now max_idle rl
      in (length ks, rl\<lparr>rl_limiters := fold AList.delete ks (rl_limiters rl)\<rparr>))"

text \<open>\<open>start_cleanup\<close> stores its interval; its task then removes the idle buckets at every tick.\<close>

definition start_cleanup :: "int \<Rightarrow> 'b rate_limiter \<Rightarrow> 'b rate_limiter" where
  "start_cleanup interval rl = rl\<lparr>rl_cleanup_interval := interval\<rparr>"

definition cleanup_task :: "int \<Rightarrow> int list \<Rightarrow> 'b rate_limiter \<Rightarrow> 'b rate_limiter" where
  "cleanup_task max_idle ticks rl = fold (\<lambda>now. snd \<circ> cleanup now max_idle) ticks rl"

definition memory_stats :: "'b rate_limiter \<Rightarrow> rate_limiter_memory_stats" where
  "memory_stats rl =
     \<lparr>st_active_limiters = length (rl_limiters rl), st_default_rps = fst (rl_defaults rl),
      st_default_burst = snd (rl_defaults rl)\<rparr>"

definition update_defaults :: "u32 \<Rightarrow> u32 \<Rightarrow> 'b rate_limiter \<Rightarrow> 'b rate_limiter" where
  "update_defaults rps burst rl = rl\<lparr>rl_defaults := (rps, burst)\<rparr>"

section \<open>The middleware\<close>

text \<open>
  \<open>ext\<close> is the extension of type \<open>String\<close> of the request, which stands for a workspace. The answer of a
  limited request holds when to retry; a header value of digits always parses.
\<close>

datatype 'a limited = Passed 'a | TooMany "u64 option"

definition rate_limit_key :: "string option \<Rightarrow> string option \<Rightarrow> string" where
  "rate_limit_key workspace_id client_ip = unwrap_or workspace_id (unwrap_or client_ip ''anonymous'')"

definition rate_limit_middleware ::
  "'b bucket_ops \<Rightarrow> string list \<Rightarrow> int \<Rightarrow> string option \<Rightarrow>
   (http_request \<Rightarrow> 's \<Rightarrow> ('a \<times> response_headers) \<times> 's) \<Rightarrow> http_request \<Rightarrow> 'b rate_limiter \<times> 's \<Rightarrow>
   ('a limited \<times> response_headers) \<times> 'b rate_limiter \<times> 's" where
  "rate_limit_middleware ops trusted_proxies now ext next_layer req st =
     (case st of (rl, s) \<Rightarrow>
        case check_rate_limit ops now (rate_limit_key ext (get_client_ip req trusted_proxies)) None None rl of
          (result, rl') \<Rightarrow>
            if rr_allowed result then
              (case next_layer req s of
                 ((a, hs), s') \<Rightarrow>
                   ((Passed a,
                     set_header ''x-ratelimit-remaining'' (print_dec (unat (rr_remaining result)))
                       (set_header ''x-ratelimit-limit'' (print_dec (unat (rr_limit result))) hs)), rl', s'))
            else
              ((TooMany (rr_retry_after result),
                set_header ''retry-after'' (print_dec (unat (unwrap_or (rr_retry_after result) 1)))
                  (set_header ''x-ratelimit-limit'' (print_dec (unat (rr_limit result))) [])), rl', s))"

section \<open>How many requests pass\<close>

datatype limiter_event = Check string | Cleanup int

fun limiter_run ::
  "'b bucket_ops \<Rightarrow> (int \<times> limiter_event) list \<Rightarrow> 'b rate_limiter \<Rightarrow> (string \<times> bool) list \<times> 'b rate_limiter" where
  "limiter_run ops [] rl = ([], rl)"
| "limiter_run ops ((t, Check k) # es) rl =
     (case check_rate_limit ops t k None None rl of
        (r, rl') \<Rightarrow> (case limiter_run ops es rl' of (out, rl'') \<Rightarrow> ((k, rr_allowed r) # out, rl'')))"
| "limiter_run ops ((t, Cleanup idle) # es) rl = limiter_run ops es (snd (cleanup t idle rl))"

definition passes :: "string \<Rightarrow> (string \<times> bool) list \<Rightarrow> nat" where
  "passes k out = length (filter (\<lambda>p. p = (k, True)) out)"

text \<open>Events in the order of time, with no cleanup that takes a bucket before it would be full again.\<close>

fun timely :: "u32 \<times> u32 \<Rightarrow> int \<Rightarrow> (int \<times> limiter_event) list \<Rightarrow> bool" where
  "timely d t [] \<longleftrightarrow> True"
| "timely d t ((t', Check k) # es) \<longleftrightarrow> t \<le> t' \<and> timely d t' es"
| "timely d t ((t', Cleanup idle) # es) \<longleftrightarrow>
     t \<le> t' \<and> 0 \<le> idle \<and> amount (snd d) \<le> per_second (fst d) idle \<and> timely d t' es"

definition end_time :: "int \<Rightarrow> (int \<times> limiter_event) list \<Rightarrow> int" where
  "end_time t es = foldl (\<lambda>_ e. fst e) t es"

lemma end_time_simps [simp]: "end_time t [] = t" "end_time t ((t', e) # es) = end_time t' es"
  by (simp_all add: end_time_def)

lemma map_of_fold_delete:
  "map_of (fold AList.delete ks al) k = (if k \<in> set ks then None else map_of al k)"
  by (induction ks arbitrary: al) (auto simp: delete_conv')

lemma distinct_fold_delete: "distinct (map fst al) \<Longrightarrow> distinct (map fst (fold AList.delete ks al))"
  by (induction ks arbitrary: al) (auto simp: distinct_delete)

lemma amount_nonneg [simp]: "0 \<le> amount w"
  unfolding amount_def by (rule of_nat_0_le_iff)

lemma per_second_nonneg: "0 \<le> t \<Longrightarrow> 0 \<le> per_second rate t"
  by (simp add: per_second_def)

lemma per_second_diff: "per_second rate (t - s) = per_second rate t - per_second rate s"
  by (simp add: per_second_def diff_divide_distrib right_diff_distrib)

lemma per_second_add: "per_second rate (t + s) = per_second rate t + per_second rate s"
  by (simp add: per_second_def add_divide_distrib distrib_left)

lemma ucast_ucast_u32: "ucast (ucast (w :: u32) :: u64) = w"
  by (rule bit_word_eqI) (simp add: bit_simps)

lemma per_second_mono: "s \<le> t \<Longrightarrow> per_second rate s \<le> per_second rate t"
  by (simp add: per_second_def divide_right_mono mult_left_mono)

context token_bucket
begin

text \<open>What a key has left: all of the capacity, or what its bucket can hold by now.\<close>

definition room :: "u32 \<times> u32 \<Rightarrow> int \<Rightarrow> 'b rate_limiter \<Rightarrow> string \<Rightarrow> rat" where
  "room d t rl k =
     (case map_of (rl_limiters rl) k of
        None \<Rightarrow> amount (snd d)
      | Some l \<Rightarrow> min (amount (snd d))
          (fill (il_last_accessed l) (il_limiter l) + per_second (fst d) (t - il_last_accessed l)))"

definition limiter_ok :: "u32 \<times> u32 \<Rightarrow> int \<Rightarrow> 'b rate_limiter \<Rightarrow> bool" where
  "limiter_ok d t rl \<longleftrightarrow>
     rl_defaults rl = d \<and> distinct (map fst (rl_limiters rl)) \<and>
     (\<forall>k l. map_of (rl_limiters rl) k = Some l \<longrightarrow>
        bucket_ok (snd d) (fst d) (il_limiter l) \<and> il_last_accessed l \<le> t)"

lemma room_later: "t \<le> t' \<Longrightarrow> room d t' rl k \<le> room d t rl k + per_second (fst d) (t' - t)"
  using per_second_mono [of 0 "t' - t" "fst d"]
  by (auto simp: room_def per_second_diff per_second_def [of _ 0] split: option.splits)

lemma limiter_ok_later: "limiter_ok d t rl \<Longrightarrow> t \<le> t' \<Longrightarrow> limiter_ok d t' rl"
  unfolding limiter_ok_def using order_trans by blast

lemma room_le: "room d t rl k \<le> amount (snd d)"
  by (simp add: room_def split: option.splits)

lemma room_ge:
  assumes "limiter_ok d t rl"
  shows "0 \<le> room d t rl k"
proof (cases "map_of (rl_limiters rl) k")
  case (Some l)
  hence "bucket_ok (snd d) (fst d) (il_limiter l)" and "il_last_accessed l \<le> t"
    using assms by (auto simp: limiter_ok_def)
  thus ?thesis
    using Some fill_law [of "snd d" "fst d" "il_limiter l" "il_last_accessed l"]
      per_second_mono [of 0 "t - il_last_accessed l" "fst d"]
    by (auto simp: room_def per_second_def [of _ 0])
qed (simp add: room_def)

text \<open>What the bucket of a key holds when it is asked is within the room of the key.\<close>

lemma fill_room:
  assumes "limiter_ok d t rl"
    and "l = get_or_create ops k (fst d) (snd d) t rl"
  shows "bucket_ok (snd d) (fst d) (il_limiter l) \<and> fill t (il_limiter l) \<le> room d t rl k"
proof (cases "map_of (rl_limiters rl) k")
  case None
  thus ?thesis
    using assms new_law fill_law [OF new_law] by (auto simp: get_or_create_def internal_new_def room_def)
next
  case (Some m)
  hence "bucket_ok (snd d) (fst d) (il_limiter m)" and "il_last_accessed m \<le> t"
    using assms by (auto simp: limiter_ok_def)
  thus ?thesis
    using assms(2) Some fill_law [of "snd d" "fst d" "il_limiter m" t]
      refill_law [of "snd d" "fst d" "il_limiter m" "il_last_accessed m" t]
    by (auto simp: get_or_create_def room_def)
qed

lemma check_room:
  assumes ok: "limiter_ok d t rl"
    and run: "check_rate_limit ops t k None None rl = (r, rl')"
    and up: "\<And>u b. \<not> isl (fst (bk_allow ops 1 u b))"
  shows "limiter_ok d t rl'"
    and "room d t rl' j \<le> room d t rl j - (if j = k \<and> rr_allowed r then 1 else 0)"
proof -
  define l where "l = get_or_create ops k (fst d) (snd d) t rl"
  obtain a b where ask: "bk_allow ops 1 t (il_limiter l) = (Inr a, b)"
    using up [of t "il_limiter l"] by (cases "bk_allow ops 1 t (il_limiter l)"; cases "fst (bk_allow ops 1 t (il_limiter l))") auto
  have d: "rl_defaults rl = d"
    using ok by (simp add: limiter_ok_def)
  have r: "rr_allowed r = a"
    and rl': "rl' = rl\<lparr>rl_limiters := AList.update k (l\<lparr>il_last_accessed := t, il_limiter := b\<rparr>) (rl_limiters rl)\<rparr>"
    using run ask d
    by (auto simp: check_rate_limit_def internal_check_def internal_touch_def l_def Let_def split: prod.splits)
  have b: "bucket_ok (snd d) (fst d) b" "fill t b \<le> fill t (il_limiter l)" "a \<Longrightarrow> fill t b \<le> fill t (il_limiter l) - 1"
    using allow_law [OF _ ask] fill_room [OF ok l_def] by auto
  show "limiter_ok d t rl'"
    using ok b(1) by (auto simp: limiter_ok_def rl' update_conv' distinct_update split: if_splits)
  show "room d t rl' j \<le> room d t rl j - (if j = k \<and> rr_allowed r then 1 else 0)"
  proof (cases "j = k")
    case True
    have "room d t rl' k \<le> fill t b"
      by (simp add: room_def rl' update_conv' per_second_def)
    thus ?thesis
      using True b(2,3) fill_room [OF ok l_def] r by (auto split: if_splits)
  next
    case False
    thus ?thesis
      by (simp add: room_def rl' update_conv')
  qed
qed

lemma cleanup_room:
  assumes ok: "limiter_ok d t rl"
    and "0 \<le> idle" and full: "amount (snd d) \<le> per_second (fst d) idle"
  shows "limiter_ok d t (snd (cleanup t idle rl))"
    and "room d t (snd (cleanup t idle rl)) j = room d t rl j"
proof -
  let ?ks = "keys_to_remove t idle rl" and ?rl = "snd (cleanup t idle rl)"
  have al: "rl_limiters ?rl = fold AList.delete ?ks (rl_limiters rl)" "rl_defaults ?rl = rl_defaults rl"
    by (simp_all add: cleanup_def Let_def)
  show "limiter_ok d t ?rl"
    using ok by (auto simp: limiter_ok_def al map_of_fold_delete distinct_fold_delete split: if_splits)
  show "room d t ?rl j = room d t rl j"
  proof (cases "j \<in> set ?ks")
    case True
    then obtain l where l: "(j, l) \<in> set (rl_limiters rl)" "idle < t - il_last_accessed l"
      by (auto simp: keys_to_remove_def)
    hence j: "map_of (rl_limiters rl) j = Some l"
      using ok by (simp add: limiter_ok_def)
    hence "bucket_ok (snd d) (fst d) (il_limiter l)"
      using ok by (auto simp: limiter_ok_def)
    hence "0 \<le> fill (il_last_accessed l) (il_limiter l)"
      using fill_law by blast
    thus ?thesis
      using True j full per_second_mono [of idle "t - il_last_accessed l" "fst d"] l(2)
      by (auto simp: room_def al map_of_fold_delete)
  next
    case False
    thus ?thesis
      by (simp add: room_def al map_of_fold_delete)
  qed
qed

lemma run_room:
  assumes "limiter_ok d t rl" and "timely d t es" and up: "\<And>u b. \<not> isl (fst (bk_allow ops 1 u b))"
  shows "of_nat (passes k (fst (limiter_run ops es rl))) \<le> room d t rl k + per_second (fst d) (end_time t es - t)"
  using assms(1,2)
proof (induction es arbitrary: t rl)
  case Nil
  thus ?case
    using room_ge by (simp add: passes_def per_second_def)
next
  case (Cons e es)
  obtain t' ev where e: "e = (t', ev)"
    by fastforce
  have le: "t \<le> t'" and rest: "timely d t' es"
    using Cons.prems(2) e by (cases ev; simp)+
  have ok: "limiter_ok d t' rl" and later: "room d t' rl k \<le> room d t rl k + per_second (fst d) (t' - t)"
    using limiter_ok_later [OF Cons.prems(1) le] room_later [OF le] by blast+
  show ?case
  proof (cases ev)
    case (Check j)
    obtain r rl' where run: "check_rate_limit ops t' j None None rl = (r, rl')"
      by fastforce
    note IH = Cons.IH [OF check_room(1) [OF ok run up] rest]
    show ?thesis
      using IH later check_room(2) [OF ok run up, of k]
      by (auto simp: e Check run passes_def per_second_diff split: prod.splits if_splits)
  next
    case (Cleanup idle)
    hence idle: "0 \<le> idle" "amount (snd d) \<le> per_second (fst d) idle"
      using Cons.prems(2) e by auto
    show ?thesis
      using Cons.IH [OF cleanup_room(1) [OF ok idle] rest] cleanup_room(2) [OF ok idle, of k] later
      by (simp add: e Cleanup per_second_diff)
  qed
qed

end

section \<open>A bucket\<close>

text \<open>A bucket that keeps its tokens as a rational number, and refills when it is asked.\<close>

record exact_bucket =
  eb_cap :: u32
  eb_rate :: u32
  eb_tokens :: rat
  eb_last :: int

definition exact_fill :: "int \<Rightarrow> exact_bucket \<Rightarrow> rat" where
  "exact_fill t b =
     min (amount (eb_cap b)) (eb_tokens b + per_second (eb_rate b) (max 0 (t - eb_last b)))"

definition exact_ok :: "u32 \<Rightarrow> u32 \<Rightarrow> exact_bucket \<Rightarrow> bool" where
  "exact_ok cap rate b \<longleftrightarrow>
     eb_cap b = cap \<and> eb_rate b = rate \<and> 0 \<le> eb_tokens b \<and> eb_tokens b \<le> amount cap"

definition exact_allow :: "u64 \<Rightarrow> int \<Rightarrow> exact_bucket \<Rightarrow> (string + bool) \<times> exact_bucket" where
  "exact_allow n t b =
     (if of_nat (unat n) \<le> exact_fill t b
      then (Inr True, b\<lparr>eb_tokens := exact_fill t b - of_nat (unat n), eb_last := max t (eb_last b)\<rparr>)
      else (Inr False, b))"

definition exact_ops :: "exact_bucket bucket_ops" where
  "exact_ops =
     \<lparr>bk_new = (\<lambda>cap rate t. \<lparr>eb_cap = ucast cap, eb_rate = ucast rate,
                 eb_tokens = amount (ucast cap), eb_last = t\<rparr>),
      bk_allow = exact_allow, bk_tokens = (\<lambda>b. of_int (floor (eb_tokens b)))\<rparr>"

lemma exact_fill_bounds: "exact_ok cap rate b \<Longrightarrow> 0 \<le> exact_fill t b \<and> exact_fill t b \<le> amount cap"
  using per_second_nonneg [of "max 0 (t - eb_last b)" rate] by (auto simp: exact_ok_def exact_fill_def)

interpretation eb: token_bucket exact_ops exact_fill exact_ok
proof
  fix cap rate :: u32 and t
  show "exact_ok cap rate (bk_new exact_ops (ucast cap) (ucast rate) t)"
    by (simp add: exact_ok_def exact_ops_def ucast_ucast_u32)
next
  fix cap rate b t
  assume "exact_ok cap rate b"
  thus "0 \<le> exact_fill t b \<and> exact_fill t b \<le> amount cap"
    by (rule exact_fill_bounds)
next
  fix cap rate b t and t' :: int
  assume ok: "exact_ok cap rate b" and le: "t \<le> t'"
  have "max 0 (t' - eb_last b) \<le> max 0 (t - eb_last b) + (t' - t)"
    using le by simp
  from per_second_mono [OF this, of rate] show "exact_fill t' b \<le> exact_fill t b + per_second rate (t' - t)"
    using ok le per_second_mono [of 0 "t' - t" rate]
    by (auto simp: exact_fill_def exact_ok_def per_second_add min_def per_second_def [of _ 0])
next
  fix cap rate b t r b'
  assume ok: "exact_ok cap rate b" and ask: "bk_allow exact_ops 1 t b = (r, b')"
  have "exact_fill t (b\<lparr>eb_tokens := v, eb_last := max t (eb_last b)\<rparr>) = min (amount (eb_cap b)) v" for v
    by (simp add: exact_fill_def per_second_def)
  moreover have "amount 1 = 1"
    by (simp add: amount_def)
  ultimately show "exact_ok cap rate b' \<and> exact_fill t b' \<le> exact_fill t b \<and>
      (r = Inr True \<longrightarrow> exact_fill t b' \<le> exact_fill t b - 1)"
    using ask ok exact_fill_bounds [OF ok, of t]
    by (auto simp: exact_ops_def exact_allow_def exact_ok_def split: if_splits)
qed

section \<open>Properties\<close>

lemma limiter_ok_new: "token_bucket.limiter_ok bucket_ok (rps, burst) t (rate_limiter_new rps burst)"
  if "token_bucket ops fill bucket_ok"
  using that by (simp add: token_bucket.limiter_ok_def [OF that] rate_limiter_new_def)

text \<open>
  C36. Of one key's requests up to a time, at most the burst size plus what the rate refills meanwhile pass,
  whatever the other keys do and whatever idle buckets the cleanup takes, provided that a bucket's idle time
  is long enough to fill it.
\<close>

lemma passes_bounded:
  assumes "token_bucket ops fill bucket_ok" and "\<And>u b. \<not> isl (fst (bk_allow ops 1 u b))"
    and "timely (rps, burst) t es"
  shows "of_nat (passes k (fst (limiter_run ops es (rate_limiter_new rps burst)))) \<le>
    amount burst + per_second rps (end_time t es - t)"
  using token_bucket.run_room [OF assms(1) limiter_ok_new [OF assms(1)] assms(3,2), of k]
  by (simp add: token_bucket.room_def [OF assms(1)] rate_limiter_new_def)

lemma exact_allow_answers: "\<not> isl (fst (bk_allow exact_ops 1 u b))"
  by (simp add: exact_ops_def exact_allow_def)

lemma passes_bounded_witness:
  "of_nat (passes ''k'' (fst (limiter_run exact_ops
     [(0, Check ''k''), (0, Check ''k''), (0, Check ''k''), (500000000, Check ''k''), (600000000, Check ''j''),
      (2600000000, Cleanup 1500000000), (2600000000, Check ''k'')] (rate_limiter_new 2 2)))) \<le>
   amount (2 :: u32) + per_second 2 2600000000"
  using passes_bounded [OF eb.token_bucket_axioms exact_allow_answers,
      where rps = 2 and burst = 2 and t = 0 and k = "''k''" and
        es = "[(0, Check ''k''), (0, Check ''k''), (0, Check ''k''), (500000000, Check ''k''),
          (600000000, Check ''j''), (2600000000, Cleanup 1500000000), (2600000000, Check ''k'')]"]
  by (simp add: per_second_def)

lemma four_of_five_pass:
  "passes ''k'' (fst (limiter_run exact_ops
     [(0, Check ''k''), (0, Check ''k''), (0, Check ''k''), (500000000, Check ''k''), (600000000, Check ''j''),
      (2600000000, Cleanup 1500000000), (2600000000, Check ''k'')] (rate_limiter_new 2 2))) = 4"
  by code_simp

text \<open>A cleanup with a shorter idle time hands a full bucket to a key that has just emptied its own.\<close>

lemma early_cleanup_resets:
  "fst (limiter_run exact_ops
     [(0, Check ''k''), (0, Check ''k''), (1000000, Check ''k''), (2000000, Cleanup 0), (2000000, Check ''k''),
      (2000000, Check ''k'')] (rate_limiter_new 2 2)) =
   [(''k'', True), (''k'', True), (''k'', False), (''k'', True), (''k'', True)]"
  by code_simp

text \<open>A limited request does not reach the handler; a passed one does, and both change one bucket only.\<close>

lemma check_one_bucket:
  assumes "check_rate_limit ops now key cr cb rl = (r, rl')"
  shows "rl_defaults rl' = rl_defaults rl" "j \<noteq> key \<Longrightarrow> map_of (rl_limiters rl') j = map_of (rl_limiters rl) j"
    "\<not> rr_allowed r \<Longrightarrow> rr_retry_after r = Some 1"
  using assms
  by (auto simp: check_rate_limit_def internal_check_def Let_def update_conv' split: prod.splits sum.splits if_splits)

lemma middleware_limits:
  assumes "rate_limit_middleware ops proxies now ext next_layer req (rl, s) = ((ans, hs), rl', s')"
  shows "case ans of
      TooMany retry \<Rightarrow> s' = s \<and> retry = Some 1 \<and> map_of hs ''retry-after'' = Some ''1''
    | Passed a \<Rightarrow> a = fst (fst (next_layer req s)) \<and> s' = snd (next_layer req s)"
    and "map_of hs ''x-ratelimit-limit'' \<noteq> None"
    and "j \<noteq> rate_limit_key ext (get_client_ip req proxies) \<Longrightarrow>
      map_of (rl_limiters rl') j = map_of (rl_limiters rl) j"
proof -
  obtain r lim' where check:
    "check_rate_limit ops now (rate_limit_key ext (get_client_ip req proxies)) None None rl = (r, lim')"
    by fastforce
  note one = check_one_bucket [OF check]
  have "print_dec (unat (unwrap_or (Some (1 :: u64)) 1)) = ''1''"
    by code_simp
  thus "case ans of
      TooMany retry \<Rightarrow> s' = s \<and> retry = Some 1 \<and> map_of hs ''retry-after'' = Some ''1''
    | Passed a \<Rightarrow> a = fst (fst (next_layer req s)) \<and> s' = snd (next_layer req s)"
    using assms check one(3)
    by (auto simp: rate_limit_middleware_def set_header_def update_conv' split: prod.splits if_splits)
  show "map_of hs ''x-ratelimit-limit'' \<noteq> None"
    using assms check
    by (auto simp: rate_limit_middleware_def set_header_def update_conv' split: prod.splits if_splits)
  show "map_of (rl_limiters rl') j = map_of (rl_limiters rl) j"
    if "j \<noteq> rate_limit_key ext (get_client_ip req proxies)"
    using assms check one(2) [OF that]
    by (auto simp: rate_limit_middleware_def split: prod.splits if_splits)
qed

text \<open>A bucket keeps the rate and the size it was made with, whatever later calls and defaults ask.\<close>

lemma bucket_keeps_rate:
  assumes "map_of (rl_limiters rl) k = Some l"
  shows "\<exists>l'. map_of (rl_limiters (snd (check_rate_limit ops now k cr cb (update_defaults rps burst rl)))) k = Some l' \<and>
    il_rate l' = il_rate l \<and> il_capacity l' = il_capacity l"
  using assms
  by (auto simp: check_rate_limit_def update_defaults_def get_or_create_def internal_check_def
      internal_touch_def Let_def update_conv' split: prod.splits sum.splits)

text \<open>An error of the bucket lets the request pass.\<close>

lemma fails_open:
  assumes "\<And>b. fst (bk_allow ops 1 now b) = Inl e"
  shows "rr_allowed (fst (check_rate_limit ops now k cr cb rl)) \<and>
    rr_limit (fst (check_rate_limit ops now k cr cb rl)) = snd (rl_defaults rl)"
  using assms
  by (auto simp: check_rate_limit_def internal_check_def Let_def split: prod.splits sum.splits)
     (metis fst_conv sum.distinct(1))+

end
