(* ===== verification/Ip_Addr.thy ===== *)
theory Ip_Addr
  imports Types_Id
begin

text \<open>
  IP addresses as the standard library reads them: \<open>std::net::IpAddr\<close> and its \<open>FromStr\<close>, on which the audit
  log (\<open>redact_ip\<close>) and the check of webhook addresses (\<open>is_blocked_host\<close>) rest. A parser takes the text and
  returns what it has read and the rest.
\<close>

datatype ip_addr = V4 u8 u8 u8 u8 | V6 "u16 list"

type_synonym 'a parser = "string \<Rightarrow> ('a \<times> string) option"

definition is_hex_digit :: "char \<Rightarrow> bool" where
  "is_hex_digit c \<longleftrightarrow> is_digit c \<or> 97 \<le> code_of c \<and> code_of c \<le> 102 \<or> 65 \<le> code_of c \<and> code_of c \<le> 70"

definition hex_value :: "char \<Rightarrow> nat" where
  "hex_value c = (if is_digit c then code_of c - 48 else if 97 \<le> code_of c then code_of c - 87 else code_of c - 55)"

definition read_char :: "char \<Rightarrow> unit parser" where
  "read_char c s = (case s of [] \<Rightarrow> None | d # r \<Rightarrow> if d = c then Some ((), r) else None)"

text \<open>\<open>read_number\<close>: at most three decimal digits without a leading zero, or four hexadecimal ones.\<close>

definition read_octet :: "u8 parser" where
  "read_octet s =
     (let ds = takeWhile is_digit s; n = value_msf 10 (map hex_value ds) in
      if ds = [] \<or> length ds > 3 \<or> n \<ge> 256 \<or> hd ds = CHR ''0'' \<and> length ds > 1 then None
      else Some (of_nat n, drop (length ds) s))"

definition read_segment :: "u16 parser" where
  "read_segment s =
     (let ds = takeWhile is_hex_digit s in
      if ds = [] \<or> length ds > 4 then None
      else Some (of_int (foldl (\<lambda>v c. v * 16 + int (hex_value c)) 0 ds), drop (length ds) s))"

definition read_separator :: "char \<Rightarrow> nat \<Rightarrow> 'a parser \<Rightarrow> 'a parser" where
  "read_separator sep i p s =
     (if i > 0 then (case read_char sep s of None \<Rightarrow> None | Some (_, r) \<Rightarrow> p r) else p s)"

definition read_ipv4_addr :: "(u8 \<times> u8 \<times> u8 \<times> u8) parser" where
  "read_ipv4_addr s =
     (case read_octet s of None \<Rightarrow> None | Some (a, s) \<Rightarrow>
      (case read_separator CHR ''.'' 1 read_octet s of None \<Rightarrow> None | Some (b, s) \<Rightarrow>
       (case read_separator CHR ''.'' 2 read_octet s of None \<Rightarrow> None | Some (c, s) \<Rightarrow>
        (case read_separator CHR ''.'' 3 read_octet s of None \<Rightarrow> None | Some (d, s) \<Rightarrow>
         Some ((a, b, c, d), s)))))"

definition be_u16 :: "u8 \<Rightarrow> u8 \<Rightarrow> u16" where
  "be_u16 hi lo = of_int (256 * uint hi + uint lo)"

text \<open>
  \<open>read_groups\<close>: up to \<open>n\<close> groups from the index \<open>i\<close> on, the last two of which may be a dotted IPv4 address
  (then the flag holds).
\<close>

fun read_groups :: "nat \<Rightarrow> nat \<Rightarrow> string \<Rightarrow> (u16 list \<times> bool) \<times> string" where
  "read_groups i 0 s = (([], False), s)"
| "read_groups i (Suc n) s =
     (case (if n > 0 then read_separator CHR '':'' i read_ipv4_addr s else None) of
        Some ((a, b, c, d), r) \<Rightarrow> (([be_u16 a b, be_u16 c d], True), r)
      | None \<Rightarrow>
          (case read_separator CHR '':'' i read_segment s of
             None \<Rightarrow> (([], False), s)
           | Some (g, r) \<Rightarrow> (case read_groups (Suc i) n r of ((gs, v4), r') \<Rightarrow> ((g # gs, v4), r'))))"

definition read_ipv6_addr :: "u16 list parser" where
  "read_ipv6_addr s =
     (case read_groups 0 8 s of
        ((front, v4), r) \<Rightarrow>
          if length front = 8 then Some (front, r)
          else if v4 then None
          else (case read_char CHR '':'' r of None \<Rightarrow> None | Some (_, r) \<Rightarrow>
                (case read_char CHR '':'' r of None \<Rightarrow> None | Some (_, r) \<Rightarrow>
                 (case read_groups 0 (7 - length front) r of
                    ((back, _), r') \<Rightarrow>
                      Some (front @ replicate (8 - length front - length back) 0 @ back, r')))))"

definition parse_ip :: "string \<Rightarrow> ip_addr option" where
  "parse_ip s =
     (case (case read_ipv4_addr s of
              Some ((a, b, c, d), r) \<Rightarrow> Some (V4 a b c d, r)
            | None \<Rightarrow> map_option (\<lambda>(gs, r). (V6 gs, r)) (read_ipv6_addr s)) of
        Some (ip, []) \<Rightarrow> Some ip
      | _ \<Rightarrow> None)"

definition print_v4 :: "u8 \<Rightarrow> u8 \<Rightarrow> u8 \<Rightarrow> u8 \<Rightarrow> string" where
  "print_v4 a b c d =
     print_dec (unat a) @ ''.'' @ print_dec (unat b) @ ''.'' @ print_dec (unat c) @ ''.'' @ print_dec (unat d)"

lemma parse_ip_examples:
  "parse_ip ''192.168.0.1'' = Some (V4 192 168 0 1)" "parse_ip ''::1'' = Some (V6 [0, 0, 0, 0, 0, 0, 0, 1])"
  "parse_ip ''2001:db8::1'' = Some (V6 [0x2001, 0xdb8, 0, 0, 0, 0, 0, 1])"
  "parse_ip ''::ffff:10.0.0.1'' = Some (V6 [0, 0, 0, 0, 0, 0xffff, 0x0a00, 1])"
  "parse_ip ''1.2.3'' = None" "parse_ip ''01.2.3.4'' = None" "parse_ip ''1.2.3.256'' = None" "parse_ip ''[::1]'' = None"
  "parse_ip ''1:2:3:4:5:6:7:8:9'' = None" "parse_ip ''1.2.3.4:80'' = None" "parse_ip ''1::2::3'' = None"
  by code_simp+

section \<open>What the parser accepts\<close>

lemma hex_value_digit: "is_digit c \<Longrightarrow> hex_value c = digit_value c"
  by (simp add: hex_value_def digit_value_def)

lemma last_digit_nonzero: "2 \<le> b \<Longrightarrow> n \<noteq> 0 \<Longrightarrow> last (digits_lsf b n) \<noteq> 0"
proof (induction b n rule: digits_lsf.induct)
  case (1 b n)
  show ?case
  proof (cases "n div b = 0")
    case True
    thus ?thesis
      using 1 by (simp add: digits_lsf.simps [of b n] digits_lsf.simps [of b 0] div_eq_0_iff)
  next
    case False
    thus ?thesis
      using 1 digits_lsf_Nil [of b "n div b"] by (simp add: digits_lsf.simps [of b n])
  qed
qed

lemma digit_upper_nonzero: "d < 10 \<Longrightarrow> d \<noteq> 0 \<Longrightarrow> digit_upper d \<noteq> CHR ''0''"
  using digit_value_upper [of d] digit_value_upper [of 0] by (auto simp flip: digit_upper_0)

lemma print_dec_small:
  assumes "n < 256"
  shows "length (print_dec n) \<le> 3" "n \<noteq> 0 \<Longrightarrow> hd (print_dec n) \<noteq> CHR ''0''" "n = 0 \<Longrightarrow> length (print_dec n) = 1"
proof -
  show "length (print_dec n) \<le> 3"
    using digits_lsf_length [of 10 n 3] assms by (auto simp: print_base_def)
  show "n = 0 \<Longrightarrow> length (print_dec n) = 1"
    by (simp add: print_base_def)
  assume n: "n \<noteq> 0"
  hence "digits_lsf 10 n \<noteq> []"
    by (simp add: digits_lsf_Nil)
  thus "hd (print_dec n) \<noteq> CHR ''0''"
    using n last_digit_nonzero [of 10 n] digits_lsf_bound [of 10 "last (digits_lsf 10 n)" n]
    by (simp add: print_base_def hd_rev last_map digit_upper_nonzero)
qed

lemma read_octet_print:
  assumes "r = [] \<or> \<not> is_digit (hd r)"
  shows "read_octet (print_dec (unat a) @ r) = Some (a, r)"
proof -
  let ?s = "print_dec (unat a)"
  have a: "unat a < 256"
    using unsigned_less [of a] by simp
  have ds: "takeWhile is_digit (?s @ r) = ?s"
    using print_dec_digits assms by (subst takeWhile_append2) (auto simp: takeWhile_eq_Nil_iff)
  have "map hex_value ?s = map digit_value ?s"
    using print_dec_digits hex_value_digit by (metis list.map_cong0)
  hence "value_msf 10 (map hex_value ?s) = unat a"
    using read_print_base [of 10 "unat a"] by (simp only: read_base_def)
  moreover have "\<not> (hd ?s = CHR ''0'' \<and> length ?s > 1)"
    using print_dec_small [OF a] by (cases "unat a = 0") auto
  ultimately show ?thesis
    using a print_dec_small(1) [OF a] ds by (simp add: read_octet_def Let_def linorder_not_less)
qed

lemma dot_no_digit: "\<not> is_digit CHR ''.''"
  by (simp add: is_digit_def code_of_def)

lemma parse_print_v4: "parse_ip (print_v4 a b c d) = Some (V4 a b c d)"
proof -
  have step: "read_separator CHR ''.'' i read_octet (CHR ''.'' # print_dec (unat x) @ r) = Some (x, r)"
    if "0 < i" and "r = [] \<or> \<not> is_digit (hd r)" for i x r
    using that by (simp add: read_separator_def read_char_def read_octet_print)
  show ?thesis
    using step [of 3 "[]" d]
    by (simp add: parse_ip_def read_ipv4_addr_def print_v4_def read_octet_print step dot_no_digit)
qed

end
