(* ===== verification/Audit_Log.thy ===== *)
theory Audit_Log
  imports Rate_Limit Ip_Addr "HOL-Library.Sublist"
begin

text \<open>
  The audit log: the events of \<open>src/src/core/algorithm/audit_trait.rs\<close>, the \<open>AuditLogger\<close> of
  \<open>src/src/server/audit/logger.rs\<close> (\<open>total_logged\<close>, \<open>clear\<close> and the 17 \<open>log_*\<close> helpers included) and the
  middleware of \<open>audit/middleware.rs\<close>.

  The logger's state holds the counter behind the identifiers, which the code has as a static, the queue of
  commands to the writer task and the lines of its file. A turn of the writer takes one command and is told
  whether the file could be opened and written: a refused write leaves the file as it was. The counters
  \<open>total_logged\<close> and \<open>total_errors\<close> are \<open>u64\<close>. An instant is its number of nanoseconds since the epoch;
  the printing of a timestamp is the \<open>chrono\<close> crate's and a parameter. \<open>tracing\<close> output is left out.
\<close>

section \<open>Events\<close>

datatype audit_event_type =
  IdGeneration | BatchGeneration | Authentication | ConfigChange | DegradationEvent | RateLimitExceeded
| HealthCheck | MetricsAccess | WorkspaceCreated | WorkspaceUpdated | WorkspaceDeleted | GroupCreated
| GroupUpdated | GroupDeleted | BizTagCreated | BizTagUpdated | BizTagDeleted | ApiKeyCreated | ApiKeyUpdated
| ApiKeyDeleted | ApiKeyRegenerated

datatype audit_result = AuditSuccess | AuditFailure | AuditPartial | AuditUnknown

text \<open>A \<open>serde_json::Value\<close>; a number is its printed text.\<close>

datatype json =
  JNull | JBool bool | JNumber string | JString string | JArray "json list" | JObject "(string \<times> json) list"

record core_audit_event =
  ce_event_type :: audit_event_type
  ce_workspace_id :: "string option"
  ce_action :: string
  ce_resource :: string
  ce_result :: audit_result
  ce_details :: "json option"
  ce_timestamp :: int

definition core_event_new ::
  "int \<Rightarrow> audit_event_type \<Rightarrow> string option \<Rightarrow> string \<Rightarrow> string \<Rightarrow> audit_result \<Rightarrow> core_audit_event" where
  "core_event_new now ty ws action resource r =
     \<lparr>ce_event_type = ty, ce_workspace_id = ws, ce_action = action, ce_resource = resource, ce_result = r,
      ce_details = None, ce_timestamp = now\<rparr>"

definition core_with_details :: "json \<Rightarrow> core_audit_event \<Rightarrow> core_audit_event" where
  "core_with_details d e = e\<lparr>ce_details := Some d\<rparr>"

record audit_event =
  ev_id :: u64
  ev_timestamp :: int
  ev_event_type :: audit_event_type
  ev_workspace_id :: "string option"
  ev_user_id :: "string option"
  ev_action :: string
  ev_resource :: string
  ev_result :: audit_result
  ev_details :: "json option"
  ev_client_ip :: "string option"
  ev_user_agent :: "string option"
  ev_duration_ms :: u64
  ev_error_message :: "string option"

definition next_audit_event_id :: "int \<Rightarrow> u64 \<Rightarrow> u64 \<times> u64" where
  "next_audit_event_id now counter =
     (let unix_ms = (of_int (now div 10 ^ 6) :: u64); c = counter AND 0xFFFFF
      in (shl unix_ms 20 OR c, counter + 1))"

definition audit_with_details :: "json \<Rightarrow> audit_event \<Rightarrow> audit_event" where
  "audit_with_details d e = e\<lparr>ev_details := Some d\<rparr>"

definition with_client_ip :: "string \<Rightarrow> audit_event \<Rightarrow> audit_event" where
  "with_client_ip ip e = e\<lparr>ev_client_ip := Some ip\<rparr>"

definition with_user_agent :: "string \<Rightarrow> audit_event \<Rightarrow> audit_event" where
  "with_user_agent ua e = e\<lparr>ev_user_agent := Some ua\<rparr>"

definition with_user_id :: "string \<Rightarrow> audit_event \<Rightarrow> audit_event" where
  "with_user_id u e = e\<lparr>ev_user_id := Some u\<rparr>"

definition with_duration :: "u64 \<Rightarrow> audit_event \<Rightarrow> audit_event" where
  "with_duration ms e = e\<lparr>ev_duration_ms := ms\<rparr>"

definition with_error :: "string \<Rightarrow> audit_event \<Rightarrow> audit_event" where
  "with_error err e = e\<lparr>ev_error_message := Some err\<rparr>"

section \<open>Redaction\<close>

text \<open>A \<open>char\<close> of a UTF-8 text is its first byte and the continuation bytes after it.\<close>

definition is_continuation :: "char \<Rightarrow> bool" where
  "is_continuation c \<longleftrightarrow> 128 \<le> code_of c \<and> code_of c < 192"

fun chars_of :: "string \<Rightarrow> string list" where
  "chars_of [] = []"
| "chars_of (c # s) =
     (case chars_of s of
        (d # ds) # r \<Rightarrow> if is_continuation d then (c # d # ds) # r else [c] # (d # ds) # r
      | r \<Rightarrow> [c] # r)"

definition print_lower_hex :: "u16 \<Rightarrow> string" where
  "print_lower_hex w = to_lowercase (print_base 16 (unat w))"

definition redact_ip :: "string \<Rightarrow> string" where
  "redact_ip ip =
     (case parse_ip ip of
        Some (V4 a b c d) \<Rightarrow>
          print_dec (unat a) @ ''.'' @ print_dec (unat b) @ ''.'' @ print_dec (unat c) @ ''.x''
      | Some (V6 segs) \<Rightarrow>
          print_lower_hex (segs ! 0) @ '':'' @ print_lower_hex (segs ! 1) @ '':'' @ print_lower_hex (segs ! 2) @
          '':'' @ print_lower_hex (segs ! 3) @ '':x:x:x:x''
      | None \<Rightarrow>
          let prefix = concat (take 8 (chars_of ip))
          in if length ip > 8 then prefix @ ''...redacted'' else prefix)"

section \<open>The logger\<close>

datatype audit_command = EventCmd audit_event | FlushCmd

record audit_logger =
  lg_events :: "audit_event list"
  lg_max :: nat
  lg_logged :: u64
  lg_errors :: u64
  lg_queue :: "audit_command list option"
  lg_open :: bool
  lg_counter :: u64
  lg_file :: "json list"
  lg_synced :: nat

definition audit_logger_new :: "nat \<Rightarrow> audit_logger" where
  "audit_logger_new max_events =
     \<lparr>lg_events = [], lg_max = max_events, lg_logged = 0, lg_errors = 0, lg_queue = None, lg_open = True,
      lg_counter = 0, lg_file = [], lg_synced = 0\<rparr>"

text \<open>The components of a path are the parts between its slashes; a parent component is the part \<open>..\<close>.\<close>

definition validate_log_path :: "string \<Rightarrow> string + unit" where
  "validate_log_path path =
     (if trim path = [] then Inl ''audit log path is empty''
      else if ''..'' \<in> set (split_on CHR ''/'' path)
      then Inl (''audit log path contains '' @ [CHR 0x27] @ ''..'' @ [CHR 0x27] @
                '' component (path traversal risk): '' @ path)
      else Inr ())"

definition with_file_logging :: "nat \<Rightarrow> string \<Rightarrow> audit_logger" where
  "with_file_logging max_events path =
     (case validate_log_path path of
        Inl e \<Rightarrow> audit_logger_new max_events
      | Inr u \<Rightarrow> (audit_logger_new max_events)\<lparr>lg_queue := Some []\<rparr>)"

text \<open>\<open>log\<close> of the code: the oldest events make room, then the event is kept and sent to the writer.\<close>

definition push_event :: "audit_event \<Rightarrow> audit_logger \<Rightarrow> audit_logger" where
  "push_event ev lg =
     (let dropped_count = (if length (lg_events lg) \<ge> lg_max lg then length (lg_events lg) - lg_max lg + 1 else 0);
          dropped = take dropped_count (lg_events lg)
      in lg\<lparr>lg_events := drop dropped_count (lg_events lg) @ [ev],
            lg_errors := lg_errors lg + (if lg_queue lg = None then of_nat (length dropped) else 0),
            lg_logged := lg_logged lg + 1\<rparr>)"

definition audit_log :: "audit_event \<Rightarrow> audit_logger \<Rightarrow> audit_logger" where
  "audit_log ev lg =
     (let lg1 = push_event ev lg in
      case lg_queue lg1 of
        None \<Rightarrow> lg1
      | Some q \<Rightarrow>
          if lg_open lg1 then lg1\<lparr>lg_queue := Some (q @ [EventCmd ev])\<rparr>
          else lg1\<lparr>lg_errors := lg_errors lg1 + 1\<rparr>)"

definition json_option :: "string option \<Rightarrow> json" where
  "json_option x = (case x of None \<Rightarrow> JNull | Some s \<Rightarrow> JString s)"

definition event_type_name :: "audit_event_type \<Rightarrow> string" where
  "event_type_name ty =
     (case ty of
        IdGeneration \<Rightarrow> ''IdGeneration'' | BatchGeneration \<Rightarrow> ''BatchGeneration''
      | Authentication \<Rightarrow> ''Authentication'' | ConfigChange \<Rightarrow> ''ConfigChange''
      | DegradationEvent \<Rightarrow> ''DegradationEvent'' | RateLimitExceeded \<Rightarrow> ''RateLimitExceeded''
      | HealthCheck \<Rightarrow> ''HealthCheck'' | MetricsAccess \<Rightarrow> ''MetricsAccess''
      | WorkspaceCreated \<Rightarrow> ''WorkspaceCreated'' | WorkspaceUpdated \<Rightarrow> ''WorkspaceUpdated''
      | WorkspaceDeleted \<Rightarrow> ''WorkspaceDeleted'' | GroupCreated \<Rightarrow> ''GroupCreated''
      | GroupUpdated \<Rightarrow> ''GroupUpdated'' | GroupDeleted \<Rightarrow> ''GroupDeleted'' | BizTagCreated \<Rightarrow> ''BizTagCreated''
      | BizTagUpdated \<Rightarrow> ''BizTagUpdated'' | BizTagDeleted \<Rightarrow> ''BizTagDeleted'' | ApiKeyCreated \<Rightarrow> ''ApiKeyCreated''
      | ApiKeyUpdated \<Rightarrow> ''ApiKeyUpdated'' | ApiKeyDeleted \<Rightarrow> ''ApiKeyDeleted''
      | ApiKeyRegenerated \<Rightarrow> ''ApiKeyRegenerated'')"

definition audit_result_name :: "audit_result \<Rightarrow> string" where
  "audit_result_name r =
     (case r of AuditSuccess \<Rightarrow> ''Success'' | AuditFailure \<Rightarrow> ''Failure'' | AuditPartial \<Rightarrow> ''Partial''
      | AuditUnknown \<Rightarrow> ''Unknown'')"

definition log_line :: "(int \<Rightarrow> string) \<Rightarrow> audit_event \<Rightarrow> json" where
  "log_line rfc3339 ev =
     JObject
       [(''id'', JNumber (print_dec (unat (ev_id ev)))),
        (''timestamp'', JString (rfc3339 (ev_timestamp ev))),
        (''event_type'', JString (event_type_name (ev_event_type ev))),
        (''workspace_id'', json_option (ev_workspace_id ev)),
        (''user_id'', json_option (ev_user_id ev)),
        (''action'', JString (ev_action ev)),
        (''resource'', JString (ev_resource ev)),
        (''result'', JString (audit_result_name (ev_result ev))),
        (''details'', (case ev_details ev of None \<Rightarrow> JNull | Some d \<Rightarrow> d)),
        (''client_ip'', json_option (map_option redact_ip (ev_client_ip ev))),
        (''user_agent'', json_option (map_option (\<lambda>_. ''UA(redacted)'') (ev_user_agent ev))),
        (''duration_ms'', JNumber (print_dec (unat (ev_duration_ms ev)))),
        (''error_message'', json_option (ev_error_message ev))]"

definition write_event_to_file :: "(int \<Rightarrow> string) \<Rightarrow> bool \<Rightarrow> audit_event \<Rightarrow> audit_logger \<Rightarrow> audit_logger" where
  "write_event_to_file rfc3339 io_ok ev lg =
     (if io_ok then lg\<lparr>lg_file := lg_file lg @ [log_line rfc3339 ev]\<rparr>
      else lg\<lparr>lg_errors := lg_errors lg + 1\<rparr>)"

definition sync_file :: "bool \<Rightarrow> audit_logger \<Rightarrow> audit_logger" where
  "sync_file io_ok lg =
     (if io_ok then lg\<lparr>lg_synced := length (lg_file lg)\<rparr> else lg\<lparr>lg_errors := lg_errors lg + 1\<rparr>)"

definition writer_turn :: "(int \<Rightarrow> string) \<Rightarrow> bool \<Rightarrow> audit_logger \<Rightarrow> audit_logger" where
  "writer_turn rfc3339 io_ok lg =
     (case lg_queue lg of
        None \<Rightarrow> lg
      | Some [] \<Rightarrow> lg
      | Some (cmd # q) \<Rightarrow>
          let lg1 = lg\<lparr>lg_queue := Some q\<rparr> in
          case cmd of
            EventCmd ev \<Rightarrow> write_event_to_file rfc3339 io_ok ev lg1
          | FlushCmd \<Rightarrow> sync_file io_ok lg1)"

text \<open>\<open>flush\<close> sends its command; it then waits for the writer to reach it.\<close>

definition flush_send :: "audit_logger \<Rightarrow> audit_logger" where
  "flush_send lg =
     (case lg_queue lg of
        None \<Rightarrow> lg
      | Some q \<Rightarrow> if lg_open lg then lg\<lparr>lg_queue := Some (q @ [FlushCmd])\<rparr> else lg)"

definition flush :: "(int \<Rightarrow> string) \<Rightarrow> bool list \<Rightarrow> audit_logger \<Rightarrow> audit_logger" where
  "flush rfc3339 outcomes lg = fold (writer_turn rfc3339) outcomes (flush_send lg)"

definition get_recent_events :: "nat \<Rightarrow> audit_logger \<Rightarrow> audit_event list" where
  "get_recent_events limit lg = take limit (rev (lg_events lg))"

definition get_events_by_workspace :: "string \<Rightarrow> audit_logger \<Rightarrow> audit_event list" where
  "get_events_by_workspace ws lg = filter (\<lambda>e. ev_workspace_id e = Some ws) (lg_events lg)"

definition get_events_by_type :: "audit_event_type \<Rightarrow> audit_logger \<Rightarrow> audit_event list" where
  "get_events_by_type ty lg = filter (\<lambda>e. ev_event_type e = ty) (lg_events lg)"

definition clear_events :: "audit_logger \<Rightarrow> audit_logger" where
  "clear_events lg = lg\<lparr>lg_events := []\<rparr>"

section \<open>The events of the operations\<close>

definition audit_event_new ::
  "int \<Rightarrow> audit_event_type \<Rightarrow> string option \<Rightarrow> string \<Rightarrow> string \<Rightarrow> audit_result \<Rightarrow> audit_logger \<Rightarrow>
   audit_event \<times> audit_logger" where
  "audit_event_new now ty ws action resource r lg =
     (case next_audit_event_id now (lg_counter lg) of
        (i, c) \<Rightarrow>
          (\<lparr>ev_id = i, ev_timestamp = now, ev_event_type = ty, ev_workspace_id = ws, ev_user_id = None,
            ev_action = action, ev_resource = resource, ev_result = r, ev_details = None, ev_client_ip = None,
            ev_user_agent = None, ev_duration_ms = 0, ev_error_message = None\<rparr>, lg\<lparr>lg_counter := c\<rparr>))"

text \<open>Every helper makes an event, fills in more fields and logs it.\<close>

definition log_event ::
  "int \<Rightarrow> audit_event_type \<Rightarrow> string option \<Rightarrow> string \<Rightarrow> string \<Rightarrow> audit_result \<Rightarrow>
   (audit_event \<Rightarrow> audit_event) \<Rightarrow> audit_logger \<Rightarrow> audit_logger" where
  "log_event now ty ws action resource r f lg =
     (case audit_event_new now ty ws action resource r lg of (ev, lg1) \<Rightarrow> audit_log (f ev) lg1)"

definition or_default :: "string option \<Rightarrow> string" where
  "or_default x = unwrap_or x []"

definition result_of :: "bool \<Rightarrow> audit_result" where
  "result_of success = (if success then AuditSuccess else AuditFailure)"

definition with_error_option :: "string option \<Rightarrow> audit_event \<Rightarrow> audit_event" where
  "with_error_option err ev = (case err of Some e \<Rightarrow> with_error e ev | None \<Rightarrow> ev)"

definition log_id_generation ::
  "int \<Rightarrow> string \<Rightarrow> string \<Rightarrow> string \<Rightarrow> string \<Rightarrow> string option \<Rightarrow> u64 \<Rightarrow> bool \<Rightarrow> string option \<Rightarrow>
   audit_logger \<Rightarrow> audit_logger" where
  "log_id_generation now ws biz_tag gen_id algorithm client_ip duration_ms success err =
     log_event now IdGeneration (Some ws) ''generate_id'' (''biz_tag:'' @ biz_tag) (result_of success)
       (with_error_option err \<circ> with_duration duration_ms \<circ> with_client_ip (or_default client_ip) \<circ>
        audit_with_details (JObject [(''generated_id'', JString gen_id), (''algorithm'', JString algorithm)]))"

definition log_batch_generation ::
  "int \<Rightarrow> string \<Rightarrow> string \<Rightarrow> nat \<Rightarrow> string option \<Rightarrow> u64 \<Rightarrow> bool \<Rightarrow> string option \<Rightarrow>
   audit_logger \<Rightarrow> audit_logger" where
  "log_batch_generation now ws biz_tag n client_ip duration_ms success err =
     log_event now BatchGeneration (Some ws) ''batch_generate_ids''
       (''biz_tag:'' @ biz_tag @ '' size:'' @ print_dec n) (result_of success)
       (with_error_option err \<circ> with_duration duration_ms \<circ> with_client_ip (or_default client_ip) \<circ>
        audit_with_details (JObject [(''batch_size'', JNumber (print_dec n)), (''biz_tag'', JString biz_tag)]))"

definition log_auth_event ::
  "int \<Rightarrow> string option \<Rightarrow> string \<Rightarrow> bool \<Rightarrow> string option \<Rightarrow> string option \<Rightarrow> audit_logger \<Rightarrow> audit_logger" where
  "log_auth_event now ws action success client_ip err =
     log_event now Authentication ws action ''authentication'' (result_of success)
       (with_error_option err \<circ> with_client_ip (or_default client_ip))"

definition log_config_change ::
  "int \<Rightarrow> string option \<Rightarrow> string \<Rightarrow> string \<Rightarrow> json \<Rightarrow> audit_logger \<Rightarrow> audit_logger" where
  "log_config_change now ws action config_type details =
     log_event now ConfigChange ws action (''config:'' @ config_type) AuditSuccess (audit_with_details details)"

definition degradation_details :: "string \<Rightarrow> string \<Rightarrow> string \<Rightarrow> json \<Rightarrow> json" where
  "degradation_details previous_state current_state algorithm_type details =
     JObject [(''previous_state'', JString previous_state), (''current_state'', JString current_state),
              (''algorithm_type'', JString algorithm_type), (''details'', details)]"

definition log_degradation_event ::
  "int \<Rightarrow> string option \<Rightarrow> string \<Rightarrow> string \<Rightarrow> string \<Rightarrow> string \<Rightarrow> json \<Rightarrow> audit_logger \<Rightarrow> audit_logger" where
  "log_degradation_event now ws action algorithm_type previous_state current_state details =
     log_event now DegradationEvent ws action (''algorithm:'' @ algorithm_type)
       (if current_state = ''Critical'' then AuditFailure else AuditPartial)
       (audit_with_details (degradation_details previous_state current_state algorithm_type details))"

definition log_rate_limit_exceeded ::
  "int \<Rightarrow> string option \<Rightarrow> string \<Rightarrow> string \<Rightarrow> audit_logger \<Rightarrow> audit_logger" where
  "log_rate_limit_exceeded now ws client_ip endpoint =
     log_event now RateLimitExceeded ws ''rate_limit_exceeded'' endpoint AuditFailure
       (with_error ''Rate limit exceeded'' \<circ> with_client_ip client_ip)"

definition by_user :: "string option \<Rightarrow> string option \<Rightarrow> audit_event \<Rightarrow> audit_event" where
  "by_user user_id client_ip = with_client_ip (or_default client_ip) \<circ> with_user_id (or_default user_id)"

definition log_workspace_created ::
  "int \<Rightarrow> string \<Rightarrow> string \<Rightarrow> string option \<Rightarrow> string option \<Rightarrow> audit_logger \<Rightarrow> audit_logger" where
  "log_workspace_created now ws workspace_name user_id client_ip =
     log_event now WorkspaceCreated (Some ws) ''create_workspace'' (''workspace:'' @ workspace_name) AuditSuccess
       (by_user user_id client_ip)"

definition log_workspace_updated ::
  "int \<Rightarrow> string \<Rightarrow> string \<Rightarrow> string option \<Rightarrow> string option \<Rightarrow> audit_logger \<Rightarrow> audit_logger" where
  "log_workspace_updated now ws workspace_name user_id client_ip =
     log_event now WorkspaceUpdated (Some ws) ''update_workspace'' (''workspace:'' @ workspace_name) AuditSuccess
       (by_user user_id client_ip)"

definition log_workspace_deleted ::
  "int \<Rightarrow> string \<Rightarrow> string \<Rightarrow> string option \<Rightarrow> string option \<Rightarrow> audit_logger \<Rightarrow> audit_logger" where
  "log_workspace_deleted now ws workspace_name user_id client_ip =
     log_event now WorkspaceDeleted (Some ws) ''delete_workspace'' (''workspace:'' @ workspace_name) AuditSuccess
       (by_user user_id client_ip)"

definition log_group_created ::
  "int \<Rightarrow> string \<Rightarrow> string \<Rightarrow> string \<Rightarrow> string option \<Rightarrow> string option \<Rightarrow> audit_logger \<Rightarrow> audit_logger" where
  "log_group_created now ws group_id group_name user_id client_ip =
     log_event now GroupCreated (Some ws) ''create_group'' (''group:'' @ group_id @ '':'' @ group_name) AuditSuccess
       (by_user user_id client_ip)"

definition log_group_updated ::
  "int \<Rightarrow> string \<Rightarrow> string \<Rightarrow> string \<Rightarrow> string option \<Rightarrow> string option \<Rightarrow> audit_logger \<Rightarrow> audit_logger" where
  "log_group_updated now ws group_id group_name user_id client_ip =
     log_event now GroupUpdated (Some ws) ''update_group'' (''group:'' @ group_id @ '':'' @ group_name) AuditSuccess
       (by_user user_id client_ip)"

definition log_group_deleted ::
  "int \<Rightarrow> string \<Rightarrow> string \<Rightarrow> string \<Rightarrow> string option \<Rightarrow> string option \<Rightarrow> audit_logger \<Rightarrow> audit_logger" where
  "log_group_deleted now ws group_id group_name user_id client_ip =
     log_event now GroupDeleted (Some ws) ''delete_group'' (''group:'' @ group_id @ '':'' @ group_name) AuditSuccess
       (by_user user_id client_ip)"

definition log_biz_tag_created ::
  "int \<Rightarrow> string \<Rightarrow> string \<Rightarrow> string \<Rightarrow> string option \<Rightarrow> string option \<Rightarrow> audit_logger \<Rightarrow> audit_logger" where
  "log_biz_tag_created now ws biz_tag_id biz_tag_name user_id client_ip =
     log_event now BizTagCreated (Some ws) ''create_biz_tag'' (''biz_tag:'' @ biz_tag_id @ '':'' @ biz_tag_name) AuditSuccess
       (by_user user_id client_ip)"

definition log_biz_tag_updated ::
  "int \<Rightarrow> string \<Rightarrow> string \<Rightarrow> string \<Rightarrow> string option \<Rightarrow> string option \<Rightarrow> audit_logger \<Rightarrow> audit_logger" where
  "log_biz_tag_updated now ws biz_tag_id biz_tag_name user_id client_ip =
     log_event now BizTagUpdated (Some ws) ''update_biz_tag'' (''biz_tag:'' @ biz_tag_id @ '':'' @ biz_tag_name) AuditSuccess
       (by_user user_id client_ip)"

definition log_biz_tag_deleted ::
  "int \<Rightarrow> string \<Rightarrow> string \<Rightarrow> string \<Rightarrow> string option \<Rightarrow> string option \<Rightarrow> audit_logger \<Rightarrow> audit_logger" where
  "log_biz_tag_deleted now ws biz_tag_id biz_tag_name user_id client_ip =
     log_event now BizTagDeleted (Some ws) ''delete_biz_tag'' (''biz_tag:'' @ biz_tag_id @ '':'' @ biz_tag_name) AuditSuccess
       (by_user user_id client_ip)"

definition log_api_key_created ::
  "int \<Rightarrow> string option \<Rightarrow> string \<Rightarrow> string \<Rightarrow> string option \<Rightarrow> string option \<Rightarrow> audit_logger \<Rightarrow> audit_logger" where
  "log_api_key_created now ws key_id key_role user_id client_ip =
     log_event now ApiKeyCreated ws ''create_api_key'' (''api_key:'' @ key_id @ '':'' @ key_role) AuditSuccess
       (by_user user_id client_ip)"

definition log_api_key_updated ::
  "int \<Rightarrow> string option \<Rightarrow> string \<Rightarrow> string \<Rightarrow> string option \<Rightarrow> string option \<Rightarrow> audit_logger \<Rightarrow> audit_logger" where
  "log_api_key_updated now ws key_id key_role user_id client_ip =
     log_event now ApiKeyUpdated ws ''update_api_key'' (''api_key:'' @ key_id @ '':'' @ key_role) AuditSuccess
       (by_user user_id client_ip)"

definition log_api_key_deleted ::
  "int \<Rightarrow> string option \<Rightarrow> string \<Rightarrow> string \<Rightarrow> string option \<Rightarrow> string option \<Rightarrow> audit_logger \<Rightarrow> audit_logger" where
  "log_api_key_deleted now ws key_id key_role user_id client_ip =
     log_event now ApiKeyDeleted ws ''delete_api_key'' (''api_key:'' @ key_id @ '':'' @ key_role) AuditSuccess
       (by_user user_id client_ip)"

definition log_api_key_regenerated ::
  "int \<Rightarrow> string \<Rightarrow> string \<Rightarrow> string \<Rightarrow> string option \<Rightarrow> string option \<Rightarrow> audit_logger \<Rightarrow> audit_logger" where
  "log_api_key_regenerated now ws key_id key_role user_id client_ip =
     log_event now ApiKeyRegenerated (Some ws) ''regenerate_api_key'' (''api_key:'' @ key_id @ '':'' @ key_role) AuditSuccess
       (by_user user_id client_ip)"

section \<open>The trait of the core\<close>

text \<open>
  The algorithms log through the trait of \<open>audit_trait.rs\<close>: \<open>log\<close> is the logger's own, which takes an event of
  the core over; the three helpers are the trait's.
\<close>

definition core_log :: "int \<Rightarrow> core_audit_event \<Rightarrow> audit_logger \<Rightarrow> audit_logger" where
  "core_log now e lg =
     (case next_audit_event_id now (lg_counter lg) of
        (i, c) \<Rightarrow>
          audit_log
            \<lparr>ev_id = i, ev_timestamp = ce_timestamp e, ev_event_type = ce_event_type e,
             ev_workspace_id = ce_workspace_id e, ev_user_id = None, ev_action = ce_action e,
             ev_resource = ce_resource e, ev_result = ce_result e, ev_details = ce_details e, ev_client_ip = None,
             ev_user_agent = None, ev_duration_ms = 0, ev_error_message = None\<rparr> (lg\<lparr>lg_counter := c\<rparr>))"

definition core_log_id_generation ::
  "(core_audit_event \<Rightarrow> 's \<Rightarrow> 's) \<Rightarrow> int \<Rightarrow> string option \<Rightarrow> string \<Rightarrow> string \<Rightarrow> string \<Rightarrow> bool \<Rightarrow> 's \<Rightarrow> 's" where
  "core_log_id_generation log_core now ws action algorithm_type gen_id success =
     log_core (core_with_details (JObject [(''algorithm_type'', JString algorithm_type)])
       (core_event_new now IdGeneration ws action (''id:'' @ gen_id) (result_of success)))"

definition core_log_config_change ::
  "(core_audit_event \<Rightarrow> 's \<Rightarrow> 's) \<Rightarrow> int \<Rightarrow> string option \<Rightarrow> string \<Rightarrow> string \<Rightarrow> json \<Rightarrow> 's \<Rightarrow> 's" where
  "core_log_config_change log_core now ws action resource details =
     log_core (core_with_details details (core_event_new now ConfigChange ws action resource AuditSuccess))"

definition core_log_degradation_event ::
  "(core_audit_event \<Rightarrow> 's \<Rightarrow> 's) \<Rightarrow> int \<Rightarrow> string option \<Rightarrow> string \<Rightarrow> string \<Rightarrow> string \<Rightarrow> string \<Rightarrow> json \<Rightarrow>
   's \<Rightarrow> 's" where
  "core_log_degradation_event log_core now ws action algorithm_type previous_state current_state details =
     (let r = (if current_state = ''Critical'' then AuditFailure
               else if current_state = ''Normal'' then AuditSuccess else AuditPartial)
      in log_core (core_with_details (degradation_details previous_state current_state algorithm_type details)
           (core_event_new now DegradationEvent ws action (''algorithm:'' @ algorithm_type) r)))"

section \<open>The middleware\<close>

text \<open>
  The handler answers with a status and the rest of the response. \<open>ext\<close> is the extension of type \<open>String\<close>;
  \<open>took\<close> is the time the handler took in nanoseconds, \<open>now\<close> the time after it.
\<close>

definition status_result :: "nat \<Rightarrow> audit_result" where
  "status_result status =
     (if 200 \<le> status \<and> status < 300 then AuditSuccess
      else if 400 \<le> status \<and> status < 500 then AuditFailure
      else AuditPartial)"

definition audit_middleware ::
  "string list \<Rightarrow> int \<Rightarrow> nat \<Rightarrow> string option \<Rightarrow> string \<Rightarrow> string \<Rightarrow>
   (http_request \<Rightarrow> 's \<Rightarrow> (nat \<times> 'a) \<times> 's) \<Rightarrow> http_request \<Rightarrow> audit_logger \<times> 's \<Rightarrow>
   (nat \<times> 'a) \<times> audit_logger \<times> 's" where
  "audit_middleware trusted_proxies now took ext meth path next_layer req st =
     (case st of (lg, s) \<Rightarrow>
        case next_layer req s of
          ((status, body), s') \<Rightarrow>
            ((status, body),
             log_event now IdGeneration ext (meth @ '' '' @ path) path (status_result status)
               (with_duration (of_nat (took div 10 ^ 6)) \<circ>
                with_user_agent (or_default (header_text req ''user-agent'')) \<circ>
                with_client_ip (or_default (get_client_ip req trusted_proxies))) lg,
             s'))"

section \<open>What is kept\<close>

datatype audit_op = OpLog audit_event | OpTurn bool | OpFlush | OpClear

fun audit_step :: "(int \<Rightarrow> string) \<Rightarrow> audit_op \<Rightarrow> audit_logger \<Rightarrow> audit_logger" where
  "audit_step rfc3339 (OpLog ev) lg = audit_log ev lg"
| "audit_step rfc3339 (OpTurn io_ok) lg = writer_turn rfc3339 io_ok lg"
| "audit_step rfc3339 OpFlush lg = flush_send lg"
| "audit_step rfc3339 OpClear lg = clear_events lg"

definition audit_run :: "(int \<Rightarrow> string) \<Rightarrow> audit_op list \<Rightarrow> audit_logger \<Rightarrow> audit_logger" where
  "audit_run rfc3339 ops lg = fold (audit_step rfc3339) ops lg"

fun logged :: "audit_op list \<Rightarrow> audit_event list" where
  "logged [] = []"
| "logged (OpLog ev # ops) = ev # logged ops"
| "logged (_ # ops) = logged ops"

fun pending :: "audit_command list \<Rightarrow> audit_event list" where
  "pending [] = []"
| "pending (EventCmd ev # q) = ev # pending q"
| "pending (FlushCmd # q) = pending q"

lemma pending_append [simp]: "pending (p @ q) = pending p @ pending q"
  by (induction p rule: pending.induct) simp_all

lemma logged_append [simp]: "logged (p @ q) = logged p @ logged q"
  by (induction p rule: logged.induct) simp_all

lemma audit_run_snoc: "audit_run rfc3339 (ops @ [op]) lg = audit_step rfc3339 op (audit_run rfc3339 ops lg)"
  by (simp add: audit_run_def)

lemmas audit_step_defs =
  audit_log_def push_event_def writer_turn_def write_event_to_file_def sync_file_def flush_send_def
  clear_events_def Let_def

text \<open>
  \<open>trail f evs k lg\<close>: what the file holds and what is on its way to it are the events \<open>evs\<close> in their order, but
  for at most \<open>k\<close> that are missing, where \<open>k\<close> is the number of errors counted.
\<close>

definition trail :: "(int \<Rightarrow> string) \<Rightarrow> audit_event list \<Rightarrow> nat \<Rightarrow> audit_logger \<Rightarrow> bool" where
  "trail f evs k lg \<longleftrightarrow>
     (\<exists>q. lg_queue lg = Some q \<and> lg_open lg \<and> lg_errors lg = of_nat k \<and>
        subseq (lg_file lg @ map (log_line f) (pending q)) (map (log_line f) evs) \<and>
        length evs \<le> length (lg_file lg) + length (pending q) + k)"

definition refused :: "audit_op list \<Rightarrow> nat" where
  "refused ops = length (filter (\<lambda>op. op = OpTurn False) ops)"

lemma trail_step:
  assumes "trail f evs k lg"
  shows "\<exists>j. trail f (evs @ logged [op]) j (audit_step f op lg) \<and> j \<le> k + refused [op]"
proof -
  obtain q where q: "lg_queue lg = Some q" "lg_open lg" "lg_errors lg = of_nat k"
      "subseq (lg_file lg @ map (log_line f) (pending q)) (map (log_line f) evs)"
      "length evs \<le> length (lg_file lg) + length (pending q) + k"
    using assms by (auto simp: trail_def)
  have keep: ?thesis if "trail f (evs @ logged [op]) k (audit_step f op lg)"
    using that by (intro exI [of _ k]) simp
  show ?thesis
  proof (cases op)
    case (OpLog ev)
    have "subseq ((lg_file lg @ map (log_line f) (pending q)) @ [log_line f ev]) (map (log_line f) evs @ [log_line f ev])"
      using q(4) by (intro list_emb_append_mono) auto
    thus ?thesis
      using q by (intro keep) (auto simp: OpLog audit_step_defs trail_def)
  next
    case OpFlush
    thus ?thesis
      using q by (intro keep) (auto simp: audit_step_defs trail_def)
  next
    case OpClear
    thus ?thesis
      using q by (intro keep) (auto simp: audit_step_defs trail_def)
  next
    case (OpTurn io_ok)
    show ?thesis
    proof (cases "q = [] \<or> io_ok")
      case True
      thus ?thesis
        using q by (intro keep)
          (auto simp: OpTurn audit_step_defs trail_def split: list.splits audit_command.splits)
    next
      case False
      then obtain cmd r where cmd: "q = cmd # r" "\<not> io_ok"
        by (cases q) auto
      have "subseq (lg_file lg @ map (log_line f) (pending r)) (lg_file lg @ map (log_line f) (pending q))"
        by (cases cmd) (auto simp: cmd intro: list_emb_append_mono)
      hence "subseq (lg_file lg @ map (log_line f) (pending r)) (map (log_line f) evs)"
        using q(4) by (rule subseq_order.trans)
      hence "trail f evs (Suc k) (audit_step f op lg)"
        using q by (cases cmd) (auto simp: OpTurn cmd audit_step_defs trail_def)
      thus ?thesis
        using cmd(2) by (intro exI [of _ "Suc k"]) (simp add: OpTurn refused_def)
    qed
  qed
qed

lemma file_logging_new:
  "validate_log_path path = Inr () \<Longrightarrow>
    with_file_logging n path = (audit_logger_new n)\<lparr>lg_queue := Some []\<rparr>"
  by (simp add: with_file_logging_def)

lemma trail_run:
  assumes "validate_log_path path = Inr ()"
  shows "\<exists>k. trail f (logged ops) k (audit_run f ops (with_file_logging n path)) \<and> k \<le> refused ops"
proof (induction ops rule: rev_induct)
  case Nil
  show ?case
    by (intro exI [of _ 0]) (simp add: audit_run_def file_logging_new [OF assms] audit_logger_new_def trail_def)
next
  case (snoc op ops)
  then obtain k where "trail f (logged ops) k (audit_run f ops (with_file_logging n path))" "k \<le> refused ops"
    by blast
  with trail_step [OF this(1), of op] show ?case
    by (auto simp: audit_run_snoc refused_def intro: order_trans)
qed

section \<open>What is remembered\<close>

text \<open>The newest events are kept, as many as fit (one even if the bound is 0).\<close>

definition newest :: "nat \<Rightarrow> 'a list \<Rightarrow> 'a list" where
  "newest n xs = drop (length xs - n) xs"

definition kept :: "nat \<Rightarrow> nat" where
  "kept n = max 1 n"

definition memory :: "audit_event list \<Rightarrow> nat \<Rightarrow> audit_logger \<Rightarrow> bool" where
  "memory evs n lg \<longleftrightarrow>
     lg_max lg = n \<and> lg_events lg = newest (kept n) evs \<and> lg_logged lg = of_nat (length evs) \<and>
     (lg_queue lg = None \<longrightarrow> lg_errors lg = of_nat (length evs - kept n))"

definition dropped_count :: "nat \<Rightarrow> 'a list \<Rightarrow> nat" where
  "dropped_count n es = (if length es \<ge> n then length es - n + 1 else 0)"

lemma length_newest: "length (newest m xs) = min m (length xs)"
  by (simp add: newest_def)

lemma newest_push: "drop (dropped_count n (newest (kept n) xs)) (newest (kept n) xs) @ [x] = newest (kept n) (xs @ [x])"
proof (cases "length xs < kept n")
  case True
  thus ?thesis
    by (cases n) (auto simp: dropped_count_def newest_def kept_def)
next
  case False
  hence "dropped_count n (newest (kept n) xs) = 1 + (kept n - n)"
    by (auto simp: dropped_count_def length_newest kept_def)
  thus ?thesis
    using False by (cases n) (auto simp: newest_def kept_def Suc_diff_Suc not_less Suc_le_eq)
qed

lemma newest_lost:
  "length xs - kept n + length (take (dropped_count n (newest (kept n) xs)) (newest (kept n) xs)) =
   Suc (length xs) - kept n"
proof (cases "length xs < kept n")
  case True
  thus ?thesis
    by (cases n) (auto simp: dropped_count_def length_newest newest_def kept_def)
next
  case False
  thus ?thesis
    by (cases n) (auto simp: dropped_count_def length_newest kept_def)
qed

lemma push_event_eq:
  "push_event ev lg =
     lg\<lparr>lg_events := drop (dropped_count (lg_max lg) (lg_events lg)) (lg_events lg) @ [ev],
        lg_errors := lg_errors lg + (if lg_queue lg = None
          then of_nat (length (take (dropped_count (lg_max lg) (lg_events lg)) (lg_events lg))) else 0),
        lg_logged := lg_logged lg + 1\<rparr>"
  by (simp only: push_event_def dropped_count_def Let_def)

lemma memory_push:
  assumes "memory evs n lg"
  shows "memory (evs @ [ev]) n (push_event ev lg)" and "lg_queue (push_event ev lg) = lg_queue lg"
proof -
  have n: "lg_max lg = n" and es: "lg_events lg = newest (kept n) evs" and l: "lg_logged lg = of_nat (length evs)"
    and err: "lg_queue lg = None \<Longrightarrow> lg_errors lg = of_nat (length evs - kept n)"
    using assms by (simp_all add: memory_def)
  let ?d = "length (take (dropped_count n (newest (kept n) evs)) (newest (kept n) evs))"
  have "lg_errors lg + of_nat ?d = of_nat (Suc (length evs) - kept n)" if "lg_queue lg = None"
    unfolding err [OF that] newest_lost [symmetric] by (rule of_nat_add [symmetric])
  thus "memory (evs @ [ev]) n (push_event ev lg)"
    by (simp add: memory_def push_event_eq n es newest_push l del: length_take)
  show "lg_queue (push_event ev lg) = lg_queue lg"
    by (simp add: push_event_eq)
qed

lemma memory_log:
  assumes "memory evs n lg"
  shows "memory (evs @ [ev]) n (audit_log ev lg)"
  using memory_push [OF assms, of ev]
  by (auto simp: audit_log_def Let_def memory_def split: option.splits)

lemma memory_step:
  assumes "memory evs n lg" and "op \<noteq> OpClear"
  shows "memory (evs @ logged [op]) n (audit_step f op lg)"
proof (cases op)
  case (OpLog ev)
  thus ?thesis
    using memory_log [OF assms(1)] by simp
next
  case (OpTurn io_ok)
  thus ?thesis
    using assms(1)
    by (auto simp: memory_def writer_turn_def write_event_to_file_def sync_file_def Let_def
        split: option.splits list.splits audit_command.splits)
next
  case OpFlush
  thus ?thesis
    using assms(1) by (auto simp: memory_def flush_send_def split: option.splits)
qed (use assms(2) in simp)

lemma memory_run:
  assumes "memory [] n lg" and "OpClear \<notin> set ops"
  shows "memory (logged ops) n (audit_run f ops lg)"
  using assms(2)
proof (induction ops rule: rev_induct)
  case Nil
  show ?case
    using assms(1) by (simp add: audit_run_def)
next
  case (snoc op ops)
  hence "memory (logged ops @ logged [op]) n (audit_step f op (audit_run f ops lg))"
    by (intro memory_step) auto
  thus ?case
    by (simp add: audit_run_snoc)
qed

lemma memory_new: "memory [] n (audit_logger_new n)" "memory [] n (with_file_logging n path)"
  by (simp_all add: memory_def audit_logger_new_def newest_def with_file_logging_def split: sum.splits)

section \<open>Identifiers of events\<close>

fun audit_ids :: "int list \<Rightarrow> u64 \<Rightarrow> u64 list" where
  "audit_ids [] c = []"
| "audit_ids (t # ts) c = (case next_audit_event_id t c of (i, c') \<Rightarrow> i # audit_ids ts c')"

lemma audit_ids_nth: "i < length ts \<Longrightarrow> audit_ids ts c ! i = fst (next_audit_event_id (ts ! i) (c + of_nat i))"
  by (induction ts arbitrary: c i) (auto simp: next_audit_event_id_def Let_def nth_Cons add.assoc split: nat.splits)

lemma length_audit_ids [simp]: "length (audit_ids ts c) = length ts"
  by (induction ts arbitrary: c) (auto split: prod.splits)

lemma unat_event_id:
  assumes "0 \<le> t" and "t div 10 ^ 6 < 2 ^ 44"
  shows "unat (fst (next_audit_event_id t c)) = nat (t div 10 ^ 6) * 2 ^ 20 + unat c mod 2 ^ 20"
proof -
  define ms where "ms = t div 10 ^ 6"
  have ms: "0 \<le> ms" "ms < 2 ^ 44"
    using assms by (simp_all add: ms_def)
  have u: "unat (of_int ms :: u64) = nat ms"
    using ms by (simp add: unsigned_of_int take_bit_int_eq_self)
  have m: "(0xFFFFF :: u64) = mask 20"
    by (simp add: mask_eq_exp_minus_1)
  have c: "unat (c AND mask 20) = unat c mod 2 ^ 20"
    by (rule unat_and_mask)
  have lt: "nat ms * 2 ^ 20 + unat c mod 2 ^ 20 < 2 ^ (44 + 20)"
    using ms by (intro packed_lt) (auto simp: nat_less_iff)
  have "fst (next_audit_event_id t c) = push_bit 20 (of_int ms) OR (c AND mask 20)"
    by (simp only: next_audit_event_id_def shl_def m ms_def Let_def fst_conv) simp
  moreover have "unat (push_bit 20 (of_int ms) OR (c AND mask 20)) = unat (of_int ms :: u64) * 2 ^ 20 + unat (c AND mask 20)"
    using lt by (intro unat_or_push_bit) (simp_all only: c u, simp_all)
  ultimately show ?thesis
    using u by (simp only: c ms_def)
qed

lemma event_id_fields:
  assumes "0 \<le> s" "s div 10 ^ 6 < 2 ^ 44" "0 \<le> t" "t div 10 ^ 6 < 2 ^ 44"
    and "fst (next_audit_event_id s c) = fst (next_audit_event_id t d)"
  shows "s div 10 ^ 6 = t div 10 ^ 6" and "unat c mod 2 ^ 20 = unat d mod 2 ^ 20"
proof -
  have eq: "nat (s div 10 ^ 6) * 2 ^ 20 + unat c mod 2 ^ 20 = nat (t div 10 ^ 6) * 2 ^ 20 + unat d mod 2 ^ 20"
    using unat_event_id [OF assms(1,2), of c] unat_event_id [OF assms(3,4), of d] assms(5) by metis
  show "unat c mod 2 ^ 20 = unat d mod 2 ^ 20"
    using arg_cong [OF eq, of "\<lambda>x. x mod 2 ^ 20"] by (simp only: mod_field mod_less_divisor zero_less_power zero_less_numeral)
  hence "nat (s div 10 ^ 6) = nat (t div 10 ^ 6)"
    using eq by simp
  thus "s div 10 ^ 6 = t div 10 ^ 6"
    using assms(1,3) by (simp add: eq_nat_nat_iff pos_imp_zdiv_nonneg_iff)
qed

section \<open>Properties\<close>

text \<open>
  C37. Whatever is logged, written, flushed and cleared, the file holds the events in the order they were logged,
  with the addresses and user agents redacted; with the events on their way to it none is missing but those
  of refused writes, and \<open>total_errors\<close> counts at least these.
\<close>

lemma audit_trail_kept:
  assumes "validate_log_path path = Inr ()"
  shows "case audit_run f ops (with_file_logging n path) of lg \<Rightarrow>
    \<exists>q k. lg_queue lg = Some q \<and> lg_errors lg = of_nat k \<and> k \<le> refused ops \<and>
      subseq (lg_file lg @ map (log_line f) (pending q)) (map (log_line f) (logged ops)) \<and>
      length (logged ops) \<le> length (lg_file lg) + length (pending q) + k"
  using trail_run [OF assms, of f ops n] by (auto simp: trail_def)

definition demo_event :: "string \<Rightarrow> audit_event" where
  "demo_event action =
     fst (audit_event_new 0 Authentication None action ''authentication'' AuditSuccess (audit_logger_new 0))"

lemma audit_trail_kept_witness:
  "case audit_run (\<lambda>_. []) [OpLog (demo_event ''a''), OpLog (demo_event ''b''), OpTurn False, OpClear, OpTurn True,
      OpFlush, OpLog (demo_event ''c'')] (with_file_logging 1 ''logs/audit.log'') of lg \<Rightarrow>
    \<exists>q k. lg_queue lg = Some q \<and> lg_errors lg = of_nat k \<and> k \<le> 1 \<and>
      subseq (lg_file lg @ map (log_line (\<lambda>_. [])) (pending q))
        (map (log_line (\<lambda>_. [])) [demo_event ''a'', demo_event ''b'', demo_event ''c'']) \<and>
      3 \<le> length (lg_file lg) + length (pending q) + k"
proof -
  let ?ops = "[OpLog (demo_event ''a''), OpLog (demo_event ''b''), OpTurn False, OpClear, OpTurn True, OpFlush,
      OpLog (demo_event ''c'')]"
  have path: "validate_log_path ''logs/audit.log'' = Inr ()"
    by code_simp
  have ops: "logged ?ops = [demo_event ''a'', demo_event ''b'', demo_event ''c'']" "refused ?ops = 1"
      "length [demo_event ''a'', demo_event ''b'', demo_event ''c''] = 3"
    by (simp_all add: refused_def)
  show ?thesis
    using audit_trail_kept [OF path, of "\<lambda>_. []" ?ops 1] unfolding ops .
qed

text \<open>
  The memory holds the newest events, as many as its bound allows; without a file the dropped ones are exactly
  what \<open>total_errors\<close> counts.
\<close>

lemma audit_memory_newest:
  assumes "OpClear \<notin> set ops"
  shows "case audit_run f ops (audit_logger_new n) of lg \<Rightarrow>
    lg_events lg = newest (kept n) (logged ops) \<and> lg_logged lg = of_nat (length (logged ops)) \<and>
    (lg_queue lg = None \<longrightarrow> lg_errors lg = of_nat (length (logged ops) - kept n))"
  using memory_run [OF memory_new(1) assms, of n f] by (simp add: memory_def)

lemma audit_memory_newest_witness:
  "case audit_run (\<lambda>_. []) [OpLog (demo_event ''a''), OpLog (demo_event ''b''), OpFlush, OpLog (demo_event ''c'')]
     (audit_logger_new 2) of lg \<Rightarrow>
   lg_events lg = [demo_event ''b'', demo_event ''c''] \<and> lg_logged lg = 3 \<and>
   (lg_queue lg \<noteq> None \<or> lg_errors lg = 1)"
  using audit_memory_newest [of "[OpLog (demo_event ''a''), OpLog (demo_event ''b''), OpFlush,
      OpLog (demo_event ''c'')]" "\<lambda>_. []" 2]
  by (auto simp: newest_def kept_def)

text \<open>
  Identifiers made in the order of time are distinct while no millisecond sees \<open>2 ^ 20\<close> of them; they need not
  increase, for the counter starts over within a millisecond.
\<close>

lemma audit_ids_distinct:
  assumes "\<And>t. t \<in> set ts \<Longrightarrow> 0 \<le> t \<and> t div 10 ^ 6 < 2 ^ 44" and "length ts < 2 ^ 64"
    and "\<And>i j. i < j \<Longrightarrow> j < length ts \<Longrightarrow> ts ! i div 10 ^ 6 = ts ! j div 10 ^ 6 \<Longrightarrow> j - i < 2 ^ 20"
  shows "distinct (audit_ids ts c)"
proof -
  have "audit_ids ts c ! i \<noteq> audit_ids ts c ! j" if "i < j" "j < length ts" for i j
  proof
    assume "audit_ids ts c ! i = audit_ids ts c ! j"
    hence eq: "fst (next_audit_event_id (ts ! i) (c + of_nat i)) = fst (next_audit_event_id (ts ! j) (c + of_nat j))"
      using that by (simp add: audit_ids_nth)
    have t: "0 \<le> ts ! i" "ts ! i div 10 ^ 6 < 2 ^ 44" "0 \<le> ts ! j" "ts ! j div 10 ^ 6 < 2 ^ 44"
      using assms(1) [of "ts ! i"] assms(1) [of "ts ! j"] that by auto
    note same = event_id_fields [OF t eq]
    have "unat (c + of_nat k) mod 2 ^ 20 = (unat c + k) mod 2 ^ 20" for k
      using mod_mod_cancel [of "2 ^ 20" "2 ^ 64 :: nat" "unat c + k"]
      by (simp add: unat_word_ariths unat_of_nat mod_add_right_eq)
    hence "(unat c + i) mod 2 ^ 20 = (unat c + j) mod 2 ^ 20"
      using same(2) by metis
    hence "2 ^ 20 dvd (unat c + j) - (unat c + i)"
      using that(1) by (subst mod_eq_dvd_iff_nat [symmetric]) auto
    hence "2 ^ 20 dvd j - i"
      by simp
    thus False
      using assms(3) [OF that same(1)] that(1) by (auto dest: dvd_imp_le)
  qed
  thus ?thesis
    by (simp add: distinct_conv_nth) (metis nat_neq_iff)
qed

lemma audit_ids_distinct_witness: "distinct (audit_ids [1000000, 1000000, 1999999, 5000000] 0xFFFFE)"
  by (rule audit_ids_distinct) (auto simp: less_Suc_eq)

lemma audit_ids_decrease: "audit_ids [1000000, 1000000] 0xFFFFF = [0x1FFFFF, 0x100000]"
  by code_simp

text \<open>
  Of an IPv4 address the file shows the network of the first three numbers and nothing of the last. An address
  with a port, as some proxies forward it, is no address to the parser: its first eight characters are kept.
\<close>

lemma redact_ip_v4:
  "redact_ip (print_v4 a b c d) =
     print_dec (unat a) @ ''.'' @ print_dec (unat b) @ ''.'' @ print_dec (unat c) @ ''.x''"
  by (simp add: redact_ip_def parse_print_v4)

lemma redact_keeps_address: "redact_ip ''10.0.0.7:443'' = ''10.0.0.7...redacted''"
  by code_simp

text \<open>The middleware passes the answer on unchanged and logs exactly one event about it.\<close>

lemma audit_middleware_transparent:
  "case audit_middleware proxies now took ext meth path next_layer req (lg, s) of
     (resp, lg', s') \<Rightarrow>
       (resp, s') = next_layer req s \<and> lg_logged lg' = lg_logged lg + 1 \<and>
       (case last (lg_events lg') of ev \<Rightarrow>
          ev_action ev = meth @ '' '' @ path \<and> ev_result ev = status_result (fst resp) \<and>
          ev_workspace_id ev = ext \<and> ev_client_ip ev = Some (or_default (get_client_ip req proxies)))"
  by (simp add: audit_middleware_def log_event_def audit_event_new_def next_audit_event_id_def audit_log_def
      push_event_def with_duration_def with_user_agent_def with_client_ip_def Let_def split: prod.splits option.splits)

text \<open>The same recovery is a success when an algorithm logs it and partial when the server's helper does.\<close>

lemma recovery_recorded_differently:
  "ev_result (last (lg_events (core_log_degradation_event (core_log now) now ws act alg ''Degraded'' ''Normal'' d lg))) =
     AuditSuccess"
  "ev_result (last (lg_events (log_degradation_event now ws act alg ''Degraded'' ''Normal'' d lg))) = AuditPartial"
  by (simp_all add: core_log_degradation_event_def core_log_def core_with_details_def core_event_new_def
      log_degradation_event_def log_event_def audit_event_new_def next_audit_event_id_def audit_log_def
      push_event_def audit_with_details_def Let_def split: option.splits)

end
