(* ===== verification/Alerts.thy ===== *)
theory Alerts
  imports Metrics Audit_Log
begin

text \<open>
  Alerting (\<open>src/src/core/monitoring/core.rs\<close>): rules, the state of a rule, the evaluator, the notification
  channels with the check of webhook addresses, and the \<open>AlertManager\<close>.

  An \<open>Instant\<close> and a \<open>DateTime\<close> are numbers of nanoseconds. \<open>str::parse\<close> for \<open>f64\<close> is correctly rounded; an
  infinite or undefined threshold is read as none. The \<open>url\<close> crate is the parameter \<open>parse_url\<close>; what a
  channel does is a list of deliveries. The receivers of the broadcast and the HTTP client are left out.
\<close>

section \<open>Data\<close>

datatype alert_error =
  AlertNotFound string | EvaluationFailed string | ChannelClosed | NotificationFailed string

datatype alert_severity = Critical | Warning | Info

datatype alert_status = Firing | Resolved | Pending

fun severity_name :: "alert_severity \<Rightarrow> string" where
  "severity_name Critical = ''Critical''"
| "severity_name Warning = ''Warning''"
| "severity_name Info = ''Info''"

fun status_name :: "alert_status \<Rightarrow> string" where
  "status_name Firing = ''Firing''"
| "status_name Resolved = ''Resolved''"
| "status_name Pending = ''Pending''"

type_synonym string_map = "(string \<times> string) list"

record alert =
  al_rule_name :: string
  al_severity :: alert_severity
  al_status :: alert_status
  al_message :: string
  al_labels :: string_map
  al_starts_at :: int
  al_ends_at :: "int option"
  al_generator :: string
  al_current_value :: "string option"

definition alert_new ::
  "int \<Rightarrow> string \<Rightarrow> alert_severity \<Rightarrow> string \<Rightarrow> string_map \<Rightarrow> string option \<Rightarrow> alert" where
  "alert_new now rule_name severity message labels current_value =
     \<lparr>al_rule_name = rule_name, al_severity = severity, al_status = Pending, al_message = message,
      al_labels = labels, al_starts_at = now, al_ends_at = None, al_generator = ''nebula-id'',
      al_current_value = current_value\<rparr>"

definition alert_fire :: "int \<Rightarrow> alert \<Rightarrow> alert" where
  "alert_fire now a = a\<lparr>al_status := Firing, al_starts_at := now\<rparr>"

definition alert_resolve :: "int \<Rightarrow> alert \<Rightarrow> alert" where
  "alert_resolve now a = a\<lparr>al_status := Resolved, al_ends_at := Some now\<rparr>"

definition is_firing :: "alert \<Rightarrow> bool" where
  "is_firing a \<longleftrightarrow> al_status a = Firing"

record alert_rule =
  ru_name :: string
  ru_expression :: string
  ru_for_duration :: u64
  ru_severity :: alert_severity
  ru_labels :: string_map
  ru_annotations :: string_map
  ru_enabled :: bool
  ru_description :: string

definition DEFAULT_EVALUATION_INTERVAL_MS :: u64 where
  "DEFAULT_EVALUATION_INTERVAL_MS = 1000"

definition DEFAULT_FOR_DURATION_SECS :: u64 where
  "DEFAULT_FOR_DURATION_SECS = 60"

definition alert_rule_default :: alert_rule where
  "alert_rule_default =
     \<lparr>ru_name = ''default_rule'', ru_expression = ''true'', ru_for_duration = DEFAULT_FOR_DURATION_SECS,
      ru_severity = Warning, ru_labels = [], ru_annotations = [], ru_enabled = True,
      ru_description = ''Default alert rule''\<rparr>"

definition alert_rule_new :: "string \<Rightarrow> string \<Rightarrow> alert_severity \<Rightarrow> alert_rule" where
  "alert_rule_new name expr severity =
     alert_rule_default\<lparr>ru_name := name, ru_expression := expr, ru_severity := severity\<rparr>"

datatype channel_type = Webhook | Email | Slack | PagerDuty | LogChannel | Stdout

fun channel_type_name :: "channel_type \<Rightarrow> string" where
  "channel_type_name Webhook = ''Webhook''"
| "channel_type_name Email = ''Email''"
| "channel_type_name Slack = ''Slack''"
| "channel_type_name PagerDuty = ''PagerDuty''"
| "channel_type_name LogChannel = ''Log''"
| "channel_type_name Stdout = ''Stdout''"

record notification_channel =
  nc_name :: string
  nc_channel_type :: channel_type
  nc_config :: string_map
  nc_enabled :: bool

definition notification_channel_default :: notification_channel where
  "notification_channel_default =
     \<lparr>nc_name = ''default'', nc_channel_type = LogChannel, nc_config = [], nc_enabled = True\<rparr>"

record alerting_config =
  cf_enabled :: bool
  cf_evaluation_interval_ms :: u64
  cf_rules :: "alert_rule list"
  cf_channels :: "notification_channel list"
  cf_global_labels :: string_map

definition alerting_config_default :: alerting_config where
  "alerting_config_default =
     \<lparr>cf_enabled = False, cf_evaluation_interval_ms = DEFAULT_EVALUATION_INTERVAL_MS, cf_rules = [],
      cf_channels = [], cf_global_labels = []\<rparr>"

section \<open>The state of a rule\<close>

record alert_state =
  as_last_fired :: "int option"
  as_consecutive_promotions :: u8
  as_current_status :: alert_status
  as_pending_since :: "int option"
  as_current_value :: "string option"

definition alert_state_new :: alert_state where
  "alert_state_new =
     \<lparr>as_last_fired = None, as_consecutive_promotions = 0, as_current_status = Pending,
      as_pending_since = None, as_current_value = None\<rparr>"

definition should_fire :: "int \<Rightarrow> u64 \<Rightarrow> alert_state \<Rightarrow> bool" where
  "should_fire now for_duration st =
     (case as_pending_since st of
        Some since \<Rightarrow>
          if (now - since) div 10 ^ 9 \<ge> uint for_duration then as_consecutive_promotions st > 0 else False
      | None \<Rightarrow> False)"

definition promote :: "int \<Rightarrow> string option \<Rightarrow> alert_state \<Rightarrow> alert_state" where
  "promote now v st =
     (let st = st\<lparr>as_consecutive_promotions := sat_add (as_consecutive_promotions st) 1, as_current_value := v\<rparr>
      in if as_current_status st \<noteq> Firing \<and> as_pending_since st = None
         then st\<lparr>as_pending_since := Some now\<rparr> else st)"

definition demote :: "alert_state \<Rightarrow> alert_state" where
  "demote st =
     (let st = st\<lparr>as_consecutive_promotions := sat_sub (as_consecutive_promotions st) 1\<rparr>
      in if as_consecutive_promotions st = 0 then st\<lparr>as_pending_since := None\<rparr> else st)"

definition alert_state_reset :: "alert_state \<Rightarrow> alert_state" where
  "alert_state_reset st =
     st\<lparr>as_consecutive_promotions := 0, as_pending_since := None, as_current_status := Pending,
        as_current_value := None\<rparr>"

section \<open>The evaluator\<close>

definition parse_f64 :: "string \<Rightarrow> rat option" where
  "parse_f64 s =
     (case f32_signed s of (neg, t) \<Rightarrow>
        let is_e = (\<lambda>c. c = CHR ''e'' \<or> c = CHR ''E'');
            mant = takeWhile (\<lambda>c. \<not> is_e c) t; ex = dropWhile (\<lambda>c. \<not> is_e c) t
        in case (f32_digits mant, f32_exponent ex) of
          (Some m, Some x) \<Rightarrow>
            let v = f64_round (m * 10 powi x)
            in if v \<ge> 2 ^ 1024 then None else Some (if neg then - v else v)
        | _ \<Rightarrow> None)"

definition starts_with :: "string \<Rightarrow> string \<Rightarrow> bool" where
  "starts_with e p \<longleftrightarrow> take (length p) e = p"

text \<open>\<open>parse_threshold\<close>: its pattern has the braces of \<open>format!\<close> as a literal text.\<close>

definition parse_threshold :: "(string \<Rightarrow> 'a option) \<Rightarrow> string \<Rightarrow> string \<Rightarrow> ('a \<times> 'a) option" where
  "parse_threshold parse expr metric_name =
     (let pattern = metric_name @ '' '' @ ''{}'' @ '' '' in
      if starts_with expr pattern then
        let rest = drop (length pattern) expr;
            first = takeWhile (\<lambda>c. c \<noteq> CHR '' '') rest; second = drop (Suc (length first)) rest
        in if CHR '' '' \<in> set rest then
             (case parse second of
                None \<Rightarrow> None
              | Some threshold \<Rightarrow> (case parse first of None \<Rightarrow> None | Some v \<Rightarrow> Some (v, threshold)))
           else None
      else None)"

text \<open>\<open>{:.2}\<close> of a value that is not negative.\<close>

definition fixed_two :: "rat \<Rightarrow> string" where
  "fixed_two x =
     (let n = nat (round_half_even (x * 100)) in
      print_dec (n div 100) @ ''.'' @ print_dec (n mod 100 div 10) @ print_dec (n mod 10))"

definition max_f64 :: "rat list \<Rightarrow> rat" where
  "max_f64 xs = foldl max (hd xs) (tl xs)"

definition min_f64 :: "rat list \<Rightarrow> rat" where
  "min_f64 xs = foldl min (hd xs) (tl xs)"

type_synonym evaluator = "alert_rule \<Rightarrow> global_metrics \<Rightarrow> bool \<times> string option"

definition evaluate_expr :: "string \<Rightarrow> global_metrics \<Rightarrow> bool \<times> string option" where
  "evaluate_expr e metrics =
     (if starts_with e ''id_generation_failed'' then
        (gm_total_errors metrics > 0, Some (print_dec (unat (gm_total_errors metrics))))
      else if starts_with e ''id_generation_qps'' then
        (case parse_threshold (parse_unsigned (2 ^ 64)) e ''id_generation_qps'' of
           Some (_, threshold) \<Rightarrow>
             (unat (gm_total_requests metrics) \<ge> threshold,
              Some (''current_qps: '' @ print_dec (unat (gm_total_requests metrics))))
         | None \<Rightarrow> (False, None))
      else if starts_with e ''latency_ms > '' then
        (case parse_threshold (parse_unsigned (2 ^ 64)) e ''latency_ms'' of
           Some (_, threshold) \<Rightarrow>
             let ls = map (\<lambda>s. f64_to_u64 (sn_p99_latency_ms s)) (get_all_snapshots metrics);
                 max_latency = foldl max 0 ls
             in (unat max_latency > threshold, Some (''p99_latency_ms: '' @ print_dec (unat max_latency)))
         | None \<Rightarrow> (False, None))
      else if starts_with e ''latency_p99 > '' then
        (case parse_threshold parse_f64 e ''latency_p99'' of
           Some (_, threshold) \<Rightarrow>
             let ls = map sn_p99_latency_ms (get_all_snapshots metrics);
                 max_latency = (if ls = [] then 0 else max_f64 ls)
             in (max_latency > threshold, Some (''p99_latency_ms: '' @ fixed_two max_latency))
         | None \<Rightarrow> (False, None))
      else if starts_with e ''cache_hit_rate < '' then
        (case parse_threshold parse_f64 e ''cache_hit_rate'' of
           Some (_, threshold) \<Rightarrow>
             let hs = map sn_cache_hit_rate (get_all_snapshots metrics);
                 min_hit_rate = (if hs = [] then 100 else min_f64 hs)
             in (min_hit_rate < threshold, Some (''hit_rate: '' @ fixed_two min_hit_rate @ [CHR 0x25]))
         | None \<Rightarrow> (False, None))
      else if starts_with e ''segment_exhausted'' then (True, Some ''segment_buffer_exhausted'')
      else if starts_with e ''clock_backward'' then
        (if \<exists>m \<in> set (map snd (gm_algorithms metrics)). ac_p999_latency_ns m > 0
         then (True, Some ''clock_backward_detected'') else (False, None))
      else if starts_with e ''active_connections > '' then
        (case parse_threshold (parse_unsigned (2 ^ 32)) e ''active_connections'' of
           Some (_, threshold) \<Rightarrow>
             (unat (gm_active_connections metrics) > threshold,
              Some (''connections: '' @ print_dec (unat (gm_active_connections metrics))))
         | None \<Rightarrow> (False, None))
      else if starts_with e ''error_rate > '' then
        (case parse_threshold parse_f64 e ''error_rate'' of
           Some (_, threshold) \<Rightarrow>
             let rate = (if gm_total_requests metrics > 0
                         then f64_mul (f64_div (f64_of_u64 (gm_total_errors metrics))
                                (f64_of_u64 (gm_total_requests metrics))) 100
                         else 0)
             in (rate > threshold, Some (''error_rate: '' @ fixed_two rate @ [CHR 0x25]))
         | None \<Rightarrow> (False, None))
      else (False, None))"

definition default_evaluate :: evaluator where
  "default_evaluate rule metrics = evaluate_expr (trim (ru_expression rule)) metrics"

section \<open>Notification\<close>

record url_parts =
  url_scheme :: string
  url_username :: string
  url_password :: "string option"
  url_host_str :: "string option"

datatype delivery =
  Printed alert_severity alert | Logged alert | Posted string json | WouldSend channel_type string

definition is_blocked_ip :: "ip_addr \<Rightarrow> bool" where
  "is_blocked_ip ip =
     (case ip of
        V4 a b c d \<Rightarrow>
          a = 127 \<or>
          (a = 10 \<or> a = 172 \<and> 16 \<le> b \<and> b \<le> 31 \<or> a = 192 \<and> b = 168) \<or>
          a = 169 \<and> b = 254 \<or>
          a = 0 \<and> b = 0 \<and> c = 0 \<and> d = 0 \<or>
          a = 255 \<and> b = 255 \<and> c = 255 \<and> d = 255 \<or>
          a = 100 \<and> b AND 0xc0 = 64
      | V6 segs \<Rightarrow>
          segs = [0, 0, 0, 0, 0, 0, 0, 1] \<or> segs = replicate 8 0 \<or>
          segs ! 0 AND 0xff00 = 0xff00 \<or> drop_bit 8 (segs ! 0) AND 0xfe = 0xfc)"

definition is_blocked_host :: "string \<Rightarrow> bool" where
  "is_blocked_host host =
     (if host = ''localhost'' \<or> drop (length host - 10) host = ''.localhost'' then True
      else (case parse_ip host of Some ip \<Rightarrow> is_blocked_ip ip | None \<Rightarrow> False))"

definition validate_webhook_url :: "(string \<Rightarrow> url_parts option) \<Rightarrow> string \<Rightarrow> string + unit" where
  "validate_webhook_url parse_url url =
     (case parse_url url of
        None \<Rightarrow> Inl ''invalid URL format''
      | Some u \<Rightarrow>
          if url_scheme u \<noteq> ''http'' \<and> url_scheme u \<noteq> ''https'' then Inl ''non-http(s) scheme not allowed''
          else if url_username u \<noteq> [] \<or> url_password u \<noteq> None then Inl ''userinfo in URL not allowed''
          else (case url_host_str u of
                  None \<Rightarrow> Inl ''missing host''
                | Some host \<Rightarrow>
                    if is_blocked_host host then Inl ''host resolves to private/reserved address''
                    else Inr ()))"

definition send_webhook :: "(string \<Rightarrow> url_parts option) \<Rightarrow> string \<Rightarrow> json \<Rightarrow> delivery list" where
  "send_webhook parse_url url payload =
     (if isl (validate_webhook_url parse_url url) then [] else [Posted url payload])"

definition webhook_payload :: "(int \<Rightarrow> string) \<Rightarrow> alert \<Rightarrow> json" where
  "webhook_payload rfc3339 a =
     JObject
       [(''rule_name'', JString (al_rule_name a)), (''severity'', JString (severity_name (al_severity a))),
        (''message'', JString (al_message a)), (''status'', JString (status_name (al_status a))),
        (''labels'', JObject (map (\<lambda>(k, v). (k, JString v)) (al_labels a))),
        (''current_value'', json_option (al_current_value a)),
        (''starts_at'', JString (rfc3339 (al_starts_at a)))]"

definition slack_payload :: "alert \<Rightarrow> json" where
  "slack_payload a =
     JObject
       [(''text'', JString (''['' @ severity_name (al_severity a) @ ''] '' @ al_rule_name a @ '': '' @ al_message a)),
        (''attachments'', JArray [JObject
          [(''color'', JString (case al_severity a of Critical \<Rightarrow> ''danger'' | Warning \<Rightarrow> ''warning'' | Info \<Rightarrow> ''good'')),
           (''fields'', JArray
             [JObject [(''title'', JString ''Rule''), (''value'', JString (al_rule_name a)), (''short'', JBool True)],
              JObject [(''title'', JString ''Status''), (''value'', JString (status_name (al_status a))),
                       (''short'', JBool True)]])]])]"

definition send_to_channel ::
  "(int \<Rightarrow> string) \<Rightarrow> (string \<Rightarrow> url_parts option) \<Rightarrow> alert \<Rightarrow> notification_channel \<Rightarrow> delivery list" where
  "send_to_channel rfc3339 parse_url a ch =
     (case nc_channel_type ch of
        Stdout \<Rightarrow> [Printed (al_severity a) a]
      | LogChannel \<Rightarrow> [Logged a]
      | Webhook \<Rightarrow>
          (case map_of (nc_config ch) ''url'' of
             Some url \<Rightarrow> send_webhook parse_url url (webhook_payload rfc3339 a) | None \<Rightarrow> [])
      | Slack \<Rightarrow>
          (case map_of (nc_config ch) ''webhook_url'' of
             Some url \<Rightarrow> send_webhook parse_url url (slack_payload a) | None \<Rightarrow> [])
      | Email \<Rightarrow> [WouldSend Email (al_rule_name a)]
      | PagerDuty \<Rightarrow> [WouldSend PagerDuty (al_rule_name a)])"

definition notification_send ::
  "(int \<Rightarrow> string) \<Rightarrow> (string \<Rightarrow> url_parts option) \<Rightarrow> notification_channel list \<Rightarrow> alert \<Rightarrow> delivery list" where
  "notification_send rfc3339 parse_url channels a =
     concat (map (send_to_channel rfc3339 parse_url a) (filter nc_enabled channels))"

section \<open>Which rules can fire\<close>

lemma starts_with_clash: "starts_with e p \<Longrightarrow> take (length p) q \<noteq> take (length q) p \<Longrightarrow> \<not> starts_with e q"
proof
  assume p: "starts_with e p" and ne: "take (length p) q \<noteq> take (length q) p" and q: "starts_with e q"
  have "take (length p) (take (length q) e) = take (length q) (take (length p) e)"
    by (simp add: min.commute)
  hence "take (length p) q = take (length q) p"
    using p q by (simp only: starts_with_def)
  with ne show False ..
qed

definition threshold_prefixes :: "string list" where
  "threshold_prefixes =
     [''latency_ms > '', ''latency_p99 > '', ''cache_hit_rate < '', ''active_connections > '', ''error_rate > '']"

lemma parse_threshold_braces:
  "\<not> starts_with e (name @ '' {} '') \<Longrightarrow> parse_threshold parse e name = None"
  by (simp add: parse_threshold_def)

lemma one_of_five:
  "x \<in> set [a, b, c, d, e] \<Longrightarrow> (x = a \<Longrightarrow> P) \<Longrightarrow> (x = b \<Longrightarrow> P) \<Longrightarrow> (x = c \<Longrightarrow> P) \<Longrightarrow> (x = d \<Longrightarrow> P) \<Longrightarrow> (x = e \<Longrightarrow> P) \<Longrightarrow> P"
  by auto

text \<open>
  C40. A rule whose expression begins with one of the five comparisons \<open>latency_ms >\<close>,
  \<open>latency_p99 >\<close>, \<open>cache_hit_rate <\<close>, \<open>active_connections >\<close> or
  \<open>error_rate >\<close> and a blank never fires, whatever the threshold and the metrics: the evaluation
  looks for the pattern of \<open>parse_threshold\<close>, in which the braces are text. The rules about
  \<open>id_generation_...\<close> are not among them.
\<close>

lemma threshold_rules_never_fire:
  assumes "p \<in> set threshold_prefixes" and "starts_with (trim (ru_expression rule)) p"
  shows "default_evaluate rule metrics = (False, None)"
proof -
  define e where "e = trim (ru_expression rule)"
  have e: "starts_with e p"
    using assms(2) by (simp add: e_def)
  consider "p = ''latency_ms > ''" | "p = ''latency_p99 > ''" | "p = ''cache_hit_rate < ''"
    | "p = ''active_connections > ''" | "p = ''error_rate > ''"
    by (rule one_of_five [OF assms(1) [unfolded threshold_prefixes_def]])
  hence "evaluate_expr e metrics = (False, None)"
  proof cases
    case 1
    note clash = starts_with_clash [OF e, unfolded 1]
    have "\<not> starts_with e ''id_generation_failed'' \<and> \<not> starts_with e ''id_generation_qps'' \<and>
        \<not> starts_with e ''latency_ms {} ''"
      by (intro conjI clash; simp)
    thus ?thesis
      using e by (simp add: evaluate_expr_def parse_threshold_braces 1)
  next
    case 2
    note clash = starts_with_clash [OF e, unfolded 2]
    have "\<not> starts_with e ''id_generation_failed'' \<and> \<not> starts_with e ''id_generation_qps'' \<and>
        \<not> starts_with e ''latency_ms > '' \<and> \<not> starts_with e ''latency_p99 {} ''"
      by (intro conjI clash; simp)
    thus ?thesis
      using e by (simp add: evaluate_expr_def parse_threshold_braces 2)
  next
    case 3
    note clash = starts_with_clash [OF e, unfolded 3]
    have "\<not> starts_with e ''id_generation_failed'' \<and> \<not> starts_with e ''id_generation_qps'' \<and>
        \<not> starts_with e ''latency_ms > '' \<and> \<not> starts_with e ''latency_p99 > '' \<and>
        \<not> starts_with e ''cache_hit_rate {} ''"
      by (intro conjI clash; simp)
    thus ?thesis
      using e by (simp add: evaluate_expr_def parse_threshold_braces 3)
  next
    case 4
    note clash = starts_with_clash [OF e, unfolded 4]
    have "\<not> starts_with e ''id_generation_failed'' \<and> \<not> starts_with e ''id_generation_qps'' \<and>
        \<not> starts_with e ''latency_ms > '' \<and> \<not> starts_with e ''latency_p99 > '' \<and>
        \<not> starts_with e ''cache_hit_rate < '' \<and> \<not> starts_with e ''segment_exhausted'' \<and>
        \<not> starts_with e ''clock_backward'' \<and> \<not> starts_with e ''active_connections {} ''"
      by (intro conjI clash; simp)
    thus ?thesis
      using e by (simp add: evaluate_expr_def parse_threshold_braces 4)
  next
    case 5
    note clash = starts_with_clash [OF e, unfolded 5]
    have "\<not> starts_with e ''id_generation_failed'' \<and> \<not> starts_with e ''id_generation_qps'' \<and>
        \<not> starts_with e ''latency_ms > '' \<and> \<not> starts_with e ''latency_p99 > '' \<and>
        \<not> starts_with e ''cache_hit_rate < '' \<and> \<not> starts_with e ''segment_exhausted'' \<and>
        \<not> starts_with e ''clock_backward'' \<and> \<not> starts_with e ''active_connections > '' \<and>
        \<not> starts_with e ''error_rate {} ''"
      by (intro conjI clash; simp)
    thus ?thesis
      using e by (simp add: evaluate_expr_def parse_threshold_braces 5)
  qed
  thus ?thesis
    by (simp add: default_evaluate_def e_def)
qed

lemma threshold_rules_never_fire_witness:
  "default_evaluate (alert_rule_new ''hot'' ''active_connections > 5'' Info)
     (global_metrics_new 0\<lparr>gm_active_connections := 1000\<rparr>) = (False, None)"
proof (rule threshold_rules_never_fire)
  show "''active_connections > '' \<in> set threshold_prefixes"
    by (simp add: threshold_prefixes_def)
  show "starts_with (trim (ru_expression (alert_rule_new ''hot'' ''active_connections > 5'' Info))) ''active_connections > ''"
    by code_simp
qed

text \<open>A \<open>clock_backward\<close> rule fires as soon as any latency has been recorded.\<close>

lemma clock_backward_fires:
  assumes "starts_with (trim (ru_expression rule)) ''clock_backward''" and "0 < l"
  shows "fst (default_evaluate rule (global_metrics_new t\<lparr>gm_algorithms := [(alg, record_latency l (counters_new alg))]\<rparr>))"
proof -
  define e where "e = trim (ru_expression rule)"
  have e: "starts_with e ''clock_backward''"
    using assms(1) by (simp add: e_def)
  note clash = starts_with_clash [OF e]
  have "ac_p999_latency_ns (record_latency l (counters_new alg)) > 0"
    using assms(2) by (simp add: record_latency_fields counters_new_def counters_default_def)
  moreover have "\<not> starts_with e ''id_generation_failed'' \<and>
        \<not> starts_with e ''id_generation_qps'' \<and> \<not> starts_with e ''latency_ms > '' \<and>
        \<not> starts_with e ''latency_p99 > '' \<and> \<not> starts_with e ''cache_hit_rate < '' \<and>
        \<not> starts_with e ''segment_exhausted''"
    by (intro conjI clash; simp)
  ultimately have "fst (evaluate_expr e (global_metrics_new t\<lparr>gm_algorithms := [(alg, record_latency l (counters_new alg))]\<rparr>))"
    using e by (simp add: evaluate_expr_def)
  thus ?thesis
    by (simp add: default_evaluate_def e_def)
qed

section \<open>Where webhooks can be sent\<close>

text \<open>A request is only posted to a checked address: http or https, no credentials, no blocked host.\<close>

lemma posted_by_webhook:
  "Posted url payload \<in> set (send_webhook parse_url u x) \<Longrightarrow> validate_webhook_url parse_url url = Inr ()"
  by (cases "validate_webhook_url parse_url u") (auto simp: send_webhook_def)

lemma posted_checked:
  assumes "Posted url payload \<in> set (notification_send rfc3339 parse_url channels a)"
  shows "validate_webhook_url parse_url url = Inr ()"
proof -
  obtain ch where "Posted url payload \<in> set (send_to_channel rfc3339 parse_url a ch)"
    using assms by (auto simp: notification_send_def)
  thus ?thesis
    using posted_by_webhook by (cases "nc_channel_type ch") (auto simp: send_to_channel_def split: option.splits)
qed

lemma validate_webhook_url_spec:
  "validate_webhook_url parse_url url = Inr () \<longleftrightarrow>
    (\<exists>u h. parse_url url = Some u \<and> url_scheme u \<in> {''http'', ''https''} \<and> url_username u = [] \<and>
       url_password u = None \<and> url_host_str u = Some h \<and> \<not> is_blocked_host h)"
  by (auto simp: validate_webhook_url_def split: option.splits if_splits)

text \<open>An IPv4 host, as the \<open>url\<close> crate prints it, is refused exactly if its address is blocked.\<close>

lemma ipv4_host_blocked: "is_blocked_host (print_v4 a b c d) \<longleftrightarrow> is_blocked_ip (V4 a b c d)"
proof -
  have "set (print_v4 a b c d) \<subseteq> {ch. is_digit ch} \<union> {CHR ''.''}"
    using print_dec_digits by (auto simp: print_v4_def)
  moreover have "\<not> is_digit CHR ''l''"
    by (simp add: is_digit_def code_of_def)
  ultimately have l: "CHR ''l'' \<notin> set (print_v4 a b c d)"
    by auto
  have "print_v4 a b c d \<noteq> ''localhost''"
    using l by auto
  moreover have "drop n (print_v4 a b c d) \<noteq> ''.localhost''" for n
    using l set_drop_subset [of n "print_v4 a b c d"] by auto
  ultimately show ?thesis
    by (simp add: is_blocked_host_def parse_print_v4)
qed

text \<open>
  The \<open>url\<close> crate prints an IPv6 host in brackets, which the parser of addresses refuses: no such host is
  blocked, the loopback address included.
\<close>

lemma bracketed_no_address: "parse_ip (CHR ''['' # s) = None"
proof -
  have no: "\<not> is_digit CHR ''[''" "\<not> is_hex_digit CHR ''[''"
    by (simp_all add: is_hex_digit_def is_digit_def code_of_def)
  have "read_octet (CHR ''['' # s) = None" "read_segment (CHR ''['' # s) = None"
    using no by (simp_all add: read_octet_def read_segment_def)
  hence "read_ipv4_addr (CHR ''['' # s) = None" "read_groups 0 8 (CHR ''['' # s) = (([], False), CHR ''['' # s)"
    by (simp_all add: read_ipv4_addr_def read_separator_def eval_nat_numeral)
  thus ?thesis
    by (simp add: parse_ip_def read_ipv6_addr_def read_char_def)
qed

lemma ipv6_host_accepted:
  assumes "parse_url url = Some \<lparr>url_scheme = ''http'', url_username = [], url_password = None,
      url_host_str = Some (''['' @ h @ '']'')\<rparr>"
  shows "validate_webhook_url parse_url url = Inr ()"
proof -
  have "drop (length (''['' @ h @ '']'') - 10) (''['' @ h @ '']'') \<noteq> ''.localhost''"
  proof
    assume "drop (length (''['' @ h @ '']'') - 10) (''['' @ h @ '']'') = ''.localhost''"
    hence "last (drop (length (''['' @ h @ '']'') - 10) (''['' @ h @ '']'')) = last ''.localhost''"
      by (rule arg_cong)
    thus False
      by (simp add: last_drop)
  qed
  hence "\<not> is_blocked_host (''['' @ h @ '']'')"
    using bracketed_no_address [of "h @ '']''"] by (simp add: is_blocked_host_def)
  thus ?thesis
    using assms by (simp add: validate_webhook_url_def)
qed

lemma ipv6_host_accepted_witness:
  "validate_webhook_url
     [''http://[::1]/hook'' \<mapsto> \<lparr>url_scheme = ''http'', url_username = [], url_password = None,
       url_host_str = Some ''[::1]''\<rparr>] ''http://[::1]/hook'' = Inr () \<and>
   parse_ip ''::1'' = Some (V6 [0, 0, 0, 0, 0, 0, 0, 1]) \<and> is_blocked_ip (V6 [0, 0, 0, 0, 0, 0, 0, 1])"
  using ipv6_host_accepted [of "[''http://[::1]/hook'' \<mapsto> \<lparr>url_scheme = ''http'', url_username = [],
      url_password = None, url_host_str = Some ''[::1]''\<rparr>]" "''http://[::1]/hook''" "''::1''"]
    parse_ip_examples(2)
  by (simp add: is_blocked_ip_def)

end
