(* ===== verification/Alert_Manager.thy ===== *)
theory Alert_Manager
  imports Alerts
begin

text \<open>
  The \<open>AlertManager\<close> of \<open>src/src/core/monitoring/core.rs\<close>: evaluation of the rules, the history, changes of the
  rules and the evaluation loop.

  \<open>alert_env\<close> holds the evaluator and the foreign code. \<open>am_sent\<close> and \<open>am_deliveries\<close> are what was broadcast
  and what the channels did so far. \<open>am_shutdown_open\<close> says whether the channel of the shutdown signal has a
  sender: \<open>new\<close> drops it (\<open>let (_, shutdown_rx)\<close>), and \<open>recv\<close> on a channel without senders returns at once.
  An iteration of the loop is told whether the tick of the interval is due and which of two ready branches
  \<open>select!\<close> picks, which it does at random. All clock readings of one evaluation are one.
\<close>

record alert_env =
  en_rfc3339 :: "int \<Rightarrow> string"
  en_parse_url :: "string \<Rightarrow> url_parts option"
  en_evaluator :: evaluator

record alert_manager =
  am_config :: alerting_config
  am_states :: "(string \<times> alert_state) list"
  am_sent :: "alert list"
  am_channels :: "notification_channel list"
  am_deliveries :: "delivery list"
  am_metrics :: global_metrics
  am_running :: bool
  am_eval_interval :: u64
  am_shutdown_open :: bool
  am_history :: "alert list"
  am_max_history_size :: nat

definition alert_manager_new :: "alerting_config \<Rightarrow> global_metrics \<Rightarrow> notification_channel list \<Rightarrow> alert_manager" where
  "alert_manager_new cf metrics channels =
     \<lparr>am_config = cf,
      am_states = fold (\<lambda>rule. AList.update (ru_name rule) alert_state_new) (cf_rules cf) [],
      am_sent = [], am_channels = channels, am_deliveries = [], am_metrics = metrics, am_running = False,
      am_eval_interval = DEFAULT_EVALUATION_INTERVAL_MS, am_shutdown_open = False, am_history = [],
      am_max_history_size = 1000\<rparr>"

definition format_message :: "alert_rule \<Rightarrow> string option \<Rightarrow> string" where
  "format_message rule current_value =
     (case map_of (ru_annotations rule) ''summary'' of
        Some desc \<Rightarrow>
          (case current_value of Some v \<Rightarrow> desc @ '' (current: '' @ v @ '')'' | None \<Rightarrow> desc)
      | None \<Rightarrow> ''Alert rule '' @ quoted (ru_name rule) @ '' triggered: '' @ ru_expression rule)"

definition merge_labels :: "string_map \<Rightarrow> alerting_config \<Rightarrow> string_map" where
  "merge_labels rule_labels cf = fold (\<lambda>(k, v). AList.update k v) rule_labels (cf_global_labels cf)"

definition store_alert_to_history :: "alert \<Rightarrow> alert_manager \<Rightarrow> alert_manager" where
  "store_alert_to_history a am =
     am\<lparr>am_history :=
       (if length (am_history am) \<ge> am_max_history_size am then tl (am_history am) else am_history am) @ [a]\<rparr>"

text \<open>The change of a rule's state, and the status an alert is to be sent with.\<close>

definition rule_step ::
  "int \<Rightarrow> u64 \<Rightarrow> bool \<Rightarrow> string option \<Rightarrow> alert_state \<Rightarrow> alert_state \<times> alert_status option" where
  "rule_step now for_duration fires v st =
     (if fires then
        let st = promote now v st in
        if should_fire now for_duration st \<and> as_current_status st \<noteq> Firing
        then (st\<lparr>as_current_status := Firing, as_last_fired := Some now\<rparr>, Some Firing) else (st, None)
      else
        let st = demote st in
        if as_current_status st = Firing \<and> as_consecutive_promotions st = 0
        then (st\<lparr>as_current_status := Resolved\<rparr>, Some Resolved) else (st, None))"

definition state_of :: "alert_manager \<Rightarrow> string \<Rightarrow> alert_state" where
  "state_of am name = (case map_of (am_states am) name of Some st \<Rightarrow> st | None \<Rightarrow> alert_state_new)"

definition send_alert :: "alert_env \<Rightarrow> alert \<Rightarrow> alert_manager \<Rightarrow> alert_manager" where
  "send_alert env a am =
     (let am = store_alert_to_history a am in
      am\<lparr>am_sent := am_sent am @ [a],
         am_deliveries := am_deliveries am @
           notification_send (en_rfc3339 env) (en_parse_url env) (am_channels am) a\<rparr>)"

definition evaluate_rule :: "alert_env \<Rightarrow> int \<Rightarrow> alert_rule \<Rightarrow> alert_manager \<Rightarrow> alert_manager" where
  "evaluate_rule env now rule am =
     (case en_evaluator env rule (am_metrics am) of
        (fires, v) \<Rightarrow>
          (case rule_step now (ru_for_duration rule) fires v (state_of am (ru_name rule)) of
             (st, action) \<Rightarrow>
               let am1 = am\<lparr>am_states := AList.update (ru_name rule) st (am_states am)\<rparr>;
                   labels = merge_labels (ru_labels rule) (am_config am)
               in case action of
                    Some Firing \<Rightarrow>
                      send_alert env (alert_fire now (alert_new now (ru_name rule) (ru_severity rule)
                        (format_message rule v) labels v)) am1
                  | Some Resolved \<Rightarrow>
                      send_alert env (alert_resolve now (alert_new now (ru_name rule) (ru_severity rule)
                        (''Alert resolved: '' @ ru_name rule) labels None)) am1
                  | _ \<Rightarrow> am1))"

definition evaluate_all_rules :: "alert_env \<Rightarrow> int \<Rightarrow> alert_manager \<Rightarrow> alert_manager" where
  "evaluate_all_rules env now am =
     (if cf_enabled (am_config am)
      then fold (\<lambda>rule am. if ru_enabled rule then evaluate_rule env now rule am else am) (cf_rules (am_config am)) am
      else am)"

fun run_evaluation_loop ::
  "alert_env \<Rightarrow> (bool \<times> bool \<times> int) list \<Rightarrow> alert_manager \<Rightarrow> bool \<times> alert_manager" where
  "run_evaluation_loop env [] am = (False, am)"
| "run_evaluation_loop env ((tick_due, picks_tick, now) # rs) am =
     (if tick_due \<and> (picks_tick \<or> am_shutdown_open am)
      then run_evaluation_loop env rs (evaluate_all_rules env now am)
      else if \<not> am_shutdown_open am then (True, am)
      else run_evaluation_loop env rs am)"

definition alert_manager_start ::
  "alert_env \<Rightarrow> (bool \<times> bool \<times> int) list \<Rightarrow> alert_manager \<Rightarrow> bool \<times> alert_manager" where
  "alert_manager_start env rs am =
     (if am_running am then (True, am)
      else run_evaluation_loop env rs
        (am\<lparr>am_running := True, am_eval_interval := cf_evaluation_interval_ms (am_config am)\<rparr>))"

section \<open>Changes and queries\<close>

definition update_channels :: "notification_channel list \<Rightarrow> alert_manager \<Rightarrow> alert_manager" where
  "update_channels channels am = am\<lparr>am_channels := channels\<rparr>"

definition am_update_config :: "alerting_config \<Rightarrow> alert_manager \<Rightarrow> alert_manager" where
  "am_update_config cf am = am\<lparr>am_eval_interval := cf_evaluation_interval_ms cf, am_config := cf\<rparr>"

definition am_get_state :: "string \<Rightarrow> alert_manager \<Rightarrow> alert_state option" where
  "am_get_state name am = map_of (am_states am) name"

definition alert_states_all :: "alert_manager \<Rightarrow> (string \<times> alert_state) list" where
  "alert_states_all am = am_states am"

definition get_alerts :: "alert_manager \<Rightarrow> alert list" where
  "get_alerts am = am_history am"

definition get_alerts_by_severity :: "alert_severity \<Rightarrow> alert_manager \<Rightarrow> alert list" where
  "get_alerts_by_severity severity am = filter (\<lambda>a. al_severity a = severity) (am_history am)"

definition get_alerts_by_status :: "alert_status \<Rightarrow> alert_manager \<Rightarrow> alert list" where
  "get_alerts_by_status status am = filter (\<lambda>a. al_status a = status) (am_history am)"

definition get_firing_alerts :: "alert_manager \<Rightarrow> alert list" where
  "get_firing_alerts am = get_alerts_by_status Firing am"

definition get_recent_alerts :: "nat \<Rightarrow> alert_manager \<Rightarrow> alert list" where
  "get_recent_alerts n am = take n (rev (am_history am))"

definition get_alert_count :: "alert_manager \<Rightarrow> nat" where
  "get_alert_count am = length (am_history am)"

definition clear_alert_history :: "alert_manager \<Rightarrow> alert_manager" where
  "clear_alert_history am = am\<lparr>am_history := []\<rparr>"

definition alert_manager_shutdown :: "alert_manager \<Rightarrow> alert_manager" where
  "alert_manager_shutdown am =
     (if am_running am then am\<lparr>am_running := False, am_shutdown_open := False\<rparr> else am)"

definition add_rule :: "alert_rule \<Rightarrow> alert_manager \<Rightarrow> alert_manager" where
  "add_rule rule am =
     am\<lparr>am_states := (if map_of (am_states am) (ru_name rule) = None
                      then AList.update (ru_name rule) alert_state_new (am_states am) else am_states am),
        am_config := (am_config am)\<lparr>cf_rules := cf_rules (am_config am) @ [rule]\<rparr>\<rparr>"

definition remove_rule :: "string \<Rightarrow> alert_manager \<Rightarrow> alert_manager" where
  "remove_rule name am =
     am\<lparr>am_config := (am_config am)\<lparr>cf_rules := filter (\<lambda>r. ru_name r \<noteq> name) (cf_rules (am_config am))\<rparr>,
        am_states := AList.delete name (am_states am)\<rparr>"

definition default_alerting_config :: alerting_config where
  "default_alerting_config =
     \<lparr>cf_enabled = True, cf_evaluation_interval_ms = 1000,
      cf_rules =
        [\<lparr>ru_name = ''high_latency'', ru_expression = ''latency_p99 > 100'', ru_for_duration = 60,
          ru_severity = Warning, ru_labels = [], ru_annotations = [(''summary'', ''P99 latency exceeds 100ms'')],
          ru_enabled = True, ru_description = ''High P99 latency alert''\<rparr>,
         \<lparr>ru_name = ''low_cache_hit_rate'', ru_expression = ''cache_hit_rate < 95'', ru_for_duration = 120,
          ru_severity = Warning, ru_labels = [],
          ru_annotations = [(''summary'', ''Cache hit rate below 95'' @ [CHR 0x25])],
          ru_enabled = True, ru_description = ''Low cache hit rate alert''\<rparr>,
         \<lparr>ru_name = ''generation_failures'', ru_expression = ''id_generation_failed'', ru_for_duration = 10,
          ru_severity = Critical, ru_labels = [],
          ru_annotations = [(''summary'', ''ID generation failures detected'')],
          ru_enabled = True, ru_description = ''ID generation failure alert''\<rparr>,
         \<lparr>ru_name = ''high_error_rate'', ru_expression = ''error_rate > 1'', ru_for_duration = 60,
          ru_severity = Critical, ru_labels = [],
          ru_annotations = [(''summary'', ''Error rate exceeds 1'' @ [CHR 0x25])],
          ru_enabled = True, ru_description = ''High error rate alert''\<rparr>],
      cf_channels = [\<lparr>nc_name = ''stdout'', nc_channel_type = Stdout, nc_config = [], nc_enabled = True\<rparr>],
      cf_global_labels = [(''service'', ''nebula-id'')]\<rparr>"

section \<open>The loop ends at once\<close>

text \<open>Nothing fires on its first evaluation when its duration is positive.\<close>

lemma first_step_silent:
  assumes "0 < d" and "as_current_status st \<noteq> Firing" and "as_pending_since st = None \<or> as_pending_since st = Some now"
  shows "rule_step now d fires v st = (fst (rule_step now d fires v st), None) \<and>
    as_current_status (fst (rule_step now d fires v st)) \<noteq> Firing \<and>
    (as_pending_since (fst (rule_step now d fires v st)) = None \<or>
     as_pending_since (fst (rule_step now d fires v st)) = Some now)"
proof -
  have "0 < uint d"
    using assms(1) by (simp add: word_less_def)
  thus ?thesis
    using assms by (auto simp: rule_step_def promote_def demote_def should_fire_def Let_def)
qed

definition quiet :: "int \<Rightarrow> alert_manager \<Rightarrow> bool" where
  "quiet now am \<longleftrightarrow>
     am_sent am = [] \<and> am_history am = [] \<and> am_deliveries am = [] \<and>
     (\<forall>name. as_current_status (state_of am name) \<noteq> Firing \<and>
        (as_pending_since (state_of am name) = None \<or> as_pending_since (state_of am name) = Some now))"

lemma quiet_rule:
  assumes "quiet now am" and "0 < ru_for_duration rule"
  shows "quiet now (evaluate_rule env now rule am)"
proof -
  obtain fires v where ev: "en_evaluator env rule (am_metrics am) = (fires, v)"
    by fastforce
  let ?st = "state_of am (ru_name rule)"
  have "as_current_status ?st \<noteq> Firing" "as_pending_since ?st = None \<or> as_pending_since ?st = Some now"
    using assms(1) by (auto simp: quiet_def)
  note step = first_step_silent [OF assms(2) this, of fires v]
  then obtain st where st: "rule_step now (ru_for_duration rule) fires v ?st = (st, None)"
      "as_current_status st \<noteq> Firing" "as_pending_since st = None \<or> as_pending_since st = Some now"
    by metis
  thus ?thesis
    using assms(1) by (simp add: quiet_def evaluate_rule_def ev state_of_def update_conv')
qed

lemma quiet_all:
  assumes "quiet now am" and "\<And>rule. rule \<in> set (cf_rules (am_config am)) \<Longrightarrow> 0 < ru_for_duration rule"
  shows "quiet now (evaluate_all_rules env now am)"
proof -
  have "quiet now (fold (\<lambda>rule am. if ru_enabled rule then evaluate_rule env now rule am else am) rules am)"
    if "quiet now am" and "\<And>rule. rule \<in> set rules \<Longrightarrow> 0 < ru_for_duration rule" for rules am
    using that by (induction rules arbitrary: am) (auto intro: quiet_rule)
  thus ?thesis
    using assms by (simp add: evaluate_all_rules_def)
qed

lemma new_states: "map_of (fold (\<lambda>rule. AList.update (ru_name rule) st) rules al) name =
    (if name \<in> ru_name ` set rules then Some st else map_of al name)"
  by (induction rules arbitrary: al) (auto simp: update_conv')

lemma state_of_new: "state_of (alert_manager_new cf metrics channels) name = alert_state_new"
  by (simp add: state_of_def alert_manager_new_def new_states)

lemma quiet_new: "quiet now (alert_manager_new cf metrics channels)"
  by (simp add: quiet_def state_of_new alert_state_new_def) (simp add: alert_manager_new_def)

text \<open>
  C39. A manager that has been started stops by itself: the sender of the shutdown channel is gone, so \<open>select!\<close>
  finds that branch ready whenever no tick is due. If the first evaluation ends before the second tick,
  nothing is ever sent, whatever the rules and the metrics.
\<close>

lemma alerting_stops:
  assumes "\<And>rule. rule \<in> set (cf_rules cf) \<Longrightarrow> 0 < ru_for_duration rule"
  shows "case alert_manager_start env ((due, picks, t) # (False, picks', t') # rs)
      (alert_manager_new cf metrics channels) of
    (ended, am) \<Rightarrow> ended \<and> am_sent am = [] \<and> am_history am = [] \<and> am_deliveries am = []"
proof -
  let ?am = "alert_manager_new cf metrics channels\<lparr>am_running := True,
      am_eval_interval := cf_evaluation_interval_ms cf\<rparr>"
  have shut: "\<not> am_shutdown_open (evaluate_all_rules env t ?am)" "\<not> am_shutdown_open ?am"
  proof -
    have rule: "am_shutdown_open (evaluate_rule env t rule am) = am_shutdown_open am" for rule am
      by (simp add: evaluate_rule_def send_alert_def store_alert_to_history_def Let_def
          split: prod.splits option.splits alert_status.splits)
    have "am_shutdown_open (fold (\<lambda>rule am. if ru_enabled rule then evaluate_rule env t rule am else am) rules am)
        = am_shutdown_open am" for rules am
      by (induction rules arbitrary: am) (simp_all add: rule)
    thus "\<not> am_shutdown_open (evaluate_all_rules env t ?am)" "\<not> am_shutdown_open ?am"
      by (simp_all add: evaluate_all_rules_def alert_manager_new_def)
  qed
  have q: "quiet t ?am"
    using quiet_new [of t cf metrics channels] by (simp add: quiet_def state_of_def)
  have "quiet t (evaluate_all_rules env t ?am)"
    by (rule quiet_all [OF q]) (simp add: alert_manager_new_def assms)
  thus ?thesis
    using q shut by (auto simp: alert_manager_start_def quiet_def) (simp_all add: alert_manager_new_def)
qed

section \<open>Alerts alternate\<close>

datatype am_op =
  Evaluate int global_metrics | AddRule alert_rule | UpdateConfig alerting_config
| UpdateChannels "notification_channel list" | ClearHistory

fun am_step :: "alert_env \<Rightarrow> am_op \<Rightarrow> alert_manager \<Rightarrow> alert_manager" where
  "am_step env (Evaluate now metrics) am = evaluate_all_rules env now (am\<lparr>am_metrics := metrics\<rparr>)"
| "am_step env (AddRule rule) am = add_rule rule am"
| "am_step env (UpdateConfig cf) am = am_update_config cf am"
| "am_step env (UpdateChannels channels) am = update_channels channels am"
| "am_step env ClearHistory am = clear_alert_history am"

definition statuses :: "string \<Rightarrow> alert_manager \<Rightarrow> alert_status list" where
  "statuses name am = map al_status (filter (\<lambda>a. al_rule_name a = name) (am_sent am))"

definition alternating :: "nat \<Rightarrow> alert_status list" where
  "alternating n = map (\<lambda>i. if even i then Firing else Resolved) [0..<n]"

definition well_alternating :: "alert_manager \<Rightarrow> bool" where
  "well_alternating am \<longleftrightarrow>
     (\<forall>name. statuses name am = alternating (length (statuses name am)) \<and>
        (as_current_status (state_of am name) = Firing \<longleftrightarrow> odd (length (statuses name am))))"

lemma rule_step_status:
  "rule_step now d fires v st = (st', action) \<Longrightarrow>
     (action = None \<and> (as_current_status st' = Firing \<longleftrightarrow> as_current_status st = Firing)) \<or>
     (action = Some Firing \<and> as_current_status st \<noteq> Firing \<and> as_current_status st' = Firing) \<or>
     (action = Some Resolved \<and> as_current_status st = Firing \<and> as_current_status st' = Resolved)"
  by (auto simp: rule_step_def promote_def demote_def Let_def split: if_splits)

lemma alternating_Suc: "alternating (Suc n) = alternating n @ [if even n then Firing else Resolved]"
  by (simp add: alternating_def)

lemma length_alternating [simp]: "length (alternating n) = n"
  by (simp add: alternating_def)

lemma send_alert_simps:
  "am_sent (send_alert env a am) = am_sent am @ [a]" "am_states (send_alert env a am) = am_states am"
  by (simp_all add: send_alert_def store_alert_to_history_def Let_def)

lemma well_alternating_rule:
  assumes "well_alternating am"
  shows "well_alternating (evaluate_rule env now rule am)"
proof -
  obtain fires v where ev: "en_evaluator env rule (am_metrics am) = (fires, v)"
    by fastforce
  obtain st action where st: "rule_step now (ru_for_duration rule) fires v (state_of am (ru_name rule)) = (st, action)"
    by fastforce
  let ?am = "evaluate_rule env now rule am" and ?n = "ru_name rule"
  have states: "state_of ?am name = (if name = ?n then st else state_of am name)" for name
  proof -
    have "am_states ?am = AList.update ?n st (am_states am)"
      by (simp add: evaluate_rule_def ev st send_alert_simps Let_def split: option.split alert_status.split)
    thus ?thesis
      by (simp add: state_of_def update_conv')
  qed
  have sent: "statuses name ?am = statuses name am @ (if name = ?n \<and> action \<noteq> None then [the action] else [])"
    for name
    using rule_step_status [OF st]
    by (auto simp: evaluate_rule_def ev st statuses_def send_alert_simps Let_def alert_fire_def alert_resolve_def
        alert_new_def)
  show ?thesis
    unfolding well_alternating_def
  proof (intro allI)
    fix name
    have old: "statuses name am = alternating (length (statuses name am))"
        "as_current_status (state_of am name) = Firing \<longleftrightarrow> odd (length (statuses name am))"
      using assms by (auto simp: well_alternating_def)
    show "statuses name ?am = alternating (length (statuses name ?am)) \<and>
        (as_current_status (state_of ?am name) = Firing \<longleftrightarrow> odd (length (statuses name ?am)))"
    proof (cases "name = ?n")
      case True
      show ?thesis
        using rule_step_status [OF st] old unfolding sent states True
        by (elim disjE) (simp_all add: alternating_Suc)
    qed (use old in \<open>simp add: sent states\<close>)
  qed
qed

lemma well_alternating_all:
  assumes "well_alternating am"
  shows "well_alternating (evaluate_all_rules env now am)"
proof -
  have "well_alternating (fold (\<lambda>rule am. if ru_enabled rule then evaluate_rule env now rule am else am) rules am)"
    if "well_alternating am" for rules am
    using that by (induction rules arbitrary: am) (auto intro: well_alternating_rule)
  thus ?thesis
    using assms by (simp add: evaluate_all_rules_def)
qed

lemma well_alternating_same:
  assumes "well_alternating am" and "am_sent am' = am_sent am" and "\<And>name. state_of am' name = state_of am name"
  shows "well_alternating am'"
  using assms by (simp add: well_alternating_def statuses_def)

lemma well_alternating_step:
  assumes "well_alternating am"
  shows "well_alternating (am_step env op am)"
proof (cases op)
  case (Evaluate now metrics)
  have "well_alternating (am\<lparr>am_metrics := metrics\<rparr>)"
    using assms by (rule well_alternating_same) (simp_all add: state_of_def)
  thus ?thesis
    by (simp add: Evaluate well_alternating_all)
next
  case (AddRule rule)
  show ?thesis
    by (rule well_alternating_same [OF assms])
      (auto simp: AddRule add_rule_def state_of_def update_conv' split: option.splits)
qed (rule well_alternating_same [OF assms];
  simp add: am_update_config_def update_channels_def clear_alert_history_def state_of_def)+

text \<open>
  C38. Whatever is evaluated, added and configured, the alerts sent for one rule name are fired and resolved in
  turns, beginning with a fired one, and the rule's state says whether the last one was fired.
\<close>

lemma alerts_alternate:
  "well_alternating (fold (am_step env) ops (alert_manager_new cf metrics channels))"
proof (induction ops rule: rev_induct)
  case Nil
  have "am_sent (alert_manager_new cf metrics channels) = []"
    by (simp add: alert_manager_new_def)
  thus ?case
    by (simp add: well_alternating_def statuses_def alternating_def state_of_new alert_state_new_def)
next
  case (snoc op ops)
  thus ?case
    by (simp add: well_alternating_step)
qed

text \<open>Removing a rule that fires forgets it: its alert is never resolved.\<close>

definition always_env :: "bool \<Rightarrow> alert_env" where
  "always_env b = \<lparr>en_rfc3339 = (\<lambda>_. []), en_parse_url = (\<lambda>_. None), en_evaluator = (\<lambda>_ _. (b, None))\<rparr>"

definition demo_rule :: alert_rule where
  "demo_rule = (alert_rule_new ''r'' ''true'' Info)\<lparr>ru_for_duration := 0\<rparr>"

definition demo_manager :: alert_manager where
  "demo_manager =
     alert_manager_new (alerting_config_default\<lparr>cf_enabled := True, cf_rules := [demo_rule]\<rparr>) (global_metrics_new 0) []"

lemma removed_rule_unresolved:
  "map al_status (am_sent (evaluate_all_rules (always_env False) 2
     (remove_rule ''r'' (evaluate_all_rules (always_env True) 1 demo_manager)))) = [Firing]"
  by code_simp

text \<open>The default rules all have a duration.\<close>

lemma default_rules_wait: "rule \<in> set (cf_rules default_alerting_config) \<Longrightarrow> 0 < ru_for_duration rule"
  by (auto simp: default_alerting_config_def)

lemma alerting_stops_witness:
  "case alert_manager_start (always_env True) [(True, True, 0), (False, True, 5), (True, True, 10 ^ 12)]
      (alert_manager_new default_alerting_config (global_metrics_new 0) []) of
    (ended, am) \<Rightarrow> ended \<and> am_sent am = [] \<and> am_history am = [] \<and> am_deliveries am = []"
  by (rule alerting_stops) (rule default_rules_wait)

text \<open>Of the default rules only the one for failed generations can ever fire.\<close>

lemma default_rules_that_fire:
  assumes "rule \<in> set (cf_rules default_alerting_config)" and "fst (default_evaluate rule metrics)"
  shows "ru_name rule = ''generation_failures'' \<and> gm_total_errors metrics > 0"
proof -
  have never: "\<not> fst (default_evaluate r metrics)" if "ru_expression r = e" "starts_with (trim e) p" "p \<in> set threshold_prefixes"
    for r e p
    using threshold_rules_never_fire [OF that(3)] that(1,2) by simp
  have p: "''latency_p99 > '' \<in> set threshold_prefixes" "''cache_hit_rate < '' \<in> set threshold_prefixes"
      "''error_rate > '' \<in> set threshold_prefixes"
    by (simp_all add: threshold_prefixes_def)
  have "starts_with (trim ''latency_p99 > 100'') ''latency_p99 > ''"
      "starts_with (trim ''cache_hit_rate < 95'') ''cache_hit_rate < ''"
      "starts_with (trim ''error_rate > 1'') ''error_rate > ''"
    by code_simp+
  note no = never [OF _ this(1) p(1)] never [OF _ this(2) p(2)] never [OF _ this(3) p(3)]
  obtain a b c d where rules: "cf_rules default_alerting_config = [a, b, c, d]"
      and e: "ru_expression a = ''latency_p99 > 100''" "ru_expression b = ''cache_hit_rate < 95''"
        "ru_expression d = ''error_rate > 1''"
      and c: "ru_expression c = ''id_generation_failed''" "ru_name c = ''generation_failures''"
    by (simp add: default_alerting_config_def)
  have "rule \<noteq> a" "rule \<noteq> b" "rule \<noteq> d"
    using no(1) [OF e(1)] no(2) [OF e(2)] no(3) [OF e(3)] assms(2) by blast+
  hence "rule = c"
    using assms(1) rules by simp
  moreover have "starts_with (trim ''id_generation_failed'') ''id_generation_failed''"
    by code_simp
  hence "fst (default_evaluate c metrics) \<longleftrightarrow> gm_total_errors metrics > 0"
    by (simp only: default_evaluate_def evaluate_expr_def c if_True fst_conv)
  ultimately show ?thesis
    using c(2) assms(2) by simp
qed

section \<open>How long an alert fires\<close>

fun rule_run :: "u64 \<Rightarrow> (int \<times> bool) list \<Rightarrow> alert_state \<Rightarrow> alert_state \<times> alert_status list" where
  "rule_run d [] st = (st, [])"
| "rule_run d ((now, fires) # es) st =
     (case rule_step now d fires None st of
        (st, action) \<Rightarrow> (case rule_run d es st of
          (st', out) \<Rightarrow> (st', (case action of None \<Rightarrow> out | Some s \<Rightarrow> s # out))))"

text \<open>
  A firing alert with \<open>k\<close> promotions is resolved by the \<open>k\<close>-th evaluation that does not hold: the count, which
  saturates at 255, has to go back to 0.
\<close>

lemma demote_firing:
  assumes "as_current_status st = Firing" and "as_consecutive_promotions st = c" and "0 < c"
  shows "rule_step now d False v st =
    (let st' = st\<lparr>as_consecutive_promotions := c - 1\<rparr>
     in if c = 1 then (st'\<lparr>as_pending_since := None, as_current_status := Resolved\<rparr>, Some Resolved) else (st', None))"
  using assms by (auto simp: rule_step_def demote_def Let_def sat_sub_def word_less_1 unsigned_eq_0_iff
      dest: word_of_int_inverse)

lemma not_firing_silent:
  "as_current_status st \<noteq> Firing \<Longrightarrow> snd (rule_run d (map (\<lambda>t. (t, False)) ts) st) = []"
  by (induction ts arbitrary: st) (auto simp: rule_step_def demote_def Let_def case_prod_beta)

lemma resolution_delay:
  assumes "as_current_status st = Firing" and "0 < as_consecutive_promotions st"
  shows "snd (rule_run d (map (\<lambda>t. (t, False)) ts) st) =
    (if length ts < unat (as_consecutive_promotions st) then [] else [Resolved])"
  using assms
proof (induction ts arbitrary: st)
  case Nil
  thus ?case
    by (simp add: unat_gt_0)
next
  case (Cons t ts)
  let ?c = "as_consecutive_promotions st"
  note step = demote_firing [OF Cons.prems(1) refl Cons.prems(2), of t d None]
  show ?case
  proof (cases "?c = 1")
    case True
    thus ?thesis
      using step not_firing_silent [of "st\<lparr>as_consecutive_promotions := 0, as_pending_since := None,
          as_current_status := Resolved\<rparr>" d ts]
      by (simp add: Let_def case_prod_beta)
  next
    case False
    let ?st = "st\<lparr>as_consecutive_promotions := ?c - 1\<rparr>"
    have c: "unat ?c \<noteq> 0" "unat ?c \<noteq> 1"
      using Cons.prems(2) by (simp add: word_less_nat_alt) (use False in \<open>simp add: word_unat_eq_iff\<close>)
    have "unat (?c - 1) = unat ?c - 1"
      using c by (subst unat_sub) (simp_all add: word_le_nat_alt)
    moreover from this have "0 < ?c - 1"
      using c by (simp add: word_less_nat_alt)
    ultimately show ?thesis
      using Cons.IH [of ?st] Cons.prems(1) step False c by (auto simp: Let_def case_prod_beta)
  qed
qed

lemma promote_firing:
  assumes "as_current_status st = Firing"
  shows "rule_step now d True v st =
    (st\<lparr>as_consecutive_promotions := sat_add (as_consecutive_promotions st) 1, as_current_value := v\<rparr>, None)"
  using assms by (simp add: rule_step_def promote_def Let_def)

lemma sat_add_one: "unat (sat_add c (1 :: u8)) = min 255 (unat c + 1)"
proof -
  have "unat (- 1 :: u8) = 255"
    by code_simp
  moreover have "unat c < 256"
    using unsigned_less [of c] by simp
  ultimately show ?thesis
    by (auto simp: sat_add_def unat_add_bounded)
qed

lemma keeps_firing:
  assumes "as_current_status st = Firing"
  shows "snd (rule_run d (map (\<lambda>t. (t, True)) us @ es) st) =
      snd (rule_run d es (fst (rule_run d (map (\<lambda>t. (t, True)) us) st)))"
    and "as_current_status (fst (rule_run d (map (\<lambda>t. (t, True)) us) st)) = Firing"
    and "unat (as_consecutive_promotions (fst (rule_run d (map (\<lambda>t. (t, True)) us) st))) =
      min 255 (unat (as_consecutive_promotions st) + length us)"
proof -
  have "snd (rule_run d (map (\<lambda>t. (t, True)) us @ es) st) =
      snd (rule_run d es (fst (rule_run d (map (\<lambda>t. (t, True)) us) st))) \<and>
    as_current_status (fst (rule_run d (map (\<lambda>t. (t, True)) us) st)) = Firing \<and>
    unat (as_consecutive_promotions (fst (rule_run d (map (\<lambda>t. (t, True)) us) st))) =
      min 255 (unat (as_consecutive_promotions st) + length us)"
    using assms
  proof (induction us arbitrary: st)
    case Nil
    have "unat (as_consecutive_promotions st) < 256"
      using unsigned_less [of "as_consecutive_promotions st"] by simp
    thus ?case
      using Nil by simp
  next
    case (Cons u us)
    thus ?case
      by (simp add: promote_firing sat_add_one case_prod_beta)
  qed
  thus "snd (rule_run d (map (\<lambda>t. (t, True)) us @ es) st) =
      snd (rule_run d es (fst (rule_run d (map (\<lambda>t. (t, True)) us) st)))"
    and "as_current_status (fst (rule_run d (map (\<lambda>t. (t, True)) us) st)) = Firing"
    and "unat (as_consecutive_promotions (fst (rule_run d (map (\<lambda>t. (t, True)) us) st))) =
      min 255 (unat (as_consecutive_promotions st) + length us)"
    by blast+
qed

text \<open>
  An alert without a delay fires with the first evaluation that holds; to resolve it takes as many evaluations
  that do not hold as there were that did, up to 255.
\<close>

lemma as_many_to_resolve:
  "snd (rule_run 0 (map (\<lambda>t. (t, True)) us @ map (\<lambda>t. (t, False)) ts) alert_state_new) =
    (if us = [] then []
     else Firing # (if length ts < min 255 (length us) then [] else [Resolved]))"
proof (cases us)
  case Nil
  thus ?thesis
    by (simp add: not_firing_silent alert_state_new_def)
next
  case (Cons u us')
  obtain st where st: "rule_step u 0 True None alert_state_new = (st, Some Firing)"
      "as_current_status st = Firing" "as_consecutive_promotions st = 1"
    by (simp add: rule_step_def promote_def should_fire_def alert_state_new_def sat_add_def Let_def)
  let ?st = "fst (rule_run 0 (map (\<lambda>t. (t, True)) us') st)"
  note keep = keeps_firing [OF st(2), of 0 us']
  have n: "unat (as_consecutive_promotions ?st) = min 255 (length us)"
    using keep(3) st(3) Cons by simp
  hence "0 < as_consecutive_promotions ?st"
    using Cons by (simp add: word_less_nat_alt)
  from resolution_delay [OF keep(2) this, of 0 ts] show ?thesis
    using keep(1) st(1) n Cons by (simp add: case_prod_beta)
qed

text \<open>An alert can fire although its condition did not hold for all of its duration.\<close>

lemma flapping_fires:
  "snd (rule_run 60 [(0, True), (10 ^ 9, True), (2 * 10 ^ 9, False), (60 * 10 ^ 9, True)] alert_state_new) = [Firing]"
  by code_simp

end
