(* ===== verification/Grpc.thy ===== *)
theory Grpc
  imports Config_Service Id_Handlers
begin

text \<open>
  The gRPC service of \<open>src/src/server/grpc.rs\<close>, on the handlers of \<open>Id_Handlers\<close>. \<open>start_grpc_server\<close> in
  \<open>main.rs\<close> serves it without any middleware, so a call reaches these functions with no key checked.

  A message is a record of its fields (\<open>int32\<close> and \<open>int64\<close> are signed words); request metadata, the transport
  and log output are left out. \<open>stamp\<close> is the RFC 3339 text of the clock, a product of the \<open>chrono\<close> crate. Of
  the channel behind a stream only the number of messages is kept that are sent before the client hangs up.
\<close>

section \<open>Messages\<close>

record grpc_generate_request =
  gq_namespace :: string
  gq_tag :: string

record grpc_generate_response =
  gs_id :: string
  gs_timestamp :: "64 word"
  gs_sequence :: "32 word"
  gs_worker_id :: "32 word"
  gs_algorithm :: string

record grpc_batch_request =
  gb_namespace :: string
  gb_tag :: string
  gb_count :: "32 word"

record grpc_parse_response =
  gpr_id :: string
  gpr_timestamp :: "64 word"
  gpr_sequence :: "32 word"
  gpr_worker_id :: "32 word"
  gpr_algorithm :: string
  gpr_metadata :: "(string \<times> string) list"

datatype grpc_code = CodeInvalidArgument | CodeInternal

type_synonym grpc_status = "grpc_code \<times> string"

datatype serving_status = Serving | NotServing

text \<open>\<open>parse().unwrap_or(0)\<close>.\<close>

definition stamp_number :: "string \<Rightarrow> 64 word" where
  "stamp_number stamp = (case parse_i64 stamp of Some v \<Rightarrow> of_int v | None \<Rightarrow> 0)"

definition error_text :: "(string \<Rightarrow> (string \<times> string) list \<Rightarrow> string) \<Rightarrow> core_error \<Rightarrow> string" where
  "error_text t e = t (i18n_key e) (i18n_args e)"

section \<open>Calls\<close>

definition grpc_generate ::
  "(string \<Rightarrow> (string \<times> string) list \<Rightarrow> string) \<Rightarrow> (u128 \<Rightarrow> string) \<Rightarrow> 's id_service \<Rightarrow> u64 \<Rightarrow> string \<Rightarrow>
   grpc_generate_request \<Rightarrow> api_metrics \<Rightarrow> 's \<Rightarrow>
   ((grpc_status + grpc_generate_response) \<times> api_metrics \<times> 's) option" where
  "grpc_generate t disp svc latency stamp req m s =
     map_option (\<lambda>(r, ms).
       (case r of
          Inr resp \<Rightarrow> Inr \<lparr>gs_id = gp_id resp, gs_timestamp = stamp_number (gp_timestamp resp), gs_sequence = 0,
                        gs_worker_id = 0, gs_algorithm = gp_algorithm resp\<rparr>
        | Inl e \<Rightarrow> Inl (CodeInternal, error_text t e), ms))
       (handle_generate disp svc latency stamp
          \<lparr>gr_workspace = gq_namespace req, gr_group = gq_tag req, gr_biz_tag = gq_tag req, gr_algorithm = None\<rparr> m s)"

text \<open>\<open>count as usize\<close> extends the sign.\<close>

definition usize_of :: "32 word \<Rightarrow> nat" where
  "usize_of n = unat (scast n :: u64)"

definition grpc_batch_handler_request :: "grpc_batch_request \<Rightarrow> batch_request" where
  "grpc_batch_handler_request req =
     \<lparr>br_workspace = gb_namespace req, br_group = gb_tag req, br_biz_tag = gb_tag req,
      br_size = Some (usize_of (gb_count req)), br_algorithm = None\<rparr>"

definition grpc_ids :: "batch_response \<Rightarrow> grpc_generate_response list" where
  "grpc_ids resp =
     map (\<lambda>i. \<lparr>gs_id = i, gs_timestamp = stamp_number (bp_timestamp resp), gs_sequence = 0, gs_worker_id = 0,
               gs_algorithm = bp_algorithm resp\<rparr>) (bp_ids resp)"

definition grpc_batch_generate ::
  "(string \<Rightarrow> (string \<times> string) list \<Rightarrow> string) \<Rightarrow> (u128 \<Rightarrow> string) \<Rightarrow> 's id_service \<Rightarrow> u32 \<Rightarrow> u64 \<Rightarrow> string \<Rightarrow>
   grpc_batch_request \<Rightarrow> api_metrics \<Rightarrow> 's \<Rightarrow>
   ((grpc_status + grpc_generate_response list) \<times> api_metrics \<times> 's) option" where
  "grpc_batch_generate t disp svc limit latency stamp req m s =
     (if gb_count req = 0 then Some (Inl (CodeInvalidArgument, ''Batch size cannot be zero''), m, s)
      else if sint (gb_count req) > 100 then
        Some (Inl (CodeInvalidArgument, ''Batch size '' @ print_dec (unat (gb_count req)) @
          '' exceeds maximum allowed value of 100''), m, s)
      else map_option (\<lambda>(r, ms).
          (case r of Inr resp \<Rightarrow> Inr (grpc_ids resp) | Inl e \<Rightarrow> Inl (CodeInternal, error_text t e), ms))
        (handle_batch_generate t disp svc limit latency stamp (grpc_batch_handler_request req) m s))"

datatype stream_item = StreamRequest grpc_batch_request u64 string | StreamError string

definition stream_error_response :: "string \<Rightarrow> grpc_generate_response" where
  "stream_error_response txt = \<lparr>gs_id = [], gs_timestamp = 0, gs_sequence = 0, gs_worker_id = 0, gs_algorithm = txt\<rparr>"

fun batch_generate_stream ::
  "(string \<Rightarrow> (string \<times> string) list \<Rightarrow> string) \<Rightarrow> (u128 \<Rightarrow> string) \<Rightarrow> 's id_service \<Rightarrow> u32 \<Rightarrow> nat \<Rightarrow>
   stream_item list \<Rightarrow> api_metrics \<Rightarrow> 's \<Rightarrow> (grpc_generate_response list \<times> api_metrics \<times> 's) option" where
  "batch_generate_stream t disp svc limit room [] m s = Some ([], m, s)"
| "batch_generate_stream t disp svc limit room (StreamError e # items) m s =
     Some (take room [stream_error_response (''stream error: '' @ e)], m, s)"
| "batch_generate_stream t disp svc limit room (StreamRequest req latency stamp # items) m s =
     (case handle_batch_generate t disp svc limit latency stamp (grpc_batch_handler_request req) m s of
        None \<Rightarrow> None
      | Some (r, m', s') \<Rightarrow>
          (let out = (case r of Inr resp \<Rightarrow> grpc_ids resp
                      | Inl e \<Rightarrow> [stream_error_response (''error: '' @ error_text t e)])
           in map_option (\<lambda>(rest, ms). (take room out @ rest, ms))
                (batch_generate_stream t disp svc limit (room - length out) items m' s')))"

definition grpc_parse ::
  "(string \<Rightarrow> (string \<times> string) list \<Rightarrow> string) \<Rightarrow> (string \<Rightarrow> u128 option) \<Rightarrow>
   (u128 \<Rightarrow> (u64 \<times> u32) option) \<Rightarrow> 's id_service \<Rightarrow> string \<Rightarrow> string \<Rightarrow> 's \<Rightarrow> grpc_status + grpc_parse_response" where
  "grpc_parse t parse uuid_ts svc stamp i s =
     (case handle_parse t parse uuid_ts svc stamp
         \<lparr>pr_id = i, pr_workspace = [], pr_group = [], pr_biz_tag = [], pr_algorithm = []\<rparr> s of
        Inr resp \<Rightarrow>
          (let md = pp_metadata resp in
           Inr \<lparr>gpr_id = pp_original_id resp, gpr_timestamp = stamp_number (pp_timestamp resp),
                gpr_sequence = ucast (imr_sequence md), gpr_worker_id = ucast (imr_worker_id md),
                gpr_algorithm = pp_algorithm resp,
                gpr_metadata =
                  [(''timestamp'', print_dec (unat (imr_timestamp md))),
                   (''datacenter_id'', print_dec (unat (imr_datacenter_id md))),
                   (''worker_id'', print_dec (unat (imr_worker_id md))),
                   (''sequence'', print_dec (unat (imr_sequence md))),
                   (''algorithm'', imr_algorithm md), (''biz_tag'', imr_biz_tag md)]\<rparr>)
      | Inl e \<Rightarrow> Inl (CodeInvalidArgument, error_text t e))"

definition grpc_health_check :: "(algorithm_type \<Rightarrow> health_status) \<Rightarrow> router \<Rightarrow> serving_status" where
  "grpc_health_check report r = (if fst (health_handler report r) = HttpHealthy then Serving else NotServing)"

section \<open>What the calls answer\<close>

text \<open>The timestamp of every answer is 0: the text of a date has a \<open>T\<close> in it and is no number.\<close>

lemma stamp_number_zero:
  assumes "CHR ''T'' \<in> set stamp"
  shows "stamp_number stamp = 0"
proof -
  have no: "\<not> is_digit CHR ''T''"
    by (simp add: is_digit_def code_of_def)
  have "CHR ''T'' \<in> set (if stamp \<noteq> [] \<and> (hd stamp = CHR ''-'' \<or> hd stamp = CHR ''+'') then tl stamp else stamp)"
    using assms by (cases stamp) auto
  hence "\<not> list_all is_digit (if stamp \<noteq> [] \<and> (hd stamp = CHR ''-'' \<or> hd stamp = CHR ''+'') then tl stamp else stamp)"
    using no by (auto simp: list_all_iff)
  thus ?thesis
    by (simp add: stamp_number_def parse_i64_def Let_def)
qed

text \<open>
  Nothing but the generator decides what a call is answered: for any namespace and tag for which it gives an
  identifier the caller gets it, with no credentials, and with 0 as the timestamp, sequence and worker number.
\<close>

lemma grpc_generates_for_anybody:
  assumes "svc_generate svc (gq_namespace req) (gq_tag req) (gq_tag req) s = Some (Inr i, s')"
    and "CHR ''T'' \<in> set stamp"
  shows "\<exists>alg. grpc_generate t disp svc latency stamp req m s =
    Some (Inr \<lparr>gs_id = to_string disp i, gs_timestamp = 0, gs_sequence = 0, gs_worker_id = 0, gs_algorithm = alg\<rparr>,
      count_success 1 latency m, s')"
  using assms by (simp add: grpc_generate_def handle_generate_def stamp_number_zero Let_def)

lemma grpc_generates_for_anybody_witness:
  "\<exists>i s' alg. grpc_generate (\<lambda>key args. key) uuid_hyphenated example_service 1 ''2026-01-01T00:00:00+00:00''
       \<lparr>gq_namespace = ''any'', gq_tag = ''t''\<rparr> api_metrics_default (example_router, example_world) =
     Some (Inr \<lparr>gs_id = to_string uuid_hyphenated i, gs_timestamp = 0, gs_sequence = 0, gs_worker_id = 0,
         gs_algorithm = alg\<rparr>, count_success 1 1 api_metrics_default, s')"
proof -
  have "case svc_generate example_service ''any'' ''t'' ''t'' (example_router, example_world) of
      Some (Inr i, s') \<Rightarrow> True | _ \<Rightarrow> False"
    by code_simp
  then obtain i s' where "svc_generate example_service ''any'' ''t'' ''t'' (example_router, example_world) = Some (Inr i, s')"
    by (auto split: option.splits sum.splits)
  with grpc_generates_for_anybody [of example_service "\<lparr>gq_namespace = ''any'', gq_tag = ''t''\<rparr>"
      "(example_router, example_world)" i s' "''2026-01-01T00:00:00+00:00''" "\<lambda>key args. key" uuid_hyphenated 1
      api_metrics_default]
  show ?thesis
    by auto
qed

text \<open>
  A batch of 1 to 100 is the handler's; a count of 0 or above 100 is refused as an invalid argument, but a
  negative one passes the checks of the call: the handler refuses the huge size it becomes, and the caller
  is told of an internal error. Nothing is generated or counted in any refused case.
\<close>

lemma usize_of_int: "int (usize_of n) = sint n mod 2 ^ 64"
proof -
  have "uint (of_int k :: u64) = k mod 2 ^ 64" for k
    by (simp add: uint_word_of_int_eq take_bit_eq_mod)
  thus ?thesis
    by (simp only: usize_of_def scast_eq of_int_eq_id uint_nat)
qed

lemma sint_bounds: "- (2 ^ 31) \<le> sint (n :: 32 word)" "sint n < 2 ^ 31"
  using sint_ge [of n] sint_lt [of n] by simp_all

lemma usize_of_negative: "sint n < 0 \<Longrightarrow> 2 ^ 63 \<le> usize_of n"
proof -
  assume n: "sint n < 0"
  have "sint n mod 2 ^ 64 = (sint n + 2 ^ 64) mod 2 ^ 64"
    by simp
  also have "\<dots> = sint n + 2 ^ 64"
    using n sint_bounds [of n] by (intro mod_pos_pos_trivial) auto
  finally have "int (usize_of n) = sint n + 2 ^ 64"
    by (simp add: usize_of_int)
  thus ?thesis
    using sint_bounds(1) [of n] by simp
qed

lemma usize_of_positive: "0 \<le> sint n \<Longrightarrow> int (usize_of n) = sint n"
  using sint_bounds(2) [of n] by (simp add: usize_of_int mod_pos_pos_trivial)

lemma unat_u32_less: "unat (w :: u32) < 2 ^ 32"
  using unsigned_less [of w, where 'a = nat] by simp

lemma grpc_negative_batch:
  assumes "sint (gb_count req) < 0"
  shows "\<exists>msg. grpc_batch_generate t disp svc limit latency stamp req m s =
    Some (Inl (CodeInternal, msg), m, s)"
proof -
  have "usize_of (gb_count req) > unat limit" "usize_of (gb_count req) \<noteq> 0"
    using usize_of_negative [OF assms] unat_u32_less [of limit] by simp_all
  thus ?thesis
    using assms by (auto simp: grpc_batch_generate_def handle_batch_generate_def grpc_batch_handler_request_def)
qed

lemma grpc_negative_batch_witness:
  "\<exists>msg. grpc_batch_generate (\<lambda>key args. key) uuid_hyphenated example_service 100 1 ''T''
     \<lparr>gb_namespace = ''w'', gb_tag = ''t'', gb_count = - 1\<rparr> api_metrics_default (example_router, example_world) =
     Some (Inl (CodeInternal, msg), api_metrics_default, (example_router, example_world))"
  by (rule grpc_negative_batch) simp

text \<open>
  A stream does not notice that its client has gone: what is generated and counted is the same whenever the
  client hangs up, and the client has got the first messages of it. \<open>stream_all\<close> is the stream for a client
  that stays.
\<close>

fun stream_all ::
  "(string \<Rightarrow> (string \<times> string) list \<Rightarrow> string) \<Rightarrow> (u128 \<Rightarrow> string) \<Rightarrow> 's id_service \<Rightarrow> u32 \<Rightarrow>
   stream_item list \<Rightarrow> api_metrics \<Rightarrow> 's \<Rightarrow> (grpc_generate_response list \<times> api_metrics \<times> 's) option" where
  "stream_all t disp svc limit [] m s = Some ([], m, s)"
| "stream_all t disp svc limit (StreamError e # items) m s = Some ([stream_error_response (''stream error: '' @ e)], m, s)"
| "stream_all t disp svc limit (StreamRequest req latency stamp # items) m s =
     (case handle_batch_generate t disp svc limit latency stamp (grpc_batch_handler_request req) m s of
        None \<Rightarrow> None
      | Some (r, m', s') \<Rightarrow>
          (let out = (case r of Inr resp \<Rightarrow> grpc_ids resp
                      | Inl e \<Rightarrow> [stream_error_response (''error: '' @ error_text t e)])
           in map_option (\<lambda>(rest, ms). (out @ rest, ms)) (stream_all t disp svc limit items m' s')))"

lemma stream_room:
  "batch_generate_stream t disp svc limit k items m s =
   map_option (\<lambda>(out, ms). (take k out, ms)) (stream_all t disp svc limit items m s)"
proof (induction items arbitrary: k m s)
  case Nil
  show ?case
    by simp
next
  case (Cons item items)
  show ?case
  proof (cases item)
    case (StreamRequest req latency stamp)
    show ?thesis
    proof (cases "handle_batch_generate t disp svc limit latency stamp (grpc_batch_handler_request req) m s")
      case None
      thus ?thesis
        by (simp add: StreamRequest)
    next
      case (Some x)
      obtain r m' s' where x: "x = (r, m', s')"
        by (cases x) auto
      show ?thesis
        by (simp add: StreamRequest Some x Cons.IH Let_def option.map_comp comp_def case_prod_beta)
    qed
  qed simp
qed

end
