(* ===== verification/Dynamic_Config.thy ===== *)
theory Dynamic_Config
  imports Org_Repo
begin

text \<open>
  The services over the repositories of workspaces, groups and tags: \<open>DynamicConfigService\<close> of
  \<open>src/src/core/config/dynamic.rs\<close>, \<open>WorkspaceConfigManager\<close> of \<open>src/src/core/config/management.rs\<close>, and the
  two operations of \<open>core/database/repository.rs\<close> that take several tables together: the reading of a
  workspace with all its groups and tags, and the deletion of a group in a transaction.

  The left join is a statement for the workspace and one for its groups. A transaction is the parameter
  \<open>tx_ops\<close>: \<open>tx_rollback d d'\<close> is the state after a transaction begun in \<open>d\<close> has been dropped in \<open>d'\<close>, and
  \<open>org_tx\<close> what the database documents of it. A commit that fails may or may not have taken effect.
\<close>

section \<open>Dynamic configuration\<close>

record dynamic_config_request =
  dq_workspace :: u128
  dq_group :: "u128 option"
  dq_biz_tag :: string
  dq_algorithm :: "algorithm_type option"
  dq_format :: "id_format option"
  dq_prefix :: "string option"
  dq_base_step :: "int option"
  dq_max_step :: "int option"
  dq_datacenter_ids :: "int list option"

record dynamic_config_response =
  dp_workspace :: u128
  dp_group :: u128
  dp_biz_tag_id :: u128
  dp_biz_tag :: string
  dp_algorithm :: algorithm_type
  dp_format :: id_format
  dp_prefix :: string
  dp_base_step :: int
  dp_max_step :: int
  dp_datacenter_ids :: "int list"

definition dynamic_response :: "biz_tag \<Rightarrow> dynamic_config_response" where
  "dynamic_response t =
     \<lparr>dp_workspace = bt_workspace t, dp_group = bt_group t, dp_biz_tag_id = bt_id t, dp_biz_tag = bt_name t,
      dp_algorithm = bt_algorithm t, dp_format = bt_format t, dp_prefix = bt_prefix t,
      dp_base_step = bt_base_step t, dp_max_step = bt_max_step t, dp_datacenter_ids = bt_datacenter_ids t\<rparr>"

definition empty_tag_name :: core_error where
  "empty_tag_name = InvalidInput ''BizTag name cannot be empty''"

definition group_required :: core_error where
  "group_required = InvalidInput ''Group ID is required to update configuration''"

definition dynamic_update_request :: "dynamic_config_request \<Rightarrow> update_biz_tag_request" where
  "dynamic_update_request req =
     \<lparr>ub_name = None, ub_description = None, ub_algorithm = dq_algorithm req, ub_format = dq_format req,
      ub_prefix = dq_prefix req, ub_base_step = dq_base_step req, ub_max_step = dq_max_step req,
      ub_datacenter_ids = dq_datacenter_ids req\<rparr>"

definition dynamic_update_config ::
  "(u128 \<Rightarrow> string) \<Rightarrow> int \<Rightarrow> 'd org_db \<Rightarrow> dynamic_config_request \<Rightarrow> 'd \<Rightarrow> dynamic_config_response res \<times> 'd" where
  "dynamic_update_config disp now db req d =
     (if trim (dq_biz_tag req) = [] then (Inl empty_tag_name, d)
      else case dq_group req of
        None \<Rightarrow> (Inl group_required, d)
      | Some grp \<Rightarrow>
          (case get_biz_tag_by_workspace_group_and_name db (dq_workspace req) grp (dq_biz_tag req) d of
             (Inl e, d1) \<Rightarrow> (Inl e, d1)
           | (Inr None, d1) \<Rightarrow>
               (Inl (NotFound (''BizTag not found: workspace_id='' @ disp (dq_workspace req) @ '', group_id=Some('' @
                  disp grp @ ''), name='' @ dq_biz_tag req)), d1)
           | (Inr (Some t), d1) \<Rightarrow>
               (case update_biz_tag disp now db (bt_id t) (dynamic_update_request req) d1 of
                  (Inl e, d2) \<Rightarrow> (Inl e, d2)
                | (Inr t', d2) \<Rightarrow> (Inr (dynamic_response t'), d2))))"

definition dynamic_get_config ::
  "'d org_db \<Rightarrow> u128 \<Rightarrow> u128 \<Rightarrow> string \<Rightarrow> 'd \<Rightarrow> dynamic_config_response option res \<times> 'd" where
  "dynamic_get_config db ws grp name d =
     (if trim name = [] then (Inl empty_tag_name, d)
      else case get_biz_tag_by_workspace_group_and_name db ws grp name d of
        (x, d') \<Rightarrow> (map_sum id (map_option dynamic_response) x, d'))"

fun update_each ::
  "(u128 \<Rightarrow> string) \<Rightarrow> 'd org_db \<Rightarrow> (int \<times> dynamic_config_request) list \<Rightarrow> 'd \<Rightarrow>
   dynamic_config_response list res \<times> 'd" where
  "update_each disp db [] d = (Inr [], d)"
| "update_each disp db ((now, req) # reqs) d =
     (case dynamic_update_config disp now db req d of
        (Inl e, d') \<Rightarrow> (Inl e, d')
      | (Inr resp, d') \<Rightarrow>
          (case update_each disp db reqs d' of (x, d'') \<Rightarrow> (map_sum id (\<lambda>rs. resp # rs) x, d'')))"

text \<open>The first invalid request of a batch, with the time of each request.\<close>

definition batch_check :: "(int \<times> dynamic_config_request) list \<Rightarrow> core_error option" where
  "batch_check reqs =
     (if reqs = [] then Some (InvalidInput ''Request list cannot be empty'')
      else case find (\<lambda>(_, r). trim (dq_biz_tag r) = [] \<or> dq_group r = None) reqs of
        None \<Rightarrow> None
      | Some (_, r) \<Rightarrow> Some (if trim (dq_biz_tag r) = [] then empty_tag_name else group_required))"

definition batch_update_config ::
  "(u128 \<Rightarrow> string) \<Rightarrow> 'd org_db \<Rightarrow> (int \<times> dynamic_config_request) list \<Rightarrow> 'd \<Rightarrow>
   dynamic_config_response list res \<times> 'd" where
  "batch_update_config disp db reqs d =
     (case batch_check reqs of Some e \<Rightarrow> (Inl e, d) | None \<Rightarrow> update_each disp db reqs d)"

section \<open>The configuration manager\<close>

definition named :: "string \<Rightarrow> string \<Rightarrow> ('d \<Rightarrow> 'a res \<times> 'd) \<Rightarrow> 'd \<Rightarrow> 'a res \<times> 'd" where
  "named what name call d =
     (if trim name = [] then (Inl (InvalidInput (what @ '' name cannot be empty'')), d) else call d)"

definition renamed :: "string \<Rightarrow> string option \<Rightarrow> ('d \<Rightarrow> 'a res \<times> 'd) \<Rightarrow> 'd \<Rightarrow> 'a res \<times> 'd" where
  "renamed what name call d = (case name of Some n \<Rightarrow> named what n call d | None \<Rightarrow> call d)"

definition wcm_create_workspace ::
  "u128 \<Rightarrow> int \<Rightarrow> 'd org_db \<Rightarrow> create_workspace_request \<Rightarrow> 'd \<Rightarrow> workspace res \<times> 'd" where
  "wcm_create_workspace uuid now db req = named ''Workspace'' (cw_name req) (create_workspace uuid now db req)"

definition wcm_get_workspace :: "'d org_db \<Rightarrow> u128 \<Rightarrow> 'd \<Rightarrow> workspace option res \<times> 'd" where
  "wcm_get_workspace db i = get_workspace db i"

definition wcm_update_workspace ::
  "(u128 \<Rightarrow> string) \<Rightarrow> int \<Rightarrow> 'd org_db \<Rightarrow> u128 \<Rightarrow> update_workspace_request \<Rightarrow> 'd \<Rightarrow> workspace res \<times> 'd" where
  "wcm_update_workspace disp now db i req =
     renamed ''Workspace'' (uw_name req) (update_workspace disp now db i req)"

definition wcm_delete_workspace :: "(u128 \<Rightarrow> string) \<Rightarrow> 'd org_db \<Rightarrow> u128 \<Rightarrow> 'd \<Rightarrow> unit res \<times> 'd" where
  "wcm_delete_workspace disp db i = delete_workspace disp db i"

definition wcm_list_workspaces :: "'d org_db \<Rightarrow> nat option \<Rightarrow> nat option \<Rightarrow> 'd \<Rightarrow> workspace list res \<times> 'd" where
  "wcm_list_workspaces db lim off = list_workspaces db lim off"

definition wcm_create_group ::
  "(u128 \<Rightarrow> string) \<Rightarrow> u128 \<Rightarrow> int \<Rightarrow> 'd org_db \<Rightarrow> create_group_request \<Rightarrow> 'd \<Rightarrow> group_row res \<times> 'd" where
  "wcm_create_group disp uuid now db req = named ''Group'' (cg_name req) (create_group disp uuid now db req)"

definition wcm_get_group :: "'d org_db \<Rightarrow> u128 \<Rightarrow> 'd \<Rightarrow> group_row option res \<times> 'd" where
  "wcm_get_group db i = get_group db i"

definition wcm_update_group ::
  "(u128 \<Rightarrow> string) \<Rightarrow> int \<Rightarrow> 'd org_db \<Rightarrow> u128 \<Rightarrow> update_group_request \<Rightarrow> 'd \<Rightarrow> group_row res \<times> 'd" where
  "wcm_update_group disp now db i req = renamed ''Group'' (ug_name req) (update_group disp now db i req)"

definition wcm_delete_group :: "(u128 \<Rightarrow> string) \<Rightarrow> 'd org_db \<Rightarrow> u128 \<Rightarrow> 'd \<Rightarrow> unit res \<times> 'd" where
  "wcm_delete_group disp db i = delete_group disp db i"

definition wcm_list_groups ::
  "'d org_db \<Rightarrow> u128 \<Rightarrow> nat option \<Rightarrow> nat option \<Rightarrow> 'd \<Rightarrow> group_row list res \<times> 'd" where
  "wcm_list_groups db ws lim off = list_groups db ws lim off"

definition wcm_create_biz_tag ::
  "(u128 \<Rightarrow> string) \<Rightarrow> u128 \<Rightarrow> int \<Rightarrow> 'd org_db \<Rightarrow> create_biz_tag_request \<Rightarrow> 'd \<Rightarrow> biz_tag res \<times> 'd" where
  "wcm_create_biz_tag disp uuid now db req = named ''BizTag'' (cb_name req) (create_biz_tag disp uuid now db req)"

definition wcm_get_biz_tag :: "'d org_db \<Rightarrow> u128 \<Rightarrow> 'd \<Rightarrow> biz_tag option res \<times> 'd" where
  "wcm_get_biz_tag db i = get_biz_tag db i"

definition wcm_update_biz_tag ::
  "(u128 \<Rightarrow> string) \<Rightarrow> int \<Rightarrow> 'd org_db \<Rightarrow> u128 \<Rightarrow> update_biz_tag_request \<Rightarrow> 'd \<Rightarrow> biz_tag res \<times> 'd" where
  "wcm_update_biz_tag disp now db i req = renamed ''BizTag'' (ub_name req) (update_biz_tag disp now db i req)"

definition wcm_delete_biz_tag :: "(u128 \<Rightarrow> string) \<Rightarrow> 'd org_db \<Rightarrow> u128 \<Rightarrow> 'd \<Rightarrow> unit res \<times> 'd" where
  "wcm_delete_biz_tag disp db i = delete_biz_tag disp db i"

definition wcm_list_biz_tags ::
  "'d org_db \<Rightarrow> u128 \<Rightarrow> u128 option \<Rightarrow> nat option \<Rightarrow> nat option \<Rightarrow> 'd \<Rightarrow> biz_tag list res \<times> 'd" where
  "wcm_list_biz_tags db ws grp lim off = list_biz_tags db ws grp lim off"

definition wcm_update_biz_tag_config ::
  "(u128 \<Rightarrow> string) \<Rightarrow> int \<Rightarrow> 'd org_db \<Rightarrow> dynamic_config_request \<Rightarrow> 'd \<Rightarrow> dynamic_config_response res \<times> 'd" where
  "wcm_update_biz_tag_config disp now db req = named ''BizTag'' (dq_biz_tag req) (dynamic_update_config disp now db req)"

definition wcm_batch_update_biz_tag_config ::
  "(u128 \<Rightarrow> string) \<Rightarrow> 'd org_db \<Rightarrow> (int \<times> dynamic_config_request) list \<Rightarrow> 'd \<Rightarrow>
   dynamic_config_response list res \<times> 'd" where
  "wcm_batch_update_biz_tag_config disp db reqs d =
     (if list_ex (\<lambda>(_, r). trim (dq_biz_tag r) = []) reqs then (Inl empty_tag_name, d)
      else batch_update_config disp db reqs d)"

section \<open>Several tables at once\<close>

definition get_workspace_with_groups_and_biz_tags ::
  "'d org_db \<Rightarrow> u128 \<Rightarrow> 'd \<Rightarrow> (workspace \<times> (group_row \<times> biz_tag list) list) option res \<times> 'd" where
  "get_workspace_with_groups_and_biz_tags db i d =
     (case t_find (od_ws db) (\<lambda>w. ws_id w = i) d of
        (Inl e, d1) \<Rightarrow> (Inl (DatabaseError e), d1)
      | (Inr None, d1) \<Rightarrow> (Inr None, d1)
      | (Inr (Some w), d1) \<Rightarrow>
          (case t_all (od_groups db) (\<lambda>g. grp_workspace g = i) None None d1 of
             (Inl e, d2) \<Rightarrow> (Inl (DatabaseError e), d2)
           | (Inr gs, d2) \<Rightarrow>
               (case t_all (od_tags db) (\<lambda>t. btr_group t \<in> set (map grp_id gs)) None None d2 of
                  (Inl e, d3) \<Rightarrow> (Inl (DatabaseError e), d3)
                | (Inr ts, d3) \<Rightarrow>
                    (Inr (Some (workspace_of w,
                       map (\<lambda>g. (g, map biz_tag_of (filter (\<lambda>t. btr_group t = grp_id g) ts))) gs)), d3))))"

record 'd tx_ops =
  tx_begin :: "'d \<Rightarrow> (string + unit) \<times> 'd"
  tx_commit :: "'d \<Rightarrow> 'd \<Rightarrow> (string + unit) \<times> 'd"
  tx_rollback :: "'d \<Rightarrow> 'd \<Rightarrow> 'd"

fun delete_tags :: "'d org_db \<Rightarrow> biz_tag_row list \<Rightarrow> 'd \<Rightarrow> (string + unit) \<times> 'd" where
  "delete_tags db [] d = (Inr (), d)"
| "delete_tags db (t # ts) d =
     (case t_delete (od_tags db) (\<lambda>r. btr_id r = btr_id t) d of
        (Inl e, d') \<Rightarrow> (Inl e, d')
      | (Inr _, d') \<Rightarrow> delete_tags db ts d')"

text \<open>The statements between begin and commit.\<close>

definition group_deletion :: "'d org_db \<Rightarrow> u128 \<Rightarrow> 'd \<Rightarrow> (string + unit) \<times> 'd" where
  "group_deletion db i d =
     (case t_all (od_tags db) (\<lambda>t. btr_group t = i) None None d of
        (Inl e, d1) \<Rightarrow> (Inl e, d1)
      | (Inr ts, d1) \<Rightarrow>
          (case delete_tags db ts d1 of
             (Inl e, d2) \<Rightarrow> (Inl e, d2)
           | (Inr _, d2) \<Rightarrow>
               (case t_delete (od_groups db) (\<lambda>g. grp_id g = i) d2 of
                  (x, d3) \<Rightarrow> (map_sum id (\<lambda>_. ()) x, d3))))"

definition delete_group_with_biz_tags ::
  "'d tx_ops \<Rightarrow> 'd org_db \<Rightarrow> u128 \<Rightarrow> 'd \<Rightarrow> unit res \<times> 'd" where
  "delete_group_with_biz_tags tx db i d =
     (case tx_begin tx d of
        (Inl e, d0) \<Rightarrow> (Inl (DatabaseError e), d0)
      | (Inr _, d0) \<Rightarrow>
          (case group_deletion db i d0 of
             (Inl e, d1) \<Rightarrow> (Inl (DatabaseError e), tx_rollback tx d0 d1)
           | (Inr _, d1) \<Rightarrow> (case tx_commit tx d0 d1 of (x, d2) \<Rightarrow> (db_error x, d2))))"

section \<open>All or nothing\<close>

text \<open>The tables without a group and its tags.\<close>

definition without_group ::
  "u128 \<Rightarrow> workspace_row list \<times> group_row list \<times> biz_tag_row list \<Rightarrow>
   workspace_row list \<times> group_row list \<times> biz_tag_row list" where
  "without_group i tb =
     (case tb of (ws, gs, ts) \<Rightarrow> (ws, filter (\<lambda>g. grp_id g \<noteq> i) gs, filter (\<lambda>t. btr_group t \<noteq> i) ts))"

locale org_tx = org_store db wrows grows trows
  for db :: "'d org_db" and wrows :: "'d \<Rightarrow> workspace_row list" and grows :: "'d \<Rightarrow> group_row list"
    and trows :: "'d \<Rightarrow> biz_tag_row list" +
  fixes tx :: "'d tx_ops"
  assumes begin_law: "tx_begin tx d = (x, d') \<Longrightarrow> wrows d' = wrows d \<and> grows d' = grows d \<and> trows d' = trows d"
    and commit_law: "tx_commit tx d d' = (x, d'') \<Longrightarrow>
      wrows d'' = wrows d' \<and> grows d'' = grows d' \<and> trows d'' = trows d' \<or>
      isl x \<and> wrows d'' = wrows d \<and> grows d'' = grows d \<and> trows d'' = trows d"
    and rollback_law: "wrows (tx_rollback tx d d') = wrows d \<and> grows (tx_rollback tx d d') = grows d \<and>
      trows (tx_rollback tx d d') = trows d"
begin

lemma delete_tags_effect:
  assumes "delete_tags db ts d = (Inr u, d')"
  shows "wrows d' = wrows d" and "grows d' = grows d"
    and "trows d' = filter (\<lambda>t. btr_id t \<notin> btr_id ` set ts) (trows d)"
proof -
  have "wrows d' = wrows d \<and> grows d' = grows d \<and> trows d' = filter (\<lambda>t. btr_id t \<notin> btr_id ` set ts) (trows d)"
    using assms
  proof (induction ts arbitrary: d)
    case (Cons t ts)
    obtain n d1 where del: "t_delete (od_tags db) (\<lambda>r. btr_id r = btr_id t) d = (Inr n, d1)"
      using Cons.prems by (auto split: prod.splits sum.splits)
    have one: "trows d1 = filter (\<lambda>r. btr_id r \<noteq> btr_id t) (trows d)" "wrows d1 = wrows d" "grows d1 = grows d"
      using tags.delete_law [OF del] tag_delete_frame [OF del] by simp_all
    have "delete_tags db ts d1 = (Inr u, d')"
      using Cons.prems del by simp
    from Cons.IH [OF this] one show ?case
      by (auto intro: filter_cong)
  qed simp
  thus "wrows d' = wrows d" "grows d' = grows d" "trows d' = filter (\<lambda>t. btr_id t \<notin> btr_id ` set ts) (trows d)"
    by simp_all
qed

lemma group_deletion_effect:
  assumes "group_deletion db i d = (Inr u, d')" and "distinct (map btr_id (trows d))"
  shows "(wrows d', grows d', trows d') = without_group i (wrows d, grows d, trows d)"
proof -
  obtain ts d1 where all: "t_all (od_tags db) (\<lambda>t. btr_group t = i) None None d = (Inr ts, d1)"
    using assms(1) by (auto simp: group_deletion_def split: prod.splits sum.splits)
  obtain v d2 where del: "delete_tags db ts d1 = (Inr v, d2)"
    using assms(1) all by (auto simp: group_deletion_def split: prod.splits sum.splits)
  obtain n where grp: "t_delete (od_groups db) (\<lambda>g. grp_id g = i) d2 = (Inr n, d')"
    using assms(1) all del by (auto simp: group_deletion_def map_sum_def split: prod.splits sum.splits)
  have same: "wrows d1 = wrows d" "grows d1 = grows d" "trows d1 = trows d"
    using tags.all_law [OF all] tag_frame.all_frame [OF all] by simp_all
  define fs where "fs = filter (\<lambda>t. btr_group t = i) (trows d)"
  have "mset ts \<subseteq># mset fs" "length ts = length fs"
    using tags.all_law [OF all] by (simp_all only: fs_def) simp_all
  hence "mset ts = mset fs"
    by (metis mset_subset_size nless_le size_mset subset_mset.le_imp_less_or_eq)
  hence ts: "set ts = {t \<in> set (trows d). btr_group t = i}"
    by (metis fs_def set_filter set_mset_mset)
  have "btr_id t \<in> btr_id ` set ts \<longleftrightarrow> btr_group t = i" if "t \<in> set (trows d)" for t
    using that assms(2) ts by (auto simp: distinct_map inj_on_def)
  hence two: "trows d2 = filter (\<lambda>t. btr_group t \<noteq> i) (trows d)" "wrows d2 = wrows d" "grows d2 = grows d"
    using delete_tags_effect [OF del] same by (auto intro: filter_cong)
  have three: "grows d' = filter (\<lambda>g. grp_id g \<noteq> i) (grows d)"
    using groups.delete_law [OF grp] two by simp
  have "gone grp_id (grows d2) (grows d') \<subseteq> {i}"
    using two three by (auto simp: gone_def)
  hence "trows d' = filter (\<lambda>t. btr_group t \<noteq> i) (trows d)" "wrows d' = wrows d"
    using group_cascade [OF grp] two by (auto intro!: filter_cong)
  with three show ?thesis
    by (simp add: without_group_def)
qed

lemma delete_group_with_biz_tags_effect:
  assumes "delete_group_with_biz_tags tx db i d = (x, d')" and "distinct (map btr_id (trows d))"
  shows "(wrows d', grows d', trows d') = without_group i (wrows d, grows d, trows d) \<or>
    isl x \<and> (wrows d', grows d', trows d') = (wrows d, grows d, trows d)"
proof -
  obtain b d0 where b: "tx_begin tx d = (b, d0)"
    by fastforce
  note begun = begin_law [OF b]
  show ?thesis
  proof (cases b)
    case (Inl e)
    thus ?thesis
      using assms(1) b begun by (auto simp: delete_group_with_biz_tags_def)
  next
    case (Inr u)
    obtain y d1 where y: "group_deletion db i d0 = (y, d1)"
      by fastforce
    show ?thesis
    proof (cases y)
      case (Inl e)
      thus ?thesis
        using assms(1) b Inr y rollback_law [of d0 d1] begun by (auto simp: delete_group_with_biz_tags_def)
    next
      case (Inr v)
      obtain c d2 where c: "tx_commit tx d0 d1 = (c, d2)"
        by fastforce
      have "x = db_error c" "d' = d2"
        using assms(1) b \<open>b = Inr u\<close> y Inr c by (simp_all add: delete_group_with_biz_tags_def)
      moreover have "isl (db_error c) \<longleftrightarrow> isl c"
        by (cases c) (simp_all add: db_error_def)
      moreover have "(wrows d1, grows d1, trows d1) = without_group i (wrows d, grows d, trows d)"
        using group_deletion_effect [of i d0 v d1] y Inr assms(2) begun by simp
      ultimately show ?thesis
        using commit_law [OF c] begun by auto
    qed
  qed
qed

end

context org_store
begin

text \<open>A successful update is what a later reading answers.\<close>

lemma find_by_name:
  assumes "get_biz_tag_by_workspace_group_and_name db ws grp name d = (Inr (Some t), d')"
  shows "\<exists>r \<in> set (trows d). t = biz_tag_of r \<and> btr_workspace r = ws \<and> btr_group r = grp \<and> btr_name r = name"
    and "trows d' = trows d"
proof -
  obtain r where f: "t_find (od_tags db) (\<lambda>t. btr_workspace t = ws \<and> btr_group t = grp \<and> btr_name t = name) d =
      (Inr (Some r), d')" "t = biz_tag_of r"
    using assms by (auto simp: get_biz_tag_by_workspace_group_and_name_def db_error_def map_sum_def
        split: prod.splits sum.splits)
  show "\<exists>r \<in> set (trows d). t = biz_tag_of r \<and> btr_workspace r = ws \<and> btr_group r = grp \<and> btr_name r = name"
    "trows d' = trows d"
    using tags.find_law [OF f(1)] f(2) by auto
qed

lemma update_config_effect:
  assumes "dynamic_update_config disp now db req d = (Inr resp, d')" and "distinct (map btr_id (trows d))"
  shows "\<exists>r \<in> set (trows d). dq_group req = Some (btr_group r) \<and> btr_workspace r = dq_workspace req \<and>
    btr_name r = dq_biz_tag req \<and>
    resp = dynamic_response (biz_tag_of (updated_tag now (dynamic_update_request req) r r)) \<and>
    trows d' = apply_where (\<lambda>t. btr_id t = btr_id r) (updated_tag now (dynamic_update_request req) r) (trows d)"
    and "trim (dq_biz_tag req) \<noteq> []"
proof -
  show "trim (dq_biz_tag req) \<noteq> []"
    using assms(1) by (auto simp: dynamic_update_config_def)
  obtain grp t d1 where g: "dq_group req = Some grp"
      and f: "get_biz_tag_by_workspace_group_and_name db (dq_workspace req) grp (dq_biz_tag req) d = (Inr (Some t), d1)"
    using assms(1) by (auto simp: dynamic_update_config_def split: if_splits option.splits prod.splits sum.splits)
  obtain t' where u: "update_biz_tag disp now db (bt_id t) (dynamic_update_request req) d1 = (Inr t', d')"
      "resp = dynamic_response t'"
    using assms(1) g f by (auto simp: dynamic_update_config_def split: if_splits prod.splits sum.splits)
  obtain r where r: "r \<in> set (trows d)" "t = biz_tag_of r" "btr_workspace r = dq_workspace req" "btr_group r = grp"
      "btr_name r = dq_biz_tag req"
    using find_by_name(1) [OF f] by auto
  have same: "trows d1 = trows d"
    by (rule find_by_name(2) [OF f])
  obtain s where s: "s \<in> set (trows d)" "btr_id s = bt_id t"
      "t' = biz_tag_of (updated_tag now (dynamic_update_request req) s s)"
      "trows d' = apply_where (\<lambda>u. btr_id u = bt_id t) (updated_tag now (dynamic_update_request req) s) (trows d)"
    using update_biz_tag_effect [OF u(1)] same assms(2) by auto
  have id: "bt_id t = btr_id r"
    by (simp add: r(2) biz_tag_of_def)
  hence "s = r"
    using s(1,2) r(1) assms(2) by (metis distinct_map inj_on_eq_iff)
  with r s u(2) g id show "\<exists>r \<in> set (trows d). dq_group req = Some (btr_group r) \<and> btr_workspace r = dq_workspace req \<and>
    btr_name r = dq_biz_tag req \<and>
    resp = dynamic_response (biz_tag_of (updated_tag now (dynamic_update_request req) r r)) \<and>
    trows d' = apply_where (\<lambda>t. btr_id t = btr_id r) (updated_tag now (dynamic_update_request req) r) (trows d)"
    by auto
qed

lemma update_then_get_store:
  assumes "dynamic_update_config disp now db req d = (Inr resp, d')" and "distinct (map btr_id (trows d))"
    and "distinct (map (\<lambda>t. (btr_workspace t, btr_group t, btr_name t)) (trows d))"
    and "dynamic_get_config db (dp_workspace resp) (dp_group resp) (dp_biz_tag resp) d' = (Inr x, d'')"
  shows "x = Some resp"
proof -
  let ?key = "\<lambda>t. (btr_workspace t, btr_group t, btr_name t)"
  obtain r where r: "r \<in> set (trows d)" "btr_workspace r = dq_workspace req" "btr_name r = dq_biz_tag req"
      "resp = dynamic_response (biz_tag_of (updated_tag now (dynamic_update_request req) r r))"
      "trows d' = apply_where (\<lambda>t. btr_id t = btr_id r) (updated_tag now (dynamic_update_request req) r) (trows d)"
    using update_config_effect(1) [OF assms(1,2)] by blast
  let ?u = "updated_tag now (dynamic_update_request req) r"
  let ?p = "\<lambda>t. btr_workspace t = dp_workspace resp \<and> btr_group t = dp_group resp \<and> btr_name t = dp_biz_tag resp"
  have name: "dp_workspace resp = btr_workspace r" "dp_group resp = btr_group r" "dp_biz_tag resp = btr_name r"
    by (simp_all add: r(4) dynamic_response_def biz_tag_of_def updated_tag_def dynamic_update_request_def unwrap_or_def)
  have only: "t = ?u r" if "t \<in> set (trows d')" "?p t" for t
  proof -
    note t_in = that(1)
    obtain s where s: "s \<in> set (trows d)" "t = (if btr_id s = btr_id r then ?u s else s)"
    proof -
      have "t \<in> (\<lambda>s. if btr_id s = btr_id r then ?u s else s) ` set (trows d)"
        using t_in by (simp only: r(5) apply_where_def set_map)
      thus thesis
        using that by (elim imageE)
    qed
    show ?thesis
    proof (cases "btr_id s = btr_id r")
      case True
      hence "s = r"
        using s(1) r(1) assms(2) by (metis distinct_map inj_on_eq_iff)
      thus ?thesis
        using s(2) by simp
    next
      case False
      hence "?key s = ?key r"
        using s(2) that(2) name by simp
      hence "s = r"
        using s(1) r(1) assms(3) by (metis (no_types, lifting) distinct_map inj_on_eq_iff)
      with False show ?thesis
        by simp
    qed
  qed
  have "?u r = (if btr_id r = btr_id r then ?u r else r)"
    by simp
  hence there: "?u r \<in> set (trows d')"
    unfolding r(5) apply_where_def set_map using r(1) by (rule image_eqI)
  have "?p (?u r)"
    by (simp add: name updated_tag_def dynamic_update_request_def unwrap_or_def)
  note there = there this
  have "trim (dp_biz_tag resp) \<noteq> []"
    using update_config_effect(2) [OF assms(1,2)] name r(3) by simp
  then obtain y where y: "t_find (od_tags db) ?p d' = (Inr y, d'')" "x = map_option (dynamic_response \<circ> biz_tag_of) y"
    using assms(4) by (auto simp: dynamic_get_config_def get_biz_tag_by_workspace_group_and_name_def db_error_def map_sum_def
        option.map_comp split: prod.splits sum.splits if_splits)
  have "y = Some (?u r)"
  proof (cases y)
    case None
    thus ?thesis
      using tags.find_law [OF y(1)] there by blast
  next
    case (Some z)
    hence "z \<in> set (trows d')" "?p z"
      using tags.find_law [OF y(1)] by simp_all
    hence "z = ?u r"
      by (rule only)
    thus ?thesis
      using Some by simp
  qed
  thus ?thesis
    using y(2) r(4) by simp
qed

end

section \<open>A transaction over concrete tables\<close>

definition list_tx :: "org_tables tx_ops" where
  "list_tx = \<lparr>tx_begin = (\<lambda>d. (Inr (), d)), tx_commit = (\<lambda>d d'. (Inr (), d')), tx_rollback = (\<lambda>d d'. d)\<rparr>"

interpretation list_org: org_tx org_tables_db ws_rows group_rows tag_rows list_tx
  by unfold_locales (auto simp: list_tx_def)

text \<open>
  The deletion of a group with its tags does all or nothing, whichever statement fails, and touches nothing
  else; when it answers without an error it has been done.
\<close>

theorem group_deleted_or_kept:
  assumes "org_tx db wrows grows trows tx" and "distinct (map btr_id (trows d))"
    and "delete_group_with_biz_tags tx db i d = (x, d')"
  shows "(wrows d', grows d', trows d') = without_group i (wrows d, grows d, trows d) \<or>
    isl x \<and> (wrows d', grows d', trows d') = (wrows d, grows d, trows d)"
  by (rule org_tx.delete_group_with_biz_tags_effect [OF assms(1,3,2)])

definition faulty_org :: org_tables where
  "faulty_org = demo_org_state\<lparr>ot_groups := (ot_groups demo_org_state)\<lparr>lt_faults := [True]\<rparr>\<rparr>"

lemma faulty_org_ids: "distinct (map btr_id (tag_rows faulty_org))"
proof -
  have "map btr_id (tag_rows faulty_org) = [7]"
    by code_simp
  thus ?thesis
    by simp
qed

lemma group_deleted_or_kept_witness:
  "case delete_group_with_biz_tags list_tx org_tables_db 5 faulty_org of (x, d') \<Rightarrow>
     isl x \<and> (ws_rows d', group_rows d', tag_rows d') = (ws_rows faulty_org, group_rows faulty_org, tag_rows faulty_org)"
proof -
  obtain x d' where run: "delete_group_with_biz_tags list_tx org_tables_db 5 faulty_org = (x, d')"
    by fastforce
  have "map btr_id (tag_rows (snd (delete_group_with_biz_tags list_tx org_tables_db 5 faulty_org))) = [7]"
      "map btr_group (tag_rows faulty_org) = [5]"
    by code_simp+
  hence "tag_rows d' \<noteq> []" "filter (\<lambda>t. btr_group t \<noteq> 5) (tag_rows faulty_org) = []"
    using run by (auto simp: filter_empty_conv map_eq_Cons_conv)
  hence "(ws_rows d', group_rows d', tag_rows d') \<noteq>
      without_group 5 (ws_rows faulty_org, group_rows faulty_org, tag_rows faulty_org)"
    by (simp add: without_group_def)
  thus ?thesis
    using group_deleted_or_kept [OF list_org.org_tx_axioms faulty_org_ids run] run by simp
qed

text \<open>
  What a successful change of a tag's configuration answers is what a later reading of the tag answers, on
  tables whose tags have one identifier and one name in their group each.
\<close>

theorem update_then_get:
  assumes "org_store db wrows grows trows" and "distinct (map btr_id (trows d))"
    and "distinct (map (\<lambda>t. (btr_workspace t, btr_group t, btr_name t)) (trows d))"
    and "dynamic_update_config disp now db req d = (Inr resp, d')"
    and "dynamic_get_config db (dp_workspace resp) (dp_group resp) (dp_biz_tag resp) d' = (Inr x, d'')"
  shows "x = Some resp"
  by (rule org_store.update_then_get_store [OF assms(1,4,2,3,5)])

definition demo_change :: "string \<Rightarrow> dynamic_config_request" where
  "demo_change name =
     \<lparr>dq_workspace = 1, dq_group = Some 5, dq_biz_tag = name, dq_algorithm = Some Snowflake, dq_format = None,
      dq_prefix = None, dq_base_step = Some 500, dq_max_step = None, dq_datacenter_ids = Some [3]\<rparr>"

lemma update_then_get_witness:
  "\<exists>resp d'. dynamic_update_config (\<lambda>_. ''id'') 9 org_tables_db (demo_change ''order'') demo_org_state = (Inr resp, d') \<and>
     fst (dynamic_get_config org_tables_db 1 5 ''order'' d') = Inr (Some resp)"
proof -
  let ?run = "dynamic_update_config (\<lambda>_. ''id'') 9 org_tables_db (demo_change ''order'') demo_org_state"
  have run: "case ?run of (Inr resp, d') \<Rightarrow> dp_workspace resp = 1 \<and> dp_group resp = 5 \<and> dp_biz_tag resp = ''order'' \<and>
      \<not> isl (fst (dynamic_get_config org_tables_db 1 5 ''order'' d')) | _ \<Rightarrow> False"
    by code_simp
  obtain resp d' where r: "?run = (Inr resp, d')"
    using run by (auto split: prod.splits sum.splits)
  have key: "dp_workspace resp = 1" "dp_group resp = 5" "dp_biz_tag resp = ''order''"
      "\<not> isl (fst (dynamic_get_config org_tables_db 1 5 ''order'' d'))"
    using run r by simp_all
  obtain x d'' where g: "dynamic_get_config org_tables_db 1 5 ''order'' d' = (Inr x, d'')"
    using key(4) by (cases "dynamic_get_config org_tables_db 1 5 ''order'' d'"; cases "fst (dynamic_get_config org_tables_db 1 5 ''order'' d')") auto
  have "map btr_id (tag_rows demo_org_state) = [7]"
      "map (\<lambda>t. (btr_workspace t, btr_group t, btr_name t)) (tag_rows demo_org_state) = [(1, 5, ''order'')]"
    by code_simp+
  hence d: "distinct (map btr_id (tag_rows demo_org_state))"
      "distinct (map (\<lambda>t. (btr_workspace t, btr_group t, btr_name t)) (tag_rows demo_org_state))"
    by simp_all
  have "x = Some resp"
    by (rule update_then_get [OF org_list.org_store_axioms d r]) (simp only: key(1-3), rule g)
  with r g show ?thesis
    by simp
qed

text \<open>A batch is not atomic: the changes before the one that fails stay.\<close>

lemma batch_keeps_earlier:
  "case batch_update_config (\<lambda>_. ''id'') org_tables_db [(1, demo_change ''order''), (2, demo_change ''nothing'')]
      demo_org_state of
    (x, d') \<Rightarrow> isl x \<and> map btr_base_step (tag_rows d') = [500] \<and> map btr_base_step (tag_rows demo_org_state) = [100]"
  by code_simp

text \<open>Unlike \<open>delete_group\<close>, the deletion with tags does not say that there is no such group.\<close>

lemma missing_group_deleted:
  "fst (delete_group_with_biz_tags list_tx org_tables_db 99 demo_org_state) = Inr ()"
  "isl (fst (delete_group (\<lambda>_. ''id'') org_tables_db 99 demo_org_state))"
  by code_simp+

end
