(* ===== verification/Auth_Manager.thy ===== *)
theory Auth_Manager
  imports Api_Keys App_Config "HOL-Library.AList"
begin

text \<open>
  The \<open>AuthManager\<close> of \<open>src/src/core/auth/manager.rs\<close>: API keys that live in a cache only.

  The cache is the \<open>oxcache\<close> crate's: \<open>cache_ops\<close> is a parameter and \<open>ttl_cache\<close> what the crate documents,
  with \<open>live t c k\<close> what the cache \<open>c\<close> would hold for \<open>k\<close> at the time \<open>t\<close> without a further call. It may drop
  entries at any time, and holds none longer than its time to live. Any call may fail. Instants are numbers of
  nanoseconds; hashing is that of \<open>Api_Keys\<close>.
\<close>

section \<open>The manager\<close>

record api_key_data =
  kd_key_id :: string
  kd_key_hash :: string
  kd_workspace :: string
  kd_enabled :: bool
  kd_created_at :: int
  kd_expires_at :: "int option"
  kd_permissions :: "string list"

record manager_config =
  mc_salt :: string
  mc_cache_ttl_seconds :: int
  mc_max_cache_size :: nat

text \<open>\<open>hex::encode\<close> of the random bytes; no bytes stand for a failure of the random source.\<close>

definition hex_encode :: "u8 list \<Rightarrow> string" where
  "hex_encode bytes =
     concat (map (\<lambda>b. let s = to_lowercase (print_base 16 (unat b)) in if length s = 1 then CHR ''0'' # s else s) bytes)"

text \<open>\<open>None\<close> is the panic of a production environment without a salt.\<close>

definition manager_config_from_env :: "env_vars \<Rightarrow> u8 list option \<Rightarrow> manager_config option" where
  "manager_config_from_env env random =
     (let salt =
        (case env ''NEBULA_API_KEY_SALT'' of
           Some s \<Rightarrow> Some s
         | None \<Rightarrow>
             if is_production env then None
             else Some (case random of Some bytes \<Rightarrow> hex_encode bytes
                        | None \<Rightarrow> ''fallback_dev_salt_not_for_production''));
          ttl = (case Option.bind (env ''NEBULA_CACHE_TTL_SECONDS'') parse_i64 of Some v \<Rightarrow> v | None \<Rightarrow> 300);
          sz = (case Option.bind (env ''NEBULA_MAX_CACHE_SIZE'') (parse_unsigned (2 ^ 64)) of
                  Some n \<Rightarrow> if n = 0 then 10000 else n | None \<Rightarrow> 10000)
      in map_option (\<lambda>s. \<lparr>mc_salt = s, mc_cache_ttl_seconds = ttl, mc_max_cache_size = sz\<rparr>) salt)"

record 'c cache_ops =
  ch_get :: "int \<Rightarrow> string \<Rightarrow> 'c \<Rightarrow> (string + api_key_data option) \<times> 'c"
  ch_set :: "int \<Rightarrow> string \<Rightarrow> api_key_data \<Rightarrow> 'c \<Rightarrow> (string + unit) \<times> 'c"
  ch_delete :: "int \<Rightarrow> string \<Rightarrow> 'c \<Rightarrow> (string + unit) \<times> 'c"
  ch_clear :: "int \<Rightarrow> 'c \<Rightarrow> (string + unit) \<times> 'c"
  ch_len :: "int \<Rightarrow> 'c \<Rightarrow> (string + nat) \<times> 'c"

text \<open>The cache is built with \<open>cache_ttl_seconds as u64\<close>, in nanoseconds.\<close>

definition cache_ttl :: "manager_config \<Rightarrow> int" where
  "cache_ttl mc = uint (of_int (mc_cache_ttl_seconds mc) :: u64) * 10 ^ 9"

definition add_key ::
  "argon2 \<Rightarrow> string \<Rightarrow> manager_config \<Rightarrow> 'c cache_ops \<Rightarrow> int \<Rightarrow> string \<Rightarrow> string \<Rightarrow> string \<Rightarrow> int option \<Rightarrow>
   string list \<Rightarrow> 'c \<Rightarrow> string res \<times> 'c" where
  "add_key a salt mc ops now key_id secret workspace expires permissions c =
     (case hash_key a (mc_salt mc) salt key_id secret of
        Inl e \<Rightarrow> (Inl e, c)
      | Inr h \<Rightarrow>
          (case ch_set ops now key_id
                  \<lparr>kd_key_id = key_id, kd_key_hash = h, kd_workspace = workspace, kd_enabled = True,
                   kd_created_at = now, kd_expires_at = expires, kd_permissions = permissions\<rparr> c of
             (_, c') \<Rightarrow> (Inr key_id, c')))"

definition found :: "string + api_key_data option \<Rightarrow> api_key_data option" where
  "found x = (case x of Inr r \<Rightarrow> r | Inl _ \<Rightarrow> None)"

definition manager_validate_key ::
  "argon2 \<Rightarrow> manager_config \<Rightarrow> 'c cache_ops \<Rightarrow> int \<Rightarrow> string \<Rightarrow> string \<Rightarrow> 'c \<Rightarrow> string option \<times> 'c" where
  "manager_validate_key a mc ops now key_id secret c =
     (case ch_get ops now key_id c of
        (x, c1) \<Rightarrow>
          (case found x of
             None \<Rightarrow> (None, c1)
           | Some k \<Rightarrow>
               if \<not> kd_enabled k then (None, c1)
               else if (case kd_expires_at k of Some e \<Rightarrow> e < now | None \<Rightarrow> False)
               then (None, snd (ch_delete ops now key_id c1))
               else if verify_key a (mc_salt mc) key_id secret (kd_key_hash k)
               then (Some (kd_workspace k), c1)
               else (None, c1)))"

definition revoke_key :: "'c cache_ops \<Rightarrow> int \<Rightarrow> string \<Rightarrow> 'c \<Rightarrow> bool \<times> 'c" where
  "revoke_key ops now key_id c =
     (case ch_get ops now key_id c of
        (x, c1) \<Rightarrow>
          (case found x of
             Some k \<Rightarrow> (True, snd (ch_set ops now key_id (k\<lparr>kd_enabled := False\<rparr>) c1))
           | None \<Rightarrow> (False, c1)))"

record auth_cache_stats =
  cs_current_size :: nat
  cs_max_size :: nat
  cs_ttl_seconds :: int

definition auth_cache_stats_of :: "manager_config \<Rightarrow> 'c cache_ops \<Rightarrow> int \<Rightarrow> 'c \<Rightarrow> auth_cache_stats \<times> 'c" where
  "auth_cache_stats_of mc ops now c =
     (case ch_len ops now c of
        (x, c') \<Rightarrow>
          (\<lparr>cs_current_size = (case x of Inr n \<Rightarrow> n | Inl _ \<Rightarrow> 0), cs_max_size = mc_max_cache_size mc,
            cs_ttl_seconds = mc_cache_ttl_seconds mc\<rparr>, c'))"

definition clear_key_cache :: "'c cache_ops \<Rightarrow> int \<Rightarrow> 'c \<Rightarrow> 'c" where
  "clear_key_cache ops now c = snd (ch_clear ops now c)"

definition authenticate ::
  "argon2 \<Rightarrow> manager_config \<Rightarrow> 'c cache_ops \<Rightarrow> int \<Rightarrow> string \<Rightarrow> string \<Rightarrow> 'c \<Rightarrow> string res \<times> 'c" where
  "authenticate a mc ops now key_id secret c =
     (case manager_validate_key a mc ops now key_id secret c of
        (Some ws, c') \<Rightarrow> (Inr ws, c')
      | (None, c') \<Rightarrow> (Inl (AuthenticationError ''Invalid API key''), c'))"

section \<open>A cache with a time to live\<close>

locale ttl_cache =
  fixes ops :: "'c cache_ops" and live :: "int \<Rightarrow> 'c \<Rightarrow> string \<Rightarrow> api_key_data option" and ttl :: int
  assumes get_law: "ch_get ops now k c = (x, c') \<Longrightarrow>
      live t c' \<subseteq>\<^sub>m live t c \<and> (\<forall>r. x = Inr r \<longrightarrow> r = live now c k)"
    and set_law: "ch_set ops now k v c = (w, c') \<Longrightarrow>
      (live t c' \<subseteq>\<^sub>m (live t c)(k \<mapsto> v) \<or> isl w \<and> live t c' \<subseteq>\<^sub>m live t c) \<and>
      (live t c' k \<noteq> None \<and> live t c' k \<noteq> live t c k \<longrightarrow> t < now + ttl) \<and>
      (\<not> isl w \<longrightarrow> live t c' k \<noteq> None \<longrightarrow> t < now + ttl)"
    and delete_law: "ch_delete ops now k c = (y, c') \<Longrightarrow> live t c' \<subseteq>\<^sub>m live t c"
    and clear_law: "ch_clear ops now c = (z, c') \<Longrightarrow> live t c' \<subseteq>\<^sub>m live t c"
    and age_law: "t \<le> t' \<Longrightarrow> live t' c \<subseteq>\<^sub>m live t c"
begin

text \<open>After a last call at \<open>now\<close> the cache is empty from \<open>now + ttl\<close> on.\<close>

definition spent :: "int \<Rightarrow> 'c \<Rightarrow> bool" where
  "spent now c \<longleftrightarrow> (\<forall>t \<ge> now + ttl. live t c = Map.empty)"

lemma spent_later: "spent now c \<Longrightarrow> now \<le> now' \<Longrightarrow> spent now' c"
  by (simp add: spent_def)

lemma spent_smaller: "spent now c \<Longrightarrow> (\<And>t. live t c' \<subseteq>\<^sub>m live t c) \<Longrightarrow> spent now c'"
  by (simp add: spent_def) (metis map_le_empty map_le_antisym)

lemma spent_set:
  assumes "spent now c" and "ch_set ops now k v c = (x, c')"
  shows "spent now c'"
  unfolding spent_def
proof (intro allI impI ext)
  fix t j
  assume t: "now + ttl \<le> t"
  hence none: "live t c = Map.empty"
    using assms(1) by (simp add: spent_def)
  have "live t c' j = None" if "j \<noteq> k"
    using set_law [OF assms(2), of t] that none by (auto simp: map_le_def dom_def)
  moreover have "live t c' k = None"
    using set_law [OF assms(2), of t] none t by (cases "live t c' k") auto
  ultimately show "live t c' j = None"
    by (cases "j = k") auto
qed

lemma spent_step:
  assumes "spent now c"
  shows "spent now (snd (add_key a salt mc ops now k sec ws e p c))"
    and "spent now (snd (manager_validate_key a mc ops now k sec c))"
    and "spent now (snd (revoke_key ops now k c))" and "spent now (clear_key_cache ops now c)"
proof -
  note set = spent_set [OF _ prod.collapse [symmetric]]
  have get: "spent now c'" if "ch_get ops now k c = (x, c')" for x c'
    using get_law [OF that] by (intro spent_smaller [OF assms]) simp
  have delete: "spent now (snd (ch_delete ops now k c'))" if "spent now c'" for c'
    using delete_law [of now k c' "fst (ch_delete ops now k c')" "snd (ch_delete ops now k c')"]
    by (intro spent_smaller [OF that]) simp
  show "spent now (snd (add_key a salt mc ops now k sec ws e p c))"
    using assms set by (auto simp: add_key_def case_prod_beta split: sum.split)
  show "spent now (snd (manager_validate_key a mc ops now k sec c))"
    using get delete by (auto simp: manager_validate_key_def split: prod.splits option.splits)
  show "spent now (snd (revoke_key ops now k c))"
    using get set by (auto simp: revoke_key_def split: prod.splits option.splits)
  show "spent now (clear_key_cache ops now c)"
    using clear_law [of now c "fst (ch_clear ops now c)" "snd (ch_clear ops now c)"]
    by (intro spent_smaller [OF assms]) (simp add: clear_key_cache_def)
qed

lemma spent_refuses:
  assumes "spent now c" and "now + ttl \<le> t"
  shows "fst (manager_validate_key a mc ops t k sec c) = None"
proof -
  obtain x c' where g: "ch_get ops t k c = (x, c')"
    by fastforce
  have "live t c k = None"
    using assms by (simp add: spent_def)
  hence "found x = None"
    using get_law [OF g] by (cases x) (auto simp: found_def)
  thus ?thesis
    by (simp add: manager_validate_key_def g)
qed

text \<open>Once the disabled entry has been stored, no secret is accepted while the key is not added again.\<close>

lemma revoked_refused:
  assumes "ch_set ops now k v c = (Inr u, c')" and "\<not> kd_enabled v"
  shows "fst (manager_validate_key a mc ops t k sec c') = None"
proof -
  obtain x c'' where g: "ch_get ops t k c' = (x, c'')"
    by fastforce
  have "live t c' k = None \<or> live t c' k = Some v"
    using set_law [OF assms(1), of t] by (auto simp: map_le_def dom_def)
  thus ?thesis
    using get_law [OF g] assms(2)
    by (cases x) (auto simp: manager_validate_key_def g found_def)
qed

end

section \<open>A concrete cache\<close>

text \<open>Entries with the time they end; \<open>cc_faults\<close> says which of the coming calls fail.\<close>

record list_cache =
  cc_entries :: "(string \<times> api_key_data \<times> int) list"
  cc_faults :: "bool list"

definition cc_live :: "int \<Rightarrow> list_cache \<Rightarrow> string \<Rightarrow> api_key_data option" where
  "cc_live t c k = (case map_of (cc_entries c) k of Some (v, e) \<Rightarrow> if t < e then Some v else None | None \<Rightarrow> None)"

definition cc_call ::
  "(list_cache \<Rightarrow> 'a) \<Rightarrow> ((string \<times> api_key_data \<times> int) list \<Rightarrow> (string \<times> api_key_data \<times> int) list) \<Rightarrow> list_cache \<Rightarrow>
   (string + 'a) \<times> list_cache" where
  "cc_call answer effect c =
     (if cc_faults c \<noteq> [] \<and> hd (cc_faults c) then (Inl ''cache unavailable'', c\<lparr>cc_faults := tl (cc_faults c)\<rparr>)
      else (Inr (answer c), \<lparr>cc_entries = effect (cc_entries c), cc_faults = tl (cc_faults c)\<rparr>))"

definition cc_ops :: "int \<Rightarrow> list_cache cache_ops" where
  "cc_ops ttl =
     \<lparr>ch_get = (\<lambda>now k. cc_call (\<lambda>c. cc_live now c k) id),
      ch_set = (\<lambda>now k v. cc_call (\<lambda>_. ()) (AList.update k (v, now + ttl))),
      ch_delete = (\<lambda>now k. cc_call (\<lambda>_. ()) (AList.delete k)),
      ch_clear = (\<lambda>now. cc_call (\<lambda>_. ()) (\<lambda>_. [])),
      ch_len = (\<lambda>now. cc_call (\<lambda>c. length (filter (\<lambda>(k, v, e). now < e) (cc_entries c))) id)\<rparr>"

interpretation lc: ttl_cache "cc_ops ttl" cc_live ttl for ttl
proof
  show "cc_live t c' \<subseteq>\<^sub>m cc_live t c \<and> (\<forall>r. x = Inr r \<longrightarrow> r = cc_live now c k)"
    if "ch_get (cc_ops ttl) now k c = (x, c')" for now k c x c' t
    using that by (auto simp: cc_ops_def cc_call_def cc_live_def map_le_def split: if_splits)
  show "(cc_live t c' \<subseteq>\<^sub>m (cc_live t c)(k \<mapsto> v) \<or> isl x \<and> cc_live t c' \<subseteq>\<^sub>m cc_live t c) \<and>
      (cc_live t c' k \<noteq> None \<and> cc_live t c' k \<noteq> cc_live t c k \<longrightarrow> t < now + ttl) \<and>
      (\<not> isl x \<longrightarrow> cc_live t c' k \<noteq> None \<longrightarrow> t < now + ttl)"
    if "ch_set (cc_ops ttl) now k v c = (x, c')" for now k v c x c' t
    using that by (auto simp: cc_ops_def cc_call_def cc_live_def map_le_def update_conv' split: if_splits)
  show "cc_live t c' \<subseteq>\<^sub>m cc_live t c" if "ch_delete (cc_ops ttl) now k c = (y, c')" for now k c y c' t
    using that by (auto simp: cc_ops_def cc_call_def cc_live_def map_le_def delete_conv' split: if_splits)
  show "cc_live t c' \<subseteq>\<^sub>m cc_live t c" if "ch_clear (cc_ops ttl) now c = (z, c')" for now c z c' t
    using that by (auto simp: cc_ops_def cc_call_def cc_live_def map_le_def split: if_splits)
  show "cc_live t' c \<subseteq>\<^sub>m cc_live t c" if "t \<le> t'" for t t' c
    using that by (auto simp: cc_live_def map_le_def split: option.splits if_splits)
qed

section \<open>How long a key lasts\<close>

datatype key_op =
  AddKey string string string "int option" "string list" | ValidateKey string string | RevokeKey string | ClearKeys

fun key_step ::
  "argon2 \<Rightarrow> string \<Rightarrow> manager_config \<Rightarrow> 'c cache_ops \<Rightarrow> int \<Rightarrow> key_op \<Rightarrow> 'c \<Rightarrow> 'c" where
  "key_step a salt mc ops now (AddKey k sec ws e p) c = snd (add_key a salt mc ops now k sec ws e p c)"
| "key_step a salt mc ops now (ValidateKey k sec) c = snd (manager_validate_key a mc ops now k sec c)"
| "key_step a salt mc ops now (RevokeKey k) c = snd (revoke_key ops now k c)"
| "key_step a salt mc ops now ClearKeys c = clear_key_cache ops now c"

definition key_run ::
  "argon2 \<Rightarrow> string \<Rightarrow> manager_config \<Rightarrow> 'c cache_ops \<Rightarrow> (int \<times> key_op) list \<Rightarrow> 'c \<Rightarrow> 'c" where
  "key_run a salt mc ops es c = fold (\<lambda>(now, op). key_step a salt mc ops now op) es c"

lemma key_run_spent:
  assumes "ttl_cache ops live ttl" and "ttl_cache.spent live ttl now c" and "sorted (now # map fst es)"
  shows "ttl_cache.spent live ttl (last (now # map fst es)) (key_run a salt mc ops es c)"
  using assms(2,3)
proof (induction es arbitrary: now c)
  case Nil
  thus ?case
    by (simp add: key_run_def)
next
  case (Cons e es)
  obtain t op where e: "e = (t, op)"
    by fastforce
  have "ttl_cache.spent live ttl t c"
    using ttl_cache.spent_later [OF assms(1) Cons.prems(1)] Cons.prems(2) e by simp
  hence "ttl_cache.spent live ttl t (key_step a salt mc ops t op c)"
    using ttl_cache.spent_step [OF assms(1)] by (cases op) auto
  from Cons.IH [OF this] Cons.prems(2) e show ?case
    by (simp add: key_run_def)
qed

text \<open>
  A key lives in the cache only: after any calls the last of which is at \<open>last\<close>, no secret of any key is
  accepted from \<open>last + ttl\<close> on, though the key was added without an end.
\<close>

theorem keys_end_with_the_cache:
  assumes "ttl_cache ops live ttl" and "\<And>t. live t c = Map.empty"
    and "sorted (0 # map fst es)" and "last (0 # map fst es) + ttl \<le> t"
  shows "fst (manager_validate_key a mc ops t k sec (key_run a salt mc ops es c)) = None"
proof -
  have "ttl_cache.spent live ttl 0 c"
    using assms(2) by (simp add: ttl_cache.spent_def [OF assms(1)])
  from key_run_spent [OF assms(1) this assms(3)] show ?thesis
    by (rule ttl_cache.spent_refuses [OF assms(1) _ assms(4)])
qed

definition demo_mc :: manager_config where
  "demo_mc = \<lparr>mc_salt = ''salt'', mc_cache_ttl_seconds = 300, mc_max_cache_size = 10000\<rparr>"

definition demo_keys :: "(int \<times> key_op) list" where
  "demo_keys = [(0, AddKey ''k'' ''s'' ''w'' None []), (5, ValidateKey ''k'' ''s'')]"

definition empty_cache :: list_cache where
  "empty_cache = \<lparr>cc_entries = [], cc_faults = []\<rparr>"

lemma keys_end_with_the_cache_witness:
  "fst (manager_validate_key plain_argon2 demo_mc (cc_ops 300) 305 ''k'' ''s''
     (key_run plain_argon2 ''x'' demo_mc (cc_ops 300) demo_keys empty_cache)) = None"
proof (rule keys_end_with_the_cache [OF lc.ttl_cache_axioms])
  show "cc_live t empty_cache = Map.empty" for t
    by (simp add: cc_live_def empty_cache_def fun_eq_iff)
  show "sorted (0 # map fst demo_keys)" "last (0 # map fst demo_keys) + 300 \<le> (305 :: int)"
    by (simp_all add: demo_keys_def)
qed

lemma key_lives_until_then:
  "fst (manager_validate_key plain_argon2 demo_mc (cc_ops 300) 299 ''k'' ''s''
     (key_run plain_argon2 ''x'' demo_mc (cc_ops 300) demo_keys empty_cache)) = Some ''w''"
  by code_simp

text \<open>A revocation whose write the cache refuses is reported as done, and the key still validates.\<close>

lemma failed_revocation_reported:
  "case revoke_key (cc_ops 300) 10 ''k''
      ((key_run plain_argon2 ''x'' demo_mc (cc_ops 300) demo_keys empty_cache)\<lparr>cc_faults := [False, True]\<rparr>) of
    (done, c) \<Rightarrow> done \<and> fst (manager_validate_key plain_argon2 demo_mc (cc_ops 300) 11 ''k'' ''s'' c) = Some ''w''"
  by code_simp

end
