(* ===== verification/Startup.thy ===== *)
theory Startup
  imports App_Config Ip_Addr "HOL-Library.Sublist"
begin

text \<open>
  Start-up: the TLS manager of \<open>src/src/server/config/tls.rs\<close>, and of \<open>src/src/main.rs\<close> the choice of the lock,
  the check of the pepper, the trusted proxies, and what the two servers are started with.

  The file system and the TLS libraries are the parameter \<open>tls_env\<close>: a file that can be opened is the sequence of
  answers \<open>rustls_pemfile::read_one\<close> gives for it. The answers of the database, of the etcd client and of the
  frameworks are parameters too. Log output, the address 0.0.0.0 and the wiring of shared pointers are left out.
\<close>

section \<open>The TLS manager\<close>

datatype tls_error = CertificateLoadError string | PrivateKeyLoadError string | InvalidConfig string

fun tls_error_text :: "tls_error \<Rightarrow> string" where
  "tls_error_text (CertificateLoadError e) = ''Failed to load certificate: '' @ e"
| "tls_error_text (PrivateKeyLoadError e) = ''Failed to load private key: '' @ e"
| "tls_error_text (InvalidConfig e) = ''Invalid TLS configuration: '' @ e"

datatype private_key = Pkcs1 "u8 list" | Pkcs8 "u8 list" | Sec1 "u8 list"

fun secret_der :: "private_key \<Rightarrow> u8 list" where
  "secret_der (Pkcs1 b) = b"
| "secret_der (Pkcs8 b) = b"
| "secret_der (Sec1 b) = b"

datatype pem_item = X509Certificate "u8 list" | KeyItem private_key | OtherItem

record tls_env =
  te_exists :: "string \<Rightarrow> bool"
  te_open :: "string \<Rightarrow> string + (string + pem_item) list"
  te_single_cert :: "u8 list \<Rightarrow> private_key \<Rightarrow> string + unit"
  te_debug :: "string \<Rightarrow> string"

text \<open>What the HTTP acceptor and the gRPC server are configured with.\<close>

record http_tls =
  ht_certificate :: "u8 list"
  ht_key :: private_key
  ht_alpn :: "string list"

record grpc_tls =
  gt_certificate :: "u8 list"
  gt_key :: "u8 list"
  gt_client_ca :: "u8 list option"

record tls_manager =
  tm_config :: tls_config
  tm_http_acceptor :: "http_tls option"
  tm_grpc_config :: "grpc_tls option"

definition tls_manager_new :: "tls_config \<Rightarrow> tls_manager" where
  "tls_manager_new c = \<lparr>tm_config = c, tm_http_acceptor = None, tm_grpc_config = None\<rparr>"

definition is_http_enabled :: "tls_manager \<Rightarrow> bool" where
  "is_http_enabled m \<longleftrightarrow> tls_http_enabled (tm_config m) \<and> tm_http_acceptor m \<noteq> None"

definition is_grpc_enabled :: "tls_manager \<Rightarrow> bool" where
  "is_grpc_enabled m \<longleftrightarrow> tls_grpc_enabled (tm_config m) \<and> tm_grpc_config m \<noteq> None"

text \<open>The loops over the items of a file, which stop at the first of the wanted kind.\<close>

fun first_certificate :: "(string + pem_item) list \<Rightarrow> string + u8 list option" where
  "first_certificate [] = Inr None"
| "first_certificate (Inr (X509Certificate c) # _) = Inr (Some c)"
| "first_certificate (Inr _ # items) = first_certificate items"
| "first_certificate (Inl e # _) = Inl e"

fun first_key :: "(string + pem_item) list \<Rightarrow> string + private_key option" where
  "first_key [] = Inr None"
| "first_key (Inr (KeyItem k) # _) = Inr (Some k)"
| "first_key (Inr _ # items) = first_key items"
| "first_key (Inl e # _) = Inl e"

definition load_certificate :: "string \<Rightarrow> string + (string + pem_item) list \<Rightarrow> tls_error + u8 list" where
  "load_certificate empty_text opened =
     (case opened of
        Inl e \<Rightarrow> Inl (CertificateLoadError e)
      | Inr items \<Rightarrow>
          (case first_certificate items of
             Inl e \<Rightarrow> Inl (CertificateLoadError e)
           | Inr None \<Rightarrow> Inl (CertificateLoadError empty_text)
           | Inr (Some c) \<Rightarrow> Inr c))"

definition configure_http ::
  "tls_env \<Rightarrow> u8 list \<Rightarrow> private_key \<Rightarrow> tls_manager \<Rightarrow> (tls_error + unit) \<times> tls_manager" where
  "configure_http env cert key m =
     (if \<not> tls_http_enabled (tm_config m) then (Inr (), m)
      else case te_single_cert env cert key of
        Inl e \<Rightarrow> (Inl (InvalidConfig e), m)
      | Inr _ \<Rightarrow>
          (Inr (), m\<lparr>tm_http_acceptor :=
             Some \<lparr>ht_certificate = cert, ht_key = key, ht_alpn = alpn_protocols (tm_config m)\<rparr>\<rparr>))"

definition configure_grpc ::
  "tls_env \<Rightarrow> u8 list \<Rightarrow> private_key \<Rightarrow> tls_manager \<Rightarrow> (tls_error + unit) \<times> tls_manager" where
  "configure_grpc env cert key m =
     (if \<not> tls_grpc_enabled (tm_config m) then (Inr (), m)
      else
        let identity = \<lparr>gt_certificate = cert, gt_key = secret_der key, gt_client_ca = None\<rparr> in
        case tls_ca_path (tm_config m) of
          None \<Rightarrow> (Inr (), m\<lparr>tm_grpc_config := Some identity\<rparr>)
        | Some path \<Rightarrow>
            (case load_certificate ''Empty CA certificate'' (te_open env path) of
               Inl e \<Rightarrow> (Inl e, m)
             | Inr ca \<Rightarrow> (Inr (), m\<lparr>tm_grpc_config := Some (identity\<lparr>gt_client_ca := Some ca\<rparr>)\<rparr>)))"

definition load_identity :: "tls_env \<Rightarrow> tls_config \<Rightarrow> tls_error + (u8 list \<times> private_key)" where
  "load_identity env c =
     (if \<not> te_exists env (tls_cert_path c) then
        Inl (CertificateLoadError (''Certificate file not found: '' @ te_debug env (tls_cert_path c)))
      else if \<not> te_exists env (tls_key_path c) then
        Inl (PrivateKeyLoadError (''Private key file not found: '' @ te_debug env (tls_key_path c)))
      else
        case te_open env (tls_cert_path c) of
          Inl e \<Rightarrow> Inl (CertificateLoadError e)
        | Inr certs \<Rightarrow>
            (case te_open env (tls_key_path c) of
               Inl e \<Rightarrow> Inl (PrivateKeyLoadError e)
             | Inr keys \<Rightarrow>
                 (case load_certificate ''Empty certificate chain'' (Inr certs) of
                    Inl e \<Rightarrow> Inl e
                  | Inr cert \<Rightarrow>
                      (case first_key keys of
                         Inl e \<Rightarrow> Inl (PrivateKeyLoadError e)
                       | Inr None \<Rightarrow> Inl (PrivateKeyLoadError ''Empty private key'')
                       | Inr (Some key) \<Rightarrow> Inr (cert, key)))))"

definition tls_initialize :: "tls_env \<Rightarrow> tls_manager \<Rightarrow> (tls_error + unit) \<times> tls_manager" where
  "tls_initialize env m =
     (if \<not> tls_enabled (tm_config m) then (Inr (), m)
      else case load_identity env (tm_config m) of
        Inl e \<Rightarrow> (Inl e, m)
      | Inr (cert, key) \<Rightarrow>
          (case configure_http env cert key m of
             (Inl e, m') \<Rightarrow> (Inl e, m')
           | (Inr _, m') \<Rightarrow> configure_grpc env cert key m'))"

section \<open>The servers\<close>

definition tls_at_start :: "tls_env \<Rightarrow> tls_config \<Rightarrow> tls_manager option" where
  "tls_at_start env c =
     (let m = snd (tls_initialize env (tls_manager_new c))
      in if is_http_enabled m \<or> is_grpc_enabled m then Some m else None)"

text \<open>The port a server listens on and the TLS it speaks there; the HTTP server knows one of each.\<close>

definition http_listener :: "config \<Rightarrow> tls_manager option \<Rightarrow> u16 \<times> http_tls option" where
  "http_listener c tls = (8080, None)"

text \<open>\<open>tonic\<close> answers whether the transport accepts a TLS configuration.\<close>

definition grpc_listener ::
  "(grpc_tls \<Rightarrow> string + unit) \<Rightarrow> config \<Rightarrow> tls_manager option \<Rightarrow> (u16 \<times> grpc_tls option) res" where
  "grpc_listener tonic c tls =
     (case tls of
        Some m \<Rightarrow>
          if is_grpc_enabled m
          then (case tm_grpc_config m of
                  Some g \<Rightarrow>
                    (case tonic g of
                       Inl e \<Rightarrow> Inl (InternalError (''TLS config error: '' @ e))
                     | Inr _ \<Rightarrow> Inr (grpc_port (cfg_app c), Some g))
                | None \<Rightarrow> Inr (grpc_port (cfg_app c), None))
          else Inr (grpc_port (cfg_app c), None)
      | None \<Rightarrow> Inr (grpc_port (cfg_app c), None))"

text \<open>Which of the servers ends first, or the signal to shut down, ends the process.\<close>

datatype server_end = ServerReturned "unit res" | ServerPanicked string

datatype first_end = HttpEnd server_end | GrpcEnd server_end | ShutdownSignal

fun server_failure :: "string \<Rightarrow> server_end \<Rightarrow> unit res" where
  "server_failure what (ServerReturned r) = r"
| "server_failure what (ServerPanicked e) = Inl (InternalError (what @ '' server panic: '' @ e))"

fun main_result :: "first_end \<Rightarrow> unit res" where
  "main_result (HttpEnd s) = server_failure ''HTTP'' s"
| "main_result (GrpcEnd s) = server_failure ''gRPC'' s"
| "main_result ShutdownSignal = Inr ()"

section \<open>Start-up\<close>

definition config_path_of :: "string list \<Rightarrow> string" where
  "config_path_of args =
     (if length args > 2 \<and> args ! 1 = ''--config'' then args ! 2 else ''config/config.toml'')"

datatype lock_kind = LocalLockKind | EtcdLockKind

text \<open>
  \<open>etcd_client\<close> is the outcome of connecting the client and, if that succeeds, of making the lock.
\<close>

definition choose_lock :: "bool \<Rightarrow> string list \<Rightarrow> string + (string + unit) \<Rightarrow> lock_kind" where
  "choose_lock etcd_feature endpoints etcd_client =
     (if \<not> etcd_feature \<or> endpoints = [] then LocalLockKind
      else case etcd_client of
        Inr (Inr _) \<Rightarrow> EtcdLockKind
      | _ \<Rightarrow> LocalLockKind)"

definition weak_salt :: "string \<Rightarrow> bool" where
  "weak_salt s \<longleftrightarrow> s = [] \<or> length s < 16 \<or> s = ''test'' \<or> s = ''test-secret-value-12345''"

definition trusted_proxies_of :: "env_vars \<Rightarrow> ip_addr list" where
  "trusted_proxies_of env =
     (case env ''NEBULA_TRUSTED_PROXIES'' of
        Some s \<Rightarrow> List.map_filter (\<lambda>p. parse_ip (trim p)) (split_on (CHR '','') s)
      | None \<Rightarrow> [])"

record service =
  sv_config :: config
  sv_lock :: lock_kind
  sv_trusted_proxies :: "ip_addr list"
  sv_audit_capacity :: nat
  sv_reload_path :: string
  sv_tls :: "tls_manager option"

datatype started = Exits | Panics | Fails core_error | Runs service

text \<open>
  \<open>connect\<close> and \<open>migrate\<close> are the outcomes of the connection and the migrations, \<open>router\<close> that of the
  initialisation of the algorithms.
\<close>

definition main_start ::
  "env_vars \<Rightarrow> string list \<Rightarrow> (string \<Rightarrow> config config_result) \<Rightarrow> (database_config \<Rightarrow> unit res) \<Rightarrow> unit res \<Rightarrow>
   bool \<Rightarrow> string + (string + unit) \<Rightarrow> (config \<Rightarrow> unit res) \<Rightarrow> tls_env \<Rightarrow> started" where
  "main_start env args load connect migrate etcd_feature etcd_client router tls =
     (case startup_config env (load (config_path_of args)) of
        None \<Rightarrow> Panics
      | Some c \<Rightarrow>
          if isl (connect (cfg_database c)) \<or> isl migrate then Exits
          else if is_production env \<and> weak_salt (api_key_salt (cfg_auth c)) then Panics
          else case router c of
            Inl e \<Rightarrow> Fails e
          | Inr _ \<Rightarrow>
              Runs \<lparr>sv_config = c, sv_lock = choose_lock etcd_feature (etcd_endpoints (cfg_etcd c)) etcd_client,
                    sv_trusted_proxies = trusted_proxies_of env,
                    sv_audit_capacity = unat (default_rps (cfg_rate_limit c)),
                    sv_reload_path = ''config/config.toml'', sv_tls = tls_at_start tls (cfg_tls c)\<rparr>)"

section \<open>What a start gives\<close>

text \<open>The service as the two servers see it.\<close>

definition http_of :: "service \<Rightarrow> u16 \<times> http_tls option" where
  "http_of sv = http_listener (sv_config sv) (sv_tls sv)"

definition grpc_of :: "(grpc_tls \<Rightarrow> string + unit) \<Rightarrow> service \<Rightarrow> (u16 \<times> grpc_tls option) res" where
  "grpc_of tonic sv = grpc_listener tonic (sv_config sv) (sv_tls sv)"

lemma configure_http_frame:
  "configure_http env cert key m = (r, m') \<Longrightarrow> tm_config m' = tm_config m \<and> tm_grpc_config m' = tm_grpc_config m"
  by (auto simp: configure_http_def split: if_splits sum.splits)

lemma configure_grpc_result:
  assumes "configure_grpc env cert key m = (r, m')" and "tm_grpc_config m = None"
  shows "tm_config m' = tm_config m"
    and "tm_grpc_config m' \<noteq> None \<longleftrightarrow> \<not> isl r \<and> tls_grpc_enabled (tm_config m)"
    and "tm_grpc_config m' = Some g \<Longrightarrow> gt_certificate g = cert \<and> gt_key g = secret_der key"
  using assms by (auto simp: configure_grpc_def Let_def split: if_splits option.splits sum.splits)

text \<open>gRPC gets its TLS configuration exactly when the whole initialisation has succeeded.\<close>

lemma tls_initialize_result:
  assumes "tls_initialize env (tls_manager_new c) = (r, m)"
  shows "tm_config m = c"
    and "tm_grpc_config m \<noteq> None \<longleftrightarrow> \<not> isl r \<and> tls_enabled c \<and> tls_grpc_enabled c"
    and "tm_grpc_config m = Some g \<Longrightarrow>
      \<exists>cert key. load_identity env c = Inr (cert, key) \<and> gt_certificate g = cert \<and> gt_key g = secret_der key"
proof -
  have new: "tm_config (tls_manager_new c) = c" "tm_grpc_config (tls_manager_new c) = None"
    by (simp_all add: tls_manager_new_def)
  have "tm_config m = c \<and> (tm_grpc_config m \<noteq> None \<longleftrightarrow> \<not> isl r \<and> tls_enabled c \<and> tls_grpc_enabled c) \<and>
    (\<forall>g. tm_grpc_config m = Some g \<longrightarrow>
      (\<exists>cert key. load_identity env c = Inr (cert, key) \<and> gt_certificate g = cert \<and> gt_key g = secret_der key))"
  proof (cases "tls_enabled c \<and> \<not> isl (load_identity env c)")
    case False
    thus ?thesis
      using assms new by (cases "load_identity env c") (auto simp: tls_initialize_def split: if_splits)
  next
    case True
    then obtain cert key where i: "load_identity env c = Inr (cert, key)"
      by (cases "load_identity env c") auto
    obtain r1 m1 where h: "configure_http env cert key (tls_manager_new c) = (r1, m1)"
      by fastforce
    have m1: "tm_config m1 = c" "tm_grpc_config m1 = None"
      using configure_http_frame [OF h] new by simp_all
    show ?thesis
    proof (cases r1)
      case (Inl e)
      thus ?thesis
        using assms True i h new m1 by (auto simp: tls_initialize_def)
    next
      case (Inr u)
      hence g: "configure_grpc env cert key m1 = (r, m)"
        using assms True i h new by (simp add: tls_initialize_def)
      show ?thesis
        using configure_grpc_result [OF g m1(2)] m1(1) True i by auto
    qed
  qed
  thus "tm_config m = c" "tm_grpc_config m \<noteq> None \<longleftrightarrow> \<not> isl r \<and> tls_enabled c \<and> tls_grpc_enabled c"
    "tm_grpc_config m = Some g \<Longrightarrow>
      \<exists>cert key. load_identity env c = Inr (cert, key) \<and> gt_certificate g = cert \<and> gt_key g = secret_der key"
    by blast+
qed

lemma grpc_listener_at_start:
  assumes "tls_initialize env (tls_manager_new (cfg_tls c)) = (r, m)"
  shows "grpc_listener tonic c (tls_at_start env (cfg_tls c)) =
    (case tm_grpc_config m of
       None \<Rightarrow> Inr (grpc_port (cfg_app c), None)
     | Some g \<Rightarrow> (case tonic g of Inl e \<Rightarrow> Inl (InternalError (''TLS config error: '' @ e))
                 | Inr _ \<Rightarrow> Inr (grpc_port (cfg_app c), Some g)))"
  using tls_initialize_result(1,2) [OF assms]
  by (auto simp: grpc_listener_def tls_at_start_def assms is_grpc_enabled_def Let_def split: option.splits)

lemma main_start_runs:
  assumes "main_start env args load connect migrate etcd_feature etcd_client router tls = Runs sv"
  shows "startup_config env (load (config_path_of args)) = Some (sv_config sv)"
    and "sv_tls sv = tls_at_start tls (cfg_tls (sv_config sv))"
    and "is_production env \<Longrightarrow> \<not> weak_salt (api_key_salt (cfg_auth (sv_config sv)))"
    and "sv_lock sv = choose_lock etcd_feature (etcd_endpoints (cfg_etcd (sv_config sv))) etcd_client"
  using assms by (auto simp: main_start_def split: option.splits if_splits sum.splits)

text \<open>
  C29. TLS fails open: when it is switched on and cannot be set up, for whatever reason, the start goes on, and both
  servers answer without encryption.
\<close>

theorem tls_fails_open:
  assumes "main_start env args load connect migrate etcd_feature etcd_client router tls = Runs sv"
    and "fst (tls_initialize tls (tls_manager_new (cfg_tls (sv_config sv)))) = Inl e"
  shows "http_of sv = (8080, None) \<and> grpc_of tonic sv = Inr (grpc_port (cfg_app (sv_config sv)), None)"
proof -
  obtain m where m: "tls_initialize tls (tls_manager_new (cfg_tls (sv_config sv))) = (Inl e, m)"
    using assms(2) by (cases "tls_initialize tls (tls_manager_new (cfg_tls (sv_config sv)))") simp
  have "tm_grpc_config m = None"
    using tls_initialize_result(2) [OF m] by auto
  thus ?thesis
    using grpc_listener_at_start [OF m] main_start_runs(2) [OF assms(1)]
    by (simp add: http_of_def http_listener_def grpc_of_def)
qed

text \<open>
  gRPC with TLS never starts: the identity is handed over as the decoded DER bytes where the library expects the
  PEM text, so the library refuses it, and the end of that server ends the process.
\<close>

definition pem_mark :: "u8 list" where
  "pem_mark = map (\<lambda>c. of_nat (code_of c)) ''-----BEGIN''"

theorem grpc_tls_never_starts:
  assumes "main_start env args load connect migrate etcd_feature etcd_client router tls = Runs sv"
    and "tls_enabled (cfg_tls (sv_config sv))" and "tls_grpc_enabled (cfg_tls (sv_config sv))"
    and "fst (tls_initialize tls (tls_manager_new (cfg_tls (sv_config sv)))) = Inr ()"
    and "\<And>g. \<not> sublist pem_mark (gt_key g) \<Longrightarrow> isl (tonic g)"
    and "\<And>cert key. load_identity tls (cfg_tls (sv_config sv)) = Inr (cert, key) \<Longrightarrow> \<not> sublist pem_mark (secret_der key)"
  shows "isl (grpc_of tonic sv) \<and>
    isl (main_result (GrpcEnd (ServerReturned (map_sum id (\<lambda>_. ()) (grpc_of tonic sv)))))"
proof -
  obtain m where m: "tls_initialize tls (tls_manager_new (cfg_tls (sv_config sv))) = (Inr (), m)"
    using assms(4) by (cases "tls_initialize tls (tls_manager_new (cfg_tls (sv_config sv)))") simp
  obtain g where g: "tm_grpc_config m = Some g"
    using tls_initialize_result(2) [OF m] assms(2,3) by auto
  have "\<not> sublist pem_mark (gt_key g)"
    using tls_initialize_result(3) [OF m g] assms(6) by auto
  then obtain e where "tonic g = Inl e"
    using assms(5) [of g] by (cases "tonic g") auto
  thus ?thesis
    using grpc_listener_at_start [OF m, of tonic] main_start_runs(2) [OF assms(1)] g
    by (simp add: grpc_of_def)
qed

section \<open>Examples\<close>

text \<open>A configuration file that switches TLS on, started under a test environment.\<close>

definition demo_tls :: tls_config where
  "demo_tls = tls_config_default
     \<lparr>tls_enabled := True, tls_cert_path := ''cert.pem'', tls_key_path := ''key.pem'', tls_http_enabled := True,
      tls_grpc_enabled := True\<rparr>"

definition demo_load :: "string \<Rightarrow> config config_result" where
  "demo_load path =
     (if path = ''/etc/nebula.toml'' then Inr (test_config\<lparr>cfg_tls := demo_tls\<rparr>) else Inl (FileError path))"

definition demo_files :: "string list \<Rightarrow> tls_env" where
  "demo_files there =
     \<lparr>te_exists = (\<lambda>path. path \<in> set there),
      te_open = (\<lambda>path. if path = ''cert.pem'' then Inr [Inr OtherItem, Inr (X509Certificate [0x30, 1]), Inr (X509Certificate [0x30, 2])]
                 else if path = ''key.pem'' then Inr [Inr (KeyItem (Pkcs8 [0x30, 3]))] else Inl ''not found''),
      te_single_cert = (\<lambda>cert key. Inr ()), te_debug = (\<lambda>path. path)\<rparr>"

definition demo_start :: "string list \<Rightarrow> started" where
  "demo_start there = main_start test_env [''nebulaid'', ''--config'', ''/etc/nebula.toml''] demo_load (\<lambda>_. Inr ()) (Inr ())
     False (Inl ''no client'') (\<lambda>_. Inr ()) (demo_files there)"

lemma demo_start_runs:
  "\<exists>sv. demo_start there = Runs sv \<and> cfg_tls (sv_config sv) = demo_tls \<and> sv_reload_path sv = ''config/config.toml''"
proof -
  have unset: "test_env name = None" if "name \<noteq> ''NEBULA_TEST_MODE''" for name
    using that by (simp add: test_env_def)
  have path: "config_path_of [''nebulaid'', ''--config'', ''/etc/nebula.toml''] = ''/etc/nebula.toml''"
    by (simp add: config_path_of_def)
  obtain c where c: "startup_config test_env (Inr (test_config\<lparr>cfg_tls := demo_tls\<rparr>)) = Some c" "cfg_tls c = demo_tls"
    by (simp add: startup_config_def load_from_env_def config_default_test env_number_def unset Let_def merge_def)
  have dev: "\<not> is_production test_env"
    by code_simp
  show ?thesis
    using c dev by (simp add: demo_start_def main_start_def path demo_load_def)
qed

text \<open>The example with missing files.\<close>

lemma tls_fails_open_witness:
  "\<exists>sv. demo_start [''cert.pem''] = Runs sv \<and> tls_http_enabled (cfg_tls (sv_config sv)) \<and> http_of sv = (8080, None) \<and>
     grpc_of (\<lambda>_. Inr ()) sv = Inr (grpc_port (cfg_app (sv_config sv)), None)"
proof -
  obtain sv where sv: "demo_start [''cert.pem''] = Runs sv" "cfg_tls (sv_config sv) = demo_tls"
    using demo_start_runs by blast
  have "fst (tls_initialize (demo_files [''cert.pem'']) (tls_manager_new demo_tls)) =
      Inl (PrivateKeyLoadError ''Private key file not found: key.pem'')"
    by code_simp
  from tls_fails_open [OF sv(1) [unfolded demo_start_def], unfolded sv(2), OF this, of "\<lambda>_. Inr ()"] sv show ?thesis
    by (simp add: demo_tls_def tls_config_default_def)
qed

text \<open>A library that accepts an identity whose key is PEM text.\<close>

definition demo_tonic :: "grpc_tls \<Rightarrow> string + unit" where
  "demo_tonic g = (if sublist pem_mark (gt_key g) then Inr () else Inl ''PrivateKeyParseError'')"

lemma grpc_tls_never_starts_witness:
  "\<exists>sv. demo_start [''cert.pem'', ''key.pem''] = Runs sv \<and> isl (grpc_of demo_tonic sv)"
proof -
  let ?env = "demo_files [''cert.pem'', ''key.pem'']"
  obtain sv where sv: "demo_start [''cert.pem'', ''key.pem''] = Runs sv" "cfg_tls (sv_config sv) = demo_tls"
    using demo_start_runs by blast
  have "load_identity ?env demo_tls = Inr ([0x30, 1], Pkcs8 [0x30, 3])"
    by code_simp
  moreover have "\<not> sublist pem_mark [0x30, 3]"
  proof
    assume "sublist pem_mark [0x30, 3]"
    from sublist_length_le [OF this] show False
      by (simp add: pem_mark_def)
  qed
  ultimately have no_pem: "\<not> sublist pem_mark (secret_der key)" if "load_identity ?env demo_tls = Inr (cert, key)" for cert key
    using that by simp
  have init: "fst (tls_initialize ?env (tls_manager_new demo_tls)) = Inr ()"
    by code_simp
  have on: "tls_enabled demo_tls" "tls_grpc_enabled demo_tls"
    by (simp_all add: demo_tls_def)
  have "isl (grpc_of demo_tonic sv)"
    using grpc_tls_never_starts [OF sv(1) [unfolded demo_start_def], unfolded sv(2), OF on init, of demo_tonic] no_pem
    by (simp add: demo_tonic_def)
  with sv show ?thesis
    by blast
qed

text \<open>The file that is read again on a reload is not the one the service was started with.\<close>

lemma reload_reads_other_file:
  "\<exists>sv. demo_start [] = Runs sv \<and>
     sv_reload_path sv \<noteq> config_path_of [''nebulaid'', ''--config'', ''/etc/nebula.toml'']"
  using demo_start_runs [of "[]"] by (auto simp: config_path_of_def)

text \<open>In production the service never runs with a weak pepper.\<close>

theorem production_salt_strong:
  assumes "main_start env args load connect migrate etcd_feature etcd_client router tls = Runs sv" and "is_production env"
  shows "16 \<le> length (api_key_salt (cfg_auth (sv_config sv)))"
  using main_start_runs(3) [OF assms] by (simp add: weak_salt_def)

text \<open>A network among the trusted proxies is dropped, silently: only single addresses are understood.\<close>

lemma trusted_networks_dropped:
  "trusted_proxies_of [''NEBULA_TRUSTED_PROXIES'' \<mapsto> ''10.0.0.1, 10.0.0.0/8''] = [V4 10 0 0 1]"
  by code_simp

end
