(* ===== verification/Config_Adapter.thy ===== *)
theory Config_Adapter
  imports App_Config "HOL-Library.AList"
begin

text \<open>
  The configuration provider and adapter of \<open>src/src/infrastructure\<close> (\<open>config_provider.rs\<close>, \<open>config_adapter.rs\<close>):
  a tree of settings flattened to keys with dots, and the configuration read from such keys.

  A tree is a map of names or a leaf with a value of the library \<open>confers\<close>; the order of a map is that of its
  iteration. The typed readings of a value (\<open>get_string\<close>, \<open>get_int\<close> and so on) are the library's and parameters.
\<close>

section \<open>The provider\<close>

datatype 'v setting = SettingMap "(string \<times> 'v setting) list" | SettingLeaf 'v

text \<open>The result is a hash map, here an association list with one entry per key.\<close>

fun flatten_setting :: "'v setting \<Rightarrow> string \<Rightarrow> (string \<times> 'v) list \<Rightarrow> (string \<times> 'v) list"
  and flatten_entries :: "(string \<times> 'v setting) list \<Rightarrow> string \<Rightarrow> (string \<times> 'v) list \<Rightarrow> (string \<times> 'v) list" where
  "flatten_setting (SettingMap kvs) pre r = flatten_entries kvs pre r"
| "flatten_setting (SettingLeaf v) pre r = (if pre = [] then r else AList.update pre v r)"
| "flatten_entries [] pre r = r"
| "flatten_entries ((k, v) # kvs) pre r =
     flatten_entries kvs pre (flatten_setting v (if pre = [] then k else pre @ ''.'' @ k) r)"

definition provider_from_annotated :: "'v setting \<Rightarrow> (string \<times> 'v) list" where
  "provider_from_annotated v = flatten_setting v [] []"

definition provider_get_raw :: "(string \<times> 'v) list \<Rightarrow> string \<Rightarrow> 'v option" where
  "provider_get_raw vals key = map_of vals key"

definition provider_keys :: "(string \<times> 'v) list \<Rightarrow> string list" where
  "provider_keys vals = map fst vals"

text \<open>The value at a path of names, the meaning of a tree.\<close>

fun setting_at :: "'v setting \<Rightarrow> string list \<Rightarrow> 'v option" where
  "setting_at (SettingLeaf v) [] = Some v"
| "setting_at (SettingMap kvs) (k # ks) = (case map_of kvs k of Some v \<Rightarrow> setting_at v ks | None \<Rightarrow> None)"
| "setting_at _ _ = None"

definition plain_name :: "string \<Rightarrow> bool" where
  "plain_name k \<longleftrightarrow> k \<noteq> [] \<and> CHR ''.'' \<notin> set k"

fun plain_setting :: "'v setting \<Rightarrow> bool" and plain_entries :: "(string \<times> 'v setting) list \<Rightarrow> bool" where
  "plain_setting (SettingLeaf v) = True"
| "plain_setting (SettingMap kvs) = plain_entries kvs"
| "plain_entries [] = True"
| "plain_entries ((k, v) # kvs) \<longleftrightarrow> plain_name k \<and> k \<notin> fst ` set kvs \<and> plain_setting v \<and> plain_entries kvs"

fun join_on :: "char \<Rightarrow> string list \<Rightarrow> string" where
  "join_on sep [] = []"
| "join_on sep [k] = k"
| "join_on sep (k # ks) = k @ sep # join_on sep ks"

abbreviation dotted :: "string list \<Rightarrow> string" where
  "dotted \<equiv> join_on CHR ''.''"

lemma split_on_nonempty [simp]: "split_on sep s \<noteq> []"
  by (induction sep s rule: split_on.induct) (auto split: list.splits)

lemma split_on_append:
  "sep \<notin> set k \<Longrightarrow> split_on sep (k @ sep # s) = k # split_on sep s"
  by (induction k) (auto split: list.splits)

lemma split_on_none: "sep \<notin> set k \<Longrightarrow> split_on sep k = [k]"
  by (induction k) auto

lemma dotted_split: "dotted (split_on CHR ''.'' s) = s"
proof (induction s)
  case (Cons c s)
  obtain p ps where p: "split_on CHR ''.'' s = p # ps"
    by (meson neq_Nil_conv split_on_nonempty)
  with Cons show ?case
    by (cases ps) auto
qed simp

lemma split_join:
  assumes "pp \<noteq> []" and "\<forall>k \<in> set pp. sep \<notin> set k"
  shows "split_on sep (join_on sep pp) = pp"
  using assms by (induction sep pp rule: join_on.induct) (auto simp: split_on_none split_on_append)

lemma dotted_append:
  assumes "pp \<noteq> []"
  shows "dotted (pp @ [k]) = dotted pp @ ''.'' @ k"
  using assms by (induction pp rule: induct_list012) auto

lemma dotted_nonempty: "pp \<noteq> [] \<Longrightarrow> list_all plain_name pp \<Longrightarrow> dotted pp \<noteq> []"
  by (cases pp rule: remdups_adj.cases) (auto simp: plain_name_def)

text \<open>What remains of a path after a prefix.\<close>

definition path_after :: "string list \<Rightarrow> string list \<Rightarrow> string list option" where
  "path_after pp path = (if take (length pp) path = pp then Some (drop (length pp) path) else None)"

definition below :: "'v setting \<Rightarrow> string list \<Rightarrow> string \<Rightarrow> 'v option" where
  "below v pp key = Option.bind (path_after pp (split_on CHR ''.'' key)) (setting_at v)"

lemma path_after_snoc:
  "path_after (pp @ [k]) path = (case path_after pp path of Some (k' # ks) \<Rightarrow> if k' = k then Some ks else None | _ \<Rightarrow> None)"
proof (cases "take (length pp) path = pp")
  case True
  hence p: "path = pp @ drop (length pp) path"
    by (metis append_take_drop_id)
  define rest where "rest = drop (length pp) path"
  have "path = pp @ rest"
    using p by (simp add: rest_def)
  thus ?thesis
    by (cases rest) (auto simp: path_after_def)
next
  case False
  have "take (length pp + 1) path \<noteq> pp @ [k]"
  proof
    assume "take (length pp + 1) path = pp @ [k]"
    from arg_cong [OF this, of "take (length pp)"] False show False
      by simp
  qed
  thus ?thesis
    using False by (simp add: path_after_def)
qed

lemma path_after_end: "path_after pp path = Some [] \<longleftrightarrow> path = pp"
  by (auto simp: path_after_def)

lemma below_leaf:
  assumes "pp \<noteq> []" and "list_all plain_name pp"
  shows "below (SettingLeaf v) pp key = (if key = dotted pp then Some v else None)"
proof -
  have "split_on CHR ''.'' key = pp \<longleftrightarrow> key = dotted pp"
    using assms split_join [OF assms(1)] dotted_split [of key] by (auto simp: list_all_iff plain_name_def)
  moreover have "setting_at (SettingLeaf v) ks = (if ks = [] then Some v else None)" for ks
    by (cases ks) simp_all
  ultimately show ?thesis
    using path_after_end [of pp "split_on CHR ''.'' key"]
    by (cases "path_after pp (split_on CHR ''.'' key)") (auto simp: below_def)
qed

lemma below_entry:
  assumes "k \<notin> fst ` set kvs"
  shows "below (SettingMap ((k, v) # kvs)) pp key =
    (case below (SettingMap kvs) pp key of Some x \<Rightarrow> Some x | None \<Rightarrow> below v (pp @ [k]) key)"
proof -
  have none: "map_of kvs k = None"
    using assms by (simp add: map_of_eq_None_iff)
  show ?thesis
  proof (cases "path_after pp (split_on CHR ''.'' key)")
    case None
    thus ?thesis
      by (simp add: below_def path_after_snoc)
  next
    case (Some rest)
    show ?thesis
      using none by (cases rest) (auto simp: below_def path_after_snoc Some split: option.splits)
  qed
qed

lemma flatten_lookup:
  "plain_setting v \<Longrightarrow> list_all plain_name pp \<Longrightarrow> pre = dotted pp \<Longrightarrow>
     map_of (flatten_setting v pre r) key = (case below v pp key of Some x \<Rightarrow> Some x | None \<Rightarrow> map_of r key)"
  "plain_entries kvs \<Longrightarrow> list_all plain_name pp \<Longrightarrow> pre = dotted pp \<Longrightarrow>
     map_of (flatten_entries kvs pre r) key =
     (case below (SettingMap kvs) pp key of Some x \<Rightarrow> Some x | None \<Rightarrow> map_of r key)"
proof (induction v pre r and kvs pre r arbitrary: pp and pp rule: flatten_setting_flatten_entries.induct)
  case (1 kvs pre r)
  thus ?case
    by simp
next
  case (2 v pre r)
  show ?case
  proof (cases "pp = []")
    case True
    moreover have "below (SettingLeaf v) [] key = None"
      by (cases "split_on CHR ''.'' key") (simp_all add: below_def path_after_def)
    ultimately show ?thesis
      using 2 by simp
  next
    case False
    thus ?thesis
      using 2 dotted_nonempty [OF False] by (simp add: update_conv' below_leaf)
  qed
next
  case (3 pre r)
  have "setting_at (SettingMap []) ks = (None :: 'a option)" for ks :: "string list"
    by (cases ks) simp_all
  hence "below (SettingMap []) pp key = (None :: 'a option)"
    by (cases "path_after pp (split_on CHR ''.'' key)") (simp_all add: below_def)
  thus ?case
    by simp
next
  case (4 k v kvs pre r)
  let ?pre = "if pre = [] then k else pre @ ''.'' @ k"
  have k: "plain_name k" "k \<notin> fst ` set kvs" "plain_setting v" "plain_entries kvs"
    using "4.prems"(1) by simp_all
  have pre: "?pre = dotted (pp @ [k])"
    using "4.prems"(2,3) dotted_nonempty [of pp] dotted_append [of pp k] by (cases "pp = []") auto
  have names: "list_all plain_name (pp @ [k])"
    using "4.prems"(2) k(1) by simp
  show ?case
    unfolding flatten_entries.simps "4.IH"(2) [OF k(4) "4.prems"(2,3)] "4.IH"(1) [OF k(3) names pre] below_entry [OF k(2)]
    by (cases "below (SettingMap kvs) pp key") simp_all
qed

text \<open>
  The provider answers a key with what the tree holds at the path the key spells, for every key, provided that no
  name in the tree is empty or contains a dot.
\<close>

theorem provider_reads_tree:
  assumes "plain_setting v"
  shows "provider_get_raw (provider_from_annotated v) key = setting_at v (split_on CHR ''.'' key)"
proof -
  have "map_of (flatten_setting v [] []) key = below v [] key"
    using flatten_lookup(1) [OF assms, of "[]" "[]" "[]" key] by (simp split: option.split)
  thus ?thesis
    by (simp add: provider_get_raw_def provider_from_annotated_def below_def path_after_def)
qed

definition demo_tree :: "nat setting" where
  "demo_tree = SettingMap [(''app'', SettingMap [(''dc_id'', SettingLeaf 3), (''name'', SettingLeaf 7)]), (''x'', SettingLeaf 1)]"

lemma provider_reads_tree_witness:
  "provider_get_raw (provider_from_annotated demo_tree) ''app.dc_id'' = Some 3"
proof -
  have "plain_setting demo_tree"
    by (simp add: demo_tree_def plain_name_def)
  moreover have "split_on CHR ''.'' ''app.dc_id'' = [''app'', ''dc_id'']"
    by code_simp
  ultimately show ?thesis
    using provider_reads_tree [of demo_tree "''app.dc_id''"] by (simp add: demo_tree_def)
qed

text \<open>A name with a dot in it takes the place of a nested setting.\<close>

lemma dotted_name_shadows:
  "provider_get_raw (provider_from_annotated
     (SettingMap [(''app'', SettingMap [(''dc_id'', SettingLeaf (3 :: nat))]), (''app.dc_id'', SettingLeaf 4)])) ''app.dc_id'' =
   Some 4"
  by code_simp

section \<open>The adapter\<close>

text \<open>The typed readings of a provider; an \<open>i64\<close> is an integer, an \<open>as\<close> cast of one is \<open>of_int\<close>.\<close>

record settings =
  st_string :: "string \<Rightarrow> string option"
  st_int :: "string \<Rightarrow> int option"
  st_bool :: "string \<Rightarrow> bool option"
  st_float :: "string \<Rightarrow> rat option"

definition string_or :: "settings \<Rightarrow> string \<Rightarrow> string \<Rightarrow> string" where
  "string_or p key d = (case st_string p key of Some s \<Rightarrow> s | None \<Rightarrow> d)"

definition int_or :: "settings \<Rightarrow> string \<Rightarrow> int \<Rightarrow> 'a::len word" where
  "int_or p key d = of_int (case st_int p key of Some i \<Rightarrow> i | None \<Rightarrow> d)"

definition bool_or :: "settings \<Rightarrow> string \<Rightarrow> bool \<Rightarrow> bool" where
  "bool_or p key d = (case st_bool p key of Some b \<Rightarrow> b | None \<Rightarrow> d)"

text \<open>A setting, else an environment variable, else a fallback of debug builds, else nothing.\<close>

definition string_env_or :: "bool \<Rightarrow> env_vars \<Rightarrow> settings \<Rightarrow> string \<Rightarrow> string \<Rightarrow> string \<Rightarrow> string" where
  "string_env_or debug env p key var d =
     (case st_string p key of
        Some s \<Rightarrow> s
      | None \<Rightarrow> (case env var of Some s \<Rightarrow> s | None \<Rightarrow> if debug then d else []))"

definition adapter_app_config :: "settings \<Rightarrow> app_config" where
  "adapter_app_config p =
     \<lparr>app_name = string_or p ''app.name'' ''nebula-id'', app_host = string_or p ''app.host'' ''0.0.0.0'',
      http_port = int_or p ''app.http_port'' 8080, grpc_port = int_or p ''app.grpc_port'' 9091,
      dc_id = int_or p ''app.dc_id'' 0, worker_id = int_or p ''app.worker_id'' 0\<rparr>"

definition adapter_segment_config :: "settings \<Rightarrow> segment_config" where
  "adapter_segment_config p =
     \<lparr>base_step = int_or p ''algorithm.segment.base_step'' 1000,
      min_step = int_or p ''algorithm.segment.min_step'' 500,
      max_step = int_or p ''algorithm.segment.max_step'' 100000,
      switch_threshold =
        (case st_float p ''algorithm.segment.switch_threshold'' of Some f \<Rightarrow> f | None \<Rightarrow> f64_round (1 / 10))\<rparr>"

definition adapter_snowflake_config :: "settings \<Rightarrow> snowflake_config" where
  "adapter_snowflake_config p =
     \<lparr>datacenter_id_bits = int_or p ''algorithm.snowflake.datacenter_id_bits'' 3,
      worker_id_bits = int_or p ''algorithm.snowflake.worker_id_bits'' 8,
      sequence_bits = int_or p ''algorithm.snowflake.sequence_bits'' 10,
      clock_drift_threshold_ms = int_or p ''algorithm.snowflake.clock_drift_threshold_ms'' 1000\<rparr>"

definition adapter_uuid_v7_config :: "settings \<Rightarrow> uuid_v7_config" where
  "adapter_uuid_v7_config p = \<lparr>uuid_v7_enabled = bool_or p ''algorithm.uuid_v7.enabled'' True\<rparr>"

definition adapter_algorithm_config :: "settings \<Rightarrow> algorithm_config" where
  "adapter_algorithm_config p =
     \<lparr>default_algorithm = string_or p ''algorithm.default'' ''segment'', segment_cfg = adapter_segment_config p,
      snowflake_cfg = adapter_snowflake_config p, uuid_v7_cfg = adapter_uuid_v7_config p\<rparr>"

definition adapter_auth_config :: "env_vars \<Rightarrow> settings \<Rightarrow> auth_config" where
  "adapter_auth_config env p =
     \<lparr>auth_enabled = bool_or p ''auth.enabled'' True, cache_ttl_seconds = int_or p ''auth.cache_ttl_seconds'' 300,
      api_keys = [],
      api_key_salt =
        (case st_string p ''auth.api_key_salt'' of
           Some s \<Rightarrow> s
         | None \<Rightarrow> (case env ''NEBULA_API_KEY_SALT'' of Some s \<Rightarrow> s | None \<Rightarrow> [])),
      key_rotation_grace_period_seconds =
        (case st_int p ''auth.key_rotation_grace_period_seconds'' of
           Some v \<Rightarrow> of_int v | None \<Rightarrow> DEFAULT_KEY_ROTATION_GRACE_PERIOD_SECONDS)\<rparr>"

text \<open>
  The fields that are not named come from the default of the whole struct, which panics (\<open>None\<close>) without a
  password in the environment.
\<close>

definition adapter_database_config :: "bool \<Rightarrow> env_vars \<Rightarrow> settings \<Rightarrow> database_config option" where
  "adapter_database_config debug env p =
     map_option (\<lambda>d. d
       \<lparr>db_url := string_env_or debug env p ''database.url'' ''DATABASE_URL'' ''postgresql://localhost/nebula'',
        max_connections := int_or p ''database.max_connections'' 100,
        min_connections := int_or p ''database.min_connections'' 10,
        acquire_timeout_seconds := int_or p ''database.acquire_timeout_seconds'' 30,
        idle_timeout_seconds := int_or p ''database.idle_timeout_seconds'' 300\<rparr>)
       (database_config_default env)"

definition adapter_etcd_config :: "bool \<Rightarrow> env_vars \<Rightarrow> settings \<Rightarrow> etcd_config" where
  "adapter_etcd_config debug env p =
     \<lparr>etcd_endpoints =
        filter (\<lambda>s. s \<noteq> [])
          (map trim (split_on CHR '','' (string_env_or debug env p ''etcd.endpoints'' ''ETCD_ENDPOINTS'' ''localhost:2379''))),
      connect_timeout_ms = int_or p ''etcd.connect_timeout_ms'' 5000,
      watch_timeout_ms = int_or p ''etcd.watch_timeout_ms'' 5000\<rparr>"

definition adapter_monitoring_config :: "settings \<Rightarrow> monitoring_config" where
  "adapter_monitoring_config p =
     \<lparr>metrics_enabled = bool_or p ''monitoring.metrics_enabled'' True,
      metrics_path = string_or p ''monitoring.metrics_path'' ''/metrics'',
      tracing_enabled = bool_or p ''monitoring.tracing_enabled'' False,
      otlp_endpoint = string_or p ''monitoring.otlp_endpoint'' []\<rparr>"

definition adapter_logging_config :: "settings \<Rightarrow> logging_config" where
  "adapter_logging_config p =
     \<lparr>log_level = log_level_from (string_or p ''logging.level'' ''info''),
      log_format = log_format_from (string_or p ''logging.format'' ''json''),
      include_location = bool_or p ''logging.include_location'' True\<rparr>"

definition adapter_rate_limit_config :: "settings \<Rightarrow> rate_limit_config" where
  "adapter_rate_limit_config p =
     \<lparr>rl_enabled = bool_or p ''rate_limit.enabled'' True, default_rps = int_or p ''rate_limit.default_rps'' 10000,
      burst_size = int_or p ''rate_limit.burst_size'' 100\<rparr>"

definition adapter_tls_config :: "settings \<Rightarrow> tls_config" where
  "adapter_tls_config p = tls_config_default
     \<lparr>tls_enabled := bool_or p ''tls.enabled'' False, tls_cert_path := string_or p ''tls.cert_path'' [],
      tls_key_path := string_or p ''tls.key_path'' [], tls_ca_path := st_string p ''tls.ca_path'',
      tls_http_enabled := bool_or p ''tls.http_enabled'' False,
      tls_grpc_enabled := bool_or p ''tls.grpc_enabled'' False\<rparr>"

definition adapter_batch_generate_config :: "settings \<Rightarrow> batch_generate_config" where
  "adapter_batch_generate_config p = \<lparr>max_batch_size = int_or p ''batch_generate.max_batch_size'' 100\<rparr>"

definition adapter_redis_config :: "bool \<Rightarrow> env_vars \<Rightarrow> settings \<Rightarrow> redis_config" where
  "adapter_redis_config debug env p =
     \<lparr>redis_url = string_env_or debug env p ''redis.url'' ''REDIS_URL'' ''redis://localhost:6379'',
      redis_pool_size = int_or p ''redis.pool_size'' 16,
      redis_key_prefix = string_or p ''redis.key_prefix'' ''nebula:id:'',
      redis_ttl_seconds = int_or p ''redis.ttl_seconds'' 600\<rparr>"

definition adapter_config :: "bool \<Rightarrow> env_vars \<Rightarrow> settings \<Rightarrow> config option" where
  "adapter_config debug env p =
     map_option (\<lambda>db.
       \<lparr>cfg_app = adapter_app_config p, cfg_database = db, cfg_redis = adapter_redis_config debug env p,
        cfg_etcd = adapter_etcd_config debug env p, cfg_auth = adapter_auth_config env p,
        cfg_algorithm = adapter_algorithm_config p, cfg_monitoring = adapter_monitoring_config p,
        cfg_logging = adapter_logging_config p, cfg_rate_limit = adapter_rate_limit_config p,
        cfg_tls = adapter_tls_config p, cfg_batch_generate = adapter_batch_generate_config p\<rparr>)
       (adapter_database_config debug env p)"

section \<open>Reading back a configuration\<close>

text \<open>The settings that spell out a configuration; a 64-bit number above the range of an \<open>i64\<close> is a negative one.\<close>

definition settings_of :: "config \<Rightarrow> settings" where
  "settings_of c =
     (let app = cfg_app c; sg = segment_cfg (cfg_algorithm c); sf = snowflake_cfg (cfg_algorithm c);
          db = cfg_database c; au = cfg_auth c; et = cfg_etcd c; mo = cfg_monitoring c; lo = cfg_logging c;
          rl = cfg_rate_limit c; tls = cfg_tls c; re = cfg_redis c in
      \<lparr>st_string = map_of
         ([(''app.name'', app_name app), (''app.host'', app_host app),
           (''algorithm.default'', default_algorithm (cfg_algorithm c)), (''auth.api_key_salt'', api_key_salt au),
           (''database.url'', db_url db), (''etcd.endpoints'', join_on CHR '','' (etcd_endpoints et)),
           (''monitoring.metrics_path'', metrics_path mo), (''monitoring.otlp_endpoint'', otlp_endpoint mo),
           (''logging.level'', log_level_name (log_level lo)), (''logging.format'', log_format_name (log_format lo)),
           (''tls.cert_path'', tls_cert_path tls), (''tls.key_path'', tls_key_path tls),
           (''redis.url'', redis_url re), (''redis.key_prefix'', redis_key_prefix re)] @
          (case tls_ca_path tls of Some path \<Rightarrow> [(''tls.ca_path'', path)] | None \<Rightarrow> [])),
       st_int = map_of
         [(''app.http_port'', uint (http_port app)), (''app.grpc_port'', uint (grpc_port app)),
          (''app.dc_id'', uint (dc_id app)), (''app.worker_id'', uint (worker_id app)),
          (''algorithm.segment.base_step'', sint (base_step sg)), (''algorithm.segment.min_step'', sint (min_step sg)),
          (''algorithm.segment.max_step'', sint (max_step sg)),
          (''algorithm.snowflake.datacenter_id_bits'', uint (datacenter_id_bits sf)),
          (''algorithm.snowflake.worker_id_bits'', uint (worker_id_bits sf)),
          (''algorithm.snowflake.sequence_bits'', uint (sequence_bits sf)),
          (''algorithm.snowflake.clock_drift_threshold_ms'', sint (clock_drift_threshold_ms sf)),
          (''auth.cache_ttl_seconds'', sint (cache_ttl_seconds au)),
          (''auth.key_rotation_grace_period_seconds'', sint (key_rotation_grace_period_seconds au)),
          (''database.max_connections'', uint (max_connections db)),
          (''database.min_connections'', uint (min_connections db)),
          (''database.acquire_timeout_seconds'', sint (acquire_timeout_seconds db)),
          (''database.idle_timeout_seconds'', sint (idle_timeout_seconds db)),
          (''etcd.connect_timeout_ms'', sint (connect_timeout_ms et)),
          (''etcd.watch_timeout_ms'', sint (watch_timeout_ms et)),
          (''rate_limit.default_rps'', uint (default_rps rl)), (''rate_limit.burst_size'', uint (burst_size rl)),
          (''batch_generate.max_batch_size'', uint (max_batch_size (cfg_batch_generate c))),
          (''redis.pool_size'', uint (redis_pool_size re)), (''redis.ttl_seconds'', sint (redis_ttl_seconds re))],
       st_bool = map_of
         [(''algorithm.uuid_v7.enabled'', uuid_v7_enabled (uuid_v7_cfg (cfg_algorithm c))),
          (''auth.enabled'', auth_enabled au), (''monitoring.metrics_enabled'', metrics_enabled mo),
          (''monitoring.tracing_enabled'', tracing_enabled mo), (''logging.include_location'', include_location lo),
          (''rate_limit.enabled'', rl_enabled rl), (''tls.enabled'', tls_enabled tls),
          (''tls.http_enabled'', tls_http_enabled tls), (''tls.grpc_enabled'', tls_grpc_enabled tls)],
       st_float = map_of [(''algorithm.segment.switch_threshold'', switch_threshold sg)]\<rparr>)"

text \<open>What the settings cannot say, and comes from defaults.\<close>

definition readable_part :: "database_config \<Rightarrow> config \<Rightarrow> config" where
  "readable_part d c = c
     \<lparr>cfg_database := d
        \<lparr>db_url := db_url (cfg_database c), max_connections := max_connections (cfg_database c),
         min_connections := min_connections (cfg_database c),
         acquire_timeout_seconds := acquire_timeout_seconds (cfg_database c),
         idle_timeout_seconds := idle_timeout_seconds (cfg_database c)\<rparr>,
      cfg_auth := (cfg_auth c)\<lparr>api_keys := []\<rparr>,
      cfg_tls := (cfg_tls c)
        \<lparr>min_tls_version := min_tls_version tls_config_default, alpn_protocols := alpn_protocols tls_config_default\<rparr>\<rparr>"

lemma of_int_uint_word: "(of_int (uint w) :: 'a::len word) = w"
  by simp

lemma of_int_sint_word: "(of_int (sint w) :: 'a::len word) = w"
  by simp

lemma level_roundtrip: "log_level_from (log_level_name l) = l"
proof -
  have "log_level_from ''trace'' = LTrace" "log_level_from ''debug'' = LDebug" "log_level_from ''info'' = LInfo"
      "log_level_from ''warn'' = LWarn" "log_level_from ''error'' = LError"
    by code_simp+
  thus ?thesis
    by (cases l) simp_all
qed

lemma format_roundtrip: "log_format_from (log_format_name f) = f"
proof -
  have "log_format_from ''json'' = FJson" "log_format_from ''pretty'' = FPretty"
    by code_simp+
  thus ?thesis
    by (cases f) simp_all
qed

lemma endpoints_roundtrip:
  assumes "\<forall>e \<in> set es. e \<noteq> [] \<and> trim e = e \<and> CHR '','' \<notin> set e"
  shows "filter (\<lambda>s. s \<noteq> []) (map trim (split_on CHR '','' (join_on CHR '','' es))) = es"
proof (cases "es = []")
  case True
  thus ?thesis
    by (simp add: trim_def)
next
  case False
  thus ?thesis
    using assms by (simp add: split_join map_idI)
qed

lemma int_or_some: "st_int p key = Some i \<Longrightarrow> int_or p key d = of_int i"
  by (simp add: int_or_def)

lemma string_or_some: "st_string p key = Some s \<Longrightarrow> string_or p key d = s"
  by (simp add: string_or_def)

lemma bool_or_some: "st_bool p key = Some b \<Longrightarrow> bool_or p key d = b"
  by (simp add: bool_or_def)

lemmas settings_simps = settings_of_def Let_def int_or_def string_or_def bool_or_def string_env_or_def

lemma app_roundtrip: "adapter_app_config (settings_of c) = cfg_app c"
  by (simp add: adapter_app_config_def settings_simps)

lemma algorithm_roundtrip: "adapter_algorithm_config (settings_of c) = cfg_algorithm c"
  by (simp add: adapter_algorithm_config_def adapter_segment_config_def adapter_snowflake_config_def
      adapter_uuid_v7_config_def settings_simps)

lemma auth_roundtrip: "adapter_auth_config env (settings_of c) = (cfg_auth c)\<lparr>api_keys := []\<rparr>"
  by (simp add: adapter_auth_config_def settings_simps)

lemma database_roundtrip:
  "database_config_default env = Some d \<Longrightarrow>
    adapter_database_config debug env (settings_of c) = Some (cfg_database (readable_part d c))"
  by (simp add: adapter_database_config_def readable_part_def settings_simps)

lemma etcd_roundtrip:
  "\<forall>e \<in> set (etcd_endpoints (cfg_etcd c)). e \<noteq> [] \<and> trim e = e \<and> CHR '','' \<notin> set e \<Longrightarrow>
    adapter_etcd_config debug env (settings_of c) = cfg_etcd c"
  by (simp add: adapter_etcd_config_def settings_simps endpoints_roundtrip)

lemma monitoring_roundtrip: "adapter_monitoring_config (settings_of c) = cfg_monitoring c"
  by (simp add: adapter_monitoring_config_def settings_simps)

lemma logging_roundtrip: "adapter_logging_config (settings_of c) = cfg_logging c"
  by (simp add: adapter_logging_config_def settings_simps level_roundtrip format_roundtrip)

lemma limits_roundtrip:
  "adapter_rate_limit_config (settings_of c) = cfg_rate_limit c"
  "adapter_batch_generate_config (settings_of c) = cfg_batch_generate c"
  by (simp_all add: adapter_rate_limit_config_def adapter_batch_generate_config_def settings_simps)

lemma tls_roundtrip: "adapter_tls_config (settings_of c) = cfg_tls (readable_part d c)"
  by (simp add: adapter_tls_config_def settings_simps readable_part_def tls_config_default_def split: option.split)

lemma redis_roundtrip: "adapter_redis_config debug env (settings_of c) = cfg_redis c"
  by (simp add: adapter_redis_config_def settings_simps)

text \<open>
  A configuration that is spelled out as settings is read back as it was, except for its API keys, the minimal TLS
  version and the protocols, and how the database is reached without a URL: these are not read at all.
\<close>

theorem config_read_back:
  assumes "database_config_default env = Some d"
    and "\<forall>e \<in> set (etcd_endpoints (cfg_etcd c)). e \<noteq> [] \<and> trim e = e \<and> CHR '','' \<notin> set e"
  shows "adapter_config debug env (settings_of c) = Some (readable_part d c)"
proof -
  have parts: "readable_part d c = c\<lparr>cfg_database := cfg_database (readable_part d c),
      cfg_auth := (cfg_auth c)\<lparr>api_keys := []\<rparr>, cfg_tls := cfg_tls (readable_part d c)\<rparr>"
    by (simp add: readable_part_def)
  show ?thesis
    by (subst parts) (simp add: adapter_config_def database_roundtrip [OF assms(1)] app_roundtrip algorithm_roundtrip
        auth_roundtrip etcd_roundtrip [OF assms(2)] monitoring_roundtrip logging_roundtrip limits_roundtrip
        tls_roundtrip [of c d] redis_roundtrip)
qed

lemma config_read_back_witness:
  "adapter_config False test_env (settings_of test_config) = Some test_config"
proof -
  have unset: "test_env name = None" if "name \<noteq> ''NEBULA_TEST_MODE''" for name
    using that by (simp add: test_env_def)
  obtain d where d: "database_config_default test_env = Some d"
    using config_default_test by (auto simp: config_default_def)
  have parts: "cfg_database test_config = d" "cfg_etcd test_config = etcd_config_default"
      "cfg_auth test_config = auth_config_default test_env" "cfg_tls test_config = tls_config_default"
    by (simp_all add: test_config_def config_default_def d)
  have "trim ''etcd:2379'' = ''etcd:2379''"
    by code_simp
  hence e: "\<forall>e \<in> set (etcd_endpoints (cfg_etcd test_config)). e \<noteq> [] \<and> trim e = e \<and> CHR '','' \<notin> set e"
    by (simp add: parts etcd_config_default_def)
  have "readable_part d test_config = test_config"
    by (simp add: readable_part_def parts auth_config_default_def)
  with config_read_back [OF d e, of False] show ?thesis
    by simp
qed

section \<open>What goes wrong\<close>

text \<open>A number out of range is cut to the width of its field, without a word.\<close>

lemma settings_wrap:
  assumes "st_int p ''app.http_port'' = Some 65616" and "st_int p ''app.dc_id'' = Some 259"
    and "st_int p ''app.worker_id'' = Some (- 1)"
  shows "http_port (adapter_app_config p) = 80" and "dc_id (adapter_app_config p) = 3"
    and "worker_id (adapter_app_config p) = 255"
  using assms by (simp_all add: adapter_app_config_def int_or_def)

text \<open>A URL in the settings does not help: without a password in the environment the adapter panics.\<close>

theorem adapter_needs_password:
  assumes "env ''DATABASE_URL'' = None" and "env ''NEBULA_TEST_MODE'' = None" and "env ''NEBULA_DATABASE_PASSWORD'' = None"
  shows "adapter_config debug env p = None"
  using assms by (simp add: adapter_config_def adapter_database_config_def database_config_default_def)

lemma adapter_needs_password_witness: "adapter_config True Map.empty (settings_of test_config) = None"
  by (rule adapter_needs_password) simp_all

end
