(* ===== verification/Spec2Isabelle.thy ===== *)
theory Spec2Isabelle
  imports Snowflake_Race Dc_Health Step_Calc Breaker_Race App_Config Local_Lock Segment_Repo Segment_Loader
    Error_Response Id_Handlers Memory_Dao Etcd_Monitor Alert_Manager Grpc Dynamic_Config Auth_Manager Startup Config_Adapter
begin

text \<open>
  NebulaId, a distributed identifier generator (\<open>src/src\<close>), as a library of definitions translated from
  its Rust code and the theorems that make them correct.

  \<^bold>\<open>The program.\<close> A service answers HTTP requests for identifiers. A request passes the authentication
  middleware (\<open>server/middleware/api_key_auth.rs\<close>), its route (\<open>server/router.rs\<close>) and a handler
  (\<open>server/handlers\<close>), which asks the algorithm router (\<open>core/algorithm/router.rs\<close>) for identifiers. The
  router calls one of three algorithms, with fallback: Snowflake (clock, node numbers, sequence number),
  segments (ranges fetched from the database into a double buffer) and UUIDs. Segments come from loaders,
  which allocate ranges in a table under a distributed lock. Around this stand degradation and circuit
  breaking, failover between data centres, the tables of workspaces, groups, tags and API keys, the
  configuration, audit, metrics and alerts, and a gRPC service for the same identifiers.

  \<^bold>\<open>Theories.\<close>

  \<^item> \<open>Prelude\<close>, \<open>F64\<close>: machine integers, decimal text, packed bits; doubles as rationals rounded to
    53 bits.
  \<^item> \<open>Types_Id\<close>: \<open>core/types/id.rs\<close>, \<open>error.rs\<close>. Printing and parsing of identifiers are round trips.
  \<^item> \<open>Config_Alg\<close>, \<open>App_Config\<close>: \<open>core/config\<close>. What validation guarantees, what it lets through, and
    what start-up makes of a file and the environment.
  \<^item> \<open>Alg_Traits\<close>: \<open>core/algorithm/traits.rs\<close>; the contract \<open>id_source\<close> of a generator, met by
    Snowflake and by segments.
  \<^item> \<open>Snowflake_Gen\<close>, \<open>Snowflake_Race\<close>: \<open>core/algorithm/snowflake.rs\<close>, sequentially (strictly increasing,
    disjoint between nodes, termination once the clock moves) and as interleaved atomic steps, where
    two calls can return the same identifier. The two agree for a task that runs alone.
  \<^item> \<open>Segment_Gen\<close>, \<open>Step_Calc\<close>, \<open>Dc_Health\<close>, \<open>Segment_Loader\<close>: \<open>core/algorithm/segment.rs\<close>; the double
    buffer, the dynamic step and its window of requests, failure detection, and the loaders.
  \<^item> \<open>Local_Lock\<close>: \<open>core/coordinator/local.rs\<close>; the contract \<open>distributed_lock\<close>, what it is that a lock
    excludes (\<open>lock_excludes\<close>), and the race between the test and the insertion of an acquisition.
  \<^item> \<open>Segment_Repo\<close>: the \<open>SegmentRepository\<close> of \<open>core/database/repository.rs\<close>, one allocation after
    another, over \<open>db_contract\<close> and \<open>distributed_lock\<close>: ranges, failures, and locks that errors leave.
  \<^item> \<open>Segment_Race\<close>: the same allocations at the same time, as tasks of any number of nodes whose calls
    of the lock and of the shared database interleave (\<open>shared_table\<close>). Under a lock that excludes, the
    ranges of a tag are disjoint; under the local lock they are not, nor are those of allocations that
    name a data centre and of allocations that name none. \<open>Segment_Loader\<close> composes these steps with
    the generator: nodes that share a database under a lock that excludes never collide.
  \<^item> \<open>Uuid_Gen\<close>: \<open>core/algorithm/uuid_v7.rs\<close>.
  \<^item> \<open>Circuit_Breaker\<close>, \<open>Breaker_Race\<close>: \<open>core/algorithm/circuit_breaker.rs\<close>, with its operations as
    single steps and as the interleaved atomic ones they are, which can leave the breaker open for ever.
    A task that runs alone does the same in both.
  \<^item> \<open>Degradation\<close>, \<open>Router\<close>: the files of these names in \<open>core/algorithm\<close>. The router is proved equal to
    a reference loop; the modelled algorithms are an instance of its parameter.
  \<^item> \<open>Id_Handlers\<close>, \<open>Error_Response\<close>: \<open>server/handlers/id_handlers.rs\<close>, \<open>mod.rs\<close>, \<open>helpers.rs\<close>; batch
    limits, counters, parsing, and error bodies without internal detail.
  \<^item> \<open>Db_Table\<close>: a table behind the ORM, with the contracts \<open>sql_table\<close> and \<open>sql_frame\<close>, and a concrete
    table with faults that meets them.
  \<^item> \<open>Org_Repo\<close>: workspaces, groups and tags, their repositories and the references between them.
  \<^item> \<open>Api_Keys\<close>, \<open>Key_Handlers\<close>: the key repository over \<open>key_store\<close>, its handlers and the keys made at
    start-up.
  \<^item> \<open>Memory_Dao\<close>: \<open>server/auth/memory_dao.rs\<close> refines an abstract store without expired entries.
  \<^item> \<open>Api_Auth\<close>: the middleware and the layers of the routes; who reaches a handler, and how failures lock
    a client out.
  \<^item> \<open>Org_Handlers\<close>: the handlers of workspaces, groups and tags (\<open>server/handlers\<close>) over the repositories.
  \<^item> \<open>Routes\<close>: the route functions of \<open>server/router.rs\<close> with their checks; the contract \<open>site\<close> puts the
    tables of organisations and keys together, and a request reaches only what its key's workspace owns.
  \<^item> \<open>Config_Service\<close>: \<open>server/config\<close>, hot reload and the changes of the configuration at run time, and
    \<open>server/handlers/system_handlers.rs\<close>.
  \<^item> \<open>Etcd_Coord\<close>, \<open>Etcd_Monitor\<close>: \<open>core/coordinator/etcd.rs\<close>; worker numbers and locks as atomic steps of
    tasks over the contract \<open>etcd_store\<close> of a cluster (leases, time, lost answers), met by the client
    wrapper over a concrete cluster. Numbers and locks exclude while leases live, if releases are in
    time; a late release, or one whose answer is lost, gives a number to two allocators. The health
    monitor and its cache.
  \<^item> \<open>Web_Layers\<close>: the layers around the API routes: size limit, CORS, security headers, locale
    negotiation and API version.
  \<^item> \<open>Ip_Addr\<close>, \<open>Rate_Limit\<close>, \<open>Audit_Log\<close>: the text of IP addresses; \<open>server/rate_limit\<close> with a contract
    of a token bucket; \<open>server/audit\<close> and \<open>core/algorithm/audit_trait.rs\<close>, from an event to the file.
  \<^item> \<open>Metrics\<close>, \<open>Alerts\<close>, \<open>Alert_Manager\<close>: \<open>core/types/metrics.rs\<close> and \<open>core/monitoring/core.rs\<close>;
    counters, rules and their states, and the manager that evaluates them.
  \<^item> \<open>Grpc\<close>: \<open>server/grpc.rs\<close>, single, batch and streamed requests.
  \<^item> \<open>Dynamic_Config\<close>: \<open>core/config/dynamic.rs\<close>, the configuration of tags, with the transactional
    deletion of a group.
  \<^item> \<open>Auth_Manager\<close>: \<open>core/auth/manager.rs\<close> over a cache with a time to live.
  \<^item> \<open>Startup\<close>: \<open>main.rs\<close> and \<open>server/config/tls.rs\<close>, from the configuration to the two servers and the
    end of the process.
  \<^item> \<open>Config_Adapter\<close>: \<open>infrastructure/config_provider.rs\<close> and \<open>config_adapter.rs\<close>, the configuration read
    from a tree of settings.

  \<^bold>\<open>Conventions.\<close> A struct is a record, an enum a datatype, a machine integer a word of its width (or an
  integer with the bounds written out where a database column holds it), \<open>Result\<close> a sum with \<open>Inl\<close> for
  \<open>Err\<close>. State is passed explicitly; an operation returns its answer and the new state. Clock readings,
  random draws and the answers of foreign code are inputs. Hash maps are association lists whose order
  stands for the unspecified iteration order. Third-party code is a parameter, with what it documents as
  a locale or a named hypothesis, and every locale has an interpretation on definitions of the
  development. An operation that waits is an option, \<open>None\<close> while it still waits: the lists of readings
  and answers are the fuel, and \<open>generate_id_returns\<close> and \<open>request_answered\<close> say when they suffice.

  \<^bold>\<open>Order.\<close> Where a theory has an operation as one step, a sequence of operations is one after another.
  The operations that the code interleaves with effect are also there as steps of tasks: Snowflake,
  segment allocation, the local lock, the circuit breaker, and the etcd allocator and lock.

  \<^bold>\<open>Not modelled.\<close> Tracing output, the wire formats and the web framework, the TLS protocol, the etcd
  cluster beyond its contract, the timers of the background tasks (their bodies are operations that are
  called), the concurrency limiter, the dependency container, translation catalogues, and generated code.
\<close>

end
